(* ===== verification/Kvelmo_Prelude.thy ===== *)
theory Kvelmo_Prelude
  imports Main "HOL-Library.AList" "HOL-Library.Multiset" "HOL-Library.Char_ord" "HOL-Library.List_Lexorder"
begin

text \<open>
  Shared material of the kvelmo development.

  \<^item> A Go \<^verbatim>\<open>map\<close> whose iteration order the code uses (\<^verbatim>\<open>for k, v := range m\<close>) is an
    association list with distinct keys; the order of the list is the order the runtime happens
    to choose, so a theorem about every list is a theorem about every iteration order. A Go map
    that the code only reads and writes by key is a partial function.
  \<^item> A Go \<^verbatim>\<open>string\<close> is a list of bytes (\<open>string\<close>), ordered lexicographically as Go's
    \<^verbatim>\<open><\<close> and \<^verbatim>\<open>slices.Sort\<close> do.
  \<^item> \<^verbatim>\<open>time.Time\<close> and \<^verbatim>\<open>time.Duration\<close> are integers (nanoseconds); every call of
    \<^verbatim>\<open>time.Now()\<close> is an argument \<open>now\<close> of the definition that makes it.
  \<^item> A Go \<^verbatim>\<open>error\<close> result is the left summand of a sum type.
\<close>

section \<open>Collections of rewrite rules\<close>

named_theorems lifecycle_simps \<open>unfolding rules of the conductor's state machine\<close>

section \<open>Names of the model's base types\<close>

type_synonym time = int
type_synonym duration = int
type_synonym ('k, 'v) gomap = "('k \<times> 'v) list"
type_synonym 'a result = "string + 'a"

section \<open>Go maps as association lists\<close>

text \<open>
  The interface of a Go map as its clients use it: what an index expression returns after an
  assignment and after \<^verbatim>\<open>delete\<close>, and that both keep the keys distinct.
\<close>

locale go_map =
  fixes look :: "'m \<Rightarrow> 'k \<Rightarrow> 'v option"
    and put :: "'k \<Rightarrow> 'v \<Rightarrow> 'm \<Rightarrow> 'm"
    and del :: "'k \<Rightarrow> 'm \<Rightarrow> 'm"
    and wf :: "'m \<Rightarrow> bool"
  assumes look_put: "look (put k v m) k' = (if k' = k then Some v else look m k')"
    and look_del: "look (del k m) k' = (if k' = k then None else look m k')"
    and wf_put: "wf m \<Longrightarrow> wf (put k v m)"
    and wf_del: "wf m \<Longrightarrow> wf (del k m)"
begin

lemma look_put_same: "look (put k v m) k = Some v"
  by (simp add: look_put)

lemma look_put_other: "k' \<noteq> k \<Longrightarrow> look (put k v m) k' = look m k'"
  by (simp add: look_put)

lemma look_put_put: "look (put k v (put k w m)) = look (put k v m)"
  by (rule ext) (simp add: look_put)

lemma look_put_del: "look (put k v (del k m)) = look (put k v m)"
  by (rule ext) (simp add: look_put look_del)

lemma put_keeps_present: "look m k' \<noteq> None \<Longrightarrow> look (put k v m) k' \<noteq> None"
  by (simp add: look_put)

end

abbreviation wf_map :: "('k, 'v) gomap \<Rightarrow> bool" where
  "wf_map m \<equiv> distinct (map fst m)"

interpretation gm: go_map map_of AList.update AList.delete wf_map
  by unfold_locales (auto simp: update_conv' delete_conv' distinct_update distinct_delete)

lemmas gomap_simps [simp] = gm.look_put gm.look_del

lemma wf_map_update [simp, intro]: "wf_map m \<Longrightarrow> wf_map (AList.update k v m)"
  by (rule gm.wf_put)

lemma wf_map_delete [simp, intro]: "wf_map m \<Longrightarrow> wf_map (AList.delete k m)"
  by (rule gm.wf_del)

lemma fst_set_update: "fst ` set (AList.update k v m) = insert k (fst ` set m)"
  by (simp add: dom_update)

lemma snd_set_update: "snd ` set (AList.update k v m) \<subseteq> insert v (snd ` set m)"
  by (induction m) (auto split: if_splits)

lemma snd_set_delete: "snd ` set (AList.delete k m) \<subseteq> snd ` set m"
  by (induction m) auto

lemma map_fst_update_present:
  "k \<in> fst ` set m \<Longrightarrow> map fst (AList.update k v m) = map fst m"
  by (induction m) (auto split: if_splits)

lemma wf_map_ran: "wf_map m \<Longrightarrow> (k, v) \<in> set m \<longleftrightarrow> map_of m k = Some v"
  by simp

lemma ball_values_wf:
  assumes "wf_map m"
  shows "(\<forall>(k, v) \<in> set m. P k v) \<longleftrightarrow> (\<forall>k v. map_of m k = Some v \<longrightarrow> P k v)"
  using assms by (auto simp flip: wf_map_ran)

lemma map_of_filter_pair:
  "wf_map m \<Longrightarrow> map_of (filter (\<lambda>(k, v). P k v) m) k = (case map_of m k of None \<Rightarrow> None | Some v \<Rightarrow> if P k v then Some v else None)"
proof (induction m)
  case (Cons kv m)
  have "map_of (filter (\<lambda>(k, v). P k v) m) k = None" if "k \<notin> fst ` set m" for k
    using that by (force simp: map_of_eq_None_iff)
  with Cons show ?case by (auto split: option.splits)
qed simp

section \<open>Reachable states and invariants\<close>

text \<open>
  The states a component can get to: from an initial state by any finite sequence of its steps.
  An invariant of the component is proved once and for all in the locale below; each stateful
  component interprets it with its own initial states, step relation and invariant.
\<close>

inductive reachable :: "('s \<Rightarrow> bool) \<Rightarrow> ('s \<Rightarrow> 's \<Rightarrow> bool) \<Rightarrow> 's \<Rightarrow> bool"
  for init :: "'s \<Rightarrow> bool" and step :: "'s \<Rightarrow> 's \<Rightarrow> bool" where
  reach_init: "init s \<Longrightarrow> reachable init step s"
| reach_step: "reachable init step s \<Longrightarrow> step s t \<Longrightarrow> reachable init step t"

locale step_invariant =
  fixes init :: "'s \<Rightarrow> bool" and step :: "'s \<Rightarrow> 's \<Rightarrow> bool" and inv :: "'s \<Rightarrow> bool"
  assumes inv_init: "init s \<Longrightarrow> inv s"
    and inv_step: "inv s \<Longrightarrow> step s t \<Longrightarrow> inv t"
begin

lemma reachable_inv: "reachable init step s \<Longrightarrow> inv s"
  by (induction rule: reachable.induct) (auto intro: inv_init inv_step)

lemma run_inv: "step\<^sup>*\<^sup>* s t \<Longrightarrow> inv s \<Longrightarrow> inv t"
  by (induction rule: rtranclp_induct) (auto intro: inv_step)

end

section \<open>Lists\<close>

lemma list_ex_find: "list_ex P xs \<longleftrightarrow> List.find P xs \<noteq> None"
  by (induction xs) auto

lemma butlast_last_append: "xs \<noteq> [] \<Longrightarrow> butlast xs @ last xs # ys = xs @ ys"
  by (cases xs rule: rev_cases) simp_all

lemma distinct_submset:
  assumes "mset xs \<subseteq># mset ys" and "distinct ys"
  shows "distinct xs"
proof -
  obtain M where M: "mset ys = mset xs + M" using assms(1) by (metis subset_mset.le_iff_add)
  obtain zs where "mset zs = M" using ex_mset by blast
  with M have "mset ys = mset (xs @ zs)" by simp
  from mset_eq_imp_distinct_iff [OF this] assms(2) show ?thesis by simp
qed

text \<open>A preorder that holds along every step holds along a fold.\<close>

lemma fold_chain:
  assumes "\<And>x q. R q (f x q)" and "\<And>q. R q q" and "\<And>q r s. R q r \<Longrightarrow> R r s \<Longrightarrow> R q s"
  shows "R p (fold f xs p)"
proof (induction xs arbitrary: p)
  case (Cons x xs)
  show ?case unfolding fold_simps by (rule assms(3) [OF assms(1) Cons.IH])
qed (simp add: assms(2))

section \<open>Decimal numerals\<close>

text \<open>The rendering of an integer by \<^verbatim>\<open>%d\<close>, and its inverse on digit strings.\<close>

fun decimal :: "nat \<Rightarrow> string" where
  "decimal n = (if n < 10 then [char_of (48 + n)] else decimal (n div 10) @ [char_of (48 + n mod 10)])"

declare decimal.simps [simp del]

definition format_int :: "int \<Rightarrow> string" where
  "format_int i = (if i < 0 then ''-'' @ decimal (nat (- i)) else decimal (nat i))"

definition undecimal :: "string \<Rightarrow> nat" where
  "undecimal = foldl (\<lambda>acc c. acc * 10 + (of_char c - 48)) 0"

lemma of_char_digit: "n < 10 \<Longrightarrow> of_char (char_of (48 + n)) = (48 + n :: nat)"
  by simp

lemma undecimal_decimal [simp]: "undecimal (decimal n) = n"
proof (induction n rule: decimal.induct)
  case (1 n)
  then show ?case
    by (subst decimal.simps) (auto simp: undecimal_def of_char_digit)
qed

lemma decimal_inject [simp]: "decimal m = decimal n \<longleftrightarrow> m = n"
  by (metis undecimal_decimal)

lemma decimal_no_dash: "CHR ''-'' \<notin> set (decimal n)"
proof (induction n rule: decimal.induct)
  case (1 n)
  have ne: "CHR ''-'' \<noteq> char_of (48 + k)" if "k < 10" for k :: nat
  proof
    assume "CHR ''-'' = char_of (48 + k)"
    then have "of_char (char_of (48 + k)) = (of_char (CHR ''-'') :: nat)" by simp
    then show False using of_char_digit [OF that] by simp
  qed
  show ?case
    using 1 ne [of n] ne [of "n mod 10"] by (subst decimal.simps) auto
qed

end
