(* ===== verification/Go_Text.thy ===== *)
theory Go_Text
  imports Kvelmo_Prelude "HOL-Library.Sublist"
begin

text \<open>
  The functions of Go's package \<^verbatim>\<open>strings\<close> that several components use. Case and white space are those of
  ASCII.
\<close>

definition toLowerChar :: "char \<Rightarrow> char" where
  "toLowerChar c = (if 65 \<le> (of_char c :: nat) \<and> of_char c \<le> (90 :: nat) then char_of (of_char c + 32 :: nat) else c)"

definition toLower :: "string \<Rightarrow> string" where
  "toLower s = map toLowerChar s"

definition isSpace :: "char \<Rightarrow> bool" where
  "isSpace c \<longleftrightarrow> c \<in> {CHR '' '', CHR 0x09, CHR 0x0A, CHR 0x0B, CHR 0x0C, CHR 0x0D}"

definition trimSpace :: "string \<Rightarrow> string" where
  "trimSpace s = rev (dropWhile isSpace (rev (dropWhile isSpace s)))"

definition trimPrefix :: "string \<Rightarrow> string \<Rightarrow> string" where
  "trimPrefix p s = (if prefix p s then drop (length p) s else s)"

definition trimSuffix :: "string \<Rightarrow> string \<Rightarrow> string" where
  "trimSuffix p s = (if suffix p s then take (length s - length p) s else s)"

text \<open>\<^verbatim>\<open>strings.Contains(s, sub)\<close>, and \<^verbatim>\<open>strings.Split\<close> and \<^verbatim>\<open>strings.Cut\<close> at a single byte.\<close>

definition containsText :: "string \<Rightarrow> string \<Rightarrow> bool" where
  "containsText s sub \<longleftrightarrow> sublist sub s"

fun splitChar :: "char \<Rightarrow> string \<Rightarrow> string list" where
  "splitChar c [] = [[]]"
| "splitChar c (x # s) = (if x = c then [] # splitChar c s
     else case splitChar c s of [] \<Rightarrow> [[x]] | p # ps \<Rightarrow> (x # p) # ps)"

definition cutChar :: "char \<Rightarrow> string \<Rightarrow> (string \<times> string) option" where
  "cutChar c s = (if c \<in> set s then Some (takeWhile (\<lambda>x. x \<noteq> c) s, drop 1 (dropWhile (\<lambda>x. x \<noteq> c) s)) else None)"

text \<open>The verb \<^verbatim>\<open>%q\<close> for a text that needs no escape, and \<^verbatim>\<open>strings.Join\<close>.\<close>

definition quote :: "string \<Rightarrow> string" where
  "quote s = [CHR 0x22] @ s @ [CHR 0x22]"

definition joinWith :: "string \<Rightarrow> string list \<Rightarrow> string" where
  "joinWith sep ss = (case ss of [] \<Rightarrow> [] | s # ss' \<Rightarrow> s @ concat (map (\<lambda>t. sep @ t) ss'))"

text \<open>\<^verbatim>\<open>strings.ReplaceAll\<close> for a pattern that is not empty, which is the only use the code makes of it.\<close>

function replaceAll :: "string \<Rightarrow> string \<Rightarrow> string \<Rightarrow> string" where
  "replaceAll pat sub s =
     (if pat = [] then s
      else if prefix pat s then sub @ replaceAll pat sub (drop (length pat) s)
      else (case s of [] \<Rightarrow> [] | c # cs \<Rightarrow> c # replaceAll pat sub cs))"
  by pat_completeness auto

termination
  by (relation "measure (\<lambda>(pat, sub, s). length s)") (auto simp: prefix_def)

declare replaceAll.simps [simp del]

text \<open>\<^verbatim>\<open>strings.Index\<close>, and \<^verbatim>\<open>strings.TrimRight\<close> and \<^verbatim>\<open>strings.Trim\<close> for a single character.\<close>

fun indexOf :: "string \<Rightarrow> string \<Rightarrow> nat option" where
  "indexOf sub [] = (if sub = [] then Some 0 else None)"
| "indexOf sub (c # s) = (if prefix sub (c # s) then Some 0 else map_option Suc (indexOf sub s))"

definition trimRight :: "char \<Rightarrow> string \<Rightarrow> string" where
  "trimRight c s = rev (dropWhile (\<lambda>x. x = c) (rev s))"

definition trimBoth :: "char \<Rightarrow> string \<Rightarrow> string" where
  "trimBoth c s = trimRight c (dropWhile (\<lambda>x. x = c) s)"

lemma splitChar_not_Nil [simp]: "splitChar c s \<noteq> []"
  by (cases s) (auto split: list.splits)

text \<open>The parts, joined by the separator, are the text, and no part contains the separator.\<close>

lemma splitChar_join: "concat (map (\<lambda>p. c # p) (splitChar c s)) = c # s"
proof (induction s)
  case (Cons x s)
  then show ?case by (cases "splitChar c s") auto
qed simp

lemma splitChar_parts: "p \<in> set (splitChar c s) \<Longrightarrow> c \<notin> set p"
proof (induction s arbitrary: p)
  case (Cons x s)
  then show ?case by (cases "splitChar c s") (auto split: if_splits)
qed simp

lemma replaceAll_Nil: "pat \<noteq> [] \<Longrightarrow> replaceAll pat sub [] = []"
  by (simp add: replaceAll.simps)

lemma replaceAll_step: "pat \<noteq> [] \<Longrightarrow> \<not> prefix pat (c # s) \<Longrightarrow> replaceAll pat sub (c # s) = c # replaceAll pat sub s"
  by (simp add: replaceAll.simps [of pat sub "c # s"])

lemma replaceAll_skip:
  assumes "pat \<noteq> []" and "hd pat \<notin> set t"
  shows "replaceAll pat sub (t @ s) = t @ replaceAll pat sub s"
  using assms(2)
proof (induction t)
  case (Cons c t)
  then have "\<not> prefix pat (c # t @ s)" using assms(1) by (cases pat) auto
  with Cons assms(1) show ?case by (simp add: replaceAll_step)
qed simp

lemma splitChar_append: "splitChar c (s @ c # t) = splitChar c s @ splitChar c t"
proof (induction s)
  case (Cons x s)
  then show ?case by (cases "splitChar c s") auto
qed simp

lemma splitChar_single: "c \<notin> set s \<Longrightarrow> splitChar c s = [s]"
  by (induction s) auto

text \<open>Splitting a text that was joined from parts without the separator gives the parts back.\<close>

lemma splitChar_joinWith:
  "parts \<noteq> [] \<Longrightarrow> \<forall>p \<in> set parts. c \<notin> set p \<Longrightarrow> splitChar c (joinWith [c] parts) = parts"
proof (induction parts)
  case (Cons p ps)
  then show ?case
    by (cases ps) (auto simp: joinWith_def splitChar_single splitChar_append)
qed simp

text \<open>A single-character pattern is replaced in one pass.\<close>

lemma replaceAll_absent: "pat \<noteq> [] \<Longrightarrow> hd pat \<notin> set t \<Longrightarrow> replaceAll pat sub t = t"
  using replaceAll_skip [of pat t sub "[]"] by (simp add: replaceAll_Nil)

lemma indexOf_Some: "indexOf sub s = Some n \<Longrightarrow> n \<le> length s \<and> prefix sub (drop n s)"
  by (induction s arbitrary: n) (auto split: if_splits)

lemma indexOf_None: "indexOf sub s = None \<longleftrightarrow> \<not> containsText s sub"
  by (induction s) (auto simp: containsText_def sublist_Cons_right)

lemma trimRight_prefix: "prefix (trimRight c s) s"
  unfolding trimRight_def by (metis rev_rev_ident suffix_dropWhile suffix_to_prefix)

lemma trimRight_last: "trimRight c s \<noteq> [] \<Longrightarrow> last (trimRight c s) \<noteq> c"
  using hd_dropWhile [of "\<lambda>x. x = c" "rev s"] by (simp add: trimRight_def last_rev)

lemma trimRight_id: "s = [] \<or> last s \<noteq> c \<Longrightarrow> trimRight c s = s"
  by (cases s rule: rev_cases) (auto simp: trimRight_def)

lemma containsText_sublist: "sublist t s \<Longrightarrow> containsText t sub \<Longrightarrow> containsText s sub"
  unfolding containsText_def using sublist_order.order.trans by blast

end
