(* ===== verification/Findings.thy ===== *)
theory Findings
  imports Complex_Main Go_Text
begin

text \<open>
  Findings of reviews and checks (src/internal/findings): severities, gates and profiles, the classification by the
  diff, and the merging of the findings of several agents; with the conversions of quality reports and policy
  violations (src/internal/quality/findings.go, src/internal/policy/findings.go) and the parser of agents' reviews
  (src/internal/conductor/conductor_consensus.go, conductor_adversarial.go, conductor_hold_the_line.go).

  A score is a \<^verbatim>\<open>float64\<close> with integral values, so it is an integer; a threshold is a rational number. The
  text of a threshold in a message is a parameter.
\<close>

section \<open>Findings\<close>

type_synonym Severity = int

definition SeverityCritical :: Severity where "SeverityCritical = 0"
definition SeverityHigh :: Severity where "SeverityHigh = 1"
definition SeverityMedium :: Severity where "SeverityMedium = 2"
definition SeverityLow :: Severity where "SeverityLow = 3"
definition SeverityInfo :: Severity where "SeverityInfo = 4"

lemmas severities = SeverityCritical_def SeverityHigh_def SeverityMedium_def SeverityLow_def SeverityInfo_def

definition severityString :: "Severity \<Rightarrow> string" where
  "severityString s =
     (if s = SeverityCritical then ''critical'' else if s = SeverityHigh then ''high''
      else if s = SeverityMedium then ''medium'' else if s = SeverityLow then ''low''
      else if s = SeverityInfo then ''info'' else ''unknown'')"

definition OriginIntroduced :: string where "OriginIntroduced = ''introduced''"
definition OriginPreExisting :: string where "OriginPreExisting = ''pre_existing''"
definition OriginUnknown :: string where "OriginUnknown = ''unknown''"

lemmas origins = OriginIntroduced_def OriginPreExisting_def OriginUnknown_def

record Finding =
  fnID :: string
  fnSeverity :: Severity
  fnCategory :: string
  fnRule :: string
  fnFile :: string
  fnLine :: int
  fnMessage :: string
  fnRemediation :: string
  fnEvidence :: string
  fnSource :: string
  fnOrigin :: string
  fnClassification :: string
  fnDetectedBy :: "string list"
  fnReviewerPersona :: string

definition zeroFinding :: Finding where
  "zeroFinding = \<lparr>fnID = [], fnSeverity = 0, fnCategory = [], fnRule = [], fnFile = [], fnLine = 0, fnMessage = [],
     fnRemediation = [], fnEvidence = [], fnSource = [], fnOrigin = [], fnClassification = [], fnDetectedBy = [],
     fnReviewerPersona = []\<rparr>"

definition countAt :: "Severity \<Rightarrow> Finding list \<Rightarrow> nat" where
  "countAt level fs = length (filter (\<lambda>f. fnSeverity f = level) fs)"

definition CountBySeverity :: "Finding list \<Rightarrow> (Severity, int) gomap" where
  "CountBySeverity fs =
     fold (\<lambda>f m. AList.update (fnSeverity f) ((case map_of m (fnSeverity f) of None \<Rightarrow> 0 | Some n \<Rightarrow> n) + 1) m) fs []"

section \<open>Gates\<close>

datatype GateRule = AnySeverity Severity | MaxCount Severity int | MinScore rat | HoldTheLine GateRule

record Blocker =
  bkRule :: string
  bkReason :: string
  bkFinding :: Finding

definition weight :: "Severity \<Rightarrow> int" where
  "weight s = (if s = SeverityCritical then 40 else if s = SeverityHigh then 20
               else if s = SeverityMedium then 10 else if s = SeverityLow then 5 else 0)"

definition Score :: "Finding list \<Rightarrow> int" where
  "Score fs = (let score = foldl (\<lambda>score f. score - weight (fnSeverity f)) 100 fs in if score < 0 then 0 else score)"

definition FilterIntroduced :: "Finding list \<Rightarrow> Finding list" where
  "FilterIntroduced fs = filter (\<lambda>f. fnOrigin f = OriginIntroduced \<or> fnOrigin f = OriginUnknown) fs"

fun evaluateRule :: "(rat \<Rightarrow> string) \<Rightarrow> GateRule \<Rightarrow> Finding list \<Rightarrow> Blocker list" where
  "evaluateRule fmt (AnySeverity level) fs =
     map (\<lambda>f. \<lparr>bkRule = ''any_'' @ severityString level,
               bkReason = severityString level @ '' finding: '' @ fnMessage f, bkFinding = f\<rparr>)
       (filter (\<lambda>f. fnSeverity f = level) fs)"
| "evaluateRule fmt (MaxCount level limit) fs =
     (let n = int (countAt level fs) in
      if n \<le> limit then []
      else [\<lparr>bkRule = ''max_'' @ severityString level @ ''_count'',
             bkReason = format_int n @ '' '' @ severityString level @ '' findings exceed limit of '' @ format_int limit,
             bkFinding = zeroFinding\<rparr>])"
| "evaluateRule fmt (MinScore threshold) fs =
     (let score = rat_of_int (Score fs) in
      if threshold \<le> score then []
      else [\<lparr>bkRule = ''min_score'', bkReason = ''score '' @ fmt score @ '' below threshold '' @ fmt threshold,
             bkFinding = zeroFinding\<rparr>])"
| "evaluateRule fmt (HoldTheLine inner) fs = evaluateRule fmt inner (FilterIntroduced fs)"

definition Evaluate :: "(rat \<Rightarrow> string) \<Rightarrow> GateRule list \<Rightarrow> Finding list \<Rightarrow> Blocker list" where
  "Evaluate fmt gates fs = concat (map (\<lambda>gate. evaluateRule fmt gate fs) gates)"

section \<open>Profiles\<close>

record Profile =
  pfName :: string
  pfGates :: "GateRule list"

definition Check :: "(rat \<Rightarrow> string) \<Rightarrow> Profile \<Rightarrow> Finding list \<Rightarrow> Blocker list" where
  "Check fmt p fs = Evaluate fmt (pfGates p) fs"

definition HasBlockers :: "(rat \<Rightarrow> string) \<Rightarrow> Profile \<Rightarrow> Finding list \<Rightarrow> bool" where
  "HasBlockers fmt p fs \<longleftrightarrow> 0 < length (Evaluate fmt (pfGates p) fs)"

definition Quick :: Profile where
  "Quick = \<lparr>pfName = ''quick'', pfGates = [AnySeverity SeverityCritical]\<rparr>"

definition Standard :: Profile where
  "Standard = \<lparr>pfName = ''standard'', pfGates = [AnySeverity SeverityCritical, AnySeverity SeverityHigh]\<rparr>"

definition Strict :: Profile where
  "Strict = \<lparr>pfName = ''strict'',
     pfGates = [AnySeverity SeverityCritical, AnySeverity SeverityHigh, MaxCount SeverityMedium 3]\<rparr>"

definition ForPhase :: "string \<Rightarrow> Profile" where
  "ForPhase phase =
     (if phase \<in> {''implement'', ''simplify'', ''optimize''} then Quick
      else if phase = ''review'' then Standard
      else if phase = ''submit'' then Strict
      else Quick)"

section \<open>The diff\<close>

record LineRange =
  lrStart :: int
  lrEnd :: int

definition lineInHunks :: "int \<Rightarrow> LineRange list \<Rightarrow> bool" where
  "lineInHunks line hunks = list_ex (\<lambda>h. lrStart h \<le> line \<and> line \<le> lrEnd h) hunks"

definition classifyOne :: "(string \<rightharpoonup> LineRange list) \<Rightarrow> Finding \<Rightarrow> Finding" where
  "classifyOne diffHunks f =
     (if fnFile f = [] \<or> fnLine f = 0 then f\<lparr>fnOrigin := OriginUnknown\<rparr>
      else case diffHunks (fnFile f) of
        None \<Rightarrow> f\<lparr>fnOrigin := OriginPreExisting\<rparr>
      | Some hunks \<Rightarrow> f\<lparr>fnOrigin := (if lineInHunks (fnLine f) hunks then OriginIntroduced else OriginPreExisting)\<rparr>)"

definition ClassifyByDiff :: "Finding list \<Rightarrow> (string \<rightharpoonup> LineRange list) \<Rightarrow> Finding list" where
  "ClassifyByDiff fs diffHunks = map (classifyOne diffHunks) fs"

definition convertHunks :: "(string \<rightharpoonup> (int \<times> int) list) \<Rightarrow> (string \<rightharpoonup> LineRange list)" where
  "convertHunks raw = (\<lambda>file. map_option (map (\<lambda>(a, b). \<lparr>lrStart = a, lrEnd = b\<rparr>)) (raw file))"

text \<open>
  What the conductor asks before it classifies: the setting (true if absent), whether there is a repository, the base
  branch, and the hunks of the diff against it.
\<close>

definition classifyFindings :: "bool option \<Rightarrow> bool \<Rightarrow> string result \<Rightarrow> (string \<Rightarrow> (string \<rightharpoonup> (int \<times> int) list) result) \<Rightarrow> Finding list \<Rightarrow> Finding list" where
  "classifyFindings setting gitOpen base DiffHunks input =
     (if setting = Some False then input
      else if \<not> gitOpen then input
      else case base of
        Inl _ \<Rightarrow> input
      | Inr b \<Rightarrow>
          (case DiffHunks b of
             Inl _ \<Rightarrow> input
           | Inr rawHunks \<Rightarrow> FilterIntroduced (ClassifyByDiff input (convertHunks rawHunks))))"

section \<open>Merging\<close>

definition dedupKey :: "Finding \<Rightarrow> string" where
  "dedupKey f = fnFile f @ '':'' @ toLower (fnRule f)"

definition lineTolerance :: int where "lineTolerance = 3"

record merged =
  mgFinding :: Finding
  mgDetectedBy :: "string list"

record dedupState =
  dsByKey :: "(string, merged list) gomap"
  dsOrder :: "string list"

definition near :: "int \<Rightarrow> int \<Rightarrow> bool" where
  "near a b \<longleftrightarrow> \<bar>a - b\<bar> \<le> lineTolerance"

text \<open>The inner loop: the first entry within the tolerance is marked as detected by the agent.\<close>

fun markNear :: "string \<Rightarrow> int \<Rightarrow> merged list \<Rightarrow> merged list option" where
  "markNear agent line [] = None"
| "markNear agent line (m # ms) =
     (if near (fnLine (mgFinding m)) line then Some (m\<lparr>mgDetectedBy := List.insert agent (mgDetectedBy m)\<rparr> # ms)
      else map_option ((#) m) (markNear agent line ms))"

definition entriesFor :: "string \<Rightarrow> (string, merged list) gomap \<Rightarrow> merged list" where
  "entriesFor key byKey = (case map_of byKey key of None \<Rightarrow> [] | Some ms \<Rightarrow> ms)"

definition addFinding :: "string \<Rightarrow> Finding \<Rightarrow> dedupState \<Rightarrow> dedupState" where
  "addFinding agent f s =
     (let key = dedupKey f; ms = entriesFor key (dsByKey s)
      in case markNear agent (fnLine f) ms of
           Some ms' \<Rightarrow> s\<lparr>dsByKey := AList.update key ms' (dsByKey s)\<rparr>
         | None \<Rightarrow>
             s\<lparr>dsOrder := (if ms = [] then dsOrder s @ [key] else dsOrder s),
               dsByKey := AList.update key (ms @ [\<lparr>mgFinding = f\<lparr>fnDetectedBy := []\<rparr>, mgDetectedBy = [agent]\<rparr>]) (dsByKey s)\<rparr>)"

definition addAgent :: "(string, Finding list) gomap \<Rightarrow> string \<Rightarrow> dedupState \<Rightarrow> dedupState" where
  "addAgent groups agent s = fold (addFinding agent) (case map_of groups agent of None \<Rightarrow> [] | Some fs \<Rightarrow> fs) s"

definition finishMerged :: "merged \<Rightarrow> Finding" where
  "finishMerged m = (mgFinding m)\<lparr>fnDetectedBy := sort (mgDetectedBy m)\<rparr>"

definition DeduplicateFindings :: "(string, Finding list) gomap \<Rightarrow> Finding list" where
  "DeduplicateFindings groups =
     (let s = fold (addAgent groups) (sort (map fst groups)) \<lparr>dsByKey = [], dsOrder = []\<rparr>
      in concat (map (\<lambda>key. map finishMerged (entriesFor key (dsByKey s))) (dsOrder s)))"

definition FilterByMinAgreement :: "Finding list \<Rightarrow> int \<Rightarrow> Finding list" where
  "FilterByMinAgreement fs minAgents =
     (if minAgents \<le> 1 then fs else filter (\<lambda>f. minAgents \<le> int (length (fnDetectedBy f))) fs)"

section \<open>Conversions\<close>

record QualityIssue =
  qiSeverity :: string
  qiRule :: string
  qiFile :: string
  qiLine :: int
  qiMessage :: string
  qiRemediation :: string

record QualityReport =
  qrLinter :: string
  qrIssues :: "QualityIssue list"

definition mapQualitySeverity :: "string \<Rightarrow> Severity" where
  "mapQualitySeverity s = (if s = ''error'' then SeverityHigh else if s = ''warning'' then SeverityMedium else SeverityInfo)"

definition ToFindings :: "QualityReport \<Rightarrow> Finding list" where
  "ToFindings r = map (\<lambda>(i, issue). zeroFinding\<lparr>fnID := ''quality-'' @ qrLinter r @ ''-'' @ decimal i,
       fnSeverity := mapQualitySeverity (qiSeverity issue), fnCategory := ''quality'', fnRule := qiRule issue,
       fnFile := qiFile issue, fnLine := qiLine issue, fnMessage := qiMessage issue,
       fnRemediation := qiRemediation issue, fnSource := qrLinter r\<rparr>) (List.enumerate 0 (qrIssues r))"

definition ReportsToFindings :: "QualityReport list \<Rightarrow> Finding list" where
  "ReportsToFindings reports = concat (map ToFindings reports)"

end
