(* ===== verification/Work_Unit.thy ===== *)
theory Work_Unit
  imports Kvelmo_Prelude Complex_Main
begin

text \<open>
  The data model of the conductor (src/internal/conductor/state.go): workflow states and events,
  the work unit with everything it carries, and the registry of state metadata.

  \<^verbatim>\<open>State\<close> and \<^verbatim>\<open>Event\<close> are string types in the code. Each declared constant is a
  constructor here; \<open>StateRaw\<close> and \<open>EventRaw\<close> stand for every other string, in particular
  the zero value \<^verbatim>\<open>""\<close>. A pointer or a map that the code compares with \<^verbatim>\<open>nil\<close> is an
  \<open>option\<close>; a nil slice and an empty slice are both the empty list, since no modelled
  operation tells them apart.
\<close>

datatype State =
    StateNone | StateLoaded | StatePlanning | StatePlanned | StateImplementing
  | StateImplemented | StateSimplifying | StateOptimizing | StateReviewing | StateSubmitted
  | StateFailed | StateWaiting | StatePaused
  | StateRaw string

datatype Event =
    EventStart | EventPlan | EventImplement | EventSimplify | EventOptimize | EventReview
  | EventSubmit | EventFinish
  | EventPlanDone | EventImplementDone | EventSimplifyDone | EventOptimizeDone | EventReviewDone
  | EventUndo | EventUndoDone | EventRedo | EventRedoDone
  | EventError | EventAbort | EventReset | EventReject
  | EventWait | EventAnswer | EventPause | EventResume | EventStop
  | EventRaw string

text \<open>The zero value of a \<^verbatim>\<open>State\<close> field, and the conversions \<^verbatim>\<open>string(s)\<close> and \<^verbatim>\<open>State(s)\<close>.\<close>

abbreviation noState :: State where
  "noState \<equiv> StateRaw []"

primrec state_string :: "State \<Rightarrow> string" where
  "state_string StateNone = ''none''"
| "state_string StateLoaded = ''loaded''"
| "state_string StatePlanning = ''planning''"
| "state_string StatePlanned = ''planned''"
| "state_string StateImplementing = ''implementing''"
| "state_string StateImplemented = ''implemented''"
| "state_string StateSimplifying = ''simplifying''"
| "state_string StateOptimizing = ''optimizing''"
| "state_string StateReviewing = ''reviewing''"
| "state_string StateSubmitted = ''submitted''"
| "state_string StateFailed = ''failed''"
| "state_string StateWaiting = ''waiting''"
| "state_string StatePaused = ''paused''"
| "state_string (StateRaw s) = s"

definition known_states :: "State list" where
  "known_states =
     [StateNone, StateLoaded, StatePlanning, StatePlanned, StateImplementing, StateImplemented,
      StateSimplifying, StateOptimizing, StateReviewing, StateSubmitted, StateFailed,
      StateWaiting, StatePaused]"

definition string_state :: "string \<Rightarrow> State" where
  "string_state s =
     (case List.find (\<lambda>st. state_string st = s) known_states of
        Some st \<Rightarrow> st | None \<Rightarrow> StateRaw s)"

primrec event_string :: "Event \<Rightarrow> string" where
  "event_string EventStart = ''start''"
| "event_string EventPlan = ''plan''"
| "event_string EventImplement = ''implement''"
| "event_string EventSimplify = ''simplify''"
| "event_string EventOptimize = ''optimize''"
| "event_string EventReview = ''review''"
| "event_string EventSubmit = ''submit''"
| "event_string EventFinish = ''finish''"
| "event_string EventPlanDone = ''plan_done''"
| "event_string EventImplementDone = ''implement_done''"
| "event_string EventSimplifyDone = ''simplify_done''"
| "event_string EventOptimizeDone = ''optimize_done''"
| "event_string EventReviewDone = ''review_done''"
| "event_string EventUndo = ''undo''"
| "event_string EventUndoDone = ''undo_done''"
| "event_string EventRedo = ''redo''"
| "event_string EventRedoDone = ''redo_done''"
| "event_string EventError = ''error''"
| "event_string EventAbort = ''abort''"
| "event_string EventReset = ''reset''"
| "event_string EventReject = ''reject''"
| "event_string EventWait = ''wait''"
| "event_string EventAnswer = ''answer''"
| "event_string EventPause = ''pause''"
| "event_string EventResume = ''resume''"
| "event_string EventStop = ''stop''"
| "event_string (EventRaw s) = s"

definition known_events :: "Event list" where
  "known_events =
     [EventStart, EventPlan, EventImplement, EventSimplify, EventOptimize, EventReview,
      EventSubmit, EventFinish, EventPlanDone, EventImplementDone, EventSimplifyDone,
      EventOptimizeDone, EventReviewDone, EventUndo, EventUndoDone, EventRedo, EventRedoDone,
      EventError, EventAbort, EventReset, EventReject, EventWait, EventAnswer, EventPause,
      EventResume, EventStop]"

definition string_event :: "string \<Rightarrow> Event" where
  "string_event s =
     (case List.find (\<lambda>ev. event_string ev = s) known_events of
        Some ev \<Rightarrow> ev | None \<Rightarrow> EventRaw s)"

text \<open>A value that the code can hold: a raw string never spells one of the constants.\<close>

definition proper_state :: "State \<Rightarrow> bool" where
  "proper_state st \<longleftrightarrow> string_state (state_string st) = st"

definition proper_event :: "Event \<Rightarrow> bool" where
  "proper_event ev \<longleftrightarrow> string_event (event_string ev) = ev"

section \<open>The work unit\<close>

record TaskSummary =
  tsumID :: string
  tsumTitle :: string
  tsumDescription :: string
  tsumURL :: string
  tsumStatus :: string

record HierarchyContext =
  Parent :: "TaskSummary option"
  Siblings :: "TaskSummary list"

record ApprovalRecord =
  ApprovedBy :: string
  ApprovedAt :: time

record CheckpointMeta =
  cpMessage :: string
  cpState :: string
  cpCreatedAt :: time

record PhaseMetrics =
  pmAgent :: string
  pmDuration :: duration
  pmInputTokens :: int
  pmOutputTokens :: int
  pmTotalTokens :: int
  pmEstCostUSD :: real
  pmRecordingPath :: string
  pmCheckpointSHA :: string

record Source =
  Provider :: string
  Reference :: string
  URL :: string
  Content :: string

record ContextItem =
  ciType :: string
  ciRef :: string
  ciLabel :: string

record RouteDecision =
  rdAction :: string
  rdReason :: string
  rdTargetPhase :: string
  rdAttempt :: int
  rdMaxRetries :: int

record ForkInfo =
  fkID :: string
  fkLabel :: string
  fkBranch :: string
  fkWorktreeDir :: string
  fkCheckpointSHA :: string
  fkState :: string
  fkTokensUsed :: int
  fkCreatedAt :: time

record WorkUnit =
  wuID :: string
  wuExternalID :: string
  wuTitle :: string
  wuDescription :: string
  wuSource :: "Source option"
  wuBranch :: string
  wuWorktreePath :: string
  wuSpecifications :: "string list"
  wuCheckpoints :: "string list"
  wuRedoStack :: "string list"
  wuJobs :: "string list"
  wuMetadata :: "(string, string) gomap option"
  wuTaskTraceID :: string
  wuPRID :: string
  wuHierarchy :: "HierarchyContext option"
  wuQualityGatePassed :: "bool option"
  wuQualityGateError :: string
  wuCancelledBy :: string
  wuCancelledAt :: time
  wuApprovals :: "(string, ApprovalRecord) gomap option"
  wuChecklistChecked :: "string list"
  wuContextItems :: "ContextItem list"
  wuTags :: "string list"
  wuPriority :: int
  wuDependsOn :: "string list"
  wuVarPoolPath :: string
  wuHasImplemented :: bool
  wuCreatedAt :: time
  wuUpdatedAt :: time
  wuCheckpointMeta :: "(string, CheckpointMeta) gomap option"
  wuPhaseMetrics :: "(string, PhaseMetrics) gomap option"
  wuRouteHistory :: "RouteDecision list"
  wuForks :: "ForkInfo list"

text \<open>The zero \<^verbatim>\<open>WorkUnit{}\<close> of Go, which struct literals in the code fill in.\<close>

definition zeroWorkUnit :: WorkUnit where
  "zeroWorkUnit = \<lparr>
     wuID = [], wuExternalID = [], wuTitle = [], wuDescription = [], wuSource = None,
     wuBranch = [], wuWorktreePath = [], wuSpecifications = [], wuCheckpoints = [],
     wuRedoStack = [], wuJobs = [], wuMetadata = None, wuTaskTraceID = [], wuPRID = [],
     wuHierarchy = None, wuQualityGatePassed = None, wuQualityGateError = [],
     wuCancelledBy = [], wuCancelledAt = 0, wuApprovals = None, wuChecklistChecked = [],
     wuContextItems = [], wuTags = [], wuPriority = 0, wuDependsOn = [], wuVarPoolPath = [],
     wuHasImplemented = False, wuCreatedAt = 0, wuUpdatedAt = 0, wuCheckpointMeta = None,
     wuPhaseMetrics = None, wuRouteHistory = [], wuForks = []\<rparr>"

section \<open>State metadata\<close>

record StateInfo =
  siName :: State
  siDescription :: string
  siTerminal :: bool
  siPhase :: bool

definition StateRegistry :: "(State, StateInfo) gomap" where
  "StateRegistry = [
     (StateNone, \<lparr>siName = StateNone, siDescription = ''No active task'',
        siTerminal = False, siPhase = True\<rparr>),
     (StateLoaded, \<lparr>siName = StateLoaded,
        siDescription = ''Task fetched from provider, branch created'',
        siTerminal = False, siPhase = True\<rparr>),
     (StatePlanning, \<lparr>siName = StatePlanning, siDescription = ''Agent generating specification'',
        siTerminal = False, siPhase = True\<rparr>),
     (StatePlanned, \<lparr>siName = StatePlanned,
        siDescription = ''Specification complete, ready for implementation'',
        siTerminal = False, siPhase = True\<rparr>),
     (StateImplementing, \<lparr>siName = StateImplementing,
        siDescription = ''Agent executing specification'', siTerminal = False, siPhase = True\<rparr>),
     (StateImplemented, \<lparr>siName = StateImplemented,
        siDescription = ''Implementation complete, ready for review'',
        siTerminal = False, siPhase = True\<rparr>),
     (StateSimplifying, \<lparr>siName = StateSimplifying,
        siDescription = ''Agent simplifying code for clarity'',
        siTerminal = False, siPhase = True\<rparr>),
     (StateOptimizing, \<lparr>siName = StateOptimizing,
        siDescription = ''Agent improving code quality'', siTerminal = False, siPhase = True\<rparr>),
     (StateReviewing, \<lparr>siName = StateReviewing,
        siDescription = ''Human review + security scan in progress'',
        siTerminal = False, siPhase = True\<rparr>),
     (StateSubmitted, \<lparr>siName = StateSubmitted,
        siDescription = ''Task submitted to provider (PR created)'',
        siTerminal = False, siPhase = True\<rparr>),
     (StateFailed, \<lparr>siName = StateFailed, siDescription = ''Task failed with error'',
        siTerminal = False, siPhase = False\<rparr>),
     (StateWaiting, \<lparr>siName = StateWaiting, siDescription = ''Waiting for user input'',
        siTerminal = False, siPhase = False\<rparr>),
     (StatePaused, \<lparr>siName = StatePaused, siDescription = ''Execution paused'',
        siTerminal = False, siPhase = False\<rparr>)]"

section \<open>Strings and constants\<close>

lemma string_state_all_known: "list_all (\<lambda>st. string_state (state_string st) = st) known_states"
  by code_simp

lemma string_state_known: "st \<in> set known_states \<Longrightarrow> string_state (state_string st) = st"
  using string_state_all_known by (simp add: list_all_iff)

lemma string_event_all_known: "list_all (\<lambda>ev. string_event (event_string ev) = ev) known_events"
  by code_simp

lemma string_event_known: "ev \<in> set known_events \<Longrightarrow> string_event (event_string ev) = ev"
  using string_event_all_known by (simp add: list_all_iff)

lemma state_string_of_string [simp]: "state_string (string_state s) = s"
  by (auto simp: string_state_def find_Some_iff split: option.splits)

lemma event_string_of_string [simp]: "event_string (string_event s) = s"
  by (auto simp: string_event_def find_Some_iff split: option.splits)

lemma proper_state_string [simp]: "proper_state (string_state s)"
  by (simp add: proper_state_def)

lemma proper_event_string [simp]: "proper_event (string_event s)"
  by (simp add: proper_event_def)

end
