(* ===== verification/State_Table.thy ===== *)
theory State_Table
  imports Work_Unit
begin

text \<open>
  The transition table of the task lifecycle (src/internal/conductor/state_table.go) with its
  guard predicates, and the error messages of a refused transition
  (src/internal/conductor/state_errors.go). The table is written section by section as the
  source groups its entries; \<open>TransitionTable\<close> is their concatenation.
\<close>

section \<open>Guards\<close>

record Guard =
  Check :: "WorkUnit option \<Rightarrow> bool"
  Message :: string

record Transition =
  From :: State
  trEvent :: Event
  To :: State
  Guards :: "Guard list"

type_synonym transition_table = "(State \<times> Event, Transition list) gomap"

definition msgNoCheckpointsToUndo :: string where
  "msgNoCheckpointsToUndo = ''no checkpoints to undo''"

definition msgNoImplementationYet :: string where
  "msgNoImplementationYet = ''no implementation yet. Run implement first''"

fun guardHasSource :: "WorkUnit option \<Rightarrow> bool" where
  "guardHasSource None = False"
| "guardHasSource (Some wu) =
     (case wuSource wu of None \<Rightarrow> False | Some src \<Rightarrow> Reference src \<noteq> [])"

fun guardHasDescription :: "WorkUnit option \<Rightarrow> bool" where
  "guardHasDescription None = False"
| "guardHasDescription (Some wu) = (wuDescription wu \<noteq> [])"

fun guardHasSpecifications :: "WorkUnit option \<Rightarrow> bool" where
  "guardHasSpecifications None = False"
| "guardHasSpecifications (Some wu) = (0 < length (wuSpecifications wu))"

fun guardCanUndo :: "WorkUnit option \<Rightarrow> bool" where
  "guardCanUndo None = False"
| "guardCanUndo (Some wu) = (0 < length (wuCheckpoints wu))"

fun guardCanRedo :: "WorkUnit option \<Rightarrow> bool" where
  "guardCanRedo None = False"
| "guardCanRedo (Some wu) = (0 < length (wuRedoStack wu))"

fun guardHasImplementation :: "WorkUnit option \<Rightarrow> bool" where
  "guardHasImplementation None = False"
| "guardHasImplementation (Some wu) = wuHasImplemented wu"

fun guardCanSubmit :: "WorkUnit option \<Rightarrow> bool" where
  "guardCanSubmit None = False"
| "guardCanSubmit (Some wu) =
     (case wuSource wu of None \<Rightarrow> False | Some src \<Rightarrow> Provider src \<noteq> [])"

fun guardQualityGatePassed :: "WorkUnit option \<Rightarrow> bool" where
  "guardQualityGatePassed None = False"
| "guardQualityGatePassed (Some wu) =
     (case wuQualityGatePassed wu of None \<Rightarrow> True | Some passed \<Rightarrow> passed)"

fun EvaluateGuards :: "WorkUnit option \<Rightarrow> Guard list \<Rightarrow> bool" where
  "EvaluateGuards wu [] = True"
| "EvaluateGuards wu (guard # guards) =
     (if \<not> Check guard wu then False else EvaluateGuards wu guards)"

section \<open>The table\<close>

definition table_start :: transition_table where
  "table_start = [
    ((StateNone, EventStart), [\<lparr>From = StateNone, trEvent = EventStart, To = StateLoaded,
        Guards = [\<lparr>Check = guardHasSource, Message = ''no task source specified. Run: kvelmo start --from <provider:reference>''\<rparr>]\<rparr>])]"

definition table_planning :: transition_table where
  "table_planning = [
    ((StateLoaded, EventPlan), [\<lparr>From = StateLoaded, trEvent = EventPlan, To = StatePlanning,
        Guards = [\<lparr>Check = guardHasDescription, Message = ''task has no description. Check the task source content''\<rparr>]\<rparr>]),
    ((StatePlanning, EventPlanDone), [\<lparr>From = StatePlanning, trEvent = EventPlanDone, To = StatePlanned, Guards = []\<rparr>]),
    ((StatePlanning, EventError), [\<lparr>From = StatePlanning, trEvent = EventError, To = StateLoaded, Guards = []\<rparr>]),
    ((StatePlanning, EventWait), [\<lparr>From = StatePlanning, trEvent = EventWait, To = StateWaiting, Guards = []\<rparr>]),
    ((StatePlanning, EventPause), [\<lparr>From = StatePlanning, trEvent = EventPause, To = StatePaused, Guards = []\<rparr>])]"

definition table_implementation :: transition_table where
  "table_implementation = [
    ((StatePlanned, EventImplement), [\<lparr>From = StatePlanned, trEvent = EventImplement, To = StateImplementing,
        Guards = [\<lparr>Check = guardHasSpecifications, Message = ''no specification found. Run: kvelmo plan first''\<rparr>]\<rparr>]),
    ((StateLoaded, EventImplement), [\<lparr>From = StateLoaded, trEvent = EventImplement, To = StateImplementing,
        Guards = [\<lparr>Check = guardHasDescription, Message = ''task has no description. Check the task source content''\<rparr>]\<rparr>]),
    ((StateImplementing, EventImplementDone), [\<lparr>From = StateImplementing, trEvent = EventImplementDone, To = StateImplemented, Guards = []\<rparr>]),
    ((StateImplementing, EventError), [\<lparr>From = StateImplementing, trEvent = EventError, To = StatePlanned, Guards = []\<rparr>]),
    ((StateImplementing, EventWait), [\<lparr>From = StateImplementing, trEvent = EventWait, To = StateWaiting, Guards = []\<rparr>]),
    ((StateImplementing, EventPause), [\<lparr>From = StateImplementing, trEvent = EventPause, To = StatePaused, Guards = []\<rparr>]),
    ((StateImplementing, EventUndo), [\<lparr>From = StateImplementing, trEvent = EventUndo, To = StateImplementing,
        Guards = [\<lparr>Check = guardCanUndo, Message = msgNoCheckpointsToUndo\<rparr>]\<rparr>])]"

definition table_simplification :: transition_table where
  "table_simplification = [
    ((StateImplemented, EventSimplify), [\<lparr>From = StateImplemented, trEvent = EventSimplify, To = StateSimplifying, Guards = []\<rparr>]),
    ((StateSimplifying, EventSimplifyDone), [\<lparr>From = StateSimplifying, trEvent = EventSimplifyDone, To = StateImplemented, Guards = []\<rparr>]),
    ((StateSimplifying, EventError), [\<lparr>From = StateSimplifying, trEvent = EventError, To = StateImplemented, Guards = []\<rparr>]),
    ((StateSimplifying, EventWait), [\<lparr>From = StateSimplifying, trEvent = EventWait, To = StateWaiting, Guards = []\<rparr>]),
    ((StateSimplifying, EventPause), [\<lparr>From = StateSimplifying, trEvent = EventPause, To = StatePaused, Guards = []\<rparr>]),
    ((StateSimplifying, EventAbort), [\<lparr>From = StateSimplifying, trEvent = EventAbort, To = StateFailed, Guards = []\<rparr>])]"

definition table_optimization :: transition_table where
  "table_optimization = [
    ((StateImplemented, EventOptimize), [\<lparr>From = StateImplemented, trEvent = EventOptimize, To = StateOptimizing, Guards = []\<rparr>]),
    ((StateOptimizing, EventOptimizeDone), [\<lparr>From = StateOptimizing, trEvent = EventOptimizeDone, To = StateImplemented, Guards = []\<rparr>]),
    ((StateOptimizing, EventError), [\<lparr>From = StateOptimizing, trEvent = EventError, To = StateImplemented, Guards = []\<rparr>]),
    ((StateOptimizing, EventWait), [\<lparr>From = StateOptimizing, trEvent = EventWait, To = StateWaiting, Guards = []\<rparr>]),
    ((StateOptimizing, EventPause), [\<lparr>From = StateOptimizing, trEvent = EventPause, To = StatePaused, Guards = []\<rparr>]),
    ((StateOptimizing, EventAbort), [\<lparr>From = StateOptimizing, trEvent = EventAbort, To = StateFailed, Guards = []\<rparr>])]"

definition table_review :: transition_table where
  "table_review = [
    ((StateImplemented, EventReview), [\<lparr>From = StateImplemented, trEvent = EventReview, To = StateReviewing, Guards = []\<rparr>]),
    ((StateReviewing, EventSubmit), [\<lparr>From = StateReviewing, trEvent = EventSubmit, To = StateSubmitted,
        Guards = [\<lparr>Check = guardCanSubmit, Message = ''cannot submit: no provider configured''\<rparr>, \<lparr>Check = guardQualityGatePassed, Message = ''quality gate failed. Fix issues and re-run: kvelmo review''\<rparr>]\<rparr>]),
    ((StateReviewing, EventReject), [\<lparr>From = StateReviewing, trEvent = EventReject, To = StatePlanning, Guards = []\<rparr>]),
    ((StateReviewing, EventError), [\<lparr>From = StateReviewing, trEvent = EventError, To = StateImplemented, Guards = []\<rparr>])]"

definition table_waiting :: transition_table where
  "table_waiting = [
    ((StateWaiting, EventAnswer), [\<lparr>From = StateWaiting, trEvent = EventAnswer, To = StateLoaded, Guards = []\<rparr>]),
    ((StateWaiting, EventAbort), [\<lparr>From = StateWaiting, trEvent = EventAbort, To = StateFailed, Guards = []\<rparr>])]"

definition table_paused :: transition_table where
  "table_paused = [
    ((StatePaused, EventResume), [\<lparr>From = StatePaused, trEvent = EventResume, To = StateLoaded, Guards = []\<rparr>]),
    ((StatePaused, EventAbort), [\<lparr>From = StatePaused, trEvent = EventAbort, To = StateFailed, Guards = []\<rparr>])]"

definition table_failed :: transition_table where
  "table_failed = [
    ((StateFailed, EventReset), [\<lparr>From = StateFailed, trEvent = EventReset, To = StateLoaded, Guards = []\<rparr>])]"

definition table_undo_redo :: transition_table where
  "table_undo_redo = [
    ((StateLoaded, EventUndo), [\<lparr>From = StateLoaded, trEvent = EventUndo, To = StateLoaded,
        Guards = [\<lparr>Check = guardCanUndo, Message = msgNoCheckpointsToUndo\<rparr>]\<rparr>]),
    ((StatePlanned, EventUndo), [\<lparr>From = StatePlanned, trEvent = EventUndo, To = StatePlanned,
        Guards = [\<lparr>Check = guardCanUndo, Message = msgNoCheckpointsToUndo\<rparr>]\<rparr>]),
    ((StateImplemented, EventUndo), [\<lparr>From = StateImplemented, trEvent = EventUndo, To = StateImplemented,
        Guards = [\<lparr>Check = guardCanUndo, Message = msgNoCheckpointsToUndo\<rparr>]\<rparr>]),
    ((StateLoaded, EventRedo), [\<lparr>From = StateLoaded, trEvent = EventRedo, To = StateLoaded,
        Guards = [\<lparr>Check = guardCanRedo, Message = ''no checkpoints to redo''\<rparr>]\<rparr>]),
    ((StatePlanned, EventRedo), [\<lparr>From = StatePlanned, trEvent = EventRedo, To = StatePlanned,
        Guards = [\<lparr>Check = guardCanRedo, Message = ''no checkpoints to redo''\<rparr>]\<rparr>]),
    ((StateImplemented, EventRedo), [\<lparr>From = StateImplemented, trEvent = EventRedo, To = StateImplemented,
        Guards = [\<lparr>Check = guardCanRedo, Message = ''no checkpoints to redo''\<rparr>]\<rparr>])]"

definition table_finish :: transition_table where
  "table_finish = [
    ((StateSubmitted, EventFinish), [\<lparr>From = StateSubmitted, trEvent = EventFinish, To = StateNone, Guards = []\<rparr>])]"

definition table_abort :: transition_table where
  "table_abort = [
    ((StateLoaded, EventAbort), [\<lparr>From = StateLoaded, trEvent = EventAbort, To = StateFailed, Guards = []\<rparr>]),
    ((StatePlanning, EventAbort), [\<lparr>From = StatePlanning, trEvent = EventAbort, To = StateFailed, Guards = []\<rparr>]),
    ((StatePlanned, EventAbort), [\<lparr>From = StatePlanned, trEvent = EventAbort, To = StateFailed, Guards = []\<rparr>]),
    ((StateImplementing, EventAbort), [\<lparr>From = StateImplementing, trEvent = EventAbort, To = StateFailed, Guards = []\<rparr>]),
    ((StateImplemented, EventAbort), [\<lparr>From = StateImplemented, trEvent = EventAbort, To = StateFailed, Guards = []\<rparr>]),
    ((StateReviewing, EventAbort), [\<lparr>From = StateReviewing, trEvent = EventAbort, To = StateFailed, Guards = []\<rparr>])]"

definition table_stop :: transition_table where
  "table_stop = [
    ((StatePlanning, EventStop), [\<lparr>From = StatePlanning, trEvent = EventStop, To = StateLoaded, Guards = []\<rparr>]),
    ((StateImplementing, EventStop), [\<lparr>From = StateImplementing, trEvent = EventStop, To = StatePlanned, Guards = []\<rparr>]),
    ((StateSimplifying, EventStop), [\<lparr>From = StateSimplifying, trEvent = EventStop, To = StateImplemented, Guards = []\<rparr>]),
    ((StateOptimizing, EventStop), [\<lparr>From = StateOptimizing, trEvent = EventStop, To = StateImplemented, Guards = []\<rparr>]),
    ((StateReviewing, EventStop), [\<lparr>From = StateReviewing, trEvent = EventStop, To = StateImplemented, Guards = []\<rparr>])]"

definition table_free_movement :: transition_table where
  "table_free_movement = [
    ((StatePlanned, EventPlan), [\<lparr>From = StatePlanned, trEvent = EventPlan, To = StatePlanning,
        Guards = [\<lparr>Check = guardHasDescription, Message = ''task has no description''\<rparr>]\<rparr>]),
    ((StateImplemented, EventPlan), [\<lparr>From = StateImplemented, trEvent = EventPlan, To = StatePlanning,
        Guards = [\<lparr>Check = guardHasDescription, Message = ''task has no description''\<rparr>]\<rparr>]),
    ((StateSubmitted, EventPlan), [\<lparr>From = StateSubmitted, trEvent = EventPlan, To = StatePlanning,
        Guards = [\<lparr>Check = guardHasDescription, Message = ''task has no description''\<rparr>]\<rparr>]),
    ((StateImplemented, EventImplement), [\<lparr>From = StateImplemented, trEvent = EventImplement, To = StateImplementing,
        Guards = [\<lparr>Check = guardHasSpecifications, Message = ''no specifications found. Run plan first''\<rparr>]\<rparr>]),
    ((StateSubmitted, EventImplement), [\<lparr>From = StateSubmitted, trEvent = EventImplement, To = StateImplementing,
        Guards = [\<lparr>Check = guardHasSpecifications, Message = ''no specifications found. Run plan first''\<rparr>]\<rparr>]),
    ((StatePlanned, EventSimplify), [\<lparr>From = StatePlanned, trEvent = EventSimplify, To = StateSimplifying,
        Guards = [\<lparr>Check = guardHasImplementation, Message = msgNoImplementationYet\<rparr>]\<rparr>]),
    ((StatePlanned, EventOptimize), [\<lparr>From = StatePlanned, trEvent = EventOptimize, To = StateOptimizing,
        Guards = [\<lparr>Check = guardHasImplementation, Message = msgNoImplementationYet\<rparr>]\<rparr>]),
    ((StateSubmitted, EventSimplify), [\<lparr>From = StateSubmitted, trEvent = EventSimplify, To = StateSimplifying,
        Guards = [\<lparr>Check = guardHasImplementation, Message = msgNoImplementationYet\<rparr>]\<rparr>]),
    ((StateSubmitted, EventOptimize), [\<lparr>From = StateSubmitted, trEvent = EventOptimize, To = StateOptimizing,
        Guards = [\<lparr>Check = guardHasImplementation, Message = msgNoImplementationYet\<rparr>]\<rparr>]),
    ((StatePlanned, EventReview), [\<lparr>From = StatePlanned, trEvent = EventReview, To = StateReviewing,
        Guards = [\<lparr>Check = guardHasImplementation, Message = msgNoImplementationYet\<rparr>]\<rparr>]),
    ((StateSubmitted, EventReview), [\<lparr>From = StateSubmitted, trEvent = EventReview, To = StateReviewing, Guards = []\<rparr>]),
    ((StateSubmitted, EventUndo), [\<lparr>From = StateSubmitted, trEvent = EventUndo, To = StateSubmitted,
        Guards = [\<lparr>Check = guardCanUndo, Message = msgNoCheckpointsToUndo\<rparr>]\<rparr>]),
    ((StateSubmitted, EventRedo), [\<lparr>From = StateSubmitted, trEvent = EventRedo, To = StateSubmitted,
        Guards = [\<lparr>Check = guardCanRedo, Message = ''nothing to redo''\<rparr>]\<rparr>]),
    ((StateSubmitted, EventAbort), [\<lparr>From = StateSubmitted, trEvent = EventAbort, To = StateFailed, Guards = []\<rparr>])]"

definition TransitionTable :: transition_table where
  "TransitionTable =
     table_start @ table_planning @ table_implementation @ table_simplification @ table_optimization @
     table_review @ table_waiting @ table_paused @ table_failed @ table_undo_redo @
     table_finish @ table_abort @ table_stop @ table_free_movement"

section \<open>Messages of refused transitions\<close>

primrec stateDescription :: "State \<Rightarrow> string" where
  "stateDescription StateNone = ''not started''"
| "stateDescription StateLoaded = ''loaded but not planned''"
| "stateDescription StatePlanning = ''currently planning''"
| "stateDescription StatePlanned = ''planned but not implemented''"
| "stateDescription StateImplementing = ''currently implementing''"
| "stateDescription StateImplemented = ''implemented but not reviewed''"
| "stateDescription StateSimplifying = ''currently simplifying''"
| "stateDescription StateOptimizing = ''currently optimizing''"
| "stateDescription StateReviewing = ''under review''"
| "stateDescription StateSubmitted =
     ''submitted '' @ [CHR 0xE2, CHR 0x80, CHR 0x94] @
     '' can re-enter plan/implement/review or finish''"
| "stateDescription StateFailed = ''in failed state''"
| "stateDescription StateWaiting = ''waiting for your input''"
| "stateDescription StatePaused = ''paused''"
| "stateDescription (StateRaw s) = s"

primrec eventDescription :: "Event \<Rightarrow> string" where
  "eventDescription EventStart = ''start task''"
| "eventDescription EventPlan = ''start planning''"
| "eventDescription EventPlanDone = ''complete planning''"
| "eventDescription EventImplement = ''start implementation''"
| "eventDescription EventImplementDone = ''complete implementation''"
| "eventDescription EventSimplify = ''start simplification''"
| "eventDescription EventSimplifyDone = ''complete simplification''"
| "eventDescription EventOptimize = ''start optimization''"
| "eventDescription EventOptimizeDone = ''complete optimization''"
| "eventDescription EventReview = ''start review''"
| "eventDescription EventReviewDone = ''complete review''"
| "eventDescription EventSubmit = ''submit''"
| "eventDescription EventFinish = ''finish task''"
| "eventDescription EventUndo = ''undo''"
| "eventDescription EventUndoDone = ''complete undo''"
| "eventDescription EventRedo = ''redo''"
| "eventDescription EventRedoDone = ''complete redo''"
| "eventDescription EventError = ''handle error''"
| "eventDescription EventAbort = ''abort''"
| "eventDescription EventReset = ''reset''"
| "eventDescription EventReject = ''reject changes''"
| "eventDescription EventWait = ''wait for input''"
| "eventDescription EventAnswer = ''answer question''"
| "eventDescription EventPause = ''pause''"
| "eventDescription EventResume = ''resume''"
| "eventDescription EventStop = ''stop''"
| "eventDescription (EventRaw s) = s"

primrec suggestNextAction :: "State \<Rightarrow> string" where
  "suggestNextAction StateNone = ''Run: kvelmo start --from <provider:reference>''"
| "suggestNextAction StateLoaded = ''Run: kvelmo plan''"
| "suggestNextAction StatePlanning = ''Wait for planning to complete''"
| "suggestNextAction StatePlanned = ''Run: kvelmo implement''"
| "suggestNextAction StateImplementing = ''Wait for implementation to complete''"
| "suggestNextAction StateImplemented = ''Run: kvelmo review''"
| "suggestNextAction StateSimplifying = ''Wait for simplification to complete''"
| "suggestNextAction StateOptimizing = ''Wait for optimization to complete''"
| "suggestNextAction StateReviewing = ''Run: kvelmo submit''"
| "suggestNextAction StateSubmitted =
     ''PR submitted. Run: kvelmo finish (cleanup), kvelmo plan (re-plan), or kvelmo implement (re-implement)''"
| "suggestNextAction StateFailed = ''Run: kvelmo reset to recover''"
| "suggestNextAction StateWaiting = ''Answer the pending question''"
| "suggestNextAction StatePaused = ''Run: kvelmo resume''"
| "suggestNextAction (StateRaw s) = []"

definition formatTransitionError :: "State \<Rightarrow> Event \<Rightarrow> string" where
  "formatTransitionError frm event =
     ''cannot '' @ eventDescription event @ '': task is '' @ stateDescription frm @ ''. '' @
     suggestNextAction frm"

fun firstFailingGuard :: "WorkUnit option \<Rightarrow> Guard list \<Rightarrow> Guard option" where
  "firstFailingGuard wu [] = None"
| "firstFailingGuard wu (guard # guards) =
     (if \<not> Check guard wu then Some guard else firstFailingGuard wu guards)"

fun formatGuardError :: "Event \<Rightarrow> WorkUnit option \<Rightarrow> Transition list \<Rightarrow> string" where
  "formatGuardError event wu [] =
     ''cannot '' @ eventDescription event @ '': prerequisites not met''"
| "formatGuardError event wu (t # ts) =
     (case firstFailingGuard wu (Guards t) of
        Some guard \<Rightarrow> ''cannot '' @ eventDescription event @ '': '' @ Message guard
      | None \<Rightarrow> formatGuardError event wu ts)"

section \<open>Facts about the table\<close>

lemmas table_section_defs =
  table_start_def table_planning_def table_implementation_def table_simplification_def
  table_optimization_def table_review_def table_waiting_def table_paused_def table_failed_def
  table_undo_redo_def table_finish_def table_abort_def table_stop_def table_free_movement_def

lemma EvaluateGuards_iff: "EvaluateGuards wu gs \<longleftrightarrow> (\<forall>g \<in> set gs. Check g wu)"
  by (induction gs) auto

lemma firstFailingGuard_None: "firstFailingGuard wu gs = None \<longleftrightarrow> EvaluateGuards wu gs"
  by (induction gs) auto

lemma firstFailingGuard_Some:
  "firstFailingGuard wu gs = Some g \<Longrightarrow> g \<in> set gs \<and> \<not> Check g wu"
  by (induction gs) (auto split: if_splits)

text \<open>
  Two shapes that every entry has, decided entry by entry: keys do not repeat, and an entry's key
  is the source state and the event of each of its transitions, of which there is exactly one.
\<close>

definition entry_wf :: "(State \<times> Event) \<times> Transition list \<Rightarrow> bool" where
  "entry_wf e =
     (case e of ((frm, ev), ts) \<Rightarrow>
        (case ts of [t] \<Rightarrow> From t = frm \<and> trEvent t = ev | _ \<Rightarrow> False))"

lemma TransitionTable_wf_map: "wf_map TransitionTable"
  by code_simp

lemma TransitionTable_entry_wf: "list_all entry_wf TransitionTable"
  by code_simp

lemma TransitionTable_lookup:
  assumes "map_of TransitionTable (frm, ev) = Some ts"
  obtains t where "ts = [t]" "From t = frm" "trEvent t = ev"
proof -
  from assms have "((frm, ev), ts) \<in> set TransitionTable"
    by (rule map_of_SomeD)
  with TransitionTable_entry_wf have "entry_wf ((frm, ev), ts)"
    by (auto simp: list_all_iff)
  then show ?thesis
    by (auto simp: entry_wf_def split: list.splits intro: that)
qed

text \<open>
  The table as a function: the target of the transition for a state and an event, and the
  transitions of the table decided by enumeration of its entries.
\<close>

definition table_target :: "State \<Rightarrow> Event \<Rightarrow> State option" where
  "table_target frm ev =
     (case map_of TransitionTable (frm, ev) of
        None \<Rightarrow> None | Some ts \<Rightarrow> (case ts of [] \<Rightarrow> None | t # _ \<Rightarrow> Some (To t)))"

lemma table_target_entry:
  assumes "map_of TransitionTable (frm, ev) = Some ts" "t \<in> set ts"
  shows "table_target frm ev = Some (To t)"
proof -
  from assms(1) obtain t' where "ts = [t']" by (rule TransitionTable_lookup)
  with assms show ?thesis by (simp add: table_target_def)
qed

lemma table_target_single:
  "map_of TransitionTable (frm, ev) = Some [t] \<Longrightarrow> table_target frm ev = Some (To t)"
  by (simp add: table_target_def)

fun entry_rows :: "(State \<times> Event) \<times> Transition list \<Rightarrow> (State \<times> Event \<times> State) list" where
  "entry_rows ((frm, ev), ts) = map (\<lambda>t. (frm, ev, To t)) ts"

definition table_rows :: "(State \<times> Event \<times> State) list" where
  "table_rows = concat (map entry_rows TransitionTable)"

lemma table_target_row:
  assumes "table_target frm ev = Some st"
  shows "(frm, ev, st) \<in> set table_rows"
proof -
  from assms obtain t ts where "map_of TransitionTable (frm, ev) = Some (t # ts)" "st = To t"
    by (auto simp: table_target_def split: option.splits list.splits)
  then have "((frm, ev), t # ts) \<in> set TransitionTable" "(frm, ev, st) \<in> set (entry_rows ((frm, ev), t # ts))"
    by (simp_all add: map_of_SomeD)
  then show ?thesis
    unfolding table_rows_def set_concat set_map by (rule UnionI [OF imageI [OF imageI]])
qed

lemma table_rows_all:
  "list_all P table_rows \<Longrightarrow> table_target frm ev = Some st \<Longrightarrow> P (frm, ev, st)"
  by (auto simp: list_all_iff dest: table_target_row)

end
