(* ===== verification/State_Machine.thy ===== *)
theory State_Machine
  imports State_Table
begin

text \<open>
  The lifecycle state machine (src/internal/conductor/state_machine.go) and the way the
  conductor's phase operations enter a phase and leave it again
  (conductor_plan.go, conductor_implement.go, conductor_review.go).

  Every method of \<^verbatim>\<open>Machine\<close> holds the machine's mutex for its whole body, so each is one
  atomic function on the machine. Listeners are called in a goroutine after the transition; the
  model returns the calls that goroutine makes. The machine and the conductor share one
  \<^verbatim>\<open>*WorkUnit\<close>, which is the field \<open>mWorkUnit\<close>.
\<close>

section \<open>State and operations\<close>

record HistoryEntry =
  heFrom :: State
  heTo :: State
  heEvent :: Event
  heTimestamp :: time

type_synonym StateListener = nat
type_synonym Notification = "StateListener \<times> State \<times> State \<times> Event \<times> WorkUnit option"

record Machine =
  mState :: State
  mWorkUnit :: "WorkUnit option"
  mHistory :: "HistoryEntry list"
  mListeners :: "StateListener list"
  mPreviousState :: State
  mPriorStableState :: State

definition NewMachine :: Machine where
  "NewMachine = \<lparr>mState = StateNone, mWorkUnit = None, mHistory = [], mListeners = [],
     mPreviousState = noState, mPriorStableState = noState\<rparr>"

definition touch :: "time \<Rightarrow> WorkUnit option \<Rightarrow> WorkUnit option" where
  "touch now = map_option (\<lambda>wu. wu\<lparr>wuUpdatedAt := now\<rparr>)"

definition SetWorkUnit :: "time \<Rightarrow> WorkUnit option \<Rightarrow> Machine \<Rightarrow> Machine" where
  "SetWorkUnit now wu m = m\<lparr>mWorkUnit := touch now wu\<rparr>"

definition SetPriorStableState :: "State \<Rightarrow> Machine \<Rightarrow> Machine" where
  "SetPriorStableState s m = m\<lparr>mPriorStableState := s\<rparr>"

definition ClearPriorStableState :: "Machine \<Rightarrow> Machine" where
  "ClearPriorStableState m = m\<lparr>mPriorStableState := noState\<rparr>"

definition AddListener :: "StateListener \<Rightarrow> Machine \<Rightarrow> Machine" where
  "AddListener listener m = m\<lparr>mListeners := mListeners m @ [listener]\<rparr>"

text \<open>The part of \<^verbatim>\<open>Dispatch\<close> after a valid transition was found.\<close>

definition applyTransition ::
  "time \<Rightarrow> Event \<Rightarrow> Transition \<Rightarrow> Machine \<Rightarrow> Machine \<times> Notification list" where
  "applyTransition now event validTransition m =
     (let frm = mState m;
          m1 = (if event = EventWait \<or> event = EventPause then m\<lparr>mPreviousState := frm\<rparr> else m);
          rollback = ((event = EventError \<or> event = EventStop) \<and> mPriorStableState m1 \<noteq> noState);
          targetState = (if rollback then mPriorStableState m1 else To validTransition);
          m2 = (if rollback then m1\<lparr>mPriorStableState := noState\<rparr> else m1);
          m3 = m2\<lparr>mState := targetState,
                  mHistory := mHistory m2 @
                    [\<lparr>heFrom = frm, heTo = targetState, heEvent = event, heTimestamp = now\<rparr>]\<rparr>;
          m4 = m3\<lparr>mWorkUnit := touch now (mWorkUnit m3)\<rparr>
      in (m4, map (\<lambda>listener. (listener, frm, targetState, event, mWorkUnit m4)) (mListeners m4)))"

definition Dispatch :: "time \<Rightarrow> Event \<Rightarrow> Machine \<Rightarrow> (Machine \<times> Notification list) result" where
  "Dispatch now event m =
     (case map_of TransitionTable (mState m, event) of
        None \<Rightarrow> Inl (formatTransitionError (mState m) event)
      | Some transitions \<Rightarrow>
          (case transitions of
             [] \<Rightarrow> Inl (formatTransitionError (mState m) event)
           | _ # _ \<Rightarrow>
               (case List.find (\<lambda>t. EvaluateGuards (mWorkUnit m) (Guards t)) transitions of
                  None \<Rightarrow> Inl (formatGuardError event (mWorkUnit m) transitions)
                | Some validTransition \<Rightarrow> Inr (applyTransition now event validTransition m))))"

definition DispatchWithResume ::
  "time \<Rightarrow> Event \<Rightarrow> Machine \<Rightarrow> (Machine \<times> Notification list) result" where
  "DispatchWithResume now event m =
     (if (event = EventAnswer \<or> event = EventResume) \<and> mPreviousState m \<noteq> noState
      then Inr (m\<lparr>mState := mPreviousState m, mPreviousState := noState,
                  mHistory := mHistory m @
                    [\<lparr>heFrom = mState m, heTo = mPreviousState m, heEvent = event,
                      heTimestamp = now\<rparr>]\<rparr>, [])
      else Dispatch now event m)"

definition CanDispatch :: "Event \<Rightarrow> Machine \<Rightarrow> bool \<times> string" where
  "CanDispatch event m =
     (case map_of TransitionTable (mState m, event) of
        None \<Rightarrow> (False, formatTransitionError (mState m) event)
      | Some transitions \<Rightarrow>
          (case transitions of
             [] \<Rightarrow> (False, formatTransitionError (mState m) event)
           | _ # _ \<Rightarrow>
               (if list_ex (\<lambda>t. EvaluateGuards (mWorkUnit m) (Guards t)) transitions
                then (True, [])
                else (False, formatGuardError event (mWorkUnit m) transitions))))"

definition RestoreHistory :: "HistoryEntry list \<Rightarrow> Machine \<Rightarrow> Machine" where
  "RestoreHistory entries m = m\<lparr>mHistory := entries\<rparr>"

definition Reset :: "Machine \<Rightarrow> Machine" where
  "Reset m = m\<lparr>mState := StateNone, mWorkUnit := None, mHistory := [], mPreviousState := noState\<rparr>"

definition ForceState :: "State \<Rightarrow> Machine \<Rightarrow> Machine" where
  "ForceState state m = m\<lparr>mState := state\<rparr>"

definition IsTerminal :: "Machine \<Rightarrow> bool" where
  "IsTerminal m =
     (case map_of StateRegistry (mState m) of None \<Rightarrow> False | Some info \<Rightarrow> siTerminal info)"

definition IsPhase :: "Machine \<Rightarrow> bool" where
  "IsPhase m =
     (case map_of StateRegistry (mState m) of None \<Rightarrow> False | Some info \<Rightarrow> siPhase info)"

definition AvailableEvents :: "Machine \<Rightarrow> Event list" where
  "AvailableEvents m =
     map (snd \<circ> fst)
       (filter (\<lambda>(key, transitions). fst key = mState m \<and>
                  list_ex (\<lambda>t. EvaluateGuards (mWorkUnit m) (Guards t)) transitions)
          TransitionTable)"

definition CanTransition :: "State \<Rightarrow> State \<Rightarrow> bool" where
  "CanTransition frm to =
     list_ex (\<lambda>(key, transitions). fst key = frm \<and> list_ex (\<lambda>t. To t = to) transitions)
       TransitionTable"

fun collectNext :: "State \<Rightarrow> transition_table \<Rightarrow> State list \<Rightarrow> State list" where
  "collectNext frm [] next = next"
| "collectNext frm ((key, transitions) # tbl) next =
     (if fst key \<noteq> frm then collectNext frm tbl next
      else collectNext frm tbl
             (foldl (\<lambda>acc t. if To t \<in> set acc then acc else acc @ [To t]) next transitions))"

definition NextStates :: "State \<Rightarrow> State list" where
  "NextStates frm = collectNext frm TransitionTable []"

fun isActivePhaseState :: "State \<Rightarrow> bool" where
  "isActivePhaseState StatePlanning = True"
| "isActivePhaseState StateImplementing = True"
| "isActivePhaseState StateSimplifying = True"
| "isActivePhaseState StateOptimizing = True"
| "isActivePhaseState StateReviewing = True"
| "isActivePhaseState _ = False"

section \<open>Entering a phase\<close>

text \<open>
  The block with which \<^verbatim>\<open>Plan\<close>, \<^verbatim>\<open>Implement\<close>, \<^verbatim>\<open>Simplify\<close>, \<^verbatim>\<open>Optimize\<close> and
  \<^verbatim>\<open>Review\<close> enter their phase: record the prior stable state unless the current state is one
  the phase normally starts from, dispatch, and clear the record when the dispatch is refused.
  The state carries on in both cases, so the result is the error, if any, and the machine.
\<close>

definition enterPhase ::
  "State list \<Rightarrow> string \<Rightarrow> time \<Rightarrow> Event \<Rightarrow> Machine \<Rightarrow> string option \<times> Machine" where
  "enterPhase usual refused now event m =
     (let m1 = (if mState m \<notin> set usual then SetPriorStableState (mState m) m else m)
      in (case Dispatch now event m1 of
            Inl err \<Rightarrow> (Some (refused @ err), ClearPriorStableState m1)
          | Inr (m2, _) \<Rightarrow> (None, m2)))"

definition enterPlan :: "time \<Rightarrow> Machine \<Rightarrow> string option \<times> Machine" where
  "enterPlan now = enterPhase [StateLoaded] ''cannot plan: '' now EventPlan"

definition enterImplement :: "time \<Rightarrow> Machine \<Rightarrow> string option \<times> Machine" where
  "enterImplement now = enterPhase [StateLoaded, StatePlanned] ''cannot implement: '' now EventImplement"

definition enterSimplify :: "time \<Rightarrow> Machine \<Rightarrow> string option \<times> Machine" where
  "enterSimplify now = enterPhase [StateImplemented] ''cannot simplify: '' now EventSimplify"

definition enterOptimize :: "time \<Rightarrow> Machine \<Rightarrow> string option \<times> Machine" where
  "enterOptimize now = enterPhase [StateImplemented] ''cannot optimize: '' now EventOptimize"

definition enterReview :: "time \<Rightarrow> Machine \<Rightarrow> string option \<times> Machine" where
  "enterReview now = enterPhase [StateImplemented] ''cannot review: '' now EventReview"

datatype Phase = PhasePlan | PhaseImplement | PhaseSimplify | PhaseOptimize | PhaseReview

primrec enter :: "Phase \<Rightarrow> time \<Rightarrow> Machine \<Rightarrow> string option \<times> Machine" where
  "enter PhasePlan = enterPlan"
| "enter PhaseImplement = enterImplement"
| "enter PhaseSimplify = enterSimplify"
| "enter PhaseOptimize = enterOptimize"
| "enter PhaseReview = enterReview"

text \<open>
  A dispatch whose refusal the conductor ignores, and with it the last step of a failed phase, the dispatch of
  \<^verbatim>\<open>EventError\<close>. It is made only if the failure policy of the phase has not handled the failure; the end of a phase with its
  policy is modelled in \<open>Phase_Policy\<close>.
\<close>

definition dispatchIgnoring :: "time \<Rightarrow> Event \<Rightarrow> Machine \<Rightarrow> Machine" where
  "dispatchIgnoring now event m =
     (case Dispatch now event m of Inl _ \<Rightarrow> m | Inr (m', _) \<Rightarrow> m')"

definition errorDispatched :: "time \<Rightarrow> Machine \<Rightarrow> Machine" where
  "errorDispatched now = dispatchIgnoring now EventError"

text \<open>A sequence of dispatches that stops at the first refusal.\<close>

fun dispatches :: "time \<Rightarrow> Event list \<Rightarrow> Machine \<Rightarrow> Machine result" where
  "dispatches now [] m = Inr m"
| "dispatches now (ev # evs) m =
     (case Dispatch now ev m of Inl err \<Rightarrow> Inl err | Inr (m', _) \<Rightarrow> dispatches now evs m')"

section \<open>What a dispatch does\<close>

definition rollsBack :: "Event \<Rightarrow> Machine \<Rightarrow> bool" where
  "rollsBack event m \<longleftrightarrow> (event = EventError \<or> event = EventStop) \<and> mPriorStableState m \<noteq> noState"

lemma applyTransition_fields [lifecycle_simps]:
  "mState (fst (applyTransition now ev t m)) =
     (if rollsBack ev m then mPriorStableState m else To t)"
  "mPreviousState (fst (applyTransition now ev t m)) =
     (if ev = EventWait \<or> ev = EventPause then mState m else mPreviousState m)"
  "mPriorStableState (fst (applyTransition now ev t m)) =
     (if rollsBack ev m then noState else mPriorStableState m)"
  "mWorkUnit (fst (applyTransition now ev t m)) = touch now (mWorkUnit m)"
  "mListeners (fst (applyTransition now ev t m)) = mListeners m"
  "mHistory (fst (applyTransition now ev t m)) =
     mHistory m @ [\<lparr>heFrom = mState m, heTo = mState (fst (applyTransition now ev t m)),
                     heEvent = ev, heTimestamp = now\<rparr>]"
  by (auto simp: applyTransition_def rollsBack_def Let_def)

lemma Dispatch_Inr_iff:
  "Dispatch now ev m = Inr r \<longleftrightarrow>
     (\<exists>t. map_of TransitionTable (mState m, ev) = Some [t] \<and>
          EvaluateGuards (mWorkUnit m) (Guards t) \<and> r = applyTransition now ev t m)"
  by (auto simp: Dispatch_def split: option.splits list.splits if_splits
      elim!: TransitionTable_lookup)

lemma Dispatch_InrE:
  assumes "Dispatch now ev m = Inr (m', ns)"
  obtains t where "map_of TransitionTable (mState m, ev) = Some [t]"
    and "table_target (mState m) ev = Some (To t)"
    and "EvaluateGuards (mWorkUnit m) (Guards t)" and "m' = fst (applyTransition now ev t m)"
proof -
  from assms obtain t where t: "map_of TransitionTable (mState m, ev) = Some [t]"
      "EvaluateGuards (mWorkUnit m) (Guards t)" "(m', ns) = applyTransition now ev t m"
    by (auto simp: Dispatch_Inr_iff)
  from t(1) have "table_target (mState m) ev = Some (To t)"
    by (rule table_target_entry) simp
  moreover from t(3) have "m' = fst (applyTransition now ev t m)"
    by (metis fst_conv)
  ultimately show ?thesis using t(1,2) by (intro that)
qed

lemma CanDispatch_iff:
  "fst (CanDispatch ev m) \<longleftrightarrow>
     (\<exists>t. map_of TransitionTable (mState m, ev) = Some [t] \<and> EvaluateGuards (mWorkUnit m) (Guards t))"
  by (auto simp: CanDispatch_def split: option.splits list.splits elim!: TransitionTable_lookup)

lemma Dispatch_Inl_CanDispatch:
  "Dispatch now ev m = Inl e \<longleftrightarrow> CanDispatch ev m = (False, e)"
  unfolding Dispatch_def CanDispatch_def list_ex_find
  by (auto simp del: find.simps split: option.splits list.splits)

lemma touch_simps [simp]:
  "touch now None = None" "touch now (Some wu) = Some (wu\<lparr>wuUpdatedAt := now\<rparr>)"
  "touch now wo = None \<longleftrightarrow> wo = None"
  by (simp_all add: touch_def)

lemma touch_touch: "touch now (touch now wo) = touch now wo"
  by (cases wo) simp_all

lemma set_snd_fst_filter:
  "ev \<in> set (map (snd \<circ> fst) (filter (\<lambda>(key, ts). fst key = st \<and> P ts) tbl)) \<longleftrightarrow>
     (\<exists>ts. ((st, ev), ts) \<in> set tbl \<and> P ts)"
  by (induction tbl) auto

lemma AvailableEvents_iff:
  "ev \<in> set (AvailableEvents m) \<longleftrightarrow> fst (CanDispatch ev m)"
proof -
  have "ev \<in> set (AvailableEvents m) \<longleftrightarrow>
      (\<exists>ts. ((mState m, ev), ts) \<in> set TransitionTable \<and>
            list_ex (\<lambda>t. EvaluateGuards (mWorkUnit m) (Guards t)) ts)"
    unfolding AvailableEvents_def by (rule set_snd_fst_filter)
  also have "\<dots> \<longleftrightarrow> (\<exists>ts. map_of TransitionTable (mState m, ev) = Some ts \<and>
            list_ex (\<lambda>t. EvaluateGuards (mWorkUnit m) (Guards t)) ts)"
    by (simp only: wf_map_ran [OF TransitionTable_wf_map])
  also have "\<dots> \<longleftrightarrow> fst (CanDispatch ev m)"
    using TransitionTable_lookup [of "mState m" ev] by (auto simp: CanDispatch_iff) fastforce+
  finally show ?thesis .
qed

section \<open>Runs of the machine\<close>

text \<open>
  The steps the conductor makes on a machine between two resets: dispatches, resumptions, the
  bookkeeping of the prior stable state (always with the current state), installing a work unit
  and registering a listener. \<^verbatim>\<open>Reset\<close>, \<^verbatim>\<open>ForceState\<close> and \<^verbatim>\<open>RestoreHistory\<close>, which end a task or load a persisted one,
  are added in \<open>Machine_Lifetime\<close>.
\<close>

inductive machine_step :: "Machine \<Rightarrow> Machine \<Rightarrow> bool" where
  step_dispatch: "Dispatch now ev m = Inr (m', ns) \<Longrightarrow> machine_step m m'"
| step_resume: "DispatchWithResume now ev m = Inr (m', ns) \<Longrightarrow> machine_step m m'"
| step_set_prior: "machine_step m (SetPriorStableState (mState m) m)"
| step_clear_prior: "machine_step m (ClearPriorStableState m)"
| step_work_unit: "machine_step m (SetWorkUnit now wu m)"
| step_listener: "machine_step m (AddListener l m)"

definition machine_init :: "Machine \<Rightarrow> bool" where
  "machine_init m \<longleftrightarrow> m = NewMachine"

text \<open>
  The invariant of a run: the history is a chain of transitions from \<^verbatim>\<open>StateNone\<close> to the
  current state, and the current state, both remembered states and every state that a
  transition of the history left were entered from another state through the transition table at some point of that history.
\<close>

fun chain_from :: "State \<Rightarrow> HistoryEntry list \<Rightarrow> State \<Rightarrow> bool" where
  "chain_from a [] b \<longleftrightarrow> a = b"
| "chain_from a (h # hs) b \<longleftrightarrow> heFrom h = a \<and> chain_from (heTo h) hs b"

definition tabled :: "HistoryEntry list \<Rightarrow> State \<Rightarrow> bool" where
  "tabled hs st \<longleftrightarrow>
     st = StateNone \<or> st = noState \<or>
     (\<exists>h \<in> set hs. heTo h = st \<and> heFrom h \<noteq> st \<and> table_target (heFrom h) (heEvent h) = Some st)"

definition machine_inv :: "Machine \<Rightarrow> bool" where
  "machine_inv m \<longleftrightarrow>
     chain_from StateNone (mHistory m) (mState m) \<and>
     tabled (mHistory m) (mState m) \<and> tabled (mHistory m) (mPreviousState m) \<and>
     tabled (mHistory m) (mPriorStableState m) \<and>
     (\<forall>h \<in> set (mHistory m). tabled (mHistory m) (heFrom h))"

lemma chain_from_snoc:
  "chain_from a (hs @ [h]) b \<longleftrightarrow> chain_from a hs (heFrom h) \<and> heTo h = b"
  by (induction hs arbitrary: a) auto

lemma tabled_append: "tabled hs st \<Longrightarrow> tabled (hs @ gs) st"
  by (auto simp: tabled_def)

lemma tabled_last:
  "table_target (heFrom h) (heEvent h) = Some (heTo h) \<Longrightarrow> tabled hs (heFrom h) \<Longrightarrow>
   tabled (hs @ [h]) (heTo h)"
  by (cases "heTo h = heFrom h") (auto simp: tabled_def)

lemma Dispatch_inv:
  assumes inv: "machine_inv m" and disp: "Dispatch now ev m = Inr (m', ns)"
  shows "machine_inv m'"
proof -
  from disp obtain t where t: "table_target (mState m) ev = Some (To t)"
      "m' = fst (applyTransition now ev t m)"
    by (rule Dispatch_InrE)
  let ?h = "\<lparr>heFrom = mState m, heTo = mState m', heEvent = ev, heTimestamp = now\<rparr>"
  have hist: "mHistory m' = mHistory m @ [?h]"
    and st: "mState m' = (if rollsBack ev m then mPriorStableState m else To t)"
    and prev: "mPreviousState m' \<in> {mState m, mPreviousState m}"
    and prior: "mPriorStableState m' \<in> {noState, mPriorStableState m}"
    by (simp_all add: t(2) applyTransition_fields)
  have "tabled (mHistory m') (mState m')"
    using inv t(1) tabled_last [of ?h "mHistory m"]
    by (auto simp: hist st machine_inv_def intro: tabled_append)
  with inv prev prior show ?thesis
    by (auto simp: machine_inv_def hist chain_from_snoc intro: tabled_append) (auto simp: tabled_def)
qed

lemma resume_inv:
  assumes inv: "machine_inv m" and disp: "DispatchWithResume now ev m = Inr (m', ns)"
  shows "machine_inv m'"
proof (cases "(ev = EventAnswer \<or> ev = EventResume) \<and> mPreviousState m \<noteq> noState")
  case True
  with inv disp show ?thesis
    by (auto simp: DispatchWithResume_def machine_inv_def chain_from_snoc intro: tabled_append)
      (auto simp: tabled_def)
next
  case False
  with disp have "Dispatch now ev m = Inr (m', ns)"
    by (auto simp: DispatchWithResume_def)
  with inv show ?thesis by (rule Dispatch_inv)
qed

interpretation machine_run: step_invariant machine_init machine_step machine_inv
proof
  show "machine_inv m" if "machine_init m" for m
    using that by (auto simp: machine_init_def machine_inv_def NewMachine_def tabled_def)
  show "machine_inv t" if "machine_inv s" "machine_step s t" for s t
    using that(2,1)
  proof (cases rule: machine_step.cases)
    case (step_dispatch now ev ns)
    with that(1) show ?thesis by (blast intro: Dispatch_inv)
  next
    case (step_resume now ev ns)
    with that(1) show ?thesis by (blast intro: resume_inv)
  qed (auto simp: machine_inv_def SetPriorStableState_def ClearPriorStableState_def
      SetWorkUnit_def AddListener_def tabled_def)
qed

section \<open>Entries of the table\<close>

lemma table_lookup_simp:
  "map_of TransitionTable = map_of (table_start @ table_planning @ table_implementation @
     table_simplification @ table_optimization @ table_review @ table_waiting @ table_paused @
     table_failed @ table_undo_redo @ table_finish @ table_abort @ table_stop @ table_free_movement)"
  by (simp only: TransitionTable_def append_assoc)

lemma Dispatch_unguarded:
  assumes "map_of TransitionTable (mState m, ev) = Some [t]" "Guards t = []"
  shows "Dispatch now ev m = Inr (applyTransition now ev t m)"
  using assms by (auto simp: Dispatch_Inr_iff)

text \<open>
  The rows without guards, as the table gives them: where an error or a stop of each active
  phase leads, and the abort and reset rows.
\<close>

fun errorTarget :: "State \<Rightarrow> State" where
  "errorTarget StatePlanning = StateLoaded"
| "errorTarget StateImplementing = StatePlanned"
| "errorTarget _ = StateImplemented"

definition unguarded_row :: "State \<Rightarrow> Event \<Rightarrow> State \<Rightarrow> bool" where
  "unguarded_row frm ev to \<longleftrightarrow>
     (case map_of TransitionTable (frm, ev) of
        Some [t] \<Rightarrow> Guards t = [] \<and> To t = to | _ \<Rightarrow> False)"

lemma Dispatch_unguarded_row:
  assumes "unguarded_row (mState m) ev to"
  shows "\<exists>m' ns. Dispatch now ev m = Inr (m', ns) \<and>
     mState m' = (if rollsBack ev m then mPriorStableState m else to) \<and>
     mPreviousState m' = (if ev = EventWait \<or> ev = EventPause then mState m else mPreviousState m) \<and>
     mPriorStableState m' = (if rollsBack ev m then noState else mPriorStableState m) \<and>
     mWorkUnit m' = touch now (mWorkUnit m) \<and>
     mHistory m' = mHistory m @
       [\<lparr>heFrom = mState m, heTo = mState m', heEvent = ev, heTimestamp = now\<rparr>]"
proof -
  from assms obtain t where t: "map_of TransitionTable (mState m, ev) = Some [t]" "Guards t = []" "To t = to"
    by (auto simp: unguarded_row_def split: option.splits list.splits)
  then have "Dispatch now ev m = Inr (applyTransition now ev t m)"
    by (intro Dispatch_unguarded)
  with t(3) show ?thesis
    by (intro exI [of _ "fst (applyTransition now ev t m)"] exI [of _ "snd (applyTransition now ev t m)"])
      (simp add: applyTransition_fields)
qed

lemma error_stop_rows:
  "list_all (\<lambda>st. isActivePhaseState st \<longrightarrow>
     unguarded_row st EventError (errorTarget st) \<and> unguarded_row st EventStop (errorTarget st))
   known_states"
  unfolding unguarded_row_def by code_simp

lemma isActive_known: "isActivePhaseState st \<Longrightarrow> st \<in> set known_states"
  by (cases st) (auto simp: known_states_def)

lemma error_stop_row:
  assumes "isActivePhaseState st" "ev = EventError \<or> ev = EventStop"
  shows "unguarded_row st ev (errorTarget st)"
  using assms error_stop_rows isActive_known [OF assms(1)] by (auto simp: list_all_iff)

lemma abort_reset_rows:
  "list_all (\<lambda>st. st \<noteq> StateNone \<and> st \<noteq> StateFailed \<longrightarrow> unguarded_row st EventAbort StateFailed)
     known_states"
  "unguarded_row StateFailed EventReset StateLoaded"
  unfolding unguarded_row_def by code_simp+

lemma submit_lookup:
  "map_of TransitionTable (StateReviewing, EventSubmit) =
     Some [\<lparr>From = StateReviewing, trEvent = EventSubmit, To = StateSubmitted,
        Guards = [\<lparr>Check = guardCanSubmit, Message = ''cannot submit: no provider configured''\<rparr>,
                  \<lparr>Check = guardQualityGatePassed,
                   Message = ''quality gate failed. Fix issues and re-run: kvelmo review''\<rparr>]\<rparr>]"
  by (simp add: TransitionTable_def table_section_defs)

text \<open>Which rows of the table lead into which phase.\<close>

definition phase_row_ok :: "State \<times> Event \<times> State \<Rightarrow> bool" where
  "phase_row_ok r =
     (case r of (frm, ev, to) \<Rightarrow>
        (to = StateSubmitted \<longrightarrow> ev = EventSubmit \<and> frm = StateReviewing \<or> frm = StateSubmitted) \<and>
        (to = StateReviewing \<longrightarrow> ev = EventReview) \<and>
        (ev = EventPlan \<longrightarrow> to = StatePlanning) \<and>
        (ev = EventImplement \<longrightarrow> to = StateImplementing) \<and>
        (ev = EventSimplify \<longrightarrow> to = StateSimplifying) \<and>
        (ev = EventOptimize \<longrightarrow> to = StateOptimizing) \<and>
        (ev = EventReview \<longrightarrow> to = StateReviewing) \<and>
        (ev = EventSubmit \<longrightarrow> frm = StateReviewing))"

lemma phase_rows_ok: "list_all phase_row_ok table_rows"
  by code_simp

lemma phase_row:
  assumes "table_target frm ev = Some to"
  shows "phase_row_ok (frm, ev, to)"
  using table_rows_all [OF phase_rows_ok assms] .

lemma row_submitted:
  "table_target frm ev = Some StateSubmitted \<Longrightarrow> frm \<noteq> StateSubmitted \<Longrightarrow>
   ev = EventSubmit \<and> frm = StateReviewing"
  using phase_row [of frm ev StateSubmitted] by (simp add: phase_row_ok_def)

lemma row_reviewing: "table_target frm ev = Some StateReviewing \<Longrightarrow> ev = EventReview"
  using phase_row [of frm ev StateReviewing] by (simp add: phase_row_ok_def)

lemma row_entered:
  "table_target frm EventPlan = Some to \<Longrightarrow> to = StatePlanning"
  "table_target frm EventImplement = Some to \<Longrightarrow> to = StateImplementing"
  "table_target frm EventSimplify = Some to \<Longrightarrow> to = StateSimplifying"
  "table_target frm EventOptimize = Some to \<Longrightarrow> to = StateOptimizing"
  "table_target frm EventReview = Some to \<Longrightarrow> to = StateReviewing"
  using phase_row [of frm EventPlan to] phase_row [of frm EventImplement to]
    phase_row [of frm EventSimplify to] phase_row [of frm EventOptimize to]
    phase_row [of frm EventReview to]
  by (simp_all add: phase_row_ok_def)

lemma row_submit: "table_target frm EventSubmit = Some to \<Longrightarrow> frm = StateReviewing"
  using phase_row [of frm EventSubmit to] by (simp add: phase_row_ok_def)

lemma rows_interrupted:
  "list_all (\<lambda>(frm, ev, to). ev = EventPause \<or> ev = EventWait \<longrightarrow> isActivePhaseState frm) table_rows"
  by code_simp

lemma row_interrupted:
  assumes "table_target frm ev = Some to" "ev = EventPause \<or> ev = EventWait"
  shows "isActivePhaseState frm"
  using table_rows_all [OF rows_interrupted assms(1)] assms(2) by auto

lemma rows_source: "list_all (\<lambda>(frm, ev, to). frm \<in> set known_states) table_rows"
  by code_simp

lemma row_source: "table_target frm ev = Some to \<Longrightarrow> frm \<in> set known_states"
  using table_rows_all [OF rows_source] by simp

lemma noState_unknown: "noState \<notin> set known_states"
  by (simp add: known_states_def)

section \<open>Entering and leaving a phase\<close>

lemma errorDispatched_active:
  assumes "isActivePhaseState (mState m)"
  shows "mState (errorDispatched now m) =
           (if mPriorStableState m = noState then errorTarget (mState m) else mPriorStableState m)"
    and "mPriorStableState (errorDispatched now m) = noState"
  using Dispatch_unguarded_row [OF error_stop_row [OF assms], of EventError now]
  by (auto simp: errorDispatched_def dispatchIgnoring_def rollsBack_def)

section \<open>A concrete run\<close>

definition start_message :: string where
  "start_message = ''no task source specified. Run: kvelmo start --from <provider:reference>''"

definition start_transitions :: "Transition list" where
  "start_transitions = [\<lparr>From = StateNone, trEvent = EventStart, To = StateLoaded,
     Guards = [\<lparr>Check = guardHasSource, Message = start_message\<rparr>]\<rparr>]"

definition demo_unit :: WorkUnit where
  "demo_unit = zeroWorkUnit\<lparr>wuID := ''task-1'', wuTitle := ''T'', wuDescription := ''fix the bug'',
     wuSource := Some \<lparr>Provider = ''file'', Reference = ''task.md'', URL = [], Content = ''fix the bug''\<rparr>,
     wuCheckpoints := [''a1'', ''b2''], wuMetadata := Some []\<rparr>"

definition demo_started :: Machine where
  "demo_started = SetWorkUnit 1 (Some demo_unit) NewMachine"

definition run_or_stay :: "Event list \<Rightarrow> Machine \<Rightarrow> Machine" where
  "run_or_stay evs m = (case dispatches 2 evs m of Inl _ \<Rightarrow> m | Inr m' \<Rightarrow> m')"

definition demo_submitted :: Machine where
  "demo_submitted =
     run_or_stay [EventStart, EventImplement, EventImplementDone, EventReview, EventSubmit] demo_started"

lemma dispatches_reachable:
  "reachable machine_init machine_step m \<Longrightarrow> dispatches now evs m = Inr m' \<Longrightarrow>
   reachable machine_init machine_step m'"
proof (induction evs arbitrary: m)
  case (Cons ev evs)
  then obtain m1 ns where "Dispatch now ev m = Inr (m1, ns)" "dispatches now evs m1 = Inr m'"
    by (auto split: sum.splits)
  with Cons show ?case by (blast intro: reach_step step_dispatch)
qed simp

lemma run_or_stay_reachable:
  "reachable machine_init machine_step m \<Longrightarrow> reachable machine_init machine_step (run_or_stay evs m)"
  by (auto simp: run_or_stay_def split: sum.splits intro: dispatches_reachable)

lemma demo_started_reachable: "reachable machine_init machine_step demo_started"
proof -
  have "reachable machine_init machine_step NewMachine"
    by (rule reach_init) (simp add: machine_init_def)
  then show ?thesis
    unfolding demo_started_def by (rule reach_step) (rule step_work_unit)
qed

lemma demo_submitted_state: "mState demo_submitted = StateSubmitted"
  by code_simp

section \<open>Properties\<close>

text \<open>
  The gate on submission. A submit event is accepted exactly when the machine is in
  \<^verbatim>\<open>reviewing\<close>, the work unit has a source with a provider, and the quality gate has not been
  recorded as failed; accepting it enters \<^verbatim>\<open>submitted\<close> and leaves the remembered states alone.
\<close>

theorem submit_gate:
  "(\<exists>r. Dispatch now EventSubmit m = Inr r) \<longleftrightarrow>
     mState m = StateReviewing \<and>
     (\<exists>wu src. mWorkUnit m = Some wu \<and> wuSource wu = Some src \<and> Provider src \<noteq> [] \<and>
        wuQualityGatePassed wu \<noteq> Some False)"
proof (cases "mState m = StateReviewing")
  case True
  then show ?thesis
    by (cases "mWorkUnit m")
      (auto simp: Dispatch_Inr_iff submit_lookup split: option.splits)
next
  case False
  have "table_target (mState m) EventSubmit = None"
    using False by (cases "table_target (mState m) EventSubmit") (auto dest: row_submit)
  with False show ?thesis
    by (auto simp: Dispatch_Inr_iff dest: table_target_single)
qed

text \<open>
  C18: \<^verbatim>\<open>CanDispatch\<close> decides \<^verbatim>\<open>Dispatch\<close>. For every event and machine the query answers
  yes exactly when the dispatch would succeed, otherwise it returns the very message the dispatch
  fails with; and \<^verbatim>\<open>AvailableEvents\<close> lists exactly the events for which it answers yes.
\<close>

theorem can_dispatch_decides:
  "fst (CanDispatch ev m) = (\<exists>r. Dispatch now ev m = Inr r) \<and>
   (\<forall>e. Dispatch now ev m = Inl e \<longleftrightarrow> CanDispatch ev m = (False, e)) \<and>
   (ev \<in> set (AvailableEvents m) \<longleftrightarrow> fst (CanDispatch ev m))"
  unfolding AvailableEvents_iff Dispatch_Inr_iff CanDispatch_iff Dispatch_Inl_CanDispatch by blast

text \<open>
  A refusal names its reason. When the table has transitions for the state and the event but
  no guard list passes, the error is the message of a guard that really fails for the current work
  unit; the fallback text about unmet prerequisites is never produced.
\<close>

theorem guard_error_precise:
  assumes "map_of TransitionTable (mState m, ev) = Some ts" and "Dispatch now ev m = Inl e"
  shows "\<exists>t \<in> set ts. \<exists>g \<in> set (Guards t). \<not> Check g (mWorkUnit m) \<and>
           e = ''cannot '' @ eventDescription ev @ '': '' @ Message g"
proof -
  from assms(1) obtain t where ts: "ts = [t]" by (rule TransitionTable_lookup)
  with assms have fails: "\<not> EvaluateGuards (mWorkUnit m) (Guards t)"
    and e: "e = formatGuardError ev (mWorkUnit m) [t]"
    by (auto simp: Dispatch_def split: if_splits)
  from fails obtain g where g: "firstFailingGuard (mWorkUnit m) (Guards t) = Some g"
    using firstFailingGuard_None [of "mWorkUnit m" "Guards t"] by auto
  with firstFailingGuard_Some [OF g] e ts show ?thesis by auto
qed

theorem guard_error_precise_witness:
  "map_of TransitionTable (mState NewMachine, EventStart) = Some start_transitions \<and>
   Dispatch 5 EventStart NewMachine = Inl (''cannot start task: '' @ start_message) \<and>
   (\<exists>t \<in> set start_transitions. \<exists>g \<in> set (Guards t). \<not> Check g (mWorkUnit NewMachine) \<and>
      ''cannot start task: '' @ start_message = ''cannot '' @ eventDescription EventStart @ '': '' @ Message g)"
proof -
  have a: "map_of TransitionTable (mState NewMachine, EventStart) = Some start_transitions"
    by (simp add: NewMachine_def start_transitions_def start_message_def TransitionTable_def table_start_def)
  have b: "Dispatch 5 EventStart NewMachine = Inl (''cannot start task: '' @ start_message)"
    unfolding Dispatch_def a by (simp add: NewMachine_def start_transitions_def)
  show ?thesis using a b guard_error_precise [OF a b] by blast
qed

text \<open>
  No task is stuck. From every state of a task except \<^verbatim>\<open>none\<close> and \<^verbatim>\<open>failed\<close>,
  aborting and resetting are always accepted, whatever the work unit, and bring the machine to
  \<^verbatim>\<open>loaded\<close>; from \<^verbatim>\<open>failed\<close> the reset alone does.
\<close>

theorem abort_reset_recovers:
  assumes "mState m \<in> set known_states" and "mState m \<noteq> StateNone"
  shows "\<exists>m'. dispatches now (if mState m = StateFailed then [EventReset] else [EventAbort, EventReset]) m
              = Inr m' \<and> mState m' = StateLoaded \<and>
              mWorkUnit m' = touch now (mWorkUnit m)"
proof (cases "mState m = StateFailed")
  case True
  with abort_reset_rows(2) obtain m' ns where "Dispatch now EventReset m = Inr (m', ns)"
      "mState m' = StateLoaded" "mWorkUnit m' = touch now (mWorkUnit m)"
    using Dispatch_unguarded_row [of m EventReset StateLoaded now] by (auto simp: rollsBack_def)
  with True show ?thesis by simp
next
  case False
  with assms have "unguarded_row (mState m) EventAbort StateFailed"
    using abort_reset_rows(1) by (simp add: list_all_iff)
  then obtain m1 ns1 where m1: "Dispatch now EventAbort m = Inr (m1, ns1)"
      "mState m1 = StateFailed" "mWorkUnit m1 = touch now (mWorkUnit m)"
    using Dispatch_unguarded_row [of m EventAbort StateFailed now] by (auto simp: rollsBack_def)
  moreover from m1(2) abort_reset_rows(2) obtain m' ns where
    "Dispatch now EventReset m1 = Inr (m', ns)" "mState m' = StateLoaded"
    "mWorkUnit m' = touch now (mWorkUnit m1)"
    using Dispatch_unguarded_row [of m1 EventReset StateLoaded now] by (auto simp: rollsBack_def)
  ultimately show ?thesis using False by (simp add: touch_touch)
qed

theorem abort_reset_recovers_witness:
  "mState demo_submitted \<in> set known_states \<and> mState demo_submitted \<noteq> StateNone \<and>
   (\<exists>m'. dispatches 9 (if mState demo_submitted = StateFailed then [EventReset] else [EventAbort, EventReset])
           demo_submitted = Inr m' \<and> mState m' = StateLoaded \<and>
         mWorkUnit m' = touch 9 (mWorkUnit demo_submitted))"
proof -
  have h: "mState demo_submitted \<in> set known_states" "mState demo_submitted \<noteq> StateNone"
    by (simp_all add: demo_submitted_state known_states_def)
  show ?thesis using h abort_reset_recovers [OF h] by blast
qed

text \<open>
  C34: Pausing and resuming is a round trip. Whenever a pause (or a wait for user input) is
  accepted, a following resume (or answer) through \<^verbatim>\<open>DispatchWithResume\<close> returns to exactly the
  state that was interrupted, forgets it again and records both transitions.
\<close>

theorem pause_resume_roundtrip:
  assumes "Dispatch now ev m = Inr (m1, ns)" and "ev = EventPause \<or> ev = EventWait"
    and "ev' = EventResume \<or> ev' = EventAnswer"
  shows "\<exists>m2. DispatchWithResume now' ev' m1 = Inr (m2, []) \<and> mState m2 = mState m \<and>
           isActivePhaseState (mState m2) \<and> mPreviousState m2 = noState \<and>
           length (mHistory m2) = length (mHistory m) + 2"
proof -
  from assms(1) obtain t where t: "table_target (mState m) ev = Some (To t)"
      "m1 = fst (applyTransition now ev t m)"
    by (rule Dispatch_InrE)
  from t(1) assms(2) have act: "isActivePhaseState (mState m)"
    by (rule row_interrupted)
  have m1: "mPreviousState m1 = mState m" "length (mHistory m1) = Suc (length (mHistory m))"
    using assms(2) by (auto simp: t(2) applyTransition_fields)
  from act have "mState m \<noteq> noState" by auto
  with m1 act assms(3) show ?thesis by (auto simp: DispatchWithResume_def)
qed

theorem pause_resume_roundtrip_witness:
  "\<exists>m1 ns m2. Dispatch 3 EventPause (run_or_stay [EventStart, EventPlan] demo_started) = Inr (m1, ns) \<and>
     DispatchWithResume 4 EventResume m1 = Inr (m2, []) \<and> mState m2 = StatePlanning"
proof -
  let ?m = "run_or_stay [EventStart, EventPlan] demo_started"
  have st: "mState ?m = StatePlanning" by code_simp
  have row: "unguarded_row (mState ?m) EventPause StatePaused"
    unfolding st unguarded_row_def by code_simp
  obtain m1 ns where m1: "Dispatch 3 EventPause ?m = Inr (m1, ns)"
    using Dispatch_unguarded_row [OF row, of 3] by blast
  show ?thesis
    using m1 pause_resume_roundtrip [OF m1, of EventResume 4] by (simp add: st) blast
qed

text \<open>
  Implementing straight from \<^verbatim>\<open>loaded\<close> does not roll back to \<^verbatim>\<open>loaded\<close>. The
  conductor records no prior stable state for this entry, so when the job fails and the error is dispatched the
  table's default applies and the task ends in \<^verbatim>\<open>planned\<close>, although it has no specification and every retry
  of the implementation is refused there.
\<close>

theorem implement_from_loaded_fails_to_planned:
  assumes "mState m = StateLoaded" and "mPriorStableState m = noState"
    and "mWorkUnit m = Some wu" and "wuDescription wu \<noteq> []" and "wuSpecifications wu = []"
  shows "\<exists>m1. enter PhaseImplement now m = (None, m1) \<and> mState (errorDispatched now' m1) = StatePlanned \<and>
           fst (enter PhaseImplement now'' (errorDispatched now' m1)) =
             Some (''cannot implement: cannot start implementation: no specification found. Run: kvelmo plan first'')"
proof -
  have t: "map_of TransitionTable (StateLoaded, EventImplement) =
      Some [\<lparr>From = StateLoaded, trEvent = EventImplement, To = StateImplementing,
        Guards = [\<lparr>Check = guardHasDescription,
          Message = ''task has no description. Check the task source content''\<rparr>]\<rparr>]"
    by (simp add: TransitionTable_def table_section_defs)
  obtain m1 where m1: "enter PhaseImplement now m = (None, m1)"
      "m1 = fst (applyTransition now EventImplement
        \<lparr>From = StateLoaded, trEvent = EventImplement, To = StateImplementing,
         Guards = [\<lparr>Check = guardHasDescription,
           Message = ''task has no description. Check the task source content''\<rparr>]\<rparr> m)"
    using assms t
    by (cases "Dispatch now EventImplement m")
      (auto simp: enterImplement_def enterPhase_def Dispatch_Inr_iff Dispatch_def)
  have f: "mState m1 = StateImplementing" "mPriorStableState m1 = noState"
      "mWorkUnit m1 = touch now (Some wu)"
    using assms by (simp_all add: m1(2) applyTransition_fields rollsBack_def)
  have g: "mState (errorDispatched now' m1) = StatePlanned"
    using errorDispatched_active(1) [of m1 now'] f by simp
  have w: "mWorkUnit (errorDispatched now' m1) = touch now' (touch now (Some wu))"
    using Dispatch_unguarded_row [OF error_stop_row, of m1 EventError now'] f
    by (auto simp: errorDispatched_def dispatchIgnoring_def)
  have "Dispatch now'' EventImplement (errorDispatched now' m1) =
      Inl (''cannot start implementation: no specification found. Run: kvelmo plan first'')"
    unfolding Dispatch_def g w
    by (simp add: TransitionTable_def table_section_defs assms(5))
  with m1(1) g show ?thesis
    by (simp add: enterImplement_def enterPhase_def)
qed

theorem implement_from_loaded_fails_to_planned_witness:
  "\<exists>m1. enter PhaseImplement 5 (run_or_stay [EventStart] demo_started) = (None, m1) \<and>
     mState (errorDispatched 6 m1) = StatePlanned \<and>
     fst (enter PhaseImplement 7 (errorDispatched 6 m1)) =
       Some (''cannot implement: cannot start implementation: no specification found. Run: kvelmo plan first'')"
proof -
  let ?m = "run_or_stay [EventStart] demo_started"
  have h: "mState ?m = StateLoaded" "mPriorStableState ?m = noState"
      "map_option wuDescription (mWorkUnit ?m) = Some ''fix the bug''"
      "map_option wuSpecifications (mWorkUnit ?m) = Some []"
    by code_simp+
  then obtain wu where wu: "mWorkUnit ?m = Some wu" "wuDescription wu \<noteq> []" "wuSpecifications wu = []"
    by auto
  show ?thesis
    using implement_from_loaded_fails_to_planned [OF h(1,2) wu, of 5 6 7] .
qed

text \<open>
  A rollback target outlives its task. \<^verbatim>\<open>Reset\<close> clears the work unit, the history and the
  paused state but not the prior stable state. If a task is abandoned while it is being re-planned
  from \<^verbatim>\<open>submitted\<close>, the next task, once the error of its first planning job is dispatched, lands in
  \<^verbatim>\<open>submitted\<close> although its history holds no submit event.
\<close>

theorem stale_rollback_after_reset:
  assumes "mPriorStableState m = StateSubmitted" and "wuDescription wu \<noteq> []"
    and "wuSource wu = Some src" and "Reference src \<noteq> []"
  shows "\<exists>m1 m2. dispatches now [EventStart] (SetWorkUnit now (Some wu) (Reset m)) = Inr m1 \<and>
           enter PhasePlan now m1 = (None, m2) \<and>
           mState (errorDispatched now m2) = StateSubmitted \<and>
           (\<forall>h \<in> set (mHistory (errorDispatched now m2)). heEvent h \<noteq> EventSubmit)"
proof -
  let ?m0 = "SetWorkUnit now (Some wu) (Reset m)"
  have ls: "map_of TransitionTable (StateNone, EventStart) = Some start_transitions"
    by (simp add: start_transitions_def start_message_def TransitionTable_def table_section_defs)
  have lp: "\<exists>t. map_of TransitionTable (StateLoaded, EventPlan) = Some [t] \<and> To t = StatePlanning \<and>
              (\<forall>u. EvaluateGuards u (Guards t) = guardHasDescription u)"
    by (simp add: TransitionTable_def table_section_defs)
  obtain m1 ns1 where m1: "Dispatch now EventStart ?m0 = Inr (m1, ns1)" "mState m1 = StateLoaded"
      "mPriorStableState m1 = StateSubmitted" "mWorkUnit m1 = touch now (touch now (Some wu))"
      "\<forall>h \<in> set (mHistory m1). heEvent h = EventStart"
    using assms ls
    by (auto simp: Dispatch_def SetWorkUnit_def Reset_def start_transitions_def applyTransition_def Let_def)
  from lp obtain t where t: "map_of TransitionTable (StateLoaded, EventPlan) = Some [t]"
      "To t = StatePlanning" "\<And>u. EvaluateGuards u (Guards t) = guardHasDescription u"
    by blast
  obtain m2 where m2: "enter PhasePlan now m1 = (None, m2)" "m2 = fst (applyTransition now EventPlan t m1)"
    using m1(2,4) t(1,3) assms(2)
    by (cases "applyTransition now EventPlan t m1") (auto simp: enterPlan_def enterPhase_def Dispatch_def)
  have f: "mState m2 = StatePlanning" "mPriorStableState m2 = StateSubmitted"
      "\<forall>h \<in> set (mHistory m2). heEvent h = EventStart \<or> heEvent h = EventPlan"
    using m1(2,3,5) t(2) by (auto simp: m2(2) applyTransition_fields rollsBack_def)
  obtain m3 ns3 where m3: "Dispatch now EventError m2 = Inr (m3, ns3)" "mState m3 = StateSubmitted"
      "mHistory m3 = mHistory m2 @ [\<lparr>heFrom = mState m2, heTo = mState m3, heEvent = EventError, heTimestamp = now\<rparr>]"
    using Dispatch_unguarded_row [OF error_stop_row, of m2 EventError now] f(1,2)
    by (auto simp: rollsBack_def)
  with f(3) have "\<forall>h \<in> set (mHistory m3). heEvent h \<noteq> EventSubmit" by auto
  with m1(1) m2(1) m3 show ?thesis
    by (auto simp: errorDispatched_def dispatchIgnoring_def)
qed

theorem stale_rollback_after_reset_witness:
  "\<exists>m m1 m2. reachable machine_init machine_step m \<and> mState m = StatePlanning \<and>
     dispatches 4 [EventStart] (SetWorkUnit 4 (Some demo_unit) (Reset m)) = Inr m1 \<and>
     enter PhasePlan 4 m1 = (None, m2) \<and> mState (errorDispatched 4 m2) = StateSubmitted"
proof -
  let ?m = "run_or_stay [EventPlan] (SetPriorStableState (mState demo_submitted) demo_submitted)"
  have r: "reachable machine_init machine_step ?m"
  proof -
    have "reachable machine_init machine_step demo_submitted"
      unfolding demo_submitted_def by (rule run_or_stay_reachable [OF demo_started_reachable])
    then have "reachable machine_init machine_step
        (SetPriorStableState (mState demo_submitted) demo_submitted)"
      by (rule reach_step) (rule step_set_prior)
    then show ?thesis by (rule run_or_stay_reachable)
  qed
  have p: "mState ?m = StatePlanning" "mPriorStableState ?m = StateSubmitted" by code_simp+
  have d: "wuDescription demo_unit \<noteq> []"
      "wuSource demo_unit = Some \<lparr>Provider = ''file'', Reference = ''task.md'', URL = [], Content = ''fix the bug''\<rparr>"
      "Reference \<lparr>Provider = ''file'', Reference = ''task.md'', URL = [], Content = ''fix the bug''\<rparr> \<noteq> []"
    by (simp_all add: demo_unit_def zeroWorkUnit_def)
  show ?thesis
    using r p(1) stale_rollback_after_reset [OF p(2) d, of 4] by blast
qed

end
