(* ===== verification/Change_Policy.thy ===== *)
theory Change_Policy
  imports Findings State_Machine Go_Text
begin

text \<open>
  Policies on transitions and guardrails of phases: src/internal/policy/policy.go, guardrail.go, findings.go, their
  use in src/internal/conductor/conductor_guardrail.go and conductor_submit.go, and the check over the socket
  (src/internal/socket/worktree_policy.go). The match of a glob pattern, \<^verbatim>\<open>path.Match\<close> with its error ignored, and
  the output of git are parameters.
\<close>

section \<open>Policies\<close>

datatype PolicySeverity = SeverityError | SeverityWarning

record Violation =
  vlSeverity :: PolicySeverity
  vlRule :: string
  vlMessage :: string

record DocRequirement =
  drTrigger :: string
  drRequires :: string

record PolicySettings =
  psRequiredPhases :: "string list"
  psSensitivePaths :: "string list"
  psMinSpecSections :: int
  psRequireSecurityScan :: bool
  psDocRequirements :: "DocRequirement list"

definition phaseOrder :: "string list" where
  "phaseOrder = [''loaded'', ''planning'', ''planned'', ''implementing'', ''implemented'', ''simplifying'', ''optimizing'',
     ''reviewing'', ''submitted'']"

definition eventTarget :: "(string, string) gomap" where
  "eventTarget = [(''start'', ''loaded''), (''plan'', ''planning''), (''implement'', ''implementing''), (''simplify'', ''simplifying''),
     (''optimize'', ''optimizing''), (''review'', ''reviewing''), (''submit'', ''submitted''), (''finish'', ''submitted'')]"

text \<open>\<^verbatim>\<open>slices.Index\<close>: the first position, or -1.\<close>

fun indexFrom :: "int \<Rightarrow> 'a list \<Rightarrow> 'a \<Rightarrow> int" where
  "indexFrom i [] x = - 1"
| "indexFrom i (y # ys) x = (if y = x then i else indexFrom (i + 1) ys x)"

definition checkRequiredPhases :: "string list \<Rightarrow> string \<Rightarrow> string \<Rightarrow> Violation list" where
  "checkRequiredPhases requiredPhases event currentState =
     (if requiredPhases = [] then []
      else (case map_of eventTarget event of
        None \<Rightarrow> []
      | Some target \<Rightarrow>
          (let currentIdx = indexFrom 0 phaseOrder currentState; targetIdx = indexFrom 0 phaseOrder target in
           if currentIdx < 0 \<or> targetIdx < 0 \<or> targetIdx \<le> currentIdx then []
           else map (\<lambda>phase. \<lparr>vlSeverity = SeverityError, vlRule = ''required_phase'',
                      vlMessage = ''required phase '' @ quote phase @ '' would be skipped by '' @ event @ '' from '' @ currentState\<rparr>)
                  (filter (\<lambda>phase. phase \<in> set requiredPhases)
                    (drop (nat (currentIdx + 1)) (take (nat targetIdx) phaseOrder))))))"

definition checkSensitivePaths :: "(string \<Rightarrow> string \<Rightarrow> bool) \<Rightarrow> string list \<Rightarrow> string list \<Rightarrow> Violation list" where
  "checkSensitivePaths glob sensitivePaths changedFiles =
     (if list_ex (\<lambda>file. list_ex (\<lambda>pattern. glob pattern file) sensitivePaths) changedFiles
      then [\<lparr>vlSeverity = SeverityWarning, vlRule = ''sensitive_paths'', vlMessage = ''sensitive files modified, review recommended''\<rparr>]
      else [])"

definition checkDocRequirements :: "(string \<Rightarrow> string \<Rightarrow> bool) \<Rightarrow> DocRequirement list \<Rightarrow> string list \<Rightarrow> Violation list" where
  "checkDocRequirements glob requirements changedFiles =
     map (\<lambda>req. \<lparr>vlSeverity = SeverityError, vlRule = ''doc_requirement'',
           vlMessage = ''files matching '' @ quote (drTrigger req) @ '' changed but required documentation matching '' @
                       quote (drRequires req) @ '' was not updated''\<rparr>)
       (filter (\<lambda>req. list_ex (glob (drTrigger req)) changedFiles \<and> \<not> list_ex (glob (drRequires req)) changedFiles) requirements)"

definition EvaluatePolicy :: "(string \<Rightarrow> string \<Rightarrow> bool) \<Rightarrow> PolicySettings \<Rightarrow> string \<Rightarrow> string \<Rightarrow> string list \<Rightarrow> string list \<Rightarrow> Violation list" where
  "EvaluatePolicy glob cfg event state specs changedFiles =
     (if event = ''submit'' \<and> psRequireSecurityScan cfg
      then [\<lparr>vlSeverity = SeverityWarning, vlRule = ''require_security_scan'', vlMessage = ''security scan required before submit''\<rparr>] else []) @
     (if event = ''implement'' \<and> 0 < psMinSpecSections cfg \<and> int (length specs) < psMinSpecSections cfg
      then [\<lparr>vlSeverity = SeverityError, vlRule = ''min_spec_sections'',
             vlMessage = ''need at least '' @ format_int (psMinSpecSections cfg) @ '' specification files before implementation, got '' @
                         decimal (length specs)\<rparr>] else []) @
     checkRequiredPhases (psRequiredPhases cfg) event state @
     checkSensitivePaths glob (psSensitivePaths cfg) changedFiles @
     checkDocRequirements glob (psDocRequirements cfg) changedFiles"

definition HasBlockingViolation :: "Violation list \<Rightarrow> bool" where
  "HasBlockingViolation vs = list_ex (\<lambda>v. vlSeverity v = SeverityError) vs"

definition mapPolicySeverity :: "PolicySeverity \<Rightarrow> Severity" where
  "mapPolicySeverity s = (case s of SeverityError \<Rightarrow> SeverityHigh | SeverityWarning \<Rightarrow> SeverityMedium)"

definition ViolationsToFindings :: "Violation list \<Rightarrow> Finding list" where
  "ViolationsToFindings vs = map (\<lambda>(i, v). zeroFinding\<lparr>fnID := ''policy-'' @ decimal i, fnSeverity := mapPolicySeverity (vlSeverity v),
      fnCategory := ''policy'', fnRule := vlRule v, fnMessage := vlMessage v, fnSource := ''policy''\<rparr>) (List.enumerate 0 vs)"

text \<open>The block of \<^verbatim>\<open>Submit\<close> that enforces the policy: the error, if any.\<close>

definition submitPolicy :: "(string \<Rightarrow> string \<Rightarrow> bool) \<Rightarrow> PolicySettings \<Rightarrow> string list \<Rightarrow> Machine \<Rightarrow> string option" where
  "submitPolicy glob cfg changedPaths m =
     (if psRequiredPhases cfg \<noteq> [] \<or> psRequireSecurityScan cfg \<or> psSensitivePaths cfg \<noteq> [] \<or> psDocRequirements cfg \<noteq> []
      then let vs = EvaluatePolicy glob cfg ''submit'' (state_string (mState m))
                      (case mWorkUnit m of None \<Rightarrow> [] | Some wu \<Rightarrow> wuSpecifications wu) changedPaths
           in if HasBlockingViolation vs
              then Some (''policy violations block submit: '' @
                     joinWith ''; '' (map vlMessage (filter (\<lambda>v. vlSeverity v = SeverityError) vs)))
              else None
      else None)"

text \<open>The check over the socket, for a task that exists.\<close>

definition handlePolicyCheck :: "(string \<Rightarrow> string \<Rightarrow> bool) \<Rightarrow> PolicySettings \<Rightarrow> string \<Rightarrow> string list \<Rightarrow> Violation list \<times> Finding list \<times> bool" where
  "handlePolicyCheck glob cfg state specs =
     (let violations = EvaluatePolicy glob cfg [] state specs []
      in (violations, ViolationsToFindings violations, HasBlockingViolation violations))"

section \<open>Guardrails\<close>

datatype Guardrail = RequireSpec | MaxDiffSize int

definition guardrailRegistry :: "(string, Guardrail) gomap" where
  "guardrailRegistry = [(''require-spec'', RequireSpec), (''max-diff-size'', MaxDiffSize 2000)]"

definition GetGuardrail :: "string \<Rightarrow> Guardrail option" where
  "GetGuardrail name = map_of guardrailRegistry name"

definition ListGuardrails :: "string list" where
  "ListGuardrails = sort (map fst guardrailRegistry)"

text \<open>The number of changed lines of the diff is a parameter; it may be unknown.\<close>

fun checkGuardrail :: "int option \<Rightarrow> Guardrail \<Rightarrow> string \<Rightarrow> string list \<Rightarrow> Finding list" where
  "checkGuardrail diffLines RequireSpec phase specs =
     (if phase \<notin> {''implement'', ''simplify'', ''optimize'', ''review''} \<or> specs \<noteq> [] then []
      else [zeroFinding\<lparr>fnID := ''guardrail-require-spec'', fnSeverity := SeverityHigh, fnCategory := ''policy'', fnRule := ''require-spec'',
              fnMessage := ''phase '' @ quote phase @ '' requires at least one specification file, but none exist'',
              fnRemediation := ''Run the plan phase first to generate a specification, or create one manually.'',
              fnSource := ''guardrail''\<rparr>])"
| "checkGuardrail diffLines (MaxDiffSize n) phase specs =
     (let maxLines = (if n \<le> 0 then 2000 else n) in
      case diffLines of
        None \<Rightarrow> []
      | Some lines \<Rightarrow>
          if lines \<le> maxLines then []
          else [zeroFinding\<lparr>fnID := ''guardrail-max-diff-size'', fnSeverity := SeverityMedium, fnCategory := ''policy'', fnRule := ''max-diff-size'',
                  fnMessage := ''diff is '' @ format_int lines @ '' lines, exceeding the '' @ format_int maxLines @ ''-line threshold'',
                  fnEvidence := format_int lines @ '' lines changed'',
                  fnRemediation := ''Consider breaking the change into smaller increments.'', fnSource := ''guardrail''\<rparr>])"

definition executeGuardrails :: "int option \<Rightarrow> string list \<Rightarrow> string \<Rightarrow> string list \<Rightarrow> Finding list" where
  "executeGuardrails diffLines names phase specs =
     concat (map (\<lambda>name. case GetGuardrail name of None \<Rightarrow> [] | Some g \<Rightarrow> checkGuardrail diffLines g phase specs) names)"

text \<open>The guardrails before a phase: the configured names, if any; the error, if the phase is blocked.\<close>

definition runPreGuardrails :: "int option \<Rightarrow> string list \<Rightarrow> string \<Rightarrow> string list \<Rightarrow> string option" where
  "runPreGuardrails diffLines pre phase specs =
     (let blocking = map (\<lambda>f. ''['' @ fnRule f @ ''] '' @ fnMessage f)
            (filter (\<lambda>f. fnSeverity f \<le> SeverityHigh) (executeGuardrails diffLines pre phase specs))
      in if blocking = [] then None else Some (''pre-guardrail blocked '' @ phase @ '': '' @ joinWith ''; '' blocking))"

definition runPostGuardrails :: "int option \<Rightarrow> string list \<Rightarrow> string \<Rightarrow> string list \<Rightarrow> Finding list" where
  "runPostGuardrails diffLines post phase specs = executeGuardrails diffLines post phase specs"

section \<open>Lemmas\<close>

lemma no_warning_blocks: "HasBlockingViolation (vs @ ws) \<longleftrightarrow> HasBlockingViolation vs \<or> HasBlockingViolation ws"
  by (simp add: HasBlockingViolation_def)

lemma sensitive_never_blocks: "\<not> HasBlockingViolation (checkSensitivePaths glob ps files)"
  by (simp add: HasBlockingViolation_def checkSensitivePaths_def)

lemma doc_blocks:
  "HasBlockingViolation (checkDocRequirements glob reqs files) \<longleftrightarrow>
   (\<exists>req \<in> set reqs. (\<exists>f \<in> set files. glob (drTrigger req) f) \<and> \<not> (\<exists>f \<in> set files. glob (drRequires req) f))"
  by (auto simp: HasBlockingViolation_def checkDocRequirements_def list_ex_iff)

lemma no_phase_before_submit: "checkRequiredPhases phases ''submit'' ''reviewing'' = []"
proof -
  have "indexFrom 0 phaseOrder ''reviewing'' = 7" "indexFrom 0 phaseOrder ''submitted'' = 8"
    "map_of eventTarget ''submit'' = Some ''submitted''"
    by (simp_all add: phaseOrder_def eventTarget_def)
  moreover have "drop 8 (take 8 phaseOrder) = []" by (simp add: phaseOrder_def)
  ultimately show ?thesis by (simp add: checkRequiredPhases_def)
qed

lemma submit_blocks_iff:
  "HasBlockingViolation (EvaluatePolicy glob cfg ''submit'' ''reviewing'' specs files) \<longleftrightarrow>
   HasBlockingViolation (checkDocRequirements glob (psDocRequirements cfg) files)"
  by (auto simp: EvaluatePolicy_def no_warning_blocks sensitive_never_blocks no_phase_before_submit)
    (simp_all add: HasBlockingViolation_def)

section \<open>Properties\<close>

text \<open>
  For every submission that the state machine accepts, the policy engine blocks it exactly if a documentation
  requirement is violated; its rules for required phases and for the security scan never do. A submission is
  accepted only in the state of the review, from which no phase is skipped, and a missing security scan is only
  a warning.
\<close>

theorem submit_policy_enforces_only_docs:
  assumes "Dispatch now EventSubmit m = Inr (m', ns)"
  shows "submitPolicy glob cfg changedPaths m \<noteq> None \<longleftrightarrow>
    (\<exists>req \<in> set (psDocRequirements cfg). (\<exists>f \<in> set changedPaths. glob (drTrigger req) f) \<and> \<not> (\<exists>f \<in> set changedPaths. glob (drRequires req) f))"
proof -
  from assms obtain to where "table_target (mState m) EventSubmit = Some to" by (rule Dispatch_InrE) blast
  then have "mState m = StateReviewing" by (rule row_submit)
  then show ?thesis
    using doc_blocks [of glob "psDocRequirements cfg" changedPaths]
    by (auto simp: submitPolicy_def Let_def submit_blocks_iff)
qed

theorem submit_policy_enforces_only_docs_witness:
  "submitPolicy (=) \<lparr>psRequiredPhases = [''simplifying''], psSensitivePaths = [], psMinSpecSections = 0, psRequireSecurityScan = True,
      psDocRequirements = []\<rparr> [''main.go'']
     (run_or_stay [EventStart, EventImplement, EventImplementDone, EventReview] demo_started) = None"
proof -
  have "case Dispatch 3 EventSubmit (run_or_stay [EventStart, EventImplement, EventImplementDone, EventReview] demo_started) of
      Inl _ \<Rightarrow> False | Inr _ \<Rightarrow> True" by code_simp
  then obtain m ns where "Dispatch 3 EventSubmit (run_or_stay [EventStart, EventImplement, EventImplementDone, EventReview] demo_started) = Inr (m, ns)"
    by (auto split: sum.splits)
  from submit_policy_enforces_only_docs [OF this, of "(=)" "\<lparr>psRequiredPhases = [''simplifying''], psSensitivePaths = [],
      psMinSpecSections = 0, psRequireSecurityScan = True, psDocRequirements = []\<rparr>" "[''main.go'']"]
  show ?thesis by simp
qed

text \<open>
  The policy check over the socket reports nothing, whatever the settings and the state of the task: it evaluates
  the policy for no event and no changed file.
\<close>

theorem policy_check_reports_nothing: "handlePolicyCheck glob cfg state specs = ([], [], False)"
proof -
  have "checkRequiredPhases phases [] state = []" for phases
    by (simp add: checkRequiredPhases_def eventTarget_def)
  then show ?thesis
    by (simp add: handlePolicyCheck_def EvaluatePolicy_def checkSensitivePaths_def checkDocRequirements_def
        ViolationsToFindings_def HasBlockingViolation_def)
qed

text \<open>
  Before a phase that needs specifications, the guardrail \<^verbatim>\<open>require-spec\<close> blocks exactly if there are none; the
  guardrail on the size of the diff never blocks.
\<close>

theorem guardrail_blocks_iff:
  "runPreGuardrails diffLines pre phase specs \<noteq> None \<longleftrightarrow>
     ''require-spec'' \<in> set pre \<and> phase \<in> {''implement'', ''simplify'', ''optimize'', ''review''} \<and> specs = []"
proof -
  have "(\<exists>f \<in> set (case GetGuardrail name of None \<Rightarrow> [] | Some g \<Rightarrow> checkGuardrail diffLines g phase specs). fnSeverity f \<le> SeverityHigh) \<longleftrightarrow>
      name = ''require-spec'' \<and> phase \<in> {''implement'', ''simplify'', ''optimize'', ''review''} \<and> specs = []" for name
    by (cases diffLines) (auto simp: GetGuardrail_def guardrailRegistry_def severities zeroFinding_def split: if_splits)
  then have "filter (\<lambda>f. fnSeverity f \<le> SeverityHigh) (executeGuardrails diffLines pre phase specs) \<noteq> [] \<longleftrightarrow>
      ''require-spec'' \<in> set pre \<and> phase \<in> {''implement'', ''simplify'', ''optimize'', ''review''} \<and> specs = []"
    by (auto simp: executeGuardrails_def filter_empty_conv)
  moreover have "runPreGuardrails diffLines pre phase specs \<noteq> None \<longleftrightarrow>
      filter (\<lambda>f. fnSeverity f \<le> SeverityHigh) (executeGuardrails diffLines pre phase specs) \<noteq> []"
    unfolding runPreGuardrails_def Let_def by simp
  ultimately show ?thesis by (rule trans [rotated])
qed

end
