(* ===== verification/Task_Storage.thy ===== *)
theory Task_Storage
  imports State_Machine
begin

text \<open>
  Persistence of a task: the on-disk snapshot \<^verbatim>\<open>TaskState\<close> and the store that holds it
  (src/internal/storage/task.go), and the conversions between a work unit and its snapshot
  (src/internal/conductor/conductor_state_convert.go).

  A store is the directory of task directories, in the order \<^verbatim>\<open>os.ReadDir\<close> lists them; each
  entry with a \<^verbatim>\<open>task.yaml\<close> holds the file's bytes and modification time. The YAML codec is a
  third-party package: its \<^verbatim>\<open>Marshal\<close> and \<^verbatim>\<open>Unmarshal\<close> are the parameters \<open>enc\<close> and
  \<open>dec\<close>. The error of the file system, if any, is the parameter \<open>io\<close> of the operation that
  would report it.
\<close>

section \<open>The snapshot\<close>

record TaskHistoryEntry =
  thFrom :: string
  thTo :: string
  thEvent :: string
  thTimestamp :: time

record TaskCheckpointMeta =
  tcMessage :: string
  tcState :: string
  tcCreatedAt :: time

record TaskApprovalRecord =
  taApprovedBy :: string
  taApprovedAt :: time

record TaskSource =
  tsrcProvider :: string
  tsrcReference :: string
  tsrcURL :: string
  tsrcContent :: string

record TaskHierarchySummary =
  thsID :: string
  thsTitle :: string
  thsDescription :: string
  thsURL :: string
  thsStatus :: string

record TaskHierarchy =
  thParent :: "TaskHierarchySummary option"
  thSiblings :: "TaskHierarchySummary list"

record TaskState =
  tsFormatVersion :: int
  tsState :: string
  tsID :: string
  tsExternalID :: string
  tsTitle :: string
  tsDescription :: string
  tsBranch :: string
  tsWorktreePath :: string
  tsSpecifications :: "string list"
  tsCheckpoints :: "string list"
  tsCheckpointMeta :: "(string, TaskCheckpointMeta) gomap option"
  tsRedoStack :: "string list"
  tsJobs :: "string list"
  tsMetadata :: "(string, string) gomap option"
  tsSource :: "TaskSource option"
  tsHierarchy :: "TaskHierarchy option"
  tsApprovals :: "(string, TaskApprovalRecord) gomap option"
  tsChecklistChecked :: "string list"
  tsTags :: "string list"
  tsPriority :: int
  tsDependsOn :: "string list"
  tsQualityGatePassed :: "bool option"
  tsVarPoolPath :: string
  tsHasImplemented :: bool
  tsTaskTraceID :: string
  tsProjectRoot :: string
  tsHistory :: "TaskHistoryEntry list"
  tsCreatedAt :: time
  tsUpdatedAt :: time

section \<open>Conversions\<close>

text \<open>Converting a map: a nil or empty map gives nil, otherwise every entry is converted.\<close>

definition convert_map :: "('a \<Rightarrow> 'b) \<Rightarrow> (string, 'a) gomap option \<Rightarrow> (string, 'b) gomap option" where
  "convert_map f m =
     (case m of None \<Rightarrow> None
      | Some kvs \<Rightarrow> if kvs = [] then None else Some (map (\<lambda>(k, v). (k, f v)) kvs))"

definition convertCheckpointMetaToStorage ::
  "(string, CheckpointMeta) gomap option \<Rightarrow> (string, TaskCheckpointMeta) gomap option" where
  "convertCheckpointMetaToStorage = convert_map
     (\<lambda>m. \<lparr>tcMessage = cpMessage m, tcState = cpState m, tcCreatedAt = cpCreatedAt m\<rparr>)"

definition convertCheckpointMetaFromStorage ::
  "(string, TaskCheckpointMeta) gomap option \<Rightarrow> (string, CheckpointMeta) gomap option" where
  "convertCheckpointMetaFromStorage = convert_map
     (\<lambda>m. \<lparr>cpMessage = tcMessage m, cpState = tcState m, cpCreatedAt = tcCreatedAt m\<rparr>)"

definition summaryToStorage :: "TaskSummary \<Rightarrow> TaskHierarchySummary" where
  "summaryToStorage s =
     \<lparr>thsID = tsumID s, thsTitle = tsumTitle s, thsDescription = tsumDescription s,
      thsURL = tsumURL s, thsStatus = tsumStatus s\<rparr>"

definition summaryFromStorage :: "TaskHierarchySummary \<Rightarrow> TaskSummary" where
  "summaryFromStorage s =
     \<lparr>tsumID = thsID s, tsumTitle = thsTitle s, tsumDescription = thsDescription s,
      tsumURL = thsURL s, tsumStatus = thsStatus s\<rparr>"

definition workUnitToTaskState :: "State \<Rightarrow> WorkUnit \<Rightarrow> HistoryEntry list \<Rightarrow> TaskState" where
  "workUnitToTaskState state wu history = \<lparr>
     tsFormatVersion = 0,
     tsState = state_string state,
     tsID = wuID wu,
     tsExternalID = wuExternalID wu,
     tsTitle = wuTitle wu,
     tsDescription = wuDescription wu,
     tsBranch = wuBranch wu,
     tsWorktreePath = wuWorktreePath wu,
     tsSpecifications = wuSpecifications wu,
     tsCheckpoints = wuCheckpoints wu,
     tsCheckpointMeta = convertCheckpointMetaToStorage (wuCheckpointMeta wu),
     tsRedoStack = wuRedoStack wu,
     tsJobs = wuJobs wu,
     tsMetadata = wuMetadata wu,
     tsSource = map_option (\<lambda>s. \<lparr>tsrcProvider = Provider s, tsrcReference = Reference s,
                                   tsrcURL = URL s, tsrcContent = Content s\<rparr>) (wuSource wu),
     tsHierarchy = map_option (\<lambda>h. \<lparr>thParent = map_option summaryToStorage (Parent h),
                                      thSiblings = map summaryToStorage (Siblings h)\<rparr>) (wuHierarchy wu),
     tsApprovals = convert_map (\<lambda>v. \<lparr>taApprovedBy = ApprovedBy v, taApprovedAt = ApprovedAt v\<rparr>)
                     (wuApprovals wu),
     tsChecklistChecked = wuChecklistChecked wu,
     tsTags = wuTags wu,
     tsPriority = wuPriority wu,
     tsDependsOn = wuDependsOn wu,
     tsQualityGatePassed = wuQualityGatePassed wu,
     tsVarPoolPath = wuVarPoolPath wu,
     tsHasImplemented = wuHasImplemented wu,
     tsTaskTraceID = wuTaskTraceID wu,
     tsProjectRoot = [],
     tsHistory = map (\<lambda>h. \<lparr>thFrom = state_string (heFrom h), thTo = state_string (heTo h),
                              thEvent = event_string (heEvent h), thTimestamp = heTimestamp h\<rparr>) history,
     tsCreatedAt = wuCreatedAt wu,
     tsUpdatedAt = wuUpdatedAt wu\<rparr>"

definition taskStateToWorkUnit :: "TaskState \<Rightarrow> State \<times> WorkUnit \<times> HistoryEntry list" where
  "taskStateToWorkUnit ts =
     (string_state (tsState ts),
      zeroWorkUnit\<lparr>
        wuID := tsID ts,
        wuExternalID := tsExternalID ts,
        wuTitle := tsTitle ts,
        wuDescription := tsDescription ts,
        wuBranch := tsBranch ts,
        wuWorktreePath := tsWorktreePath ts,
        wuSpecifications := tsSpecifications ts,
        wuCheckpoints := tsCheckpoints ts,
        wuCheckpointMeta := convertCheckpointMetaFromStorage (tsCheckpointMeta ts),
        wuRedoStack := tsRedoStack ts,
        wuJobs := tsJobs ts,
        wuMetadata := (case tsMetadata ts of None \<Rightarrow> Some [] | Some m \<Rightarrow> Some m),
        wuChecklistChecked := tsChecklistChecked ts,
        wuTags := tsTags ts,
        wuPriority := tsPriority ts,
        wuDependsOn := tsDependsOn ts,
        wuQualityGatePassed := tsQualityGatePassed ts,
        wuVarPoolPath := tsVarPoolPath ts,
        wuHasImplemented := tsHasImplemented ts,
        wuTaskTraceID := tsTaskTraceID ts,
        wuCreatedAt := tsCreatedAt ts,
        wuUpdatedAt := tsUpdatedAt ts,
        wuApprovals := convert_map (\<lambda>v. \<lparr>ApprovedBy = taApprovedBy v, ApprovedAt = taApprovedAt v\<rparr>)
                         (tsApprovals ts),
        wuSource := map_option (\<lambda>s. \<lparr>Provider = tsrcProvider s, Reference = tsrcReference s,
                                       URL = tsrcURL s, Content = tsrcContent s\<rparr>) (tsSource ts),
        wuHierarchy := map_option (\<lambda>h. \<lparr>Parent = map_option summaryFromStorage (thParent h),
                                          Siblings = map summaryFromStorage (thSiblings h)\<rparr>)
                         (tsHierarchy ts)\<rparr>,
      map (\<lambda>h. \<lparr>heFrom = string_state (thFrom h), heTo = string_state (thTo h),
                 heEvent = string_event (thEvent h), heTimestamp = thTimestamp h\<rparr>) (tsHistory ts))"

section \<open>The store\<close>

record 'y Store =
  sProjectRoot :: string
  sSaveInProject :: bool
  sEntries :: "(string, 'y \<times> time) gomap"

definition CurrentTaskStateVersion :: int where
  "CurrentTaskStateVersion = 1"

definition SaveTaskState ::
  "(TaskState \<Rightarrow> 'y result) \<Rightarrow> string option \<Rightarrow> time \<Rightarrow> TaskState \<Rightarrow> 'y Store \<Rightarrow> 'y Store result" where
  "SaveTaskState enc io now ts s =
     (case io of Some err \<Rightarrow> Inl err
      | None \<Rightarrow>
          (case enc (ts\<lparr>tsFormatVersion := CurrentTaskStateVersion\<rparr>) of
             Inl err \<Rightarrow> Inl (''marshal: '' @ err)
           | Inr bytes \<Rightarrow> Inr (s\<lparr>sEntries := AList.update (tsID ts) (bytes, now) (sEntries s)\<rparr>)))"

datatype LoadError = ErrNotExist | ErrUnmarshal string | ErrNewerVersion string int

definition LoadTaskState ::
  "('y \<Rightarrow> TaskState result) \<Rightarrow> string \<Rightarrow> 'y Store \<Rightarrow> LoadError + TaskState" where
  "LoadTaskState dec taskID s =
     (case map_of (sEntries s) taskID of
        None \<Rightarrow> Inl ErrNotExist
      | Some (bytes, _) \<Rightarrow>
          (case dec bytes of
             Inl err \<Rightarrow> Inl (ErrUnmarshal err)
           | Inr ts \<Rightarrow>
               if tsFormatVersion ts > CurrentTaskStateVersion
               then Inl (ErrNewerVersion taskID (tsFormatVersion ts))
               else if tsFormatVersion ts = 0
               then Inr (ts\<lparr>tsFormatVersion := CurrentTaskStateVersion\<rparr>)
               else Inr ts))"

definition TaskStateExists :: "string \<Rightarrow> 'y Store \<Rightarrow> bool" where
  "TaskStateExists taskID s \<longleftrightarrow> map_of (sEntries s) taskID \<noteq> None"

definition DeleteTaskState :: "string option \<Rightarrow> string \<Rightarrow> 'y Store \<Rightarrow> 'y Store result" where
  "DeleteTaskState io taskID s =
     (case map_of (sEntries s) taskID of
        None \<Rightarrow> Inr s
      | Some _ \<Rightarrow> (case io of Some err \<Rightarrow> Inl err
                   | None \<Rightarrow> Inr (s\<lparr>sEntries := AList.delete taskID (sEntries s)\<rparr>)))"

text \<open>Whether an entry is considered: a global store skips the tasks of other projects.\<close>

definition ownedEntry :: "('y \<Rightarrow> TaskState result) \<Rightarrow> 'y Store \<Rightarrow> string \<Rightarrow> bool" where
  "ownedEntry dec s name =
     (if \<not> sSaveInProject s \<and> sProjectRoot s \<noteq> []
      then (case LoadTaskState dec name s of
              Inl _ \<Rightarrow> False
            | Inr ts \<Rightarrow> tsProjectRoot ts = sProjectRoot s)
      else True)"

fun newestEntry :: "(string \<Rightarrow> bool) \<Rightarrow> (string, 'y \<times> time) gomap \<Rightarrow> string \<times> time \<Rightarrow> string \<times> time" where
  "newestEntry owned [] best = best"
| "newestEntry owned ((name, bytes, modTime) # es) (newest, newestTime) =
     (if \<not> owned name then newestEntry owned es (newest, newestTime)
      else if modTime > newestTime then newestEntry owned es (name, modTime)
      else newestEntry owned es (newest, newestTime))"

definition FindActiveTask :: "('y \<Rightarrow> TaskState result) \<Rightarrow> string option \<Rightarrow> 'y Store \<Rightarrow> string result" where
  "FindActiveTask dec io s =
     (case io of Some err \<Rightarrow> Inl err
      | None \<Rightarrow> Inr (fst (newestEntry (ownedEntry dec s) (sEntries s) ([], 0))))"

section \<open>What survives a round trip\<close>

text \<open>
  The work unit that comes back from its snapshot: the fields the snapshot has no place for are
  zero, an empty map of approvals or checkpoint metadata is nil, and a nil metadata map is empty.
\<close>

definition nonempty_map :: "('k, 'v) gomap option \<Rightarrow> ('k, 'v) gomap option" where
  "nonempty_map m = (if m = Some [] then None else m)"

definition persisted :: "WorkUnit \<Rightarrow> WorkUnit" where
  "persisted wu = wu\<lparr>
     wuPRID := [], wuQualityGateError := [], wuCancelledBy := [], wuCancelledAt := 0,
     wuContextItems := [], wuPhaseMetrics := None, wuRouteHistory := [], wuForks := [],
     wuApprovals := nonempty_map (wuApprovals wu),
     wuCheckpointMeta := nonempty_map (wuCheckpointMeta wu),
     wuMetadata := Some (case wuMetadata wu of None \<Rightarrow> [] | Some m \<Rightarrow> m)\<rparr>"

text \<open>
  What the YAML codec promises for a snapshot. All map fields are tagged \<^verbatim>\<open>omitempty\<close>, so an
  empty map is not written and reads back as nil; everything else reads back as it was written.
\<close>

definition yaml_view :: "TaskState \<Rightarrow> TaskState" where
  "yaml_view ts = ts\<lparr>
     tsMetadata := nonempty_map (tsMetadata ts),
     tsApprovals := nonempty_map (tsApprovals ts),
     tsCheckpointMeta := nonempty_map (tsCheckpointMeta ts)\<rparr>"

definition yaml_codec :: "(TaskState \<Rightarrow> 'y result) \<Rightarrow> ('y \<Rightarrow> TaskState result) \<Rightarrow> bool" where
  "yaml_codec enc dec \<longleftrightarrow> (\<forall>t y. enc t = Inr y \<longrightarrow> dec y = Inr (yaml_view t))"

definition proper_history :: "HistoryEntry list \<Rightarrow> bool" where
  "proper_history hs \<longleftrightarrow>
     list_all (\<lambda>h. proper_state (heFrom h) \<and> proper_state (heTo h) \<and> proper_event (heEvent h)) hs"

lemma convert_map_inverse:
  assumes "\<And>v. g (f v) = v"
  shows "convert_map g (convert_map f m) = nonempty_map m"
  by (cases m) (auto simp: convert_map_def nonempty_map_def assms o_def split_def)

lemma summary_inverse [simp]: "summaryFromStorage (summaryToStorage s) = s"
  by (simp add: summaryFromStorage_def summaryToStorage_def)

lemma history_inverse:
  assumes "proper_history hs"
  shows "map (\<lambda>h. \<lparr>heFrom = string_state (thFrom h), heTo = string_state (thTo h),
                    heEvent = string_event (thEvent h), heTimestamp = thTimestamp h\<rparr>)
           (map (\<lambda>h. \<lparr>thFrom = state_string (heFrom h), thTo = state_string (heTo h),
                       thEvent = event_string (heEvent h), thTimestamp = heTimestamp h\<rparr>) hs) = hs"
  using assms
  by (induction hs) (auto simp: proper_history_def proper_state_def proper_event_def)

lemma map_option_source_inverse:
  "map_option (\<lambda>s. \<lparr>Provider = tsrcProvider s, Reference = tsrcReference s, URL = tsrcURL s,
                     Content = tsrcContent s\<rparr>)
     (map_option (\<lambda>s. \<lparr>tsrcProvider = Provider s, tsrcReference = Reference s, tsrcURL = URL s,
                        tsrcContent = Content s\<rparr>) so) = so"
  by (cases so) simp_all

lemma map_option_hierarchy_inverse:
  "map_option (\<lambda>h. \<lparr>Parent = map_option summaryFromStorage (thParent h),
                     Siblings = map summaryFromStorage (thSiblings h)\<rparr>)
     (map_option (\<lambda>h. \<lparr>thParent = map_option summaryToStorage (Parent h),
                        thSiblings = map summaryToStorage (Siblings h)\<rparr>) ho) = ho"
  by (cases ho) (simp_all add: option.map_comp o_def option.map_ident)

lemma snapshot_inverse:
  assumes "proper_state st" and "proper_history hs"
  shows "taskStateToWorkUnit (workUnitToTaskState st wu hs) = (st, persisted wu, hs)"
proof -
  have st: "string_state (state_string st) = st" using assms(1) by (simp add: proper_state_def)
  show ?thesis
    unfolding taskStateToWorkUnit_def workUnitToTaskState_def TaskState.simps
      history_inverse [OF assms(2)] map_option_source_inverse map_option_hierarchy_inverse st
      convertCheckpointMetaToStorage_def convertCheckpointMetaFromStorage_def
    by (simp add: convert_map_inverse persisted_def zeroWorkUnit_def option.case_eq_if)
qed

lemma snapshot_fields [simp]:
  "tsID (workUnitToTaskState st wu hs) = wuID wu"
  by (simp add: workUnitToTaskState_def)

lemma persisted_idem [simp]: "persisted (persisted wu) = persisted wu"
  by (simp add: persisted_def nonempty_map_def)

section \<open>Saving, finding and loading\<close>

lemma newestEntry_le: "snd (newestEntry owned es best) \<ge> snd best"
  by (induction owned es best rule: newestEntry.induct) auto

lemma newestEntry_stays:
  "\<forall>(name, y, t) \<in> set es. t \<le> snd best \<Longrightarrow> newestEntry owned es best = best"
  by (induction owned es best rule: newestEntry.induct) auto

lemma newestEntry_unique_max:
  assumes "wf_map es" and "map_of es name = Some (y, t)" and "owned name" and "snd best < t"
    and "\<forall>(n', y', t') \<in> set es. n' \<noteq> name \<longrightarrow> t' < t"
  shows "newestEntry owned es best = (name, t)"
  using assms
proof (induction owned es best rule: newestEntry.induct)
  case (2 owned n b m es newest newestTime)
  show ?case
  proof (cases "n = name")
    case True
    with 2(4-8) have "\<forall>(n', y', t') \<in> set es. t' \<le> t" by (force simp: image_iff)
    with True 2(5-7) show ?thesis using newestEntry_stays [of es "(name, t)"] by auto
  next
    case False
    with 2(8) have "m < t" by auto
    with False 2 show ?thesis by auto
  qed
qed simp

lemma LoadTaskState_after_save:
  assumes "SaveTaskState enc io now ts s = Inr s'" and "yaml_codec enc dec"
  shows "LoadTaskState dec (tsID ts) s' =
           Inr (yaml_view (ts\<lparr>tsFormatVersion := CurrentTaskStateVersion\<rparr>))"
proof -
  from assms(1) obtain y where y: "enc (ts\<lparr>tsFormatVersion := CurrentTaskStateVersion\<rparr>) = Inr y"
      "map_of (sEntries s') (tsID ts) = Some (y, now)"
    by (auto simp: SaveTaskState_def split: option.splits sum.splits)
  from y(1) assms(2) have "dec y = Inr (yaml_view (ts\<lparr>tsFormatVersion := CurrentTaskStateVersion\<rparr>))"
    by (simp add: yaml_codec_def)
  with y(2) show ?thesis by (simp add: LoadTaskState_def yaml_view_def CurrentTaskStateVersion_def)
qed

lemma convert_map_nonempty [simp]:
  "nonempty_map (convert_map f m) = convert_map f m" "convert_map f (nonempty_map m) = convert_map f m"
  by (cases m; simp add: nonempty_map_def convert_map_def)+

lemma stored_snapshot_inverse:
  assumes "proper_state st" and "proper_history hs"
  shows "taskStateToWorkUnit (yaml_view ((workUnitToTaskState st wu hs)\<lparr>tsProjectRoot := r, tsFormatVersion := v\<rparr>))
           = (st, persisted wu, hs)"
proof -
  have "taskStateToWorkUnit (yaml_view (t\<lparr>tsProjectRoot := r, tsFormatVersion := v\<rparr>)) = taskStateToWorkUnit t" for t
    by (simp add: taskStateToWorkUnit_def yaml_view_def convertCheckpointMetaFromStorage_def nonempty_map_def
        convert_map_def option.case_eq_if)
  then show ?thesis using snapshot_inverse [OF assms] by simp
qed

lemma save_then_find:
  assumes codec: "yaml_codec enc dec"
    and save: "SaveTaskState enc io now ts s = Inr s'"
    and wf: "wf_map (sEntries s)"
    and newest: "now > 0" "\<forall>(n, y, t) \<in> set (sEntries s). t < now"
    and owned: "tsProjectRoot ts = sProjectRoot s"
  shows "FindActiveTask dec None s' = Inr (tsID ts) \<and>
         LoadTaskState dec (tsID ts) s' =
           Inr (yaml_view (ts\<lparr>tsFormatVersion := CurrentTaskStateVersion\<rparr>))"
proof -
  note load = LoadTaskState_after_save [OF save codec]
  from save obtain y where s': "s' = s\<lparr>sEntries := AList.update (tsID ts) (y, now) (sEntries s)\<rparr>"
    by (auto simp: SaveTaskState_def split: option.splits sum.splits)
  have own: "ownedEntry dec s' (tsID ts)"
    using load owned by (simp add: ownedEntry_def s' yaml_view_def)
  have wf': "wf_map (sEntries s')" using wf by (simp add: s')
  have "t' < now" if "(n, y', t') \<in> set (sEntries s')" "n \<noteq> tsID ts" for n y' t'
  proof -
    from that(1) have "map_of (sEntries s') n = Some (y', t')" by (simp only: wf_map_ran [OF wf'])
    with that(2) have "map_of (sEntries s) n = Some (y', t')" by (simp add: s')
    then have "(n, y', t') \<in> set (sEntries s)" by (rule map_of_SomeD)
    with newest(2) show ?thesis by auto
  qed
  then have "newestEntry (ownedEntry dec s') (sEntries s') ([], 0) = (tsID ts, now)"
    using newest(1) own wf' by (intro newestEntry_unique_max [where y = y]) (auto simp: s')
  with load show ?thesis by (simp add: FindActiveTask_def)
qed

definition demo_snapshot :: TaskState where
  "demo_snapshot = (workUnitToTaskState StateLoaded demo_unit [])\<lparr>tsProjectRoot := ''/p''\<rparr>"

definition demo_store :: "TaskState Store" where
  "demo_store = \<lparr>sProjectRoot = ''/p'', sSaveInProject = False,
     sEntries = [(''task-0'', demo_snapshot\<lparr>tsID := ''task-0''\<rparr>, 5)]\<rparr>"

text \<open>
  A snapshot restores its task. Converting a work unit with its state and history to the
  on-disk form and back gives the same state and history, and the same work unit except for the
  fields the snapshot has no place for (pull request id, quality gate error, cancellation, context
  items, phase metrics, route history, forks), which come back zero.
\<close>

theorem snapshot_roundtrip:
  assumes "proper_state st" and "proper_history hs"
  shows "taskStateToWorkUnit (workUnitToTaskState st wu hs) = (st, persisted wu, hs)"
  using assms by (rule snapshot_inverse)

theorem snapshot_roundtrip_witness:
  "taskStateToWorkUnit (workUnitToTaskState StateSubmitted demo_unit (mHistory demo_submitted)) =
     (StateSubmitted, persisted demo_unit, mHistory demo_submitted) \<and>
   length (mHistory demo_submitted) = 5"
proof -
  have "proper_state StateSubmitted" "proper_history (mHistory demo_submitted)"
      "length (mHistory demo_submitted) = 5"
    by code_simp+
  then show ?thesis using snapshot_roundtrip by blast
qed

text \<open>
  The task saved last is the active one. After a successful save at a time later than every
  other file of the store, \<^verbatim>\<open>FindActiveTask\<close> returns the saved task's id and
  \<^verbatim>\<open>LoadTaskState\<close> returns the saved snapshot with the current format version, provided the
  codec reads back what it wrote and, in a global store, the task is tagged with the store's project.
\<close>

theorem saved_task_is_active:
  assumes codec: "yaml_codec enc dec"
    and save: "SaveTaskState enc io now ts s = Inr s'"
    and wf: "wf_map (sEntries s)"
    and newest: "now > 0" "\<forall>(n, y, t) \<in> set (sEntries s). t < now"
    and owned: "tsProjectRoot ts = sProjectRoot s"
  shows "FindActiveTask dec None s' = Inr (tsID ts) \<and>
         LoadTaskState dec (tsID ts) s' =
           Inr (yaml_view (ts\<lparr>tsFormatVersion := CurrentTaskStateVersion\<rparr>))"
  using assms by (rule save_then_find)

theorem saved_task_is_active_witness:
  "\<exists>s'. SaveTaskState (\<lambda>t. Inr (yaml_view t)) None 9 demo_snapshot demo_store = Inr s' \<and>
        FindActiveTask Inr None s' = Inr (tsID demo_snapshot)"
proof -
  obtain s' where s': "SaveTaskState (\<lambda>t. Inr (yaml_view t)) None 9 demo_snapshot demo_store = Inr s'"
    by (simp add: SaveTaskState_def)
  have "yaml_codec (\<lambda>t. Inr (yaml_view t)) Inr" by (simp add: yaml_codec_def)
  moreover have "wf_map (sEntries demo_store)" by (simp add: demo_store_def)
  moreover have "\<forall>(n, y, t) \<in> set (sEntries demo_store). t < 9" by (simp add: demo_store_def)
  moreover have "tsProjectRoot demo_snapshot = sProjectRoot demo_store"
    by (simp add: demo_store_def demo_snapshot_def)
  ultimately show ?thesis using s' saved_task_is_active [OF _ s'] by simp
qed

end
