(* ===== verification/Conductor_Core.thy ===== *)
theory Conductor_Core
  imports Task_Storage
begin

text \<open>
  The conductor's own state and the helpers all of its operations share
  (src/internal/conductor/conductor.go, conductor_events.go, conductor_state.go): emitting events,
  persisting the task after a mutation, restoring it at start-up, archiving it at the end.

  Every operation runs under the conductor's mutex and is one function here. The git repository is
  a program outside the sources: the calls the conductor makes are the fields of \<open>Env\<close>, and the
  repository's state is a type parameter. The calls made to the worker pool are recorded in order.
  The goroutines an operation starts are recorded too: the listener calls of the state machine,
  the event listeners, and the start of the next queued task.
\<close>

section \<open>State\<close>

record ConductorEvent =
  evType :: string
  evState :: State
  evJobID :: string
  evMessage :: string
  evTimestamp :: time

record QueuedTask =
  qtID :: string
  qtSource :: string
  qtTitle :: string
  qtPriority :: int
  qtPreferredAgent :: string
  qtAddedAt :: time
  qtPosition :: nat

record ArchivedTask =
  arID :: string
  arTitle :: string
  arDescription :: string
  arBranch :: string
  arSource :: string
  arFinalState :: string
  arStartedAt :: time
  arCompletedAt :: time
  arTags :: "string list"
  arPhasesRun :: "string list"
  arAgentUsed :: string

datatype PoolCall = InterruptJobCall string | CancelJobCall string

record ('y, 'g) Conductor =
  cMachine :: Machine
  cWorktree :: string
  cPool :: "PoolCall list option"
  cGit :: "'g option"
  cStore :: "'y Store option"
  cArchive :: "ArchivedTask list"
  cClosed :: bool
  cActiveJobID :: string
  cTaskQueue :: "QueuedTask list"
  cVarPool :: bool
  cEvents :: "ConductorEvent list"
  cDropped :: nat
  cListeners :: "nat list"
  cNotified :: "(nat \<times> ConductorEvent) list"
  cPending :: "Notification list"
  cStarting :: "string list"

text \<open>What the conductor calls outside the modelled sources.\<close>

record ('y, 'g) Env =
  yamlMarshal :: "TaskState \<Rightarrow> 'y result"
  yamlUnmarshal :: "'y \<Rightarrow> TaskState result"
  diskError :: "string option"
  homeDir :: string
  gitReset :: "string \<Rightarrow> 'g \<Rightarrow> 'g result"
  gitCommit :: "string \<Rightarrow> 'g \<Rightarrow> (string \<times> 'g) result"
  gitDeleteBranch :: "string \<Rightarrow> 'g \<Rightarrow> 'g result"
  gitRemoveWorktree :: "string \<Rightarrow> 'g \<Rightarrow> 'g result"
  gitCheckout :: "string \<Rightarrow> 'g \<Rightarrow> 'g result"
  gitPull :: "'g \<Rightarrow> 'g result"
  gitDeleteRemoteBranch :: "string \<Rightarrow> 'g \<Rightarrow> 'g result"
  baseBranch :: "string result"
  commitPrefix :: string

text \<open>The one work unit that the conductor and its machine share.\<close>

abbreviation cWorkUnit :: "('y, 'g) Conductor \<Rightarrow> WorkUnit option" where
  "cWorkUnit c \<equiv> mWorkUnit (cMachine c)"

abbreviation cState :: "('y, 'g) Conductor \<Rightarrow> State" where
  "cState c \<equiv> mState (cMachine c)"

definition updateWorkUnit ::
  "(WorkUnit \<Rightarrow> WorkUnit) \<Rightarrow> ('y, 'g) Conductor \<Rightarrow> ('y, 'g) Conductor" where
  "updateWorkUnit f c = c\<lparr>cMachine := (cMachine c)\<lparr>mWorkUnit := map_option f (cWorkUnit c)\<rparr>\<rparr>"

section \<open>Events\<close>

definition eventsCap :: nat where
  "eventsCap = 100"

definition emit :: "time \<Rightarrow> ConductorEvent \<Rightarrow> ('y, 'g) Conductor \<Rightarrow> ('y, 'g) Conductor" where
  "emit now e c =
     (if cClosed c then c
      else let e1 = e\<lparr>evTimestamp := now\<rparr>;
               c1 = (if length (cEvents c) < eventsCap then c\<lparr>cEvents := cEvents c @ [e1]\<rparr>
                     else c\<lparr>cDropped := cDropped c + 1\<rparr>)
           in c1\<lparr>cNotified := cNotified c1 @ map (\<lambda>listener. (listener, e1)) (cListeners c1)\<rparr>)"

definition emitMsg ::
  "time \<Rightarrow> string \<Rightarrow> string \<Rightarrow> ('y, 'g) Conductor \<Rightarrow> ('y, 'g) Conductor" where
  "emitMsg now typ msg c =
     emit now \<lparr>evType = typ, evState = cState c, evJobID = [], evMessage = msg, evTimestamp = 0\<rparr> c"

text \<open>
  The conductor's listener on its machine: it runs in the goroutine that the dispatch started, so
  a step of its own delivers one pending notification.
\<close>

definition onStateChanged :: "time \<Rightarrow> Notification \<Rightarrow> ('y, 'g) Conductor \<Rightarrow> ('y, 'g) Conductor" where
  "onStateChanged now n c =
     (case n of (_, frm, to, event, _) \<Rightarrow>
        emit now \<lparr>evType = ''state_changed'', evState = to, evJobID = [],
                  evMessage = ''State changed: '' @ state_string frm @ '' -> '' @ state_string to @
                              '' (event: '' @ event_string event @ '')'',
                  evTimestamp = 0\<rparr> c)"

definition closeConductor :: "('y, 'g) Conductor \<Rightarrow> ('y, 'g) Conductor" where
  "closeConductor c = c\<lparr>cClosed := True\<rparr>"

definition dispatchC ::
  "time \<Rightarrow> Event \<Rightarrow> ('y, 'g) Conductor \<Rightarrow> (('y, 'g) Conductor) result" where
  "dispatchC now event c =
     (case Dispatch now event (cMachine c) of
        Inl err \<Rightarrow> Inl err
      | Inr (m, ns) \<Rightarrow> Inr (c\<lparr>cMachine := m, cPending := cPending c @ ns\<rparr>))"

section \<open>Persistence\<close>

definition WorkDir :: "string \<Rightarrow> 'y Store \<Rightarrow> string \<Rightarrow> string" where
  "WorkDir home s taskID =
     (if sSaveInProject s then sProjectRoot s @ ''/.valksor/work/'' @ taskID
      else home @ ''/.valksor/kvelmo/work/'' @ taskID)"

definition persistVarPool :: "('y, 'g) Env \<Rightarrow> ('y, 'g) Conductor \<Rightarrow> ('y, 'g) Conductor" where
  "persistVarPool env c =
     (case (cVarPool c, cStore c) of
        (True, Some s) \<Rightarrow>
          updateWorkUnit (\<lambda>wu. wu\<lparr>wuVarPoolPath := WorkDir (homeDir env) s (wuID wu) @ ''/varpool.json''\<rparr>) c
      | _ \<Rightarrow> c)"

definition persistState :: "('y, 'g) Env \<Rightarrow> time \<Rightarrow> ('y, 'g) Conductor \<Rightarrow> ('y, 'g) Conductor" where
  "persistState env now c =
     (case (cStore c, cWorkUnit c) of
        (Some s, Some _) \<Rightarrow>
          (let c1 = persistVarPool env c
           in (case cWorkUnit c1 of None \<Rightarrow> c1
               | Some wu \<Rightarrow>
                   (let ts = (workUnitToTaskState (cState c1) wu (mHistory (cMachine c1)))
                               \<lparr>tsProjectRoot := cWorktree c1\<rparr>
                    in (case SaveTaskState (yamlMarshal env) (diskError env) now ts s of
                          Inl _ \<Rightarrow> c1
                        | Inr s' \<Rightarrow> c1\<lparr>cStore := Some s'\<rparr>))))
      | _ \<Rightarrow> c)"

definition LoadState ::
  "('y, 'g) Env \<Rightarrow> time \<Rightarrow> ('y, 'g) Conductor \<Rightarrow> string option \<times> ('y, 'g) Conductor" where
  "LoadState env now c =
     (case cStore c of
        None \<Rightarrow> (None, c)
      | Some store \<Rightarrow>
          (case FindActiveTask (yamlUnmarshal env) (diskError env) store of
             Inl err \<Rightarrow> (Some (''find active task: '' @ err), c)
           | Inr taskID \<Rightarrow>
               if taskID = [] then (None, c)
               else (case LoadTaskState (yamlUnmarshal env) taskID store of
                       Inl ErrNotExist \<Rightarrow> (None, c)
                     | Inl (ErrUnmarshal err) \<Rightarrow> (Some (''load task state: unmarshal: '' @ err), c)
                     | Inl (ErrNewerVersion tid v) \<Rightarrow>
                         (Some (''load task state: task '' @ tid @ '': state format version '' @
                                format_int v @ '' is newer than supported version '' @
                                format_int CurrentTaskStateVersion @ '': upgrade kvelmo''), c)
                     | Inr ts \<Rightarrow>
                         (case taskStateToWorkUnit ts of (state, wu, history) \<Rightarrow>
                            (None, c\<lparr>cMachine := RestoreHistory history
                                      (SetWorkUnit now (Some wu) (ForceState state (cMachine c))),
                                     cVarPool := (cVarPool c \<or> wuVarPoolPath wu \<noteq> [])\<rparr>)))))"

definition NeedsRecovery :: "('y, 'g) Conductor \<Rightarrow> bool" where
  "NeedsRecovery c = (case cWorkUnit c of None \<Rightarrow> False | Some _ \<Rightarrow> isActivePhaseState (cState c))"

definition RecoveryState :: "('y, 'g) Conductor \<Rightarrow> string" where
  "RecoveryState c =
     (case cWorkUnit c of None \<Rightarrow> []
      | Some _ \<Rightarrow> if isActivePhaseState (cState c) then state_string (cState c) else [])"

section \<open>Archive\<close>

fun archivePhases :: "(string, PhaseMetrics) gomap \<Rightarrow> string list \<Rightarrow> ArchivedTask \<Rightarrow> ArchivedTask" where
  "archivePhases pms [] a = a"
| "archivePhases pms (phase # phases) a =
     (let agent = (case map_of pms phase of None \<Rightarrow> [] | Some pm \<Rightarrow> pmAgent pm);
          a1 = a\<lparr>arPhasesRun := arPhasesRun a @ [phase]\<rparr>
      in archivePhases pms phases
           (if arAgentUsed a1 = [] \<and> agent \<noteq> [] then a1\<lparr>arAgentUsed := agent\<rparr> else a1))"

definition archiveEntry :: "time \<Rightarrow> string \<Rightarrow> WorkUnit \<Rightarrow> ArchivedTask" where
  "archiveEntry now finalState wu =
     (let a = \<lparr>arID = wuID wu, arTitle = wuTitle wu, arDescription = wuDescription wu,
               arBranch = wuBranch wu,
               arSource = (case wuSource wu of None \<Rightarrow> [] | Some s \<Rightarrow> Reference s),
               arFinalState = finalState, arStartedAt = wuCreatedAt wu, arCompletedAt = now,
               arTags = wuTags wu, arPhasesRun = [], arAgentUsed = []\<rparr>
      in (case wuPhaseMetrics wu of None \<Rightarrow> a
          | Some pms \<Rightarrow> archivePhases pms (sort (map fst pms)) a))"

definition archiveTask ::
  "time \<Rightarrow> string \<Rightarrow> WorkUnit option \<Rightarrow> ('y, 'g) Conductor \<Rightarrow> ('y, 'g) Conductor" where
  "archiveTask now finalState wo c =
     (case (cStore c, wo) of
        (Some _, Some wu) \<Rightarrow> c\<lparr>cArchive := cArchive c @ [archiveEntry now finalState wu]\<rparr>
      | _ \<Rightarrow> c)"

section \<open>What the helpers leave alone\<close>

lemma emit_fields [lifecycle_simps]:
  "cMachine (emit now e c) = cMachine c" "cGit (emit now e c) = cGit c"
  "cStore (emit now e c) = cStore c" "cTaskQueue (emit now e c) = cTaskQueue c"
  "cActiveJobID (emit now e c) = cActiveJobID c" "cPool (emit now e c) = cPool c"
  "cWorktree (emit now e c) = cWorktree c" "cArchive (emit now e c) = cArchive c"
  "cStarting (emit now e c) = cStarting c" "cVarPool (emit now e c) = cVarPool c"
  by (simp_all add: emit_def Let_def)

lemma emitMsg_fields [lifecycle_simps]:
  "cMachine (emitMsg now t msg c) = cMachine c" "cGit (emitMsg now t msg c) = cGit c"
  "cStore (emitMsg now t msg c) = cStore c" "cTaskQueue (emitMsg now t msg c) = cTaskQueue c"
  "cActiveJobID (emitMsg now t msg c) = cActiveJobID c" "cPool (emitMsg now t msg c) = cPool c"
  "cWorktree (emitMsg now t msg c) = cWorktree c" "cArchive (emitMsg now t msg c) = cArchive c"
  "cStarting (emitMsg now t msg c) = cStarting c" "cVarPool (emitMsg now t msg c) = cVarPool c"
  by (simp_all add: emitMsg_def emit_fields)

lemma updateWorkUnit_fields [lifecycle_simps]:
  "cWorkUnit (updateWorkUnit f c) = map_option f (cWorkUnit c)"
  "cState (updateWorkUnit f c) = cState c"
  "mHistory (cMachine (updateWorkUnit f c)) = mHistory (cMachine c)"
  "mPriorStableState (cMachine (updateWorkUnit f c)) = mPriorStableState (cMachine c)"
  "cGit (updateWorkUnit f c) = cGit c" "cStore (updateWorkUnit f c) = cStore c"
  "cTaskQueue (updateWorkUnit f c) = cTaskQueue c" "cWorktree (updateWorkUnit f c) = cWorktree c"
  "cActiveJobID (updateWorkUnit f c) = cActiveJobID c" "cPool (updateWorkUnit f c) = cPool c"
  by (simp_all add: updateWorkUnit_def)

text \<open>The work unit after persisting differs at most in the path of the variable pool.\<close>

definition pathedUnit :: "('y, 'g) Env \<Rightarrow> ('y, 'g) Conductor \<Rightarrow> WorkUnit \<Rightarrow> WorkUnit" where
  "pathedUnit env c wu =
     (case (cVarPool c, cStore c) of
        (True, Some s) \<Rightarrow> wu\<lparr>wuVarPoolPath := WorkDir (homeDir env) s (wuID wu) @ ''/varpool.json''\<rparr>
      | _ \<Rightarrow> wu)"

lemma persistVarPool_unit [lifecycle_simps]:
  "cWorkUnit (persistVarPool env c) = map_option (pathedUnit env c) (cWorkUnit c)"
  by (cases "cWorkUnit c"; cases "cVarPool c"; cases "cStore c")
    (simp_all add: persistVarPool_def pathedUnit_def updateWorkUnit_fields)

lemma persistVarPool_fields [lifecycle_simps]:
  "cState (persistVarPool env c) = cState c"
  "mHistory (cMachine (persistVarPool env c)) = mHistory (cMachine c)"
  "mPriorStableState (cMachine (persistVarPool env c)) = mPriorStableState (cMachine c)"
  "cGit (persistVarPool env c) = cGit c" "cStore (persistVarPool env c) = cStore c"
  "cTaskQueue (persistVarPool env c) = cTaskQueue c" "cWorktree (persistVarPool env c) = cWorktree c"
  "cActiveJobID (persistVarPool env c) = cActiveJobID c" "cPool (persistVarPool env c) = cPool c"
  by (simp_all add: persistVarPool_def updateWorkUnit_fields split: option.splits bool.splits)

lemma pathedUnit_fields [simp]:
  "wuCheckpoints (pathedUnit env c wu) = wuCheckpoints wu"
  "wuRedoStack (pathedUnit env c wu) = wuRedoStack wu" "wuID (pathedUnit env c wu) = wuID wu"
  "wuTitle (pathedUnit env c wu) = wuTitle wu" "wuCheckpointMeta (pathedUnit env c wu) = wuCheckpointMeta wu"
  by (simp_all add: pathedUnit_def split: option.splits bool.splits)

lemma persistState_fields [lifecycle_simps]:
  "cState (persistState env now c) = cState c"
  "mHistory (cMachine (persistState env now c)) = mHistory (cMachine c)"
  "mPriorStableState (cMachine (persistState env now c)) = mPriorStableState (cMachine c)"
  "cGit (persistState env now c) = cGit c" "cTaskQueue (persistState env now c) = cTaskQueue c"
  "cActiveJobID (persistState env now c) = cActiveJobID c" "cPool (persistState env now c) = cPool c"
  "cWorktree (persistState env now c) = cWorktree c"
  by (simp_all add: persistState_def persistVarPool_fields Let_def split: option.splits sum.splits)

lemma persistState_unit [lifecycle_simps]:
  "map_option wuCheckpoints (cWorkUnit (persistState env now c)) = map_option wuCheckpoints (cWorkUnit c)"
  "map_option wuRedoStack (cWorkUnit (persistState env now c)) = map_option wuRedoStack (cWorkUnit c)"
  "cWorkUnit (persistState env now c) = None \<longleftrightarrow> cWorkUnit c = None"
  by (auto simp: persistState_def persistVarPool_unit Let_def split: option.splits sum.splits)

lemma dispatchC_Inr_iff:
  "dispatchC now ev c = Inr c' \<longleftrightarrow>
     (\<exists>m ns. Dispatch now ev (cMachine c) = Inr (m, ns) \<and>
             c' = c\<lparr>cMachine := m, cPending := cPending c @ ns\<rparr>)"
  by (auto simp: dispatchC_def split: sum.splits)

text \<open>A save that succeeds: the store then holds the snapshot of the current task.\<close>

lemma persistState_saves:
  assumes "cStore c = Some s" and "cWorkUnit c = Some wu" and "diskError env = None"
    and "\<And>t. \<exists>y. yamlMarshal env t = Inr y"
  shows "\<exists>s'. SaveTaskState (yamlMarshal env) None now
           ((workUnitToTaskState (cState c) (pathedUnit env c wu) (mHistory (cMachine c)))
              \<lparr>tsProjectRoot := cWorktree c\<rparr>) s = Inr s' \<and>
         cStore (persistState env now c) = Some s'"
proof -
  let ?ts = "(workUnitToTaskState (cState c) (pathedUnit env c wu) (mHistory (cMachine c)))
              \<lparr>tsProjectRoot := cWorktree c\<rparr>"
  obtain y where "yamlMarshal env (?ts\<lparr>tsFormatVersion := CurrentTaskStateVersion\<rparr>) = Inr y"
    using assms(4) by blast
  then obtain s' where "SaveTaskState (yamlMarshal env) None now ?ts s = Inr s'"
    by (simp add: SaveTaskState_def)
  with assms(1-3) show ?thesis
    by (simp add: persistState_def Let_def persistVarPool_unit persistVarPool_fields)
qed

section \<open>Restart\<close>

text \<open>
  C22: A restart resumes the task. If the process persists its task, as the last write to the
  store, and a fresh conductor on the same store then loads its state, it succeeds and has the
  same state and history and the same work unit up to the fields that are not persisted and the
  refreshed update time; the remembered rollback target is gone.
\<close>

theorem restart_resumes_task:
  assumes "cStore c = Some s" and "cWorkUnit c = Some wu" and "wuID wu \<noteq> []"
    and "diskError env = None" and "\<And>t. \<exists>y. yamlMarshal env t = Inr y"
    and "yaml_codec (yamlMarshal env) (yamlUnmarshal env)"
    and "wf_map (sEntries s)" and "now > 0" and "\<forall>(n, y, t) \<in> set (sEntries s). t < now"
    and "cWorktree c = sProjectRoot s"
    and "proper_state (cState c)" and "proper_history (mHistory (cMachine c))"
    and "cStore fresh = cStore (persistState env now c)" and "cMachine fresh = NewMachine"
  shows "\<exists>c'. LoadState env now' fresh = (None, c') \<and> cState c' = cState c \<and>
           mHistory (cMachine c') = mHistory (cMachine c) \<and>
           cWorkUnit c' = touch now' (Some (persisted (pathedUnit env c wu))) \<and>
           mPriorStableState (cMachine c') = noState"
proof -
  let ?ts = "(workUnitToTaskState (cState c) (pathedUnit env c wu) (mHistory (cMachine c)))
              \<lparr>tsProjectRoot := cWorktree c\<rparr>"
  from persistState_saves [OF assms(1,2,4,5)] obtain s' where
    save: "SaveTaskState (yamlMarshal env) None now ?ts s = Inr s'" and
    st: "cStore (persistState env now c) = Some s'" by blast
  have root: "tsProjectRoot ?ts = sProjectRoot s" using assms(10) by simp
  from save_then_find [OF assms(6) save assms(7,8,9) root]
  have "FindActiveTask (yamlUnmarshal env) None s' = Inr (wuID wu)"
    and "LoadTaskState (yamlUnmarshal env) (wuID wu) s' =
           Inr (yaml_view (?ts\<lparr>tsFormatVersion := CurrentTaskStateVersion\<rparr>))"
    by simp_all
  with st assms(3,4,13,14) stored_snapshot_inverse [OF assms(11,12)] show ?thesis
    by (simp add: LoadState_def NewMachine_def RestoreHistory_def SetWorkUnit_def ForceState_def)
qed

definition demo_env :: "(TaskState, string list) Env" where
  "demo_env = \<lparr>yamlMarshal = (\<lambda>t. Inr (yaml_view t)), yamlUnmarshal = Inr, diskError = None,
     homeDir = ''/home/u'',
     gitReset = (\<lambda>sha g. if sha \<in> set g then Inr (takeWhile (\<lambda>x. x \<noteq> sha) g @ [sha]) else Inl ''unknown revision''),
     gitCommit = (\<lambda>msg g. Inr (''c'' @ decimal (length g), g @ [''c'' @ decimal (length g)])),
     gitDeleteBranch = (\<lambda>_ g. Inr g), gitRemoveWorktree = (\<lambda>_ g. Inr g),
     gitCheckout = (\<lambda>_ g. Inr g), gitPull = Inr, gitDeleteRemoteBranch = (\<lambda>_ g. Inr g),
     baseBranch = Inr ''main'', commitPrefix = ''[kvelmo]''\<rparr>"

definition demo_conductor :: "Machine \<Rightarrow> (TaskState, string list) Conductor" where
  "demo_conductor m = \<lparr>cMachine = m, cWorktree = ''/p'', cPool = Some [], cGit = Some [''a1'', ''b2''],
     cStore = Some \<lparr>sProjectRoot = ''/p'', sSaveInProject = False, sEntries = []\<rparr>, cArchive = [],
     cClosed = False, cActiveJobID = [], cTaskQueue = [], cVarPool = False, cEvents = [],
     cDropped = 0, cListeners = [], cNotified = [], cPending = [], cStarting = []\<rparr>"

lemma demo_conductor_machine: "cMachine (demo_conductor m) = m"
  by (simp add: demo_conductor_def)

lemma demo_submitted_unit:
  "\<exists>wu. mWorkUnit demo_submitted = Some wu \<and> wuID wu = ''task-1'' \<and> wuBranch wu = [] \<and>
        wuWorktreePath wu = []"
proof -
  have "map_option (\<lambda>wu. (wuID wu, wuBranch wu, wuWorktreePath wu)) (mWorkUnit demo_submitted) =
      Some (''task-1'', [], [])" by code_simp
  then show ?thesis by auto
qed

theorem restart_resumes_task_witness:
  "\<exists>c'. LoadState demo_env 20
      ((demo_conductor NewMachine)\<lparr>cStore := cStore (persistState demo_env 10 (demo_conductor demo_submitted))\<rparr>)
      = (None, c') \<and> cState c' = StateSubmitted \<and> mHistory (cMachine c') = mHistory demo_submitted"
proof -
  obtain wu where wu: "mWorkUnit demo_submitted = Some wu" "wuID wu = ''task-1''"
    using demo_submitted_unit by blast
  let ?c = "demo_conductor demo_submitted"
  let ?fresh = "(demo_conductor NewMachine)\<lparr>cStore := cStore (persistState demo_env 10 ?c)\<rparr>"
  have "proper_state (mState demo_submitted)" "proper_history (mHistory demo_submitted)"
    by code_simp+
  then have "\<exists>c'. LoadState demo_env 20 ?fresh = (None, c') \<and> cState c' = cState ?c \<and>
           mHistory (cMachine c') = mHistory (cMachine ?c) \<and>
           cWorkUnit c' = touch 20 (Some (persisted (pathedUnit demo_env ?c wu))) \<and>
           mPriorStableState (cMachine c') = noState"
    by (intro restart_resumes_task [where s = "\<lparr>sProjectRoot = ''/p'', sSaveInProject = False, sEntries = []\<rparr>" and now = 10])
      (simp_all add: demo_conductor_def demo_env_def wu yaml_codec_def)
  then show ?thesis unfolding demo_conductor_machine demo_submitted_state by blast
qed

end
