(* ===== verification/Risk_Approval.thy ===== *)
theory Risk_Approval
  imports Complex_Main Conductor_Core Go_Text
begin

text \<open>
  Risk scores (src/internal/riskeval) and the approval of transitions (src/internal/conductor/conductor_approve.go).
  A \<^verbatim>\<open>float64\<close> is a rational number, so the order in which the factors are added does not matter. The match of
  a glob pattern and the statistics of git's diff are parameters. The conductor's read-write mutex is explicit
  where a call takes it.
\<close>

section \<open>Risk scores\<close>

record RiskInput =
  riAdded :: int
  riRemoved :: int
  riFiles :: "string list"
  riSensitivePaths :: "string list"
  riSecurityFindings :: int
  riTestFiles :: int
  riTotalFiles :: int

record RiskScore =
  rsScore :: rat
  rsFactors :: "(string, rat) gomap"
  rsLevel :: string

definition DefaultLowThreshold :: rat where "DefaultLowThreshold = 3 / 10"
definition DefaultHighThreshold :: rat where "DefaultHighThreshold = 7 / 10"

definition DefaultWeights :: "(string, rat) gomap" where
  "DefaultWeights = [(''diff_size'', 30 / 100), (''sensitive_paths'', 25 / 100), (''security_findings'', 25 / 100),
     (''file_count'', 10 / 100), (''test_ratio'', 10 / 100)]"

definition scoreDiffSize :: "int \<Rightarrow> rat" where
  "scoreDiffSize totalLines =
     (if totalLines \<le> 20 then 0 else if 500 \<le> totalLines then 1 else of_int (totalLines - 20) / of_int (500 - 20))"

text \<open>\<^verbatim>\<open>filepath.Base\<close>: trailing slashes are removed first; the base of the empty path is a dot.\<close>

definition baseName :: "string \<Rightarrow> string" where
  "baseName path =
     (if path = [] then ''.''
      else let p = rev (dropWhile (\<lambda>c. c = CHR ''/'') (rev path))
           in if p = [] then ''/'' else last (splitChar CHR ''/'' p))"

definition scoreSensitivePaths :: "(string \<Rightarrow> string \<Rightarrow> bool) \<Rightarrow> string list \<Rightarrow> string list \<Rightarrow> rat" where
  "scoreSensitivePaths glob files patterns =
     (if files = [] \<or> patterns = [] then 0
      else of_nat (length (filter (\<lambda>f. list_ex (\<lambda>pattern. glob pattern f \<or> glob pattern (baseName f)) patterns) files)) /
           of_nat (length files))"

definition scoreSecurityFindings :: "int \<Rightarrow> rat" where
  "scoreSecurityFindings n = (if 0 < n then 1 else 0)"

definition scoreFileCount :: "int \<Rightarrow> rat" where
  "scoreFileCount n = (if n \<le> 1 then 0 else if 20 \<le> n then 1 else of_int (n - 1) / of_int (20 - 1))"

definition scoreTestRatio :: "int \<Rightarrow> int \<Rightarrow> rat" where
  "scoreTestRatio testFiles totalFiles =
     (if totalFiles = 0 then 0
      else let ratio = of_int testFiles / of_int totalFiles in if 1 / 2 \<le> ratio then 0 else 1 - ratio / (1 / 2))"

definition classifyLevel :: "rat \<Rightarrow> string" where
  "classifyLevel score = (if score < DefaultLowThreshold then ''low'' else if score < DefaultHighThreshold then ''medium'' else ''high'')"

definition riskFactors :: "(string \<Rightarrow> string \<Rightarrow> bool) \<Rightarrow> RiskInput \<Rightarrow> (string, rat) gomap" where
  "riskFactors glob inp =
     [(''diff_size'', scoreDiffSize (riAdded inp + riRemoved inp)),
      (''sensitive_paths'', scoreSensitivePaths glob (riFiles inp) (riSensitivePaths inp)),
      (''security_findings'', scoreSecurityFindings (riSecurityFindings inp)),
      (''file_count'', scoreFileCount (riTotalFiles inp)),
      (''test_ratio'', scoreTestRatio (riTestFiles inp) (riTotalFiles inp))]"

definition EvaluateWithWeights :: "(string \<Rightarrow> string \<Rightarrow> bool) \<Rightarrow> RiskInput \<Rightarrow> (string \<rightharpoonup> rat) \<Rightarrow> RiskScore" where
  "EvaluateWithWeights glob inp weights =
     (let factors = riskFactors glob inp;
          raw = foldl (\<lambda>score (factor, v). case weights factor of None \<Rightarrow> score | Some w \<Rightarrow> score + v * w) 0 factors;
          score = max 0 (min 1 raw)
      in \<lparr>rsScore = score, rsFactors = factors, rsLevel = classifyLevel score\<rparr>)"

definition EvaluateRiskInput :: "(string \<Rightarrow> string \<Rightarrow> bool) \<Rightarrow> RiskInput \<Rightarrow> RiskScore" where
  "EvaluateRiskInput glob inp = EvaluateWithWeights glob inp (map_of DefaultWeights)"

definition isTestFile :: "string \<Rightarrow> bool" where
  "isTestFile path \<longleftrightarrow> list_ex (\<lambda>s. length s < length path \<and> suffix s path)
     [''_test.go'', ''.test.ts'', ''.test.tsx'', ''.test.js'', ''.test.jsx'', ''.spec.ts'', ''.spec.tsx'', ''.spec.js'', ''.spec.jsx'']"

section \<open>Approval\<close>

text \<open>The mutex as the calling goroutine sees it. A read lock under its own write lock is never granted; a reader that waits
  for the writers of others is granted its lock in the end.\<close>

datatype Mu = Readers nat | WriteLocked

fun RLock :: "Mu \<Rightarrow> Mu option" where
  "RLock (Readers n) = Some (Readers (Suc n))"
| "RLock WriteLocked = None"

record DiffStat =
  dfAdded :: int
  dfRemoved :: int
  dfFiles :: "string list"

record RiskBased =
  rbEnabled :: bool
  rbAuto :: rat
  rbHigh :: rat

record ApprovalPolicy =
  apRequired :: "string \<Rightarrow> bool"
  apRiskBased :: "RiskBased option"
  apSensitive :: "string list"

text \<open>The statistics of the diff: none without a repository or if git fails. \<open>None\<close>: the call does not return.\<close>

definition riskInput :: "string list \<Rightarrow> DiffStat option \<Rightarrow> RiskInput" where
  "riskInput sensitive stat =
     (case stat of
        None \<Rightarrow> \<lparr>riAdded = 0, riRemoved = 0, riFiles = [], riSensitivePaths = sensitive, riSecurityFindings = 0, riTestFiles = 0, riTotalFiles = 0\<rparr>
      | Some d \<Rightarrow> \<lparr>riAdded = dfAdded d, riRemoved = dfRemoved d, riFiles = dfFiles d, riSensitivePaths = sensitive, riSecurityFindings = 0,
                   riTestFiles = int (length (filter isTestFile (dfFiles d))), riTotalFiles = int (length (dfFiles d))\<rparr>)"

definition evaluateRiskUnlocked :: "(string \<Rightarrow> string \<Rightarrow> bool) \<Rightarrow> Mu \<Rightarrow> string list \<Rightarrow> DiffStat option \<Rightarrow> RiskScore option" where
  "evaluateRiskUnlocked glob mu sensitive stat =
     (case RLock mu of None \<Rightarrow> None | Some _ \<Rightarrow> Some (EvaluateRiskInput glob (riskInput sensitive stat)))"

definition EvaluateRisk :: "(string \<Rightarrow> string \<Rightarrow> bool) \<Rightarrow> Mu \<Rightarrow> string list \<Rightarrow> DiffStat option \<Rightarrow> ('y, 'g) Conductor \<Rightarrow> RiskScore option" where
  "EvaluateRisk glob mu sensitive stat c =
     (case RLock mu of
        None \<Rightarrow> None
      | Some _ \<Rightarrow> if cWorkUnit c = None then Some \<lparr>rsScore = 0, rsFactors = [], rsLevel = ''low''\<rparr>
                  else evaluateRiskUnlocked glob mu sensitive stat)"

definition approved :: "string \<Rightarrow> ('y, 'g) Conductor \<Rightarrow> bool" where
  "approved event c \<longleftrightarrow>
     (case cWorkUnit c of
        None \<Rightarrow> False
      | Some wu \<Rightarrow> (case wuApprovals wu of
                       None \<Rightarrow> False
                     | Some m \<Rightarrow> (case map_of m event of None \<Rightarrow> False | Some r \<Rightarrow> ApprovedAt r \<noteq> 0)))"

text \<open>The check of a recorded approval: the error, if it is missing.\<close>

definition requireApproval :: "time \<Rightarrow> string \<Rightarrow> string \<Rightarrow> string \<Rightarrow> ('y, 'g) Conductor \<Rightarrow> string option \<times> ('y, 'g) Conductor" where
  "requireApproval now event msg err c =
     (if approved event c then (None, c) else (Some err, emitMsg now ''approval_required'' msg c))"

definition normalApproval :: "ApprovalPolicy \<Rightarrow> time \<Rightarrow> string \<Rightarrow> ('y, 'g) Conductor \<Rightarrow> string option \<times> ('y, 'g) Conductor" where
  "normalApproval p now event c =
     (if \<not> apRequired p event then (None, c)
      else requireApproval now event (''Approval required for: '' @ event)
             (''cannot '' @ event @ '': explicit approval required. Run: kvelmo approve '' @ event) c)"

text \<open>\<open>fmt\<close> renders a number with two decimals.\<close>

definition checkApproval :: "(string \<Rightarrow> string \<Rightarrow> bool) \<Rightarrow> (rat \<Rightarrow> string) \<Rightarrow> ApprovalPolicy \<Rightarrow> DiffStat option \<Rightarrow> Mu \<Rightarrow> time \<Rightarrow> string \<Rightarrow> ('y, 'g) Conductor \<Rightarrow> (string option \<times> ('y, 'g) Conductor) option" where
  "checkApproval glob fmt p stat mu now event c =
     (case apRiskBased p of
        Some rba \<Rightarrow>
          if rbEnabled rba \<and> apRequired p event
          then (case evaluateRiskUnlocked glob mu (apSensitive p) stat of
                  None \<Rightarrow> None
                | Some score \<Rightarrow>
                    (let c1 = emitMsg now ''risk_evaluated'' (''Risk evaluated: '' @ fmt (rsScore score) @ '' ('' @ rsLevel score @ '')'') c;
                         auto = (if rbAuto rba = 0 then DefaultLowThreshold else rbAuto rba);
                         high = (if rbHigh rba = 0 then DefaultHighThreshold else rbHigh rba)
                     in if rsScore score < auto then Some (None, c1)
                        else if high \<le> rsScore score
                        then Some (requireApproval now event (''High-risk change (score='' @ fmt (rsScore score) @ ''): approval required for '' @ event)
                               (''cannot '' @ event @ '': high-risk change (score='' @ fmt (rsScore score) @
                                '') requires explicit approval. Run: kvelmo approve '' @ event) c1)
                        else Some (normalApproval p now event c1)))
          else Some (normalApproval p now event c)
      | None \<Rightarrow> Some (normalApproval p now event c))"

text \<open>
  The beginning of \<^verbatim>\<open>Plan\<close>, \<^verbatim>\<open>Implement\<close> and \<^verbatim>\<open>Submit\<close>: they take the write lock, and check the approval while
  they hold it.
\<close>

definition phaseApproval :: "(string \<Rightarrow> string \<Rightarrow> bool) \<Rightarrow> (rat \<Rightarrow> string) \<Rightarrow> ApprovalPolicy \<Rightarrow> DiffStat option \<Rightarrow> time \<Rightarrow> Event \<Rightarrow> ('y, 'g) Conductor \<Rightarrow> (string option \<times> ('y, 'g) Conductor) option" where
  "phaseApproval glob fmt p stat now event c = checkApproval glob fmt p stat WriteLocked now (event_string event) c"

definition approverIdentity :: "string \<Rightarrow> string option \<Rightarrow> string option \<Rightarrow> string" where
  "approverIdentity configured user host =
     (if configured \<noteq> [] then configured
      else case user of
        Some u \<Rightarrow> if u \<noteq> [] then u else (case host of Some h \<Rightarrow> h | None \<Rightarrow> ''unknown'')
      | None \<Rightarrow> (case host of Some h \<Rightarrow> h | None \<Rightarrow> ''unknown''))"

definition Approve :: "('y, 'g) Env \<Rightarrow> string \<Rightarrow> time \<Rightarrow> string \<Rightarrow> ('y, 'g) Conductor \<Rightarrow> string option \<times> ('y, 'g) Conductor" where
  "Approve env identity now event c =
     (if cWorkUnit c = None then (Some ''no task loaded'', c)
      else let c1 = updateWorkUnit (\<lambda>wu. wu\<lparr>wuApprovals := Some (AList.update event \<lparr>ApprovedBy = identity, ApprovedAt = now\<rparr>
                       (case wuApprovals wu of None \<Rightarrow> [] | Some m \<Rightarrow> m)), wuUpdatedAt := now\<rparr>) c
           in (None, emitMsg now ''transition_approved'' (''Approved: '' @ event) (persistState env now c1)))"

definition CheckReviewItem :: "('y, 'g) Env \<Rightarrow> time \<Rightarrow> string \<Rightarrow> ('y, 'g) Conductor \<Rightarrow> string option \<times> ('y, 'g) Conductor" where
  "CheckReviewItem env now item c =
     (if cWorkUnit c = None then (Some ''no task loaded'', c)
      else (None, persistState env now (updateWorkUnit (\<lambda>wu. wu\<lparr>wuUpdatedAt := now,
              wuChecklistChecked := (if item \<in> set (wuChecklistChecked wu) then wuChecklistChecked wu else wuChecklistChecked wu @ [item])\<rparr>) c)))"

definition UncheckReviewItem :: "('y, 'g) Env \<Rightarrow> time \<Rightarrow> string \<Rightarrow> ('y, 'g) Conductor \<Rightarrow> string option \<times> ('y, 'g) Conductor" where
  "UncheckReviewItem env now item c =
     (if cWorkUnit c = None then (Some ''no task loaded'', c)
      else (None, persistState env now (updateWorkUnit (\<lambda>wu. wu\<lparr>wuUpdatedAt := now,
              wuChecklistChecked := removeAll item (wuChecklistChecked wu)\<rparr>) c)))"

text \<open>The error names the first item that is not checked.\<close>

definition checkReviewChecklist :: "string list \<Rightarrow> WorkUnit \<Rightarrow> string option" where
  "checkReviewChecklist checklist wu =
     map_option (\<lambda>item. ''cannot submit: review checklist item '' @ quote item @ '' not checked. Run: kvelmo review --check '' @ quote item)
       (find (\<lambda>item. item \<notin> set (wuChecklistChecked wu)) checklist)"

definition ReviewChecklistStatus :: "string list \<Rightarrow> ('y, 'g) Conductor \<Rightarrow> string list \<times> string list" where
  "ReviewChecklistStatus required c = (required, (case cWorkUnit c of None \<Rightarrow> [] | Some wu \<Rightarrow> wuChecklistChecked wu))"

section \<open>Lemmas\<close>

definition riskApplies :: "ApprovalPolicy \<Rightarrow> string \<Rightarrow> bool" where
  "riskApplies p event \<longleftrightarrow> apRequired p event \<and> (case apRiskBased p of None \<Rightarrow> False | Some rba \<Rightarrow> rbEnabled rba)"

definition autoThreshold :: "ApprovalPolicy \<Rightarrow> rat" where
  "autoThreshold p = (case apRiskBased p of
      None \<Rightarrow> DefaultLowThreshold | Some rba \<Rightarrow> if rbAuto rba = 0 then DefaultLowThreshold else rbAuto rba)"

definition scoreOf :: "(string \<Rightarrow> string \<Rightarrow> bool) \<Rightarrow> ApprovalPolicy \<Rightarrow> DiffStat option \<Rightarrow> rat" where
  "scoreOf glob p stat = rsScore (EvaluateRiskInput glob (riskInput (apSensitive p) stat))"

lemma approved_emitMsg [simp]: "approved event (emitMsg now t msg c) = approved event c"
  by (simp add: approved_def lifecycle_simps)

lemma requireApproval_outcome:
  "fst (requireApproval now event msg err c) = None \<longleftrightarrow> approved event c"
  "cMachine (snd (requireApproval now event msg err c)) = cMachine c"
  "cGit (snd (requireApproval now event msg err c)) = cGit c"
  by (simp_all add: requireApproval_def lifecycle_simps)

lemma normalApproval_outcome:
  "fst (normalApproval p now event c) = None \<longleftrightarrow> \<not> apRequired p event \<or> approved event c"
  "cMachine (snd (normalApproval p now event c)) = cMachine c"
  "cGit (snd (normalApproval p now event c)) = cGit c"
  by (simp_all add: normalApproval_def requireApproval_outcome)

lemma evaluateRiskUnlocked_Some:
  "evaluateRiskUnlocked glob mu sensitive stat =
     (if mu = WriteLocked then None else Some (EvaluateRiskInput glob (riskInput sensitive stat)))"
  by (cases mu) (simp_all add: evaluateRiskUnlocked_def)

lemma checkApproval_None:
  "checkApproval glob fmt p stat mu now event c = None \<longleftrightarrow> mu = WriteLocked \<and> riskApplies p event"
  by (auto simp: checkApproval_def riskApplies_def evaluateRiskUnlocked_Some Let_def split: option.splits)

lemma checkApproval_plain:
  "\<not> riskApplies p event \<Longrightarrow> checkApproval glob fmt p stat mu now event c = Some (normalApproval p now event c)"
  by (auto simp: checkApproval_def riskApplies_def split: option.splits)

lemma checkApproval_risk:
  assumes "riskApplies p event" "mu \<noteq> WriteLocked"
  obtains msg out err where
    "checkApproval glob fmt p stat mu now event c =
       Some (if scoreOf glob p stat < autoThreshold p then (None, emitMsg now ''risk_evaluated'' msg c)
             else requireApproval now event out err (emitMsg now ''risk_evaluated'' msg c))"
proof -
  from assms(1) obtain rba where rba: "apRiskBased p = Some rba" "rbEnabled rba" "apRequired p event"
    by (auto simp: riskApplies_def split: option.splits)
  define high where "high = (if rbHigh rba = 0 then DefaultHighThreshold else rbHigh rba)"
  show thesis
  proof (cases "high \<le> scoreOf glob p stat")
    case True
    then show thesis
      by (intro that) (auto simp: checkApproval_def rba assms(2) evaluateRiskUnlocked_Some Let_def autoThreshold_def
          scoreOf_def high_def)
  next
    case False
    then show thesis
      by (intro that) (auto simp: checkApproval_def rba assms(2) evaluateRiskUnlocked_Some Let_def autoThreshold_def
          scoreOf_def high_def normalApproval_def)
  qed
qed

lemma checkApproval_Some:
  assumes "checkApproval glob fmt p stat mu now event c = Some (r, c')"
  shows "cMachine c' = cMachine c" "cGit c' = cGit c"
    "r = None \<longleftrightarrow> \<not> apRequired p event \<or> approved event c \<or> (riskApplies p event \<and> scoreOf glob p stat < autoThreshold p)"
proof -
  have "cMachine c' = cMachine c \<and> cGit c' = cGit c \<and>
    (r = None \<longleftrightarrow> \<not> apRequired p event \<or> approved event c \<or> (riskApplies p event \<and> scoreOf glob p stat < autoThreshold p))"
  proof (cases "riskApplies p event")
    case False
    then show ?thesis
      using assms normalApproval_outcome [of p now event c] by (simp add: checkApproval_plain)
  next
    case True
    then have "apRequired p event" by (simp add: riskApplies_def)
    from True assms have "mu \<noteq> WriteLocked" using checkApproval_None [of glob fmt p stat mu now event c] by auto
    from True this obtain msg out err where
      "checkApproval glob fmt p stat mu now event c =
         Some (if scoreOf glob p stat < autoThreshold p then (None, emitMsg now ''risk_evaluated'' msg c)
               else requireApproval now event out err (emitMsg now ''risk_evaluated'' msg c))"
      by (rule checkApproval_risk)
    with assms True \<open>apRequired p event\<close> show ?thesis
      using requireApproval_outcome [of now event out err "emitMsg now ''risk_evaluated'' msg c"]
      by (auto simp: emitMsg_fields split: if_splits)
  qed
  then show "cMachine c' = cMachine c" "cGit c' = cGit c"
    "r = None \<longleftrightarrow> \<not> apRequired p event \<or> approved event c \<or> (riskApplies p event \<and> scoreOf glob p stat < autoThreshold p)"
    by blast+
qed

text \<open>The factors are between 0 and 1, so the default weights never reach the limits of the score.\<close>

lemma factor_bounds:
  "0 \<le> scoreDiffSize n" "scoreDiffSize n \<le> 1" "0 \<le> scoreFileCount k" "scoreFileCount k \<le> 1"
  "0 \<le> scoreSecurityFindings j" "scoreSecurityFindings j \<le> 1"
  "0 \<le> scoreSensitivePaths glob files patterns" "scoreSensitivePaths glob files patterns \<le> 1"
  by (auto simp: scoreDiffSize_def scoreFileCount_def scoreSecurityFindings_def scoreSensitivePaths_def field_simps
      simp flip: of_nat_le_iff)

lemma test_ratio_bounds:
  assumes "0 \<le> t" "0 \<le> n"
  shows "0 \<le> scoreTestRatio t n" "scoreTestRatio t n \<le> 1"
proof -
  define r where "r = (of_int t / of_int n :: rat)"
  have "0 \<le> r" using assms by (simp add: r_def)
  then show "0 \<le> scoreTestRatio t n" "scoreTestRatio t n \<le> 1"
    unfolding scoreTestRatio_def Let_def r_def [symmetric] by simp_all
qed

lemma diff_size_mono: "m \<le> n \<Longrightarrow> scoreDiffSize m \<le> scoreDiffSize n"
  by (auto simp: scoreDiffSize_def field_simps)

lemma default_weights:
  "map_of DefaultWeights ''diff_size'' = Some (30 / 100)" "map_of DefaultWeights ''sensitive_paths'' = Some (25 / 100)"
  "map_of DefaultWeights ''security_findings'' = Some (25 / 100)" "map_of DefaultWeights ''file_count'' = Some (10 / 100)"
  "map_of DefaultWeights ''test_ratio'' = Some (10 / 100)"
  by (simp_all add: DefaultWeights_def)

definition weightedSum :: "(string \<Rightarrow> string \<Rightarrow> bool) \<Rightarrow> RiskInput \<Rightarrow> rat" where
  "weightedSum glob inp =
     scoreDiffSize (riAdded inp + riRemoved inp) * (30 / 100) +
     scoreSensitivePaths glob (riFiles inp) (riSensitivePaths inp) * (25 / 100) +
     scoreSecurityFindings (riSecurityFindings inp) * (25 / 100) +
     scoreFileCount (riTotalFiles inp) * (10 / 100) + scoreTestRatio (riTestFiles inp) (riTotalFiles inp) * (10 / 100)"

lemma EvaluateRiskInput_score: "rsScore (EvaluateRiskInput glob inp) = max 0 (min 1 (weightedSum glob inp))"
  by (simp add: EvaluateRiskInput_def EvaluateWithWeights_def riskFactors_def Let_def default_weights weightedSum_def)

lemma weightedSum_bounds:
  assumes "0 \<le> riTestFiles inp" "0 \<le> riTotalFiles inp"
  shows "0 \<le> weightedSum glob inp" "weightedSum glob inp \<le> 1"
  using factor_bounds(1,2) [of "riAdded inp + riRemoved inp"] factor_bounds(3,4) [of "riTotalFiles inp"]
    factor_bounds(5,6) [of "riSecurityFindings inp"] factor_bounds(7,8) [of glob "riFiles inp" "riSensitivePaths inp"]
    test_ratio_bounds [OF assms]
  unfolding weightedSum_def by linarith+

lemma no_diff_no_risk: "scoreOf glob p None = 0"
  by (simp add: scoreOf_def EvaluateRiskInput_score weightedSum_def riskInput_def scoreDiffSize_def scoreSensitivePaths_def
      scoreSecurityFindings_def scoreFileCount_def scoreTestRatio_def)

section \<open>Properties\<close>

text \<open>
  Risk-based approval hangs. \<^verbatim>\<open>Plan\<close>, \<^verbatim>\<open>Implement\<close> and \<^verbatim>\<open>Submit\<close> hold the conductor's write lock when they check
  the approval, and the risk evaluation inside takes the read lock of the same mutex. So the check never
  returns, whatever the state of the task, exactly if the policy requires the approval of the event and enables
  risk-based approval.
\<close>

theorem risk_approval_deadlocks:
  "phaseApproval glob fmt p stat now event c = None \<longleftrightarrow>
   apRequired p (event_string event) \<and> (\<exists>rba. apRiskBased p = Some rba \<and> rbEnabled rba)"
  by (auto simp: phaseApproval_def checkApproval_None riskApplies_def split: option.splits)

lemma approvals_of_persistState:
  "map_option wuApprovals (cWorkUnit (persistState env now c)) = map_option wuApprovals (cWorkUnit c)"
  by (auto simp: persistState_def persistVarPool_unit Let_def pathedUnit_def split: option.splits sum.splits bool.splits)

lemma approved_alt:
  "approved event c \<longleftrightarrow> (\<exists>m r. map_option wuApprovals (cWorkUnit c) = Some (Some m) \<and> map_of m event = Some r \<and> ApprovedAt r \<noteq> 0)"
  by (auto simp: approved_def split: option.splits)

lemma Approve_approves:
  assumes "Approve env identity now event c = (None, c')" "now \<noteq> 0"
  shows "approved event c'"
proof -
  have "cWorkUnit c \<noteq> None" using assms(1) by (auto simp: Approve_def split: if_splits)
  then obtain wu where wu: "cWorkUnit c = Some wu" by blast
  let ?m = "AList.update event \<lparr>ApprovedBy = identity, ApprovedAt = now\<rparr> (case wuApprovals wu of None \<Rightarrow> [] | Some m \<Rightarrow> m)"
  from assms(1) wu have "c' = emitMsg now ''transition_approved'' (''Approved: '' @ event) (persistState env now
      (updateWorkUnit (\<lambda>wu. wu\<lparr>wuApprovals := Some (AList.update event \<lparr>ApprovedBy = identity, ApprovedAt = now\<rparr>
        (case wuApprovals wu of None \<Rightarrow> [] | Some m \<Rightarrow> m)), wuUpdatedAt := now\<rparr>) c))"
    by (simp add: Approve_def Let_def)
  then have "map_option wuApprovals (cWorkUnit c') = Some (Some ?m)"
    by (simp only: emitMsg_fields approvals_of_persistState updateWorkUnit_fields wu option.map) simp
  with assms(2) show ?thesis unfolding approved_alt by (simp del: map_option_eq_Some)
qed

text \<open>
  Approval is not forgotten: after \<^verbatim>\<open>Approve\<close> of an event of a loaded task, the check of that event passes for
  every policy under which it returns.
\<close>

theorem approve_then_check:
  assumes "Approve env identity now event c = (None, c')" "now \<noteq> 0"
    and "checkApproval glob fmt p stat mu later event c' = Some (r, c'')"
  shows "r = None"
  using checkApproval_Some(3) [OF assms(3)] Approve_approves [OF assms(1,2)] by blast

definition demo_policy :: ApprovalPolicy where
  "demo_policy = \<lparr>apRequired = (\<lambda>e. e = ''submit''), apRiskBased = None, apSensitive = []\<rparr>"

theorem approve_then_check_witness:
  "fst (the (checkApproval (=) (\<lambda>_. ''0.00'') demo_policy None WriteLocked 5 ''submit'' (demo_conductor demo_submitted))) \<noteq> None \<and>
   fst (the (checkApproval (=) (\<lambda>_. ''0.00'') demo_policy None WriteLocked 7 ''submit''
         (snd (Approve demo_env ''ann'' 6 ''submit'' (demo_conductor demo_submitted))))) = None"
proof -
  obtain r c' where a: "Approve demo_env ''ann'' 6 ''submit'' (demo_conductor demo_submitted) = (r, c')" by fastforce
  have "mWorkUnit demo_submitted \<noteq> None" using demo_submitted_unit by auto
  then have "r = None" using a by (auto simp: Approve_def demo_conductor_machine Let_def split: if_splits)
  with a have a: "Approve demo_env ''ann'' 6 ''submit'' (demo_conductor demo_submitted) = (None, c')" by simp
  have "\<not> riskApplies demo_policy ''submit''" by (simp add: riskApplies_def demo_policy_def)
  then have "checkApproval (=) (\<lambda>_. ''0.00'') demo_policy None WriteLocked 7 ''submit'' c' \<noteq> None"
    by (simp add: checkApproval_None)
  then obtain r1 c1 where k: "checkApproval (=) (\<lambda>_. ''0.00'') demo_policy None WriteLocked 7 ''submit'' c' = Some (r1, c1)"
    by fastforce
  have "r1 = None" by (rule approve_then_check [OF a _ k]) simp
  moreover have "fst (the (checkApproval (=) (\<lambda>_. ''0.00'') demo_policy None WriteLocked 5 ''submit'' (demo_conductor demo_submitted))) \<noteq> None"
    by code_simp
  ultimately show ?thesis using a k by simp
qed

text \<open>
  C31: The decision about an approval inside \<^verbatim>\<open>Plan\<close>, \<^verbatim>\<open>Implement\<close> and \<^verbatim>\<open>Submit\<close>, which hold the conductor's
  write lock. The check hangs exactly if the policy requires the approval of the event and enables risk-based approval. Where
  it returns, it leaves the machine and its task alone and refuses exactly if the event needs an approval and none is
  recorded; in particular, after \<^verbatim>\<open>Approve\<close> of the event it passes.
\<close>

theorem approval_decision:
  "(phaseApproval glob fmt p stat now event c = None \<longleftrightarrow>
      apRequired p (event_string event) \<and> (\<exists>rba. apRiskBased p = Some rba \<and> rbEnabled rba)) \<and>
   (\<forall>r c'. phaseApproval glob fmt p stat now event c = Some (r, c') \<longrightarrow> cMachine c' = cMachine c \<and>
      (r \<noteq> None \<longleftrightarrow> apRequired p (event_string event) \<and> \<not> approved (event_string event) c)) \<and>
   (\<forall>env identity t c1 r c'. Approve env identity t (event_string event) c = (None, c1) \<and> t \<noteq> 0 \<and>
      phaseApproval glob fmt p stat now event c1 = Some (r, c') \<longrightarrow> r = None)"
proof (intro conjI allI impI)
  show "phaseApproval glob fmt p stat now event c = None \<longleftrightarrow>
      apRequired p (event_string event) \<and> (\<exists>rba. apRiskBased p = Some rba \<and> rbEnabled rba)"
    by (auto simp: phaseApproval_def checkApproval_None riskApplies_def split: option.splits)
  fix r c'
  assume "phaseApproval glob fmt p stat now event c = Some (r, c')"
  then have k: "checkApproval glob fmt p stat WriteLocked now (event_string event) c = Some (r, c')" by (simp add: phaseApproval_def)
  moreover have "\<not> riskApplies p (event_string event)" using k checkApproval_None [of glob fmt p stat WriteLocked now "event_string event" c] by auto
  ultimately show "cMachine c' = cMachine c" "r \<noteq> None \<longleftrightarrow> apRequired p (event_string event) \<and> \<not> approved (event_string event) c"
    using checkApproval_Some [OF k] by auto
next
  fix env :: "('a, 'b) Env" and identity t c1 r c'
  assume "Approve env identity t (event_string event) c = (None, c1) \<and> t \<noteq> 0 \<and> phaseApproval glob fmt p stat now event c1 = Some (r, c')"
  then show "r = None" unfolding phaseApproval_def by (blast intro: approve_then_check)
qed

theorem approval_decision_witness:
  "fst (the (phaseApproval (=) (\<lambda>_. ''0.00'') demo_policy None 5 EventSubmit (demo_conductor demo_submitted))) \<noteq> None \<and>
   fst (the (phaseApproval (=) (\<lambda>_. ''0.00'') demo_policy None 7 EventSubmit
         (snd (Approve demo_env ''ann'' 6 ''submit'' (demo_conductor demo_submitted))))) = None"
proof -
  let ?check = "\<lambda>t c. phaseApproval (=) (\<lambda>_. ''0.00'') demo_policy None t EventSubmit c"
  obtain r c1 where a: "Approve demo_env ''ann'' 6 ''submit'' (demo_conductor demo_submitted) = (r, c1)" by fastforce
  moreover have "mWorkUnit demo_submitted \<noteq> None" using demo_submitted_unit by auto
  ultimately have a: "Approve demo_env ''ann'' 6 (event_string EventSubmit) (demo_conductor demo_submitted) = (None, c1)"
    by (auto simp: Approve_def demo_conductor_machine Let_def split: if_splits)
  note decision = approval_decision [of "(=)" "\<lambda>_. ''0.00''" demo_policy None _ EventSubmit]
  have "apRiskBased demo_policy = None" by (simp add: demo_policy_def)
  then have "?check 5 (demo_conductor demo_submitted) \<noteq> None" "?check 7 c1 \<noteq> None" by (simp_all only: decision [THEN conjunct1]) simp_all
  then obtain r1 d1 r2 d2 where k: "?check 5 (demo_conductor demo_submitted) = Some (r1, d1)" "?check 7 c1 = Some (r2, d2)" by fastforce
  from decision [THEN conjunct2, THEN conjunct2] a k(2) have "r2 = None" by (metis zero_neq_numeral)
  moreover have "\<not> approved ''submit'' (demo_conductor demo_submitted)" by code_simp
  with decision [THEN conjunct2, THEN conjunct1, rule_format, OF k(1)] have "r1 \<noteq> None" by (simp add: demo_policy_def)
  ultimately show ?thesis using a k by simp
qed

text \<open>
  The risk score of a change with the default weights is the weighted sum of its factors, without any clamping:
  it is between 0 and 1, and it grows with the number of changed lines.
\<close>

theorem risk_score_is_weighted_sum:
  assumes "0 \<le> riTestFiles inp" "0 \<le> riTotalFiles inp" "riAdded inp + riRemoved inp \<le> added + removed"
  shows "rsScore (EvaluateRiskInput glob inp) = weightedSum glob inp" "0 \<le> weightedSum glob inp" "weightedSum glob inp \<le> 1"
    "rsScore (EvaluateRiskInput glob inp) \<le> rsScore (EvaluateRiskInput glob (inp\<lparr>riAdded := added, riRemoved := removed\<rparr>))"
proof -
  show b: "0 \<le> weightedSum glob inp" "weightedSum glob inp \<le> 1" by (rule weightedSum_bounds [OF assms(1,2)])+
  then show "rsScore (EvaluateRiskInput glob inp) = weightedSum glob inp" by (simp add: EvaluateRiskInput_score)
  have "weightedSum glob inp \<le> weightedSum glob (inp\<lparr>riAdded := added, riRemoved := removed\<rparr>)"
    using diff_size_mono [OF assms(3)] by (simp add: weightedSum_def)
  then show "rsScore (EvaluateRiskInput glob inp) \<le> rsScore (EvaluateRiskInput glob (inp\<lparr>riAdded := added, riRemoved := removed\<rparr>))"
    unfolding EvaluateRiskInput_score by (simp add: max_def min_def)
qed

definition demo_risk :: RiskInput where
  "demo_risk = riskInput [''auth.go''] (Some \<lparr>dfAdded = 200, dfRemoved = 60, dfFiles = [''auth.go'', ''auth_test.go'']\<rparr>)"

theorem risk_score_is_weighted_sum_witness:
  "rsScore (EvaluateRiskInput (=) demo_risk) = 213 / 760"
proof -
  have "0 \<le> riTestFiles demo_risk" "0 \<le> riTotalFiles demo_risk" "riAdded demo_risk + riRemoved demo_risk \<le> 300 + 0"
    by (simp_all add: demo_risk_def riskInput_def)
  from risk_score_is_weighted_sum(1) [OF this, of "(=)"]
  have "rsScore (EvaluateRiskInput (=) demo_risk) = weightedSum (=) demo_risk" .
  also have "\<dots> = 213 / 760"
    by (simp add: weightedSum_def demo_risk_def riskInput_def scoreDiffSize_def scoreSensitivePaths_def scoreFileCount_def
        scoreSecurityFindings_def scoreTestRatio_def baseName_def isTestFile_def suffix_def Let_def)
  finally show ?thesis .
qed

text \<open>
  Risk-based approval fails open: without a repository, or if the statistics of the diff cannot be read, the score
  of the change is 0, and the check passes without any recorded approval for every positive or default threshold.
\<close>

theorem risk_fails_open:
  assumes "riskApplies p event" "0 < autoThreshold p"
  shows "\<exists>c'. checkApproval glob fmt p None (Readers n) now event c = Some (None, c')"
  using checkApproval_risk [OF assms(1), of "Readers n" glob fmt None now c] assms(2) no_diff_no_risk [of glob p] by fastforce

theorem risk_fails_open_witness:
  "\<exists>c'. checkApproval (=) (\<lambda>_. ''0.00'') (demo_policy\<lparr>apRiskBased := Some \<lparr>rbEnabled = True, rbAuto = 0, rbHigh = 0\<rparr>\<rparr>) None (Readers 0) 5
      ''submit'' (demo_conductor demo_submitted) = Some (None, c')"
  by (rule risk_fails_open) (simp_all add: riskApplies_def autoThreshold_def demo_policy_def DefaultLowThreshold_def)

end
