(* ===== verification/Var_Pool.thy ===== *)
theory Var_Pool
  imports Complex_Main Go_Text
begin

text \<open>
  The pool of typed variables that graph nodes share (src/internal/varpool/pool.go, serial.go). The pool's map
  is ranged over, so it is an association list. A \<^verbatim>\<open>float64\<close> is a rational number; a value that is
  neither text, number, truth value nor slice is opaque. Encoding and decoding of JSON are parameters;
  reading and writing of files is left out.
\<close>

section \<open>Variables\<close>

datatype VarType = TypeString | TypeNumber | TypeBool | TypeJSON

datatype VarValue =
    VString string | VFloat rat | VInt int | VBool bool | VSlice "VarValue list" | VOther nat

definition detectType :: "VarValue \<Rightarrow> VarType" where
  "detectType v = (case v of VString _ \<Rightarrow> TypeString | VFloat _ \<Rightarrow> TypeNumber | VInt _ \<Rightarrow> TypeNumber
     | VBool _ \<Rightarrow> TypeBool | _ \<Rightarrow> TypeJSON)"

definition toFloat64 :: "VarValue \<Rightarrow> rat" where
  "toFloat64 v = (case v of VFloat n \<Rightarrow> n | VInt n \<Rightarrow> of_int n | _ \<Rightarrow> 0)"

record Variable =
  vrName :: string
  vrType :: VarType
  vrValue :: VarValue
  vrSetBy :: string
  vrTimestamp :: time
  vrExpiresAt :: "time option"
  vrExecutionID :: string

type_synonym VarPool = "(string, Variable) gomap"

definition NewVarPool :: VarPool where
  "NewVarPool = []"

definition variable :: "string \<Rightarrow> VarValue \<Rightarrow> string \<Rightarrow> time \<Rightarrow> Variable" where
  "variable name v setBy now = \<lparr>vrName = name, vrType = detectType v, vrValue = v, vrSetBy = setBy,
     vrTimestamp = now, vrExpiresAt = None, vrExecutionID = []\<rparr>"

definition Set :: "time \<Rightarrow> string \<Rightarrow> VarValue \<Rightarrow> string \<Rightarrow> VarPool \<Rightarrow> VarPool" where
  "Set now name v setBy p = AList.update name (variable name v setBy now) p"

definition expired :: "time \<Rightarrow> Variable \<Rightarrow> bool" where
  "expired now v = (case vrExpiresAt v of None \<Rightarrow> False | Some t \<Rightarrow> now > t)"

definition Get :: "time \<Rightarrow> string \<Rightarrow> VarPool \<Rightarrow> Variable option" where
  "Get now name p = (case map_of p name of None \<Rightarrow> None | Some v \<Rightarrow> if expired now v then None else Some v)"

definition GetString :: "time \<Rightarrow> string \<Rightarrow> VarPool \<Rightarrow> string" where
  "GetString now name p = (case Get now name p of Some v \<Rightarrow> (case vrValue v of VString s \<Rightarrow> s | _ \<Rightarrow> []) | None \<Rightarrow> [])"

definition GetNumber :: "time \<Rightarrow> string \<Rightarrow> VarPool \<Rightarrow> rat" where
  "GetNumber now name p = (case Get now name p of Some v \<Rightarrow> toFloat64 (vrValue v) | None \<Rightarrow> 0)"

definition GetBool :: "time \<Rightarrow> string \<Rightarrow> VarPool \<Rightarrow> bool" where
  "GetBool now name p = (case Get now name p of Some v \<Rightarrow> (case vrValue v of VBool b \<Rightarrow> b | _ \<Rightarrow> False) | None \<Rightarrow> False)"

fun typeString :: "VarType \<Rightarrow> string" where
  "typeString TypeString = ''string''"
| "typeString TypeNumber = ''number''"
| "typeString TypeBool = ''bool''"
| "typeString TypeJSON = ''json''"

definition Append :: "time \<Rightarrow> string \<Rightarrow> VarValue \<Rightarrow> string \<Rightarrow> VarPool \<Rightarrow> VarPool result" where
  "Append now name value setBy p =
     (case map_of p name of
        None \<Rightarrow> Inr (AList.update name (variable name (VSlice [value]) setBy now) p)
      | Some v \<Rightarrow>
          (case vrValue v of
             VSlice vs \<Rightarrow> Inr (AList.update name (v\<lparr>vrValue := VSlice (vs @ [value]), vrSetBy := setBy, vrTimestamp := now\<rparr>) p)
           | _ \<Rightarrow> Inl (''varpool: cannot append to '' @ name @ '' (type '' @ typeString (vrType v) @ '')'')))"

definition Increment :: "time \<Rightarrow> string \<Rightarrow> rat \<Rightarrow> string \<Rightarrow> VarPool \<Rightarrow> VarPool result" where
  "Increment now name delta setBy p =
     (case map_of p name of
        None \<Rightarrow> Inr (AList.update name (variable name (VFloat delta) setBy now) p)
      | Some v \<Rightarrow>
          if vrType v \<noteq> TypeNumber then Inl (''varpool: cannot increment '' @ name @ '' (type '' @ typeString (vrType v) @ '')'')
          else Inr (AList.update name
                 (v\<lparr>vrValue := VFloat (toFloat64 (vrValue v) + delta), vrSetBy := setBy, vrTimestamp := now\<rparr>) p))"

definition Decrement :: "time \<Rightarrow> string \<Rightarrow> rat \<Rightarrow> string \<Rightarrow> VarPool \<Rightarrow> VarPool result" where
  "Decrement now name delta setBy p = Increment now name (- delta) setBy p"

definition SetWithTTL :: "time \<Rightarrow> string \<Rightarrow> VarValue \<Rightarrow> string \<Rightarrow> duration \<Rightarrow> VarPool \<Rightarrow> VarPool" where
  "SetWithTTL now name v setBy ttl p =
     AList.update name ((variable name v setBy now)\<lparr>vrExpiresAt := (if ttl > 0 then Some (now + ttl) else None)\<rparr>) p"

definition SetExecutionScoped :: "time \<Rightarrow> string \<Rightarrow> string \<Rightarrow> VarValue \<Rightarrow> string \<Rightarrow> VarPool \<Rightarrow> VarPool" where
  "SetExecutionScoped now executionID name v setBy p =
     AList.update name ((variable name v setBy now)\<lparr>vrExecutionID := executionID\<rparr>) p"

definition ClearExecution :: "string \<Rightarrow> VarPool \<Rightarrow> VarPool" where
  "ClearExecution executionID p = filter (\<lambda>(k, v). vrExecutionID v \<noteq> executionID) p"

definition CleanExpired :: "time \<Rightarrow> VarPool \<Rightarrow> nat \<times> VarPool" where
  "CleanExpired now p = (length (filter (\<lambda>(k, v). expired now v) p), filter (\<lambda>(k, v). \<not> expired now v) p)"

definition DeleteVar :: "string \<Rightarrow> VarPool \<Rightarrow> VarPool" where
  "DeleteVar name p = AList.delete name p"

definition ListVars :: "VarPool \<Rightarrow> Variable list" where
  "ListVars p = sort_key vrName (map snd p)"

definition LenVars :: "VarPool \<Rightarrow> nat" where
  "LenVars p = length p"

definition ClearVars :: "VarPool \<Rightarrow> VarPool" where
  "ClearVars p = []"

section \<open>Scopes\<close>

text \<open>The round trip through JSON that copies a value deeply, where it succeeds.\<close>

definition ClonePool :: "(VarValue \<Rightarrow> VarValue option) \<Rightarrow> VarPool \<Rightarrow> VarPool" where
  "ClonePool copy p =
     map (\<lambda>(k, v). (k, if vrType v = TypeJSON then (case copy (vrValue v) of Some d \<Rightarrow> v\<lparr>vrValue := d\<rparr> | None \<Rightarrow> v) else v)) p"

definition scopedKey :: "string \<Rightarrow> string \<Rightarrow> string" where
  "scopedKey scope name = scope @ ''.'' @ name"

definition SetScoped :: "time \<Rightarrow> string \<Rightarrow> string \<Rightarrow> VarValue \<Rightarrow> string \<Rightarrow> VarPool \<Rightarrow> VarPool" where
  "SetScoped now scope name v setBy p = Set now (scopedKey scope name) v setBy p"

definition GetScoped :: "time \<Rightarrow> string \<Rightarrow> string \<Rightarrow> VarPool \<Rightarrow> Variable option" where
  "GetScoped now scope name p = Get now (scopedKey scope name) p"

definition GetScopedString :: "time \<Rightarrow> string \<Rightarrow> string \<Rightarrow> VarPool \<Rightarrow> string" where
  "GetScopedString now scope name p = GetString now (scopedKey scope name) p"

definition inScope :: "string \<Rightarrow> string \<Rightarrow> bool" where
  "inScope scope k \<longleftrightarrow> length k > length (scope @ ''.'') \<and> take (length (scope @ ''.'')) k = scope @ ''.''"

definition ClearScope :: "string \<Rightarrow> VarPool \<Rightarrow> VarPool" where
  "ClearScope scope p = filter (\<lambda>(k, v). \<not> inScope scope k) p"

definition ListScope :: "string \<Rightarrow> VarPool \<Rightarrow> Variable list" where
  "ListScope scope p = sort_key vrName (map snd (filter (\<lambda>(k, v). inScope scope k) p))"

fun splitScope :: "string \<Rightarrow> string \<times> string" where
  "splitScope name =
     (if CHR ''.'' \<in> set name
      then (takeWhile (\<lambda>c. c \<noteq> CHR ''.'') name, tl (dropWhile (\<lambda>c. c \<noteq> CHR ''.'') name))
      else ([], name))"

section \<open>The summary\<close>

record summaryConfig =
  scIncludeSystem :: bool
  scMaxBytes :: int
  scMaxValueLen :: int

definition defaultSummary :: summaryConfig where
  "defaultSummary = \<lparr>scIncludeSystem = False, scMaxBytes = 4096, scMaxValueLen = 200\<rparr>"

text \<open>The runes of a valid UTF-8 text: a byte that does not continue a rune begins the next one.\<close>

definition continues :: "char \<Rightarrow> bool" where
  "continues c \<longleftrightarrow> 128 \<le> (of_char c :: nat) \<and> of_char c < (192 :: nat)"

fun takeRunes :: "nat \<Rightarrow> string \<Rightarrow> string" where
  "takeRunes n [] = []"
| "takeRunes n (c # cs) =
     (if continues c then c # takeRunes n cs else (case n of 0 \<Rightarrow> [] | Suc m \<Rightarrow> c # takeRunes m cs))"

definition countRunes :: "string \<Rightarrow> nat" where
  "countRunes s = length (filter (\<lambda>c. \<not> continues c) s)"

definition formatValue :: "(VarValue \<Rightarrow> string) \<Rightarrow> VarValue \<Rightarrow> int \<Rightarrow> string" where
  "formatValue marshal value maxLen =
     (let s = trimSpace (case value of VString t \<Rightarrow> t | _ \<Rightarrow> marshal value)
      in if maxLen > 0 \<and> int (countRunes s) > maxLen
         then takeRunes (nat maxLen) s @ [CHR 0xE2, CHR 0x80, CHR 0xA6] else s)"

definition summarized :: "summaryConfig \<Rightarrow> time \<Rightarrow> Variable \<Rightarrow> bool" where
  "summarized cfg now v \<longleftrightarrow> \<not> (case vrExpiresAt v of None \<Rightarrow> False | Some t \<Rightarrow> t < now) \<and>
     \<not> (fst (splitScope (vrName v)) = ''sys'' \<and> \<not> scIncludeSystem cfg) \<and>
     \<not> (vrName v \<noteq> [] \<and> hd (vrName v) = CHR ''_'')"

definition summaryEntry :: "(VarValue \<Rightarrow> string) \<Rightarrow> summaryConfig \<Rightarrow> Variable \<Rightarrow> string" where
  "summaryEntry marshal cfg v =
     ''- **'' @ snd (splitScope (vrName v)) @ ''**: '' @ formatValue marshal (vrValue v) (scMaxValueLen cfg) @ [CHR 0x0A]"

definition truncationMark :: string where
  "truncationMark = [CHR 0x0A] @ ''_(truncated)_'' @ [CHR 0x0A]"

definition scopeHeader :: "string \<Rightarrow> string" where
  "scopeHeader scope = [CHR 0x0A] @ ''### '' @ (if scope = [] then ''general'' else scope) @ [CHR 0x0A]"

definition summaryTitle :: string where
  "summaryTitle = [CHR 0x0A] @ ''## Shared Context'' @ [CHR 0x0A]"

text \<open>The inner and the outer loop; the flag says that the summary was cut off.\<close>

fun writeVars :: "(VarValue \<Rightarrow> string) \<Rightarrow> summaryConfig \<Rightarrow> Variable list \<Rightarrow> string \<Rightarrow> bool \<times> string" where
  "writeVars marshal cfg [] b = (False, b)"
| "writeVars marshal cfg (v # vs) b =
     (let entry = summaryEntry marshal cfg v
      in if scMaxBytes cfg > 0 \<and> int (length b + length entry) > scMaxBytes cfg then (True, b @ truncationMark)
         else writeVars marshal cfg vs (b @ entry))"

fun writeScopes :: "(VarValue \<Rightarrow> string) \<Rightarrow> summaryConfig \<Rightarrow> Variable list \<Rightarrow> string list \<Rightarrow> string \<Rightarrow> string" where
  "writeScopes marshal cfg shown [] b = b"
| "writeScopes marshal cfg shown (scope # scopes) b =
     (case writeVars marshal cfg (sort_key vrName (filter (\<lambda>v. fst (splitScope (vrName v)) = scope) shown)) (b @ scopeHeader scope) of
        (True, b') \<Rightarrow> b'
      | (False, b') \<Rightarrow> writeScopes marshal cfg shown scopes b')"

definition Summary :: "(VarValue \<Rightarrow> string) \<Rightarrow> summaryConfig \<Rightarrow> time \<Rightarrow> VarPool \<Rightarrow> string" where
  "Summary marshal cfg now p =
     (let shown = filter (summarized cfg now) (map snd p)
      in if shown = [] then []
         else writeScopes marshal cfg shown (sort (remdups (map (\<lambda>v. fst (splitScope (vrName v))) shown))) summaryTitle)"

section \<open>Types\<close>

inductive var_step :: "VarPool \<Rightarrow> VarPool \<Rightarrow> bool" where
  set: "var_step p (Set now name v setBy p)"
| setTTL: "var_step p (SetWithTTL now name v setBy ttl p)"
| setExecution: "var_step p (SetExecutionScoped now executionID name v setBy p)"
| setScoped: "var_step p (SetScoped now scope name v setBy p)"
| append: "Append now name v setBy p = Inr p' \<Longrightarrow> var_step p p'"
| increment: "Increment now name delta setBy p = Inr p' \<Longrightarrow> var_step p p'"
| decrement: "Decrement now name delta setBy p = Inr p' \<Longrightarrow> var_step p p'"
| clearExecution: "var_step p (ClearExecution executionID p)"
| cleanExpired: "var_step p (snd (CleanExpired now p))"
| delete: "var_step p (DeleteVar name p)"
| clearScope: "var_step p (ClearScope scope p)"
| clear: "var_step p (ClearVars p)"

definition var_init :: "VarPool \<Rightarrow> bool" where
  "var_init p \<longleftrightarrow> p = NewVarPool"

definition var_ok :: "string \<Rightarrow> Variable \<Rightarrow> bool" where
  "var_ok k v \<longleftrightarrow> vrName v = k \<and> vrType v = detectType (vrValue v)"

definition vars_ok :: "VarPool \<Rightarrow> bool" where
  "vars_ok p \<longleftrightarrow> wf_map p \<and> (\<forall>(k, v) \<in> set p. var_ok k v)"

lemma vars_ok_lookup: "vars_ok p \<Longrightarrow> map_of p k = Some v \<Longrightarrow> var_ok k v"
  by (auto simp: vars_ok_def dest!: map_of_SomeD)

lemma vars_ok_update: "vars_ok p \<Longrightarrow> var_ok k v \<Longrightarrow> vars_ok (AList.update k v p)"
  unfolding vars_ok_def ball_values_wf [OF wf_map_update [of p k v]]
  by (auto simp: vars_ok_lookup [unfolded vars_ok_def] ball_values_wf)

lemma vars_ok_filter: "vars_ok p \<Longrightarrow> vars_ok (filter P p)"
  by (auto simp: vars_ok_def distinct_map_filter)

lemma vars_ok_delete: "vars_ok p \<Longrightarrow> vars_ok (AList.delete k p)"
  by (auto simp: vars_ok_def AList.delete_eq distinct_map_filter)

lemma var_ok_variable: "var_ok name (variable name v setBy now)"
  "var_ok name ((variable name v setBy now)\<lparr>vrExpiresAt := t\<rparr>)" "var_ok name ((variable name v setBy now)\<lparr>vrExecutionID := e\<rparr>)"
  by (simp_all add: var_ok_def variable_def)

lemma vars_ok_append: "vars_ok p \<Longrightarrow> Append now name v setBy p = Inr p' \<Longrightarrow> vars_ok p'"
  by (auto simp: Append_def intro!: vars_ok_update var_ok_variable split: option.splits VarValue.splits dest: vars_ok_lookup)
    (auto simp: var_ok_def detectType_def dest: vars_ok_lookup)

lemma vars_ok_increment: "vars_ok p \<Longrightarrow> Increment now name delta setBy p = Inr p' \<Longrightarrow> vars_ok p'"
  by (auto simp: Increment_def intro!: vars_ok_update var_ok_variable split: option.splits if_splits dest: vars_ok_lookup)
    (auto simp: var_ok_def detectType_def dest: vars_ok_lookup)

lemma vars_ok_step: "vars_ok p \<Longrightarrow> var_step p p' \<Longrightarrow> vars_ok p'"
proof (erule var_step.cases, goal_cases)
  case 5
  then show ?case using vars_ok_append by blast
next
  case 6
  then show ?case using vars_ok_increment by blast
next
  case 7
  then show ?case using vars_ok_increment by (auto simp: Decrement_def)
qed (auto simp: Set_def SetWithTTL_def SetExecutionScoped_def SetScoped_def ClearExecution_def CleanExpired_def DeleteVar_def
    ClearScope_def ClearVars_def vars_ok_update var_ok_variable vars_ok_filter vars_ok_delete vars_ok_def [of "[]"])

interpretation vars: step_invariant var_init var_step vars_ok
  by unfold_locales (auto simp: var_init_def NewVarPool_def vars_ok_def [of "[]"] intro: vars_ok_step)

text \<open>
  Variables are typed, until a pool is loaded from a file or copied through JSON. After any sequence of the other operations a
  variable found in the pool carries the name it was asked for and the type of its value; so an increment fails exactly on the variables whose value
  is not a number, and never on a missing one.
\<close>

theorem variables_typed:
  assumes "reachable var_init var_step p"
  shows "(\<forall>v \<in> set_option (map_of p name). vrName v = name \<and> vrType v = detectType (vrValue v)) \<and>
    ((\<exists>p'. Increment now name delta setBy p = Inr p') \<longleftrightarrow>
       (case map_of p name of None \<Rightarrow> True
        | Some v \<Rightarrow> (case vrValue v of VFloat _ \<Rightarrow> True | VInt _ \<Rightarrow> True | _ \<Rightarrow> False)))"
proof -
  have "vars_ok p" by (rule vars.reachable_inv [OF assms])
  then show ?thesis
    by (auto simp: Increment_def var_ok_def detectType_def split: option.splits VarValue.splits dest: vars_ok_lookup)
qed

theorem variables_typed_witness:
  "reachable var_init var_step (Set 1 ''n'' (VInt 4) ''x'' NewVarPool) \<and>
   (\<exists>p'. Increment 2 ''n'' 3 ''y'' (Set 1 ''n'' (VInt 4) ''x'' NewVarPool) = Inr p')"
proof -
  have r: "reachable var_init var_step (Set 1 ''n'' (VInt 4) ''x'' NewVarPool)"
    by (rule reach_step [where step = var_step, OF reach_init var_step.set]) (simp add: var_init_def)
  with variables_typed [OF r, of "''n''" 2 3 "''y''"] show ?thesis
    by (simp add: Set_def NewVarPool_def variable_def)
qed

section \<open>Counters\<close>

fun incrementAll :: "string \<Rightarrow> (time \<times> rat) list \<Rightarrow> VarPool \<Rightarrow> VarPool result" where
  "incrementAll name [] p = Inr p"
| "incrementAll name ((now, d) # ds) p =
     (case Increment now name d [] p of Inl e \<Rightarrow> Inl e | Inr p' \<Rightarrow> incrementAll name ds p')"

lemma increment_value:
  assumes "map_of p name = None \<or> (\<exists>v. map_of p name = Some v \<and> vrType v = TypeNumber \<and> vrExpiresAt v = None)"
  shows "\<exists>p' v. Increment now name d setBy p = Inr p' \<and> map_of p' name = Some v \<and> vrType v = TypeNumber \<and> vrExpiresAt v = None \<and>
    toFloat64 (vrValue v) = (case map_of p name of None \<Rightarrow> 0 | Some v \<Rightarrow> toFloat64 (vrValue v)) + d \<and>
    (\<forall>k. k \<noteq> name \<longrightarrow> map_of p' k = map_of p k)"
  using assms by (auto simp: Increment_def variable_def detectType_def toFloat64_def)

text \<open>
  Counters count. Any sequence of increments of a variable that is missing, or a number that does not
  expire, succeeds; the variable then has its first value plus the sum of the increments, and no other
  variable has changed.
\<close>

theorem increments_add_up:
  assumes "map_of p name = None \<or> (\<exists>v. map_of p name = Some v \<and> vrType v = TypeNumber \<and> vrExpiresAt v = None)"
  shows "\<exists>p'. incrementAll name ds p = Inr p' \<and> GetNumber t name p' = GetNumber t name p + sum_list (map snd ds) \<and>
    (\<forall>k. k \<noteq> name \<longrightarrow> map_of p' k = map_of p k)"
  using assms
proof (induction ds arbitrary: p)
  case (Cons c ds)
  obtain now d where c: "c = (now, d)" by fastforce
  obtain p1 v where p1: "Increment now name d [] p = Inr p1" "map_of p1 name = Some v" "vrType v = TypeNumber" "vrExpiresAt v = None"
      "toFloat64 (vrValue v) = (case map_of p name of None \<Rightarrow> 0 | Some v \<Rightarrow> toFloat64 (vrValue v)) + d"
      "\<forall>k. k \<noteq> name \<longrightarrow> map_of p1 k = map_of p k"
    using increment_value [OF Cons.prems, of now d "[]"] by blast
  from Cons.IH [of p1] p1(2-4) obtain p' where p': "incrementAll name ds p1 = Inr p'"
      "GetNumber t name p' = GetNumber t name p1 + sum_list (map snd ds)" "\<forall>k. k \<noteq> name \<longrightarrow> map_of p' k = map_of p1 k" by blast
  have "GetNumber t name p1 = GetNumber t name p + d"
    using Cons.prems p1(2,4,5) by (auto simp: GetNumber_def Get_def expired_def)
  with p' p1 show ?case by (simp add: c)
qed simp

theorem increments_add_up_witness:
  "\<exists>p'. incrementAll ''n'' [(1, 2), (3, 5)] NewVarPool = Inr p' \<and> GetNumber 9 ''n'' p' = 7"
  using increments_add_up [of NewVarPool "''n''" "[(1, 2), (3, 5)]" 9]
  by (auto simp: NewVarPool_def GetNumber_def [of _ _ "[]"] Get_def)

text \<open>
  An increment of a variable that has expired succeeds but is not seen: it updates the expired entry and
  keeps its expiry.
\<close>

theorem increment_of_expired_lost:
  "case Increment 10 ''n'' 1 ''x'' (SetWithTTL 0 ''n'' (VInt 4) ''x'' 5 NewVarPool) of
     Inl _ \<Rightarrow> False | Inr p \<Rightarrow> Get 10 ''n'' p = None \<and> GetNumber 10 ''n'' p = 0"
  by code_simp

section \<open>Expiry, executions and scopes\<close>

text \<open>A variable set with a lifetime is found until it is over.\<close>

lemma get_after_ttl:
  "Get t name (SetWithTTL now name v setBy ttl p) \<noteq> None \<longleftrightarrow> ttl \<le> 0 \<or> t \<le> now + ttl"
  by (auto simp: Get_def SetWithTTL_def expired_def variable_def)

lemma get_after_clean: "wf_map p \<Longrightarrow> Get now name (snd (CleanExpired now p)) = Get now name p"
  unfolding CleanExpired_def Get_def snd_conv map_of_filter_pair [of p "\<lambda>k v. \<not> expired now v"] by (auto split: option.splits)

lemma clear_execution_exact:
  assumes "wf_map p"
  shows "map_of (ClearExecution e p) k = (case map_of p k of None \<Rightarrow> None | Some v \<Rightarrow> if vrExecutionID v \<noteq> e then Some v else None)"
  unfolding ClearExecution_def by (rule map_of_filter_pair [OF assms])

text \<open>Clearing the execution with the empty identifier removes every variable that belongs to no execution.\<close>

lemma clear_empty_execution: "ClearExecution [] (Set now name v setBy NewVarPool) = []"
  by (simp add: ClearExecution_def Set_def NewVarPool_def variable_def)

lemma inScope_iff: "inScope scope k \<longleftrightarrow> (\<exists>n. n \<noteq> [] \<and> k = scopedKey scope n)"
proof
  assume "inScope scope k"
  then have "k = scope @ ''.'' @ drop (length (scope @ ''.'')) k" "drop (length (scope @ ''.'')) k \<noteq> []"
    by (metis inScope_def append_assoc append_take_drop_id) (use \<open>inScope scope k\<close> in \<open>simp add: inScope_def\<close>)
  then show "\<exists>n. n \<noteq> [] \<and> k = scopedKey scope n" unfolding scopedKey_def by blast
qed (auto simp: inScope_def scopedKey_def)

text \<open>
  Scopes are separate. The scope and the name of a scoped variable can be read off its key; clearing a
  scope removes exactly its variables, and lists it as empty.
\<close>

theorem scopes_separate:
  assumes "CHR ''.'' \<notin> set scope" and "wf_map p" and "name \<noteq> []"
  shows "splitScope (scopedKey scope name) = (scope, name) \<and>
    GetScoped now scope name (ClearScope scope p) = None \<and> ListScope scope (ClearScope scope p) = [] \<and>
    (CHR ''.'' \<notin> set other \<and> other \<noteq> scope \<longrightarrow> GetScoped now other name (ClearScope scope p) = GetScoped now other name p)"
proof -
  have w: "takeWhile (\<lambda>c. c \<noteq> CHR ''.'') (s @ ''.'' @ n) = s" "dropWhile (\<lambda>c. c \<noteq> CHR ''.'') (s @ ''.'' @ n) = ''.'' @ n"
    if "CHR ''.'' \<notin> set s" for s n
    using that by (induction s) auto
  then have sp: "splitScope (scopedKey s n) = (s, n)" if "CHR ''.'' \<notin> set s" for s n
    using that by (simp add: scopedKey_def)
  have m: "map_of (ClearScope scope p) k = (if inScope scope k then None else map_of p k)" for k
    unfolding ClearScope_def map_of_filter_pair [OF assms(2), of "\<lambda>k v. \<not> inScope scope k"] by (auto split: option.splits)
  have "inScope scope (scopedKey scope name)" using assms(3) by (auto simp: inScope_iff)
  moreover have "\<not> inScope scope (scopedKey other name)" if "CHR ''.'' \<notin> set other" "other \<noteq> scope"
  proof
    assume "inScope scope (scopedKey other name)"
    then obtain n where "scopedKey other name = scopedKey scope n" by (auto simp: inScope_iff)
    then show False using sp [OF that(1), of name] sp [OF assms(1), of n] that(2) by simp
  qed
  moreover have "ListScope scope (ClearScope scope p) = []"
    by (simp add: ListScope_def ClearScope_def filter_empty_conv case_prod_unfold)
  ultimately show ?thesis using sp [OF assms(1), of name] by (auto simp: GetScoped_def Get_def m)
qed

theorem scopes_separate_witness:
  "splitScope (scopedKey ''plan'' ''spec.x'') = (''plan'', ''spec.x'') \<and>
   GetScoped 5 ''sys'' ''spec.x'' (ClearScope ''plan'' (SetScoped 1 ''sys'' ''spec.x'' (VBool True) [] NewVarPool)) =
   GetScoped 5 ''sys'' ''spec.x'' (SetScoped 1 ''sys'' ''spec.x'' (VBool True) [] NewVarPool)"
  using scopes_separate [of "''plan''" "SetScoped 1 ''sys'' ''spec.x'' (VBool True) [] NewVarPool" "''spec.x''" 5 "''sys''"]
  by (simp add: SetScoped_def Set_def NewVarPool_def)

section \<open>The length of a summary\<close>

lemma writeVars_length:
  assumes "0 < scMaxBytes cfg" and "writeVars marshal cfg vs b = (stop, b')"
  shows "int (length b') \<le> max (scMaxBytes cfg) (int (length b)) + (if stop then 15 else 0)"
    and "\<not> stop \<Longrightarrow> vs \<noteq> [] \<Longrightarrow> int (length b') \<le> scMaxBytes cfg"
  using assms
proof (induction vs arbitrary: b)
  case (Cons v vs)
  let ?e = "summaryEntry marshal cfg v"
  {
    case 1
    show ?case
    proof (cases "int (length b + length ?e) > scMaxBytes cfg")
      case True
      with 1 show ?thesis by (auto simp: truncationMark_def Let_def)
    next
      case False
      then have "writeVars marshal cfg vs (b @ ?e) = (stop, b')" using 1 by (simp add: Let_def)
      from Cons.IH(1) [OF 1(1) this] False show ?thesis by auto
    qed
  next
    case 2
    then have f: "\<not> int (length b + length ?e) > scMaxBytes cfg" by (auto simp: Let_def split: if_splits)
    with 2 have w: "writeVars marshal cfg vs (b @ ?e) = (stop, b')" by (simp add: Let_def)
    show ?case
    proof (cases "vs = []")
      case True
      with w f show ?thesis by auto
    next
      case False
      from Cons.IH(2) [OF 2(1) False 2(3) w] show ?thesis .
    qed
  }
qed auto

lemma writeScopes_length:
  assumes "0 < scMaxBytes cfg" and "list_all (\<lambda>sc. int (length (scopeHeader sc)) \<le> h \<and> sc \<in> (\<lambda>v. fst (splitScope (vrName v))) ` set shown) scopes"
    and "0 \<le> h"
  shows "int (length (writeScopes marshal cfg shown scopes b)) \<le> max (scMaxBytes cfg) (int (length b)) + h + 15"
  using assms(2)
proof (induction scopes arbitrary: b)
  case (Cons sc scopes)
  let ?vs = "sort_key vrName (filter (\<lambda>v. fst (splitScope (vrName v)) = sc) shown)"
  obtain stop b' where w: "writeVars marshal cfg ?vs (b @ scopeHeader sc) = (stop, b')" by fastforce
  have ne: "?vs \<noteq> []" using Cons.prems by (force simp: filter_empty_conv simp flip: set_empty)
  show ?case
  proof (cases stop)
    case True
    with writeVars_length(1) [OF assms(1) w] Cons.prems w show ?thesis by auto
  next
    case False
    with writeVars_length(2) [OF assms(1) w _ ne] have "int (length b') \<le> scMaxBytes cfg" by simp
    moreover have "int (length (writeScopes marshal cfg shown scopes b')) \<le> max (scMaxBytes cfg) (int (length b')) + h + 15"
      using Cons.prems by (intro Cons.IH) simp
    moreover have "writeScopes marshal cfg shown (sc # scopes) b = writeScopes marshal cfg shown scopes b'" using w False by simp
    ultimately show ?thesis by (simp only:)
  qed
qed (use assms(3) in auto)

text \<open>
  The summary is bounded. With a limit on its size, a summary exceeds the limit (or its title, if the
  limit is smaller than that) by at most one scope heading and the mark of the truncation.
\<close>

theorem summary_bounded:
  assumes "0 < scMaxBytes cfg" and "\<forall>(k, v) \<in> set p. int (length (fst (splitScope (vrName v)))) \<le> h"
  shows "int (length (Summary marshal cfg now p)) \<le> max (scMaxBytes cfg) 19 + (max h 7 + 6) + 15"
proof -
  define shown where "shown = filter (summarized cfg now) (map snd p)"
  define scopes where "scopes = sort (remdups (map (\<lambda>v. fst (splitScope (vrName v))) shown))"
  have "int (length (fst (splitScope (vrName v)))) \<le> h" if "v \<in> set shown" for v
    using assms(2) that unfolding shown_def by (auto simp del: splitScope.simps)
  then have "list_all (\<lambda>sc. int (length (scopeHeader sc)) \<le> max h 7 + 6 \<and> sc \<in> (\<lambda>v. fst (splitScope (vrName v))) ` set shown) scopes"
    by (auto simp: list_all_iff scopes_def scopeHeader_def le_max_iff_disj simp del: splitScope.simps)
  from writeScopes_length [OF assms(1) this, of marshal summaryTitle]
  have "int (length (writeScopes marshal cfg shown scopes summaryTitle)) \<le> max (scMaxBytes cfg) 19 + (max h 7 + 6) + 15"
    by (simp add: summaryTitle_def)
  then show ?thesis unfolding Summary_def Let_def shown_def [symmetric] scopes_def [symmetric] using assms(1) by auto
qed

theorem summary_bounded_witness:
  "int (length (Summary (\<lambda>_. ''?'') defaultSummary 0 (SetScoped 0 ''plan'' ''a'' (VString ''x'') [] NewVarPool))) \<le> 4136"
  using summary_bounded [of defaultSummary "SetScoped 0 ''plan'' ''a'' (VString ''x'') [] NewVarPool" 4 "\<lambda>_. ''?''" 0]
  by (simp add: defaultSummary_def SetScoped_def Set_def NewVarPool_def scopedKey_def variable_def)

end
