(* ===== verification/Phase_Errors.thy ===== *)
theory Phase_Errors
  imports Go_Text
begin

text \<open>
  Errors of the phases (src/internal/conductor/errors.go): the user-facing text of an error and the class of a
  failure. Both are the first match in a list of patterns. An error is its text.
\<close>

section \<open>User-facing errors\<close>

record UserError =
  ueMessage :: string
  ueFix :: string
  ueCode :: string
  ueCause :: "string option"

definition ueError :: "UserError \<Rightarrow> string" where
  "ueError e = ueMessage e"

definition causeString :: "UserError \<Rightarrow> string" where
  "causeString e = (case ueCause e of Some cause \<Rightarrow> cause | None \<Rightarrow> [])"

record errorPattern =
  epContains :: string
  epMessage :: string
  epFix :: string
  epCode :: string

definition errPattern :: "string \<Rightarrow> string \<Rightarrow> string \<Rightarrow> string \<Rightarrow> errorPattern" where
  "errPattern c m f k = \<lparr>epContains = c, epMessage = m, epFix = f, epCode = k\<rparr>"

definition errorPatterns :: "errorPattern list" where
  "errorPatterns =
    [     errPattern (''no available agents'') (''No AI agent is connected'')
       (''Install Claude CLI: https://docs.anthropic.com/en/docs/claude-code/getting-started'' @ [CHR 0x0A] @ ''Or run: kvelmo diagnose'') (''agent_unavailable''),
     errPattern (''agent connect failed'') (''Could not connect to AI agent'')
       (''Check that Claude is authenticated: claude auth login'') (''agent_connect''),
     errPattern (''connect failed (both WebSocket and CLI)'') (''Could not connect to AI agent'')
       (''Verify Claude CLI works: claude --version'' @ [CHR 0x0A] @ ''Then authenticate: claude auth login'') (''agent_connect''),
     errPattern (''no worker pool available'') (''No worker pool is running'')
       (''Restart kvelmo: kvelmo serve'') (''pool_unavailable''),
     errPattern (''pool stopped'') (''The worker pool has stopped'')
       (''Restart kvelmo: kvelmo serve'') (''pool_stopped''),
     errPattern (''push branch'') (''Git push failed'')
       (''Check your git credentials and remote access.'' @ [CHR 0x0A] @ ''For GitHub: set token in Settings or run kvelmo config set providers.github.token <token>'') (''git_push''),
     errPattern (''create PR'') (''Could not create pull request'')
       (''Verify the branch has commits and the target branch exists.'' @ [CHR 0x0A] @ ''Check your provider token has sufficient permissions.'') (''pr_create''),
     errPattern (''quality gate failed'') (''Code quality checks did not pass'')
       (''Review the issues listed in the output and fix them.'' @ [CHR 0x0A] @ ''Or re-run review to try again: kvelmo review'') (''quality_gate''),
     errPattern (''rate_limit'') (''API rate limit reached'')
       (''Wait a few minutes and retry, or switch to a different model'') (''rate_limit''),
     errPattern (''429'') (''API rate limit reached'')
       (''Wait a few minutes and retry'') (''rate_limit''),
     errPattern (''context_length'') (''Context window exceeded'')
       (''Try simplifying the task or breaking it into smaller steps'') (''context_overflow''),
     errPattern (''maximum context'') (''Context window exceeded'')
       (''Reduce task scope or use kvelmo simplify first'') (''context_overflow''),
     errPattern (''signal: killed'') (''Agent process was killed (likely OOM)'')
       (''Check system memory. Consider using a smaller model or simpler task'') (''agent_killed''),
     errPattern (''signal: terminated'') (''Agent process was terminated'')
       (''Check if another process killed the agent. Retry with: kvelmo <phase>'') (''agent_terminated''),
     errPattern (''context deadline exceeded'') (''Operation timed out'')
       (''Increase timeout in settings or break the task into smaller steps'') (''timeout''),
     errPattern (''authentication'') (''Authentication failed'')
       (''Check your API key or re-authenticate: claude auth login'') (''auth_failed''),
     errPattern (''unauthorized'') (''Authentication failed'')
       (''Your API key may have expired. Re-authenticate: claude auth login'') (''auth_failed''),
     errPattern (''no task loaded'') (''No task is loaded'')
       (''Load a task first: kvelmo start --from <source>'') (''no_task''),
     errPattern (''cannot plan'') (''Cannot start planning'')
       (''Check the task state with: kvelmo status'') (''state_error''),
     errPattern (''cannot implement'') (''Cannot start implementation'')
       (''Run planning first: kvelmo plan'') (''state_error'')]"

text \<open>An error is the text of a plain error, or an error that is enriched already.\<close>

datatype GoError = PlainError string | Enriched UserError

definition EnrichError :: "GoError \<Rightarrow> string \<Rightarrow> UserError" where
  "EnrichError err phase =
     (case err of
        Enriched ue \<Rightarrow> ue
      | PlainError errStr \<Rightarrow>
          (case List.find (\<lambda>p. containsText errStr (epContains p)) errorPatterns of
             Some p \<Rightarrow> \<lparr>ueMessage = epMessage p, ueFix = epFix p, ueCode = epCode p, ueCause = Some errStr\<rparr>
           | None \<Rightarrow>
               \<lparr>ueMessage = (if phase = [] then ''An unexpected error occurred'' else ''An error occurred during '' @ phase),
                ueFix = ''Check the output for details. Run: kvelmo diagnose'', ueCode = ''unknown'', ueCause = Some errStr\<rparr>))"

section \<open>Failure classes\<close>

datatype FailureClass = FailureClassHardStop | FailureClassRecoverable | FailureClassDegraded | FailureClassSkippable

fun failureClassString :: "FailureClass \<Rightarrow> string" where
  "failureClassString FailureClassHardStop = ''hard_stop''"
| "failureClassString FailureClassRecoverable = ''recoverable''"
| "failureClassString FailureClassDegraded = ''degraded''"
| "failureClassString FailureClassSkippable = ''skippable''"

definition recoverablePatterns :: "string list" where
  "recoverablePatterns = [''rate_limit'', ''429'', ''context_length'', ''maximum context'', ''context deadline exceeded'',
     ''connection refused'', ''connection reset'', ''temporary failure'', ''i/o timeout'', ''EOF'']"

definition skippablePatterns :: "string list" where
  "skippablePatterns = [''no changes'', ''nothing to simplify'', ''nothing to optimize'', ''empty diff'', ''no modifications'']"

definition degradedPatterns :: "string list" where
  "degradedPatterns = [''memory indexer'', ''quality check unavailable'', ''optional subsystem'']"

definition mentions :: "string \<Rightarrow> string list \<Rightarrow> bool" where
  "mentions text patterns = list_ex (containsText text) patterns"

definition ClassifyError :: "string \<Rightarrow> string \<Rightarrow> FailureClass" where
  "ClassifyError errStr phase =
     (if mentions errStr recoverablePatterns then FailureClassRecoverable
      else if phase \<in> {''simplify'', ''optimize''} \<and> mentions errStr skippablePatterns then FailureClassSkippable
      else if mentions errStr degradedPatterns then FailureClassDegraded
      else FailureClassHardStop)"

section \<open>Properties\<close>

text \<open>Enriching twice changes nothing, and the cause of an enriched error is the original text.\<close>

lemma EnrichError_idem: "EnrichError (Enriched (EnrichError err phase)) phase' = EnrichError err phase"
  by (simp add: EnrichError_def)

lemma causeString_EnrichError: "causeString (EnrichError (PlainError s) phase) = s"
  by (simp add: EnrichError_def causeString_def split: option.splits)

text \<open>More context around an error text can only raise the class of a failure: never from retryable to final.\<close>

lemma mentions_mono: "mentions s ps \<Longrightarrow> mentions (a @ s @ b) ps"
  by (auto simp: mentions_def list_ex_iff containsText_def sublist_def) (metis append.assoc)

theorem wrapped_error_stays_recoverable:
  assumes "ClassifyError errStr phase = FailureClassRecoverable"
  shows "ClassifyError (before @ errStr @ after) phase = FailureClassRecoverable"
  using assms mentions_mono [of errStr recoverablePatterns before after]
  by (auto simp: ClassifyError_def split: if_splits)

end
