(* ===== verification/Phase_Policy.thy ===== *)
theory Phase_Policy
  imports Conductor_Core Var_Pool Phase_Errors
begin

text \<open>
  What happens around a phase: how it is begun (conductor_plan.go, conductor_implement.go, conductor_review.go), how
  its result is judged (conductor_phase_policy.go, router.go and the callers in conductor_job.go and
  conductor_graph.go), and how the next phase is chosen (conductor_implement.go).

  A goroutine that will begin a phase (a retry timer, an iteration, a rollback) is an element of \<open>phPending\<close>; a
  goroutine that watches a job or a graph is an element of \<open>phWatching\<close>, until the job or the graph has ended. The answers of the parts that are
  not modelled here, approval, hooks, guardrails, the pool's submission and the strategy's judgement of an
  output, are fields of \<open>PhaseEnv\<close>.
\<close>

section \<open>State\<close>

datatype FailurePolicy = FailurePolicyFail | FailurePolicyRetry | FailurePolicySkip

record PhasePolicy =
  ppPolicy :: FailurePolicy
  ppMaxRetries :: int
  ppRetryDelay :: duration

definition policyOf :: "FailurePolicy \<Rightarrow> int \<Rightarrow> int \<Rightarrow> PhasePolicy" where
  "policyOf p n seconds = \<lparr>ppPolicy = p, ppMaxRetries = n, ppRetryDelay = seconds * 1000000000\<rparr>"

definition defaultPhasePolicies :: "string \<rightharpoonup> PhasePolicy" where
  "defaultPhasePolicies = map_of
     [(''plan'', policyOf FailurePolicyRetry 1 5), (''implement'', policyOf FailurePolicyRetry 2 5),
      (''simplify'', policyOf FailurePolicySkip 0 0), (''optimize'', policyOf FailurePolicySkip 0 0),
      (''review'', policyOf FailurePolicyFail 0 0), (''submit'', policyOf FailurePolicyFail 0 0)]"

text \<open>The overrides of the settings: the policies by phase, the back-off in seconds and the attempts.\<close>

definition loadPhasePolicies :: "(string, string) gomap \<Rightarrow> int \<Rightarrow> int \<Rightarrow> (string \<rightharpoonup> PhasePolicy) \<Rightarrow> (string \<rightharpoonup> PhasePolicy)" where
  "loadPhasePolicies configured backoff attempts policies =
     fold (\<lambda>(phase, p) m.
       if p = ''fail'' then m(phase \<mapsto> policyOf FailurePolicyFail 0 0)
       else if p = ''retry'' then m(phase \<mapsto> policyOf FailurePolicyRetry (if attempts = 0 then 2 else attempts)
                                        (if backoff = 0 then 5 else backoff))
       else if p = ''skip'' then m(phase \<mapsto> policyOf FailurePolicySkip 0 0)
       else m) configured policies"

text \<open>A goroutine that runs a phase again, one that the router started, or the timer of a retry.\<close>

datatype PendingStart = Again string | RouteTo string | Retry string

record ('y, 'g) Phases =
  phC :: "('y, 'g) Conductor"
  phIteration :: "string \<Rightarrow> int"
  phRetry :: "string \<Rightarrow> int"
  phMaxIterations :: int
  phPolicies :: "string \<rightharpoonup> PhasePolicy"
  phAutoAdvance :: bool
  phSkipPhases :: "string list"
  phLastFailure :: "FailureClass option"
  phVars :: VarPool
  phPending :: "PendingStart list"
  phWatching :: "(string \<times> Event) list"

record ('y, 'g) PhaseEnv =
  peEnv :: "('y, 'g) Env"
  peApproval :: "Event \<Rightarrow> string option"
  peMinSpecs :: int
  peHooks :: "Event \<Rightarrow> string option"
  peGuardrails :: "string \<Rightarrow> string option"
  peSafetyCheckpoint :: "string option"
  peSubmit :: "string \<Rightarrow> string result"
  peComplexity :: string
  peNeedsIteration :: "string \<Rightarrow> string \<Rightarrow> string option"
  pePartialWork :: "string option"
  peRouter :: "(string \<Rightarrow> string \<Rightarrow> int \<Rightarrow> RouteDecision) option"

definition onC :: "(('y, 'g) Conductor \<Rightarrow> ('y, 'g) Conductor) \<Rightarrow> ('y, 'g) Phases \<Rightarrow> ('y, 'g) Phases" where
  "onC f ph = ph\<lparr>phC := f (phC ph)\<rparr>"

definition onMachine :: "(Machine \<Rightarrow> Machine) \<Rightarrow> ('y, 'g) Phases \<Rightarrow> ('y, 'g) Phases" where
  "onMachine f = onC (\<lambda>c. c\<lparr>cMachine := f (cMachine c)\<rparr>)"

abbreviation phState :: "('y, 'g) Phases \<Rightarrow> State" where
  "phState ph \<equiv> cState (phC ph)"

definition emitPlain :: "time \<Rightarrow> string \<Rightarrow> string \<Rightarrow> ('y, 'g) Conductor \<Rightarrow> ('y, 'g) Conductor" where
  "emitPlain now typ msg = emit now \<lparr>evType = typ, evState = noState, evJobID = [], evMessage = msg, evTimestamp = 0\<rparr>"

definition emitEnrichedError :: "time \<Rightarrow> string \<Rightarrow> string \<Rightarrow> ('y, 'g) Conductor \<Rightarrow> ('y, 'g) Conductor" where
  "emitEnrichedError now err phase = emitPlain now ''error'' (ueFix (EnrichError (PlainError err) phase))"

definition phaseToScope :: "string \<Rightarrow> string" where
  "phaseToScope phase = phase"

definition resetPhaseState :: "string \<Rightarrow> ('y, 'g) Phases \<Rightarrow> ('y, 'g) Phases" where
  "resetPhaseState phase ph =
     (onC (updateWorkUnit (\<lambda>wu. wu\<lparr>wuQualityGatePassed := None, wuQualityGateError := []\<rparr>)) ph)
       \<lparr>phIteration := (phIteration ph)(phase := 0), phRetry := (phRetry ph)(phase := 0),
        phVars := ClearScope (phaseToScope phase) (phVars ph)\<rparr>"

text \<open>A dispatch whose refusal the code ignores.\<close>

definition dispatchSilently :: "time \<Rightarrow> Event \<Rightarrow> ('y, 'g) Phases \<Rightarrow> ('y, 'g) Phases" where
  "dispatchSilently now event = onC (\<lambda>c. case dispatchC now event c of Inl _ \<Rightarrow> c | Inr c' \<Rightarrow> c')"

section \<open>Beginning a phase\<close>

text \<open>An operation returns its error, if any, and the state.\<close>

definition refusePhase :: "time \<Rightarrow> string \<Rightarrow> string \<Rightarrow> ('y, 'g) Phases \<Rightarrow> string option \<times> ('y, 'g) Phases" where
  "refusePhase now phase err ph = (Some err, onC (emitEnrichedError now err phase) ph)"

definition transitionInto :: "State list \<Rightarrow> string \<Rightarrow> time \<Rightarrow> string \<Rightarrow> Event \<Rightarrow> ('y, 'g) Phases \<Rightarrow> (string \<times> ('y, 'g) Phases) + ('y, 'g) Phases" where
  "transitionInto usual refused now phase event ph =
     (let ph1 = (if phState ph \<notin> set usual then onMachine (SetPriorStableState (phState ph)) ph else ph);
          ph2 = resetPhaseState phase ph1
      in case dispatchC now event (phC ph2) of
           Inl err \<Rightarrow> Inl (refused @ err, onMachine ClearPriorStableState ph2)
         | Inr c \<Rightarrow> Inr (ph2\<lparr>phC := c\<rparr>))"

text \<open>The submission of the job, and what follows it.\<close>

definition submitPhaseJob :: "('y, 'g) PhaseEnv \<Rightarrow> time \<Rightarrow> string \<Rightarrow> Event \<Rightarrow> string \<Rightarrow> string \<Rightarrow> ('y, 'g) Phases \<Rightarrow> string option \<times> ('y, 'g) Phases" where
  "submitPhaseJob env now phase doneEvent started msg ph =
     (case peSubmit env phase of
        Inl err \<Rightarrow> refusePhase now phase (''submit '' @ phase @ '' job: '' @ err) (dispatchSilently now EventError ph)
      | Inr job \<Rightarrow>
          (let c1 = updateWorkUnit (\<lambda>wu. wu\<lparr>wuJobs := wuJobs wu @ [job], wuUpdatedAt := now\<rparr>) (phC ph);
               c2 = persistState (peEnv env) now (c1\<lparr>cActiveJobID := job\<rparr>);
               c3 = emit now \<lparr>evType = started, evState = cState c2, evJobID = job, evMessage = msg, evTimestamp = 0\<rparr> c2
           in (None, ph\<lparr>phC := c3, phWatching := phWatching ph @ [(job, doneEvent)]\<rparr>)))"

definition Implement :: "('y, 'g) PhaseEnv \<Rightarrow> time \<Rightarrow> ('y, 'g) Phases \<Rightarrow> string option \<times> ('y, 'g) Phases" where
  "Implement env now ph =
     (case cWorkUnit (phC ph) of
        None \<Rightarrow> refusePhase now ''implement'' ''no task loaded'' ph
      | Some wu \<Rightarrow>
          if cPool (phC ph) = None then refusePhase now ''implement'' ''no worker pool available'' ph
          else (case peApproval env EventImplement of
            Some err \<Rightarrow> (Some err, ph)
          | None \<Rightarrow>
              if 0 < peMinSpecs env \<and> int (length (wuSpecifications wu)) < peMinSpecs env
              then (Some (''minimum '' @ format_int (peMinSpecs env) @ '' specification file(s) required, found '' @
                          decimal (length (wuSpecifications wu))), ph)
              else (case peHooks env EventImplement of
                Some err \<Rightarrow> refusePhase now ''implement'' err ph
              | None \<Rightarrow>
                  (case transitionInto [StateLoaded, StatePlanned] ''cannot implement: '' now ''implement'' EventImplement ph of
                     Inl (err, ph1) \<Rightarrow> refusePhase now ''implement'' err ph1
                   | Inr ph1 \<Rightarrow>
                       (case peGuardrails env ''implement'' of
                          Some err \<Rightarrow> refusePhase now ''implement'' err (dispatchSilently now EventError ph1)
                        | None \<Rightarrow> submitPhaseJob env now ''implement'' EventImplementDone ''implementing_started''
                                    ''Implementation started'' ph1)))))"

definition optionalPhase :: "string \<Rightarrow> Event \<Rightarrow> Event \<Rightarrow> string \<Rightarrow> string \<Rightarrow> ('y, 'g) PhaseEnv \<Rightarrow> time \<Rightarrow> ('y, 'g) Phases \<Rightarrow> string option \<times> ('y, 'g) Phases" where
  "optionalPhase phase event doneEvent started msg env now ph =
     (if cWorkUnit (phC ph) = None then refusePhase now phase ''no task loaded'' ph
      else if cPool (phC ph) = None then refusePhase now phase ''no worker pool available'' ph
      else case peHooks env event of
        Some err \<Rightarrow> refusePhase now phase err ph
      | None \<Rightarrow>
          (case transitionInto [StateImplemented] (''cannot '' @ phase @ '': '') now phase event ph of
             Inl (err, ph1) \<Rightarrow> refusePhase now phase err ph1
           | Inr ph1 \<Rightarrow> submitPhaseJob env now phase doneEvent started msg ph1))"

definition Simplify :: "('y, 'g) PhaseEnv \<Rightarrow> time \<Rightarrow> ('y, 'g) Phases \<Rightarrow> string option \<times> ('y, 'g) Phases" where
  "Simplify = optionalPhase ''simplify'' EventSimplify EventSimplifyDone ''simplifying_started'' ''Simplification started''"

definition Optimize :: "('y, 'g) PhaseEnv \<Rightarrow> time \<Rightarrow> ('y, 'g) Phases \<Rightarrow> string option \<times> ('y, 'g) Phases" where
  "Optimize = optionalPhase ''optimize'' EventOptimize EventOptimizeDone ''optimizing_started'' ''Optimization started''"

text \<open>Planning runs as a graph: it has no job, and a safety checkpoint is made if there are changes.\<close>

definition Plan :: "('y, 'g) PhaseEnv \<Rightarrow> time \<Rightarrow> string \<Rightarrow> ('y, 'g) Phases \<Rightarrow> string option \<times> ('y, 'g) Phases" where
  "Plan env now graphID ph =
     (if cWorkUnit (phC ph) = None then refusePhase now ''plan'' ''no task loaded'' ph
      else if cPool (phC ph) = None then refusePhase now ''plan'' ''no worker pool available'' ph
      else case peApproval env EventPlan of
        Some err \<Rightarrow> (Some err, ph)
      | None \<Rightarrow>
          (case peHooks env EventPlan of
             Some err \<Rightarrow> refusePhase now ''plan'' err ph
           | None \<Rightarrow>
               (case transitionInto [StateLoaded] ''cannot plan: '' now ''plan'' EventPlan ph of
                  Inl (err, ph1) \<Rightarrow> refusePhase now ''plan'' err ph1
                | Inr ph1 \<Rightarrow>
                    (case peGuardrails env ''plan'' of
                       Some err \<Rightarrow> refusePhase now ''plan'' err (dispatchSilently now EventError ph1)
                     | None \<Rightarrow>
                         (let c1 = updateWorkUnit (\<lambda>wu. wu\<lparr>wuCheckpoints := wuCheckpoints wu @
                                     (case peSafetyCheckpoint env of Some sha \<Rightarrow> [sha] | None \<Rightarrow> []), wuUpdatedAt := now\<rparr>) (phC ph1);
                              c2 = persistState (peEnv env) now c1;
                              c3 = emitMsg now ''planning_started'' (''Planning started (complexity: '' @ peComplexity env @ '')'') c2
                          in (None, ph1\<lparr>phC := c3, phWatching := phWatching ph1 @ [(graphID, EventPlanDone)]\<rparr>))))))"

text \<open>\<^verbatim>\<open>Review(ctx, false)\<close>, without the reviews by further agents that it may start.\<close>

definition Review :: "('y, 'g) PhaseEnv \<Rightarrow> time \<Rightarrow> ('y, 'g) Phases \<Rightarrow> string option \<times> ('y, 'g) Phases" where
  "Review env now ph =
     (if cWorkUnit (phC ph) = None then refusePhase now ''review'' ''no task loaded'' ph
      else case peHooks env EventReview of
        Some err \<Rightarrow> refusePhase now ''review'' err ph
      | None \<Rightarrow>
          (let ph1 = (if phState ph \<noteq> StateImplemented then onMachine (SetPriorStableState (phState ph)) ph else ph)
           in case dispatchC now EventReview (phC ph1) of
                Inl err \<Rightarrow> refusePhase now ''review'' (''cannot review: '' @ err) (onMachine ClearPriorStableState ph1)
              | Inr c \<Rightarrow> (None, ph1\<lparr>phC := emitMsg now ''review_started'' ''Review started'' (persistState (peEnv env) now c)\<rparr>)))"

section \<open>The next phase\<close>

fun nextCandidates :: "Event \<Rightarrow> string list" where
  "nextCandidates EventPlanDone = [''implement'']"
| "nextCandidates EventImplementDone = [''simplify'', ''optimize'', ''review'']"
| "nextCandidates EventSimplifyDone = [''optimize'', ''review'']"
| "nextCandidates EventOptimizeDone = [''review'']"
| "nextCandidates _ = []"

text \<open>The empty text means that there is none.\<close>

definition resolveNextPhase :: "Event \<Rightarrow> string list \<Rightarrow> string" where
  "resolveNextPhase completedEvent skipPhases =
     (case List.find (\<lambda>phase. phase \<notin> set skipPhases) (nextCandidates completedEvent) of Some phase \<Rightarrow> phase | None \<Rightarrow> [])"

definition dispatchAutoAdvance :: "('y, 'g) PhaseEnv \<Rightarrow> time \<Rightarrow> string \<Rightarrow> ('y, 'g) Phases \<Rightarrow> ('y, 'g) Phases" where
  "dispatchAutoAdvance env now phase ph =
     (let outcome = (if phase = ''implement'' then Implement env now ph
                     else if phase = ''simplify'' then Simplify env now ph
                     else if phase = ''optimize'' then Optimize env now ph
                     else if phase = ''review'' then Review env now ph
                     else (None, ph))
      in case outcome of
           (None, ph') \<Rightarrow> ph'
         | (Some err, ph') \<Rightarrow> onC (emitMsg now ''auto_advance_failed'' (''Auto-advance to '' @ phase @ '' failed: '' @ err)) ph')"

definition maybeAutoAdvance :: "('y, 'g) PhaseEnv \<Rightarrow> time \<Rightarrow> Event \<Rightarrow> ('y, 'g) Phases \<Rightarrow> ('y, 'g) Phases" where
  "maybeAutoAdvance env now completedEvent ph =
     (let nextPhase = resolveNextPhase completedEvent (phSkipPhases ph)
      in if \<not> phAutoAdvance ph \<or> nextPhase = [] then ph
         else dispatchAutoAdvance env now nextPhase (onC (emitMsg now ''auto_advance'' (''Auto-advancing to '' @ nextPhase)) ph))"

section \<open>Judging a result\<close>

fun phaseFromEvent :: "Event \<Rightarrow> string" where
  "phaseFromEvent EventPlanDone = ''plan''"
| "phaseFromEvent EventImplementDone = ''implement''"
| "phaseFromEvent EventSimplifyDone = ''simplify''"
| "phaseFromEvent EventOptimizeDone = ''optimize''"
| "phaseFromEvent _ = []"

definition expectedInProgressState :: "string \<Rightarrow> State" where
  "expectedInProgressState phase =
     (if phase = ''plan'' then StatePlanning else if phase = ''implement'' then StateImplementing
      else if phase = ''simplify'' then StateSimplifying else if phase = ''optimize'' then StateOptimizing
      else noState)"

text \<open>True: the phase is to be run again, and the caller stops.\<close>

definition evaluateAndMaybeIterate :: "('y, 'g) PhaseEnv \<Rightarrow> time \<Rightarrow> Event \<Rightarrow> string \<Rightarrow> ('y, 'g) Phases \<Rightarrow> bool \<times> ('y, 'g) Phases" where
  "evaluateAndMaybeIterate env now completionEvent output ph =
     (let phase = phaseFromEvent completionEvent in
      if phase = [] then (False, ph)
      else (case peNeedsIteration env phase output of
        None \<Rightarrow> (False, ph\<lparr>phIteration := (phIteration ph)(phase := 0)\<rparr>)
      | Some marker \<Rightarrow>
          (let attempt = phIteration ph phase + 1 in
           if phMaxIterations ph \<le> attempt then (False, ph\<lparr>phIteration := (phIteration ph)(phase := 0)\<rparr>)
           else (True, onC (emitPlain now ''iteration_retry'' (''Retrying '' @ phase @ '' (attempt '' @ format_int attempt @ ''/'' @
                     format_int (phMaxIterations ph) @ ''): unresolved '' @ marker @ '' marker''))
                   (ph\<lparr>phIteration := (phIteration ph)(phase := attempt), phPending := phPending ph @ [Again phase]\<rparr>)))))"

text \<open>
  The goroutines that begin a phase. An iteration calls the operation of its phase directly; every other one goes
  through \<open>dispatchAutoAdvance\<close>. A closed conductor begins nothing, except after the delay of a retry.
\<close>

definition iteratePhase :: "('y, 'g) PhaseEnv \<Rightarrow> time \<Rightarrow> string \<Rightarrow> string \<Rightarrow> ('y, 'g) Phases \<Rightarrow> ('y, 'g) Phases" where
  "iteratePhase env now graphID phase ph =
     (if cClosed (phC ph) then ph
      else if phase = ''implement'' then snd (Implement env now ph)
      else if phase = ''simplify'' then snd (Simplify env now ph)
      else if phase = ''optimize'' then snd (Optimize env now ph)
      else if phase = ''plan'' then snd (Plan env now graphID ph)
      else ph)"

fun runPending :: "('y, 'g) PhaseEnv \<Rightarrow> time \<Rightarrow> string \<Rightarrow> PendingStart \<Rightarrow> ('y, 'g) Phases \<Rightarrow> ('y, 'g) Phases" where
  "runPending env now graphID (Again phase) ph = iteratePhase env now graphID phase (ph\<lparr>phPending := remove1 (Again phase) (phPending ph)\<rparr>)"
| "runPending env now graphID (RouteTo phase) ph =
     (let ph1 = ph\<lparr>phPending := remove1 (RouteTo phase) (phPending ph)\<rparr>
      in if cClosed (phC ph1) then ph1 else dispatchAutoAdvance env now phase ph1)"
| "runPending env now graphID (Retry phase) ph =
     dispatchAutoAdvance env now phase (ph\<lparr>phPending := remove1 (Retry phase) (phPending ph)\<rparr>)"

text \<open>True: the router has handled the result.\<close>

definition applyRouteDecision :: "('y, 'g) PhaseEnv \<Rightarrow> time \<Rightarrow> RouteDecision \<Rightarrow> Event \<Rightarrow> ('y, 'g) Phases \<Rightarrow> bool \<times> ('y, 'g) Phases" where
  "applyRouteDecision env now decision completionEvent ph0 =
     (let phase = phaseFromEvent completionEvent;
          ph = (if cWorkUnit (phC ph0) = None then ph0
                else onC (persistState (peEnv env) now)
                       (onC (updateWorkUnit (\<lambda>wu. wu\<lparr>wuRouteHistory := wuRouteHistory wu @ [decision]\<rparr>)) ph0))
      in if rdAction decision = ''retry'' then
           if rdMaxRetries decision \<le> rdAttempt decision then (False, ph)
           else (True, (onC (emitPlain now ''route_retry'' (''Router retrying '' @ phase @ '' (attempt '' @ format_int (rdAttempt decision + 1) @ ''/'' @
                     format_int (rdMaxRetries decision) @ ''): '' @ rdReason decision)) ph)\<lparr>phPending := phPending ph @ [RouteTo phase]\<rparr>)
         else if rdAction decision = ''skip'' then
           (True, maybeAutoAdvance env now completionEvent
                    (onC (persistState (peEnv env) now)
                      (dispatchSilently now completionEvent
                        (onMachine ClearPriorStableState
                          (onC (emitPlain now ''route_skip'' (''Router skipping '' @ rdTargetPhase decision @ '' after '' @ phase @ '': '' @ rdReason decision)) ph)))))
         else if rdAction decision = ''rollback'' then
           if rdTargetPhase decision = [] then (False, ph)
           else (let ph1 = onC (persistState (peEnv env) now)
                             (dispatchSilently now EventError
                               (onC (emitPlain now ''route_rollback'' (''Router rolling back from '' @ phase @ '' to '' @ rdTargetPhase decision @
                                  '': '' @ rdReason decision)) ph))
                 in (True, ph1\<lparr>phPending := phPending ph1 @ [RouteTo (rdTargetPhase decision)]\<rparr>))
         else (False, ph))"

text \<open>True: the policy has handled the failure.\<close>

definition applyFailurePolicy :: "('y, 'g) PhaseEnv \<Rightarrow> time \<Rightarrow> Event \<Rightarrow> string \<Rightarrow> ('y, 'g) Phases \<Rightarrow> bool \<times> ('y, 'g) Phases" where
  "applyFailurePolicy env now completionEvent errMsg ph0 =
     (let phase = phaseFromEvent completionEvent in
      if phase = [] then (False, ph0)
      else let ph = onC (emitPlain now ''phase_failure_classified'' (''Phase '' @ phase @ '' failed ('' @
                        failureClassString (ClassifyError errMsg phase) @ ''): '' @ errMsg))
                      (ph0\<lparr>phLastFailure := Some (ClassifyError errMsg phase)\<rparr>) in
        case phPolicies ph phase of
          None \<Rightarrow> (False, ph)
        | Some policy \<Rightarrow>
            (case ppPolicy policy of
               FailurePolicyRetry \<Rightarrow>
                 (let attempt = phRetry ph phase + 1 in
                  if attempt \<le> ppMaxRetries policy
                  then (True, onC (emitPlain now ''phase_retry'' (''Retrying '' @ phase @ '' (attempt '' @ format_int attempt @ ''/'' @
                             format_int (ppMaxRetries policy) @ '')''))
                          (ph\<lparr>phRetry := (phRetry ph)(phase := attempt), phPending := phPending ph @ [Retry phase]\<rparr>))
                  else (False, ph\<lparr>phRetry := (phRetry ph)(phase := 0)\<rparr>))
             | FailurePolicySkip \<Rightarrow>
                 (let ph1 = onC (emitPlain now ''phase_skipped'' (''Skipping failed '' @ phase @ '' phase'')) ph in
                  if expectedInProgressState phase = noState \<or> phState ph1 \<noteq> expectedInProgressState phase then (False, ph1)
                  else (True, maybeAutoAdvance env now completionEvent
                          (onC (persistState (peEnv env) now)
                            (dispatchSilently now completionEvent (onMachine ClearPriorStableState ph1)))))
             | FailurePolicyFail \<Rightarrow> (False, ph)))"

section \<open>The end of a phase\<close>

text \<open>The goroutine that watched the job or the graph ends with it.\<close>

definition endWatch :: "string \<Rightarrow> Event \<Rightarrow> ('y, 'g) Phases \<Rightarrow> ('y, 'g) Phases" where
  "endWatch job completionEvent ph =
     (onC (\<lambda>c. c\<lparr>cActiveJobID := []\<rparr>) ph)\<lparr>phWatching := remove1 (job, completionEvent) (phWatching ph)\<rparr>"

text \<open>What a failed agent has left in the worktree is committed, if there is anything and git agrees.\<close>

definition savePartialWork :: "('y, 'g) PhaseEnv \<Rightarrow> ('y, 'g) Phases \<Rightarrow> ('y, 'g) Phases" where
  "savePartialWork env =
     onC (updateWorkUnit (\<lambda>wu. wu\<lparr>wuCheckpoints := wuCheckpoints wu @ (case pePartialWork env of Some sha \<Rightarrow> [sha] | None \<Rightarrow> [])\<rparr>))"

definition markImplemented :: "Event \<Rightarrow> ('y, 'g) Phases \<Rightarrow> ('y, 'g) Phases" where
  "markImplemented completionEvent =
     (if completionEvent = EventImplementDone then onC (updateWorkUnit (\<lambda>wu. wu\<lparr>wuHasImplemented := True\<rparr>)) else id)"

text \<open>
  After a job or a graph succeeded, the specifications of a plan were found and the checkpoint was made. Planning is
  watched as a graph, the other phases as a job; without a task the one does nothing more, the other only
  advances.
\<close>

definition phaseSucceeded :: "('y, 'g) PhaseEnv \<Rightarrow> time \<Rightarrow> string \<Rightarrow> Event \<Rightarrow> string \<Rightarrow> ('y, 'g) Phases \<Rightarrow> ('y, 'g) Phases" where
  "phaseSucceeded env now job completionEvent output ph0 =
     (let ph = endWatch job completionEvent ph0
      in if cWorkUnit (phC ph) = None
         then (if completionEvent = EventPlanDone then ph else maybeAutoAdvance env now completionEvent ph)
         else let (again, ph1) = (if output = [] then (False, ph) else evaluateAndMaybeIterate env now completionEvent output ph)
              in if again then ph1
                 else let (handled, ph2) = (case peRouter env of
                              None \<Rightarrow> (False, ph1)
                            | Some route \<Rightarrow> applyRouteDecision env now (route (phaseFromEvent completionEvent) output 0) completionEvent ph1)
                      in if handled then ph2
                         else maybeAutoAdvance env now completionEvent
                                (onC (persistState (peEnv env) now)
                                  (dispatchSilently now completionEvent
                                    (onMachine ClearPriorStableState (markImplemented completionEvent ph2)))))"

text \<open>After a job or a graph failed. A failed plan without a task does nothing more.\<close>

definition phaseFailed :: "('y, 'g) PhaseEnv \<Rightarrow> time \<Rightarrow> string \<Rightarrow> Event \<Rightarrow> string \<Rightarrow> ('y, 'g) Phases \<Rightarrow> ('y, 'g) Phases" where
  "phaseFailed env now job completionEvent errMsg ph0 =
     (let ph = endWatch job completionEvent ph0
      in if completionEvent = EventPlanDone \<and> cWorkUnit (phC ph) = None then ph
         else (case applyFailurePolicy env now completionEvent errMsg (savePartialWork env ph) of
                 (True, ph1) \<Rightarrow> ph1
               | (False, ph1) \<Rightarrow>
                   (let ph2 = onC (emit now \<lparr>evType = ''job_failed'', evState = noState,
                                  evJobID = (if completionEvent = EventPlanDone then [] else job),
                                  evMessage = (if completionEvent = EventPlanDone then ''Graph execution failed'' else ''Job failed''),
                                  evTimestamp = 0\<rparr>)
                                (onC (persistState (peEnv env) now) (dispatchSilently now EventError ph1))
                    in if errMsg = [] then ph2 else onC (emitEnrichedError now errMsg (event_string completionEvent)) ph2)))"

section \<open>What the helpers keep\<close>

named_theorems phase_simps \<open>fields of the phase state after each helper\<close>

lemma emit_keeps [phase_simps]:
  "cMachine (emit now e c) = cMachine c" "cActiveJobID (emit now e c) = cActiveJobID c" "cClosed (emit now e c) = cClosed c"
  "cPool (emit now e c) = cPool c"
  by (simp_all add: emit_def Let_def)

lemma emits_keep [phase_simps]:
  "cMachine (emitPlain now t msg c) = cMachine c" "cMachine (emitMsg now t msg c) = cMachine c"
  "cMachine (emitEnrichedError now err p c) = cMachine c"
  "cActiveJobID (emitPlain now t msg c) = cActiveJobID c" "cActiveJobID (emitMsg now t msg c) = cActiveJobID c"
  "cActiveJobID (emitEnrichedError now err p c) = cActiveJobID c"
  "cClosed (emitPlain now t msg c) = cClosed c" "cClosed (emitMsg now t msg c) = cClosed c"
  by (simp_all add: emitPlain_def emitMsg_def emitEnrichedError_def phase_simps)

lemma onC_fields [phase_simps]:
  "phC (onC f ph) = f (phC ph)" "phWatching (onC f ph) = phWatching ph" "phPending (onC f ph) = phPending ph"
  "phRetry (onC f ph) = phRetry ph" "phIteration (onC f ph) = phIteration ph" "phPolicies (onC f ph) = phPolicies ph"
  "phMaxIterations (onC f ph) = phMaxIterations ph" "phAutoAdvance (onC f ph) = phAutoAdvance ph"
  "phSkipPhases (onC f ph) = phSkipPhases ph"
  by (simp_all add: onC_def)

lemma onMachine_fields [phase_simps]:
  "cMachine (phC (onMachine f ph)) = f (cMachine (phC ph))" "phWatching (onMachine f ph) = phWatching ph"
  "phPending (onMachine f ph) = phPending ph" "cActiveJobID (phC (onMachine f ph)) = cActiveJobID (phC ph)"
  "phRetry (onMachine f ph) = phRetry ph" "phIteration (onMachine f ph) = phIteration ph"
  "phAutoAdvance (onMachine f ph) = phAutoAdvance ph" "phSkipPhases (onMachine f ph) = phSkipPhases ph"
  by (simp_all add: onMachine_def onC_def)

lemma updateWorkUnit_keeps [phase_simps]:
  "cState (updateWorkUnit f c) = cState c" "cActiveJobID (updateWorkUnit f c) = cActiveJobID c"
  "mPriorStableState (cMachine (updateWorkUnit f c)) = mPriorStableState (cMachine c)"
  by (simp_all add: updateWorkUnit_def)

lemma endWatch_fields [phase_simps]:
  "cMachine (phC (endWatch job d ph)) = cMachine (phC ph)" "phWatching (endWatch job d ph) = remove1 (job, d) (phWatching ph)"
  "phPending (endWatch job d ph) = phPending ph" "cActiveJobID (phC (endWatch job d ph)) = []" "phPolicies (endWatch job d ph) = phPolicies ph"
  "phRetry (endWatch job d ph) = phRetry ph" "phIteration (endWatch job d ph) = phIteration ph" "phAutoAdvance (endWatch job d ph) = phAutoAdvance ph"
  "phMaxIterations (endWatch job d ph) = phMaxIterations ph" "phSkipPhases (endWatch job d ph) = phSkipPhases ph"
  by (simp_all add: endWatch_def onC_def)

lemma savePartialWork_fields [phase_simps]:
  "phState (savePartialWork env ph) = phState ph" "phWatching (savePartialWork env ph) = phWatching ph"
  "mPriorStableState (cMachine (phC (savePartialWork env ph))) = mPriorStableState (cMachine (phC ph))"
  "phPending (savePartialWork env ph) = phPending ph" "cActiveJobID (phC (savePartialWork env ph)) = cActiveJobID (phC ph)"
  "phPolicies (savePartialWork env ph) = phPolicies ph" "phRetry (savePartialWork env ph) = phRetry ph"
  "phAutoAdvance (savePartialWork env ph) = phAutoAdvance ph" "phSkipPhases (savePartialWork env ph) = phSkipPhases ph"
  by (simp_all add: savePartialWork_def onC_fields updateWorkUnit_keeps)

lemma resetPhaseState_fields [phase_simps]:
  "phState (resetPhaseState phase ph) = phState ph" "phWatching (resetPhaseState phase ph) = phWatching ph"
  "phPending (resetPhaseState phase ph) = phPending ph" "phRetry (resetPhaseState phase ph) phase = 0"
  "phIteration (resetPhaseState phase ph) phase = 0"
  "cActiveJobID (phC (resetPhaseState phase ph)) = cActiveJobID (phC ph)"
  by (simp_all add: resetPhaseState_def phase_simps)

lemma persistState_keeps [phase_simps]:
  "cState (persistState env now c) = cState c" "cActiveJobID (persistState env now c) = cActiveJobID c"
  "mPriorStableState (cMachine (persistState env now c)) = mPriorStableState (cMachine c)"
  by (simp_all add: persistState_def persistVarPool_def updateWorkUnit_def Let_def split: option.splits sum.splits bool.splits)

lemma prior_state [phase_simps]:
  "mState (SetPriorStableState s m) = mState m" "mState (ClearPriorStableState m) = mState m"
  by (simp_all add: SetPriorStableState_def ClearPriorStableState_def)

section \<open>A running phase cannot be begun again\<close>

text \<open>Each phase that can iterate or be retried, with its events and the state it runs in.\<close>

definition phaseRows :: "(string \<times> Event \<times> Event \<times> State) list" where
  "phaseRows = [(''plan'', EventPlan, EventPlanDone, StatePlanning), (''implement'', EventImplement, EventImplementDone, StateImplementing),
     (''simplify'', EventSimplify, EventSimplifyDone, StateSimplifying), (''optimize'', EventOptimize, EventOptimizeDone, StateOptimizing)]"

lemma phaseRows_ok: "list_all (\<lambda>(p, ev, d, st). map_of TransitionTable (st, ev) = None \<and> phaseFromEvent d = p \<and>
    expectedInProgressState p = st) phaseRows"
  by code_simp

lemma no_self_row: "(p, ev, d, st) \<in> set phaseRows \<Longrightarrow> map_of TransitionTable (st, ev) = None"
  using phaseRows_ok by (auto simp: list_all_iff)

lemma no_self_dispatch:
  assumes "(p, ev, d, st) \<in> set phaseRows" and "cState c = st"
  shows "dispatchC now ev c = Inl (formatTransitionError st ev)"
  using no_self_row [OF assms(1)] assms(2) by (simp add: dispatchC_def Dispatch_def)

text \<open>What a refused beginning leaves as it was.\<close>

definition sameRun :: "('y, 'g) Phases \<Rightarrow> ('y, 'g) Phases \<Rightarrow> bool" where
  "sameRun ph ph' \<longleftrightarrow> phState ph' = phState ph \<and> phWatching ph' = phWatching ph \<and> phPending ph' = phPending ph \<and>
     cActiveJobID (phC ph') = cActiveJobID (phC ph)"

lemma sameRun_refl [simp]: "sameRun ph ph"
  by (simp add: sameRun_def)

lemma sameRun_emit [simp]:
  "sameRun ph (onC (emitEnrichedError now err p) ph') \<longleftrightarrow> sameRun ph ph'"
  "sameRun ph (onC (emitMsg now t msg) ph') \<longleftrightarrow> sameRun ph ph'"
  by (simp_all add: sameRun_def phase_simps)

lemma sameRun_refuse [simp]: "sameRun ph (snd (refusePhase now p err ph')) \<longleftrightarrow> sameRun ph ph'"
  by (simp add: refusePhase_def)

lemma transition_refused:
  assumes "(p, ev, d, st) \<in> set phaseRows" and "phState ph = st"
  shows "\<exists>err ph'. transitionInto usual refused now p ev ph = Inl (err, ph') \<and> sameRun ph ph' \<and>
    phRetry ph' p = 0 \<and> phIteration ph' p = 0"
  using assms by (simp add: transitionInto_def Let_def no_self_dispatch phase_simps sameRun_def)

lemma phaseRows_mem:
  "(''plan'', EventPlan, EventPlanDone, StatePlanning) \<in> set phaseRows"
  "(''implement'', EventImplement, EventImplementDone, StateImplementing) \<in> set phaseRows"
  "(''simplify'', EventSimplify, EventSimplifyDone, StateSimplifying) \<in> set phaseRows"
  "(''optimize'', EventOptimize, EventOptimizeDone, StateOptimizing) \<in> set phaseRows"
  by (simp_all add: phaseRows_def)

lemma phaseRows_cases:
  assumes "(p, ev, d, st) \<in> set phaseRows"
  obtains "p = ''plan''" "ev = EventPlan" "d = EventPlanDone" "st = StatePlanning"
  | "p = ''implement''" "ev = EventImplement" "d = EventImplementDone" "st = StateImplementing"
  | "p = ''simplify''" "ev = EventSimplify" "d = EventSimplifyDone" "st = StateSimplifying"
  | "p = ''optimize''" "ev = EventOptimize" "d = EventOptimizeDone" "st = StateOptimizing"
  using assms unfolding phaseRows_def list.set insert_iff prod.inject empty_iff
  by (elim disjE conjE FalseE) (rule that; assumption)+

lemma Implement_refused:
  assumes "phState ph = StateImplementing"
  shows "\<exists>err. fst (Implement env now ph) = Some err" and "sameRun ph (snd (Implement env now ph))"
proof -
  obtain err ph' where "transitionInto [StateLoaded, StatePlanned] ''cannot implement: '' now ''implement'' EventImplement ph = Inl (err, ph')"
      and "sameRun ph ph'"
    using transition_refused [OF phaseRows_mem(2) assms] by blast
  then show "\<exists>err. fst (Implement env now ph) = Some err" and "sameRun ph (snd (Implement env now ph))"
    by (auto simp: Implement_def refusePhase_def split: option.splits)
qed

lemma optionalPhase_refused:
  assumes "(p, ev, d, st) \<in> set phaseRows" and "phState ph = st"
  shows "\<exists>err. fst (optionalPhase p ev d' t msg env now ph) = Some err" and "sameRun ph (snd (optionalPhase p ev d' t msg env now ph))"
proof -
  obtain err ph' where "transitionInto [StateImplemented] (''cannot '' @ p @ '': '') now p ev ph = Inl (err, ph')" and "sameRun ph ph'"
    using transition_refused [OF assms] by blast
  then show "\<exists>err. fst (optionalPhase p ev d' t msg env now ph) = Some err"
    and "sameRun ph (snd (optionalPhase p ev d' t msg env now ph))"
    by (auto simp: optionalPhase_def refusePhase_def split: option.splits)
qed

lemma Simplify_refused:
  assumes "phState ph = StateSimplifying"
  shows "sameRun ph (snd (Simplify env now ph))"
  unfolding Simplify_def by (rule optionalPhase_refused [OF phaseRows_mem(3) assms])

lemma Optimize_refused:
  assumes "phState ph = StateOptimizing"
  shows "sameRun ph (snd (Optimize env now ph))"
  unfolding Optimize_def by (rule optionalPhase_refused [OF phaseRows_mem(4) assms])

lemma Plan_refused:
  assumes "phState ph = StatePlanning"
  shows "sameRun ph (snd (Plan env now g ph))"
proof -
  obtain err ph' where "transitionInto [StateLoaded] ''cannot plan: '' now ''plan'' EventPlan ph = Inl (err, ph')" and "sameRun ph ph'"
    using transition_refused [OF phaseRows_mem(1) assms] by blast
  then show ?thesis by (auto simp: Plan_def split: option.splits)
qed

lemma dispatchAutoAdvance_snd:
  "sameRun ph (dispatchAutoAdvance env now phase ph) \<longleftrightarrow>
   sameRun ph (if phase = ''implement'' then snd (Implement env now ph)
               else if phase = ''simplify'' then snd (Simplify env now ph)
               else if phase = ''optimize'' then snd (Optimize env now ph)
               else if phase = ''review'' then snd (Review env now ph) else ph)"
  by (auto simp: dispatchAutoAdvance_def Let_def split: prod.splits option.splits)

lemma advance_refused:
  assumes "(p, ev, d, st) \<in> set phaseRows" and "phState ph = st"
  shows "sameRun ph (dispatchAutoAdvance env now p ph)"
  using assms(1) by (cases rule: phaseRows_cases)
    (use assms(2) in \<open>simp_all add: dispatchAutoAdvance_snd Implement_refused Simplify_refused Optimize_refused\<close>)

lemma iterate_refused:
  assumes "(p, ev, d, st) \<in> set phaseRows" and "phState ph = st"
  shows "sameRun ph (iteratePhase env now g p ph)"
  using assms(1) by (cases rule: phaseRows_cases)
    (use assms(2) in \<open>simp_all add: iteratePhase_def Implement_refused Simplify_refused Optimize_refused Plan_refused\<close>)

lemma phaseRows_names:
  assumes "(p, ev, d, st) \<in> set phaseRows"
  shows "phaseFromEvent d = p \<and> expectedInProgressState p = st \<and> p \<noteq> []"
  using assms by (cases rule: phaseRows_cases) (simp_all add: expectedInProgressState_def)

lemma dispatchSilently_machine [phase_simps]:
  "cMachine (phC (dispatchSilently now ev ph)) = dispatchIgnoring now ev (cMachine (phC ph))"
  "phWatching (dispatchSilently now ev ph) = phWatching ph" "phPending (dispatchSilently now ev ph) = phPending ph"
  "cActiveJobID (phC (dispatchSilently now ev ph)) = cActiveJobID (phC ph)"
  "phAutoAdvance (dispatchSilently now ev ph) = phAutoAdvance ph"
  by (simp_all add: dispatchSilently_def dispatchC_def dispatchIgnoring_def onC_def split: sum.splits prod.splits)

lemma dispatchIgnoring_row:
  assumes "unguarded_row (mState m) ev to" and "ev \<noteq> EventError" and "ev \<noteq> EventStop"
  shows "mState (dispatchIgnoring now ev m) = to"
  using Dispatch_unguarded_row [OF assms(1), of now] assms(2,3) by (auto simp: dispatchIgnoring_def rollsBack_def)

lemma optional_done_rows:
  "unguarded_row StateSimplifying EventSimplifyDone StateImplemented"
  "unguarded_row StateOptimizing EventOptimizeDone StateImplemented"
  unfolding unguarded_row_def by code_simp+

text \<open>A state of the phases for the witnesses.\<close>

definition demoPhases :: "State \<Rightarrow> (TaskState, string list) Phases" where
  "demoPhases st = \<lparr>phC = demo_conductor (demo_started\<lparr>mState := st\<rparr>), phIteration = (\<lambda>_. 0), phRetry = (\<lambda>_. 0),
     phMaxIterations = 3, phPolicies = defaultPhasePolicies, phAutoAdvance = False, phSkipPhases = [], phLastFailure = None,
     phVars = [], phPending = [], phWatching = []\<rparr>"

definition demoPhaseEnv :: "(TaskState, string list) PhaseEnv" where
  "demoPhaseEnv = \<lparr>peEnv = demo_env, peApproval = (\<lambda>_. None), peMinSpecs = 0, peHooks = (\<lambda>_. None), peGuardrails = (\<lambda>_. None),
     peSafetyCheckpoint = None, peSubmit = (\<lambda>_. Inr ''job-1''), peComplexity = ''simple'',
     peNeedsIteration = (\<lambda>_ _. Some ''TODO''), pePartialWork = None, peRouter = None\<rparr>"

lemma demoPhases_state [simp]: "phState (demoPhases st) = st" "cWorkUnit (phC (demoPhases st)) \<noteq> None"
  by (simp_all add: demoPhases_def demo_conductor_machine demo_started_def SetWorkUnit_def)

section \<open>Properties\<close>

text \<open>
  C39: A retry never runs the phase again. The policy of a failed phase schedules a retry and leaves the machine in the
  state of the running phase; when the timer fires, the phase is refused, because the table has no transition
  from a running phase to itself (and planning is not even tried). The task is left in the running state
  without a job, without a watcher, if the failed one was the only, and without anything scheduled. Planning and implementing have this policy
  by default.
\<close>

theorem retried_phase_is_stuck:
  assumes "(p, ev, d, st) \<in> set phaseRows" and "phState ph = st" and "cWorkUnit (phC ph) \<noteq> None"
    and "phPending ph = []" and "phWatching ph = [(job, d)]"
    and "phPolicies ph p = Some policy" and "ppPolicy policy = FailurePolicyRetry" and "phRetry ph p + 1 \<le> ppMaxRetries policy"
  shows "\<exists>ph'. phaseFailed env now job d msg ph = ph' \<and> phPending ph' = [Retry p] \<and>
    (let ph'' = runPending env' later g (Retry p) ph'
     in phState ph'' = st \<and> cActiveJobID (phC ph'') = [] \<and> phWatching ph'' = [] \<and> phPending ph'' = [])"
proof -
  define ph' where "ph' = phaseFailed env now job d msg ph"
  have d: "phaseFromEvent d = p" "p \<noteq> []" using phaseRows_names [OF assms(1)] by auto
  have f: "phState ph' = st" "phPending ph' = [Retry p]" "phWatching ph' = []" "cActiveJobID (phC ph') = []"
    using d assms(2-8) by (simp_all add: ph'_def phaseFailed_def applyFailurePolicy_def Let_def phase_simps)
  have "sameRun (ph'\<lparr>phPending := []\<rparr>) (dispatchAutoAdvance env' later p (ph'\<lparr>phPending := []\<rparr>))"
    by (rule advance_refused [OF assms(1)]) (simp add: f)
  then show ?thesis using f by (simp add: ph'_def [symmetric] Let_def sameRun_def)
qed

theorem retried_phase_is_stuck_witness:
  "\<exists>ph'. phaseFailed demoPhaseEnv 5 ''g1'' EventPlanDone ''agent crashed'' ((demoPhases StatePlanning)\<lparr>phWatching := [(''g1'', EventPlanDone)]\<rparr>) = ph' \<and>
    phPending ph' = [Retry ''plan''] \<and>
    (let ph'' = runPending demoPhaseEnv 6 ''g'' (Retry ''plan'') ph'
     in phState ph'' = StatePlanning \<and> cActiveJobID (phC ph'') = [] \<and> phWatching ph'' = [] \<and> phPending ph'' = [])"
  by (rule retried_phase_is_stuck [OF phaseRows_mem(1), where policy = "policyOf FailurePolicyRetry 1 5"])
    (simp, simp, simp_all add: demoPhases_def defaultPhasePolicies_def policyOf_def)

text \<open>
  An iteration never runs the phase again either: when the strategy asks for another iteration, the phase is begun
  from the state in which it is running, which is refused, and the task is left running without a job.
\<close>

theorem iterated_phase_is_stuck:
  assumes "(p, ev, d, st) \<in> set phaseRows" and "phState ph = st" and "cWorkUnit (phC ph) \<noteq> None"
    and "phPending ph = []" and "phWatching ph = [(job, d)]"
    and "output \<noteq> []" and "peNeedsIteration env p output = Some marker" and "phIteration ph p + 1 < phMaxIterations ph"
  shows "\<exists>ph'. phaseSucceeded env now job d output ph = ph' \<and> phPending ph' = [Again p] \<and>
    (let ph'' = runPending env' later g (Again p) ph'
     in phState ph'' = st \<and> cActiveJobID (phC ph'') = [] \<and> phWatching ph'' = [] \<and> phPending ph'' = [])"
proof -
  define ph' where "ph' = phaseSucceeded env now job d output ph"
  have d: "phaseFromEvent d = p" "p \<noteq> []" using phaseRows_names [OF assms(1)] by auto
  have f: "phState ph' = st" "phPending ph' = [Again p]" "phWatching ph' = []" "cActiveJobID (phC ph') = []"
    using d assms(2-8) by (simp_all add: ph'_def phaseSucceeded_def evaluateAndMaybeIterate_def Let_def phase_simps del: not_None_eq)
  have "sameRun (ph'\<lparr>phPending := []\<rparr>) (iteratePhase env' later g p (ph'\<lparr>phPending := []\<rparr>))"
    by (rule iterate_refused [OF assms(1)]) (simp add: f)
  then show ?thesis using f by (simp add: ph'_def [symmetric] Let_def sameRun_def)
qed

theorem iterated_phase_is_stuck_witness:
  "\<exists>ph'. phaseSucceeded demoPhaseEnv 5 ''j1'' EventImplementDone ''TODO'' ((demoPhases StateImplementing)\<lparr>phWatching := [(''j1'', EventImplementDone)]\<rparr>) = ph' \<and>
    phPending ph' = [Again ''implement''] \<and>
    (let ph'' = runPending demoPhaseEnv 6 ''g'' (Again ''implement'') ph'
     in phState ph'' = StateImplementing \<and> cActiveJobID (phC ph'') = [] \<and> phWatching ph'' = [] \<and> phPending ph'' = [])"
  by (rule iterated_phase_is_stuck [OF phaseRows_mem(2), where marker = "''TODO''"])
    (simp, simp, simp_all add: demoPhases_def demoPhaseEnv_def)

text \<open>
  The other policies: an optional phase whose policy is to skip is completed, so that the task is implemented
  again; with the policy to fail, with no policy, or with no retries left, the task returns to the state the
  phase was begun from, or to the one the table gives.
\<close>

theorem skipped_phase_advances:
  assumes "(p, ev, d, st) \<in> set phaseRows" and "p = ''simplify'' \<or> p = ''optimize''"
    and "phState ph = st" and "phPolicies ph p = Some policy" and "ppPolicy policy = FailurePolicySkip" and "\<not> phAutoAdvance ph"
  shows "phState (phaseFailed env now job d msg ph) = StateImplemented \<and> phPending (phaseFailed env now job d msg ph) = phPending ph"
  using assms(1)
proof (cases rule: phaseRows_cases)
  case 3
  have "mState (dispatchIgnoring now EventSimplifyDone (ClearPriorStableState m)) = StateImplemented" if "mState m = StateSimplifying" for m
    by (rule dispatchIgnoring_row) (use optional_done_rows that in \<open>simp_all add: phase_simps\<close>)
  with 3 assms(3-6) show ?thesis
    by (simp add: phaseFailed_def applyFailurePolicy_def maybeAutoAdvance_def Let_def phase_simps expectedInProgressState_def)
next
  case 4
  have "mState (dispatchIgnoring now EventOptimizeDone (ClearPriorStableState m)) = StateImplemented" if "mState m = StateOptimizing" for m
    by (rule dispatchIgnoring_row) (use optional_done_rows that in \<open>simp_all add: phase_simps\<close>)
  with 4 assms(3-6) show ?thesis
    by (simp add: phaseFailed_def applyFailurePolicy_def maybeAutoAdvance_def Let_def phase_simps expectedInProgressState_def)
qed (use assms(2) in simp_all)

theorem skipped_phase_advances_witness:
  "phState (phaseFailed demoPhaseEnv 5 ''j1'' EventSimplifyDone ''x'' (demoPhases StateSimplifying)) = StateImplemented \<and>
   phPending (phaseFailed demoPhaseEnv 5 ''j1'' EventSimplifyDone ''x'' (demoPhases StateSimplifying)) = phPending (demoPhases StateSimplifying)"
  by (rule skipped_phase_advances [OF phaseRows_mem(3), where policy = "policyOf FailurePolicySkip 0 0"])
    (simp, simp, simp_all add: demoPhases_def defaultPhasePolicies_def policyOf_def)

text \<open>A failure that the policy does not handle: there is no policy, it is to fail, or no retry is left.\<close>

definition unhandled :: "string \<Rightarrow> ('y, 'g) Phases \<Rightarrow> bool" where
  "unhandled p ph \<longleftrightarrow>
     (case phPolicies ph p of
        None \<Rightarrow> True
      | Some policy \<Rightarrow> ppPolicy policy = FailurePolicyFail \<or> ppPolicy policy = FailurePolicyRetry \<and> ppMaxRetries policy < phRetry ph p + 1)"

lemma unhandled_failure:
  assumes "(p, ev, d, st) \<in> set phaseRows" and "phState ph = st" and "cWorkUnit (phC ph) \<noteq> None" and "unhandled p ph"
  shows "phState (phaseFailed env now job d msg ph) =
      (if mPriorStableState (cMachine (phC ph)) = noState then errorTarget st else mPriorStableState (cMachine (phC ph)))"
    "mPriorStableState (cMachine (phC (phaseFailed env now job d msg ph))) = noState"
    "phPending (phaseFailed env now job d msg ph) = phPending ph" "phWatching (phaseFailed env now job d msg ph) = remove1 (job, d) (phWatching ph)"
proof -
  have d: "phaseFromEvent d = p" "p \<noteq> []" using phaseRows_names [OF assms(1)] by auto
  have "isActivePhaseState st" using assms(1) by (cases rule: phaseRows_cases) simp_all
  then have j: "mState (dispatchIgnoring now EventError m) = (if mPriorStableState m = noState then errorTarget st else mPriorStableState m)"
      "mPriorStableState (dispatchIgnoring now EventError m) = noState" if "mState m = st" for m
    using errorDispatched_active [of m now] that by (simp_all add: errorDispatched_def)
  show "phState (phaseFailed env now job d msg ph) =
      (if mPriorStableState (cMachine (phC ph)) = noState then errorTarget st else mPriorStableState (cMachine (phC ph)))"
    "mPriorStableState (cMachine (phC (phaseFailed env now job d msg ph))) = noState"
    "phPending (phaseFailed env now job d msg ph) = phPending ph" "phWatching (phaseFailed env now job d msg ph) = remove1 (job, d) (phWatching ph)"
    using d assms(2-4) j
    by (auto simp: unhandled_def phaseFailed_def applyFailurePolicy_def Let_def phase_simps split: option.splits FailurePolicy.splits)
qed

text \<open>The operation of each of these phases, and what it has done when it succeeds.\<close>

definition beginPhase :: "('y, 'g) PhaseEnv \<Rightarrow> time \<Rightarrow> string \<Rightarrow> string \<Rightarrow> ('y, 'g) Phases \<Rightarrow> string option \<times> ('y, 'g) Phases" where
  "beginPhase env now graphID phase ph =
     (if phase = ''plan'' then Plan env now graphID ph else if phase = ''implement'' then Implement env now ph
      else if phase = ''simplify'' then Simplify env now ph else Optimize env now ph)"

definition usualStates :: "string \<Rightarrow> State list" where
  "usualStates phase =
     (if phase = ''plan'' then [StateLoaded] else if phase = ''implement'' then [StateLoaded, StatePlanned] else [StateImplemented])"

lemma transition_entered:
  assumes "(p, ev, d, st) \<in> set phaseRows" and "transitionInto usual refused now p ev ph = Inr ph1"
  shows "phState ph1 = st" "table_target (phState ph) ev = Some st"
    "mPriorStableState (cMachine (phC ph1)) = (if phState ph \<in> set usual then mPriorStableState (cMachine (phC ph)) else phState ph)"
proof -
  define ph0 where "ph0 = resetPhaseState p (if phState ph \<notin> set usual then onMachine (SetPriorStableState (phState ph)) ph else ph)"
  have ph0: "phState ph0 = phState ph"
    "mPriorStableState (cMachine (phC ph0)) = (if phState ph \<in> set usual then mPriorStableState (cMachine (phC ph)) else phState ph)"
    by (simp_all add: ph0_def phase_simps resetPhaseState_def) (simp_all add: SetPriorStableState_def)
  from assms(2) obtain c where c: "dispatchC now ev (phC ph0) = Inr c" "ph1 = ph0\<lparr>phC := c\<rparr>"
    by (auto simp: transitionInto_def Let_def ph0_def split: sum.splits)
  then obtain ns where "Dispatch now ev (cMachine (phC ph0)) = Inr (cMachine c, ns)" by (auto simp: dispatchC_def split: sum.splits)
  then obtain t where t: "table_target (phState ph0) ev = Some (To t)" "cMachine c = fst (applyTransition now ev t (cMachine (phC ph0)))"
    by (rule Dispatch_InrE)
  have ev: "ev \<noteq> EventError \<and> ev \<noteq> EventStop" using assms(1) by (cases rule: phaseRows_cases) simp_all
  have to: "To t = st" using assms(1) by (cases rule: phaseRows_cases) (use t(1) in \<open>auto dest: row_entered\<close>)
  with ev t ph0 c(2) show "phState ph1 = st" "table_target (phState ph) ev = Some st"
    "mPriorStableState (cMachine (phC ph1)) = (if phState ph \<in> set usual then mPriorStableState (cMachine (phC ph)) else phState ph)"
    by (simp_all add: applyTransition_fields rollsBack_def)
qed

lemma begin_transition:
  assumes "(p, ev, d, st) \<in> set phaseRows" and "beginPhase env now g p ph = (None, ph1)"
  obtains refused ph0 where "transitionInto (usualStates p) refused now p ev ph = Inr ph0"
    and "phState ph1 = phState ph0" and "mPriorStableState (cMachine (phC ph1)) = mPriorStableState (cMachine (phC ph0))"
  using assms(1)
  by (cases rule: phaseRows_cases)
    (use assms(2) that in \<open>auto simp: beginPhase_def usualStates_def Plan_def Implement_def Simplify_def Optimize_def optionalPhase_def
       refusePhase_def submitPhaseJob_def Let_def phase_simps split: if_splits option.splits sum.splits\<close>)

text \<open>
  C15: A failed phase gives the task back where it was. If planning, implementing, simplifying or optimizing was
  begun from a state with no rollback pending, and the phase fails later, while the machine is still as the beginning
  left it, and its failure policy does not handle the failure (it is to fail, its retries are exhausted, or there is
  none), then the task is again in the state the phase was begun from, no rollback is pending, nothing
  new is scheduled and the watcher is gone. The one exception is implementing straight from \<^verbatim>\<open>loaded\<close>.
\<close>

theorem failed_phase_returns:
  assumes "(p, ev, d, st) \<in> set phaseRows" and "beginPhase env now g p ph = (None, ph1)"
    and "mPriorStableState (cMachine (phC ph)) = noState" and "\<not> (p = ''implement'' \<and> phState ph = StateLoaded)"
    and "phState ph2 = phState ph1" and "mPriorStableState (cMachine (phC ph2)) = mPriorStableState (cMachine (phC ph1))"
    and "cWorkUnit (phC ph2) \<noteq> None" and "unhandled p ph2"
  shows "phState ph1 = st \<and> phState (phaseFailed env' later job d msg ph2) = phState ph \<and>
    mPriorStableState (cMachine (phC (phaseFailed env' later job d msg ph2))) = noState \<and>
    phPending (phaseFailed env' later job d msg ph2) = phPending ph2 \<and>
    phWatching (phaseFailed env' later job d msg ph2) = remove1 (job, d) (phWatching ph2)"
proof -
  obtain refused ph0 where t: "transitionInto (usualStates p) refused now p ev ph = Inr ph0"
      and same: "phState ph1 = phState ph0" "mPriorStableState (cMachine (phC ph1)) = mPriorStableState (cMachine (phC ph0))"
    using begin_transition [OF assms(1,2)] .
  note entered = transition_entered [OF assms(1) t]
  have returns: "errorTarget st = phState ph" if "phState ph \<in> set (usualStates p)"
    using assms(1) by (cases rule: phaseRows_cases) (use that assms(4) in \<open>auto simp: usualStates_def split: if_splits\<close>)
  have known: "phState ph \<noteq> noState" using row_source [OF entered(2)] noState_unknown by auto
  have st: "phState ph2 = st" using same entered assms(5) by simp
  show ?thesis
    using unhandled_failure [OF assms(1) st assms(7,8), of env' later job msg] same entered returns known assms(3,6) by auto
qed

theorem failed_phase_returns_witness:
  "\<exists>ph1. beginPhase demoPhaseEnv 4 ''g'' ''optimize'' ((demoPhases StateImplemented)\<lparr>phPolicies := Map.empty\<rparr>) = (None, ph1) \<and>
     phState ph1 = StateOptimizing \<and> phState (phaseFailed demoPhaseEnv 5 ''job-1'' EventOptimizeDone ''crash'' ph1) = StateImplemented"
proof -
  let ?ph = "(demoPhases StateImplemented)\<lparr>phPolicies := Map.empty\<rparr>"
  have ok: "fst (beginPhase demoPhaseEnv 4 ''g'' ''optimize'' ?ph) = None" "cWorkUnit (phC (snd (beginPhase demoPhaseEnv 4 ''g'' ''optimize'' ?ph))) \<noteq> None"
    "mPriorStableState (cMachine (phC ?ph)) = noState"
    "phPolicies (snd (beginPhase demoPhaseEnv 4 ''g'' ''optimize'' ?ph)) ''optimize'' = None" by code_simp+
  then obtain ph1 where b: "beginPhase demoPhaseEnv 4 ''g'' ''optimize'' ?ph = (None, ph1)" and wu: "cWorkUnit (phC ph1) \<noteq> None" and "phPolicies ph1 ''optimize'' = None"
    by (cases "beginPhase demoPhaseEnv 4 ''g'' ''optimize'' ?ph") auto
  then have "unhandled ''optimize'' ph1" by (simp add: unhandled_def)
  from failed_phase_returns [OF phaseRows_mem(4) b ok(3) _ refl refl wu this] b show ?thesis by auto
qed

end
