(* ===== verification/Task_Group.thy ===== *)
theory Task_Group
  imports Kvelmo_Prelude "HOL-Library.Sublist"
begin

text \<open>
  Task groups across repositories (src/internal/taskgroup/group.go, coordinator.go, storage.go). A directory of
  the store is a map from file names to contents: a group, or nothing if the file cannot be decoded.
  Faults of the file system are arguments of the operations that touch it. The coordinator's map is
  ranged over, so it is an association list. Identifiers come from a random source and are arguments.
\<close>

section \<open>Groups\<close>

record TaskRef =
  trProjectDir :: string
  trTaskID :: string
  trState :: string

record Group =
  grID :: string
  grLabel :: string
  grTasks :: "TaskRef list"
  grStatus :: string
  grCreatedAt :: time
  grUpdatedAt :: time

definition StatusActive :: string where "StatusActive = ''active''"
definition StatusReady :: string where "StatusReady = ''ready''"
definition StatusSubmitted :: string where "StatusSubmitted = ''submitted''"
definition StatusCompleted :: string where "StatusCompleted = ''completed''"

definition readyStates :: "string list" where
  "readyStates = [''reviewing'', ''submitted'', ''completed'']"

definition AllReady :: "Group \<Rightarrow> bool" where
  "AllReady g \<longleftrightarrow> grTasks g \<noteq> [] \<and> list_all (\<lambda>t. trState t \<in> set readyStates) (grTasks g)"

definition refreshGroup :: "Group \<Rightarrow> Group" where
  "refreshGroup g = (if AllReady g \<and> grStatus g = StatusActive then g\<lparr>grStatus := StatusReady\<rparr> else g)"

definition ContainsTask :: "string \<Rightarrow> Group \<Rightarrow> bool" where
  "ContainsTask taskID g = list_ex (\<lambda>t. trTaskID t = taskID) (grTasks g)"

definition groupAddTask :: "time \<Rightarrow> TaskRef \<Rightarrow> Group \<Rightarrow> Group result" where
  "groupAddTask now ref g =
     (if ContainsTask (trTaskID ref) g then Inl (''add task: task \"'' @ trTaskID ref @ ''\" already in group'')
      else Inr (refreshGroup (g\<lparr>grTasks := grTasks g @ [ref], grUpdatedAt := now\<rparr>)))"

fun deleteFirst :: "('a \<Rightarrow> bool) \<Rightarrow> 'a list \<Rightarrow> 'a list" where
  "deleteFirst P [] = []"
| "deleteFirst P (x # xs) = (if P x then xs else x # deleteFirst P xs)"

definition RemoveTask :: "time \<Rightarrow> string \<Rightarrow> Group \<Rightarrow> Group result" where
  "RemoveTask now taskID g =
     (if \<not> ContainsTask taskID g then Inl (''remove task: task \"'' @ taskID @ ''\" not found in group'')
      else Inr (refreshGroup (g\<lparr>grTasks := deleteFirst (\<lambda>t. trTaskID t = taskID) (grTasks g), grUpdatedAt := now\<rparr>)))"

fun updateFirst :: "('a \<Rightarrow> bool) \<Rightarrow> ('a \<Rightarrow> 'a) \<Rightarrow> 'a list \<Rightarrow> 'a list" where
  "updateFirst P f [] = []"
| "updateFirst P f (x # xs) = (if P x then f x # xs else x # updateFirst P f xs)"

definition groupUpdateTaskState :: "time \<Rightarrow> string \<Rightarrow> string \<Rightarrow> Group \<Rightarrow> Group" where
  "groupUpdateTaskState now taskID st g =
     (if ContainsTask taskID g
      then refreshGroup (g\<lparr>grTasks := updateFirst (\<lambda>t. trTaskID t = taskID) (\<lambda>t. t\<lparr>trState := st\<rparr>) (grTasks g), grUpdatedAt := now\<rparr>)
      else g)"

definition ValidateStatus :: "string \<Rightarrow> string option" where
  "ValidateStatus s =
     (if s \<in> {StatusActive, StatusReady, StatusSubmitted, StatusCompleted} then None else Some (''unknown group status: '' @ s))"

section \<open>The store\<close>

type_synonym Directory = "(string, Group option) gomap"

text \<open>What the file system refuses, with its message.\<close>

datatype SaveFault =
    CreateDirFails string | MarshalFails string | CreateTempFails string | WriteTempFails string
  | CloseTempFails string | RenameFails string

fun saveError :: "SaveFault \<Rightarrow> string" where
  "saveError (CreateDirFails e) = ''save group: create dir: '' @ e"
| "saveError (MarshalFails e) = ''save group: marshal: '' @ e"
| "saveError (CreateTempFails e) = ''save group: create temp: '' @ e"
| "saveError (WriteTempFails e) = ''save group: write temp: '' @ e"
| "saveError (CloseTempFails e) = ''save group: close temp: '' @ e"
| "saveError (RenameFails e) = ''save group: rename: '' @ e"

definition groupFile :: "string \<Rightarrow> string" where
  "groupFile i = i @ ''.json''"

definition tempFile :: "string \<Rightarrow> string \<Rightarrow> string" where
  "tempFile i random = i @ ''.tmp-'' @ random @ ''.json''"

text \<open>
  A save: the temporary file is written and renamed, or it is removed again and an error returned. A crash
  after the write leaves the temporary file.
\<close>

definition writeTemp :: "string \<Rightarrow> Group \<Rightarrow> Directory \<Rightarrow> Directory" where
  "writeTemp random g dir = AList.update (tempFile (grID g) random) (Some g) dir"

definition renameTemp :: "string \<Rightarrow> Group \<Rightarrow> Directory \<Rightarrow> Directory" where
  "renameTemp random g dir =
     AList.update (groupFile (grID g)) (Some g) (AList.delete (tempFile (grID g) random) dir)"

definition Save :: "SaveFault option \<Rightarrow> string \<Rightarrow> Group \<Rightarrow> Directory \<Rightarrow> string option \<times> Directory" where
  "Save fault random g dir =
     (case fault of
        Some f \<Rightarrow> (Some (saveError f), AList.delete (tempFile (grID g) random) dir)
      | None \<Rightarrow> (None, renameTemp random g (writeTemp random g dir)))"

definition Load :: "string \<Rightarrow> Directory \<Rightarrow> Group option" where
  "Load i dir = (case map_of dir (groupFile i) of Some (Some g) \<Rightarrow> Some g | _ \<Rightarrow> None)"

definition LoadAll :: "Directory \<Rightarrow> Group list" where
  "LoadAll dir =
     List.map_filter (\<lambda>name. Load (take (length name - 5) name) dir)
       (filter (\<lambda>name. suffix ''.json'' name) (sort (map fst dir)))"

definition DeleteFile :: "string option \<Rightarrow> string \<Rightarrow> Directory \<Rightarrow> string option \<times> Directory" where
  "DeleteFile fault i dir =
     (case fault of
        Some e \<Rightarrow> (Some (''delete group: '' @ e), dir)
      | None \<Rightarrow> (case map_of dir (groupFile i) of
                    None \<Rightarrow> (Some ''delete group: no such file'', dir)
                  | Some _ \<Rightarrow> (None, AList.delete (groupFile i) dir)))"

section \<open>The coordinator\<close>

record Coordinator =
  cdDir :: Directory
  cdGroups :: "(string, Group) gomap"

definition NewCoordinator :: "Directory \<Rightarrow> Coordinator" where
  "NewCoordinator dir = \<lparr>cdDir = dir, cdGroups = fold (\<lambda>g m. AList.update (grID g) g m) (LoadAll dir) []\<rparr>"

text \<open>A group is put into the map and saved; the map keeps it even if saving fails.\<close>

definition storeGroup :: "SaveFault option \<Rightarrow> string \<Rightarrow> Group \<Rightarrow> Coordinator \<Rightarrow> string option \<times> Coordinator" where
  "storeGroup fault random g c =
     (case Save fault random g (cdDir c) of
        (err, dir) \<Rightarrow> (err, c\<lparr>cdGroups := AList.update (grID g) g (cdGroups c), cdDir := dir\<rparr>))"

definition CreateGroup :: "SaveFault option \<Rightarrow> string \<Rightarrow> time \<Rightarrow> string \<Rightarrow> string \<Rightarrow> Coordinator \<Rightarrow> string option \<times> Coordinator" where
  "CreateGroup fault random now i label c =
     (case storeGroup fault random \<lparr>grID = i, grLabel = label, grTasks = [], grStatus = StatusActive,
             grCreatedAt = now, grUpdatedAt = now\<rparr> c of
        (err, c') \<Rightarrow> (map_option (\<lambda>e. ''create group: '' @ e) err, c'))"

definition GetGroup :: "string \<Rightarrow> Coordinator \<Rightarrow> Group result" where
  "GetGroup i c =
     (case map_of (cdGroups c) i of
        None \<Rightarrow> Inl (''get group: group \"'' @ i @ ''\" not found'')
      | Some g \<Rightarrow> Inr g)"

definition ListGroups :: "Coordinator \<Rightarrow> Group list" where
  "ListGroups c = map snd (cdGroups c)"

definition coordAddTask :: "SaveFault option \<Rightarrow> string \<Rightarrow> time \<Rightarrow> string \<Rightarrow> TaskRef \<Rightarrow> Coordinator \<Rightarrow> string option \<times> Coordinator" where
  "coordAddTask fault random now groupID ref c =
     (case map_of (cdGroups c) groupID of
        None \<Rightarrow> (Some (''add task to group: group \"'' @ groupID @ ''\" not found''), c)
      | Some g \<Rightarrow>
          (case groupAddTask now ref g of
             Inl err \<Rightarrow> (Some err, c)
           | Inr g' \<Rightarrow> (case storeGroup fault random g' c of
                           (err, c') \<Rightarrow> (map_option (\<lambda>e. ''add task to group: '' @ e) err, c'))))"

definition FindGroupForTask :: "string \<Rightarrow> Coordinator \<Rightarrow> Group option" where
  "FindGroupForTask taskID c = List.find (ContainsTask taskID) (map snd (cdGroups c))"

definition coordUpdateTaskState :: "SaveFault option \<Rightarrow> string \<Rightarrow> time \<Rightarrow> string \<Rightarrow> string \<Rightarrow> Coordinator \<Rightarrow> Coordinator" where
  "coordUpdateTaskState fault random now taskID st c =
     (case FindGroupForTask taskID c of
        None \<Rightarrow> c
      | Some g \<Rightarrow> snd (storeGroup fault random (groupUpdateTaskState now taskID st g) c))"

text \<open>No error means that the submission is allowed.\<close>

definition CanSubmit :: "string \<Rightarrow> bool \<Rightarrow> Coordinator \<Rightarrow> string option" where
  "CanSubmit taskID syncSubmit c =
     (if \<not> syncSubmit then None
      else (case FindGroupForTask taskID c of
              None \<Rightarrow> None
            | Some g \<Rightarrow> if AllReady g then None
                else Some (''cannot submit: task group \"'' @ grID g @ ''\" ('' @ grLabel g @ '') has members not yet ready'')))"

definition SubmitGroup :: "SaveFault option \<Rightarrow> string \<Rightarrow> time \<Rightarrow> string \<Rightarrow> Coordinator \<Rightarrow> string option \<times> Coordinator" where
  "SubmitGroup fault random now i c =
     (case map_of (cdGroups c) i of
        None \<Rightarrow> (Some (''submit group: group \"'' @ i @ ''\" not found''), c)
      | Some g \<Rightarrow>
          if \<not> AllReady g then (Some (''submit group: not all tasks are ready in group \"'' @ i @ ''\"''), c)
          else (case storeGroup fault random (g\<lparr>grStatus := StatusSubmitted, grUpdatedAt := now\<rparr>) c of
                  (err, c') \<Rightarrow> (map_option (\<lambda>e. ''submit group: '' @ e) err, c')))"

definition RemoveGroup :: "string option \<Rightarrow> string \<Rightarrow> Coordinator \<Rightarrow> string option \<times> Coordinator" where
  "RemoveGroup fault i c =
     (case map_of (cdGroups c) i of
        None \<Rightarrow> (Some (''remove group: group \"'' @ i @ ''\" not found''), c)
      | Some _ \<Rightarrow>
          (case DeleteFile fault i (cdDir c) of
             (err, dir) \<Rightarrow> (map_option (\<lambda>e. ''remove group: '' @ e) err,
                              c\<lparr>cdGroups := AList.delete i (cdGroups c), cdDir := dir\<rparr>)))"

section \<open>Runs of a coordinator\<close>

text \<open>Identifiers are hexadecimal, and new ones are fresh; the file system does not fail.\<close>

definition hexID :: "string \<Rightarrow> bool" where
  "hexID i = list_all (\<lambda>c. c \<in> set ''0123456789abcdef'') i"

inductive group_step :: "Coordinator \<Rightarrow> Coordinator \<Rightarrow> bool" where
  create: "hexID i \<Longrightarrow> map_of (cdGroups c) i = None \<Longrightarrow> group_step c (snd (CreateGroup None random now i label c))"
| add: "group_step c (snd (coordAddTask None random now i ref c))"
| update: "group_step c (coordUpdateTaskState None random now taskID st c)"
| submit: "group_step c (snd (SubmitGroup None random now i c))"
| remove: "group_step c (snd (RemoveGroup None i c))"

definition group_init :: "Coordinator \<Rightarrow> bool" where
  "group_init c \<longleftrightarrow> c = NewCoordinator []"

definition stem :: "string \<Rightarrow> string" where
  "stem name = take (length name - 5) name"

definition group_ok :: "string \<Rightarrow> Group \<Rightarrow> bool" where
  "group_ok i g \<longleftrightarrow> grID g = i \<and> hexID i \<and> distinct (map trTaskID (grTasks g)) \<and> ValidateStatus (grStatus g) = None"

text \<open>The directory holds one file for every group of the map, with its current contents, and nothing else.\<close>

definition synced :: "Coordinator \<Rightarrow> bool" where
  "synced c \<longleftrightarrow> wf_map (cdGroups c) \<and> wf_map (cdDir c) \<and> list_all (\<lambda>(i, g). group_ok i g) (cdGroups c) \<and>
     (\<forall>name. map_of (cdDir c) name =
        (if suffix ''.json'' name then map_option Some (map_of (cdGroups c) (stem name)) else None))"

lemma stem_groupFile [simp]: "stem (groupFile i) = i"
  by (simp add: stem_def groupFile_def)

lemma suffix_groupFile [simp]: "suffix ''.json'' (groupFile i)"
  by (simp add: groupFile_def suffix_def)

lemma groupFile_stem: "suffix ''.json'' name \<Longrightarrow> groupFile (stem name) = name"
  by (auto simp: suffix_def groupFile_def stem_def)

lemma groupFile_inject: "groupFile i = groupFile j \<longleftrightarrow> i = j"
  by (simp add: groupFile_def)

lemma tempFile_stem: "tempFile i random = groupFile (i @ ''.tmp-'' @ random)"
  by (simp add: tempFile_def groupFile_def)

lemma stem_tempFile: "stem (tempFile i random) = i @ ''.tmp-'' @ random"
  unfolding tempFile_stem by (rule stem_groupFile)

lemma temp_not_hex: "\<not> hexID (i @ ''.tmp-'' @ random)"
  by (auto simp: hexID_def)

lemma tempFile_groupFile: "hexID j \<Longrightarrow> tempFile i random \<noteq> groupFile j"
  using temp_not_hex stem_tempFile stem_groupFile by metis

lemma synced_lookup: "synced c \<Longrightarrow> map_of (cdGroups c) i = Some g \<Longrightarrow> group_ok i g"
  by (auto simp: synced_def list_all_iff dest!: map_of_SomeD)

lemma synced_store:
  assumes "synced c" and "group_ok (grID g) g"
  shows "synced (snd (storeGroup None random g c))"
proof -
  let ?i = "grID g" and ?t = "tempFile (grID g) random"
  have h: "hexID ?i" using assms(2) by (simp add: group_ok_def)
  have t: "map_of (cdDir c) ?t = None"
  proof (cases "map_of (cdGroups c) (stem ?t)")
    case (Some g')
    from synced_lookup [OF assms(1) this] have "hexID (stem ?t)" by (simp add: group_ok_def)
    then show ?thesis unfolding stem_tempFile using temp_not_hex by blast
  qed (use assms(1) in \<open>simp add: synced_def\<close>)
  have d: "map_of (snd (Save None random g (cdDir c))) name = (if name = groupFile ?i then Some (Some g) else map_of (cdDir c) name)" for name
    using t tempFile_groupFile [OF h] by (auto simp: Save_def renameTemp_def writeTemp_def)
  have w: "wf_map (snd (Save None random g (cdDir c)))" using assms(1) by (simp add: synced_def Save_def renameTemp_def writeTemp_def)
  have u: "list_all (\<lambda>(i, g). group_ok i g) (AList.update ?i g (cdGroups c))"
  proof -
    have "wf_map (AList.update ?i g (cdGroups c))" using assms(1) by (simp add: synced_def)
    then show ?thesis
      unfolding list_all_iff using ball_values_wf [of "AList.update ?i g (cdGroups c)" group_ok] assms synced_lookup by auto
  qed
  have "map_of (snd (Save None random g (cdDir c))) name =
      (if suffix ''.json'' name then map_option Some (map_of (AList.update ?i g (cdGroups c)) (stem name)) else None)" for name
    using assms(1) groupFile_stem [of name] by (auto simp: d synced_def)
  with w u assms(1) show ?thesis by (simp add: synced_def storeGroup_def case_prod_unfold)
qed

lemma refreshGroup_keeps [simp]: "grID (refreshGroup g) = grID g" "grTasks (refreshGroup g) = grTasks g"
  by (simp_all add: refreshGroup_def)

lemma refreshGroup_status: "ValidateStatus (grStatus g) = None \<Longrightarrow> ValidateStatus (grStatus (refreshGroup g)) = None"
  by (auto simp: refreshGroup_def ValidateStatus_def split: if_splits)

lemma updateFirst_ids: "map trTaskID (updateFirst P (\<lambda>t. t\<lparr>trState := st\<rparr>) ts) = map trTaskID ts"
  by (induction ts) auto

lemma group_ok_add: "group_ok i g \<Longrightarrow> groupAddTask now ref g = Inr g' \<Longrightarrow> group_ok i g'"
  by (auto simp: groupAddTask_def group_ok_def ContainsTask_def list_ex_iff intro!: refreshGroup_status split: if_splits)
     (metis)

lemma group_ok_update: "group_ok i g \<Longrightarrow> group_ok i (groupUpdateTaskState now taskID st g)"
  by (auto simp: groupUpdateTaskState_def group_ok_def updateFirst_ids intro!: refreshGroup_status)

lemma synced_remove:
  assumes "synced c"
  shows "synced (snd (RemoveGroup None i c))"
proof (cases "map_of (cdGroups c) i")
  case None
  then show ?thesis using assms by (simp add: RemoveGroup_def)
next
  case (Some g)
  then have f: "map_of (cdDir c) (groupFile i) = Some (Some g)" using assms by (simp add: synced_def)
  have g: "list_all (\<lambda>(i, g). group_ok i g) (AList.delete i (cdGroups c))"
    using assms by (auto simp: synced_def list_all_iff AList.delete_eq)
  have "map_of (AList.delete (groupFile i) (cdDir c)) name =
      (if suffix ''.json'' name then map_option Some (map_of (AList.delete i (cdGroups c)) (stem name)) else None)" for name
    using assms groupFile_stem [of name] by (auto simp: synced_def)
  with Some f g assms show ?thesis by (simp add: RemoveGroup_def DeleteFile_def synced_def)
qed

lemma synced_step:
  assumes "synced c" and "group_step c c'"
  shows "synced c'"
  using assms(2,1)
proof (induction rule: group_step.induct)
  case (create i c random now label)
  then show ?case
    by (auto simp: CreateGroup_def case_prod_unfold group_ok_def ValidateStatus_def intro!: synced_store)
next
  case (add c random now i ref)
  show ?case
  proof (cases "map_of (cdGroups c) i")
    case (Some g)
    then have g: "group_ok i g" using add synced_lookup by blast
    show ?thesis
    proof (cases "groupAddTask now ref g")
      case (Inr g')
      have "group_ok i g'" by (rule group_ok_add [OF g Inr])
      then have "group_ok (grID g') g'" by (simp add: group_ok_def)
      with add Some Inr show ?thesis by (simp add: coordAddTask_def case_prod_unfold synced_store)
    qed (use add Some in \<open>simp add: coordAddTask_def\<close>)
  qed (use add in \<open>simp add: coordAddTask_def\<close>)
next
  case (update c random now taskID st)
  show ?case
  proof (cases "FindGroupForTask taskID c")
    case (Some g)
    then have "g \<in> set (map snd (cdGroups c))" unfolding FindGroupForTask_def find_Some_iff by (metis nth_mem)
    then obtain i where "(i, g) \<in> set (cdGroups c)" by auto
    then have "group_ok i g" using update by (auto simp: synced_def list_all_iff)
    from group_ok_update [OF this] have "group_ok (grID (groupUpdateTaskState now taskID st g)) (groupUpdateTaskState now taskID st g)"
      by (simp add: group_ok_def)
    with update Some show ?thesis by (simp add: coordUpdateTaskState_def synced_store)
  qed (use update in \<open>simp add: coordUpdateTaskState_def\<close>)
next
  case (submit c random now i)
  show ?case
  proof (cases "map_of (cdGroups c) i")
    case (Some g)
    then have "group_ok i g" using submit synced_lookup by blast
    then have "group_ok (grID g) (g\<lparr>grStatus := StatusSubmitted, grUpdatedAt := now\<rparr>)" by (simp add: group_ok_def ValidateStatus_def)
    with submit Some show ?thesis
      using synced_store [of c "g\<lparr>grStatus := StatusSubmitted, grUpdatedAt := now\<rparr>"]
      by (simp add: SubmitGroup_def case_prod_unfold)
  qed (use submit in \<open>simp add: SubmitGroup_def\<close>)
next
  case (remove c i)
  then show ?case by (rule synced_remove)
qed

interpretation groups: step_invariant group_init group_step synced
proof
  show "synced c" if "group_init c" for c
    using that by (simp add: group_init_def NewCoordinator_def LoadAll_def map_filter_def synced_def)
qed (rule synced_step)

section \<open>Properties\<close>

lemma fold_put:
  "map_of (fold (\<lambda>g m. AList.update (f g) g m) gs m) k =
     (case List.find (\<lambda>g. f g = k) (rev gs) of Some g \<Rightarrow> Some g | None \<Rightarrow> map_of m k)"
proof (induction gs arbitrary: m)
  case (Cons g gs)
  have "List.find P (xs @ [x]) = (case List.find P xs of Some y \<Rightarrow> Some y | None \<Rightarrow> if P x then Some x else None)" for P xs and x :: 'a
    by (induction xs) auto
  with Cons show ?case by (auto split: option.splits)
qed simp

lemma LoadAll_synced:
  assumes "synced c"
  shows "set (LoadAll (cdDir c)) = ran (map_of (cdGroups c))"
proof -
  have l: "Load i (cdDir c) = map_of (cdGroups c) i" for i
    using assms by (auto simp: Load_def synced_def split: option.splits)
  have n: "name \<in> fst ` set (cdDir c) \<longleftrightarrow> suffix ''.json'' name \<and> map_of (cdGroups c) (stem name) \<noteq> None" for name
  proof -
    have "name \<in> fst ` set (cdDir c) \<longleftrightarrow> map_of (cdDir c) name \<noteq> None" by (simp add: map_of_eq_None_iff)
    then show ?thesis using assms by (auto simp: synced_def)
  qed
  have "g \<in> set (LoadAll (cdDir c)) \<longleftrightarrow> (\<exists>name. name \<in> fst ` set (cdDir c) \<and> suffix ''.json'' name \<and> map_of (cdGroups c) (stem name) = Some g)" for g
    by (auto simp: LoadAll_def map_filter_def l stem_def image_iff)
  also have "\<dots> g \<longleftrightarrow> g \<in> ran (map_of (cdGroups c))" for g
    unfolding n ran_def by (auto) (metis stem_groupFile suffix_groupFile)
  finally show ?thesis by blast
qed

lemma restart_lookup:
  assumes "synced c"
  shows "map_of (cdGroups (NewCoordinator (cdDir c))) k = map_of (cdGroups c) k"
proof -
  have i: "grID g = j" if "map_of (cdGroups c) j = Some g" for j g
    using synced_lookup [OF assms that] by (simp add: group_ok_def)
  have "List.find (\<lambda>g. grID g = k) (rev (LoadAll (cdDir c))) = map_of (cdGroups c) k"
  proof (cases "map_of (cdGroups c) k")
    case None
    then have "\<forall>g \<in> set (LoadAll (cdDir c)). grID g \<noteq> k" using LoadAll_synced [OF assms] i by (force simp: ran_def)
    with None show ?thesis by (auto simp: find_None_iff)
  next
    case (Some g)
    have "g \<in> set (LoadAll (cdDir c))" using Some LoadAll_synced [OF assms] by (auto simp: ran_def)
    then obtain g' where g': "List.find (\<lambda>g. grID g = k) (rev (LoadAll (cdDir c))) = Some g'"
      using i [OF Some] by (metis (mono_tags, lifting) find_None_iff not_None_eq set_rev)
    then have "g' \<in> set (LoadAll (cdDir c))" "grID g' = k" by (auto simp: find_Some_iff) (metis nth_mem set_rev length_rev)
    then obtain j where "map_of (cdGroups c) j = Some g'" using LoadAll_synced [OF assms] by (auto simp: ran_def)
    with i \<open>grID g' = k\<close> g' show ?thesis by simp
  qed
  then show ?thesis by (simp add: NewCoordinator_def fold_put split: option.splits)
qed

lemma new_reachable: "reachable group_init group_step (NewCoordinator [])"
  by (rule reach_init) (simp add: group_init_def)

text \<open>A group with two members, one of them ready.\<close>

definition demo_group :: Coordinator where
  "demo_group =
     snd (coordAddTask None ''2'' 3 ''ab'' \<lparr>trProjectDir = ''/q'', trTaskID = ''t2'', trState = ''reviewing''\<rparr>
       (snd (coordAddTask None ''1'' 2 ''ab'' \<lparr>trProjectDir = ''/p'', trTaskID = ''t1'', trState = ''planning''\<rparr>
          (snd (CreateGroup None ''0'' 1 ''ab'' ''L'' (NewCoordinator []))))))"

lemma demo_group_reachable: "reachable group_init group_step demo_group"
  unfolding demo_group_def
proof (rule reach_step [where step = group_step, OF reach_step [where step = group_step, OF reach_step [where step = group_step,
      OF new_reachable group_step.create] group_step.add] group_step.add])
qed (simp_all add: hexID_def NewCoordinator_def LoadAll_def map_filter_def)

lemma demo_group_tasks:
  "map (\<lambda>(i, g). (i, map trTaskID (grTasks g), grStatus g)) (cdGroups demo_group) = [(''ab'', [''t1'', ''t2''], ''active'')]"
  by code_simp

text \<open>
  A restart restores the groups. As long as the file system does not fail, a coordinator made from the
  directory of another one, after any sequence of operations that are called one after the other, has the same groups.
  Concurrent calls, which save after they have released the mutex, and texts that JSON does not preserve are outside of this.
\<close>

theorem restart_restores_groups:
  assumes "reachable group_init group_step c"
  shows "map_of (cdGroups (NewCoordinator (cdDir c))) = map_of (cdGroups c)"
  using restart_lookup [OF groups.reachable_inv [OF assms]] by blast

theorem restart_restores_groups_witness:
  "reachable group_init group_step demo_group \<and>
   map_of (cdGroups (NewCoordinator (cdDir demo_group))) = map_of (cdGroups demo_group) \<and> cdGroups demo_group \<noteq> []"
  using restart_restores_groups [OF demo_group_reachable] demo_group_reachable demo_group_tasks by auto

text \<open>
  Groups are well-formed. After any sequence of operations every group is stored under its own
  identifier, has a known status, and contains no task twice.
\<close>

theorem groups_well_formed:
  assumes "reachable group_init group_step c" and "GetGroup i c = Inr g"
  shows "grID g = i \<and> distinct (map trTaskID (grTasks g)) \<and> ValidateStatus (grStatus g) = None"
proof -
  have "map_of (cdGroups c) i = Some g" using assms(2) by (auto simp: GetGroup_def split: option.splits)
  from synced_lookup [OF groups.reachable_inv [OF assms(1)] this] show ?thesis by (simp add: group_ok_def)
qed

lemma demo_group_get: "case GetGroup ''ab'' demo_group of Inl _ \<Rightarrow> False | Inr g \<Rightarrow> length (grTasks g) = 2"
  by code_simp

theorem groups_well_formed_witness:
  "\<exists>g. GetGroup ''ab'' demo_group = Inr g \<and> length (grTasks g) = 2 \<and> distinct (map trTaskID (grTasks g))"
proof -
  obtain g where g: "GetGroup ''ab'' demo_group = Inr g" "length (grTasks g) = 2" using demo_group_get by (auto split: sum.splits)
  with groups_well_formed [OF demo_group_reachable g(1)] show ?thesis by blast
qed

text \<open>
  Submission waits for the group. A task that belongs to one group may be submitted exactly when every
  member of the group has reached review; a task of no group always may.
\<close>

theorem can_submit_exactly:
  assumes "\<forall>(i, g) \<in> set (cdGroups c). ContainsTask taskID g \<longrightarrow> g = the_group"
  shows "CanSubmit taskID True c = None \<longleftrightarrow>
    (\<forall>(i, g) \<in> set (cdGroups c). ContainsTask taskID g \<longrightarrow>
       (\<forall>t \<in> set (grTasks g). trState t \<in> {''reviewing'', ''submitted'', ''completed''}))"
proof -
  have r: "AllReady g \<longleftrightarrow> (\<forall>t \<in> set (grTasks g). trState t \<in> {''reviewing'', ''submitted'', ''completed''})" if "ContainsTask taskID g" for g
    using that by (auto simp: AllReady_def readyStates_def list_all_iff ContainsTask_def list_ex_iff)
  show ?thesis
  proof (cases "FindGroupForTask taskID c")
    case None
    then have "\<forall>(i, g) \<in> set (cdGroups c). \<not> ContainsTask taskID g" by (force simp: FindGroupForTask_def find_None_iff)
    then show ?thesis using None by (auto simp: CanSubmit_def)
  next
    case (Some g)
    then have "g \<in> set (map snd (cdGroups c))" unfolding FindGroupForTask_def find_Some_iff by (metis nth_mem)
    moreover have g: "ContainsTask taskID g" using Some by (auto simp: FindGroupForTask_def find_Some_iff)
    ultimately obtain i where i: "(i, g) \<in> set (cdGroups c)" by auto
    have "CanSubmit taskID True c = None \<longleftrightarrow> AllReady g" using Some by (simp add: CanSubmit_def)
    also have "\<dots> \<longleftrightarrow> (\<forall>t \<in> set (grTasks g). trState t \<in> {''reviewing'', ''submitted'', ''completed''})" by (rule r [OF g])
    also have "\<dots> \<longleftrightarrow> (\<forall>(i, g) \<in> set (cdGroups c). ContainsTask taskID g \<longrightarrow>
       (\<forall>t \<in> set (grTasks g). trState t \<in> {''reviewing'', ''submitted'', ''completed''}))"
      using assms i g by blast
    finally show ?thesis .
  qed
qed

theorem can_submit_exactly_witness:
  "CanSubmit ''t2'' True demo_group \<noteq> None \<and> CanSubmit ''t9'' True demo_group = None"
proof
  obtain g where g: "cdGroups demo_group = [(''ab'', g)]" using demo_group_tasks by auto
  have c: "\<forall>(i, h) \<in> set (cdGroups demo_group). ContainsTask t h \<longrightarrow> h = g" for t by (simp add: g)
  have m: "list_ex (\<lambda>(i, g). \<not> ContainsTask ''t9'' g \<and> ContainsTask ''t2'' g \<and> list_ex (\<lambda>t. trState t = ''planning'') (grTasks g))
      (cdGroups demo_group)" by code_simp
  then have n: "\<not> ContainsTask ''t9'' g" "ContainsTask ''t2'' g" "\<exists>t \<in> set (grTasks g). trState t = ''planning''"
    by (auto simp: g list_ex_iff)
  show "CanSubmit ''t2'' True demo_group \<noteq> None" using can_submit_exactly [OF c, of "''t2''"] n(2,3) by (force simp: g)
  show "CanSubmit ''t9'' True demo_group = None" using can_submit_exactly [OF c, of "''t9''"] n(1) by (simp add: g)
qed

section \<open>Deviations\<close>

definition ref_of :: "string \<Rightarrow> string \<Rightarrow> TaskRef" where
  "ref_of i st = \<lparr>trProjectDir = ''/p'', trTaskID = i, trState = st\<rparr>"

definition group_of :: "string \<Rightarrow> TaskRef list \<Rightarrow> Group" where
  "group_of i ts = \<lparr>grID = i, grLabel = [], grTasks = ts, grStatus = StatusActive, grCreatedAt = 0, grUpdatedAt = 0\<rparr>"

text \<open>
  A task may be put into two groups; whether it may be submitted then depends on the order in which the map
  of groups happens to be iterated.
\<close>

theorem can_submit_depends_on_order:
  "let g = (''a'', group_of ''a'' [ref_of ''t'' ''reviewing'']);
       h = (''b'', group_of ''b'' [ref_of ''t'' ''reviewing'', ref_of ''u'' ''planning''])
   in CanSubmit ''t'' True \<lparr>cdDir = [], cdGroups = [g, h]\<rparr> = None \<and> CanSubmit ''t'' True \<lparr>cdDir = [], cdGroups = [h, g]\<rparr> \<noteq> None"
  by code_simp

text \<open>
  A stale temporary file wins. The temporary file that a crash leaves behind ends in the suffix that
  loading looks for and sorts after the group's own file, so at every later start the old contents
  replace the saved ones.
\<close>

theorem stale_temporary_wins:
  "let old = group_of ''ab'' [ref_of ''t'' ''planning'']; new = group_of ''ab'' [ref_of ''t'' ''reviewing''];
       dir = snd (Save None ''2'' new (writeTemp ''1'' old []))
   in map_of (cdGroups (NewCoordinator dir)) ''ab'' = Some old \<and> Load ''ab'' dir = Some new"
  by code_simp

text \<open>A ready group to which a task is added that is not ready stays ready.\<close>

theorem ready_is_not_revoked:
  "case groupAddTask 1 (ref_of ''u'' ''planning'') ((group_of ''a'' [ref_of ''t'' ''reviewing''])\<lparr>grStatus := StatusReady\<rparr>) of
     Inl _ \<Rightarrow> False | Inr g \<Rightarrow> grStatus g = StatusReady \<and> \<not> AllReady g"
  by code_simp

end
