(* ===== verification/Git_Names.thy ===== *)
theory Git_Names
  imports Go_Text Work_Unit
begin

text \<open>
  The names that the conductor gives to branches, commits and pull requests: src/internal/conductor/conductor_job_helpers.go.
  The match of the pattern that validates a branch is a parameter.
\<close>

section \<open>Slugs\<close>

lemma replaceAll_dashes:
  "replaceAll ''--'' ''-'' (CHR ''-'' # CHR ''-'' # s) = CHR ''-'' # replaceAll ''--'' ''-'' s"
  by (simp add: replaceAll.simps [of "''--''" "''-''" "CHR ''-'' # CHR ''-'' # s"])

lemma replaceAll_other:
  "\<not> prefix ''--'' (c # s) \<Longrightarrow> replaceAll ''--'' ''-'' (c # s) = c # replaceAll ''--'' ''-'' s"
  by (rule replaceAll_step) simp_all

lemma prefix_dashes: "prefix ''--'' s \<longleftrightarrow> (\<exists>t. s = CHR ''-'' # CHR ''-'' # t)"
  by (auto simp: prefix_def)

lemma dashes_induct [case_names Nil dashes other]:
  assumes "P []" "\<And>s. P s \<Longrightarrow> P (CHR ''-'' # CHR ''-'' # s)" "\<And>c s. \<not> prefix ''--'' (c # s) \<Longrightarrow> P s \<Longrightarrow> P (c # s)"
  shows "P s"
proof (induction s rule: length_induct)
  case (1 s)
  show ?case
  proof (cases s)
    case (Cons c s')
    show ?thesis
    proof (cases "prefix ''--'' s")
      case True
      then obtain t where "s = CHR ''-'' # CHR ''-'' # t" by (auto simp: prefix_dashes)
      then show ?thesis using 1 assms(2) [of t] by simp
    qed (use Cons 1 assms(3) [of c s'] in simp)
  qed (simp add: assms(1))
qed

lemma replaceAll_dashes_length:
  "length (replaceAll ''--'' ''-'' s) \<le> length s \<and>
   (containsText s ''--'' \<longrightarrow> length (replaceAll ''--'' ''-'' s) < length s)"
proof (induction s rule: dashes_induct)
  case (other c s)
  then have "containsText (c # s) ''--'' \<longleftrightarrow> containsText s ''--''"
    by (auto simp: containsText_def sublist_Cons_right)
  with other show ?case by (auto simp: replaceAll_other)
qed (auto simp: replaceAll_Nil replaceAll_dashes containsText_def)

lemma replaceAll_dashes_set: "set (replaceAll ''--'' ''-'' s) \<subseteq> set s"
  by (induction s rule: dashes_induct) (auto simp: replaceAll_Nil replaceAll_dashes replaceAll_other)

text \<open>The loop that collapses runs of hyphens; it ends because every pass makes the text shorter.\<close>

function collapseDashes :: "string \<Rightarrow> string" where
  "collapseDashes s = (if containsText s ''--'' then collapseDashes (replaceAll ''--'' ''-'' s) else s)"
  by pat_completeness auto

termination
  by (relation "measure length") (use replaceAll_dashes_length in auto)

declare collapseDashes.simps [simp del]

definition slugChar :: "char \<Rightarrow> bool" where
  "slugChar r \<longleftrightarrow> r = CHR ''-'' \<or> (97 \<le> (of_char r :: nat) \<and> of_char r \<le> (122 :: nat)) \<or> (48 \<le> (of_char r :: nat) \<and> of_char r \<le> (57 :: nat))"

definition slugify :: "string \<Rightarrow> string" where
  "slugify s =
     (let s1 = replaceAll ''_'' ''-'' (replaceAll '' '' ''-'' (toLower s));
          slug = trimBoth (CHR ''-'') (collapseDashes (filter slugChar s1))
      in if 50 < length slug then trimRight (CHR ''-'') (take 50 slug) else slug)"

section \<open>Branches, commits and titles\<close>

definition sourceType :: "WorkUnit \<Rightarrow> string" where
  "sourceType wu = (case wuSource wu of None \<Rightarrow> ''local'' | Some src \<Rightarrow> Provider src)"

definition generateBranchName :: "string \<Rightarrow> WorkUnit \<Rightarrow> string" where
  "generateBranchName branchPattern wu =
     (let pattern = (if branchPattern = [] then ''feature/{key}--{slug}'' else branchPattern);
          key = (if wuExternalID wu \<noteq> [] then wuExternalID wu else wuID wu);
          r0 = (if key = [] then replaceAll ''{key}-'' [] (replaceAll ''{key}--'' [] pattern) else pattern);
          r1 = replaceAll ''{key}'' key r0;
          r2 = replaceAll ''{slug}'' (slugify (wuTitle wu)) r1;
          r3 = replaceAll ''{type}'' (sourceType wu) r2
      in trimRight (CHR ''-'') (collapseDashes r3))"

text \<open>\<open>matches\<close> is the match of a regular expression, or the error of its compilation.\<close>

definition validateBranchName :: "(string \<Rightarrow> string \<Rightarrow> bool result) \<Rightarrow> string \<Rightarrow> string \<Rightarrow> string option" where
  "validateBranchName matches name pattern =
     (if pattern = [] then None
      else (case matches pattern name of
              Inl err \<Rightarrow> Some (''invalid branch validation pattern '' @ quote pattern @ '': '' @ err)
            | Inr ok \<Rightarrow> if ok then None
                        else Some (''generated branch name '' @ quote name @ '' does not match required pattern '' @ pattern)))"

definition interpolatedCommitPrefix :: "string \<Rightarrow> WorkUnit option \<Rightarrow> string" where
  "interpolatedCommitPrefix commitPrefix wuo =
     (if commitPrefix = [] then ''[kvelmo]''
      else let key = (case wuo of None \<Rightarrow> [] | Some wu \<Rightarrow> wuExternalID wu)
           in if key \<noteq> [] then replaceAll ''{key}'' key commitPrefix
              else replaceAll ''[]'' ''[kvelmo]'' (replaceAll ''{key}'' [] commitPrefix))"

definition interpolatePRTitle :: "string \<Rightarrow> WorkUnit option \<Rightarrow> string \<Rightarrow> string" where
  "interpolatePRTitle pattern wuo title =
     (if pattern = [] then ''[kvelmo] '' @ title
      else let key = (case wuo of None \<Rightarrow> [] | Some wu \<Rightarrow> wuExternalID wu);
               taskType = (case wuo of None \<Rightarrow> ''local'' | Some wu \<Rightarrow> sourceType wu);
               slug = (case wuo of None \<Rightarrow> [] | Some wu \<Rightarrow> slugify (wuTitle wu));
               r0 = (if key = [] then replaceAll ''{key} '' [] (replaceAll ''[{key}] '' [] pattern) else pattern)
           in replaceAll ''{slug}'' slug (replaceAll ''{type}'' taskType (replaceAll ''{title}'' title (replaceAll ''{key}'' key r0))))"

section \<open>Lemmas\<close>

lemma collapse_none: "\<not> containsText (collapseDashes s) ''--''"
proof (induction s rule: collapseDashes.induct)
  case (1 s)
  then show ?case by (cases "containsText s ''--''") (simp_all add: collapseDashes.simps [of s])
qed

lemma collapse_set: "set (collapseDashes s) \<subseteq> set s"
proof (induction s rule: collapseDashes.induct)
  case (1 s)
  then show ?case
    using replaceAll_dashes_set [of s] by (cases "containsText s ''--''") (auto simp: collapseDashes.simps [of s])
qed

lemma collapse_id: "\<not> containsText s ''--'' \<Longrightarrow> collapseDashes s = s"
  by (simp add: collapseDashes.simps)

lemma trimBoth_sublist: "sublist (trimBoth c s) s"
  unfolding trimBoth_def
  by (meson trimRight_prefix prefix_imp_sublist suffix_dropWhile suffix_imp_sublist sublist_order.order.trans)

lemma trimBoth_hd: "trimBoth c s \<noteq> [] \<Longrightarrow> hd (trimBoth c s) \<noteq> c"
proof -
  assume "trimBoth c s \<noteq> []"
  then obtain x t where t: "trimBoth c s = x # t" by (cases "trimBoth c s") auto
  then have "prefix (x # t) (dropWhile (\<lambda>x. x = c) s)" using trimRight_prefix [of c "dropWhile (\<lambda>x. x = c) s"] by (simp add: trimBoth_def)
  then obtain u where "dropWhile (\<lambda>x. x = c) s = x # u" by (auto simp: prefix_def)
  then have "x \<noteq> c" using hd_dropWhile [of "\<lambda>x. x = c" s] by simp
  with t show ?thesis by simp
qed

text \<open>What a slug looks like, and that the steps leave such a text alone.\<close>

definition slugShape :: "string \<Rightarrow> bool" where
  "slugShape s \<longleftrightarrow> list_all slugChar s \<and> \<not> containsText s ''--'' \<and> \<not> prefix ''-'' s \<and> \<not> suffix ''-'' s"

lemma suffix_last: "suffix [c] s \<longleftrightarrow> s \<noteq> [] \<and> last s = c"
  by (cases s rule: rev_cases) auto

lemma prefix_hd: "prefix [c] s \<longleftrightarrow> s \<noteq> [] \<and> hd s = c"
  by (cases s) auto

lemma shape_trimmed: "list_all slugChar s \<Longrightarrow> \<not> containsText s ''--'' \<Longrightarrow> slugShape (trimBoth (CHR ''-'') s)"
  unfolding slugShape_def prefix_hd suffix_last
  using trimBoth_hd [of "CHR ''-''" s] trimRight_last [of "CHR ''-''" "dropWhile (\<lambda>x. x = CHR ''-'') s"] set_mono_sublist [OF trimBoth_sublist, of "CHR ''-''" s]
    containsText_sublist [OF trimBoth_sublist, of "CHR ''-''" s "''--''"]
  by (auto simp: list_all_iff trimBoth_def)

lemma shape_prefix: 
  assumes "slugShape s" "prefix t s"
  shows "slugShape (trimRight (CHR ''-'') t)"
proof -
  let ?t = "trimRight (CHR ''-'') t"
  have pre: "prefix ?t s" using assms(2) trimRight_prefix prefix_order.trans by blast
  then have "sublist ?t s" by (rule prefix_imp_sublist)
  moreover have "\<not> prefix ''-'' ?t" using pre assms(1) prefix_order.trans by (auto simp: slugShape_def)
  ultimately show ?thesis
    using assms(1) trimRight_last [of "CHR ''-''" t] set_mono_sublist [of ?t s] containsText_sublist [of ?t s "''--''"]
    by (auto simp: slugShape_def suffix_last list_all_iff)
qed

lemma slugify_shape: "slugShape (slugify s)"
proof -
  define s1 where "s1 = replaceAll ''_'' ''-'' (replaceAll '' '' ''-'' (toLower s))"
  define slug where "slug = trimBoth (CHR ''-'') (collapseDashes (filter slugChar s1))"
  have "list_all slugChar (collapseDashes (filter slugChar s1))" using collapse_set [of "filter slugChar s1"] by (auto simp: list_all_iff)
  then have "slugShape slug" unfolding slug_def by (rule shape_trimmed) (rule collapse_none)
  then show ?thesis
    using shape_prefix [OF _ take_is_prefix, of slug 50]
    unfolding slugify_def Let_def s1_def [symmetric] slug_def [symmetric] by simp
qed

lemma slugify_length: "length (slugify s) \<le> 50"
proof -
  have "length (trimRight (CHR ''-'') (take 50 t)) \<le> 50" for t
    using prefix_length_le [OF trimRight_prefix [of "CHR ''-''" "take 50 t"]] by simp
  then show ?thesis by (simp add: slugify_def Let_def)
qed

lemma toLowerChar_slug: "slugChar c \<Longrightarrow> toLowerChar c = c"
  by (auto simp: slugChar_def toLowerChar_def)

lemma slug_fixed:
  assumes "slugShape s" "length s \<le> 50"
  shows "slugify s = s"
proof -
  have chars: "\<forall>c \<in> set s. slugChar c" using assms(1) by (simp add: slugShape_def list_all_iff)
  have "toLower s = s" unfolding toLower_def by (rule map_idI) (use chars in \<open>simp add: toLowerChar_slug\<close>)
  moreover have "\<not> slugChar (CHR '' '')" "\<not> slugChar (CHR ''_'')" by (simp_all add: slugChar_def)
  then have "CHR '' '' \<notin> set s" "CHR ''_'' \<notin> set s" using chars by blast+
  moreover have "filter slugChar s = s" using chars by (intro filter_True) simp
  moreover have "dropWhile (\<lambda>x. x = CHR ''-'') s = s" using assms(1) by (cases s) (auto simp: slugShape_def)
  moreover have "trimRight (CHR ''-'') s = s" using assms(1) by (intro trimRight_id) (auto simp: slugShape_def suffix_last)
  ultimately show ?thesis
    using assms by (simp add: slugify_def replaceAll_absent collapse_id slugShape_def trimBoth_def)
qed

section \<open>Properties\<close>

text \<open>
  C36: A slug is safe in the name of a branch: it has at most 50 characters, all of them lower-case letters, digits or
  hyphens, no two hyphens in a row and none at either end; and a slug is its own slug.
\<close>

theorem slug_is_safe:
  "length (slugify s) \<le> 50 \<and> list_all slugChar (slugify s) \<and> \<not> containsText (slugify s) ''--'' \<and>
   \<not> prefix ''-'' (slugify s) \<and> \<not> suffix ''-'' (slugify s) \<and> slugify (slugify s) = slugify s"
  using slugify_length [of s] slugify_shape [of s] slug_fixed [of "slugify s"] by (auto simp: slugShape_def)

text \<open>
  No branch name has two hyphens in a row or one at its end, whatever the pattern: the separator of the default
  pattern \<^verbatim>\<open>feature/{key}--{slug}\<close> never appears in a name.
\<close>

theorem branch_name_never_has_double_dash:
  "\<not> containsText (generateBranchName pattern wu) ''--''" "\<not> suffix ''-'' (generateBranchName pattern wu)"
proof -
  have "\<not> containsText (trimRight (CHR ''-'') (collapseDashes r)) ''--''" "\<not> suffix ''-'' (trimRight (CHR ''-'') (collapseDashes r))" for r
    using collapse_none [of r] containsText_sublist [OF prefix_imp_sublist [OF trimRight_prefix]]
      trimRight_last [of "CHR ''-''" "collapseDashes r"] by (auto simp: suffix_last)
  then show "\<not> containsText (generateBranchName pattern wu) ''--''" "\<not> suffix ''-'' (generateBranchName pattern wu)"
    by (simp_all add: generateBranchName_def Let_def)
qed

end
