(* ===== verification/Pull_Request.thy ===== *)
theory Pull_Request
  imports Git_Names
begin

text \<open>
  The text of a pull request and the entry of the changelog: src/internal/conductor/conductor_submit_pr.go,
  src/internal/changelog/changelog.go, and the list of changed files of src/internal/git/git_diff.go. A text is a list
  of bytes, so the limit of a specification counts bytes. The files that are read, the decisions that are taken
  from recordings and the latest review are parameters.
\<close>

abbreviation nl :: string where "nl \<equiv> [CHR 0x0A]"

section \<open>Changed files\<close>

record FileStatus =
  fsPath :: string
  fsStatus :: string

text \<open>\<^verbatim>\<open>strings.SplitN(line, tab, 3)\<close>: the third part keeps its tabs.\<close>

definition splitTab3 :: "string \<Rightarrow> string list" where
  "splitTab3 line =
     (case splitChar (CHR 0x09) line of
        a # b # c # rest \<Rightarrow> [a, b, joinWith [CHR 0x09] (c # rest)]
      | parts \<Rightarrow> parts)"

definition parseNameStatusLine :: "string \<Rightarrow> FileStatus" where
  "parseNameStatusLine line =
     (case splitTab3 line of
        code # second # rest \<Rightarrow>
          \<lparr>fsPath = (case rest of [] \<Rightarrow> second | third # _ \<Rightarrow> third),
           fsStatus = (if prefix ''A'' code then ''added'' else if prefix ''D'' code then ''deleted''
                       else if prefix ''R'' code \<or> prefix ''C'' code then ''renamed'' else ''modified'')\<rparr>
      | _ \<Rightarrow> \<lparr>fsPath = line, fsStatus = ''modified''\<rparr>)"

text \<open>The output of \<^verbatim>\<open>git diff --name-status\<close>, or its error.\<close>

definition DiffFilesWithStatus :: "string result \<Rightarrow> FileStatus list result" where
  "DiffFilesWithStatus run =
     (case run of
        Inl err \<Rightarrow> Inl err
      | Inr out \<Rightarrow> Inr (map parseNameStatusLine (filter (\<lambda>line. line \<noteq> []) (splitChar (CHR 0x0A) out))))"

section \<open>Templates\<close>

definition parseOwnerRepo :: "string \<Rightarrow> string \<times> string" where
  "parseOwnerRepo externalID =
     (case cutChar (CHR ''#'') externalID of
        None \<Rightarrow> ([], [])
      | Some (repoPath, _) \<Rightarrow> (case cutChar (CHR ''/'') repoPath of None \<Rightarrow> ([], []) | Some (owner, repo) \<Rightarrow> (owner, repo)))"

definition templateCandidates :: "string list" where
  "templateCandidates = [''.github/PULL_REQUEST_TEMPLATE.md'', ''.github/pull_request_template.md'', ''.github/PULL_REQUEST_TEMPLATE'',
     ''.gitlab/merge_request_templates/Default.md'', ''PULL_REQUEST_TEMPLATE.md'', ''pull_request_template.md'',
     ''docs/pull_request_template.md'']"

definition detectPRTemplate :: "(string \<Rightarrow> string option) \<Rightarrow> string \<Rightarrow> string" where
  "detectPRTemplate readFile repoPath =
     (case List.map_filter (\<lambda>candidate. readFile (repoPath @ ''/'' @ candidate)) templateCandidates of [] \<Rightarrow> [] | data # _ \<Rightarrow> data)"

text \<open>A section is filled in if the line after its header is empty or a placeholder.\<close>

definition openSlot :: "string list \<Rightarrow> bool" where
  "openSlot rest = (case rest of [] \<Rightarrow> False | next # _ \<Rightarrow> trimSpace next = [] \<or> prefix ''<!--'' (trimSpace next))"

definition fillFor :: "string \<Rightarrow> int \<Rightarrow> string \<Rightarrow> string \<Rightarrow> string list \<Rightarrow> string list" where
  "fillFor description checkpointCount sourceURL line rest =
     (let trimmed = trimSpace (toLower line) in
      if containsText trimmed ''summary'' \<or> containsText trimmed ''what changed'' \<or> containsText trimmed ''description''
      then (if openSlot rest then [[], description] else [])
      else if containsText trimmed ''test'' \<or> containsText trimmed ''how to test''
      then (if openSlot rest
            then [[], ''- [ ] Verify implementation matches specification'', ''- [ ] '' @ format_int checkpointCount @ '' checkpoint(s) reviewed'']
            else [])
      else if containsText trimmed ''related'' \<or> containsText trimmed ''ticket'' \<or> containsText trimmed ''issue''
      then (if sourceURL \<noteq> [] \<and> openSlot rest then [[], sourceURL] else [])
      else [])"

fun fillLines :: "string \<Rightarrow> int \<Rightarrow> string \<Rightarrow> string list \<Rightarrow> string list" where
  "fillLines description checkpointCount sourceURL [] = []"
| "fillLines description checkpointCount sourceURL (line # rest) =
     line # fillFor description checkpointCount sourceURL line rest @ fillLines description checkpointCount sourceURL rest"

definition fillPRTemplate :: "string \<Rightarrow> string \<Rightarrow> int \<Rightarrow> string \<Rightarrow> string" where
  "fillPRTemplate template description checkpointCount sourceURL =
     joinWith nl (fillLines description checkpointCount sourceURL (splitChar (CHR 0x0A) template))"

text \<open>Whether the lines after a header have content, and whether the first header with the keyword has some.\<close>

fun hasContent :: "string list \<Rightarrow> bool" where
  "hasContent [] = False"
| "hasContent (line # rest) =
     (let t = trimSpace line in
      if prefix ''#'' t then False else if t = [] \<or> prefix ''<!--'' t then hasContent rest else True)"

definition isHeader :: "string \<Rightarrow> string \<Rightarrow> bool" where
  "isHeader keyword line \<longleftrightarrow> (let trimmed = trimSpace (toLower line) in prefix ''#'' trimmed \<and> containsText trimmed keyword)"

fun sectionFilled :: "string \<Rightarrow> string list \<Rightarrow> bool" where
  "sectionFilled keyword [] = False"
| "sectionFilled keyword (line # rest) = (if isHeader keyword line then hasContent rest else sectionFilled keyword rest)"

definition validatePRSections :: "string \<Rightarrow> string list \<Rightarrow> string list" where
  "validatePRSections body requiredSections =
     filter (\<lambda>section. \<not> sectionFilled (toLower section) (splitChar (CHR 0x0A) body)) requiredSections"

section \<open>Description\<close>

record PRSection =
  scTitle :: string
  scContent :: string

record prContext =
  pcSpecContent :: string
  pcReviewSummary :: string
  pcDecisions :: string

definition changeIcon :: "string \<Rightarrow> string" where
  "changeIcon status = (if status = ''added'' then ''+'' else if status = ''deleted'' then ''-''
     else if status = ''modified'' then ''~'' else if status = ''renamed'' then ''>'' else ''?'')"

definition maxSpecLen :: nat where "maxSpecLen = 2000"

definition specSection :: "string \<Rightarrow> string" where
  "specSection specContent =
     (if specContent = [] then nl @ ''## Implementation'' @ nl @ nl @ ''Implemented according to kvelmo specifications.'' @ nl
      else let truncated = (if maxSpecLen < length specContent
                            then take maxSpecLen specContent @ nl @ nl @ [CHR 0xE2, CHR 0x80, CHR 0xA6] @ ''(truncated)'' else specContent)
           in nl @ ''## Specification'' @ nl @ nl @ ''<details>'' @ nl @ ''<summary>Implementation specification</summary>'' @ nl @ nl @
              replaceAll ''</details>'' ''&lt;/details&gt;'' truncated @ nl @ nl @ ''</details>'' @ nl)"

definition buildPRDescription :: "string \<Rightarrow> int \<Rightarrow> int \<Rightarrow> string \<Rightarrow> FileStatus list \<Rightarrow> PRSection list \<Rightarrow> prContext \<Rightarrow> string" where
  "buildPRDescription description specCount checkpointCount diffStat fileStatuses customSections ctx =
     ''## Summary'' @ nl @ nl @ description @ nl @
     (if fileStatuses \<noteq> []
      then nl @ ''## Changes'' @ nl @ nl @
           concat (map (\<lambda>fs. ''- '' @ [CHR 0x60] @ changeIcon (fsStatus fs) @ [CHR 0x60] @ '' '' @ fsPath fs @ nl) fileStatuses) else []) @
     (if diffStat \<noteq> []
      then nl @ ''<details>'' @ nl @ ''<summary>Diff stats</summary>'' @ nl @ nl @ replicate 3 (CHR 0x60) @ nl @ trimSpace diffStat @ nl @
           replicate 3 (CHR 0x60) @ nl @ ''</details>'' @ nl else []) @
     (if 0 < specCount then specSection (pcSpecContent ctx) else []) @
     (if pcReviewSummary ctx \<noteq> [] then nl @ ''## Review'' @ nl @ nl @ pcReviewSummary ctx @ nl else []) @
     (if 0 < checkpointCount
      then nl @ ''## Checkpoints'' @ nl @ nl @ format_int checkpointCount @ '' checkpoint(s) created during development.'' @ nl else []) @
     concat (map (\<lambda>section. nl @ ''## '' @ scTitle section @ nl @ nl @ scContent section @ nl) customSections) @
     nl @ ''---'' @ nl @ ''*Generated by [kvelmo](https://github.com/valksor/kvelmo)*''"

text \<open>The part about decisions, formatted, is a field of the context; it is empty if there are none.\<close>

definition buildPRDescriptionWithDecisions :: "string \<Rightarrow> int \<Rightarrow> int \<Rightarrow> string \<Rightarrow> FileStatus list \<Rightarrow> PRSection list \<Rightarrow> prContext \<Rightarrow> string" where
  "buildPRDescriptionWithDecisions description specCount checkpointCount diffStat fileStatuses customSections ctx =
     (let base = buildPRDescription description specCount checkpointCount diffStat fileStatuses customSections ctx
      in if pcDecisions ctx = [] then base else base @ nl @ pcDecisions ctx)"

text \<open>\<open>review\<close> is the status of the latest review, if there is one.\<close>

definition buildReviewSummary :: "string option \<Rightarrow> string list \<Rightarrow> bool option \<Rightarrow> string" where
  "buildReviewSummary review checklistChecked qualityGatePassed =
     joinWith nl
       ((case qualityGatePassed of None \<Rightarrow> [] | Some passed \<Rightarrow> [if passed then ''Quality gate: passed'' else ''Quality gate: failed'']) @
        (if checklistChecked \<noteq> [] then [''Checklist: '' @ decimal (length checklistChecked) @ '' item(s) checked''] else []) @
        (case review of None \<Rightarrow> [] | Some status \<Rightarrow> [''Review status: '' @ (if status = [] then ''pending'' else status)]))"

section \<open>Changelog\<close>

record ChangelogEntry =
  ceTitle :: string
  ceTaskID :: string
  cePRURL :: string
  ceCategory :: string

definition Categorize :: "string \<Rightarrow> string" where
  "Categorize title =
     (let lower = toLower title in
      if prefix ''fix'' lower \<or> containsText lower ''bug'' then ''Fixed''
      else if prefix ''remove'' lower \<or> prefix ''delete'' lower then ''Removed''
      else if prefix ''change'' lower \<or> prefix ''update'' lower \<or> prefix ''refactor'' lower then ''Changed''
      else ''Added'')"

definition entryCategory :: "ChangelogEntry \<Rightarrow> string" where
  "entryCategory entry = (if ceCategory entry = [] then Categorize (ceTitle entry) else ceCategory entry)"

definition entryLine :: "ChangelogEntry \<Rightarrow> string" where
  "entryLine entry = ''- '' @ ceTitle entry @
     (if ceTaskID entry \<noteq> [] then '' ('' @ ceTaskID entry @ '')'' else []) @
     (if cePRURL entry \<noteq> [] then '' [PR]('' @ cePRURL entry @ '')'' else [])"

definition newChangelog :: "string \<Rightarrow> string \<Rightarrow> string" where
  "newChangelog category line =
     ''# Changelog'' @ nl @ nl @ ''All notable changes to this project will be documented in this file.'' @ nl @ nl @
     ''The format is based on [Keep a Changelog](https://keepachangelog.com/).'' @ nl @ nl @ ''## [Unreleased]'' @ nl @ nl @
     ''### '' @ category @ nl @ nl @ line @ nl"

text \<open>The end of the line that begins at a position: the next newline, or the position itself if there is none.\<close>

definition lineEnd :: "string \<Rightarrow> nat \<Rightarrow> nat" where
  "lineEnd content pos = (case indexOf nl (drop pos content) of None \<Rightarrow> pos | Some k \<Rightarrow> pos + k)"

definition insertAt :: "nat \<Rightarrow> string \<Rightarrow> string \<Rightarrow> string" where
  "insertAt pos text content = take pos content @ text @ drop pos content"

definition changelogContent :: "string option \<Rightarrow> ChangelogEntry \<Rightarrow> string" where
  "changelogContent existing entry =
     (let category = entryCategory entry; line = entryLine entry in
      case existing of
        None \<Rightarrow> newChangelog category line
      | Some content \<Rightarrow>
          (case indexOf ''## [Unreleased]'' content of
             None \<Rightarrow>
               insertAt (case indexOf (nl @ ''## '') content of None \<Rightarrow> length content | Some k \<Rightarrow> k)
                 (nl @ ''## [Unreleased]'' @ nl @ nl @ ''### '' @ category @ nl @ nl @ line @ nl) content
           | Some unreleasedIdx \<Rightarrow>
               (case indexOf (''### '' @ category) (drop unreleasedIdx content) of
                  Some catIdx \<Rightarrow>
                    insertAt (lineEnd content (unreleasedIdx + catIdx + length (''### '' @ category))) (nl @ line) content
                | None \<Rightarrow>
                    insertAt (lineEnd content (unreleasedIdx + length ''## [Unreleased]''))
                      (nl @ nl @ ''### '' @ category @ nl @ nl @ line) content)))"

text \<open>A write that fails has an error and leaves a file behind.\<close>

definition AppendEntry :: "(string \<times> string option) option \<Rightarrow> ChangelogEntry \<Rightarrow> string option \<Rightarrow> string option \<times> string option" where
  "AppendEntry fault entry existing =
     (case fault of None \<Rightarrow> (None, Some (changelogContent existing entry)) | Some (err, left) \<Rightarrow> (Some err, left))"

section \<open>Lemmas\<close>

definition blank :: "string \<Rightarrow> bool" where
  "blank line \<longleftrightarrow> trimSpace line = [] \<or> prefix ''<!--'' (trimSpace line)"

definition realContent :: "string \<Rightarrow> bool" where
  "realContent line \<longleftrightarrow> \<not> prefix ''#'' (trimSpace line) \<and> \<not> blank line"

text \<open>The first element after a stretch that satisfies a predicate.\<close>

lemma first_after_Cons:
  "(\<exists>mid x post. l # ls = mid @ x # post \<and> list_all P mid \<and> Q x post) \<longleftrightarrow>
   Q l ls \<or> (P l \<and> (\<exists>mid x post. ls = mid @ x # post \<and> list_all P mid \<and> Q x post))"
proof
  assume "\<exists>mid x post. l # ls = mid @ x # post \<and> list_all P mid \<and> Q x post"
  then obtain mid x post where "l # ls = mid @ x # post" "list_all P mid" "Q x post" by blast
  then show "Q l ls \<or> (P l \<and> (\<exists>mid x post. ls = mid @ x # post \<and> list_all P mid \<and> Q x post))"
    by (cases mid) auto
next
  assume "Q l ls \<or> (P l \<and> (\<exists>mid x post. ls = mid @ x # post \<and> list_all P mid \<and> Q x post))"
  then show "\<exists>mid x post. l # ls = mid @ x # post \<and> list_all P mid \<and> Q x post"
  proof
    assume "Q l ls"
    then have "l # ls = [] @ l # ls \<and> list_all P [] \<and> Q l ls" by simp
    then show ?thesis by blast
  next
    assume "P l \<and> (\<exists>mid x post. ls = mid @ x # post \<and> list_all P mid \<and> Q x post)"
    then obtain mid x post where "l # ls = (l # mid) @ x # post \<and> list_all P (l # mid) \<and> Q x post" by auto
    then show ?thesis by blast
  qed
qed

lemma hasContent_iff:
  "hasContent lines \<longleftrightarrow> (\<exists>mid line post. lines = mid @ line # post \<and> list_all blank mid \<and> realContent line)"
proof (induction lines)
  case (Cons l lines)
  have "\<not> prefix ''#'' (trimSpace l)" if "blank l" using that by (auto simp: blank_def prefix_def)
  then have "hasContent (l # lines) \<longleftrightarrow> realContent l \<or> (blank l \<and> hasContent lines)"
    by (auto simp: realContent_def blank_def Let_def)
  then show ?case unfolding first_after_Cons [where Q = "\<lambda>x post. realContent x"] Cons .
qed simp

lemma sectionFilled_iff:
  "sectionFilled keyword lines \<longleftrightarrow>
   (\<exists>pre header post. lines = pre @ header # post \<and> list_all (\<lambda>l. \<not> isHeader keyword l) pre \<and> isHeader keyword header \<and> hasContent post)"
proof (induction lines)
  case (Cons l lines)
  then show ?case
    unfolding first_after_Cons [where Q = "\<lambda>x post. isHeader keyword x \<and> hasContent post"] by simp
qed simp

lemma sectionFilled_full:
  "sectionFilled keyword lines \<longleftrightarrow>
   (\<exists>pre header mid line post. lines = pre @ header # mid @ line # post \<and> list_all (\<lambda>l. \<not> isHeader keyword l) pre \<and>
      isHeader keyword header \<and> list_all blank mid \<and> realContent line)"
proof
  assume "sectionFilled keyword lines"
  then obtain pre header rest where *: "lines = pre @ header # rest" "list_all (\<lambda>l. \<not> isHeader keyword l) pre" "isHeader keyword header"
    "hasContent rest" unfolding sectionFilled_iff by blast
  from *(4) obtain mid line post where "rest = mid @ line # post" "list_all blank mid" "realContent line" unfolding hasContent_iff by blast
  with *(1,2,3) show "\<exists>pre header mid line post. lines = pre @ header # mid @ line # post \<and> list_all (\<lambda>l. \<not> isHeader keyword l) pre \<and>
      isHeader keyword header \<and> list_all blank mid \<and> realContent line" by blast
next
  assume "\<exists>pre header mid line post. lines = pre @ header # mid @ line # post \<and> list_all (\<lambda>l. \<not> isHeader keyword l) pre \<and>
      isHeader keyword header \<and> list_all blank mid \<and> realContent line"
  then obtain pre header mid line post where *: "lines = pre @ header # mid @ line # post" "list_all (\<lambda>l. \<not> isHeader keyword l) pre"
    "isHeader keyword header" "list_all blank mid" "realContent line" by blast
  then have "hasContent (mid @ line # post)" unfolding hasContent_iff by blast
  with *(1,2,3) show "sectionFilled keyword lines" unfolding sectionFilled_iff by blast
qed

lemma hasContent_append: "hasContent xs \<Longrightarrow> hasContent (xs @ ys)"
  by (induction xs) (auto simp: Let_def split: if_splits)

lemma validate_empty:
  "validatePRSections body req = [] \<longleftrightarrow> (\<forall>section \<in> set req. sectionFilled (toLower section) (splitChar (CHR 0x0A) body))"
  by (auto simp: validatePRSections_def filter_empty_conv)

lemma body_begins:
  "\<exists>tail. buildPRDescriptionWithDecisions description specs checkpoints stat files custom ctx =
     ''## Summary'' @ nl @ nl @ description @ nl @ tail"
proof -
  have "\<exists>tail. buildPRDescription description specs checkpoints stat files custom ctx = ''## Summary'' @ nl @ nl @ description @ nl @ tail"
    unfolding buildPRDescription_def by (rule exI, rule refl)
  then obtain tail where "buildPRDescription description specs checkpoints stat files custom ctx = ''## Summary'' @ nl @ nl @ description @ nl @ tail"
    by blast
  then have "buildPRDescriptionWithDecisions description specs checkpoints stat files custom ctx =
      ''## Summary'' @ nl @ nl @ description @ nl @ tail @ (if pcDecisions ctx = [] then [] else nl @ pcDecisions ctx)"
    by (simp add: buildPRDescriptionWithDecisions_def Let_def)
  then show ?thesis by blast
qed

section \<open>Properties\<close>

text \<open>
  The body of a pull request is accepted exactly if, for every required section, the first header that mentions it is
  followed, before the next header, by a line that is neither empty nor a placeholder.
\<close>

theorem required_sections_are_filled:
  "validatePRSections body required = [] \<longleftrightarrow>
   (\<forall>section \<in> set required. \<exists>pre header mid line post. splitChar (CHR 0x0A) body = pre @ header # mid @ line # post \<and>
      list_all (\<lambda>l. \<not> isHeader (toLower section) l) pre \<and> isHeader (toLower section) header \<and> list_all blank mid \<and> realContent line)"
  by (simp only: validate_empty sectionFilled_full)

theorem required_sections_are_filled_witness:
  "\<exists>pre header mid line post. splitChar (CHR 0x0A) (''# Tests'' @ nl @ nl @ ''ran them'') = pre @ header # mid @ line # post \<and>
      list_all (\<lambda>l. \<not> isHeader (toLower ''Tests'') l) pre \<and> isHeader (toLower ''Tests'') header \<and> list_all blank mid \<and> realContent line"
proof -
  have "validatePRSections (''# Tests'' @ nl @ nl @ ''ran them'') [''Tests''] = []" by code_simp
  then show ?thesis unfolding required_sections_are_filled by simp
qed

text \<open>
  The generated description has a summary: if the description of the task has content before any header, the
  section is accepted whatever the other parts are.
\<close>

theorem generated_body_has_summary:
  assumes "hasContent (splitChar (CHR 0x0A) description)"
  shows "validatePRSections (buildPRDescriptionWithDecisions description specs checkpoints stat files custom ctx) [''Summary''] = []"
proof -
  obtain tail where body: "buildPRDescriptionWithDecisions description specs checkpoints stat files custom ctx =
      ''## Summary'' @ nl @ nl @ description @ nl @ tail"
    using body_begins by blast
  have "splitChar (CHR 0x0A) (''## Summary'' @ CHR 0x0A # [] @ CHR 0x0A # description @ CHR 0x0A # tail) =
      [''## Summary''] @ [[]] @ splitChar (CHR 0x0A) description @ splitChar (CHR 0x0A) tail"
    unfolding splitChar_append by (simp add: splitChar_single)
  moreover have "isHeader ''summary'' ''## Summary''" by code_simp
  moreover have "toLower ''Summary'' = ''summary''" by code_simp
  moreover have "hasContent ([] # splitChar (CHR 0x0A) description @ splitChar (CHR 0x0A) tail)"
    using hasContent_append [OF assms] by (simp add: trimSpace_def)
  ultimately show ?thesis unfolding validate_empty body by simp
qed

theorem generated_body_has_summary_witness:
  "validatePRSections (buildPRDescriptionWithDecisions ''fix the bug'' 0 2 [] [] [] \<lparr>pcSpecContent = [], pcReviewSummary = [], pcDecisions = []\<rparr>)
     [''Summary''] = []"
proof -
  have "hasContent (splitChar (CHR 0x0A) ''fix the bug'')" by code_simp
  then show ?thesis by (rule generated_body_has_summary)
qed

lemma insertAt_parts: "\<exists>a b. old = a @ b \<and> insertAt n new old = a @ new @ b"
  unfolding insertAt_def by (metis append_take_drop_id)

lemma contains_middle: "containsText (a @ line @ b) line"
  by (auto simp: containsText_def)

lemma contains_last: "containsText (a @ line) line"
  using contains_middle [of a line "[]"] by simp

text \<open>
  An entry of the changelog is only inserted: the old text is kept around it, and the inserted text contains the line
  of the entry.
\<close>

theorem changelog_only_inserts:
  "\<exists>a b new. old = a @ b \<and> changelogContent (Some old) entry = a @ new @ b \<and> containsText new (entryLine entry)"
proof -
  have "\<exists>n new. changelogContent (Some old) entry = insertAt n new old \<and> containsText new (entryLine entry)"
  proof (cases "indexOf ''## [Unreleased]'' old")
    case None
    have "containsText ((nl @ ''## [Unreleased]'' @ nl @ nl @ ''### '' @ entryCategory entry @ nl @ nl) @ entryLine entry @ nl) (entryLine entry)"
      by (rule contains_middle)
    with None show ?thesis unfolding changelogContent_def Let_def append_assoc by (simp only: option.case) blast
  next
    case (Some u)
    have "containsText ((nl @ nl @ ''### '' @ entryCategory entry @ nl @ nl) @ entryLine entry) (entryLine entry)" "containsText (nl @ entryLine entry) (entryLine entry)"
      by (rule contains_last)+
    with Some show ?thesis unfolding changelogContent_def Let_def append_assoc
      by (cases "indexOf (''### '' @ entryCategory entry) (drop u old)") (simp only: option.case; blast)+
  qed
  then obtain n new where "changelogContent (Some old) entry = insertAt n new old" "containsText new (entryLine entry)" by blast
  with insertAt_parts [of old n new] show ?thesis by metis
qed

text \<open>
  The section of the changelog is not respected: if the category occurs anywhere after the header of the unreleased
  changes, the entry goes below its first occurrence, even if that belongs to a release that is already out.
\<close>

theorem entry_goes_below_first_category:
  assumes "indexOf ''## [Unreleased]'' old = Some u" "indexOf (''### '' @ entryCategory entry) (drop u old) = Some k"
  shows "\<exists>n \<ge> u + k + length (''### '' @ entryCategory entry). changelogContent (Some old) entry = take n old @ nl @ entryLine entry @ drop n old"
proof -
  have "pos \<le> lineEnd old pos" for pos by (simp add: lineEnd_def split: option.split)
  then show ?thesis using assms by (auto simp: changelogContent_def Let_def insertAt_def)
qed

theorem entry_goes_below_first_category_witness:
  "changelogContent (Some (''## [Unreleased]'' @ nl @ nl @ ''## [1.0.0]'' @ nl @ ''### Fixed'' @ nl @ ''- old'' @ nl))
     \<lparr>ceTitle = ''fix it'', ceTaskID = [], cePRURL = [], ceCategory = []\<rparr> =
   ''## [Unreleased]'' @ nl @ nl @ ''## [1.0.0]'' @ nl @ ''### Fixed'' @ nl @ ''- fix it'' @ nl @ ''- old'' @ nl"
proof -
  let ?old = "''## [Unreleased]'' @ nl @ nl @ ''## [1.0.0]'' @ nl @ ''### Fixed'' @ nl @ ''- old'' @ nl"
  let ?e = "\<lparr>ceTitle = ''fix it'', ceTaskID = [], cePRURL = [], ceCategory = []\<rparr>"
  have "indexOf ''## [Unreleased]'' ?old = Some 0" "indexOf (''### '' @ entryCategory ?e) (drop 0 ?old) = Some 28" by code_simp+
  then have "\<exists>n \<ge> 0 + 28 + length (''### '' @ entryCategory ?e). changelogContent (Some ?old) ?e = take n ?old @ nl @ entryLine ?e @ drop n ?old"
    by (rule entry_goes_below_first_category)
  moreover have "changelogContent (Some ?old) ?e = ''## [Unreleased]'' @ nl @ nl @ ''## [1.0.0]'' @ nl @ ''### Fixed'' @ nl @ ''- fix it'' @ nl @ ''- old'' @ nl"
    by code_simp
  ultimately show ?thesis by blast
qed

end
