(* ===== verification/Submit_Policy.thy ===== *)
theory Submit_Policy
  imports Change_Policy Risk_Approval Phase_Policy Task_Group Pull_Request
begin

text \<open>
  The checks before a task is submitted: the first phase of \<^verbatim>\<open>Submit\<close> in src/internal/conductor/conductor_submit.go, with
  conductor_submit_helpers.go and hooks.go. The outputs of git, of the hooks and of the quality gate are parameters. Other goroutines do not interfere, except
  for a quality gate that is running already.
\<close>

section \<open>Hooks\<close>

record TransitionHook =
  hkCommand :: string
  hkDescription :: string
  hkRequired :: bool

definition hookDescription :: "TransitionHook \<Rightarrow> string" where
  "hookDescription hook = (if hkDescription hook \<noteq> [] then hkDescription hook else hkCommand hook)"

text \<open>The hooks run in order until a required one fails; \<open>execute\<close> yields the error of a command.\<close>

fun runHooks :: "string \<Rightarrow> (TransitionHook \<Rightarrow> string option) \<Rightarrow> TransitionHook list \<Rightarrow> string option" where
  "runHooks kind execute [] = None"
| "runHooks kind execute (hook # hooks) =
     (case execute hook of
        None \<Rightarrow> runHooks kind execute hooks
      | Some err \<Rightarrow> if hkRequired hook then Some (''required '' @ kind @ '' '' @ quote (hookDescription hook) @ '' failed: '' @ err)
                    else runHooks kind execute hooks)"

definition RunTransitionHooks :: "(TransitionHook \<Rightarrow> string option) \<Rightarrow> (string, TransitionHook list) gomap option \<Rightarrow> string \<Rightarrow> string option" where
  "RunTransitionHooks execute hooks event =
     (case hooks of None \<Rightarrow> None
      | Some m \<Rightarrow> (case map_of m (''pre_'' @ event) of None \<Rightarrow> None | Some hs \<Rightarrow> runHooks ''hook'' execute hs))"

definition RunPostTransitionHooks :: "(TransitionHook \<Rightarrow> string option) \<Rightarrow> (string, TransitionHook list) gomap option \<Rightarrow> string \<Rightarrow> string option" where
  "RunPostTransitionHooks execute hooks event =
     (case hooks of None \<Rightarrow> None
      | Some m \<Rightarrow> (case map_of m (''post_'' @ event) of None \<Rightarrow> None | Some hs \<Rightarrow> runHooks ''post-hook'' execute hs))"

section \<open>The conductor's own checks\<close>

text \<open>The part of the history after the last submission.\<close>

definition recentHistory :: "HistoryEntry list \<Rightarrow> HistoryEntry list" where
  "recentHistory history = rev (takeWhile (\<lambda>h. heEvent h \<noteq> EventSubmit) (rev history))"

definition phaseEventMap :: "(string, Event) gomap" where
  "phaseEventMap = [(''plan'', EventPlanDone), (''implement'', EventImplementDone), (''review'', EventReviewDone),
     (''simplify'', EventSimplifyDone), (''optimize'', EventOptimizeDone)]"

definition phaseMissing :: "HistoryEntry list \<Rightarrow> string \<Rightarrow> bool" where
  "phaseMissing recent phase \<longleftrightarrow>
     (case map_of phaseEventMap phase of None \<Rightarrow> False | Some doneEvent \<Rightarrow> \<not> list_ex (\<lambda>h. heEvent h = doneEvent) recent)"

definition requiredPhasesError :: "string list \<Rightarrow> Machine \<Rightarrow> string option" where
  "requiredPhasesError requiredPhases m =
     map_option (\<lambda>phase. ''cannot submit: required phase '' @ quote phase @ '' was not completed'')
       (find (phaseMissing (recentHistory (mHistory m))) requiredPhases)"

definition matchesSensitive :: "(string \<Rightarrow> string \<Rightarrow> bool) \<Rightarrow> string \<Rightarrow> FileStatus \<Rightarrow> bool" where
  "matchesSensitive glob pattern fs \<longleftrightarrow>
     glob pattern (fsPath fs) \<or>
     (let dir = rev (dropWhile (\<lambda>c. c = CHR ''*'') (rev pattern)) in suffix ''/'' dir \<and> prefix dir (fsPath fs))"

definition sensitivePathsError :: "(string \<Rightarrow> string \<Rightarrow> bool) \<Rightarrow> string list \<Rightarrow> FileStatus list \<Rightarrow> Machine \<Rightarrow> string option" where
  "sensitivePathsError glob sensitivePaths changedFiles m =
     (if sensitivePaths = [] \<or> changedFiles = [] then None
      else if list_ex (\<lambda>h. heEvent h = EventReviewDone) (recentHistory (mHistory m)) then None
      else let matched = filter (\<lambda>pattern. list_ex (matchesSensitive glob pattern) changedFiles) sensitivePaths
           in if matched \<noteq> [] then Some (''changes to sensitive files require review: '' @ joinWith '', '' matched) else None)"

section \<open>The checks in order\<close>

text \<open>
  The settings of a submission; \<open>stApproval\<close> are the events that need an approval. The channel of the quality gate
  is nil, open while a gate is running, or closed.
\<close>

record SubmitSettings =
  stChecklist :: "string list"
  stPolicy :: PolicySettings
  stApproval :: "string \<Rightarrow> bool"
  stRiskBased :: "RiskBased option"
  stSyncSubmit :: bool
  stHooks :: "(string, TransitionHook list) gomap option"

datatype GateChannel = NilChannel | OpenChannel | ClosedChannel

record ('y, 'g) Submission =
  suC :: "('y, 'g) Conductor"
  suCh :: GateChannel

text \<open>
  The outside of a submission: the groups, git, the hooks, the result of the quality gate that the submission runs,
  and what a gate that another goroutine is running writes into the work unit before it closes the channel: its
  result and error, or nothing if it is the failed gate of another submission.
\<close>

record SubmitEnv =
  seGlob :: "string \<Rightarrow> string \<Rightarrow> bool"
  seFmt :: "rat \<Rightarrow> string"
  seGroups :: "Coordinator option"
  seDiffStat :: "DiffStat option"
  seExecute :: "TransitionHook \<Rightarrow> string option"
  seDiff :: "string result"
  seGate :: "string option"
  seOther :: "(bool \<times> string) option"

definition unitOf :: "('y, 'g) Submission \<Rightarrow> WorkUnit" where
  "unitOf s = (case cWorkUnit (suC s) of Some wu \<Rightarrow> wu | None \<Rightarrow> zeroWorkUnit)"

definition approvalPolicyOf :: "SubmitSettings \<Rightarrow> ApprovalPolicy" where
  "approvalPolicyOf st = \<lparr>apRequired = stApproval st, apRiskBased = stRiskBased st, apSensitive = psSensitivePaths (stPolicy st)\<rparr>"

definition changedFilesOf :: "SubmitEnv \<Rightarrow> ('y, 'g) Submission \<Rightarrow> FileStatus list" where
  "changedFilesOf env s =
     (if cGit (suC s) = None then [] else (case DiffFilesWithStatus (seDiff env) of Inl _ \<Rightarrow> [] | Inr files \<Rightarrow> files))"

text \<open>
  A check yields its error, if any, and the state; \<open>None\<close> if it does not return. The first error ends the
  submission.
\<close>

type_synonym ('y, 'g) check = "('y, 'g) Submission \<Rightarrow> (string option \<times> ('y, 'g) Submission) option"

fun runChecks :: "('y, 'g) check list \<Rightarrow> ('y, 'g) check" where
  "runChecks [] s = Some (None, s)"
| "runChecks (f # fs) s = (case f s of Some (None, s') \<Rightarrow> runChecks fs s' | r \<Rightarrow> r)"

definition plain :: "string option \<Rightarrow> ('y, 'g) check" where
  "plain err s = Some (err, s)"

definition taskCheck :: "time \<Rightarrow> ('y, 'g) check" where
  "taskCheck now s =
     (if cWorkUnit (suC s) = None
      then Some (Some ''no task loaded'', s\<lparr>suC := emitEnrichedError now ''no task loaded'' ''submit'' (suC s)\<rparr>)
      else Some (None, s))"

definition checklistCheck :: "SubmitSettings \<Rightarrow> ('y, 'g) check" where
  "checklistCheck st s = plain (checkReviewChecklist (stChecklist st) (unitOf s)) s"

definition phasesCheck :: "SubmitSettings \<Rightarrow> ('y, 'g) check" where
  "phasesCheck st s = plain (requiredPhasesError (psRequiredPhases (stPolicy st)) (cMachine (suC s))) s"

definition groupCheck :: "SubmitEnv \<Rightarrow> SubmitSettings \<Rightarrow> ('y, 'g) check" where
  "groupCheck env st s =
     plain (case seGroups env of None \<Rightarrow> None | Some groups \<Rightarrow> CanSubmit (wuID (unitOf s)) (stSyncSubmit st) groups) s"

definition approvalCheck :: "SubmitEnv \<Rightarrow> SubmitSettings \<Rightarrow> time \<Rightarrow> ('y, 'g) check" where
  "approvalCheck env st now s =
     map_option (\<lambda>(err, c). (err, s\<lparr>suC := c\<rparr>))
       (phaseApproval (seGlob env) (seFmt env) (approvalPolicyOf st) (seDiffStat env) now EventSubmit (suC s))"

definition hookCheck :: "SubmitEnv \<Rightarrow> SubmitSettings \<Rightarrow> time \<Rightarrow> ('y, 'g) check" where
  "hookCheck env st now s =
     (case RunTransitionHooks (seExecute env) (stHooks st) (event_string EventSubmit) of
        None \<Rightarrow> Some (None, s)
      | Some err \<Rightarrow> Some (Some err, s\<lparr>suC := emitEnrichedError now err ''submit'' (suC s)\<rparr>))"

definition policyCheck :: "SubmitEnv \<Rightarrow> SubmitSettings \<Rightarrow> ('y, 'g) check" where
  "policyCheck env st s =
     plain (submitPolicy (seGlob env) (stPolicy st) (map fsPath (changedFilesOf env s)) (cMachine (suC s))) s"

definition setGatePassed :: "('y, 'g) Submission \<Rightarrow> ('y, 'g) Submission" where
  "setGatePassed s = s\<lparr>suC := updateWorkUnit (\<lambda>wu. wu\<lparr>wuQualityGatePassed := Some True\<rparr>) (suC s)\<rparr>"

text \<open>The cached result, the result of a gate that another goroutine ran, or a run of the gate.\<close>

definition gateFailed :: "string \<Rightarrow> string" where
  "gateFailed err = ''quality gate failed: '' @ err"

definition otherGate :: "SubmitEnv \<Rightarrow> WorkUnit \<Rightarrow> WorkUnit" where
  "otherGate env wu =
     (case seOther env of None \<Rightarrow> wu | Some (passed, err) \<Rightarrow> wu\<lparr>wuQualityGatePassed := Some passed, wuQualityGateError := err\<rparr>)"

definition gateCheck :: "SubmitEnv \<Rightarrow> ('y, 'g) check" where
  "gateCheck env s =
     (case wuQualityGatePassed (unitOf s) of
        Some passed \<Rightarrow> plain (if passed then None else Some (gateFailed (wuQualityGateError (unitOf s)))) s
      | None \<Rightarrow>
          if suCh s \<noteq> NilChannel
          then let s1 = (if suCh s = OpenChannel then s\<lparr>suC := updateWorkUnit (otherGate env) (suC s), suCh := ClosedChannel\<rparr> else s)
               in plain (if wuQualityGatePassed (unitOf s1) = Some True then None
                         else Some (gateFailed (wuQualityGateError (unitOf s1)))) s1
          else let s1 = s\<lparr>suCh := ClosedChannel\<rparr>
               in (case seGate env of
                     Some err \<Rightarrow> plain (Some (gateFailed err)) s1
                   | None \<Rightarrow> plain None (setGatePassed s1)))"

definition sensitiveCheck :: "SubmitEnv \<Rightarrow> SubmitSettings \<Rightarrow> ('y, 'g) check" where
  "sensitiveCheck env st s =
     plain (if cGit (suC s) = None then None
            else sensitivePathsError (seGlob env) (psSensitivePaths (stPolicy st)) (changedFilesOf env s) (cMachine (suC s))) s"

definition scanCheck :: "SubmitSettings \<Rightarrow> ('y, 'g) check" where
  "scanCheck st s =
     plain (if psRequireSecurityScan (stPolicy st) \<and> wuQualityGatePassed (unitOf s) = None
            then Some ''security scan required before submission'' else None) s"

definition dispatchCheck :: "('y, 'g) check" where
  "dispatchCheck s =
     plain (case CanDispatch EventSubmit (cMachine (suC s)) of (can, reason) \<Rightarrow> if can then None else Some (''cannot submit: '' @ reason)) s"

definition submitPreflight :: "SubmitEnv \<Rightarrow> SubmitSettings \<Rightarrow> time \<Rightarrow> ('y, 'g) check" where
  "submitPreflight env st now = runChecks
     [taskCheck now, checklistCheck st, phasesCheck st, groupCheck env st, approvalCheck env st now, hookCheck env st now,
      policyCheck env st, gateCheck env, sensitiveCheck env st, scanCheck st, dispatchCheck]"

section \<open>Lemmas\<close>

lemma runChecks_pass:
  "runChecks (f # fs) s = Some (None, s') \<longleftrightarrow> (\<exists>t. f s = Some (None, t) \<and> runChecks fs t = Some (None, s'))"
  by (auto split: option.splits prod.splits)

lemma runChecks_append: "runChecks (fs @ gs) s = (case runChecks fs s of Some (None, s') \<Rightarrow> runChecks gs s' | r \<Rightarrow> r)"
  by (induction fs arbitrary: s) (auto split: option.splits)

lemma plain_pass [simp]: "plain err s = Some (r, s') \<longleftrightarrow> err = r \<and> s' = s"
  by (auto simp: plain_def)

lemma updateWorkUnit_unit: "cWorkUnit (suC s) \<noteq> None \<Longrightarrow> unitOf (s\<lparr>suC := updateWorkUnit f (suC s)\<rparr>) = f (unitOf s)"
  by (auto simp: unitOf_def lifecycle_simps)

text \<open>What each check that passes tells, and what it changes.\<close>

lemma taskCheck_pass: "taskCheck now s = Some (None, s') \<longleftrightarrow> cWorkUnit (suC s) \<noteq> None \<and> s' = s"
  by (auto simp: taskCheck_def)

lemma hookCheck_pass:
  "hookCheck env st now s = Some (None, s') \<longleftrightarrow>
   RunTransitionHooks (seExecute env) (stHooks st) (event_string EventSubmit) = None \<and> s' = s"
  by (auto simp: hookCheck_def split: option.splits)

lemma approvalCheck_pass:
  assumes "approvalCheck env st now s = Some (None, s')"
  shows "cMachine (suC s') = cMachine (suC s)" "suCh s' = suCh s" "cGit (suC s') = cGit (suC s)"
    "stApproval st (event_string EventSubmit) \<longrightarrow> approved (event_string EventSubmit) (suC s)"
proof -
  from assms obtain c where c: "phaseApproval (seGlob env) (seFmt env) (approvalPolicyOf st) (seDiffStat env) now EventSubmit (suC s) = Some (None, c)"
    "s' = s\<lparr>suC := c\<rparr>"
    by (auto simp: approvalCheck_def)
  note check = checkApproval_Some [OF c(1) [unfolded phaseApproval_def]]
  have "\<not> riskApplies (approvalPolicyOf st) (event_string EventSubmit)"
    using c(1) checkApproval_None [of "seGlob env" "seFmt env" "approvalPolicyOf st" "seDiffStat env" WriteLocked now
        "event_string EventSubmit" "suC s"]
    by (simp add: phaseApproval_def)
  with check(3) show "stApproval st (event_string EventSubmit) \<longrightarrow> approved (event_string EventSubmit) (suC s)"
    by (simp add: approvalPolicyOf_def)
  show "cMachine (suC s') = cMachine (suC s)" "suCh s' = suCh s" "cGit (suC s') = cGit (suC s)" using check(1,2) c(2) by simp_all
qed

lemma gateCheck_pass:
  assumes "gateCheck env s = Some (None, s')" "cWorkUnit (suC s) \<noteq> None"
  shows "wuQualityGatePassed (unitOf s') = Some True"
  using assms
  by (auto simp: gateCheck_def setGatePassed_def updateWorkUnit_unit Let_def split: option.splits if_splits)
    (auto simp: unitOf_def lifecycle_simps split: option.splits)

lemma gateCheck_fields:
  assumes "gateCheck env s = Some (r, s')"
  shows "mHistory (cMachine (suC s')) = mHistory (cMachine (suC s))" "mState (cMachine (suC s')) = mState (cMachine (suC s))"
    "cWorkUnit (suC s') = None \<longleftrightarrow> cWorkUnit (suC s) = None" "cGit (suC s') = cGit (suC s)"
  using assms
  by (auto simp: gateCheck_def setGatePassed_def lifecycle_simps Let_def plain_def split: option.splits if_splits)

text \<open>No entry of the transition table is for \<^verbatim>\<open>EventReviewDone\<close>, so it never enters a history.\<close>

lemma rows_no_review_done: "list_all (\<lambda>(frm, ev, to). ev \<noteq> EventReviewDone) table_rows"
  by code_simp

lemma no_review_done_row: "table_target frm EventReviewDone = None"
  using table_rows_all [OF rows_no_review_done, of frm EventReviewDone] by (cases "table_target frm EventReviewDone") auto

definition noReviewDone :: "Machine \<Rightarrow> bool" where
  "noReviewDone m \<longleftrightarrow> list_all (\<lambda>h. heEvent h \<noteq> EventReviewDone) (mHistory m)"

lemma Dispatch_noReviewDone: "Dispatch now ev m = Inr (m', ns) \<Longrightarrow> noReviewDone m \<Longrightarrow> noReviewDone m'"
  by (erule Dispatch_InrE) (auto simp: noReviewDone_def applyTransition_fields no_review_done_row)

interpretation no_review: step_invariant machine_init machine_step noReviewDone
proof
  show "noReviewDone m" if "machine_init m" for m
    using that by (simp add: machine_init_def NewMachine_def noReviewDone_def)
  show "noReviewDone t" if "noReviewDone s" "machine_step s t" for s t
    using that(2,1)
  proof (cases rule: machine_step.cases)
    case (step_dispatch now ev ns)
    with that(1) show ?thesis by (blast intro: Dispatch_noReviewDone)
  next
    case (step_resume now ev ns)
    with that(1) show ?thesis
      by (auto simp: DispatchWithResume_def split: if_splits intro: Dispatch_noReviewDone) (auto simp: noReviewDone_def)
  qed (auto simp: noReviewDone_def SetPriorStableState_def ClearPriorStableState_def SetWorkUnit_def AddListener_def)
qed

lemma recent_subset: "set (recentHistory hs) \<subseteq> set hs"
  using set_takeWhileD by (fastforce simp: recentHistory_def)

lemma reachable_recent:
  "reachable machine_init machine_step m \<Longrightarrow> \<not> list_ex (\<lambda>h. heEvent h = EventReviewDone) (recentHistory (mHistory m))"
  using no_review.reachable_inv recent_subset by (fastforce simp: noReviewDone_def list_all_iff list_ex_iff)

definition policyErrors :: "(string \<Rightarrow> string \<Rightarrow> bool) \<Rightarrow> PolicySettings \<Rightarrow> string list \<Rightarrow> Machine \<Rightarrow> Violation list" where
  "policyErrors glob cfg paths m = filter (\<lambda>v. vlSeverity v = SeverityError)
     (EvaluatePolicy glob cfg ''submit'' (state_string (mState m)) (case mWorkUnit m of None \<Rightarrow> [] | Some wu \<Rightarrow> wuSpecifications wu) paths)"

lemma blocking_iff: "HasBlockingViolation vs \<longleftrightarrow> filter (\<lambda>v. vlSeverity v = SeverityError) vs \<noteq> []"
  by (auto simp: HasBlockingViolation_def list_ex_iff filter_empty_conv)

lemma no_rule_no_error:
  "psRequiredPhases cfg = [] \<Longrightarrow> psSensitivePaths cfg = [] \<Longrightarrow> psDocRequirements cfg = [] \<Longrightarrow> policyErrors glob cfg paths m = []"
  by (simp add: policyErrors_def EvaluatePolicy_def checkRequiredPhases_def checkSensitivePaths_def checkDocRequirements_def)

lemma submitPolicy_errors:
  "submitPolicy glob cfg paths m =
     (if policyErrors glob cfg paths m = [] then None
      else Some (''policy violations block submit: '' @ joinWith ''; '' (map vlMessage (policyErrors glob cfg paths m))))"
  using no_rule_no_error [of cfg glob paths m]
  unfolding submitPolicy_def Let_def blocking_iff policyErrors_def [symmetric] by auto

lemma scan_never_blocks:
  "submitPolicy glob (cfg\<lparr>psRequireSecurityScan := b\<rparr>) paths m = submitPolicy glob cfg paths m"
proof -
  have "policyErrors glob (cfg\<lparr>psRequireSecurityScan := b\<rparr>) paths m = policyErrors glob cfg paths m"
    by (simp add: policyErrors_def EvaluatePolicy_def)
  then show ?thesis by (simp add: submitPolicy_errors)
qed

text \<open>What a submission that passes its checks has met.\<close>

lemma preflight_conditions:
  assumes "submitPreflight env st now s = Some (None, s')"
  shows "\<exists>wu. cWorkUnit (suC s) = Some wu \<and> set (stChecklist st) \<subseteq> set (wuChecklistChecked wu) \<and>
    (\<forall>phase \<in> set (psRequiredPhases (stPolicy st)). \<not> phaseMissing (recentHistory (mHistory (cMachine (suC s)))) phase) \<and>
    (\<forall>groups. seGroups env = Some groups \<longrightarrow> CanSubmit (wuID wu) (stSyncSubmit st) groups = None) \<and>
    (stApproval st (event_string EventSubmit) \<longrightarrow> approved (event_string EventSubmit) (suC s)) \<and>
    RunTransitionHooks (seExecute env) (stHooks st) (event_string EventSubmit) = None \<and>
    submitPolicy (seGlob env) (stPolicy st) (map fsPath (changedFilesOf env s)) (cMachine (suC s)) = None \<and>
    wuQualityGatePassed (unitOf s') = Some True \<and>
    sensitivePathsError (seGlob env) (psSensitivePaths (stPolicy st)) (changedFilesOf env s) (cMachine (suC s)) = None \<and>
    mState (cMachine (suC s')) = StateReviewing \<and> fst (CanDispatch EventSubmit (cMachine (suC s'))) \<and>
    mHistory (cMachine (suC s')) = mHistory (cMachine (suC s))"
proof -
  from assms obtain t u where t: "approvalCheck env st now s = Some (None, t)" and u: "gateCheck env t = Some (None, u)"
    and head: "cWorkUnit (suC s) \<noteq> None" "checkReviewChecklist (stChecklist st) (unitOf s) = None"
      "requiredPhasesError (psRequiredPhases (stPolicy st)) (cMachine (suC s)) = None"
      "(case seGroups env of None \<Rightarrow> None | Some groups \<Rightarrow> CanSubmit (wuID (unitOf s)) (stSyncSubmit st) groups) = None"
    and mid: "RunTransitionHooks (seExecute env) (stHooks st) (event_string EventSubmit) = None"
      "submitPolicy (seGlob env) (stPolicy st) (map fsPath (changedFilesOf env t)) (cMachine (suC t)) = None"
    and last: "sensitiveCheck env st u = Some (None, u)" "dispatchCheck u = Some (None, u)" "s' = u"
    unfolding submitPreflight_def runChecks_pass
    by (auto simp: taskCheck_pass hookCheck_pass checklistCheck_def phasesCheck_def groupCheck_def policyCheck_def scanCheck_def
        sensitiveCheck_def dispatchCheck_def)
  note t' = approvalCheck_pass [OF t] and u' = gateCheck_fields [OF u]
  from head(1) t'(1) have loaded: "cWorkUnit (suC t) \<noteq> None" by simp
  have files: "changedFilesOf env t = changedFilesOf env s" "changedFilesOf env u = changedFilesOf env s"
    using t'(3) u'(4) by (simp_all add: changedFilesOf_def)
  have "sensitivePathsError (seGlob env) (psSensitivePaths (stPolicy st)) (changedFilesOf env s) (cMachine (suC s)) = None"
    using last(1) files t'(1,3) u'(1,4)
    by (auto simp: sensitiveCheck_def sensitivePathsError_def changedFilesOf_def split: if_splits)
  moreover have "fst (CanDispatch EventSubmit (cMachine (suC u)))"
    using last(2) by (auto simp: dispatchCheck_def split: prod.splits if_splits)
  moreover from this have "mState (cMachine (suC u)) = StateReviewing"
    by (auto simp: CanDispatch_iff dest: table_target_single row_submit)
  ultimately show ?thesis
    using head mid t' u' last(3) gateCheck_pass [OF u loaded] files
    by (auto simp: unitOf_def checkReviewChecklist_def requiredPhasesError_def find_None_iff)
qed

definition gatedChecks :: "SubmitEnv \<Rightarrow> SubmitSettings \<Rightarrow> time \<Rightarrow> ('y, 'g) check list" where
  "gatedChecks env st now =
     [taskCheck now, checklistCheck st, phasesCheck st, groupCheck env st, approvalCheck env st now, hookCheck env st now,
      policyCheck env st, gateCheck env, sensitiveCheck env st]"

lemma submitPreflight_split: "submitPreflight env st now s = runChecks (gatedChecks env st now @ [scanCheck st, dispatchCheck]) s"
  by (simp add: submitPreflight_def gatedChecks_def)

lemma gatedChecks_gate:
  assumes "runChecks (gatedChecks env st now) s = Some (None, u)"
  shows "wuQualityGatePassed (unitOf u) = Some True"
proof -
  from assms obtain t where "approvalCheck env st now s = Some (None, t)" "gateCheck env t = Some (None, u)" "cWorkUnit (suC s) \<noteq> None"
    unfolding gatedChecks_def runChecks_pass
    by (auto simp: taskCheck_pass hookCheck_pass checklistCheck_def phasesCheck_def groupCheck_def policyCheck_def sensitiveCheck_def)
  then show ?thesis using approvalCheck_pass(1) [of env st now s t] gateCheck_pass [of env t u] by simp
qed

lemma gatedChecks_scan: "gatedChecks env (st\<lparr>stPolicy := (stPolicy st)\<lparr>psRequireSecurityScan := b\<rparr>\<rparr>) now = gatedChecks env st now"
  by (simp add: gatedChecks_def fun_eq_iff checklistCheck_def phasesCheck_def groupCheck_def approvalCheck_def approvalPolicyOf_def
      hookCheck_def policyCheck_def scan_never_blocks sensitiveCheck_def cong: option.case_cong)

section \<open>Properties\<close>

text \<open>
  C6: A submission that passes its checks meets every condition: a task is loaded, its checklist is ticked, the
  required phases have run since the last submission, its group is ready, a needed approval is recorded, the
  required hooks pass, no documentation requirement is violated, the quality gate has passed, no sensitive file
  has changed without a review, and the state machine is in the state of the review and accepts the submission.
\<close>

theorem submission_meets_every_condition:
  assumes "submitPreflight env st now s = Some (None, s')"
  shows "\<exists>wu. cWorkUnit (suC s) = Some wu \<and> set (stChecklist st) \<subseteq> set (wuChecklistChecked wu) \<and>
    (\<forall>phase \<in> set (psRequiredPhases (stPolicy st)). \<not> phaseMissing (recentHistory (mHistory (cMachine (suC s)))) phase) \<and>
    (\<forall>groups. seGroups env = Some groups \<longrightarrow> CanSubmit (wuID wu) (stSyncSubmit st) groups = None) \<and>
    (stApproval st (event_string EventSubmit) \<longrightarrow> approved (event_string EventSubmit) (suC s)) \<and>
    RunTransitionHooks (seExecute env) (stHooks st) (event_string EventSubmit) = None \<and>
    submitPolicy (seGlob env) (stPolicy st) (map fsPath (changedFilesOf env s)) (cMachine (suC s)) = None \<and>
    wuQualityGatePassed (unitOf s') = Some True \<and>
    sensitivePathsError (seGlob env) (psSensitivePaths (stPolicy st)) (changedFilesOf env s) (cMachine (suC s)) = None \<and>
    mState (cMachine (suC s')) = StateReviewing \<and> fst (CanDispatch EventSubmit (cMachine (suC s'))) \<and>
    mHistory (cMachine (suC s')) = mHistory (cMachine (suC s))"
  by (rule preflight_conditions [OF assms])

definition demo_settings :: SubmitSettings where
  "demo_settings = \<lparr>stChecklist = [], stPolicy = \<lparr>psRequiredPhases = [''implement''], psSensitivePaths = [''auth/*''], psMinSpecSections = 0,
     psRequireSecurityScan = True, psDocRequirements = []\<rparr>, stApproval = (\<lambda>_. False), stRiskBased = None, stSyncSubmit = True, stHooks = None\<rparr>"

definition demo_submit_env :: SubmitEnv where
  "demo_submit_env = \<lparr>seGlob = (=), seFmt = (\<lambda>_. ''0.00''), seGroups = None, seDiffStat = None, seExecute = (\<lambda>_. None),
     seDiff = Inr ([CHR ''M'', CHR 0x09] @ ''main.go''), seGate = None, seOther = None\<rparr>"

definition demo_review :: Machine where
  "demo_review = run_or_stay [EventStart, EventImplement, EventImplementDone, EventReview] demo_started"

lemma demo_review_reachable: "reachable machine_init machine_step demo_review"
  unfolding demo_review_def by (rule run_or_stay_reachable) (rule demo_started_reachable)

definition demo_submission :: "(TaskState, string list) Submission" where
  "demo_submission = \<lparr>suC = demo_conductor demo_review, suCh = NilChannel\<rparr>"

definition passes :: "(string option \<times> ('y, 'g) Submission) option \<Rightarrow> bool" where
  "passes r \<longleftrightarrow> (case r of Some (None, _) \<Rightarrow> True | _ \<Rightarrow> False)"

lemma passes_iff: "passes r \<longleftrightarrow> (\<exists>s. r = Some (None, s))"
  by (auto simp: passes_def split: option.splits)

theorem submission_meets_every_condition_witness:
  "\<not> phaseMissing (recentHistory (mHistory demo_review)) ''implement''"
proof -
  have "passes (submitPreflight demo_submit_env demo_settings 9 demo_submission)" by code_simp
  then obtain s' where "submitPreflight demo_submit_env demo_settings 9 demo_submission = Some (None, s')"
    by (auto simp: passes_iff)
  from submission_meets_every_condition [OF this] show ?thesis
    by (auto simp: demo_settings_def demo_submission_def demo_conductor_machine)
qed

text \<open>
  The checks of a submission that ask for a security scan have no effect: for every state, every other setting and every
  result of the quality gate they give the same result with and without the requirement. The policy only warns, and the
  later check looks at the result of the quality gate, which is always set there. The scan itself belongs to the quality
  gate, whose result is fixed here.
\<close>

theorem security_scan_has_no_effect:
  "submitPreflight env (st\<lparr>stPolicy := (stPolicy st)\<lparr>psRequireSecurityScan := b\<rparr>\<rparr>) now s = submitPreflight env st now s"
proof -
  have scan: "runChecks [scanCheck st', dispatchCheck] u = dispatchCheck u"
    if "runChecks (gatedChecks env st now) s = Some (None, u)" for st' u
    using gatedChecks_gate [OF that] by (auto simp: scanCheck_def plain_def dispatchCheck_def split: prod.splits option.splits)
  show ?thesis
    unfolding submitPreflight_split gatedChecks_scan runChecks_append
    using scan by (auto split: option.splits)
qed

text \<open>
  A policy that asks for a review cannot be met. In a state that the machine can reach, a submission never passes
  its checks if \<^verbatim>\<open>review\<close> is a required phase, or if a changed file matches a sensitive path: both look in the history
  for \<^verbatim>\<open>EventReviewDone\<close>, for which the transition table has no entry.
\<close>

theorem review_requirement_cannot_be_met:
  assumes "reachable machine_init machine_step (cMachine (suC s))"
    and "''review'' \<in> set (psRequiredPhases (stPolicy st)) \<or>
      (\<exists>pattern \<in> set (psSensitivePaths (stPolicy st)). \<exists>fs \<in> set (changedFilesOf env s). matchesSensitive (seGlob env) pattern fs)"
  shows "submitPreflight env st now s \<noteq> Some (None, s')"
proof
  assume "submitPreflight env st now s = Some (None, s')"
  from preflight_conditions [OF this]
  have phases: "\<forall>phase \<in> set (psRequiredPhases (stPolicy st)). \<not> phaseMissing (recentHistory (mHistory (cMachine (suC s)))) phase"
    and paths: "sensitivePathsError (seGlob env) (psSensitivePaths (stPolicy st)) (changedFilesOf env s) (cMachine (suC s)) = None"
    by auto
  note none = reachable_recent [OF assms(1)]
  have "phaseMissing (recentHistory (mHistory (cMachine (suC s)))) ''review''"
    using none by (simp add: phaseMissing_def phaseEventMap_def)
  with phases assms(2) obtain pattern fs where "pattern \<in> set (psSensitivePaths (stPolicy st))" "fs \<in> set (changedFilesOf env s)"
    "matchesSensitive (seGlob env) pattern fs" by auto
  moreover from this have "psSensitivePaths (stPolicy st) \<noteq> []" "changedFilesOf env s \<noteq> []" by auto
  ultimately show False
    using paths none by (auto simp: sensitivePathsError_def Let_def filter_empty_conv list_ex_iff split: if_splits)
qed

theorem review_requirement_cannot_be_met_witness:
  "\<not> passes (submitPreflight (demo_submit_env\<lparr>seDiff := Inr ([CHR ''M'', CHR 0x09] @ ''auth/login.go'')\<rparr>) demo_settings 9 demo_submission)"
proof -
  have "reachable machine_init machine_step (cMachine (suC demo_submission))"
    by (simp add: demo_submission_def demo_conductor_machine demo_review_reachable)
  moreover have "list_ex (\<lambda>pattern. list_ex (matchesSensitive (=) pattern)
      (changedFilesOf (demo_submit_env\<lparr>seDiff := Inr ([CHR ''M'', CHR 0x09] @ ''auth/login.go'')\<rparr>) demo_submission))
    (psSensitivePaths (stPolicy demo_settings))" by code_simp
  ultimately show ?thesis
    using review_requirement_cannot_be_met [of demo_submission demo_settings
        "demo_submit_env\<lparr>seDiff := Inr ([CHR ''M'', CHR 0x09] @ ''auth/login.go'')\<rparr>" 9]
    by (auto simp: passes_iff list_ex_iff demo_submit_env_def)
qed

lemma preflight_gate:
  fixes s :: "('y, 'g) Submission"
  assumes "submitPreflight env st now s = Some (None, s')"
  shows "\<exists>(t :: ('y, 'g) Submission) u. gateCheck env t = Some (None, u) \<and>
    wuQualityGatePassed (unitOf t) = wuQualityGatePassed (unitOf s) \<and> suCh t = suCh s"
proof -
  obtain t u where t: "approvalCheck env st now s = Some (None, t)" "gateCheck env t = Some (None, u)"
    using assms unfolding submitPreflight_def runChecks_pass
    by (auto simp: taskCheck_pass hookCheck_pass checklistCheck_def phasesCheck_def groupCheck_def policyCheck_def)
  have "wuQualityGatePassed (unitOf t) = wuQualityGatePassed (unitOf s)" "suCh t = suCh s"
    using approvalCheck_pass(1,2) [OF t(1)] by (simp_all add: unitOf_def)
  with t(2) show ?thesis by blast
qed

lemma preflight_runs_gate:
  assumes "submitPreflight env st now s = Some (None, s')" "wuQualityGatePassed (unitOf s) = None" "suCh s = NilChannel"
  shows "seGate env = None"
proof -
  from preflight_gate [OF assms(1)] show ?thesis
    by (elim exE conjE) (use assms(2,3) in \<open>simp add: gateCheck_def Let_def split: option.splits\<close>)
qed

text \<open>
  A quality gate that a submission ran and that failed is never run again by a later submission: the channel stays
  closed instead of nil, so every later submission takes the result of a run that is over, finds none and fails,
  whatever the gate would answer now.
\<close>

theorem failed_gate_is_not_rerun:
  assumes "cWorkUnit (suC s) \<noteq> None" "wuQualityGatePassed (unitOf s) = None" "suCh s = NilChannel" "seGate env = Some err"
    and "gateCheck env s = Some (r, s1)"
  shows "r = Some (gateFailed err)" "submitPreflight env' st now s1 \<noteq> Some (None, s2)"
proof -
  from assms have r: "r = Some (gateFailed err)" "s1 = s\<lparr>suCh := ClosedChannel\<rparr>" by (auto simp: gateCheck_def Let_def)
  show "r = Some (gateFailed err)" by (rule r(1))
  show "submitPreflight env' st now s1 \<noteq> Some (None, s2)"
  proof
    assume "submitPreflight env' st now s1 = Some (None, s2)"
    from preflight_gate [OF this] show False
      by (elim exE conjE) (use assms(2) r(2) in \<open>simp add: unitOf_def gateCheck_def Let_def\<close>)
  qed
qed

theorem failed_gate_is_not_rerun_witness:
  "\<not> passes (submitPreflight demo_submit_env demo_settings 20
       (snd (the (gateCheck (demo_submit_env\<lparr>seGate := Some ''lint''\<rparr>) demo_submission)))) \<and>
   passes (submitPreflight demo_submit_env demo_settings 20 demo_submission)"
proof -
  have "gateCheck (demo_submit_env\<lparr>seGate := Some ''lint''\<rparr>) demo_submission \<noteq> None"
    by (simp add: gateCheck_def plain_def Let_def split: option.split)
  then obtain r s1 where g: "gateCheck (demo_submit_env\<lparr>seGate := Some ''lint''\<rparr>) demo_submission = Some (r, s1)" by fastforce
  have "cWorkUnit (suC demo_submission) \<noteq> None" "wuQualityGatePassed (unitOf demo_submission) = None" "suCh demo_submission = NilChannel"
    by code_simp+
  from failed_gate_is_not_rerun(2) [OF this _ g, of "''lint''" demo_submit_env demo_settings 20]
  have "\<not> passes (submitPreflight demo_submit_env demo_settings 20 s1)" by (auto simp: passes_iff)
  moreover have "passes (submitPreflight demo_submit_env demo_settings 20 demo_submission)" by code_simp
  ultimately show ?thesis using g by simp
qed

end
