(* ===== verification/Checkpoints.thy ===== *)
theory Checkpoints
  imports Conductor_Core
begin

text \<open>
  Checkpoints (src/internal/conductor/conductor_lifecycle.go): undo, redo, jumping to a checkpoint
  and creating one.

  An operation returns its error, if any, together with the conductor it leaves behind: several of
  them fail after they have already changed the repository.
\<close>

section \<open>The two stacks as a navigable timeline\<close>

text \<open>
  What undo and redo promise, independently of how the two stacks are stored: stepping back moves
  the newest past entry to the future, stepping forth moves the nearest future entry to the past.
\<close>

locale navigable =
  fixes past :: "'s \<Rightarrow> 'a list" and future :: "'s \<Rightarrow> 'a list"
    and back1 :: "'s \<Rightarrow> 's" and forth1 :: "'s \<Rightarrow> 's"
  assumes back_past: "past s \<noteq> [] \<Longrightarrow> past (back1 s) = butlast (past s)"
    and back_future: "past s \<noteq> [] \<Longrightarrow> future (back1 s) = future s @ [last (past s)]"
    and forth_past: "future s \<noteq> [] \<Longrightarrow> past (forth1 s) = past s @ [last (future s)]"
    and forth_future: "future s \<noteq> [] \<Longrightarrow> future (forth1 s) = butlast (future s)"
begin

definition timeline :: "'s \<Rightarrow> 'a list" where
  "timeline s = past s @ rev (future s)"

lemma timeline_back: "past s \<noteq> [] \<Longrightarrow> timeline (back1 s) = timeline s"
  by (simp add: timeline_def back_past back_future)

lemma timeline_forth: "future s \<noteq> [] \<Longrightarrow> timeline (forth1 s) = timeline s"
proof -
  assume f: "future s \<noteq> []"
  then have eq: "rev (future s) = last (future s) # rev (butlast (future s))"
    by (cases "future s" rule: rev_cases) simp_all
  show ?thesis unfolding timeline_def forth_past [OF f] forth_future [OF f] eq by simp
qed

lemma forth_back:
  assumes "past s \<noteq> []"
  shows "past (forth1 (back1 s)) = past s \<and> future (forth1 (back1 s)) = future s"
  using assms by (simp add: back_past back_future forth_past forth_future)

lemma back_forth:
  assumes "future s \<noteq> []"
  shows "past (back1 (forth1 s)) = past s \<and> future (back1 (forth1 s)) = future s"
  using assms by (simp add: back_past back_future forth_past forth_future)

lemma back_many:
  "n \<le> length (past s) \<Longrightarrow>
     past ((back1 ^^ n) s) = take (length (past s) - n) (past s) \<and>
     future ((back1 ^^ n) s) = future s @ rev (drop (length (past s) - n) (past s))"
proof (induction n)
  case (Suc n)
  then have IH: "past ((back1 ^^ n) s) = take (length (past s) - n) (past s)"
      "future ((back1 ^^ n) s) = future s @ rev (drop (length (past s) - n) (past s))"
    by simp_all
  let ?k = "length (past s) - Suc n"
  have k: "length (past s) - n = Suc ?k" "?k < length (past s)" using Suc.prems by simp_all
  have ne: "past ((back1 ^^ n) s) \<noteq> []" using k by (auto simp: IH(1))
  have "drop ?k (past s) = past s ! ?k # drop (Suc ?k) (past s)"
    using k(2) by (simp add: Cons_nth_drop_Suc)
  moreover have "last (take (Suc ?k) (past s)) = past s ! ?k"
    using k(2) by (simp add: take_Suc_conv_app_nth)
  moreover have "butlast (take (Suc ?k) (past s)) = take ?k (past s)"
    using k(2) by (simp add: take_Suc_conv_app_nth)
  ultimately show ?case
    using back_past [OF ne] back_future [OF ne] unfolding IH k(1) by simp
qed simp

end

text \<open>The updates of the two stacks that \<^verbatim>\<open>Undo\<close> and \<^verbatim>\<open>Redo\<close> make.\<close>

definition undoStacks :: "WorkUnit \<Rightarrow> WorkUnit" where
  "undoStacks wu = wu\<lparr>wuCheckpoints := butlast (wuCheckpoints wu),
                      wuRedoStack := wuRedoStack wu @ [last (wuCheckpoints wu)]\<rparr>"

definition redoStacks :: "WorkUnit \<Rightarrow> WorkUnit" where
  "redoStacks wu = wu\<lparr>wuRedoStack := butlast (wuRedoStack wu),
                      wuCheckpoints := wuCheckpoints wu @ [last (wuRedoStack wu)]\<rparr>"

interpretation stacks: navigable wuCheckpoints wuRedoStack undoStacks redoStacks
  by unfold_locales (simp_all add: undoStacks_def redoStacks_def)

section \<open>Operations\<close>

definition truncateSHA :: "string \<Rightarrow> nat \<Rightarrow> string" where
  "truncateSHA sha n = (if length sha < n then sha else take n sha)"

definition resetGit ::
  "('y, 'g) Env \<Rightarrow> string \<Rightarrow> ('y, 'g) Conductor \<Rightarrow> (('y, 'g) Conductor) result" where
  "resetGit env sha c =
     (case cGit c of None \<Rightarrow> Inr c
      | Some g \<Rightarrow> (case gitReset env sha g of
                    Inl err \<Rightarrow> Inl (''git reset: '' @ err)
                  | Inr g' \<Rightarrow> Inr (c\<lparr>cGit := Some g'\<rparr>)))"

definition Undo ::
  "('y, 'g) Env \<Rightarrow> time \<Rightarrow> ('y, 'g) Conductor \<Rightarrow> string option \<times> ('y, 'g) Conductor" where
  "Undo env now c =
     (case cWorkUnit c of
        None \<Rightarrow> (Some ''no task loaded'', c)
      | Some wu \<Rightarrow>
          if length (wuCheckpoints wu) < 2
          then (Some ''no checkpoints to undo (need at least 2)'', c)
          else
            let targetCheckpoint = wuCheckpoints wu ! (length (wuCheckpoints wu) - 2) in
            (case resetGit env targetCheckpoint c of
               Inl err \<Rightarrow> (Some err, c)
             | Inr c1 \<Rightarrow>
                 (case dispatchC now EventUndo c1 of
                    Inl err \<Rightarrow> (Some (''cannot undo: '' @ err), c1)
                  | Inr c2 \<Rightarrow>
                      (None, emitMsg now ''undo_completed''
                               (''Reverted to checkpoint '' @ truncateSHA targetCheckpoint 8)
                               (persistState env now (updateWorkUnit undoStacks c2))))))"

definition Redo ::
  "('y, 'g) Env \<Rightarrow> time \<Rightarrow> ('y, 'g) Conductor \<Rightarrow> string option \<times> ('y, 'g) Conductor" where
  "Redo env now c =
     (case cWorkUnit c of
        None \<Rightarrow> (Some ''no task loaded'', c)
      | Some wu \<Rightarrow>
          if wuRedoStack wu = [] then (Some ''no checkpoints to redo'', c)
          else
            let checkpoint = last (wuRedoStack wu) in
            (case resetGit env checkpoint c of
               Inl err \<Rightarrow> (Some err, c)
             | Inr c1 \<Rightarrow>
                 (case dispatchC now EventRedo c1 of
                    Inl err \<Rightarrow> (Some (''cannot redo: '' @ err), c1)
                  | Inr c2 \<Rightarrow>
                      (None, emitMsg now ''redo_completed''
                               (''Restored to checkpoint '' @ truncateSHA checkpoint 8)
                               (persistState env now (updateWorkUnit redoStacks c2))))))"

text \<open>The first position of a checkpoint, and the restructuring of both stacks.\<close>

fun findIndex :: "string \<Rightarrow> string list \<Rightarrow> nat option" where
  "findIndex sha [] = None"
| "findIndex sha (s # ss) = (if s = sha then Some 0 else map_option Suc (findIndex sha ss))"

definition gotoStacks :: "nat \<Rightarrow> WorkUnit \<Rightarrow> WorkUnit" where
  "gotoStacks idx wu =
     wu\<lparr>wuRedoStack := foldl (\<lambda>redo v. redo @ [v]) (wuRedoStack wu) (rev (drop (idx + 1) (wuCheckpoints wu))),
        wuCheckpoints := take (idx + 1) (wuCheckpoints wu)\<rparr>"

definition GotoCheckpoint ::
  "('y, 'g) Env \<Rightarrow> time \<Rightarrow> string \<Rightarrow> ('y, 'g) Conductor \<Rightarrow> string option \<times> ('y, 'g) Conductor" where
  "GotoCheckpoint env now sha c =
     (case cWorkUnit c of
        None \<Rightarrow> (Some ''no task loaded'', c)
      | Some wu \<Rightarrow>
          (case findIndex sha (wuCheckpoints wu) of
             None \<Rightarrow> (Some (''checkpoint '' @ truncateSHA sha 8 @ '' not found''), c)
           | Some idx \<Rightarrow>
               (case resetGit env sha c of
                  Inl err \<Rightarrow> (Some err, c)
                | Inr c1 \<Rightarrow>
                    (let c2 = (if fst (CanDispatch EventUndo (cMachine c1))
                               then (case dispatchC now EventUndo c1 of Inl _ \<Rightarrow> c1 | Inr c2 \<Rightarrow> c2)
                               else c1)
                     in (None, emitMsg now ''checkpoint_goto''
                                 (''Restored to checkpoint '' @ truncateSHA sha 8)
                                 (persistState env now (updateWorkUnit (gotoStacks idx) c2)))))))"

definition formatCheckpointMessage :: "('y, 'g) Env \<Rightarrow> string \<Rightarrow> string" where
  "formatCheckpointMessage env message = commitPrefix env @ '' '' @ message"

definition recordCheckpointMeta :: "time \<Rightarrow> string \<Rightarrow> string \<Rightarrow> string \<Rightarrow> WorkUnit \<Rightarrow> WorkUnit" where
  "recordCheckpointMeta now sha message state wu =
     wu\<lparr>wuCheckpointMeta := Some (AList.update sha
          \<lparr>cpMessage = message, cpState = state, cpCreatedAt = now\<rparr>
          (case wuCheckpointMeta wu of None \<Rightarrow> [] | Some m \<Rightarrow> m))\<rparr>"

definition pushCheckpoint :: "time \<Rightarrow> string \<Rightarrow> string \<Rightarrow> string \<Rightarrow> WorkUnit \<Rightarrow> WorkUnit" where
  "pushCheckpoint now sha message state wu =
     (recordCheckpointMeta now sha message state (wu\<lparr>wuCheckpoints := wuCheckpoints wu @ [sha]\<rparr>))
       \<lparr>wuRedoStack := [], wuUpdatedAt := now\<rparr>"

definition CreateCheckpoint ::
  "('y, 'g) Env \<Rightarrow> time \<Rightarrow> string \<Rightarrow> ('y, 'g) Conductor \<Rightarrow> string result \<times> ('y, 'g) Conductor" where
  "CreateCheckpoint env now message c =
     (case cGit c of
        None \<Rightarrow> (Inl ''git not available'', c)
      | Some g \<Rightarrow>
          (case cWorkUnit c of
             None \<Rightarrow> (Inl ''no task loaded'', c)
           | Some _ \<Rightarrow>
               (case gitCommit env (formatCheckpointMessage env message) g of
                  Inl err \<Rightarrow> (Inl (''create checkpoint: '' @ err), c)
                | Inr (sha, g') \<Rightarrow>
                    (Inr sha, emitMsg now ''checkpoint_created''
                                (''Checkpoint created: '' @ truncateSHA sha 8)
                                (persistState env now
                                  (updateWorkUnit (pushCheckpoint now sha message (state_string (cState c)))
                                    (c\<lparr>cGit := Some g'\<rparr>)))))))"

section \<open>The rows for undo and redo\<close>

definition redoStates :: "State list" where
  "redoStates = [StateLoaded, StatePlanned, StateImplemented, StateSubmitted]"

definition undoStates :: "State list" where
  "undoStates = StateImplementing # redoStates"

lemma nav_rows:
  "list_all (\<lambda>(frm, ev, to). (ev = EventUndo \<longrightarrow> to = frm \<and> frm \<in> set undoStates) \<and>
     (ev = EventRedo \<longrightarrow> to = frm \<and> frm \<in> set redoStates)) table_rows"
  by code_simp

lemma nav_row:
  "table_target frm EventUndo = Some to \<Longrightarrow> to = frm \<and> frm \<in> set undoStates"
  "table_target frm EventRedo = Some to \<Longrightarrow> to = frm \<and> frm \<in> set redoStates"
  using table_rows_all [OF nav_rows] by fastforce+

lemma undo_entry:
  assumes "st \<in> set undoStates"
  shows "\<exists>t. map_of TransitionTable (st, EventUndo) = Some [t] \<and>
             (\<forall>u. EvaluateGuards u (Guards t) = guardCanUndo u)"
  using assms unfolding undoStates_def redoStates_def set_simps insert_iff empty_iff
  by (elim disjE FalseE) (simp_all add: TransitionTable_def table_section_defs)

lemma redo_entry:
  assumes "st \<in> set redoStates"
  shows "\<exists>t. map_of TransitionTable (st, EventRedo) = Some [t] \<and>
             (\<forall>u. EvaluateGuards u (Guards t) = guardCanRedo u)"
  using assms unfolding redoStates_def set_simps insert_iff empty_iff
  by (elim disjE FalseE) (simp_all add: TransitionTable_def table_section_defs)

text \<open>What a dispatch of an undo or redo event leaves of the conductor.\<close>

lemma dispatchC_target:
  assumes "dispatchC now ev c = Inr c'" and "ev \<noteq> EventError" and "ev \<noteq> EventStop"
  shows "table_target (cState c) ev = Some (cState c')" "cWorkUnit c' = touch now (cWorkUnit c)"
    "cGit c' = cGit c" "cStore c' = cStore c" "cVarPool c' = cVarPool c"
proof -
  from assms(1) obtain m ns where d: "Dispatch now ev (cMachine c) = Inr (m, ns)"
      and c': "c' = c\<lparr>cMachine := m, cPending := cPending c @ ns\<rparr>"
    by (auto simp: dispatchC_Inr_iff)
  from d obtain t where t: "table_target (cState c) ev = Some (To t)"
      "m = fst (applyTransition now ev t (cMachine c))"
    by (rule Dispatch_InrE)
  with assms(2,3)
  show "table_target (cState c) ev = Some (cState c')" "cWorkUnit c' = touch now (cWorkUnit c)"
    "cGit c' = cGit c" "cStore c' = cStore c" "cVarPool c' = cVarPool c"
    by (simp_all add: c' applyTransition_fields rollsBack_def)
qed

lemma dispatchC_accepted:
  assumes "map_of TransitionTable (cState c, ev) = Some [t]" and "EvaluateGuards (cWorkUnit c) (Guards t)"
  shows "\<exists>c'. dispatchC now ev c = Inr c'"
proof -
  obtain m ns where "applyTransition now ev t (cMachine c) = (m, ns)" by fastforce
  with assms have "Dispatch now ev (cMachine c) = Inr (m, ns)" by (simp add: Dispatch_Inr_iff)
  then show ?thesis by (simp add: dispatchC_def)
qed

lemma dispatchC_redo_ok:
  assumes "cState c \<in> set redoStates" and "cWorkUnit c = Some wu" and "wuRedoStack wu \<noteq> []"
  shows "\<exists>c'. dispatchC now EventRedo c = Inr c'"
  using redo_entry [OF assms(1)] assms(2,3) by (auto intro: dispatchC_accepted)

lemma dispatchC_undo_ok:
  assumes "cState c \<in> set undoStates" and "cWorkUnit c = Some wu" and "wuCheckpoints wu \<noteq> []"
  shows "\<exists>c'. dispatchC now EventUndo c = Inr c'"
  using undo_entry [OF assms(1)] assms(2,3) by (auto intro: dispatchC_accepted)

section \<open>The abstract timeline\<close>

text \<open>
  The specification of navigation: a timeline of checkpoints and a cursor, the number of
  checkpoints at or before the current one. Undo and redo move the cursor by one, a jump moves it
  to the first occurrence of its target, and a new checkpoint cuts the timeline at the cursor.
\<close>

type_synonym cursor = "string list \<times> nat"

datatype NavOp = NavUndo | NavRedo | NavGoto string | NavCreate string

inductive cursor_step :: "NavOp \<Rightarrow> cursor \<Rightarrow> cursor \<Rightarrow> bool" where
  cursor_back: "2 \<le> n \<Longrightarrow> cursor_step NavUndo (tm, n) (tm, n - 1)"
| cursor_forth: "n < length tm \<Longrightarrow> cursor_step NavRedo (tm, n) (tm, n + 1)"
| cursor_jump: "i < n \<Longrightarrow> tm ! i = sha \<Longrightarrow> sha \<notin> set (take i tm) \<Longrightarrow>
     cursor_step (NavGoto sha) (tm, n) (tm, i + 1)"
| cursor_push: "cursor_step (NavCreate msg) (tm, n) (take n tm @ [sha], n + 1)"

definition unit_cursor :: "WorkUnit \<Rightarrow> cursor" where
  "unit_cursor wu = (wuCheckpoints wu @ rev (wuRedoStack wu), length (wuCheckpoints wu))"

primrec runNav ::
  "('y, 'g) Env \<Rightarrow> time \<Rightarrow> NavOp \<Rightarrow> ('y, 'g) Conductor \<Rightarrow> string option \<times> ('y, 'g) Conductor" where
  "runNav env now NavUndo c = Undo env now c"
| "runNav env now NavRedo c = Redo env now c"
| "runNav env now (NavGoto sha) c = GotoCheckpoint env now sha c"
| "runNav env now (NavCreate msg) c =
     (case CreateCheckpoint env now msg c of (r, c') \<Rightarrow> (case r of Inl e \<Rightarrow> Some e | Inr _ \<Rightarrow> None, c'))"

text \<open>What git documents of a hard reset and of a commit: the named commit is then the head.\<close>

definition git_laws :: "('y, 'g) Env \<Rightarrow> ('g \<Rightarrow> string) \<Rightarrow> bool" where
  "git_laws env head \<longleftrightarrow>
     (\<forall>sha g g'. gitReset env sha g = Inr g' \<longrightarrow> head g' = sha) \<and>
     (\<forall>msg g sha g'. gitCommit env msg g = Inr (sha, g') \<longrightarrow> head g' = sha)"

lemma resetGit_Inr:
  assumes "resetGit env sha c = Inr c'"
  shows "cMachine c' = cMachine c"
    and "git_laws env head \<Longrightarrow> cGit c' = Some g \<Longrightarrow> head g = sha"
  using assms by (auto simp: resetGit_def git_laws_def split: option.splits sum.splits)

lemma findIndex_Some:
  "findIndex sha ss = Some i \<Longrightarrow> i < length ss \<and> ss ! i = sha \<and> sha \<notin> set (take i ss)"
  by (induction ss arbitrary: i) (auto split: if_splits)

lemma foldl_snoc: "foldl (\<lambda>acc v. acc @ [v]) xs ys = xs @ ys"
  by (induction ys arbitrary: xs) auto

lemma gotoStacks_fields:
  "wuCheckpoints (gotoStacks i wu) = take (i + 1) (wuCheckpoints wu)"
  "wuRedoStack (gotoStacks i wu) = wuRedoStack wu @ rev (drop (i + 1) (wuCheckpoints wu))"
  by (simp_all add: gotoStacks_def foldl_snoc)

lemma gotoStacks_repeated_undo:
  assumes "i < length (wuCheckpoints wu)"
  shows "wuCheckpoints (gotoStacks i wu) = wuCheckpoints ((undoStacks ^^ (length (wuCheckpoints wu) - Suc i)) wu)"
    and "wuRedoStack (gotoStacks i wu) = wuRedoStack ((undoStacks ^^ (length (wuCheckpoints wu) - Suc i)) wu)"
  using stacks.back_many [of "length (wuCheckpoints wu) - Suc i" wu] assms
  by (simp_all add: gotoStacks_fields)

text \<open>The common end of a navigation: update the stacks, persist, announce.\<close>

lemma finishNav:
  assumes "cWorkUnit c = Some wu"
  shows "\<exists>wu'. cWorkUnit (emitMsg now t msg (persistState env now (updateWorkUnit f c))) = Some wu' \<and>
           unit_cursor wu' = unit_cursor (f wu)"
    and "cState (emitMsg now t msg (persistState env now (updateWorkUnit f c))) = cState c"
    and "cGit (emitMsg now t msg (persistState env now (updateWorkUnit f c))) = cGit c"
proof -
  let ?c = "updateWorkUnit f c"
  have u: "cWorkUnit ?c = Some (f wu)" using assms by (simp add: updateWorkUnit_fields)
  then have "map_option wuCheckpoints (cWorkUnit (persistState env now ?c)) = Some (wuCheckpoints (f wu))"
    "map_option wuRedoStack (cWorkUnit (persistState env now ?c)) = Some (wuRedoStack (f wu))"
    by (simp_all add: persistState_unit)
  then show "\<exists>wu'. cWorkUnit (emitMsg now t msg (persistState env now ?c)) = Some wu' \<and>
           unit_cursor wu' = unit_cursor (f wu)"
    by (auto simp: emitMsg_fields unit_cursor_def)
qed (simp_all add: emitMsg_fields persistState_fields updateWorkUnit_fields)

lemma unit_cursor_moves:
  "2 \<le> length (wuCheckpoints wu) \<Longrightarrow>
     cursor_step NavUndo (unit_cursor wu) (unit_cursor (undoStacks (wu\<lparr>wuUpdatedAt := t\<rparr>)))"
  "wuRedoStack wu \<noteq> [] \<Longrightarrow>
     cursor_step NavRedo (unit_cursor wu) (unit_cursor (redoStacks (wu\<lparr>wuUpdatedAt := t\<rparr>)))"
  "findIndex sha (wuCheckpoints wu) = Some i \<Longrightarrow>
     cursor_step (NavGoto sha) (unit_cursor wu) (unit_cursor (gotoStacks i wu))"
  "cursor_step (NavCreate msg) (unit_cursor wu) (unit_cursor (pushCheckpoint now sha m st wu))"
proof -
  assume len: "2 \<le> length (wuCheckpoints wu)"
  then have ne: "wuCheckpoints (wu\<lparr>wuUpdatedAt := t\<rparr>) \<noteq> []" by auto
  then show "cursor_step NavUndo (unit_cursor wu) (unit_cursor (undoStacks (wu\<lparr>wuUpdatedAt := t\<rparr>)))"
    using cursor_back [OF len, of "wuCheckpoints wu @ rev (wuRedoStack wu)"]
    by (simp add: unit_cursor_def undoStacks_def butlast_last_append)
next
  assume r: "wuRedoStack wu \<noteq> []"
  then have ne: "wuRedoStack (wu\<lparr>wuUpdatedAt := t\<rparr>) \<noteq> []" by simp
  from stacks.timeline_forth [OF ne] r
  show "cursor_step NavRedo (unit_cursor wu) (unit_cursor (redoStacks (wu\<lparr>wuUpdatedAt := t\<rparr>)))"
    using cursor_forth [of "length (wuCheckpoints wu)" "wuCheckpoints wu @ rev (wuRedoStack wu)"]
    by (simp add: unit_cursor_def stacks.timeline_def redoStacks_def)
next
  assume "findIndex sha (wuCheckpoints wu) = Some i"
  from findIndex_Some [OF this]
  show "cursor_step (NavGoto sha) (unit_cursor wu) (unit_cursor (gotoStacks i wu))"
    using cursor_jump [of i "length (wuCheckpoints wu)" "wuCheckpoints wu @ rev (wuRedoStack wu)" sha]
    by (simp add: unit_cursor_def gotoStacks_fields nth_append min_absorb2 flip: append_assoc)
next
  show "cursor_step (NavCreate msg) (unit_cursor wu) (unit_cursor (pushCheckpoint now sha m st wu))"
    using cursor_push [of msg "wuCheckpoints wu @ rev (wuRedoStack wu)" "length (wuCheckpoints wu)" sha]
    by (simp add: unit_cursor_def pushCheckpoint_def recordCheckpointMeta_def)
qed

section \<open>Properties of navigation\<close>

lemma cursor_head:
  "wuCheckpoints wu \<noteq> [] \<Longrightarrow> fst (unit_cursor wu) ! (snd (unit_cursor wu) - 1) = last (wuCheckpoints wu)"
  by (simp add: unit_cursor_def nth_append last_conv_nth)

lemma Undo_Some:
  assumes "Undo env now c = (None, c')"
  shows "\<exists>wu c1 c2. cWorkUnit c = Some wu \<and> 2 \<le> length (wuCheckpoints wu) \<and>
     resetGit env (wuCheckpoints wu ! (length (wuCheckpoints wu) - 2)) c = Inr c1 \<and>
     dispatchC now EventUndo c1 = Inr c2 \<and>
     (\<exists>msg. c' = emitMsg now ''undo_completed'' msg (persistState env now (updateWorkUnit undoStacks c2)))"
  using assms by (auto simp: Undo_def Let_def not_less split: option.splits if_splits sum.splits)

lemma Redo_Some:
  assumes "Redo env now c = (None, c')"
  shows "\<exists>wu c1 c2. cWorkUnit c = Some wu \<and> wuRedoStack wu \<noteq> [] \<and>
     resetGit env (last (wuRedoStack wu)) c = Inr c1 \<and> dispatchC now EventRedo c1 = Inr c2 \<and>
     (\<exists>msg. c' = emitMsg now ''redo_completed'' msg (persistState env now (updateWorkUnit redoStacks c2)))"
  using assms by (auto simp: Redo_def Let_def split: option.splits if_splits sum.splits)

text \<open>What the property below says of one operation.\<close>

definition nav_ok :: "('g \<Rightarrow> string) \<Rightarrow> NavOp \<Rightarrow> ('y, 'g) Conductor \<Rightarrow> ('y, 'g) Conductor \<Rightarrow> bool" where
  "nav_ok head op c c' \<longleftrightarrow>
     (\<exists>wu wu'. cWorkUnit c = Some wu \<and> cWorkUnit c' = Some wu' \<and>
        cursor_step op (unit_cursor wu) (unit_cursor wu') \<and>
        (\<forall>g. cGit c' = Some g \<longrightarrow> head g = fst (unit_cursor wu') ! (snd (unit_cursor wu') - 1))) \<and>
     cState c' = cState c"

lemma unit_cursor_head:
  assumes "unit_cursor wu' = unit_cursor wu" and "wuCheckpoints wu \<noteq> []"
  shows "fst (unit_cursor wu') ! (snd (unit_cursor wu') - 1) = last (wuCheckpoints wu)"
  using cursor_head [OF assms(2)] by (simp add: assms(1))

lemma nav_okI:
  assumes "cWorkUnit c = Some wu" and "cWorkUnit c2 = Some wu2"
    and "cursor_step op (unit_cursor wu) (unit_cursor (f wu2))"
    and "wuCheckpoints (f wu2) \<noteq> []"
    and "\<And>g. cGit c2 = Some g \<Longrightarrow> head g = last (wuCheckpoints (f wu2))"
    and "cState c2 = cState c"
  shows "nav_ok head op c (emitMsg now t msg (persistState env now (updateWorkUnit f c2)))"
proof -
  let ?c' = "emitMsg now t msg (persistState env now (updateWorkUnit f c2))"
  from finishNav(1) [OF assms(2)] obtain wu' where
    wu': "cWorkUnit ?c' = Some wu'" "unit_cursor wu' = unit_cursor (f wu2)" by blast
  with assms unit_cursor_head [OF wu'(2) assms(4)] show ?thesis
    unfolding nav_ok_def finishNav(2,3) [OF assms(2)] by auto
qed

lemma undo_nav_ok:
  assumes "git_laws env head" and "Undo env now c = (None, c')"
  shows "nav_ok head NavUndo c c'"
proof -
  from Undo_Some [OF assms(2)] obtain wu c1 c2 msg where
    wu: "cWorkUnit c = Some wu" "2 \<le> length (wuCheckpoints wu)" and
    r: "resetGit env (wuCheckpoints wu ! (length (wuCheckpoints wu) - 2)) c = Inr c1" and
    d: "dispatchC now EventUndo c1 = Inr c2" and
    c': "c' = emitMsg now ''undo_completed'' msg (persistState env now (updateWorkUnit undoStacks c2))"
    by blast
  note t = dispatchC_target [OF d, simplified]
  have ne: "wuCheckpoints (undoStacks (wu\<lparr>wuUpdatedAt := now\<rparr>)) \<noteq> []"
    and l: "last (wuCheckpoints (undoStacks (wu\<lparr>wuUpdatedAt := now\<rparr>))) =
      wuCheckpoints wu ! (length (wuCheckpoints wu) - 2)"
    using wu(2) by (auto simp: undoStacks_def last_conv_nth nth_butlast numeral_2_eq_2 simp flip: length_0_conv)
  show ?thesis
    unfolding c'
  proof (rule nav_okI [where f = undoStacks, OF wu(1) _ unit_cursor_moves(1) [OF wu(2)] ne])
    show "cWorkUnit c2 = Some (wu\<lparr>wuUpdatedAt := now\<rparr>)" using t(2) wu(1) resetGit_Inr(1) [OF r] by simp
    show "head g = last (wuCheckpoints (undoStacks (wu\<lparr>wuUpdatedAt := now\<rparr>)))" if "cGit c2 = Some g" for g
      using resetGit_Inr(2) [OF r assms(1)] that t(3) l by simp
    show "cState c2 = cState c" using nav_row(1) [OF t(1)] resetGit_Inr(1) [OF r] by simp
  qed
qed

lemma redo_nav_ok:
  assumes "git_laws env head" and "Redo env now c = (None, c')"
  shows "nav_ok head NavRedo c c'"
proof -
  from Redo_Some [OF assms(2)] obtain wu c1 c2 msg where
    wu: "cWorkUnit c = Some wu" "wuRedoStack wu \<noteq> []" and
    r: "resetGit env (last (wuRedoStack wu)) c = Inr c1" and
    d: "dispatchC now EventRedo c1 = Inr c2" and
    c': "c' = emitMsg now ''redo_completed'' msg (persistState env now (updateWorkUnit redoStacks c2))"
    by blast
  note t = dispatchC_target [OF d, simplified]
  have ne: "wuCheckpoints (redoStacks (wu\<lparr>wuUpdatedAt := now\<rparr>)) \<noteq> []"
    and l: "last (wuCheckpoints (redoStacks (wu\<lparr>wuUpdatedAt := now\<rparr>))) = last (wuRedoStack wu)"
    by (simp_all add: redoStacks_def)
  show ?thesis
    unfolding c'
  proof (rule nav_okI [where f = redoStacks, OF wu(1) _ unit_cursor_moves(2) [OF wu(2)] ne])
    show "cWorkUnit c2 = Some (wu\<lparr>wuUpdatedAt := now\<rparr>)" using t(2) wu(1) resetGit_Inr(1) [OF r] by simp
    show "head g = last (wuCheckpoints (redoStacks (wu\<lparr>wuUpdatedAt := now\<rparr>)))" if "cGit c2 = Some g" for g
      using resetGit_Inr(2) [OF r assms(1)] that t(3) l by simp
    show "cState c2 = cState c" using nav_row(2) [OF t(1)] resetGit_Inr(1) [OF r] by simp
  qed
qed

lemma goto_nav_ok:
  assumes "git_laws env head" and "GotoCheckpoint env now sha c = (None, c')"
  shows "nav_ok head (NavGoto sha) c c'"
proof -
  from assms(2) obtain wu i c1 where
    wu: "cWorkUnit c = Some wu" and i: "findIndex sha (wuCheckpoints wu) = Some i" and
    r: "resetGit env sha c = Inr c1"
    by (auto simp: GotoCheckpoint_def Let_def split: option.splits if_splits sum.splits)
  define c2 where "c2 = (if fst (CanDispatch EventUndo (cMachine c1))
                         then (case dispatchC now EventUndo c1 of Inl _ \<Rightarrow> c1 | Inr c2 \<Rightarrow> c2) else c1)"
  have c': "c' = emitMsg now ''checkpoint_goto'' (''Restored to checkpoint '' @ truncateSHA sha 8)
      (persistState env now (updateWorkUnit (gotoStacks i) c2))"
    using assms(2) by (simp add: GotoCheckpoint_def Let_def wu i r c2_def)
  have m: "cWorkUnit c1 = Some wu" "cState c1 = cState c" using resetGit_Inr(1) [OF r] wu by simp_all
  have "cGit c2 = cGit c1 \<and> cState c2 = cState c1 \<and>
      (cWorkUnit c2 = Some wu \<or> cWorkUnit c2 = Some (wu\<lparr>wuUpdatedAt := now\<rparr>))"
  proof (cases "dispatchC now EventUndo c1")
    case (Inl e)
    then show ?thesis using m(1) by (simp add: c2_def)
  next
    case (Inr c3)
    note t = dispatchC_target [OF Inr, simplified]
    from nav_row(1) [OF t(1)] t(2,3) m(1) Inr show ?thesis by (simp add: c2_def)
  qed
  then obtain wu2 where c2: "cGit c2 = cGit c1" "cState c2 = cState c1" "cWorkUnit c2 = Some wu2"
      "unit_cursor (gotoStacks i wu2) = unit_cursor (gotoStacks i wu)"
      "wuCheckpoints (gotoStacks i wu2) = wuCheckpoints (gotoStacks i wu)"
    by (auto simp: unit_cursor_def gotoStacks_fields)
  have l: "wuCheckpoints (gotoStacks i wu) \<noteq> []" "last (wuCheckpoints (gotoStacks i wu)) = sha"
    using findIndex_Some [OF i] by (auto simp: gotoStacks_fields take_Suc_conv_app_nth)
  show ?thesis
    unfolding c'
  proof (rule nav_okI [where f = "gotoStacks i", OF wu c2(3)])
    show "head g = last (wuCheckpoints (gotoStacks i wu2))" if "cGit c2 = Some g" for g
      using resetGit_Inr(2) [OF r assms(1)] that c2 l by simp
  qed (use c2 l m unit_cursor_moves(3) [OF i] in simp_all)
qed

lemma create_nav_ok:
  assumes "git_laws env head" and "CreateCheckpoint env now msg c = (Inr sha, c')"
  shows "nav_ok head (NavCreate msg) c c'"
proof -
  from assms(2) obtain g wu g' where
    wu: "cGit c = Some g" "cWorkUnit c = Some wu" and
    k: "gitCommit env (formatCheckpointMessage env msg) g = Inr (sha, g')"
    by (auto simp: CreateCheckpoint_def split: option.splits sum.splits)
  let ?f = "pushCheckpoint now sha msg (state_string (cState c))"
  have c': "c' = emitMsg now ''checkpoint_created'' (''Checkpoint created: '' @ truncateSHA sha 8)
      (persistState env now (updateWorkUnit ?f (c\<lparr>cGit := Some g'\<rparr>)))"
    using assms(2) by (simp add: CreateCheckpoint_def wu k)
  have u: "cWorkUnit (c\<lparr>cGit := Some g'\<rparr>) = Some wu" using wu(2) by simp
  have "head g' = sha" using assms(1) k by (auto simp: git_laws_def)
  then show ?thesis
    unfolding c'
    by (intro nav_okI [where f = ?f, OF wu(2) u unit_cursor_moves(4)])
      (simp_all add: pushCheckpoint_def recordCheckpointMeta_def)
qed

text \<open>
  C7: Navigation refines the timeline. Whenever undo, redo, a jump or a new checkpoint succeeds, the
  two stacks make exactly the step of the abstract timeline with a cursor, the workflow state is
  unchanged, and the repository's head is the checkpoint under the cursor, given that a hard reset
  and a commit put the head where git documents it.
\<close>

theorem navigation_refines_timeline:
  assumes "git_laws env head" and "runNav env now op c = (None, c')"
  shows "(\<exists>wu wu'. cWorkUnit c = Some wu \<and> cWorkUnit c' = Some wu' \<and>
            cursor_step op (unit_cursor wu) (unit_cursor wu') \<and>
            (\<forall>g. cGit c' = Some g \<longrightarrow> head g = fst (unit_cursor wu') ! (snd (unit_cursor wu') - 1))) \<and>
         cState c' = cState c"
proof -
  have "nav_ok head op c c'"
    using assms
    by (cases op) (auto intro: undo_nav_ok redo_nav_ok goto_nav_ok create_nav_ok split: sum.splits prod.splits)
  then show ?thesis by (simp only: nav_ok_def)
qed

definition demo_planned :: "(TaskState, string list) Conductor" where
  "demo_planned = demo_conductor (run_or_stay [EventStart] demo_started)"

lemma demo_git_laws: "git_laws demo_env last"
  by (auto simp: git_laws_def demo_env_def split: if_splits)

theorem navigation_refines_timeline_witness:
  "git_laws demo_env last \<and> (\<exists>c'. runNav demo_env 3 NavUndo demo_planned = (None, c') \<and>
     cState c' = cState demo_planned \<and> (\<exists>g. cGit c' = Some g \<and> last g = ''a1''))"
proof -
  have n: "fst (runNav demo_env 3 NavUndo demo_planned) = None"
    and g: "map_option last (cGit (snd (runNav demo_env 3 NavUndo demo_planned))) = Some ''a1''"
    by code_simp+
  obtain c' where c': "runNav demo_env 3 NavUndo demo_planned = (None, c')"
    using n by (cases "runNav demo_env 3 NavUndo demo_planned") auto
  show ?thesis
    using demo_git_laws c' navigation_refines_timeline [OF demo_git_laws c'] g by auto
qed

lemma unit_cursor_inject:
  "unit_cursor a = unit_cursor b \<longleftrightarrow> wuCheckpoints a = wuCheckpoints b \<and> wuRedoStack a = wuRedoStack b"
  by (auto simp: unit_cursor_def)

lemma Redo_succeeds:
  assumes "cState c \<in> set redoStates" and "cWorkUnit c = Some wu" and "wuRedoStack wu \<noteq> []"
    and "\<And>g. \<exists>g'. gitReset env (last (wuRedoStack wu)) g = Inr g'"
  shows "\<exists>c' wu'. Redo env now c = (None, c') \<and> cState c' = cState c \<and> cWorkUnit c' = Some wu' \<and>
           wuCheckpoints wu' = wuCheckpoints (redoStacks wu) \<and> wuRedoStack wu' = wuRedoStack (redoStacks wu)"
proof -
  obtain c1 where r: "resetGit env (last (wuRedoStack wu)) c = Inr c1"
  proof (cases "cGit c")
    case (Some g)
    with assms(4) [of g] that show ?thesis by (auto simp: resetGit_def)
  qed (use that in \<open>simp add: resetGit_def\<close>)
  note m = resetGit_Inr(1) [OF r]
  obtain c2 where d: "dispatchC now EventRedo c1 = Inr c2"
    using dispatchC_redo_ok [of c1 wu now] assms(1-3) m by auto
  note t = dispatchC_target [OF d, simplified]
  have u: "cWorkUnit c2 = Some (wu\<lparr>wuUpdatedAt := now\<rparr>)" using t(2) m assms(2) by simp
  have s: "cState c2 = cState c" using nav_row(2) [OF t(1)] m by simp
  from finishNav(1,2) [OF u, of now "''redo_completed''" "''Restored to checkpoint '' @ truncateSHA (last (wuRedoStack wu)) 8" env redoStacks]
  show ?thesis
    using assms(2,3) r d s by (auto simp: Redo_def Let_def unit_cursor_inject redoStacks_def)
qed

text \<open>
  Redo inverts undo. After a successful undo, in every state but \<^verbatim>\<open>implementing\<close>, a redo
  succeeds as well (if git can reset to the undone checkpoint) and both stacks and the workflow state
  are what they were. In \<^verbatim>\<open>implementing\<close> the table accepts the undo but has no redo.
\<close>

theorem redo_inverts_undo:
  assumes "Undo env now c = (None, c1)" and "cWorkUnit c = Some wu" and "cState c \<noteq> StateImplementing"
    and "\<And>g. \<exists>g'. gitReset env (last (wuCheckpoints wu)) g = Inr g'"
  shows "\<exists>c2 wu2. Redo env now' c1 = (None, c2) \<and> cState c2 = cState c \<and> cWorkUnit c2 = Some wu2 \<and>
           wuCheckpoints wu2 = wuCheckpoints wu \<and> wuRedoStack wu2 = wuRedoStack wu"
proof -
  from Undo_Some [OF assms(1)] assms(2) obtain c0 c2 msg where
    len: "2 \<le> length (wuCheckpoints wu)" and
    r: "resetGit env (wuCheckpoints wu ! (length (wuCheckpoints wu) - 2)) c = Inr c0" and
    d: "dispatchC now EventUndo c0 = Inr c2" and
    c1: "c1 = emitMsg now ''undo_completed'' msg (persistState env now (updateWorkUnit undoStacks c2))"
    by auto
  note t = dispatchC_target [OF d, simplified]
  have ne: "wuCheckpoints (wu\<lparr>wuUpdatedAt := now\<rparr>) \<noteq> []" using len by auto
  have u: "cWorkUnit c2 = Some (wu\<lparr>wuUpdatedAt := now\<rparr>)"
    using t(2) resetGit_Inr(1) [OF r] assms(2) by simp
  have st: "cState c2 = cState c" "cState c \<in> set redoStates"
    using nav_row(1) [OF t(1)] resetGit_Inr(1) [OF r] assms(3) by (auto simp: undoStates_def)
  from finishNav(1,2) [OF u] obtain wu1 where
    c1u: "cWorkUnit c1 = Some wu1" "cState c1 = cState c"
      "wuCheckpoints wu1 = wuCheckpoints (undoStacks (wu\<lparr>wuUpdatedAt := now\<rparr>))"
      "wuRedoStack wu1 = wuRedoStack (undoStacks (wu\<lparr>wuUpdatedAt := now\<rparr>))"
    unfolding c1 unit_cursor_inject st(1) by blast
  have top: "wuRedoStack wu1 \<noteq> []" "last (wuRedoStack wu1) = last (wuCheckpoints wu)"
    using c1u(4) by (simp_all add: undoStacks_def)
  from Redo_succeeds [of c1 wu1 env now'] c1u(1,2) st(2) top assms(4)
  obtain c2' wu2 where "Redo env now' c1 = (None, c2')" "cState c2' = cState c" "cWorkUnit c2' = Some wu2"
      "wuCheckpoints wu2 = wuCheckpoints (redoStacks wu1)" "wuRedoStack wu2 = wuRedoStack (redoStacks wu1)"
    by auto
  moreover have "wuCheckpoints (redoStacks wu1) = wuCheckpoints wu" "wuRedoStack (redoStacks wu1) = wuRedoStack wu"
    using stacks.forth_back [OF ne] c1u(3,4) by (simp_all add: redoStacks_def)
  ultimately show ?thesis by auto
qed

definition open_env :: "(TaskState, string list) Env" where
  "open_env = demo_env\<lparr>gitReset := (\<lambda>sha g. Inr (takeWhile (\<lambda>x. x \<noteq> sha) g @ [sha]))\<rparr>"

theorem redo_inverts_undo_witness:
  "\<exists>c1 c2 wu2. Undo open_env 3 demo_planned = (None, c1) \<and> Redo open_env 4 c1 = (None, c2) \<and>
     cWorkUnit c2 = Some wu2 \<and> wuCheckpoints wu2 = [''a1'', ''b2'']"
proof -
  have n: "fst (Undo open_env 3 demo_planned) = None"
    and st: "cState demo_planned \<noteq> StateImplementing"
    and cp: "map_option wuCheckpoints (cWorkUnit demo_planned) = Some [''a1'', ''b2'']"
    by code_simp+
  obtain wu where wu: "cWorkUnit demo_planned = Some wu" "wuCheckpoints wu = [''a1'', ''b2'']"
    using cp by auto
  obtain c1 where c1: "Undo open_env 3 demo_planned = (None, c1)"
    using n by (cases "Undo open_env 3 demo_planned") auto
  have "\<exists>g'. gitReset open_env (last (wuCheckpoints wu)) g = Inr g'" for g
    by (simp add: open_env_def)
  then show ?thesis
    using c1 wu(2) redo_inverts_undo [OF c1 wu(1) st, of 4] by auto
qed

text \<open>
  A refused undo still moves the repository. In a state whose table has no undo row, such as
  \<^verbatim>\<open>planning\<close>, \<^verbatim>\<open>Undo\<close> resets the repository first and only then asks the state machine:
  it returns an error and leaves the stacks alone, but the head is now the previous checkpoint, so
  the repository and the stacks disagree.
\<close>

theorem refused_undo_moves_head:
  assumes "git_laws env head" and "cWorkUnit c = Some wu" and "2 \<le> length (wuCheckpoints wu)"
    and "cGit c = Some g" and "gitReset env (wuCheckpoints wu ! (length (wuCheckpoints wu) - 2)) g = Inr g'"
    and "cState c \<notin> set undoStates"
  shows "\<exists>e c'. Undo env now c = (Some e, c') \<and> cMachine c' = cMachine c \<and> cGit c' = Some g' \<and>
           head g' = wuCheckpoints wu ! (length (wuCheckpoints wu) - 2)"
proof -
  let ?t = "wuCheckpoints wu ! (length (wuCheckpoints wu) - 2)" and ?c1 = "c\<lparr>cGit := Some g'\<rparr>"
  have r: "resetGit env ?t c = Inr ?c1" using assms(4,5) by (simp add: resetGit_def)
  have "table_target (cState ?c1) EventUndo = None"
    using nav_row(1) [of "cState c"] assms(6) by (cases "table_target (cState c) EventUndo") auto
  then obtain e where "dispatchC now EventUndo ?c1 = Inl e"
    using dispatchC_target(1) [of now EventUndo ?c1] by (cases "dispatchC now EventUndo ?c1") auto
  with r assms(2,3) have "Undo env now c = (Some (''cannot undo: '' @ e), ?c1)"
    by (simp add: Undo_def Let_def)
  moreover have "head g' = ?t" using assms(1,5) by (simp add: git_laws_def)
  ultimately show ?thesis by simp
qed

theorem refused_undo_moves_head_witness:
  "\<exists>e c'. Undo demo_env 3 (demo_conductor (run_or_stay [EventStart, EventPlan] demo_started)) = (Some e, c') \<and>
     cState c' = StatePlanning \<and> cGit c' = Some [''a1''] \<and>
     map_option wuCheckpoints (cWorkUnit c') = Some [''a1'', ''b2'']"
proof -
  let ?c = "demo_conductor (run_or_stay [EventStart, EventPlan] demo_started)"
  have cp: "map_option wuCheckpoints (cWorkUnit ?c) = Some [''a1'', ''b2'']"
    and st: "cState ?c = StatePlanning" by code_simp+
  obtain wu where wu: "cWorkUnit ?c = Some wu" "wuCheckpoints wu = [''a1'', ''b2'']"
    using cp by auto
  have g: "cGit ?c = Some [''a1'', ''b2'']" by (simp add: demo_conductor_def)
  have r: "gitReset demo_env (wuCheckpoints wu ! (length (wuCheckpoints wu) - 2)) [''a1'', ''b2''] = Inr [''a1'']"
    by (simp add: wu demo_env_def)
  have ns: "cState ?c \<notin> set undoStates" by (simp add: st undoStates_def redoStates_def)
  have len: "2 \<le> length (wuCheckpoints wu)" by (simp add: wu)
  from refused_undo_moves_head [OF demo_git_laws wu(1) len g r ns, of 3] obtain e c' where
    "Undo demo_env 3 ?c = (Some e, c')" "cMachine c' = cMachine ?c" "cGit c' = Some [''a1'']"
    by blast
  then show ?thesis using st cp by auto
qed

end
