(* ===== verification/Task_Queue.thy ===== *)
theory Task_Queue
  imports Conductor_Core
begin

text \<open>
  The queue of tasks waiting for the current one to finish (src/internal/conductor/queue.go).
  \<^verbatim>\<open>queueCounter\<close>, a process-wide atomic counter, is threaded through \<open>QueueTask\<close>.
\<close>

section \<open>Operations\<close>

definition queueID :: "nat \<Rightarrow> nat \<Rightarrow> string" where
  "queueID unixNano counter = ''q-'' @ decimal unixNano @ ''-'' @ decimal counter"

definition QueueTask ::
  "nat \<Rightarrow> nat \<Rightarrow> string \<Rightarrow> string \<Rightarrow> ('y, 'g) Conductor \<Rightarrow> QueuedTask \<times> nat \<times> ('y, 'g) Conductor" where
  "QueueTask now queueCounter source title c =
     (let counter = queueCounter + 1;
          task = \<lparr>qtID = queueID now counter, qtSource = source, qtTitle = title, qtPriority = 0,
                  qtPreferredAgent = [], qtAddedAt = int now, qtPosition = length (cTaskQueue c) + 1\<rparr>;
          c1 = c\<lparr>cTaskQueue := cTaskQueue c @ [task]\<rparr>
      in (task, counter,
          emitMsg (int now) ''task_queued'' (''Task queued at position '' @ decimal (qtPosition task)) c1))"

fun removeQueued :: "string \<Rightarrow> QueuedTask list \<Rightarrow> QueuedTask list option" where
  "removeQueued qid [] = None"
| "removeQueued qid (t # ts) = (if qtID t = qid then Some ts else map_option ((#) t) (removeQueued qid ts))"

definition DequeueTask ::
  "time \<Rightarrow> string \<Rightarrow> ('y, 'g) Conductor \<Rightarrow> string option \<times> ('y, 'g) Conductor" where
  "DequeueTask now qid c =
     (case removeQueued qid (cTaskQueue c) of
        None \<Rightarrow> (Some (''queued task '' @ qid @ '' not found''), c)
      | Some q \<Rightarrow> (None, emitMsg now ''task_dequeued'' ''Task removed from queue'' (c\<lparr>cTaskQueue := q\<rparr>)))"

fun numberFrom :: "nat \<Rightarrow> QueuedTask list \<Rightarrow> QueuedTask list" where
  "numberFrom i [] = []"
| "numberFrom i (t # ts) = t\<lparr>qtPosition := i + 1\<rparr> # numberFrom (i + 1) ts"

definition ListQueue :: "('y, 'g) Conductor \<Rightarrow> QueuedTask list" where
  "ListQueue c = numberFrom 0 (cTaskQueue c)"

definition QueueLength :: "('y, 'g) Conductor \<Rightarrow> nat" where
  "QueueLength c = length (cTaskQueue c)"

fun queueIndex :: "string \<Rightarrow> QueuedTask list \<Rightarrow> nat option" where
  "queueIndex qid [] = None"
| "queueIndex qid (t # ts) = (if qtID t = qid then Some 0 else map_option Suc (queueIndex qid ts))"

definition ReorderQueue ::
  "string \<Rightarrow> int \<Rightarrow> ('y, 'g) Conductor \<Rightarrow> string option \<times> ('y, 'g) Conductor" where
  "ReorderQueue qid newPosition c =
     (let q = cTaskQueue c in
      if newPosition < 1 \<or> newPosition > int (length q)
      then (Some (''position '' @ format_int newPosition @ '' out of range (1-'' @ decimal (length q) @ '')''), c)
      else (case queueIndex qid q of
              None \<Rightarrow> (Some (''queued task '' @ qid @ '' not found''), c)
            | Some fromIdx \<Rightarrow>
                (let task = q ! fromIdx;
                     remaining = take fromIdx q @ drop (fromIdx + 1) q;
                     toIdx = nat (newPosition - 1)
                 in (None, c\<lparr>cTaskQueue := take toIdx remaining @ [task] @ drop toIdx remaining\<rparr>))))"

definition popNextTask :: "('y, 'g) Conductor \<Rightarrow> QueuedTask option \<times> ('y, 'g) Conductor" where
  "popNextTask c =
     (case cTaskQueue c of [] \<Rightarrow> (None, c) | t # ts \<Rightarrow> (Some t, c\<lparr>cTaskQueue := ts\<rparr>))"

section \<open>The queue as a first-in first-out queue\<close>

text \<open>What the conductor relies on: tasks leave in the order in which they were queued.\<close>

locale fifo =
  fixes items :: "'q \<Rightarrow> 'a list" and push :: "'x \<Rightarrow> 'q \<Rightarrow> 'q" and made :: "'x \<Rightarrow> 'q \<Rightarrow> 'a"
    and pop :: "'q \<Rightarrow> 'a option \<times> 'q"
  assumes items_push: "items (push x q) = items q @ [made x q]"
    and pop_Nil: "items q = [] \<Longrightarrow> pop q = (None, q)"
    and pop_Cons: "items q = a # as \<Longrightarrow> \<exists>q'. pop q = (Some a, q') \<and> items q' = as"
begin

fun drain :: "nat \<Rightarrow> 'q \<Rightarrow> 'a list" where
  "drain 0 q = []"
| "drain (Suc n) q = (case pop q of (None, _) \<Rightarrow> [] | (Some a, q') \<Rightarrow> a # drain n q')"

lemma drain_items: "drain (length (items q)) q = items q"
proof (induction "items q" arbitrary: q)
  case (Cons a as)
  from pop_Cons [OF Cons.hyps(2) [symmetric]] obtain q' where q': "pop q = (Some a, q')" "items q' = as"
    by blast
  with Cons.hyps(1) [of q'] Cons.hyps(2) show ?case by (simp flip: Cons.hyps(2))
qed simp

lemma pop_after_push:
  assumes "items q \<noteq> []"
  shows "fst (pop (push x q)) = fst (pop q)"
proof -
  obtain a as where q: "items q = a # as" using assms by (cases "items q") auto
  then have "items (push x q) = a # (as @ [made x q])" by (simp add: items_push)
  from pop_Cons [OF q] pop_Cons [OF this] show ?thesis by auto
qed

end

definition queueOne :: "nat \<times> nat \<times> string \<times> string \<Rightarrow> ('y, 'g) Conductor \<Rightarrow> ('y, 'g) Conductor" where
  "queueOne x c = (case x of (now, counter, source, title) \<Rightarrow> snd (snd (QueueTask now counter source title c)))"

definition queuedOne :: "nat \<times> nat \<times> string \<times> string \<Rightarrow> ('y, 'g) Conductor \<Rightarrow> QueuedTask" where
  "queuedOne x c = (case x of (now, counter, source, title) \<Rightarrow> fst (QueueTask now counter source title c))"

interpretation task_fifo: fifo cTaskQueue queueOne queuedOne popNextTask
  by unfold_locales
    (auto simp: queueOne_def queuedOne_def QueueTask_def popNextTask_def Let_def emitMsg_fields)

section \<open>Queue identifiers\<close>

lemma append_Cons_unique:
  assumes "xs @ c # ys = xs' @ c # ys'" and "c \<notin> set xs" and "c \<notin> set xs'"
  shows "xs = xs' \<and> ys = ys'"
  using assms
proof (induction xs arbitrary: xs')
  case Nil
  then show ?case by (cases xs') auto
next
  case (Cons x xs)
  then show ?case by (cases xs') auto
qed

lemma queueID_inject: "queueID t n = queueID t' n' \<longleftrightarrow> t = t' \<and> n = n'"
  using append_Cons_unique [of "decimal t" "CHR ''-''" "decimal n" "decimal t'" "decimal n'"]
  by (auto simp: queueID_def decimal_no_dash)

text \<open>
  The steps on a queue with its counter, and the invariant: every identifier was made from a
  counter value that has been handed out, and no two tasks share one.
\<close>

inductive queue_step :: "nat \<times> ('y, 'g) Conductor \<Rightarrow> nat \<times> ('y, 'g) Conductor \<Rightarrow> bool" where
  queue_add: "QueueTask now n source title c = (t, n', c') \<Longrightarrow> queue_step (n, c) (n', c')"
| queue_remove: "DequeueTask now qid c = (r, c') \<Longrightarrow> queue_step (n, c) (n, c')"
| queue_move: "ReorderQueue qid pos c = (r, c') \<Longrightarrow> queue_step (n, c) (n, c')"
| queue_pop: "popNextTask c = (r, c') \<Longrightarrow> queue_step (n, c) (n, c')"

definition queue_init :: "nat \<times> ('y, 'g) Conductor \<Rightarrow> bool" where
  "queue_init s \<longleftrightarrow> cTaskQueue (snd s) = []"

definition queue_inv :: "nat \<times> ('y, 'g) Conductor \<Rightarrow> bool" where
  "queue_inv s \<longleftrightarrow> distinct (map qtID (cTaskQueue (snd s))) \<and>
     (\<forall>t \<in> set (cTaskQueue (snd s)). \<exists>now n. n \<le> fst s \<and> qtID t = queueID now n)"

lemma removeQueued_Some:
  "removeQueued qid q = Some q' \<Longrightarrow> \<exists>xs t ys. q = xs @ t # ys \<and> q' = xs @ ys \<and> qtID t = qid \<and>
     qid \<notin> set (map qtID xs)"
proof (induction q arbitrary: q')
  case (Cons a q)
  show ?case
  proof (cases "qtID a = qid")
    case True
    with Cons.prems show ?thesis by (intro exI [of _ "[]"]) auto
  next
    case False
    with Cons.prems obtain q1 where "removeQueued qid q = Some q1" "q' = a # q1" by auto
    moreover from Cons.IH [OF this(1)] obtain xs t ys where
      "q = xs @ t # ys" "q1 = xs @ ys" "qtID t = qid" "qid \<notin> set (map qtID xs)" by blast
    ultimately show ?thesis using False by (intro exI [of _ "a # xs"] exI [of _ t] exI [of _ ys]) auto
  qed
qed simp

lemma queueIndex_Some:
  "queueIndex qid q = Some i \<Longrightarrow> i < length q \<and> qtID (q ! i) = qid \<and> qid \<notin> set (map qtID (take i q))"
  by (induction q arbitrary: i) (auto split: if_splits)

lemma take_nth_drop_mset:
  assumes "i < length q"
  shows "mset (take k (take i q @ drop (i + 1) q) @ [q ! i] @ drop k (take i q @ drop (i + 1) q)) = mset q"
proof -
  let ?r = "take i q @ drop (i + 1) q"
  have "mset (take k ?r @ [q ! i] @ drop k ?r) = mset (take k ?r @ drop k ?r) + {#q ! i#}" by simp
  also have "\<dots> = mset (take i q) + mset (q ! i # drop (Suc i) q)"
    unfolding append_take_drop_id by simp
  also have "\<dots> = mset q"
    by (metis assms id_take_nth_drop mset_append)
  finally show ?thesis .
qed

lemma ReorderQueue_Some:
  assumes "ReorderQueue qid p c = (None, c')"
  shows "\<exists>i. queueIndex qid (cTaskQueue c) = Some i \<and> 1 \<le> p \<and> p \<le> int (length (cTaskQueue c)) \<and>
    cTaskQueue c' =
      take (nat (p - 1)) (take i (cTaskQueue c) @ drop (i + 1) (cTaskQueue c)) @ [cTaskQueue c ! i] @
      drop (nat (p - 1)) (take i (cTaskQueue c) @ drop (i + 1) (cTaskQueue c))"
  using assms by (auto simp: ReorderQueue_def Let_def not_less split: if_splits option.splits)

lemma ReorderQueue_mset: "ReorderQueue qid p c = (r, c') \<Longrightarrow> mset (cTaskQueue c') = mset (cTaskQueue c)"
proof (cases r)
  case None
  assume "ReorderQueue qid p c = (r, c')"
  with None ReorderQueue_Some [of qid p c c'] obtain i where
    i: "queueIndex qid (cTaskQueue c) = Some i" "cTaskQueue c' =
      take (nat (p - 1)) (take i (cTaskQueue c) @ drop (i + 1) (cTaskQueue c)) @ [cTaskQueue c ! i] @
      drop (nat (p - 1)) (take i (cTaskQueue c) @ drop (i + 1) (cTaskQueue c))"
    by auto
  from queueIndex_Some [OF i(1)] show ?thesis
    unfolding i(2) by (intro take_nth_drop_mset) simp
next
  case (Some e)
  assume "ReorderQueue qid p c = (r, c')"
  with Some have "c' = c"
    by (auto simp: ReorderQueue_def Let_def split: if_splits option.splits)
  then show ?thesis by simp
qed

lemma queue_inv_subset:
  assumes "queue_inv (n, c)" and "mset (cTaskQueue c') \<subseteq># mset (cTaskQueue c)"
  shows "queue_inv (n, c')"
proof -
  have "distinct (map qtID (cTaskQueue c'))"
  proof -
    have "image_mset qtID (mset (cTaskQueue c')) \<subseteq># image_mset qtID (mset (cTaskQueue c))"
      using assms(2) by (rule image_mset_subseteq_mono)
    moreover have "distinct (map qtID (cTaskQueue c))" using assms(1) by (simp add: queue_inv_def)
    ultimately show ?thesis by (intro distinct_submset [of "map qtID (cTaskQueue c')"]) simp_all
  qed
  moreover have "set (cTaskQueue c') \<subseteq> set (cTaskQueue c)"
    using set_mset_mono [OF assms(2)] by simp
  ultimately show ?thesis using assms(1) unfolding queue_inv_def by auto
qed

lemma queue_inv_add:
  assumes "queue_inv (n, c)" and "QueueTask now n source title c = (t, n', c')"
  shows "queue_inv (n', c')"
proof -
  from assms(2) have q: "cTaskQueue c' = cTaskQueue c @ [t]" "n' = n + 1" "qtID t = queueID now (n + 1)"
    by (auto simp: QueueTask_def Let_def emitMsg_fields)
  have "qtID t \<notin> qtID ` set (cTaskQueue c)"
  proof
    assume "qtID t \<in> qtID ` set (cTaskQueue c)"
    then obtain u where "u \<in> set (cTaskQueue c)" "qtID u = qtID t" by auto
    moreover from assms(1) this(1) obtain now' k where "k \<le> n" "qtID u = queueID now' k"
      by (auto simp: queue_inv_def)
    ultimately have "k \<le> n" "queueID now (n + 1) = queueID now' k" using q(3) by simp_all
    then show False by (auto simp: queueID_inject)
  qed
  moreover have "\<exists>now k. k \<le> n' \<and> qtID u = queueID now k" if u: "u \<in> set (cTaskQueue c')" for u
  proof (cases "u = t")
    case False
    with u q(1) assms(1) obtain now k where "k \<le> n" "qtID u = queueID now k"
      by (auto simp: queue_inv_def)
    with q(2) show ?thesis by (intro exI [of _ now] exI [of _ k]) simp
  qed (use q in blast)
  ultimately show ?thesis using assms(1) q(1) by (simp add: queue_inv_def)
qed

lemma queue_inv_step: "queue_inv s \<Longrightarrow> queue_step s s' \<Longrightarrow> queue_inv s'"
proof -
  assume inv: "queue_inv s" and "queue_step s s'"
  from this(2) show ?thesis
  proof cases
    case (queue_add now n source title c t n' c')
    with inv show ?thesis by (blast intro: queue_inv_add)
  next
    case (queue_remove now qid c r c' n)
    then have "mset (cTaskQueue c') \<subseteq># mset (cTaskQueue c)"
      by (auto simp: DequeueTask_def emitMsg_fields split: option.splits dest!: removeQueued_Some)
    with inv queue_remove show ?thesis by (blast intro: queue_inv_subset)
  next
    case (queue_move qid pos c r c' n)
    with inv ReorderQueue_mset [OF queue_move(3)] show ?thesis
      by (auto intro: queue_inv_subset)
  next
    case (queue_pop c r c' n)
    then have "mset (cTaskQueue c') \<subseteq># mset (cTaskQueue c)"
      by (auto simp: popNextTask_def split: list.splits)
    with inv queue_pop show ?thesis by (blast intro: queue_inv_subset)
  qed
qed

lemma queue_inv_init: "queue_init s \<Longrightarrow> queue_inv s"
  by (simp add: queue_init_def queue_inv_def)

interpretation queue_run: step_invariant queue_init queue_step queue_inv
  by unfold_locales (erule queue_inv_init, erule (1) queue_inv_step)

lemma ListQueue_nth: "i < length q \<Longrightarrow> numberFrom k q ! i = (q ! i)\<lparr>qtPosition := k + i + 1\<rparr>"
proof (induction q arbitrary: k i)
  case (Cons t q)
  then show ?case by (cases i) simp_all
qed simp

section \<open>Properties\<close>

text \<open>
  Queued tasks are told apart. Whatever tasks are queued, removed, moved and popped, and at
  whatever clock readings, no two tasks in the queue ever have the same identifier.
\<close>

theorem queue_ids_distinct:
  assumes "reachable queue_init queue_step s"
  shows "distinct (map qtID (cTaskQueue (snd s)))"
  using queue_run.reachable_inv [OF assms] by (simp add: queue_inv_def)

text \<open>
  Reordering moves one task and nothing else. An accepted reordering keeps the multiset of queued
  tasks, puts the named task at the requested 1-based position, and leaves the relative order of
  all tasks with other identifiers as it was.
\<close>

theorem reorder_moves_one:
  assumes "ReorderQueue qid p c = (None, c')"
  shows "mset (cTaskQueue c') = mset (cTaskQueue c) \<and>
         qtID (ListQueue c' ! nat (p - 1)) = qid \<and> qtPosition (ListQueue c' ! nat (p - 1)) = nat p \<and>
         filter (\<lambda>t. qtID t \<noteq> qid) (cTaskQueue c') = filter (\<lambda>t. qtID t \<noteq> qid) (cTaskQueue c)"
proof -
  let ?q = "cTaskQueue c"
  from ReorderQueue_Some [OF assms] obtain i where i: "queueIndex qid ?q = Some i" and
    p: "1 \<le> p" "p \<le> int (length ?q)" and
    q': "cTaskQueue c' = take (nat (p - 1)) (take i ?q @ drop (i + 1) ?q) @ [?q ! i] @
      drop (nat (p - 1)) (take i ?q @ drop (i + 1) ?q)"
    by blast
  note ix = queueIndex_Some [OF i]
  let ?r = "take i ?q @ drop (i + 1) ?q"
  have k: "nat (p - 1) \<le> length ?r" "length (take (nat (p - 1)) ?r) = nat (p - 1)" using p ix by auto
  have at: "cTaskQueue c' ! nat (p - 1) = ?q ! i" unfolding q' using k(2) by (metis append_Cons nth_append_length)
  have "length (cTaskQueue c') = length ?q" using mset_eq_length [OF ReorderQueue_mset [OF assms]] .
  then have len: "nat (p - 1) < length (cTaskQueue c')" using p by linarith
  have "filter (\<lambda>t. qtID t \<noteq> qid) (cTaskQueue c') = filter (\<lambda>t. qtID t \<noteq> qid) (take (nat (p - 1)) ?r @ drop (nat (p - 1)) ?r)"
    unfolding q' using ix by simp
  also have "\<dots> = filter (\<lambda>t. qtID t \<noteq> qid) (take i ?q @ ?q ! i # drop (Suc i) ?q)"
    unfolding append_take_drop_id using ix by simp
  also have "\<dots> = filter (\<lambda>t. qtID t \<noteq> qid) ?q" using ix by (metis id_take_nth_drop)
  finally show ?thesis
    using ReorderQueue_mset [OF assms] at len ix p by (simp add: ListQueue_def ListQueue_nth)
qed

definition demo_queue :: "(TaskState, string list) Conductor" where
  "demo_queue = queueOne (12, 2, ''file:c.md'', []) (queueOne (11, 1, ''file:b.md'', [])
     (queueOne (11, 0, ''file:a.md'', []) (demo_conductor NewMachine)))"

theorem queue_ids_distinct_witness:
  "reachable queue_init queue_step (1, queueOne (11, 0, ''file:a.md'', []) (demo_conductor NewMachine)) \<and>
   distinct (map qtID (cTaskQueue (queueOne (11, 0, ''file:a.md'', []) (demo_conductor NewMachine))))"
proof -
  let ?c = "demo_conductor NewMachine"
  have "reachable queue_init queue_step (0, ?c)"
    by (rule reach_init) (simp add: queue_init_def demo_conductor_def)
  moreover have "queue_step (0, ?c) (1, queueOne (11, 0, ''file:a.md'', []) ?c)"
    by (rule queue_add [where now = 11 and source = "''file:a.md''" and title = "[]"])
      (simp add: queueOne_def QueueTask_def Let_def)
  ultimately have r: "reachable queue_init queue_step (1, queueOne (11, 0, ''file:a.md'', []) ?c)"
    by (rule reach_step)
  with queue_ids_distinct [OF r] show ?thesis by simp
qed

theorem reorder_moves_one_witness:
  "\<exists>c'. ReorderQueue ''q-12-3'' 1 demo_queue = (None, c') \<and>
        qtID (ListQueue c' ! nat (1 - 1)) = ''q-12-3'' \<and>
        map qtSource (cTaskQueue c') = [''file:c.md'', ''file:a.md'', ''file:b.md'']"
proof -
  have n: "fst (ReorderQueue ''q-12-3'' 1 demo_queue) = None"
    and o: "map qtSource (cTaskQueue (snd (ReorderQueue ''q-12-3'' 1 demo_queue))) =
      [''file:c.md'', ''file:a.md'', ''file:b.md'']" by code_simp+
  obtain c' where c': "ReorderQueue ''q-12-3'' 1 demo_queue = (None, c')"
    using n by (cases "ReorderQueue ''q-12-3'' 1 demo_queue") auto
  show ?thesis using c' o reorder_moves_one [OF c'] by auto
qed

text \<open>
  The queue is first in, first out. Queuing any tasks on an empty queue and popping as many gives
  back their sources in the order in which they were queued.
\<close>

theorem queue_is_fifo:
  assumes "cTaskQueue c = []"
  shows "map qtSource (task_fifo.drain (length xs) (foldl (\<lambda>c x. queueOne x c) c xs)) =
           map (\<lambda>(now, counter, source, title). source) xs"
proof -
  have q: "map qtSource (cTaskQueue (foldl (\<lambda>c x. queueOne x c) c xs)) =
      map qtSource (cTaskQueue c) @ map (\<lambda>(now, counter, source, title). source) xs" for c :: "('a, 'b) Conductor"
    by (induction xs arbitrary: c)
      (auto simp: task_fifo.items_push queuedOne_def QueueTask_def Let_def)
  have "length (map qtSource (cTaskQueue (foldl (\<lambda>c x. queueOne x c) c xs))) = length xs"
    unfolding q by (simp add: assms)
  then have "length (cTaskQueue (foldl (\<lambda>c x. queueOne x c) c xs)) = length xs" by simp
  with q [of c] assms show ?thesis
    using task_fifo.drain_items [of "foldl (\<lambda>c x. queueOne x c) c xs"] by simp
qed

theorem queue_is_fifo_witness:
  "cTaskQueue (demo_conductor NewMachine) = [] \<and>
   map qtSource (task_fifo.drain (length [(5, 0, ''a'', []), (4, 1, ''b'', [])])
     (foldl (\<lambda>c x. queueOne x c) (demo_conductor NewMachine) [(5, 0, ''a'', []), (4, 1, ''b'', [])])) = [''a'', ''b'']"
proof -
  have e: "cTaskQueue (demo_conductor NewMachine) = []" by (simp add: demo_conductor_def)
  from e queue_is_fifo [OF e, of "[(5, 0, ''a'', []), (4, 1, ''b'', [])]"] show ?thesis by simp
qed

end
