(* ===== verification/Task_End.thy ===== *)
theory Task_End
  imports Checkpoints Task_Queue
begin

text \<open>
  Stopping, aborting, resetting, abandoning, deleting and finishing a task
  (src/internal/conductor/conductor_lifecycle.go, conductor_submit_ops.go, conductor_finish.go).
\<close>

section \<open>Interrupting a task\<close>

definition callPool :: "PoolCall \<Rightarrow> ('y, 'g) Conductor \<Rightarrow> ('y, 'g) Conductor" where
  "callPool call c = c\<lparr>cPool := map_option (\<lambda>calls. calls @ [call]) (cPool c)\<rparr>"

definition Stop ::
  "('y, 'g) Env \<Rightarrow> time \<Rightarrow> ('y, 'g) Conductor \<Rightarrow> string option \<times> ('y, 'g) Conductor" where
  "Stop env now c =
     (if \<not> fst (CanDispatch EventStop (cMachine c))
      then (Some ''cannot stop: not in a stoppable state'', c)
      else
        let jobID = cActiveJobID c;
            c1 = (if jobID \<noteq> [] then callPool (CancelJobCall jobID) (callPool (InterruptJobCall jobID) c) else c);
            c2 = updateWorkUnit (\<lambda>wu. wu\<lparr>wuCancelledBy := ''user'', wuCancelledAt := now\<rparr>)
                   (c1\<lparr>cActiveJobID := []\<rparr>)
        in (case dispatchC now EventStop c2 of
              Inl err \<Rightarrow> (Some (''cannot stop: '' @ err), c2)
            | Inr c3 \<Rightarrow>
                (let c4 = persistState env now c3
                 in (None, emit now \<lparr>evType = ''task_stopped'', evState = cState c4, evJobID = jobID,
                       evMessage = ''Operation stopped, returned to '' @ state_string (cState c4),
                       evTimestamp = 0\<rparr> c4))))"

definition Abort ::
  "('y, 'g) Env \<Rightarrow> time \<Rightarrow> ('y, 'g) Conductor \<Rightarrow> string option \<times> ('y, 'g) Conductor" where
  "Abort env now c =
     (case dispatchC now EventAbort c of
        Inl err \<Rightarrow> (Some (''cannot abort: '' @ err), c)
      | Inr c1 \<Rightarrow> (None, emitMsg now ''task_aborted'' ''Task aborted'' (persistState env now c1)))"

definition ResetTask ::
  "('y, 'g) Env \<Rightarrow> time \<Rightarrow> ('y, 'g) Conductor \<Rightarrow> string option \<times> ('y, 'g) Conductor" where
  "ResetTask env now c =
     (if cState c \<noteq> StateFailed then (Some ''can only reset from failed state'', c)
      else (case dispatchC now EventReset c of
              Inl err \<Rightarrow> (Some (''cannot reset: '' @ err), c)
            | Inr c1 \<Rightarrow> (None, emitMsg now ''task_reset'' ''Task reset to loaded state'' (persistState env now c1))))"

section \<open>The end of a task\<close>

text \<open>A git call whose failure is only logged.\<close>

definition tryGit :: "('g \<Rightarrow> 'g result) \<Rightarrow> ('y, 'g) Conductor \<Rightarrow> ('y, 'g) Conductor" where
  "tryGit op c =
     (case cGit c of None \<Rightarrow> c
      | Some g \<Rightarrow> (case op g of Inl _ \<Rightarrow> c | Inr g' \<Rightarrow> c\<lparr>cGit := Some g'\<rparr>))"

definition deleteStored :: "('y, 'g) Env \<Rightarrow> WorkUnit \<Rightarrow> ('y, 'g) Conductor \<Rightarrow> ('y, 'g) Conductor" where
  "deleteStored env wu c =
     (case cStore c of None \<Rightarrow> c
      | Some s \<Rightarrow> (case DeleteTaskState (diskError env) (wuID wu) s of
                    Inl _ \<Rightarrow> c | Inr s' \<Rightarrow> c\<lparr>cStore := Some s'\<rparr>))"

definition removeArtifacts ::
  "('y, 'g) Env \<Rightarrow> bool \<Rightarrow> ('y, 'g) Conductor \<Rightarrow> ('y, 'g) Conductor" where
  "removeArtifacts env dropBranch c =
     (case cWorkUnit c of None \<Rightarrow> c
      | Some wu \<Rightarrow>
          (let c1 = (if dropBranch \<and> wuBranch wu \<noteq> [] then tryGit (gitDeleteBranch env (wuBranch wu)) c else c);
               c2 = (if wuWorktreePath wu \<noteq> [] then tryGit (gitRemoveWorktree env (wuWorktreePath wu)) c1 else c1)
           in deleteStored env wu c2))"

definition clearTask :: "('y, 'g) Conductor \<Rightarrow> ('y, 'g) Conductor" where
  "clearTask c = c\<lparr>cMachine := Reset (cMachine c)\<rparr>"

definition Abandon ::
  "('y, 'g) Env \<Rightarrow> time \<Rightarrow> bool \<Rightarrow> ('y, 'g) Conductor \<Rightarrow> ('y, 'g) Conductor" where
  "Abandon env now keepBranch c =
     (let c1 = (case cWorkUnit c of None \<Rightarrow> c
                | Some wu \<Rightarrow> foldl (\<lambda>c jobID. callPool (CancelJobCall jobID) c) c (wuJobs wu))
      in emitMsg now ''task_abandoned'' ''Task abandoned''
           (clearTask (removeArtifacts env (\<not> keepBranch) c1)))"

definition Delete ::
  "('y, 'g) Env \<Rightarrow> time \<Rightarrow> bool \<Rightarrow> ('y, 'g) Conductor \<Rightarrow> string option \<times> ('y, 'g) Conductor" where
  "Delete env now deleteBranch c =
     (if cState c \<notin> {StateSubmitted, StateFailed, StateNone}
      then (Some (''delete only allowed in terminal states (submitted, failed, none); current state: '' @
                  state_string (cState c)), c)
      else (None, emitMsg now ''task_deleted'' ''Task deleted''
                    (clearTask (removeArtifacts env deleteBranch c))))"

record FinishResult =
  PreviousBranch :: string
  CurrentBranch :: string
  BranchDeleted :: bool
  RemoteBranchDeleted :: bool

text \<open>
  The part of \<^verbatim>\<open>Finish\<close> after the repository has been cleaned up: leave the state machine,
  archive, clear the work unit, persist, and start the next queued task in the background.
\<close>

definition finishTask ::
  "('y, 'g) Env \<Rightarrow> time \<Rightarrow> WorkUnit \<Rightarrow> ('y, 'g) Conductor \<Rightarrow> ('y, 'g) Conductor" where
  "finishTask env now wu c =
     (let c1 = (case dispatchC now EventFinish c of Inl _ \<Rightarrow> c\<lparr>cMachine := Reset (cMachine c)\<rparr> | Inr c1 \<Rightarrow> c1);
          c2 = archiveTask now ''finished'' (Some wu) c1;
          c3 = emitMsg now ''task_finished'' (''Task finished: '' @ wuTitle wu) c2;
          c4 = persistState env now (c3\<lparr>cMachine := SetWorkUnit now None (cMachine c3)\<rparr>)
      in (case popNextTask c4 of
            (None, c5) \<Rightarrow> c5
          | (Some next, c5) \<Rightarrow>
              (emitMsg now ''queue_advancing'' (''Loading next queued task: '' @ qtSource next) c5)
                \<lparr>cStarting := cStarting c5 @ [qtSource next]\<rparr>))"

definition Finish ::
  "('y, 'g) Env \<Rightarrow> time \<Rightarrow> bool \<Rightarrow> bool \<Rightarrow> ('y, 'g) Conductor \<Rightarrow>
     FinishResult result \<times> ('y, 'g) Conductor" where
  "Finish env now deleteRemoteBranch force c =
     (case cWorkUnit c of
        None \<Rightarrow> (Inl ''no task loaded'', c)
      | Some wu \<Rightarrow>
          if cState c \<noteq> StateSubmitted \<and> \<not> force
          then (Inl (''cannot finish: task is '' @ state_string (cState c) @
                     '' (expected submitted). Use --force to override''), c)
          else
            (case cGit c of
               None \<Rightarrow> (Inl ''git not available'', c)
             | Some g0 \<Rightarrow>
                 (case baseBranch env of
                    Inl err \<Rightarrow> (Inl (''get base branch: '' @ err), c)
                  | Inr base \<Rightarrow>
                      (case gitCheckout env base g0 of
                         Inl err \<Rightarrow> (Inl (''checkout '' @ base @ '': '' @ err), c)
                       | Inr g1 \<Rightarrow>
                           (let g2 = (case gitPull env g1 of Inl _ \<Rightarrow> g1 | Inr g \<Rightarrow> g);
                                local_branch = (wuBranch wu \<noteq> [] \<and> wuBranch wu \<noteq> base);
                                del = (if local_branch then gitDeleteBranch env (wuBranch wu) g2 else Inl []);
                                g3 = (case del of Inl _ \<Rightarrow> g2 | Inr g \<Rightarrow> g);
                                rdel = (if deleteRemoteBranch \<and> local_branch
                                        then gitDeleteRemoteBranch env (wuBranch wu) g3 else Inl []);
                                g4 = (case rdel of Inl _ \<Rightarrow> g3 | Inr g \<Rightarrow> g)
                            in (Inr \<lparr>PreviousBranch = wuBranch wu, CurrentBranch = base,
                                     BranchDeleted = (case del of Inl _ \<Rightarrow> False | Inr _ \<Rightarrow> True),
                                     RemoteBranchDeleted = (case rdel of Inl _ \<Rightarrow> False | Inr _ \<Rightarrow> True)\<rparr>,
                                finishTask env now wu (c\<lparr>cGit := Some g4\<rparr>)))))))"

section \<open>Lemmas\<close>

lemma finish_rows: "list_all (\<lambda>(frm, ev, to). ev = EventFinish \<longrightarrow> to = StateNone) table_rows"
  by code_simp

lemma finish_row: "table_target frm EventFinish = Some to \<Longrightarrow> to = StateNone"
  using table_rows_all [OF finish_rows] by fastforce

lemma stop_rows: "list_all (\<lambda>(frm, ev, to). ev = EventStop \<longrightarrow> isActivePhaseState frm) table_rows"
  by code_simp

lemma stop_row: "table_target frm EventStop = Some to \<Longrightarrow> isActivePhaseState frm"
  using table_rows_all [OF stop_rows] by fastforce

lemma callPool_fields [lifecycle_simps]:
  "cMachine (callPool k c) = cMachine c" "cGit (callPool k c) = cGit c"
  "cStore (callPool k c) = cStore c" "cActiveJobID (callPool k c) = cActiveJobID c"
  "cPool (callPool k c) = map_option (\<lambda>calls. calls @ [k]) (cPool c)"
  by (simp_all add: callPool_def)

lemma foldl_callPool:
  "cMachine (foldl (\<lambda>c j. callPool (f j) c) c js) = cMachine c"
  "cStore (foldl (\<lambda>c j. callPool (f j) c) c js) = cStore c"
  by (induction js arbitrary: c) (simp_all add: callPool_fields)

lemma tryGit_fields [lifecycle_simps]:
  "cMachine (tryGit op c) = cMachine c" "cStore (tryGit op c) = cStore c"
  by (simp_all add: tryGit_def split: option.splits sum.splits)

lemma deleteStored_store:
  assumes "diskError env = None" and "cStore c = Some s"
  shows "\<exists>s'. cStore (deleteStored env wu c) = Some s' \<and> \<not> TaskStateExists (wuID wu) s' \<and>
           (\<forall>n. n \<noteq> wuID wu \<longrightarrow> map_of (sEntries s') n = map_of (sEntries s) n)"
  using assms by (auto simp: deleteStored_def DeleteTaskState_def TaskStateExists_def split: option.splits)

lemma removeArtifacts_store:
  assumes "diskError env = None" and "cStore c = Some s" and "cWorkUnit c = Some wu"
  shows "\<exists>s'. cStore (removeArtifacts env b c) = Some s' \<and> \<not> TaskStateExists (wuID wu) s' \<and>
           (\<forall>n. n \<noteq> wuID wu \<longrightarrow> map_of (sEntries s') n = map_of (sEntries s) n)"
proof -
  let ?c1 = "if b \<and> wuBranch wu \<noteq> [] then tryGit (gitDeleteBranch env (wuBranch wu)) c else c"
  let ?c2 = "if wuWorktreePath wu \<noteq> [] then tryGit (gitRemoveWorktree env (wuWorktreePath wu)) ?c1 else ?c1"
  have "cStore ?c2 = Some s" using assms(2) by (simp add: tryGit_fields)
  from deleteStored_store [OF assms(1) this, of wu] show ?thesis
    using assms(3) by (simp add: removeArtifacts_def Let_def)
qed

lemma finishTask_fields:
  "cState (finishTask env now wu c) = StateNone \<and> cWorkUnit (finishTask env now wu c) = None \<and>
   cStore (finishTask env now wu c) = cStore c"
proof -
  define c1 where "c1 = (case dispatchC now EventFinish c of
      Inl _ \<Rightarrow> c\<lparr>cMachine := Reset (cMachine c)\<rparr> | Inr c1 \<Rightarrow> c1)"
  have c1: "cState c1 = StateNone" "cStore c1 = cStore c"
    using dispatchC_target [of now EventFinish c] finish_row
    by (auto simp: c1_def Reset_def split: sum.splits)
  define c3 where "c3 = emitMsg now ''task_finished'' (''Task finished: '' @ wuTitle wu) (archiveTask now ''finished'' (Some wu) c1)"
  have c3: "cMachine c3 = cMachine c1" "cStore c3 = cStore c1"
    by (simp_all add: c3_def emitMsg_fields archiveTask_def split: option.splits)
  let ?c4 = "persistState env now (c3\<lparr>cMachine := SetWorkUnit now None (cMachine c3)\<rparr>)"
  have c4: "cMachine ?c4 = SetWorkUnit now None (cMachine c3)" "cStore ?c4 = cStore c3"
    by (simp_all add: persistState_def SetWorkUnit_def split: option.splits)
  have "cMachine (finishTask env now wu c) = cMachine ?c4 \<and> cStore (finishTask env now wu c) = cStore ?c4"
    unfolding finishTask_def Let_def c1_def [symmetric] c3_def [symmetric]
    by (auto simp: popNextTask_def emitMsg_fields split: list.splits)
  then show ?thesis using c4 c3 c1 by (simp add: SetWorkUnit_def)
qed

section \<open>Properties\<close>

lemma stop_dispatch:
  assumes "isActivePhaseState (cState c)"
  shows "fst (CanDispatch EventStop (cMachine c)) \<and> (\<exists>c'. dispatchC now EventStop c = Inr c' \<and>
    cState c' = (if mPriorStableState (cMachine c) = noState then errorTarget (cState c)
                 else mPriorStableState (cMachine c)) \<and>
    mPriorStableState (cMachine c') = noState \<and> cPool c' = cPool c \<and> cActiveJobID c' = cActiveJobID c)"
proof -
  from Dispatch_unguarded_row [OF error_stop_row [OF assms], of EventStop now] obtain m ns where
    d: "Dispatch now EventStop (cMachine c) = Inr (m, ns)"
      "mState m = (if rollsBack EventStop (cMachine c) then mPriorStableState (cMachine c) else errorTarget (cState c))"
      "mPriorStableState m = (if rollsBack EventStop (cMachine c) then noState else mPriorStableState (cMachine c))"
    by auto
  have "fst (CanDispatch EventStop (cMachine c))"
    using d(1) unfolding CanDispatch_iff Dispatch_Inr_iff by blast
  with d show ?thesis by (auto simp: dispatchC_def rollsBack_def)
qed

text \<open>
  Stopping ends the running job and rolls back. In every active phase a stop is accepted: the
  pool is told to interrupt and then to cancel the active job, the job is forgotten, the state
  becomes the remembered stable state or else the stable state before the phase, and no rollback
  stays pending. In every other state a stop is refused and changes nothing.
\<close>

theorem stop_rolls_back:
  "if isActivePhaseState (cState c)
   then \<exists>c'. Stop env now c = (None, c') \<and> cActiveJobID c' = [] \<and>
          cPool c' = map_option (\<lambda>calls. calls @ (if cActiveJobID c = [] then []
                       else [InterruptJobCall (cActiveJobID c), CancelJobCall (cActiveJobID c)])) (cPool c) \<and>
          cState c' = (if mPriorStableState (cMachine c) = noState then errorTarget (cState c)
                       else mPriorStableState (cMachine c)) \<and>
          mPriorStableState (cMachine c') = noState
   else Stop env now c = (Some ''cannot stop: not in a stoppable state'', c)"
proof (cases "isActivePhaseState (cState c)")
  case True
  let ?j = "cActiveJobID c"
  let ?c1 = "if ?j \<noteq> [] then callPool (CancelJobCall ?j) (callPool (InterruptJobCall ?j) c) else c"
  let ?c2 = "updateWorkUnit (\<lambda>wu. wu\<lparr>wuCancelledBy := ''user'', wuCancelledAt := now\<rparr>) (?c1\<lparr>cActiveJobID := []\<rparr>)"
  have c2: "cState ?c2 = cState c" "mPriorStableState (cMachine ?c2) = mPriorStableState (cMachine c)"
      "cActiveJobID ?c2 = []"
      "cPool ?c2 = map_option (\<lambda>calls. calls @ (if ?j = [] then [] else [InterruptJobCall ?j, CancelJobCall ?j])) (cPool c)"
    by (auto simp: updateWorkUnit_fields callPool_fields option.map_comp o_def option.map_ident)
  from True c2(1) have "isActivePhaseState (cState ?c2)" by simp
  from stop_dispatch [OF this, of now] obtain c3 where
    "dispatchC now EventStop ?c2 = Inr c3" "cPool c3 = cPool ?c2" "cActiveJobID c3 = []"
    "cState c3 = (if mPriorStableState (cMachine c) = noState then errorTarget (cState c) else mPriorStableState (cMachine c))"
    "mPriorStableState (cMachine c3) = noState"
    unfolding c2(1-3) by blast
  moreover have "fst (CanDispatch EventStop (cMachine c))" using stop_dispatch [OF True] by blast
  ultimately show ?thesis
    using True c2(4) unfolding Stop_def Let_def by (simp add: persistState_fields emit_fields)
next
  case False
  have "table_target (cState c) EventStop = None"
    using stop_row [of "cState c"] False by (cases "table_target (cState c) EventStop") auto
  then have "\<not> fst (CanDispatch EventStop (cMachine c))"
    using table_target_single by (fastforce simp: CanDispatch_iff)
  with False show ?thesis by (simp add: Stop_def)
qed

text \<open>
  A deleted task stays deleted. When the disk works, abandoning a task, and deleting one in a
  terminal state, removes its snapshot from the store and leaves the snapshots of all other tasks
  alone; the machine is back in \<^verbatim>\<open>none\<close> with no work unit and no history.
\<close>

theorem deleted_task_not_stored:
  assumes "diskError env = None" and "cStore c = Some s" and "cWorkUnit c = Some wu"
    and "c' = Abandon env now flag c \<or> Delete env now flag c = (None, c')"
  shows "(\<exists>s'. cStore c' = Some s' \<and> \<not> TaskStateExists (wuID wu) s' \<and>
           (\<forall>n. n \<noteq> wuID wu \<longrightarrow> map_of (sEntries s') n = map_of (sEntries s) n)) \<and>
         cState c' = StateNone \<and> cWorkUnit c' = None \<and> mHistory (cMachine c') = []"
  using assms(4)
proof
  assume c': "c' = Abandon env now flag c"
  let ?c1 = "foldl (\<lambda>c jobID. callPool (CancelJobCall jobID) c) c (wuJobs wu)"
  have "cStore ?c1 = Some s" "cWorkUnit ?c1 = Some wu" using assms(2,3) by (simp_all add: foldl_callPool)
  from removeArtifacts_store [OF assms(1) this, of "\<not> flag"] show ?thesis
    unfolding c' Abandon_def Let_def using assms(3) by (simp add: emitMsg_fields clearTask_def Reset_def)
next
  assume "Delete env now flag c = (None, c')"
  then have "c' = emitMsg now ''task_deleted'' ''Task deleted'' (clearTask (removeArtifacts env flag c))"
    by (simp add: Delete_def split: if_splits)
  with removeArtifacts_store [OF assms(1-3), of flag] show ?thesis
    by (simp add: emitMsg_fields clearTask_def Reset_def)
qed

definition demo_saved :: "(TaskState, string list) Conductor" where
  "demo_saved = persistState demo_env 10 (demo_conductor demo_submitted)"

lemma demo_saved_unit: "\<exists>wu s. cWorkUnit demo_saved = Some wu \<and> wuID wu = ''task-1'' \<and> cStore demo_saved = Some s"
proof -
  have "map_option wuID (cWorkUnit demo_saved) = Some ''task-1''" "cStore demo_saved \<noteq> None" by code_simp+
  then show ?thesis by auto
qed

theorem deleted_task_not_stored_witness:
  "\<exists>c' s'. Delete demo_env 11 False demo_saved = (None, c') \<and> cStore c' = Some s' \<and>
     \<not> TaskStateExists ''task-1'' s' \<and> TaskStateExists ''task-1'' (the (cStore demo_saved))"
proof -
  have n: "fst (Delete demo_env 11 False demo_saved) = None"
    and e: "TaskStateExists ''task-1'' (the (cStore demo_saved))" by code_simp+
  obtain c' where c': "Delete demo_env 11 False demo_saved = (None, c')"
    using n by (cases "Delete demo_env 11 False demo_saved") auto
  obtain wu s where wu: "cWorkUnit demo_saved = Some wu" "wuID wu = ''task-1''" and s: "cStore demo_saved = Some s"
    using demo_saved_unit by blast
  have d: "diskError demo_env = None" by (simp add: demo_env_def)
  show ?thesis using c' e deleted_task_not_stored [OF d s wu(1) disjI2 [OF c']] wu(2) by auto
qed

text \<open>
  A finished task comes back. A successful finish clears the work unit and the state, but it
  clears the work unit before it persists, so nothing is written and the old snapshot stays. If the
  store held the submitted task, a restart after the finish therefore loads it again, in
  \<^verbatim>\<open>submitted\<close>.
\<close>

theorem finished_task_comes_back:
  assumes "Finish env now remote force c = (Inr res, c')"
    and "cStore c = Some s" and "diskError env = None"
    and "FindActiveTask (yamlUnmarshal env) None s = Inr taskID" and "taskID \<noteq> []"
    and "LoadTaskState (yamlUnmarshal env) taskID s = Inr ts" and "tsState ts = ''submitted''"
    and "cStore fresh = cStore c'"
  shows "cState c' = StateNone \<and> cWorkUnit c' = None \<and>
         (\<exists>c2. LoadState env now' fresh = (None, c2) \<and> cState c2 = StateSubmitted \<and> cWorkUnit c2 \<noteq> None)"
proof -
  from assms(1) obtain wu g where c': "c' = finishTask env now wu (c\<lparr>cGit := Some g\<rparr>)"
    by (auto simp: Finish_def Let_def split: option.splits if_splits sum.splits)
  note f = finishTask_fields [of env now wu "c\<lparr>cGit := Some g\<rparr>", folded c']
  have "string_state ''submitted'' = StateSubmitted" by code_simp
  with assms f show ?thesis
    by (auto simp: LoadState_def taskStateToWorkUnit_def RestoreHistory_def SetWorkUnit_def ForceState_def)
qed

theorem finished_task_comes_back_witness:
  "\<exists>res c' c2. Finish demo_env 11 False False demo_saved = (Inr res, c') \<and> cWorkUnit c' = None \<and>
     LoadState demo_env 12 ((demo_conductor NewMachine)\<lparr>cStore := cStore c'\<rparr>) = (None, c2) \<and>
     cState c2 = StateSubmitted"
proof -
  have n: "case Finish demo_env 11 False False demo_saved of (Inl _, _) \<Rightarrow> False | _ \<Rightarrow> True"
    and fnd: "map_option (FindActiveTask (yamlUnmarshal demo_env) None) (cStore demo_saved) = Some (Inr ''task-1'')"
    and ld: "map_option (\<lambda>s. case LoadTaskState (yamlUnmarshal demo_env) ''task-1'' s of
               Inl _ \<Rightarrow> [] | Inr ts \<Rightarrow> tsState ts) (cStore demo_saved) = Some ''submitted''"
    by code_simp+
  obtain res c' where c': "Finish demo_env 11 False False demo_saved = (Inr res, c')"
    using n by (cases "Finish demo_env 11 False False demo_saved") (auto split: sum.splits)
  obtain s where s: "cStore demo_saved = Some s" using demo_saved_unit by blast
  have fnd': "FindActiveTask (yamlUnmarshal demo_env) None s = Inr ''task-1''" using fnd s by simp
  obtain ts where ts: "LoadTaskState (yamlUnmarshal demo_env) ''task-1'' s = Inr ts" "tsState ts = ''submitted''"
    using ld s by (cases "LoadTaskState (yamlUnmarshal demo_env) ''task-1'' s") auto
  have d: "diskError demo_env = None" by (simp add: demo_env_def)
  show ?thesis
    using c' finished_task_comes_back [OF c' s d fnd' _ ts, of "(demo_conductor NewMachine)\<lparr>cStore := cStore c'\<rparr>" 12]
    by auto
qed

end
