(* ===== verification/Submission.thy ===== *)
theory Submission
  imports Submit_Policy Task_End
begin

text \<open>
  The rest of \<^verbatim>\<open>Submit\<close> in src/internal/conductor/conductor_submit.go, after its checks: the changelog, the push, the pull
  request, and the transition of the state machine. The local repository is changed by the operations of the
  conductor's environment; what is sent to the remote repository and to the provider is recorded in order. The
  background jobs that a submission starts are not modelled. \<open>Submit\<close> is a submission that has the conductor for itself;
  \<open>Submission_Windows\<close> adds what others do while its lock is released.
\<close>

section \<open>State and environment\<close>

record PROptions =
  poTitle :: string
  poBody :: string
  poHead :: string
  poBase :: string
  poTaskID :: string
  poTaskURL :: string

datatype Remote = Pushed string | CreatedPR PROptions | Commented string string

record ('y, 'g) SubmitRun =
  srS :: "('y, 'g) Submission"
  srChangelog :: "string option"
  srRemote :: "Remote list"

record Protection =
  bpRequireReviews :: bool
  bpMinReviewers :: int
  bpRequiredChecks :: "string list"

record PRSettings =
  prRequiredSections :: "string list"
  prCustomSections :: "PRSection list"
  prTitlePattern :: string
  prChangelog :: bool
  prAllowComment :: "string \<Rightarrow> bool"

text \<open>
  The answers of the outside: the error of the push, the creation of a pull request by the provider of a name if
  that provider can, the protection of a branch if it is known, and the texts that go into the body.
\<close>

record NetEnv =
  nePush :: "string \<Rightarrow> string option"
  neProviders :: "string \<Rightarrow> (PROptions \<Rightarrow> (string \<times> string) result) option"
  neProtection :: "string \<Rightarrow> string \<Rightarrow> string \<Rightarrow> Protection option"
  neReadFile :: "string \<Rightarrow> string option"
  neRepoPath :: string
  neDiffText :: string
  neSpec :: string
  neReview :: "string option"
  neDecisions :: string
  neWrite :: "(string \<times> string option) option"

definition onConductor :: "(('y, 'g) Conductor \<Rightarrow> ('y, 'g) Conductor) \<Rightarrow> ('y, 'g) SubmitRun \<Rightarrow> ('y, 'g) SubmitRun" where
  "onConductor f r = r\<lparr>srS := (srS r)\<lparr>suC := f (suC (srS r))\<rparr>\<rparr>"

definition send :: "Remote \<Rightarrow> ('y, 'g) SubmitRun \<Rightarrow> ('y, 'g) SubmitRun" where
  "send e r = r\<lparr>srRemote := srRemote r @ [e]\<rparr>"

section \<open>Changelog\<close>

text \<open>An entry that is written is committed; an error is only logged.\<close>

definition submitChangelog :: "('y, 'g) Env \<Rightarrow> NetEnv \<Rightarrow> PRSettings \<Rightarrow> WorkUnit \<Rightarrow> ('y, 'g) SubmitRun \<Rightarrow> ('y, 'g) SubmitRun" where
  "submitChangelog env net ps wu r =
     (if \<not> prChangelog ps \<or> cGit (suC (srS r)) = None then r
      else (case AppendEntry (neWrite net) \<lparr>ceTitle = wuTitle wu, ceTaskID = wuExternalID wu, cePRURL = [], ceCategory = []\<rparr> (srChangelog r) of
              (Some _, file) \<Rightarrow> r\<lparr>srChangelog := file\<rparr>
            | (None, file) \<Rightarrow>
                onConductor (tryGit (\<lambda>g. map_sum id snd (gitCommit env (''Update changelog for '' @ wuTitle wu) g)))
                  (r\<lparr>srChangelog := file\<rparr>)))"

section \<open>Pull request\<close>

definition sourceProvider :: "WorkUnit \<Rightarrow> string" where
  "sourceProvider wu = (case wuSource wu of None \<Rightarrow> [] | Some src \<Rightarrow> Provider src)"

definition sourceURL :: "WorkUnit \<Rightarrow> string" where
  "sourceURL wu = (case wuSource wu of None \<Rightarrow> [] | Some src \<Rightarrow> URL src)"

definition warnProtection :: "NetEnv \<Rightarrow> time \<Rightarrow> WorkUnit \<Rightarrow> string \<Rightarrow> ('y, 'g) Conductor \<Rightarrow> ('y, 'g) Conductor" where
  "warnProtection net now wu base c =
     (case parseOwnerRepo (wuExternalID wu) of
        (owner, repo) \<Rightarrow>
          if owner = [] \<or> repo = [] then c
          else (case neProtection net owner repo base of
                  None \<Rightarrow> c
                | Some p \<Rightarrow>
                    (let c1 = (if bpRequireReviews p \<and> 0 < bpMinReviewers p
                               then emitPlain now ''warning'' (''Branch '' @ quote base @ '' requires '' @ format_int (bpMinReviewers p) @
                                      '' reviewer(s) before merge'') c else c)
                     in if bpRequiredChecks p \<noteq> []
                        then emitPlain now ''warning'' (''Branch '' @ quote base @ '' has '' @ decimal (length (bpRequiredChecks p)) @
                               '' required status check(s)'') c1 else c1)))"

definition prContextOf :: "NetEnv \<Rightarrow> ('y, 'g) Conductor \<Rightarrow> WorkUnit \<Rightarrow> prContext" where
  "prContextOf net c wu =
     (if cStore c = None \<or> wuID wu = [] then \<lparr>pcSpecContent = [], pcReviewSummary = [], pcDecisions = neDecisions net\<rparr>
      else \<lparr>pcSpecContent = neSpec net,
            pcReviewSummary = buildReviewSummary (neReview net) (wuChecklistChecked wu) (wuQualityGatePassed wu),
            pcDecisions = neDecisions net\<rparr>)"

definition prBody :: "SubmitEnv \<Rightarrow> NetEnv \<Rightarrow> PRSettings \<Rightarrow> ('y, 'g) SubmitRun \<Rightarrow> WorkUnit \<Rightarrow> string" where
  "prBody se net ps r wu =
     (let tmpl = detectPRTemplate (neReadFile net) (neRepoPath net) in
      if tmpl \<noteq> [] then fillPRTemplate tmpl (wuDescription wu) (int (length (wuCheckpoints wu))) (sourceURL wu)
      else buildPRDescriptionWithDecisions (wuDescription wu) (int (length (wuSpecifications wu))) (int (length (wuCheckpoints wu)))
             (neDiffText net) (changedFilesOf se (srS r)) (prCustomSections ps) (prContextOf net (suC (srS r)) wu))"

definition prOptions :: "SubmitEnv \<Rightarrow> NetEnv \<Rightarrow> PRSettings \<Rightarrow> ('y, 'g) SubmitRun \<Rightarrow> WorkUnit \<Rightarrow> string \<Rightarrow> PROptions" where
  "prOptions se net ps r wu base =
     \<lparr>poTitle = interpolatePRTitle (prTitlePattern ps) (cWorkUnit (suC (srS r))) (wuTitle wu), poBody = prBody se net ps r wu, poHead = wuBranch wu, poBase = base,
      poTaskID = wuExternalID wu, poTaskURL = sourceURL wu\<rparr>"

text \<open>The pull request after the push: an error, or the identifier of the request, empty if there is none.\<close>

definition openPR :: "('y, 'g) Env \<Rightarrow> SubmitEnv \<Rightarrow> NetEnv \<Rightarrow> PRSettings \<Rightarrow> time \<Rightarrow> WorkUnit \<Rightarrow> ('y, 'g) SubmitRun \<Rightarrow> string result \<times> ('y, 'g) SubmitRun" where
  "openPR env se net ps now wu r =
     (if sourceProvider wu = [] then (Inr [], r)
      else (case neProviders net (sourceProvider wu) of
              None \<Rightarrow> (Inr [], r)
            | Some create \<Rightarrow>
                (case baseBranch env of
                   Inl err \<Rightarrow> (Inl (''determine base branch for PR: '' @ err), r)
                 | Inr base \<Rightarrow>
                     (let r1 = onConductor (warnProtection net now wu base) r;
                          opts = prOptions se net ps r wu base;
                          missing = validatePRSections (poBody opts) (prRequiredSections ps)
                      in if missing \<noteq> [] then (Inl (''PR template has unfilled required sections: '' @ joinWith '', '' missing), r1)
                         else if wuPRID wu \<noteq> [] then (Inr (wuPRID wu), r1)
                         else (case create opts of
                                 Inl err \<Rightarrow> (Inl (''create PR: '' @ err), onConductor (emitEnrichedError now (''create PR: '' @ err) ''submit'') r1)
                               | Inr (url, prID) \<Rightarrow>
                                   (Inr prID,
                                    (if prAllowComment ps (sourceProvider wu)
                                     then send (Commented (wuExternalID wu) (''Pull request created: '' @ url)) (send (CreatedPR opts) r1)
                                     else send (CreatedPR opts) r1)))))))"

definition submitNetwork :: "('y, 'g) Env \<Rightarrow> SubmitEnv \<Rightarrow> NetEnv \<Rightarrow> PRSettings \<Rightarrow> bool \<Rightarrow> time \<Rightarrow> WorkUnit \<Rightarrow> ('y, 'g) SubmitRun \<Rightarrow> string result \<times> ('y, 'g) SubmitRun" where
  "submitNetwork env se net ps deleteBranch now wu r =
     (if cGit (suC (srS r)) = None \<or> wuBranch wu = [] then (Inr [], r)
      else (case nePush net (wuBranch wu) of
              Some err \<Rightarrow>
                (Inl (''push branch '' @ wuBranch wu @ '': '' @ err),
                 onConductor (emitEnrichedError now (''push branch '' @ wuBranch wu @ '': '' @ err) ''submit'') r)
            | None \<Rightarrow>
                (case openPR env se net ps now wu (send (Pushed (wuBranch wu)) r) of
                   (Inl err, r1) \<Rightarrow> (Inl err, r1)
                 | (Inr prID, r1) \<Rightarrow>
                     (Inr prID, if deleteBranch then onConductor (tryGit (gitDeleteBranch env (wuBranch wu))) r1 else r1))))"

section \<open>The transition\<close>

definition submitFinish :: "('y, 'g) Env \<Rightarrow> time \<Rightarrow> WorkUnit \<Rightarrow> string \<Rightarrow> ('y, 'g) SubmitRun \<Rightarrow> string option \<times> ('y, 'g) SubmitRun" where
  "submitFinish env now wu prID r =
     (case dispatchC now EventSubmit (suC (srS r)) of
        Inl err \<Rightarrow> (Some (''state transition failed: '' @ err), r)
      | Inr c \<Rightarrow>
          (let c1 = (if wuWorktreePath wu \<noteq> [] then tryGit (gitRemoveWorktree env (wuWorktreePath wu)) c else c);
               c2 = updateWorkUnit (\<lambda>w. w\<lparr>wuWorktreePath := [], wuPRID := (if prID \<noteq> [] then prID else wuPRID w)\<rparr>) c1
           in (None, onConductor (\<lambda>_. emitMsg now ''task_submitted'' ''Task submitted'' (persistState env now c2)) r)))"

text \<open>What follows the checks, for the work unit that they leave.\<close>

definition submitOps :: "('y, 'g) Env \<Rightarrow> SubmitEnv \<Rightarrow> NetEnv \<Rightarrow> PRSettings \<Rightarrow> bool \<Rightarrow> time \<Rightarrow> ('y, 'g) SubmitRun \<Rightarrow> string option \<times> ('y, 'g) SubmitRun" where
  "submitOps env se net ps deleteBranch now r =
     (let wu = unitOf (srS r) in
      case submitNetwork env se net ps deleteBranch now wu (submitChangelog env net ps wu r) of
        (Inl err, r1) \<Rightarrow> (Some err, r1)
      | (Inr prID, r1) \<Rightarrow> submitFinish env now wu prID r1)"

definition Submit :: "('y, 'g) Env \<Rightarrow> SubmitEnv \<Rightarrow> NetEnv \<Rightarrow> SubmitSettings \<Rightarrow> PRSettings \<Rightarrow> bool \<Rightarrow> time \<Rightarrow> ('y, 'g) SubmitRun \<Rightarrow> (string option \<times> ('y, 'g) SubmitRun) option" where
  "Submit env se net st ps deleteBranch now r =
     (case submitPreflight se st now (srS r) of
        None \<Rightarrow> None
      | Some (Some err, s) \<Rightarrow> Some (Some err, r\<lparr>srS := s\<rparr>)
      | Some (None, s) \<Rightarrow> Some (submitOps env se net ps deleteBranch now (r\<lparr>srS := s\<rparr>)))"

section \<open>Lemmas\<close>

text \<open>The checks leave the state of the machine and its history alone, whether they pass or not.\<close>

definition samePlace :: "('y, 'g) Submission \<Rightarrow> ('y, 'g) Submission \<Rightarrow> bool" where
  "samePlace s s' \<longleftrightarrow> cState (suC s') = cState (suC s) \<and> mHistory (cMachine (suC s')) = mHistory (cMachine (suC s)) \<and>
     map_option wuPRID (cWorkUnit (suC s')) = map_option wuPRID (cWorkUnit (suC s))"

definition keepsPlace :: "('y, 'g) check \<Rightarrow> bool" where
  "keepsPlace f \<longleftrightarrow> (\<forall>s r s'. f s = Some (r, s') \<longrightarrow> samePlace s s')"

lemma samePlace_refl [simp]: "samePlace s s"
  by (simp add: samePlace_def)

lemma samePlace_trans: "samePlace s t \<Longrightarrow> samePlace t u \<Longrightarrow> samePlace s u"
  by (simp add: samePlace_def)

lemma keepsPlace_plain: "(\<And>s. f s = plain (err s) s) \<Longrightarrow> keepsPlace f"
  by (simp add: keepsPlace_def)

lemma runChecks_keepsPlace: "\<forall>f \<in> set fs. keepsPlace f \<Longrightarrow> keepsPlace (runChecks fs)"
proof (induction fs)
  case (Cons f fs)
  have "samePlace s s'" if "runChecks (f # fs) s = Some (r, s')" for s r s'
  proof (cases "\<exists>t. f s = Some (None, t)")
    case True
    then obtain t where t: "f s = Some (None, t)" by blast
    with that have "runChecks fs t = Some (r, s')" by simp
    then have "samePlace t s'" using Cons by (simp add: keepsPlace_def)
    moreover have "samePlace s t" using Cons.prems t by (simp add: keepsPlace_def)
    ultimately show ?thesis by (blast intro: samePlace_trans)
  next
    case False
    with that have "f s = Some (r, s')" by (auto split: option.splits)
    with Cons.prems show ?thesis by (auto simp: keepsPlace_def)
  qed
  then show ?case by (simp add: keepsPlace_def)
qed (simp add: keepsPlace_def)

lemma taskCheck_keeps: "keepsPlace (taskCheck now)"
  by (auto simp: keepsPlace_def taskCheck_def samePlace_def phase_simps split: if_splits)

lemma hookCheck_keeps: "keepsPlace (hookCheck env st now)"
  by (auto simp: keepsPlace_def hookCheck_def samePlace_def phase_simps split: option.splits)

lemma approvalCheck_keeps: "keepsPlace (approvalCheck env st now)"
  by (auto simp: keepsPlace_def approvalCheck_def phaseApproval_def samePlace_def dest: checkApproval_Some(1))

lemma otherGate_PRID: "wuPRID (otherGate env wu) = wuPRID wu"
  by (simp add: otherGate_def split: option.split prod.split)

lemma gateCheck_keeps: "keepsPlace (gateCheck env)"
  unfolding keepsPlace_def samePlace_def
  by (auto simp: gateCheck_def setGatePassed_def plain_def Let_def lifecycle_simps option.map_comp comp_def otherGate_PRID
      split: option.splits if_splits)

lemma preflight_keeps: "keepsPlace (submitPreflight se st now)"
proof -
  have "keepsPlace (checklistCheck st)" "keepsPlace (phasesCheck st)" "keepsPlace (groupCheck se st)" "keepsPlace (policyCheck se st)"
    "keepsPlace (sensitiveCheck se st)" "keepsPlace (scanCheck st)" "keepsPlace dispatchCheck"
    by (rule keepsPlace_plain, simp add: checklistCheck_def phasesCheck_def groupCheck_def policyCheck_def sensitiveCheck_def
        scanCheck_def dispatchCheck_def)+
  then show ?thesis
    unfolding submitPreflight_def
    by (intro runChecks_keepsPlace) (simp add: taskCheck_keeps hookCheck_keeps approvalCheck_keeps gateCheck_keeps)
qed

lemma preflight_place: "submitPreflight se st now s = Some (x, s') \<Longrightarrow> samePlace s s'"
  using preflight_keeps [of se st now] unfolding keepsPlace_def by blast

text \<open>The operations before the transition leave the machine alone.\<close>

abbreviation machineOf :: "('y, 'g) SubmitRun \<Rightarrow> Machine" where
  "machineOf r \<equiv> cMachine (suC (srS r))"

lemma onConductor_fields [simp]:
  "machineOf (onConductor f r) = cMachine (f (suC (srS r)))" "srRemote (onConductor f r) = srRemote r"
  "srChangelog (onConductor f r) = srChangelog r"
  by (simp_all add: onConductor_def)

lemma send_fields [simp]: "srS (send e r) = srS r" "srRemote (send e r) = srRemote r @ [e]" "srChangelog (send e r) = srChangelog r"
  by (simp_all add: send_def)

lemma warnProtection_machine [simp]: "cMachine (warnProtection net now wu base c) = cMachine c"
  by (simp add: warnProtection_def Let_def phase_simps split: prod.splits option.splits)

lemma submitChangelog_fields [simp]:
  "machineOf (submitChangelog env net ps wu r) = machineOf r" "srRemote (submitChangelog env net ps wu r) = srRemote r"
  by (simp_all add: submitChangelog_def lifecycle_simps split: prod.splits option.splits)

lemma openPR_machine: "openPR env se net ps now wu r = (x, r') \<Longrightarrow> machineOf r' = machineOf r"
  by (auto simp: openPR_def Let_def phase_simps split: if_splits option.splits sum.splits prod.splits)

lemma submitNetwork_machine: "submitNetwork env se net ps b now wu r = (x, r') \<Longrightarrow> machineOf r' = machineOf r"
  by (auto simp: submitNetwork_def emits_keep tryGit_fields split: if_splits option.splits sum.splits prod.splits dest: openPR_machine)

text \<open>What is sent: nothing, the push, or the push and then a pull request for the pushed branch, with or without a comment.\<close>

definition sentFor :: "WorkUnit \<Rightarrow> Remote list \<Rightarrow> bool" where
  "sentFor wu effs \<longleftrightarrow> effs = [] \<or> effs = [Pushed (wuBranch wu)] \<or>
     (wuPRID wu = [] \<and> (\<exists>opts rest. effs = Pushed (wuBranch wu) # CreatedPR opts # rest \<and> poHead opts = wuBranch wu \<and>
        (rest = [] \<or> (\<exists>i text. rest = [Commented i text]))))"

lemma openPR_sent:
  "openPR env se net ps now wu r = (x, r') \<Longrightarrow>
   srRemote r' = srRemote r \<or>
   (wuPRID wu = [] \<and> (\<exists>opts rest. srRemote r' = srRemote r @ CreatedPR opts # rest \<and> poHead opts = wuBranch wu \<and>
      (rest = [] \<or> (\<exists>i text. rest = [Commented i text]))))"
  by (auto simp: openPR_def Let_def prOptions_def split: if_splits option.splits sum.splits prod.splits)

lemma submitNetwork_sent:
  assumes "submitNetwork env se net ps b now wu r = (x, r')"
  shows "\<exists>effs. srRemote r' = srRemote r @ effs \<and> sentFor wu effs"
proof (cases "cGit (suC (srS r)) = None \<or> wuBranch wu = [] \<or> nePush net (wuBranch wu) \<noteq> None")
  case True
  with assms show ?thesis by (auto simp: submitNetwork_def sentFor_def split: if_splits)
next
  case False
  obtain y r1 where o: "openPR env se net ps now wu (send (Pushed (wuBranch wu)) r) = (y, r1)" by fastforce
  with False assms have "srRemote r' = srRemote r1" by (auto simp: submitNetwork_def split: sum.splits if_splits)
  with openPR_sent [OF o] show ?thesis by (auto simp: sentFor_def)
qed

lemma submitFinish_outcome:
  assumes "fst (CanDispatch EventSubmit (machineOf r))"
  shows "\<exists>r'. submitFinish env now wu prID r = (None, r') \<and> mState (machineOf r') = StateSubmitted \<and>
    mHistory (machineOf r') = mHistory (machineOf r) @
      [\<lparr>heFrom = mState (machineOf r), heTo = StateSubmitted, heEvent = EventSubmit, heTimestamp = now\<rparr>] \<and>
    srRemote r' = srRemote r \<and> map_option wuWorktreePath (mWorkUnit (machineOf r')) = map_option (\<lambda>_. []) (mWorkUnit (machineOf r)) \<and>
    (prID \<noteq> [] \<longrightarrow> map_option wuPRID (mWorkUnit (machineOf r')) = map_option (\<lambda>_. prID) (mWorkUnit (machineOf r)))"
proof -
  from assms obtain t where t: "map_of TransitionTable (mState (machineOf r), EventSubmit) = Some [t]"
    "EvaluateGuards (mWorkUnit (machineOf r)) (Guards t)" by (auto simp: CanDispatch_iff)
  then have "mState (machineOf r) = StateReviewing" by (auto dest: table_target_single row_submit)
  with t(1) have to: "To t = StateSubmitted" by (auto simp: submit_lookup)
  from t have d: "Dispatch now EventSubmit (machineOf r) = Inr (applyTransition now EventSubmit t (machineOf r))"
    by (simp add: Dispatch_Inr_iff)
  have persist: "map_option wuWorktreePath (cWorkUnit (persistState env now c)) = map_option wuWorktreePath (cWorkUnit c)"
    "map_option wuPRID (cWorkUnit (persistState env now c)) = map_option wuPRID (cWorkUnit c)" for c
    by (auto simp: persistState_def persistVarPool_unit Let_def pathedUnit_def split: option.splits sum.splits bool.splits)
  show ?thesis
    using d to
    by (cases "applyTransition now EventSubmit t (machineOf r)")
      (auto simp: submitFinish_def dispatchC_def Let_def lifecycle_simps persist rollsBack_def option.map_comp comp_def touch_def
        dest!: arg_cong [where f = fst])
qed

section \<open>Properties\<close>

lemma submit_cases:
  assumes "Submit env se net st ps b now r = Some (err, r')"
  obtains (refused) e s where "err = Some e" "submitPreflight se st now (srS r) = Some (Some e, s)" "r' = r\<lparr>srS := s\<rparr>"
  | (stopped) e s where "err = Some e" "submitPreflight se st now (srS r) = Some (None, s)" "machineOf r' = cMachine (suC s)"
      "submitNetwork env se net ps b now (unitOf s) (submitChangelog env net ps (unitOf s) (r\<lparr>srS := s\<rparr>)) = (Inl e, r')"
  | (submitted) s prID r1 where "err = None" "submitPreflight se st now (srS r) = Some (None, s)" "machineOf r1 = cMachine (suC s)"
      "submitNetwork env se net ps b now (unitOf s) (submitChangelog env net ps (unitOf s) (r\<lparr>srS := s\<rparr>)) = (Inr prID, r1)"
      "submitFinish env now (unitOf s) prID r1 = (None, r')"
proof (cases "\<exists>s. submitPreflight se st now (srS r) = Some (None, s)")
  case False
  with assms show thesis by (auto simp: Submit_def intro: refused split: option.splits)
next
  case True
  then obtain s where s: "submitPreflight se st now (srS r) = Some (None, s)" by blast
  obtain x r1 where n: "submitNetwork env se net ps b now (unitOf s) (submitChangelog env net ps (unitOf s) (r\<lparr>srS := s\<rparr>)) = (x, r1)"
    by fastforce
  have m: "machineOf r1 = cMachine (suC s)" using submitNetwork_machine [OF n] by simp
  have ops: "submitOps env se net ps b now (r\<lparr>srS := s\<rparr>) = (err, r')" using assms s by (simp add: Submit_def)
  show thesis
  proof (cases x)
    case (Inl e)
    with n ops have "err = Some e" "r' = r1" by (simp_all add: submitOps_def Let_def)
    with n m Inl s show thesis by (intro stopped) simp_all
  next
    case (Inr prID)
    have "fst (CanDispatch EventSubmit (machineOf r1))" using preflight_conditions [OF s] m by auto
    from submitFinish_outcome [OF this, of env now "unitOf s" prID] obtain r2 where f: "submitFinish env now (unitOf s) prID r1 = (None, r2)" by blast
    with n ops Inr have "err = None" "r' = r2" by (simp_all add: submitOps_def Let_def)
    with n m Inr s f show thesis by (intro submitted) simp_all
  qed
qed

definition demo_net :: NetEnv where
  "demo_net = \<lparr>nePush = (\<lambda>_. None), neProviders = (\<lambda>_. Some (\<lambda>_. Inr (''https://host/1'', ''1''))), neProtection = (\<lambda>_ _ _. None),
     neReadFile = (\<lambda>_. None), neRepoPath = ''/p'', neDiffText = [], neSpec = [], neReview = None, neDecisions = [], neWrite = None\<rparr>"

definition demo_pr :: PRSettings where
  "demo_pr = \<lparr>prRequiredSections = [''Summary''], prCustomSections = [], prTitlePattern = [], prChangelog = True, prAllowComment = (\<lambda>_. True)\<rparr>"

definition demo_run :: "(TaskState, string list) SubmitRun" where
  "demo_run = \<lparr>srS = demo_submission\<lparr>suC := updateWorkUnit (\<lambda>wu. wu\<lparr>wuBranch := ''feature/x''\<rparr>) (suC demo_submission)\<rparr>, srChangelog = None, srRemote = []\<rparr>"

definition succeeds :: "(string option \<times> ('y, 'g) SubmitRun) option \<Rightarrow> bool" where
  "succeeds x \<longleftrightarrow> (case x of Some (None, _) \<Rightarrow> True | _ \<Rightarrow> False)"

lemma succeeds_iff: "succeeds x \<longleftrightarrow> (\<exists>r. x = Some (None, r))"
  by (auto simp: succeeds_def split: option.splits)

text \<open>
  C27: A submission that has the conductor for itself never opens a second pull request: what it sends is nothing, the push of the branch, or the push
  followed by one new pull request for that branch, and the latter only if the task has no pull request yet.
\<close>

theorem at_most_one_pull_request:
  assumes "Submit env se net st ps b now r = Some (err, r')"
  shows "\<exists>effs. srRemote r' = srRemote r @ effs \<and> (effs = [] \<or> (\<exists>branch. effs = [Pushed branch] \<or>
    (map_option wuPRID (mWorkUnit (machineOf r)) = Some [] \<and>
     (\<exists>opts rest. effs = Pushed branch # CreatedPR opts # rest \<and> poHead opts = branch \<and> (rest = [] \<or> (\<exists>i text. rest = [Commented i text]))))))"
  using assms
proof (cases rule: submit_cases)
  case (refused e s)
  then show ?thesis by simp
next
  case (stopped e s)
  have "map_option wuPRID (mWorkUnit (machineOf r)) = Some (wuPRID (unitOf s))"
    using preflight_conditions [OF stopped(2)] preflight_place [OF stopped(2)] by (auto simp: samePlace_def unitOf_def)
  with submitNetwork_sent [OF stopped(4)] show ?thesis by (auto simp: sentFor_def)
next
  case (submitted s prID r1)
  have "map_option wuPRID (mWorkUnit (machineOf r)) = Some (wuPRID (unitOf s))"
    using preflight_conditions [OF submitted(2)] preflight_place [OF submitted(2)] by (auto simp: samePlace_def unitOf_def)
  moreover have "fst (CanDispatch EventSubmit (machineOf r1))" using preflight_conditions [OF submitted(2)] submitted(3) by auto
  then have "srRemote r' = srRemote r1" using submitFinish_outcome [of r1 env now "unitOf s" prID] submitted(5) by auto
  ultimately show ?thesis using submitNetwork_sent [OF submitted(4)] by (auto simp: sentFor_def)
qed

theorem at_most_one_pull_request_witness:
  "\<exists>r' effs. Submit demo_env demo_submit_env demo_net demo_settings demo_pr False 9 demo_run = Some (None, r') \<and> srRemote r' = [] @ effs"
proof -
  have "succeeds (Submit demo_env demo_submit_env demo_net demo_settings demo_pr False 9 demo_run)" by code_simp
  then obtain r' where s: "Submit demo_env demo_submit_env demo_net demo_settings demo_pr False 9 demo_run = Some (None, r')"
    by (auto simp: succeeds_iff)
  from at_most_one_pull_request [OF s] have "\<exists>effs. srRemote r' = srRemote demo_run @ effs" by blast
  with s show ?thesis by (auto simp: demo_run_def)
qed

text \<open>
  A missing section of the pull request is found too late: a submission that passes its checks and whose body lacks a
  required section fails only after it has pushed the branch, and with a changelog it has added an entry, so that
  every further attempt adds one more.
\<close>

theorem missing_section_is_found_after_push:
  assumes "cGit (suC (srS r)) \<noteq> None" "wuBranch (unitOf (srS r)) \<noteq> []" "nePush net (wuBranch (unitOf (srS r))) = None"
    and "sourceProvider (unitOf (srS r)) \<noteq> []" "neProviders net (sourceProvider (unitOf (srS r))) = Some create" "baseBranch env = Inr base"
    and "prChangelog ps" "neWrite net = None"
    and "validatePRSections (prBody se net ps r (unitOf (srS r))) (prRequiredSections ps) \<noteq> []"
    and "submitOps env se net ps b now r = (err, r')"
  shows "err \<noteq> None" "srRemote r' = srRemote r @ [Pushed (wuBranch (unitOf (srS r)))]"
    "srChangelog r' = Some (changelogContent (srChangelog r)
       \<lparr>ceTitle = wuTitle (unitOf (srS r)), ceTaskID = wuExternalID (unitOf (srS r)), cePRURL = [], ceCategory = []\<rparr>)"
proof -
  let ?wu = "unitOf (srS r)"
  let ?r1 = "submitChangelog env net ps ?wu r"
  have git: "cGit (suC (srS ?r1)) \<noteq> None" and log: "srChangelog ?r1 = Some (changelogContent (srChangelog r)
       \<lparr>ceTitle = wuTitle ?wu, ceTaskID = wuExternalID ?wu, cePRURL = [], ceCategory = []\<rparr>)"
    using assms(1,7,8) by (auto simp: submitChangelog_def AppendEntry_def onConductor_def tryGit_def split: option.splits sum.splits)
  have "cStore (suC (srS ?r1)) = cStore (suC (srS r))"
    by (simp add: submitChangelog_def onConductor_def tryGit_fields split: prod.splits option.splits)
  with git assms(1) have "prBody se net ps (send (Pushed (wuBranch ?wu)) ?r1) ?wu = prBody se net ps r ?wu"
    by (auto simp: prBody_def prContextOf_def changedFilesOf_def Let_def)
  with assms(4,5,6,9) have open_fails: "\<exists>e. openPR env se net ps now ?wu (send (Pushed (wuBranch ?wu)) ?r1) =
      (Inl e, onConductor (warnProtection net now ?wu base) (send (Pushed (wuBranch ?wu)) ?r1))"
    by (simp add: openPR_def Let_def prOptions_def)
  then obtain e where "submitOps env se net ps b now r = (Some e, onConductor (warnProtection net now ?wu base) (send (Pushed (wuBranch ?wu)) ?r1))"
    using git assms(2,3) by (auto simp: submitOps_def submitNetwork_def Let_def)
  with assms(10) log show "err \<noteq> None" "srRemote r' = srRemote r @ [Pushed (wuBranch ?wu)]"
    "srChangelog r' = Some (changelogContent (srChangelog r)
       \<lparr>ceTitle = wuTitle ?wu, ceTaskID = wuExternalID ?wu, cePRURL = [], ceCategory = []\<rparr>)" by auto
qed

theorem missing_section_is_found_after_push_witness:
  "srRemote (snd (submitOps demo_env demo_submit_env demo_net (demo_pr\<lparr>prRequiredSections := [''Tests'']\<rparr>) False 9 demo_run)) = [Pushed ''feature/x''] \<and>
   fst (submitOps demo_env demo_submit_env demo_net (demo_pr\<lparr>prRequiredSections := [''Tests'']\<rparr>) False 9 demo_run) \<noteq> None"
proof -
  let ?ps = "demo_pr\<lparr>prRequiredSections := [''Tests'']\<rparr>"
  obtain err r' where ops: "submitOps demo_env demo_submit_env demo_net ?ps False 9 demo_run = (err, r')" by fastforce
  have wu: "wuBranch (unitOf (srS demo_run)) = ''feature/x''" "sourceProvider (unitOf (srS demo_run)) = ''file''" by code_simp+
  have fails: "validatePRSections (prBody demo_submit_env demo_net ?ps demo_run (unitOf (srS demo_run))) (prRequiredSections ?ps) \<noteq> []" by code_simp
  have "cGit (suC (srS demo_run)) \<noteq> None" by code_simp
  note late = missing_section_is_found_after_push [OF this _ _ _ _ _ _ _ fails ops, where base = "''main''" and create = "\<lambda>_. Inr (''https://host/1'', ''1'')"]
  have "err \<noteq> None" by (rule late(1)) (simp_all add: wu demo_net_def demo_pr_def demo_env_def)
  moreover have "srRemote r' = srRemote demo_run @ [Pushed (wuBranch (unitOf (srS demo_run)))]"
    by (rule late(2)) (simp_all add: wu demo_net_def demo_pr_def demo_env_def)
  ultimately show ?thesis using ops wu(1) by (simp add: demo_run_def)
qed

end
