(* ===== verification/Submission_Windows.thy ===== *)
theory Submission_Windows
  imports Submission
begin

text \<open>
  A submission among other goroutines. \<^verbatim>\<open>Submit\<close> in src/internal/conductor/conductor_submit.go releases the mutex of the
  conductor seven times: around the check of the task group, the hooks, the diff, the wait for a running quality gate,
  its own quality gate, and around everything between its checks and its transition, and once more between the
  transition and the update of the task. In each of these windows the other operations of the conductor may run:
  \<open>SubmitAmong\<close> is \<^verbatim>\<open>Submit\<close> with what they do as a parameter, and \<open>Submission.Submit\<close> is the case in which they do
  nothing. The result \<open>None\<close> is a submission that does not return or panics: the task is dereferenced after some
  windows without another check for nil, and a gate channel that another review has replaced is closed twice.
\<close>

section \<open>Windows\<close>

datatype Window = WGroup | WHooks | WDiff | WWait | WGate | WNetwork | WPersist

text \<open>The effect of the others in a window on the conductor and the gate channel.\<close>

type_synonym ('y, 'g) others = "Window \<Rightarrow> ('y, 'g) Submission \<Rightarrow> ('y, 'g) Submission"

definition inWindow :: "('y, 'g) others \<Rightarrow> Window \<Rightarrow> ('y, 'g) SubmitRun \<Rightarrow> ('y, 'g) SubmitRun" where
  "inWindow others w r = r\<lparr>srS := others w (srS r)\<rparr>"

text \<open>No interference: only the gate that is running already ends.\<close>

definition alone :: "SubmitEnv \<Rightarrow> ('y, 'g) others" where
  "alone env w s =
     (if w = WWait \<and> suCh s = OpenChannel then s\<lparr>suC := updateWorkUnit (otherGate env) (suC s), suCh := ClosedChannel\<rparr> else s)"

section \<open>The checks\<close>

text \<open>The identifier of the task is read before the lock is released, the answer is looked at afterwards.\<close>

definition groupAmong :: "('y, 'g) others \<Rightarrow> SubmitEnv \<Rightarrow> SubmitSettings \<Rightarrow> ('y, 'g) check" where
  "groupAmong others env st s =
     (case seGroups env of
        None \<Rightarrow> plain None s
      | Some groups \<Rightarrow> plain (CanSubmit (wuID (unitOf s)) (stSyncSubmit st) groups) (others WGroup s))"

definition hooksAmong :: "('y, 'g) others \<Rightarrow> SubmitEnv \<Rightarrow> SubmitSettings \<Rightarrow> time \<Rightarrow> ('y, 'g) check" where
  "hooksAmong others env st now s = hookCheck env st now (others WHooks s)"

text \<open>The diff, and the first use of the task after it.\<close>

definition diffAmong :: "('y, 'g) others \<Rightarrow> ('y, 'g) check" where
  "diffAmong others s =
     (let s1 = (if cGit (suC s) = None then s else others WDiff s)
      in if cWorkUnit (suC s1) = None then None else plain None s1)"

definition gateAmong :: "('y, 'g) others \<Rightarrow> SubmitEnv \<Rightarrow> ('y, 'g) check" where
  "gateAmong others env s =
     (case wuQualityGatePassed (unitOf s) of
        Some passed \<Rightarrow> plain (if passed then None else Some (gateFailed (wuQualityGateError (unitOf s)))) s
      | None \<Rightarrow>
          if suCh s \<noteq> NilChannel
          then let s1 = others WWait s
               in if cWorkUnit (suC s1) = None then None
                  else plain (if wuQualityGatePassed (unitOf s1) = Some True then None
                              else Some (gateFailed (wuQualityGateError (unitOf s1)))) s1
          else let s1 = others WGate (s\<lparr>suCh := OpenChannel\<rparr>)
               in if suCh s1 \<noteq> OpenChannel then None
                  else let s2 = s1\<lparr>suCh := ClosedChannel\<rparr>
                       in (case seGate env of
                             Some err \<Rightarrow> plain (Some (gateFailed err)) s2
                           | None \<Rightarrow> if cWorkUnit (suC s2) = None then None else plain None (setGatePassed s2)))"

definition preflightAmong :: "('y, 'g) others \<Rightarrow> SubmitEnv \<Rightarrow> SubmitSettings \<Rightarrow> time \<Rightarrow> ('y, 'g) check" where
  "preflightAmong others env st now = runChecks
     [taskCheck now, checklistCheck st, phasesCheck st, groupAmong others env st, approvalCheck env st now, hooksAmong others env st now,
      diffAmong others, policyCheck env st, gateAmong others env, sensitiveCheck env st, scanCheck st, dispatchCheck]"

section \<open>The operations\<close>

text \<open>
  The transition is made without the lock; the worktree is removed and then the lock is taken again. The task that is
  updated and stored is the one that is loaded by then, if any.
\<close>

definition finishAmong :: "('y, 'g) others \<Rightarrow> ('y, 'g) Env \<Rightarrow> time \<Rightarrow> WorkUnit \<Rightarrow> string \<Rightarrow> ('y, 'g) SubmitRun \<Rightarrow> string option \<times> ('y, 'g) SubmitRun" where
  "finishAmong others env now wu prID r =
     (case dispatchC now EventSubmit (suC (srS r)) of
        Inl err \<Rightarrow> (Some (''state transition failed: '' @ err), r)
      | Inr c \<Rightarrow>
          (let c1 = (if wuWorktreePath wu \<noteq> [] then tryGit (gitRemoveWorktree env (wuWorktreePath wu)) c else c);
               r1 = inWindow others WPersist (onConductor (\<lambda>_. c1) r);
               c2 = updateWorkUnit (\<lambda>w. w\<lparr>wuWorktreePath := [], wuPRID := (if prID \<noteq> [] then prID else wuPRID w)\<rparr>) (suC (srS r1))
           in (None, onConductor (\<lambda>_. emitMsg now ''task_submitted'' ''Task submitted'' (persistState env now c2)) r1)))"

definition opsAmong :: "('y, 'g) others \<Rightarrow> ('y, 'g) Env \<Rightarrow> SubmitEnv \<Rightarrow> NetEnv \<Rightarrow> PRSettings \<Rightarrow> bool \<Rightarrow> time \<Rightarrow> ('y, 'g) SubmitRun \<Rightarrow> string option \<times> ('y, 'g) SubmitRun" where
  "opsAmong others env se net ps deleteBranch now r =
     (let wu = unitOf (srS r) in
      case submitNetwork env se net ps deleteBranch now wu (submitChangelog env net ps wu (inWindow others WNetwork r)) of
        (Inl err, r1) \<Rightarrow> (Some err, r1)
      | (Inr prID, r1) \<Rightarrow> finishAmong others env now wu prID r1)"

definition SubmitAmong :: "('y, 'g) others \<Rightarrow> ('y, 'g) Env \<Rightarrow> SubmitEnv \<Rightarrow> NetEnv \<Rightarrow> SubmitSettings \<Rightarrow> PRSettings \<Rightarrow> bool \<Rightarrow> time \<Rightarrow> ('y, 'g) SubmitRun \<Rightarrow> (string option \<times> ('y, 'g) SubmitRun) option" where
  "SubmitAmong others env se net st ps deleteBranch now r =
     (case preflightAmong others se st now (srS r) of
        None \<Rightarrow> None
      | Some (Some err, s) \<Rightarrow> Some (Some err, r\<lparr>srS := s\<rparr>)
      | Some (None, s) \<Rightarrow> Some (opsAmong others env se net ps deleteBranch now (r\<lparr>srS := s\<rparr>)))"

section \<open>A submission that has the conductor for itself\<close>

definition hasTask :: "('y, 'g) Submission \<Rightarrow> bool" where
  "hasTask s \<longleftrightarrow> cWorkUnit (suC s) \<noteq> None"

lemma inWindow_alone [simp]: "w \<noteq> WWait \<Longrightarrow> inWindow (alone env) w r = r"
  by (simp add: inWindow_def alone_def)

lemma opsAmong_alone: "opsAmong (alone se) env se net ps b now r = submitOps env se net ps b now r"
  by (simp add: opsAmong_def submitOps_def finishAmong_def submitFinish_def Let_def onConductor_def split: prod.split sum.split)

lemma checks_alone:
  "groupAmong (alone env) env st s = groupCheck env st s" "hooksAmong (alone env) env st now s = hookCheck env st now s"
  "hasTask s \<Longrightarrow> diffAmong (alone env) s = plain None s"
  "hasTask s \<Longrightarrow> gateAmong (alone env) env s = gateCheck env s"
  by (auto simp: hasTask_def groupAmong_def groupCheck_def hooksAmong_def diffAmong_def gateAmong_def gateCheck_def alone_def Let_def lifecycle_simps
      split: option.splits)

lemma runChecks_loaded:
  "list_all2 (\<lambda>f g. \<forall>t. hasTask t \<longrightarrow> f t = g t \<and> (\<forall>u. g t = Some (None, u) \<longrightarrow> hasTask u)) fs gs \<Longrightarrow> hasTask s \<Longrightarrow>
   runChecks fs s = runChecks gs s"
proof (induction fs gs arbitrary: s rule: list_all2_induct)
  case (Cons f fs g gs)
  then have "f s = g s" "\<And>u. g s = Some (None, u) \<Longrightarrow> runChecks fs u = runChecks gs u" by simp_all
  then show ?case by (auto split: option.split)
qed simp

lemma runChecks_skip: "runChecks (fs @ plain None # gs) s = runChecks (fs @ gs) s"
  by (simp add: runChecks_append plain_def split: option.split)

lemma keepsPlace_task: "keepsPlace f \<Longrightarrow> hasTask t \<Longrightarrow> f t = Some (None, u) \<Longrightarrow> hasTask u"
  unfolding keepsPlace_def samePlace_def hasTask_def by (metis option.map_disc_iff)

lemmas checks_keep_task = taskCheck_keeps [THEN keepsPlace_task] hookCheck_keeps [THEN keepsPlace_task]
  approvalCheck_keeps [THEN keepsPlace_task] gateCheck_keeps [THEN keepsPlace_task]

lemmas plain_checks = checklistCheck_def phasesCheck_def groupCheck_def policyCheck_def sensitiveCheck_def scanCheck_def dispatchCheck_def

lemma preflight_alone: "preflightAmong (alone env) env st now s = submitPreflight env st now s"
proof (cases "hasTask s")
  case False
  then show ?thesis by (simp add: preflightAmong_def submitPreflight_def taskCheck_def hasTask_def)
next
  case True
  have "preflightAmong (alone env) env st now s = runChecks
     ([taskCheck now, checklistCheck st, phasesCheck st, groupCheck env st, approvalCheck env st now, hookCheck env st now] @ plain None #
      [policyCheck env st, gateCheck env, sensitiveCheck env st, scanCheck st, dispatchCheck]) s"
    unfolding preflightAmong_def
    by (rule runChecks_loaded [OF _ True]) (auto simp: checks_alone plain_checks dest: checks_keep_task)
  then show ?thesis unfolding runChecks_skip by (simp add: submitPreflight_def)
qed

lemma submit_alone: "SubmitAmong (alone se) env se net st ps b now r = Submit env se net st ps b now r"
  by (simp add: SubmitAmong_def Submit_def preflight_alone opsAmong_alone split: option.split)

section \<open>What a submission does to the machine\<close>

text \<open>The place of the machine: its state and its history.\<close>

definition place :: "('y, 'g) Submission \<Rightarrow> State \<times> HistoryEntry list" where
  "place s = (cState (suC s), mHistory (cMachine (suC s)))"

lemma samePlace_place: "samePlace s t \<Longrightarrow> place t = place s"
  by (simp add: samePlace_def place_def)

lemma persist_worktree: "map_option wuWorktreePath (cWorkUnit (persistState env now c)) = map_option wuWorktreePath (cWorkUnit c)"
  by (auto simp: persistState_def persistVarPool_unit Let_def pathedUnit_def split: option.splits sum.splits bool.splits)

lemma submit_dispatch:
  assumes "dispatchC now EventSubmit c = Inr c'"
  shows "cState c = StateReviewing" "cState c' = StateSubmitted" "mHistory (cMachine c') = mHistory (cMachine c) @
      [\<lparr>heFrom = StateReviewing, heTo = StateSubmitted, heEvent = EventSubmit, heTimestamp = now\<rparr>]"
proof -
  from assms obtain m ns where d: "Dispatch now EventSubmit (cMachine c) = Inr (m, ns)" "cMachine c' = m"
    by (auto simp: dispatchC_def split: sum.splits)
  then obtain t where t: "map_of TransitionTable (cState c, EventSubmit) = Some [t]" "(m, ns) = applyTransition now EventSubmit t (cMachine c)"
    by (auto simp: Dispatch_Inr_iff)
  then show "cState c = StateReviewing" by (auto dest: table_target_single row_submit)
  with t(1) have "To t = StateSubmitted" by (auto simp: submit_lookup)
  with t(2) d(2) \<open>cState c = StateReviewing\<close> show "cState c' = StateSubmitted" "mHistory (cMachine c') = mHistory (cMachine c) @
      [\<lparr>heFrom = StateReviewing, heTo = StateSubmitted, heEvent = EventSubmit, heTimestamp = now\<rparr>]"
    by (auto simp: rollsBack_def lifecycle_simps dest!: arg_cong [where f = fst])
qed

text \<open>
  The others keep to a relation between the places before and after a window. What is proved in this context holds
  for whatever relation is chosen, as long as it is reflexive and transitive.
\<close>

locale interference =
  fixes others :: "('y, 'g) others" and R :: "State \<times> HistoryEntry list \<Rightarrow> State \<times> HistoryEntry list \<Rightarrow> bool"
  assumes reflexive: "R p p"
    and transitive: "R p q \<Longrightarrow> R q u \<Longrightarrow> R p u"
    and respected: "R (place s) (place (others w s))"
begin

definition follows :: "('y, 'g) check \<Rightarrow> bool" where
  "follows f \<longleftrightarrow> (\<forall>s r t. f s = Some (r, t) \<longrightarrow> R (place s) (place t))"

lemma keepsPlace_follows: "keepsPlace f \<Longrightarrow> follows f"
  unfolding keepsPlace_def follows_def by (metis samePlace_place reflexive)

lemma runChecks_follows: "\<forall>f \<in> set fs. follows f \<Longrightarrow> follows (runChecks fs)"
proof (induction fs)
  case (Cons f fs)
  have "R (place s) (place t)" if "runChecks (f # fs) s = Some (r, t)" for s r t
  proof (cases "\<exists>u. f s = Some (None, u)")
    case True
    then obtain u where u: "f s = Some (None, u)" by blast
    with that Cons have "R (place s) (place u)" "R (place u) (place t)" by (auto simp: follows_def)
    then show ?thesis by (rule transitive)
  next
    case False
    with that Cons.prems show ?thesis by (auto simp: follows_def split: option.splits)
  qed
  then show ?case by (simp add: follows_def)
qed (simp add: follows_def reflexive)

lemma group_follows: "follows (groupAmong others env st)"
  by (auto simp: follows_def groupAmong_def reflexive respected split: option.splits)

lemma hooks_follows: "follows (hooksAmong others env st now)"
  unfolding follows_def hooksAmong_def
  using keepsPlace_follows [OF hookCheck_keeps] respected transitive unfolding follows_def by blast

lemma diff_follows: "follows (diffAmong others)"
  by (auto simp: follows_def diffAmong_def Let_def reflexive respected split: if_splits)

lemma gate_follows: "follows (gateAmong others env)"
proof -
  have channel: "place (s\<lparr>suCh := ch\<rparr>) = place s" "place (setGatePassed s) = place s" for s :: "('y, 'g) Submission" and ch
    by (simp_all add: place_def setGatePassed_def lifecycle_simps)
  have "R (place s) (place (others WGate (s\<lparr>suCh := OpenChannel\<rparr>)))" for s
    using respected [of "s\<lparr>suCh := OpenChannel\<rparr>" WGate] by (simp add: channel)
  then show ?thesis
    by (auto simp: follows_def gateAmong_def Let_def channel reflexive respected split: option.splits if_splits)
qed

lemma preflight_follows: "preflightAmong others env st now s = Some (r, t) \<Longrightarrow> R (place s) (place t)"
proof -
  have "follows (taskCheck now)" "follows (checklistCheck st)" "follows (phasesCheck st)" "follows (approvalCheck env st now)"
    "follows (policyCheck env st)" "follows (sensitiveCheck env st)" "follows (scanCheck st)" "follows dispatchCheck"
    by (rule keepsPlace_follows, simp add: taskCheck_keeps approvalCheck_keeps keepsPlace_plain plain_checks)+
  then have "follows (preflightAmong others env st now)"
    unfolding preflightAmong_def
    by (intro runChecks_follows) (simp add: group_follows hooks_follows diff_follows gate_follows)
  then show "preflightAmong others env st now s = Some (r, t) \<Longrightarrow> R (place s) (place t)" unfolding follows_def by blast
qed

lemma window_follows: "R (place (srS r)) (place (srS (inWindow others w r)))"
  by (simp add: inWindow_def respected)

lemma finish_follows:
  assumes "finishAmong others env now wu prID r = (err, r')"
  shows "if err = None
    then mState (machineOf r) = StateReviewing \<and> R (StateSubmitted, mHistory (machineOf r) @
           [\<lparr>heFrom = StateReviewing, heTo = StateSubmitted, heEvent = EventSubmit, heTimestamp = now\<rparr>]) (place (srS r')) \<and>
         (mWorkUnit (machineOf r') = None \<or> map_option wuWorktreePath (mWorkUnit (machineOf r')) = Some [])
    else srS r' = srS r"
proof (cases "dispatchC now EventSubmit (suC (srS r))")
  case (Inl e)
  with assms show ?thesis by (auto simp: finishAmong_def)
next
  case (Inr c)
  note moved = submit_dispatch [OF Inr]
  define c1 where "c1 = (if wuWorktreePath wu \<noteq> [] then tryGit (gitRemoveWorktree env (wuWorktreePath wu)) c else c)"
  define r1 where "r1 = inWindow others WPersist (onConductor (\<lambda>_. c1) r)"
  have "cMachine c1 = cMachine c" by (simp add: c1_def tryGit_fields)
  then have p1: "R (cState c, mHistory (cMachine c)) (place (srS r1))"
    using window_follows [of "onConductor (\<lambda>_. c1) r" WPersist] by (simp add: r1_def place_def)
  from Inr assms have err: "err = None" and r': "r' = onConductor (\<lambda>_. emitMsg now ''task_submitted'' ''Task submitted'' (persistState env now
      (updateWorkUnit (\<lambda>w. w\<lparr>wuWorktreePath := [], wuPRID := (if prID \<noteq> [] then prID else wuPRID w)\<rparr>) (suC (srS r1))))) r1"
    by (simp_all add: finishAmong_def Let_def c1_def [symmetric] r1_def [symmetric])
  have "place (srS r') = place (srS r1)" by (simp add: r' place_def lifecycle_simps)
  moreover have "map_option wuWorktreePath (mWorkUnit (machineOf r')) = map_option (\<lambda>_. []) (mWorkUnit (machineOf r1))"
    by (simp add: r' lifecycle_simps persist_worktree option.map_comp comp_def)
  ultimately show ?thesis using moved p1 err by (cases "mWorkUnit (machineOf r1)") auto
qed

lemma ops_follows:
  assumes "opsAmong others env se net ps b now r = (err, r')"
  shows "if err = None
    then (\<exists>h. R (place (srS r)) (StateReviewing, h) \<and>
            R (StateSubmitted, h @ [\<lparr>heFrom = StateReviewing, heTo = StateSubmitted, heEvent = EventSubmit, heTimestamp = now\<rparr>]) (place (srS r'))) \<and>
         (mWorkUnit (machineOf r') = None \<or> map_option wuWorktreePath (mWorkUnit (machineOf r')) = Some [])
    else R (place (srS r)) (place (srS r'))"
proof -
  let ?wu = "unitOf (srS r)"
  obtain x r1 where n: "submitNetwork env se net ps b now ?wu (submitChangelog env net ps ?wu (inWindow others WNetwork r)) = (x, r1)" by fastforce
  have "place (srS r1) = place (srS (inWindow others WNetwork r))" using submitNetwork_machine [OF n] by (simp add: place_def)
  with window_follows have p: "R (place (srS r)) (place (srS r1))" by metis
  show ?thesis
  proof (cases x)
    case (Inl e)
    with assms n p show ?thesis by (auto simp: opsAmong_def Let_def)
  next
    case (Inr prID)
    with assms n have f: "finishAmong others env now ?wu prID r1 = (err, r')" by (simp add: opsAmong_def Let_def)
    with p finish_follows [OF f] show ?thesis by (auto simp: place_def)
  qed
qed

lemma submit_follows:
  assumes "SubmitAmong others env se net st ps b now r = Some (err, r')"
  shows "if err = None
    then (\<exists>h. R (place (srS r)) (StateReviewing, h) \<and>
            R (StateSubmitted, h @ [\<lparr>heFrom = StateReviewing, heTo = StateSubmitted, heEvent = EventSubmit, heTimestamp = now\<rparr>]) (place (srS r'))) \<and>
         (mWorkUnit (machineOf r') = None \<or> map_option wuWorktreePath (mWorkUnit (machineOf r')) = Some [])
    else R (place (srS r)) (place (srS r'))"
proof -
  from assms obtain x s where p: "preflightAmong others se st now (srS r) = Some (x, s)"
    and q: "(case x of Some e \<Rightarrow> (Some e, r\<lparr>srS := s\<rparr>) | None \<Rightarrow> opsAmong others env se net ps b now (r\<lparr>srS := s\<rparr>)) = (err, r')"
    by (auto simp: SubmitAmong_def split: option.splits)
  note before = preflight_follows [OF p]
  show ?thesis
  proof (cases x)
    case (Some e)
    with before q show ?thesis by auto
  next
    case None
    with q have "opsAmong others env se net ps b now (r\<lparr>srS := s\<rparr>) = (err, r')" by simp
    from ops_follows [OF this] before show ?thesis by (auto intro: transitive split: if_splits)
  qed
qed

end

lemma alone_place [simp]: "place (alone env w s) = place s"
  by (simp add: alone_def place_def lifecycle_simps)

interpretation solo: interference "alone env" "(=)" for env
  by unfold_locales simp_all

text \<open>
  C2: A submission either succeeds or does nothing to the machine, whatever the other goroutines do in the windows in which it
  has released the lock. Let \<open>R\<close> be any reflexive and transitive relation between states and histories that
  the others keep to. If \<^verbatim>\<open>Submit\<close> returns without an error, the machine has come by steps of the others to the review, has
  gone from there to the submitted state by exactly one transition of the submission, and what happened afterwards is
  again the others'; a task that is still loaded has no worktree any more. If it returns an error, the change of the
  machine is the others' alone. With equality for \<open>R\<close> this is a submission that nobody disturbs: on an error,
  state and history are unchanged.
\<close>

theorem submission_is_all_or_nothing:
  assumes "reflp R" "transp R" "\<And>w s. R (place s) (place (others w s))"
    and "SubmitAmong others env se net st ps b now r = Some (err, r')"
  shows "if err = None
    then (\<exists>h. R (place (srS r)) (StateReviewing, h) \<and>
            R (StateSubmitted, h @ [\<lparr>heFrom = StateReviewing, heTo = StateSubmitted, heEvent = EventSubmit, heTimestamp = now\<rparr>]) (place (srS r'))) \<and>
         (mWorkUnit (machineOf r') = None \<or> map_option wuWorktreePath (mWorkUnit (machineOf r')) = Some [])
    else R (place (srS r)) (place (srS r'))"
proof -
  have "interference others R"
    using assms(1-3) by (auto intro!: interference.intro elim: reflpE transpE)
  from interference.submit_follows [OF this assms(4)] show ?thesis .
qed

text \<open>The demonstration task is submitted, undisturbed and while it is aborted in a window.\<close>

definition abortsIn :: "('y, 'g) Env \<Rightarrow> Window \<Rightarrow> ('y, 'g) others" where
  "abortsIn env w0 w s = (if w = w0 then s\<lparr>suC := snd (Abort env 9 (suC s))\<rparr> else s)"

theorem submission_is_all_or_nothing_witness:
  "\<exists>r'. SubmitAmong (alone demo_submit_env) demo_env demo_submit_env demo_net demo_settings demo_pr False 9 demo_run = Some (None, r') \<and>
     place (srS r') = (StateSubmitted, mHistory (machineOf demo_run) @
       [\<lparr>heFrom = StateReviewing, heTo = StateSubmitted, heEvent = EventSubmit, heTimestamp = 9\<rparr>])"
proof -
  have "succeeds (SubmitAmong (alone demo_submit_env) demo_env demo_submit_env demo_net demo_settings demo_pr False 9 demo_run)" by code_simp
  then obtain r' where s: "SubmitAmong (alone demo_submit_env) demo_env demo_submit_env demo_net demo_settings demo_pr False 9 demo_run = Some (None, r')"
    by (auto simp: succeeds_iff)
  have "reflp (=)" "transp (=)" by (simp_all add: reflp_def transp_def)
  moreover have "place t = place (alone demo_submit_env w t)" for w and t :: "(TaskState, string list) Submission" by simp
  ultimately have "\<exists>h. place (srS demo_run) = (StateReviewing, h) \<and>
      (StateSubmitted, h @ [\<lparr>heFrom = StateReviewing, heTo = StateSubmitted, heEvent = EventSubmit, heTimestamp = 9\<rparr>]) = place (srS r')"
    using submission_is_all_or_nothing [OF _ _ _ s] by simp
  with s show ?thesis by (auto simp: place_def)
qed

text \<open>
  The last transition can fail. A task that is aborted while its submission talks to the network has its branch pushed and
  its pull request opened, but the submission returns an error and the identifier of the pull request is not stored.
\<close>

definition leavesPullRequest :: "(string option \<times> ('y, 'g) SubmitRun) option \<Rightarrow> bool" where
  "leavesPullRequest x \<longleftrightarrow>
     (case x of
        Some (Some _, r) \<Rightarrow> list_ex (\<lambda>e. case e of CreatedPR _ \<Rightarrow> True | _ \<Rightarrow> False) (srRemote r) \<and> cState (suC (srS r)) = StateFailed \<and>
          map_option wuPRID (cWorkUnit (suC (srS r))) = Some []
      | _ \<Rightarrow> False)"

theorem aborted_submission_leaves_pull_request:
  "leavesPullRequest (SubmitAmong (abortsIn demo_env WNetwork) demo_env demo_submit_env demo_net demo_settings demo_pr False 9 demo_run)"
  by code_simp

end
