(* ===== verification/Machine_Lifetime.thy ===== *)
theory Machine_Lifetime
  imports State_Machine
begin

text \<open>
  The machine over the lifetime of the program (src/internal/conductor/state_machine.go): not only the steps between two
  resets but also \<^verbatim>\<open>Reset\<close>, which ends a task (conductor_submit_ops.go, conductor_finish.go), and \<^verbatim>\<open>ForceState\<close> and
  \<^verbatim>\<open>RestoreHistory\<close>, with which a persisted task is loaded (conductor_state.go), after any number of restarts.
\<close>

section \<open>Lifetimes\<close>

text \<open>
  Beside the machine: every transition that was ever recorded, the pairs of a state and a history that were persisted,
  and whether every reset and every load found no remembered state of the task before. The last is a fact about the
  past and no state of the program.
\<close>

record Lifetime =
  lfMachine :: Machine
  lfLog :: "HistoryEntry list"
  lfSaved :: "(State \<times> HistoryEntry list) list"
  lfClean :: bool

text \<open>The machine's part of \<^verbatim>\<open>LoadState\<close>.\<close>

definition loadMachine :: "time \<Rightarrow> WorkUnit \<Rightarrow> State \<Rightarrow> HistoryEntry list \<Rightarrow> Machine \<Rightarrow> Machine" where
  "loadMachine now wu state history m = RestoreHistory history (SetWorkUnit now (Some wu) (ForceState state m))"

inductive life_step :: "Lifetime \<Rightarrow> Lifetime \<Rightarrow> bool" where
  act: "machine_step (lfMachine r) m' \<Longrightarrow>
    life_step r (r\<lparr>lfMachine := m', lfLog := lfLog r @ drop (length (mHistory (lfMachine r))) (mHistory m')\<rparr>)"
| reset: "life_step r (r\<lparr>lfMachine := Reset (lfMachine r),
    lfClean := (lfClean r \<and> mPriorStableState (lfMachine r) = noState)\<rparr>)"
| save: "life_step r (r\<lparr>lfSaved := (mState (lfMachine r), mHistory (lfMachine r)) # lfSaved r\<rparr>)"
| restart: "life_step r (r\<lparr>lfMachine := NewMachine\<rparr>)"
| load: "(state, history) \<in> set (lfSaved r) \<Longrightarrow>
    life_step r (r\<lparr>lfMachine := loadMachine now wu state history (lfMachine r),
      lfClean := (lfClean r \<and> mPriorStableState (lfMachine r) = noState \<and> mPreviousState (lfMachine r) = noState)\<rparr>)"

definition life_init :: "Lifetime \<Rightarrow> bool" where
  "life_init r \<longleftrightarrow> r = \<lparr>lfMachine = NewMachine, lfLog = [], lfSaved = [], lfClean = True\<rparr>"

section \<open>The invariant\<close>

text \<open>Every state that the machine is in or remembers was entered through the table at some time.\<close>

definition grounded :: "HistoryEntry list \<Rightarrow> Machine \<Rightarrow> bool" where
  "grounded l m \<longleftrightarrow> tabled l (mState m) \<and> tabled l (mPreviousState m) \<and> tabled l (mPriorStableState m)"

definition closed_log :: "HistoryEntry list \<Rightarrow> bool" where
  "closed_log l \<longleftrightarrow> (\<forall>h \<in> set l. tabled l (heFrom h))"

definition life_inv :: "Lifetime \<Rightarrow> bool" where
  "life_inv r \<longleftrightarrow> grounded (lfLog r) (lfMachine r) \<and> closed_log (lfLog r) \<and>
     (\<forall>(state, history) \<in> set (lfSaved r). tabled (lfLog r) state) \<and>
     (lfClean r \<longrightarrow> machine_inv (lfMachine r) \<and>
        (\<forall>(state, history) \<in> set (lfSaved r). machine_inv (NewMachine\<lparr>mState := state, mHistory := history\<rparr>)))"

lemma grounded_dispatch:
  assumes "Dispatch now ev m = Inr (m', ns)" and "grounded l m" and "closed_log l"
  shows "\<exists>h. mHistory m' = mHistory m @ [h] \<and> grounded (l @ [h]) m' \<and> closed_log (l @ [h])"
proof -
  from assms(1) obtain t where t: "table_target (mState m) ev = Some (To t)" "m' = fst (applyTransition now ev t m)"
    by (rule Dispatch_InrE)
  let ?h = "\<lparr>heFrom = mState m, heTo = mState m', heEvent = ev, heTimestamp = now\<rparr>"
  have hist: "mHistory m' = mHistory m @ [?h]"
    and st: "mState m' = (if rollsBack ev m then mPriorStableState m else To t)"
    and prev: "mPreviousState m' \<in> {mState m, mPreviousState m}"
    and prior: "mPriorStableState m' \<in> {noState, mPriorStableState m}"
    by (simp_all add: t(2) applyTransition_fields)
  have "tabled (l @ [?h]) (mState m')"
    using assms(2) t(1) tabled_last [of ?h l] by (auto simp: st grounded_def intro: tabled_append)
  with assms(2) prev prior have "grounded (l @ [?h]) m'" by (auto simp: grounded_def intro: tabled_append) (auto simp: tabled_def)
  moreover have "closed_log (l @ [?h])" using assms(2,3) by (auto simp: closed_log_def grounded_def intro: tabled_append)
  ultimately show ?thesis using hist by blast
qed

lemma grounded_step:
  assumes "machine_step m m'" and "grounded l m" and "closed_log l"
  shows "grounded (l @ drop (length (mHistory m)) (mHistory m')) m' \<and> closed_log (l @ drop (length (mHistory m)) (mHistory m'))"
  using assms(1)
proof (cases rule: machine_step.cases)
  case (step_dispatch now ev ns)
  with grounded_dispatch [OF _ assms(2,3)] show ?thesis by fastforce
next
  case (step_resume now ev ns)
  show ?thesis
  proof (cases "(ev = EventAnswer \<or> ev = EventResume) \<and> mPreviousState m \<noteq> noState")
    case True
    with step_resume assms(2,3) show ?thesis
      by (auto simp: DispatchWithResume_def grounded_def closed_log_def intro: tabled_append) (auto simp: tabled_def)
  next
    case False
    with step_resume have "Dispatch now ev m = Inr (m', ns)" by (auto simp: DispatchWithResume_def)
    with grounded_dispatch [OF _ assms(2,3)] show ?thesis by fastforce
  qed
qed (use assms(2,3) in \<open>auto simp: grounded_def SetPriorStableState_def ClearPriorStableState_def SetWorkUnit_def
    AddListener_def tabled_def\<close>)

lemma machine_inv_fresh [simp]: "machine_inv NewMachine" "grounded l NewMachine"
  by (simp_all add: machine_inv_def NewMachine_def grounded_def tabled_def)

lemma machine_inv_reset: "machine_inv (Reset m) \<longleftrightarrow> tabled [] (mPriorStableState m)"
  by (auto simp: machine_inv_def Reset_def tabled_def)

lemma machine_inv_load:
  assumes "machine_inv (NewMachine\<lparr>mState := state, mHistory := history\<rparr>)" and "mPriorStableState m = noState" and "mPreviousState m = noState"
  shows "machine_inv (loadMachine now wu state history m)"
  using assms by (simp add: machine_inv_def loadMachine_def RestoreHistory_def SetWorkUnit_def ForceState_def tabled_def)

lemma machine_inv_saved: "machine_inv m \<Longrightarrow> machine_inv (NewMachine\<lparr>mState := mState m, mHistory := mHistory m\<rparr>)"
  by (auto simp: machine_inv_def NewMachine_def tabled_def)

lemma life_inv_step:
  assumes "life_inv r" and "life_step r r'"
  shows "life_inv r'"
  using assms(2)
proof (cases rule: life_step.cases)
  case (act m')
  note g = grounded_step [OF act(2), of "lfLog r"]
  have "machine_inv m'" if "machine_inv (lfMachine r)" using machine_run.inv_step [OF that act(2)] .
  with g assms(1) act(1) show ?thesis by (auto simp: life_inv_def intro: tabled_append)
next
  case reset
  with assms(1) show ?thesis by (auto simp: life_inv_def machine_inv_reset) (auto simp: grounded_def Reset_def tabled_def)
next
  case save
  with assms(1) machine_inv_saved show ?thesis by (auto simp: life_inv_def grounded_def)
next
  case restart
  with assms(1) show ?thesis by (simp add: life_inv_def)
next
  case (load state history now wu)
  with assms(1) have "tabled (lfLog r) state" by (auto simp: life_inv_def)
  with load assms(1) show ?thesis
    by (auto simp: life_inv_def intro: machine_inv_load)
      (auto simp: grounded_def loadMachine_def RestoreHistory_def SetWorkUnit_def ForceState_def)
qed

interpretation lifetime: step_invariant life_init life_step life_inv
proof
  show "life_inv r" if "life_init r" for r using that by (simp add: life_init_def life_inv_def closed_log_def)
qed (rule life_inv_step)

text \<open>A log with the table behind it that has entered the submitted state has a submit and a review.\<close>

lemma submit_in_log:
  assumes "tabled l StateSubmitted" and "\<forall>h \<in> set l. tabled l (heFrom h)"
  shows "(\<exists>h \<in> set l. heFrom h = StateReviewing \<and> heEvent h = EventSubmit \<and> heTo h = StateSubmitted) \<and>
    (\<exists>h \<in> set l. heEvent h = EventReview \<and> heTo h = StateReviewing)"
proof -
  from assms(1) obtain h where h: "h \<in> set l" "heTo h = StateSubmitted" "heFrom h \<noteq> StateSubmitted"
      "table_target (heFrom h) (heEvent h) = Some StateSubmitted"
    by (auto simp: tabled_def)
  from row_submitted [OF h(4,3)] have rev: "heFrom h = StateReviewing" "heEvent h = EventSubmit" by simp_all
  from assms(2) h(1) rev(1) obtain g where g: "g \<in> set l" "heTo g = StateReviewing"
      "table_target (heFrom g) (heEvent g) = Some StateReviewing"
    by (force simp: tabled_def)
  from g(3) have "heEvent g = EventReview" by (rule row_reviewing)
  with g h rev show ?thesis by blast
qed

section \<open>Properties\<close>

text \<open>
  C1: Nothing is submitted without a review. Over the whole lifetime of the program, with resets, restarts and the loading of
  persisted tasks, the machine is in \<^verbatim>\<open>submitted\<close> only if a submit event was accepted in \<^verbatim>\<open>reviewing\<close>, which a review
  event had entered, at some time before; and these events are in the machine's own history, the one of its task,
  unless a reset or a load came while a state of another task was still remembered.
\<close>

theorem submitted_was_reviewed:
  assumes "reachable life_init life_step r" and "mState (lfMachine r) = StateSubmitted"
  shows "((\<exists>h \<in> set (lfLog r). heFrom h = StateReviewing \<and> heEvent h = EventSubmit \<and> heTo h = StateSubmitted) \<and>
      (\<exists>h \<in> set (lfLog r). heEvent h = EventReview \<and> heTo h = StateReviewing)) \<and>
    (lfClean r \<longrightarrow>
      (\<exists>h \<in> set (mHistory (lfMachine r)). heFrom h = StateReviewing \<and> heEvent h = EventSubmit \<and> heTo h = StateSubmitted) \<and>
      (\<exists>h \<in> set (mHistory (lfMachine r)). heEvent h = EventReview \<and> heTo h = StateReviewing))"
proof -
  have inv: "life_inv r" using lifetime.reachable_inv [OF assms(1)] .
  then have "tabled (lfLog r) StateSubmitted" "\<forall>h \<in> set (lfLog r). tabled (lfLog r) (heFrom h)"
    using assms(2) by (auto simp: life_inv_def grounded_def closed_log_def)
  note all = submit_in_log [OF this]
  have "lfClean r \<Longrightarrow> tabled (mHistory (lfMachine r)) StateSubmitted"
    "lfClean r \<Longrightarrow> \<forall>h \<in> set (mHistory (lfMachine r)). tabled (mHistory (lfMachine r)) (heFrom h)"
    using inv assms(2) by (auto simp: life_inv_def machine_inv_def)
  with submit_in_log [of "mHistory (lfMachine r)"] all show ?thesis by blast
qed

lemma life_of_machine:
  assumes "reachable machine_init machine_step m"
  shows "\<exists>l. reachable life_init life_step \<lparr>lfMachine = m, lfLog = l, lfSaved = [], lfClean = True\<rparr>"
  using assms
proof (induction rule: reachable.induct)
  case (reach_init m)
  then show ?case by (intro exI [of _ "[]"] reachable.reach_init) (simp add: machine_init_def life_init_def)
next
  case (reach_step m m')
  then obtain l where "reachable life_init life_step \<lparr>lfMachine = m, lfLog = l, lfSaved = [], lfClean = True\<rparr>" by blast
  from reachable.reach_step [OF this life_step.act, of m'] reach_step(2) show ?case by auto
qed

text \<open>A submitted task that is persisted, and loaded after a restart.\<close>

theorem submitted_was_reviewed_witness:
  "\<exists>r. reachable life_init life_step r \<and> mState (lfMachine r) = StateSubmitted \<and> lfSaved r \<noteq> [] \<and> lfClean r \<and>
     (\<exists>h \<in> set (mHistory (lfMachine r)). heEvent h = EventReview \<and> heTo h = StateReviewing)"
proof -
  have "reachable machine_init machine_step demo_submitted"
    unfolding demo_submitted_def by (rule run_or_stay_reachable [OF demo_started_reachable])
  then obtain l where r: "reachable life_init life_step \<lparr>lfMachine = demo_submitted, lfLog = l, lfSaved = [], lfClean = True\<rparr>"
    using life_of_machine by blast
  let ?h = "mHistory demo_submitted"
  note saved = reachable.reach_step [OF r life_step.save, simplified demo_submitted_state]
  note fresh = reachable.reach_step [OF saved life_step.restart]
  have "reachable life_init life_step \<lparr>lfMachine = loadMachine 9 demo_unit StateSubmitted ?h NewMachine, lfLog = l,
      lfSaved = [(StateSubmitted, ?h)], lfClean = True\<rparr>"
    using reachable.reach_step [OF fresh life_step.load, of StateSubmitted ?h 9 demo_unit]
    by (simp add: demo_submitted_state) (simp add: NewMachine_def)
  moreover have "mState (loadMachine 9 demo_unit StateSubmitted ?h NewMachine) = StateSubmitted"
    by (simp add: loadMachine_def RestoreHistory_def SetWorkUnit_def ForceState_def)
  ultimately show ?thesis using submitted_was_reviewed
    by (intro exI [of _ "\<lparr>lfMachine = loadMachine 9 demo_unit StateSubmitted ?h NewMachine, lfLog = l, lfSaved = [(StateSubmitted, ?h)], lfClean = True\<rparr>"])
      fastforce
qed

end
