(* ===== verification/Graph_Model.thy ===== *)
theory Graph_Model
  imports Kvelmo_Prelude
begin

text \<open>
  The dependency graph of a phase (src/internal/graph/graph.go): its nodes and edges, the queries
  on them, validation with cycle detection by an iterative depth-first search, and the counting of
  transitive dependents by a breadth-first search.

  \<^verbatim>\<open>Nodes\<close> is ranged over in several places, so it is an association list whose order is the
  order of iteration. A condition or an iteration check is a function value of the node.
\<close>

section \<open>Nodes and graphs\<close>

type_synonym NodeID = string

datatype ErrorStrategy = ErrorFail | ErrorDefaultValue | ErrorRetryThenFail

record SubTaskConfig =
  stTitle :: string
  stDescription :: string
  stPhases :: "string list"
  stBranch :: string
  stMetadata :: "(string, string) gomap"

record Node =
  nID :: NodeID
  nLabel :: string
  nJobType :: string
  nPrompt :: string
  nDependsOn :: "NodeID list"
  nCondition :: "((NodeID \<Rightarrow> string option) \<Rightarrow> bool) option"
  nFrozen :: bool
  nFailBranch :: "NodeID option"
  nMaxIterations :: int
  nIterationCheck :: "(string \<Rightarrow> bool) option"
  nErrorStrategy :: ErrorStrategy
  nDefaultOutput :: string
  nMaxRetries :: int
  nRetryDelay :: duration
  nRequiresApproval :: bool
  nApprovalPrompt :: string
  nApprovalTimeout :: duration
  nSubTask :: "SubTaskConfig option"

definition zeroNode :: Node where
  "zeroNode = \<lparr>nID = [], nLabel = [], nJobType = [], nPrompt = [], nDependsOn = [],
     nCondition = None, nFrozen = False, nFailBranch = None, nMaxIterations = 0,
     nIterationCheck = None, nErrorStrategy = ErrorFail, nDefaultOutput = [], nMaxRetries = 0,
     nRetryDelay = 0, nRequiresApproval = False, nApprovalPrompt = [], nApprovalTimeout = 0,
     nSubTask = None\<rparr>"

definition IsSubTask :: "Node \<Rightarrow> bool" where
  "IsSubTask n \<longleftrightarrow> nSubTask n \<noteq> None"

datatype EdgeState = EdgeUnknown | EdgeTaken | EdgeSkipped

record Edge =
  edFrom :: NodeID
  edTo :: NodeID

record Graph =
  gNodes :: "(NodeID, Node) gomap"
  gEdges :: "Edge list"
  gFailEdges :: "(NodeID, NodeID) gomap"
  gDepCounts :: "(NodeID, nat) gomap"

definition NewGraph :: Graph where
  "NewGraph = \<lparr>gNodes = [], gEdges = [], gFailEdges = [], gDepCounts = []\<rparr>"

datatype GraphError =
    DuplicateNode NodeID
  | EmptyGraph
  | UnknownDependency NodeID NodeID
  | SelfFailBranch NodeID
  | UnknownFailBranch NodeID NodeID
  | FailBranchNotDependent NodeID NodeID
  | PromptAndSubTask NodeID
  | IterationWithoutCheck NodeID int
  | NegativeIterations NodeID
  | RetryWithoutCount NodeID int
  | CycleInvolving NodeID
  | NilDereference

definition AddNode :: "Node \<Rightarrow> Graph \<Rightarrow> GraphError + Graph" where
  "AddNode n g =
     (if map_of (gNodes g) (nID n) \<noteq> None then Inl (DuplicateNode (nID n))
      else Inr (g\<lparr>gNodes := AList.update (nID n) n (gNodes g)\<rparr>))"

definition SingleNode :: "NodeID \<Rightarrow> string \<Rightarrow> string \<Rightarrow> string \<Rightarrow> Graph" where
  "SingleNode nid label jobType prompt =
     (case AddNode (zeroNode\<lparr>nID := nid, nLabel := label, nJobType := jobType, nPrompt := prompt\<rparr>) NewGraph of
        Inl _ \<Rightarrow> NewGraph | Inr g \<Rightarrow> g)"

definition nodeList :: "Graph \<Rightarrow> Node list" where
  "nodeList g = map snd (gNodes g)"

definition buildEdges :: "Graph \<Rightarrow> Graph" where
  "buildEdges g = g\<lparr>
     gEdges := concat (map (\<lambda>node. map (\<lambda>dep. \<lparr>edFrom = dep, edTo = nID node\<rparr>) (nDependsOn node)) (nodeList g)),
     gFailEdges := foldl (\<lambda>m node. case nFailBranch node of None \<Rightarrow> m
                                    | Some target \<Rightarrow> AList.update (nID node) target m) [] (nodeList g)\<rparr>"

definition FailBranchTarget :: "Graph \<Rightarrow> NodeID \<Rightarrow> NodeID option" where
  "FailBranchTarget g nid = map_of (gFailEdges g) nid"

definition IsFailBranchEdge :: "Graph \<Rightarrow> NodeID \<Rightarrow> NodeID \<Rightarrow> bool" where
  "IsFailBranchEdge g frm to \<longleftrightarrow> map_of (gFailEdges g) frm = Some to"

definition FailErrorKey :: "NodeID \<Rightarrow> NodeID" where
  "FailErrorKey nid = ''__fail_error:'' @ nid"

definition Roots :: "Graph \<Rightarrow> NodeID list" where
  "Roots g = sort (map nID (filter (\<lambda>node. nDependsOn node = []) (nodeList g)))"

definition Dependents :: "Graph \<Rightarrow> NodeID \<Rightarrow> NodeID list" where
  "Dependents g nid = sort (map nID (filter (\<lambda>node. nid \<in> set (nDependsOn node)) (nodeList g)))"

definition NodeIDs :: "Graph \<Rightarrow> NodeID list" where
  "NodeIDs g = sort (map fst (gNodes g))"

definition NodeCount :: "Graph \<Rightarrow> nat" where
  "NodeCount g = length (gNodes g)"

definition TransitiveDepCount :: "Graph \<Rightarrow> NodeID \<Rightarrow> nat" where
  "TransitiveDepCount g nid = (case map_of (gDepCounts g) nid of None \<Rightarrow> 0 | Some n \<Rightarrow> n)"

section \<open>Counting transitive dependents\<close>

text \<open>The reverse adjacency map, read at one key: one entry per occurrence in a dependency list.\<close>

definition reverseOf :: "Graph \<Rightarrow> NodeID \<Rightarrow> NodeID list" where
  "reverseOf g dep =
     concat (map (\<lambda>node. map (\<lambda>_. nID node) (filter (\<lambda>d. d = dep) (nDependsOn node))) (nodeList g))"

definition universe :: "Graph \<Rightarrow> NodeID set" where
  "universe g = (\<Union>node \<in> set (nodeList g). insert (nID node) (set (nDependsOn node))) \<union> fst ` set (gNodes g)"

lemma finite_universe [simp]: "finite (universe g)"
  by (simp add: universe_def)

lemma reverseOf_outside: "cur \<notin> universe g \<Longrightarrow> reverseOf g cur = []"
  by (auto simp: reverseOf_def universe_def filter_empty_conv)

function bfsLoop :: "Graph \<Rightarrow> NodeID list \<Rightarrow> NodeID list \<Rightarrow> NodeID list" where
  "bfsLoop g visited [] = visited"
| "bfsLoop g visited (cur # queue) =
     (if cur \<in> set visited then bfsLoop g visited queue
      else bfsLoop g (cur # visited) (queue @ reverseOf g cur))"
  by pat_completeness auto
termination
proof (relation "measures [\<lambda>(g, v, q). card (universe g - set v), \<lambda>(g, v, q). length q]", goal_cases)
  case (3 g visited cur queue)
  show ?case
  proof (cases "cur \<in> universe g")
    case True
    with 3 have "universe g - set (cur # visited) \<subset> universe g - set visited" by auto
    then have "card (universe g - set (cur # visited)) < card (universe g - set visited)"
      by (intro psubset_card_mono) auto
    then show ?thesis by simp
  next
    case False
    then have "universe g - set (cur # visited) = universe g - set visited" by auto
    with False show ?thesis by (simp add: reverseOf_outside)
  qed
qed auto

definition depCount :: "Graph \<Rightarrow> NodeID \<Rightarrow> nat" where
  "depCount g nid = length (bfsLoop g [] (reverseOf g nid))"

definition computeDepCounts :: "Graph \<Rightarrow> Graph" where
  "computeDepCounts g = g\<lparr>gDepCounts := map (\<lambda>(nid, _). (nid, depCount g nid)) (gNodes g)\<rparr>"

section \<open>Cycle detection\<close>

datatype Color = White | Gray | Black

datatype DfsOutcome = DfsDone "NodeID \<Rightarrow> Color" | DfsCycle NodeID | DfsNil

text \<open>
  The loop over the explicit stack, top frame first. A frame whose node is missing from the map is
  the nil dereference the Go code would panic on.
\<close>

definition pendingFrames :: "Graph \<Rightarrow> (NodeID \<times> nat) list \<Rightarrow> nat" where
  "pendingFrames g stack =
     sum_list (map (\<lambda>(i, k). Suc (case map_of (gNodes g) i of None \<Rightarrow> 0
                                   | Some node \<Rightarrow> length (nDependsOn node) - k)) stack)"

lemma dep_in_universe:
  assumes "map_of (gNodes g) i = Some node" and "k < length (nDependsOn node)"
  shows "nDependsOn node ! k \<in> universe g"
  using map_of_SomeD [OF assms(1)] nth_mem [OF assms(2)]
  by (force simp: universe_def nodeList_def)

definition whites :: "Graph \<Rightarrow> (NodeID \<Rightarrow> Color) \<Rightarrow> nat" where
  "whites g color = card {x \<in> universe g. color x = White}"

lemma whites_black: "whites g (color(i := Black)) \<le> whites g color"
  unfolding whites_def by (intro card_mono) auto

lemma whites_gray:
  assumes "x \<in> universe g" and "color x = White"
  shows "whites g (color(x := Gray)) < whites g color"
  unfolding whites_def using assms by (intro psubset_card_mono) auto

function dfsLoop :: "Graph \<Rightarrow> (NodeID \<Rightarrow> Color) \<Rightarrow> (NodeID \<times> nat) list \<Rightarrow> DfsOutcome" where
  "dfsLoop g color [] = DfsDone color"
| "dfsLoop g color ((i, depIndex) # stack) =
     (case map_of (gNodes g) i of
        None \<Rightarrow> DfsNil
      | Some node \<Rightarrow>
          if depIndex \<ge> length (nDependsOn node) then dfsLoop g (color(i := Black)) stack
          else let dep = nDependsOn node ! depIndex in
            (case color dep of
               White \<Rightarrow> dfsLoop g (color(dep := Gray)) ((dep, 0) # (i, depIndex + 1) # stack)
             | Gray \<Rightarrow> DfsCycle dep
             | Black \<Rightarrow> dfsLoop g color ((i, depIndex + 1) # stack)))"
  by pat_completeness auto

termination
proof (relation "measures [\<lambda>(g, color, st). whites g color, \<lambda>(g, color, st). pendingFrames g st]", goal_cases)
  case (2 g color i depIndex stack node)
  with whites_black [of g color i] show ?case by (auto simp: pendingFrames_def)
next
  case (3 g color i depIndex stack node dep)
  then have "whites g (color(dep := Gray)) < whites g color" by (simp add: dep_in_universe whites_gray)
  then show ?case by simp
next
  case (4 g color i depIndex stack node dep)
  then show ?case by (simp add: pendingFrames_def)
qed auto

fun dfsStarts :: "Graph \<Rightarrow> NodeID list \<Rightarrow> (NodeID \<Rightarrow> Color) \<Rightarrow> GraphError option" where
  "dfsStarts g [] color = None"
| "dfsStarts g (startID # ids) color =
     (if color startID \<noteq> White then dfsStarts g ids color
      else (case dfsLoop g (color(startID := Gray)) [(startID, 0)] of
              DfsDone color' \<Rightarrow> dfsStarts g ids color'
            | DfsCycle dep \<Rightarrow> Some (CycleInvolving dep)
            | DfsNil \<Rightarrow> Some NilDereference))"

definition detectCycles :: "Graph \<Rightarrow> GraphError option" where
  "detectCycles g = dfsStarts g (NodeIDs g) (\<lambda>_. White)"

section \<open>Validation\<close>

text \<open>The first error a check reports, in the order of iteration.\<close>

definition firstError :: "('a \<Rightarrow> GraphError option) \<Rightarrow> 'a list \<Rightarrow> GraphError option" where
  "firstError f xs = (case filter (\<lambda>x. f x \<noteq> None) xs of [] \<Rightarrow> None | x # _ \<Rightarrow> f x)"

definition checkReferences :: "Graph \<Rightarrow> Node \<Rightarrow> GraphError option" where
  "checkReferences g node =
     firstError (\<lambda>dep. if map_of (gNodes g) dep = None then Some (UnknownDependency (nID node) dep) else None)
       (nDependsOn node)"

definition checkFailBranch :: "Graph \<Rightarrow> Node \<Rightarrow> GraphError option" where
  "checkFailBranch g node =
     (case nFailBranch node of
        None \<Rightarrow> None
      | Some target \<Rightarrow>
          if target = nID node then Some (SelfFailBranch (nID node))
          else (case map_of (gNodes g) target of
                  None \<Rightarrow> Some (UnknownFailBranch (nID node) target)
                | Some targetNode \<Rightarrow>
                    if nID node \<notin> set (nDependsOn targetNode)
                    then Some (FailBranchNotDependent target (nID node)) else None))"

definition checkSubTask :: "Node \<Rightarrow> GraphError option" where
  "checkSubTask node =
     (if nSubTask node \<noteq> None \<and> nPrompt node \<noteq> [] then Some (PromptAndSubTask (nID node)) else None)"

definition checkIteration :: "Node \<Rightarrow> GraphError option" where
  "checkIteration node =
     (if nMaxIterations node > 0 \<and> nIterationCheck node = None
      then Some (IterationWithoutCheck (nID node) (nMaxIterations node))
      else if nMaxIterations node < 0 then Some (NegativeIterations (nID node)) else None)"

definition checkRetry :: "Node \<Rightarrow> GraphError option" where
  "checkRetry node =
     (if nErrorStrategy node = ErrorRetryThenFail \<and> nMaxRetries node \<le> 0
      then Some (RetryWithoutCount (nID node) (nMaxRetries node)) else None)"

fun firstOf :: "GraphError option list \<Rightarrow> GraphError option" where
  "firstOf [] = None"
| "firstOf (e # es) = (case e of None \<Rightarrow> firstOf es | Some err \<Rightarrow> Some err)"

definition Validate :: "Graph \<Rightarrow> GraphError + Graph" where
  "Validate g =
     (if gNodes g = [] then Inl EmptyGraph
      else (case firstOf [firstError (checkReferences g) (nodeList g),
                          firstError (checkFailBranch g) (nodeList g),
                          firstError checkSubTask (nodeList g),
                          firstError checkIteration (nodeList g),
                          firstError checkRetry (nodeList g),
                          detectCycles g] of
              Some err \<Rightarrow> Inl err
            | None \<Rightarrow> Inr (computeDepCounts (buildEdges g))))"

end
