(* ===== verification/Graph_State.thy ===== *)
theory Graph_State
  imports Graph_Model
begin

text \<open>
  The state manager of a graph run (src/internal/graph/state.go). Every method holds the manager's
  mutex for its whole body, so each is one atomic function. Reading a missing key of a Go map gives
  the zero value: \<open>NodeStateZero\<close> is the empty string as a node state.
\<close>

section \<open>State and operations\<close>

datatype NodeState =
    NodePending | NodeQueued | NodeRunning | NodeDone | NodeFailed | NodeSkipped | NodeStateZero

record StateManager =
  smStates :: "(NodeID, NodeState) gomap"
  smResults :: "NodeID \<Rightarrow> string option"
  smErrors :: "NodeID \<Rightarrow> string option"
  smEdgeStates :: "string \<Rightarrow> EdgeState"
  smFailEdges :: "NodeID \<Rightarrow> NodeID option"
  smIterationCount :: "NodeID \<Rightarrow> int"
  smRetryCount :: "NodeID \<Rightarrow> int"

definition NewStateManager :: "Graph \<Rightarrow> StateManager" where
  "NewStateManager g =
     \<lparr>smStates = map (\<lambda>(nid, _). (nid, NodePending)) (gNodes g),
      smResults = (\<lambda>_. None), smErrors = (\<lambda>_. None), smEdgeStates = (\<lambda>_. EdgeUnknown),
      smFailEdges = map_of (gFailEdges g),
      smIterationCount = (\<lambda>_. 0), smRetryCount = (\<lambda>_. 0)\<rparr>"

definition Get :: "StateManager \<Rightarrow> NodeID \<Rightarrow> NodeState" where
  "Get sm nid = (case map_of (smStates sm) nid of None \<Rightarrow> NodeStateZero | Some s \<Rightarrow> s)"

fun validTransition :: "NodeState \<Rightarrow> NodeState \<Rightarrow> bool" where
  "validTransition NodePending to \<longleftrightarrow> to = NodeQueued \<or> to = NodeSkipped \<or> to = NodeDone"
| "validTransition NodeQueued to \<longleftrightarrow> to = NodeRunning \<or> to = NodeSkipped"
| "validTransition NodeRunning to \<longleftrightarrow> to = NodeDone \<or> to = NodeFailed"
| "validTransition _ to \<longleftrightarrow> False"

datatype StateError =
    UnknownNode NodeID
  | InvalidTransition NodeState NodeState NodeID
  | CannotReset NodeID NodeState

definition Transition :: "NodeID \<Rightarrow> NodeState \<Rightarrow> StateManager \<Rightarrow> StateError + StateManager" where
  "Transition nid to sm =
     (case map_of (smStates sm) nid of
        None \<Rightarrow> Inl (UnknownNode nid)
      | Some from_state \<Rightarrow>
          if \<not> validTransition from_state to then Inl (InvalidTransition from_state to nid)
          else Inr (sm\<lparr>smStates := AList.update nid to (smStates sm)\<rparr>))"

definition SetResult :: "NodeID \<Rightarrow> string \<Rightarrow> StateManager \<Rightarrow> StateManager" where
  "SetResult nid result sm = sm\<lparr>smResults := (smResults sm)(nid \<mapsto> result)\<rparr>"

definition Result :: "StateManager \<Rightarrow> NodeID \<Rightarrow> string" where
  "Result sm nid = (case smResults sm nid of None \<Rightarrow> [] | Some r \<Rightarrow> r)"

definition SetError :: "NodeID \<Rightarrow> string \<Rightarrow> StateManager \<Rightarrow> StateManager" where
  "SetError nid errMsg sm = sm\<lparr>smErrors := (smErrors sm)(nid \<mapsto> errMsg)\<rparr>"

definition ErrorOf :: "StateManager \<Rightarrow> NodeID \<Rightarrow> string" where
  "ErrorOf sm nid = (case smErrors sm nid of None \<Rightarrow> [] | Some e \<Rightarrow> e)"

fun PreloadResults :: "(NodeID, string) gomap \<Rightarrow> StateManager \<Rightarrow> StateManager" where
  "PreloadResults [] sm = sm"
| "PreloadResults ((nid, result) # rs) sm =
     (case map_of (smStates sm) nid of
        None \<Rightarrow> PreloadResults rs sm
      | Some _ \<Rightarrow> PreloadResults rs
          (sm\<lparr>smStates := AList.update nid NodeDone (smStates sm),
              smResults := (smResults sm)(nid \<mapsto> result)\<rparr>))"

definition AllDone :: "StateManager \<Rightarrow> bool" where
  "AllDone sm \<longleftrightarrow> list_all (\<lambda>(_, s). s = NodeDone \<or> s = NodeFailed \<or> s = NodeSkipped) (smStates sm)"

definition HasFailures :: "StateManager \<Rightarrow> bool" where
  "HasFailures sm \<longleftrightarrow> list_ex (\<lambda>(_, s). s = NodeFailed) (smStates sm)"

definition CountByState :: "StateManager \<Rightarrow> NodeState \<Rightarrow> nat" where
  "CountByState sm st = length (filter (\<lambda>(_, s). s = st) (smStates sm))"

text \<open>
  A dependency in the zero state matches no case of the code's switch, so the loop goes on as if it
  were satisfied; and a missing fail edge reads as the empty node id.
\<close>

definition depSatisfied :: "StateManager \<Rightarrow> NodeID \<Rightarrow> NodeID \<Rightarrow> bool" where
  "depSatisfied sm dep nid =
     (case Get sm dep of
        NodeDone \<Rightarrow> True | NodeSkipped \<Rightarrow> True
      | NodeFailed \<Rightarrow> (case smFailEdges sm dep of None \<Rightarrow> [] | Some t \<Rightarrow> t) = nid
      | NodePending \<Rightarrow> False | NodeQueued \<Rightarrow> False | NodeRunning \<Rightarrow> False
      | NodeStateZero \<Rightarrow> True)"

definition DependenciesSatisfied :: "StateManager \<Rightarrow> Node \<Rightarrow> bool" where
  "DependenciesSatisfied sm node = list_all (\<lambda>dep. depSatisfied sm dep (nID node)) (nDependsOn node)"

definition IncrementIteration :: "NodeID \<Rightarrow> StateManager \<Rightarrow> int \<times> StateManager" where
  "IncrementIteration nid sm =
     (smIterationCount sm nid + 1, sm\<lparr>smIterationCount := (smIterationCount sm)(nid := smIterationCount sm nid + 1)\<rparr>)"

definition IncrementRetry :: "NodeID \<Rightarrow> StateManager \<Rightarrow> int \<times> StateManager" where
  "IncrementRetry nid sm =
     (smRetryCount sm nid + 1, sm\<lparr>smRetryCount := (smRetryCount sm)(nid := smRetryCount sm nid + 1)\<rparr>)"

definition ResetForIteration :: "NodeID \<Rightarrow> StateManager \<Rightarrow> StateError + StateManager" where
  "ResetForIteration nid sm =
     (case map_of (smStates sm) nid of
        None \<Rightarrow> Inl (UnknownNode nid)
      | Some state \<Rightarrow>
          if state \<noteq> NodeDone \<and> state \<noteq> NodeFailed then Inl (CannotReset nid state)
          else Inr (sm\<lparr>smStates := AList.update nid NodePending (smStates sm),
                       smErrors := (smErrors sm)(nid := None),
                       smResults := (if state = NodeFailed then (smResults sm)(nid := None)
                                     else smResults sm)\<rparr>))"

definition edgeKey :: "NodeID \<Rightarrow> NodeID \<Rightarrow> string" where
  "edgeKey frm to = frm @ ''->'' @ to"

definition SetEdgeState :: "NodeID \<Rightarrow> NodeID \<Rightarrow> EdgeState \<Rightarrow> StateManager \<Rightarrow> StateManager" where
  "SetEdgeState frm to st sm = sm\<lparr>smEdgeStates := (smEdgeStates sm)(edgeKey frm to := st)\<rparr>"

definition GetEdgeState :: "StateManager \<Rightarrow> NodeID \<Rightarrow> NodeID \<Rightarrow> EdgeState" where
  "GetEdgeState sm frm to = smEdgeStates sm (edgeKey frm to)"

definition AllIncomingEdgesSkipped :: "StateManager \<Rightarrow> Node \<Rightarrow> bool" where
  "AllIncomingEdgesSkipped sm node \<longleftrightarrow>
     nDependsOn node \<noteq> [] \<and> list_all (\<lambda>dep. smEdgeStates sm (edgeKey dep (nID node)) = EdgeSkipped) (nDependsOn node)"

section \<open>Guarded moves\<close>

text \<open>
  What the scheduler relies on: a move between states succeeds only when the table of moves allows
  it, it changes the one node it names, and it never makes or removes a node.
\<close>

locale guarded_states =
  fixes get :: "'s \<Rightarrow> 'k \<Rightarrow> 'v" and known :: "'s \<Rightarrow> 'k \<Rightarrow> bool"
    and move :: "'k \<Rightarrow> 'v \<Rightarrow> 's \<Rightarrow> 'e + 's" and allowed :: "'v \<Rightarrow> 'v \<Rightarrow> bool"
  assumes move_ok: "move k v s = Inr s' \<Longrightarrow> known s k \<and> allowed (get s k) v"
    and move_get: "move k v s = Inr s' \<Longrightarrow> get s' k' = (if k' = k then v else get s k')"
    and move_known: "move k v s = Inr s' \<Longrightarrow> known s' k' \<longleftrightarrow> known s k'"
    and move_total: "known s k \<Longrightarrow> allowed (get s k) v \<Longrightarrow> \<exists>s'. move k v s = Inr s'"
begin

text \<open>The state after a move whose error the caller ignores.\<close>

definition moved :: "'k \<Rightarrow> 'v \<Rightarrow> 's \<Rightarrow> 's" where
  "moved k v s = (case move k v s of Inl _ \<Rightarrow> s | Inr s' \<Rightarrow> s')"

lemma get_moved:
  "get (moved k v s) k' = (if k' = k \<and> known s k \<and> allowed (get s k) v then v else get s k')"
proof (cases "move k v s")
  case (Inl e)
  then show ?thesis using move_total [of s k v] by (auto simp: moved_def)
next
  case (Inr s')
  with move_ok [OF Inr] move_get [OF Inr] show ?thesis by (auto simp: moved_def)
qed

lemma known_moved: "known (moved k v s) k' \<longleftrightarrow> known s k'"
  using move_known by (cases "move k v s") (auto simp: moved_def)

lemma stuck_stays: "\<not> allowed (get s k) v \<Longrightarrow> get (moved k v s) k = get s k"
  by (simp add: get_moved)

end

definition knownNode :: "StateManager \<Rightarrow> NodeID \<Rightarrow> bool" where
  "knownNode sm nid \<longleftrightarrow> map_of (smStates sm) nid \<noteq> None"

interpretation node_states: guarded_states Get knownNode Transition validTransition
  by unfold_locales
    (auto simp: Transition_def Get_def knownNode_def split: option.splits if_splits)

text \<open>\<^verbatim>\<open>_ = s.state.Transition(id, to)\<close>.\<close>

definition tryTransition :: "NodeID \<Rightarrow> NodeState \<Rightarrow> StateManager \<Rightarrow> StateManager" where
  "tryTransition nid to sm = (case Transition nid to sm of Inl _ \<Rightarrow> sm | Inr sm' \<Rightarrow> sm')"

lemma tryTransition_moved: "tryTransition = node_states.moved"
  by (intro ext) (simp add: tryTransition_def node_states.moved_def)

lemmas Get_tryTransition = node_states.get_moved [folded tryTransition_moved]

lemmas known_tryTransition = node_states.known_moved [folded tryTransition_moved]

section \<open>Properties\<close>

definition sm_wf :: "StateManager \<Rightarrow> bool" where
  "sm_wf sm \<longleftrightarrow> wf_map (smStates sm) \<and> list_all (\<lambda>(_, s). s \<noteq> NodeStateZero) (smStates sm)"

lemma AllDone_iff:
  assumes "wf_map (smStates sm)"
  shows "AllDone sm \<longleftrightarrow> (\<forall>nid. knownNode sm nid \<longrightarrow> Get sm nid \<in> {NodeDone, NodeFailed, NodeSkipped})"
proof -
  have "AllDone sm \<longleftrightarrow> (\<forall>(nid, s) \<in> set (smStates sm). s = NodeDone \<or> s = NodeFailed \<or> s = NodeSkipped)"
    by (simp add: AllDone_def list_all_iff)
  also have "\<dots> \<longleftrightarrow> (\<forall>nid s. map_of (smStates sm) nid = Some s \<longrightarrow> s = NodeDone \<or> s = NodeFailed \<or> s = NodeSkipped)"
    using ball_values_wf [OF assms, of "\<lambda>_ s. s = NodeDone \<or> s = NodeFailed \<or> s = NodeSkipped"] .
  also have "\<dots> \<longleftrightarrow> (\<forall>nid. knownNode sm nid \<longrightarrow> Get sm nid \<in> {NodeDone, NodeFailed, NodeSkipped})"
    by (fastforce simp: knownNode_def Get_def)
  finally show ?thesis .
qed

end
