(* ===== verification/Graph_Validation.thy ===== *)
theory Graph_Validation
  imports Graph_Model
begin

text \<open>
  Correctness of the graph algorithms: the depth-first search reports an error exactly when the
  dependency relation has a cycle, validation accepts exactly the well-formed acyclic graphs, and
  the breadth-first search counts exactly the transitive dependents.
\<close>

section \<open>Well-formed graphs and the dependency relation\<close>

definition graph_wf :: "Graph \<Rightarrow> bool" where
  "graph_wf g \<longleftrightarrow> wf_map (gNodes g) \<and> list_all (\<lambda>(k, n). nID n = k) (gNodes g)"

definition depends :: "Graph \<Rightarrow> (NodeID \<times> NodeID) set" where
  "depends g = {(x, y). \<exists>node. map_of (gNodes g) x = Some node \<and> y \<in> set (nDependsOn node)}"

definition refs_ok :: "Graph \<Rightarrow> bool" where
  "refs_ok g \<longleftrightarrow> (\<forall>x y. (x, y) \<in> depends g \<longrightarrow> map_of (gNodes g) y \<noteq> None)"

lemma depends_iff:
  "map_of (gNodes g) x = Some node \<Longrightarrow> (x, y) \<in> depends g \<longleftrightarrow> y \<in> set (nDependsOn node)"
  by (auto simp: depends_def)

lemma graph_wf_lookup: "graph_wf g \<Longrightarrow> map_of (gNodes g) k = Some n \<Longrightarrow> nID n = k"
  by (auto simp: graph_wf_def list_all_iff dest!: map_of_SomeD)

lemma graph_wf_nodeList: "graph_wf g \<Longrightarrow> n \<in> set (nodeList g) \<longleftrightarrow> map_of (gNodes g) (nID n) = Some n"
proof
  assume wf: "graph_wf g" and "n \<in> set (nodeList g)"
  then obtain k where k: "(k, n) \<in> set (gNodes g)" by (auto simp: nodeList_def)
  with wf have "nID n = k" by (auto simp: graph_wf_def list_all_iff)
  moreover from wf have "wf_map (gNodes g)" by (simp add: graph_wf_def)
  ultimately show "map_of (gNodes g) (nID n) = Some n" using k by (simp only: wf_map_ran [symmetric])
next
  assume "map_of (gNodes g) (nID n) = Some n"
  then show "n \<in> set (nodeList g)" by (force simp: nodeList_def dest!: map_of_SomeD)
qed

lemma depends_nodeList:
  assumes "graph_wf g"
  shows "(x, y) \<in> depends g \<longleftrightarrow> (\<exists>node \<in> set (nodeList g). nID node = x \<and> y \<in> set (nDependsOn node))"
proof
  assume "(x, y) \<in> depends g"
  then obtain node where n: "map_of (gNodes g) x = Some node" "y \<in> set (nDependsOn node)"
    by (auto simp: depends_def)
  moreover have "nID node = x" using graph_wf_lookup [OF assms n(1)] .
  ultimately show "\<exists>node \<in> set (nodeList g). nID node = x \<and> y \<in> set (nDependsOn node)"
    using graph_wf_nodeList [OF assms, of node] by blast
next
  assume "\<exists>node \<in> set (nodeList g). nID node = x \<and> y \<in> set (nDependsOn node)"
  then obtain node where "map_of (gNodes g) x = Some node" "y \<in> set (nDependsOn node)"
    using graph_wf_nodeList [OF assms] by blast
  then show "(x, y) \<in> depends g" by (auto simp: depends_def)
qed

lemma NewGraph_wf: "graph_wf NewGraph"
  by (simp add: graph_wf_def NewGraph_def)

lemma AddNode_wf: "graph_wf g \<Longrightarrow> AddNode n g = Inr g' \<Longrightarrow> graph_wf g'"
proof -
  assume wf: "graph_wf g" and a: "AddNode n g = Inr g'"
  then have g': "gNodes g' = AList.update (nID n) n (gNodes g)" by (auto simp: AddNode_def split: if_splits)
  have "wf_map (gNodes g')" using wf by (simp add: g' graph_wf_def)
  moreover have "nID v = k" if "(k, v) \<in> set (gNodes g')" for k v
  proof -
    from that calculation have "map_of (gNodes g') k = Some v" by (simp only: wf_map_ran)
    with wf show ?thesis unfolding g' by (auto split: if_splits dest: graph_wf_lookup)
  qed
  ultimately show ?thesis by (auto simp: graph_wf_def list_all_iff)
qed

section \<open>Depth-first search\<close>

text \<open>
  The frames of the stack from the top: every dependency before a frame's index is finished, except
  the one that the frame above it explores; that one is a dependency of the frame.
\<close>

fun frames_ok :: "Graph \<Rightarrow> (NodeID \<Rightarrow> Color) \<Rightarrow> NodeID option \<Rightarrow> (NodeID \<times> nat) list \<Rightarrow> bool" where
  "frames_ok g color upper [] \<longleftrightarrow> True"
| "frames_ok g color upper ((i, k) # stack) \<longleftrightarrow>
     (\<exists>node. map_of (gNodes g) i = Some node \<and>
        (\<forall>j < min k (length (nDependsOn node)). color (nDependsOn node ! j) = Black \<or> Some (nDependsOn node ! j) = upper) \<and>
        (\<forall>a. upper = Some a \<longrightarrow> a \<in> set (nDependsOn node))) \<and>
     frames_ok g color (Some i) stack"

definition black_ok :: "Graph \<Rightarrow> (NodeID \<Rightarrow> Color) \<Rightarrow> bool" where
  "black_ok g color \<longleftrightarrow>
     (\<forall>x y. color x = Black \<longrightarrow> (x, y) \<in> depends g \<longrightarrow> color y = Black) \<and>
     (\<forall>x. color x = Black \<longrightarrow> (x, x) \<notin> (depends g)\<^sup>+)"

definition dfs_inv :: "Graph \<Rightarrow> (NodeID \<Rightarrow> Color) \<Rightarrow> (NodeID \<times> nat) list \<Rightarrow> bool" where
  "dfs_inv g color stack \<longleftrightarrow>
     distinct (map fst stack) \<and> (\<forall>x. color x = Gray \<longleftrightarrow> x \<in> fst ` set stack) \<and>
     black_ok g color \<and> frames_ok g color None stack"

lemma black_closed:
  assumes "black_ok g color" and "(x, y) \<in> (depends g)\<^sup>*" and "color x = Black"
  shows "color y = Black"
  using assms(2,3,1) by (induction rule: rtrancl_induct) (auto simp: black_ok_def)

lemma frames_ok_mono:
  assumes "frames_ok g color upper stack" and "\<And>x. color x = Black \<Longrightarrow> color' x = Black"
  shows "frames_ok g color' upper stack"
  using assms by (induction g color upper stack rule: frames_ok.induct) auto

text \<open>Every frame reaches the frames above it.\<close>

lemma frames_path:
  assumes "frames_ok g color upper stack" and "upper = Some a" and "x \<in> fst ` set stack"
  shows "(x, a) \<in> (depends g)\<^sup>+"
  using assms
proof (induction g color upper stack arbitrary: a rule: frames_ok.induct)
  case (2 g color upper i k stack)
  then have e: "(i, a) \<in> depends g" by (auto simp: depends_def)
  show ?case
  proof (cases "x = i")
    case False
    with 2 have "(x, i) \<in> (depends g)\<^sup>+" by auto
    then show ?thesis using e by (rule trancl_into_trancl)
  qed (use e in auto)
qed simp

lemma dfs_finish:
  assumes inv: "dfs_inv g color ((i, k) # stack)" and node: "map_of (gNodes g) i = Some node"
    and k: "length (nDependsOn node) \<le> k"
  shows "dfs_inv g (color(i := Black)) stack"
proof -
  have deps: "color y = Black" if "(i, y) \<in> depends g" for y
  proof -
    from that node have "y \<in> set (nDependsOn node)" by (simp add: depends_iff)
    then obtain j where "j < length (nDependsOn node)" "y = nDependsOn node ! j" by (auto simp: in_set_conv_nth)
    with inv node k show ?thesis by (auto simp: dfs_inv_def min_absorb2)
  qed
  have bo: "black_ok g color" using inv by (simp add: dfs_inv_def)
  have gray: "color i = Gray" using inv by (auto simp: dfs_inv_def)
  have "(i, i) \<notin> (depends g)\<^sup>+"
  proof
    assume "(i, i) \<in> (depends g)\<^sup>+"
    then obtain y where "(i, y) \<in> depends g" "(y, i) \<in> (depends g)\<^sup>*" by (meson tranclD)
    with deps bo have "color i = Black" by (meson black_closed)
    with gray show False by simp
  qed
  with bo deps have "black_ok g (color(i := Black))" by (auto simp: black_ok_def)
  moreover have "frames_ok g (color(i := Black)) None stack"
  proof (cases stack)
    case (Cons f fs)
    obtain i' k' where f: "f = (i', k')" by fastforce
    from inv Cons f obtain node' where n': "map_of (gNodes g) i' = Some node'"
        "\<forall>j < min k' (length (nDependsOn node')). color (nDependsOn node' ! j) = Black \<or> nDependsOn node' ! j = i"
      and rest: "frames_ok g color (Some i') fs"
      by (auto simp: dfs_inv_def)
    from frames_ok_mono [OF rest, of "color(i := Black)"] n' show ?thesis by (auto simp: Cons f)
  qed simp
  ultimately show ?thesis using inv by (auto simp: dfs_inv_def)
qed

lemma dfs_push:
  assumes inv: "dfs_inv g color ((i, k) # stack)" and node: "map_of (gNodes g) i = Some node"
    and k: "k < length (nDependsOn node)" and white: "color (nDependsOn node ! k) = White"
    and known: "map_of (gNodes g) (nDependsOn node ! k) = Some node'"
  shows "dfs_inv g (color(nDependsOn node ! k := Gray)) ((nDependsOn node ! k, 0) # (i, k + 1) # stack)"
proof -
  let ?d = "nDependsOn node ! k" and ?c = "color(nDependsOn node ! k := Gray)"
  have mono: "\<And>x. color x = Black \<Longrightarrow> ?c x = Black" using white by auto
  have "color ?d \<noteq> Gray" using white by simp
  then have new: "?d \<notin> fst ` set ((i, k) # stack)" using inv by (simp only: dfs_inv_def) blast
  have "black_ok g ?c"
    using inv white unfolding dfs_inv_def black_ok_def by (auto split: if_splits) 
  moreover have "frames_ok g ?c (Some i) stack"
    using inv mono by (auto simp: dfs_inv_def intro: frames_ok_mono)
  moreover have "\<forall>j < Suc k. ?c (nDependsOn node ! j) = Black \<or> nDependsOn node ! j = ?d"
    using inv node k mono by (auto simp: dfs_inv_def less_Suc_eq)
  ultimately show ?thesis
    using inv node known new k unfolding dfs_inv_def by (auto simp: min_absorb1)
qed

lemma dfs_skip:
  assumes inv: "dfs_inv g color ((i, k) # stack)" and node: "map_of (gNodes g) i = Some node"
    and k: "k < length (nDependsOn node)" and black: "color (nDependsOn node ! k) = Black"
  shows "dfs_inv g color ((i, k + 1) # stack)"
  using assms by (auto simp: dfs_inv_def less_Suc_eq min_absorb1)

text \<open>What the loop delivers when every reference is known.\<close>

definition dfs_post :: "Graph \<Rightarrow> (NodeID \<Rightarrow> Color) \<Rightarrow> DfsOutcome \<Rightarrow> bool" where
  "dfs_post g color out =
     (case out of
        DfsDone color' \<Rightarrow> dfs_inv g color' [] \<and> (\<forall>x. color x \<noteq> White \<longrightarrow> color' x = Black)
      | DfsCycle x \<Rightarrow> (x, x) \<in> (depends g)\<^sup>+
      | DfsNil \<Rightarrow> False)"

lemma dfs_post_mono:
  assumes "dfs_post g color' out" and "\<And>x. color x \<noteq> White \<Longrightarrow> color' x \<noteq> White"
  shows "dfs_post g color out"
  using assms by (auto simp: dfs_post_def split: DfsOutcome.splits)

lemma dfsLoop_correct:
  assumes "dfs_inv g color stack" and "refs_ok g"
  shows "dfs_post g color (dfsLoop g color stack)"
  using assms
proof (induction g color stack rule: dfsLoop.induct)
  case (1 g color)
  then have "color x = White \<or> color x = Black" for x by (cases "color x") (auto simp: dfs_inv_def)
  with 1 show ?case by (auto simp: dfs_post_def)
next
  case (2 g color i k stack)
  from 2(4) obtain node where node: "map_of (gNodes g) i = Some node" by (auto simp: dfs_inv_def)
  show ?case
  proof (cases "length (nDependsOn node) \<le> k")
    case True
    then have eq: "dfsLoop g color ((i, k) # stack) = dfsLoop g (color(i := Black)) stack" by (simp add: node)
    show ?thesis
      unfolding eq by (rule dfs_post_mono [OF 2(1) [OF node True dfs_finish [OF 2(4) node True] 2(5)]]) simp
  next
    case False
    let ?d = "nDependsOn node ! k"
    have k: "k < length (nDependsOn node)" using False by simp
    have edge: "(i, ?d) \<in> depends g" using node k by (simp add: depends_iff)
    show ?thesis
    proof (cases "color ?d")
      case White
      from edge 2(5) obtain node' where known: "map_of (gNodes g) ?d = Some node'" by (auto simp: refs_ok_def)
      have eq: "dfsLoop g color ((i, k) # stack) = dfsLoop g (color(?d := Gray)) ((?d, 0) # (i, k + 1) # stack)"
        using node False White by (simp add: Let_def)
      show ?thesis
        unfolding eq
        by (rule dfs_post_mono [OF 2(2) [OF node False refl White dfs_push [OF 2(4) node k White known] 2(5)]]) simp
    next
      case Gray
      with 2(4) have on: "?d \<in> fst ` set ((i, k) # stack)" by (auto simp: dfs_inv_def)
      have "(?d, i) \<in> (depends g)\<^sup>*"
      proof (cases "?d = i")
        case False
        with on have "?d \<in> fst ` set stack" by auto
        moreover have "frames_ok g color (Some i) stack" using 2(4) by (simp add: dfs_inv_def)
        ultimately show ?thesis by (auto dest: frames_path)
      qed simp
      then have "(?d, ?d) \<in> (depends g)\<^sup>+" using edge by (rule rtrancl_into_trancl1)
      with node False Gray show ?thesis by (simp add: dfs_post_def)
    next
      case Black
      have eq: "dfsLoop g color ((i, k) # stack) = dfsLoop g color ((i, k + 1) # stack)"
        using node False Black by (simp add: Let_def)
      show ?thesis unfolding eq by (rule 2(3) [OF node False refl Black dfs_skip [OF 2(4) node k Black] 2(5)])
    qed
  qed
qed

lemma dfs_start:
  assumes "dfs_inv g color []" and "map_of (gNodes g) s \<noteq> None" and "color s = White"
  shows "dfs_inv g (color(s := Gray)) [(s, 0)]"
  using assms by (auto simp: dfs_inv_def black_ok_def)

lemma dfsStarts_correct:
  assumes "dfs_inv g color []" and "refs_ok g" and "\<forall>s \<in> set ids. map_of (gNodes g) s \<noteq> None"
  shows "case dfsStarts g ids color of
           None \<Rightarrow> (\<forall>x. x \<in> set ids \<or> color x = Black \<longrightarrow> (x, x) \<notin> (depends g)\<^sup>+)
         | Some err \<Rightarrow> \<exists>x. err = CycleInvolving x \<and> (x, x) \<in> (depends g)\<^sup>+"
  using assms
proof (induction ids arbitrary: color)
  case Nil
  then show ?case by (simp add: dfs_inv_def black_ok_def)
next
  case (Cons s ids)
  show ?case
  proof (cases "color s = White")
    case True
    with Cons.prems have "dfs_inv g (color(s := Gray)) [(s, 0)]" by (intro dfs_start) auto
    from dfsLoop_correct [OF this Cons.prems(2)]
    have post: "dfs_post g (color(s := Gray)) (dfsLoop g (color(s := Gray)) [(s, 0)])" .
    show ?thesis
    proof (cases "dfsLoop g (color(s := Gray)) [(s, 0)]")
      case (DfsDone color')
      with post have c': "dfs_inv g color' []" "color' s = Black" "\<forall>x. color x = Black \<longrightarrow> color' x = Black"
        by (auto simp: dfs_post_def)
      with Cons.IH [OF c'(1) Cons.prems(2)] Cons.prems(3) True DfsDone show ?thesis
        by (auto split: option.splits)
    qed (use True post in \<open>auto simp: dfs_post_def simp del: fun_upd_apply\<close>)
  next
    case False
    then have "color s = Black" using Cons.prems(1) by (cases "color s") (auto simp: dfs_inv_def)
    with Cons.IH [OF Cons.prems(1,2)] Cons.prems(3) False show ?thesis by (auto split: option.splits)
  qed
qed

lemma detectCycles_correct:
  assumes "refs_ok g"
  shows "detectCycles g = None \<longleftrightarrow> acyclic (depends g)"
    and "detectCycles g = Some err \<Longrightarrow> \<exists>x. err = CycleInvolving x \<and> (x, x) \<in> (depends g)\<^sup>+"
proof -
  have inv: "dfs_inv g (\<lambda>_. White) []" by (simp add: dfs_inv_def black_ok_def)
  have ids: "\<forall>s \<in> set (NodeIDs g). map_of (gNodes g) s \<noteq> None"
    by (auto simp: NodeIDs_def map_of_eq_None_iff)
  note c = dfsStarts_correct [OF inv assms ids, folded detectCycles_def]
  show "detectCycles g = Some err \<Longrightarrow> \<exists>x. err = CycleInvolving x \<and> (x, x) \<in> (depends g)\<^sup>+"
    using c by simp
  have "(x, x) \<notin> (depends g)\<^sup>+" if "detectCycles g = None" for x
  proof
    assume x: "(x, x) \<in> (depends g)\<^sup>+"
    then obtain y where "(x, y) \<in> depends g" by (meson tranclD)
    then have "x \<in> set (NodeIDs g)" by (force simp: depends_def NodeIDs_def dest!: map_of_SomeD)
    with c that x show False by auto
  qed
  with c show "detectCycles g = None \<longleftrightarrow> acyclic (depends g)"
    by (cases "detectCycles g") (auto simp: acyclic_def)
qed

section \<open>Breadth-first search\<close>

lemma reverseOf_iff:
  assumes "graph_wf g"
  shows "x \<in> set (reverseOf g y) \<longleftrightarrow> (x, y) \<in> depends g"
  unfolding depends_nodeList [OF assms] by (auto simp: reverseOf_def)

text \<open>
  The search from a start: what it has seen lies within \<open>R\<close>, and everything that depends on a
  visited node is visited or waiting. So the visited set at the end is the least such set.
\<close>

definition bfs_inv :: "Graph \<Rightarrow> NodeID \<Rightarrow> NodeID list \<Rightarrow> NodeID list \<Rightarrow> bool" where
  "bfs_inv g s visited queue \<longleftrightarrow>
     distinct visited \<and> (\<forall>x \<in> set visited \<union> set queue. (x, s) \<in> (depends g)\<^sup>+) \<and>
     (\<forall>x y. (x, y) \<in> depends g \<longrightarrow> y = s \<or> y \<in> set visited \<longrightarrow> x \<in> set visited \<union> set queue)"

lemma bfsLoop_correct:
  assumes "graph_wf g" and "bfs_inv g s visited queue"
  shows "bfs_inv g s (bfsLoop g visited queue) []"
  using assms
proof (induction g visited queue rule: bfsLoop.induct)
  case (2 g visited cur queue)
  show ?case
  proof (cases "cur \<in> set visited")
    case True
    then have "bfs_inv g s visited queue" using 2(4) by (auto simp: bfs_inv_def)
    with 2(1) [OF True 2(3)] True show ?thesis by simp
  next
    case False
    have cur: "(cur, s) \<in> (depends g)\<^sup>+" using 2(4) by (simp add: bfs_inv_def)
    have r: "x \<in> set (reverseOf g cur) \<longleftrightarrow> (x, cur) \<in> depends g" for x using reverseOf_iff [OF 2(3)] .
    have "bfs_inv g s (cur # visited) (queue @ reverseOf g cur)"
      using 2(4) False cur trancl_into_trancl2 [OF _ cur] unfolding bfs_inv_def by (auto simp: r)
    with 2(2) [OF False 2(3)] False show ?thesis by simp
  qed
qed simp

lemma bfs_set:
  assumes "graph_wf g"
  shows "set (bfsLoop g [] (reverseOf g s)) = {x. (x, s) \<in> (depends g)\<^sup>+}"
    and "distinct (bfsLoop g [] (reverseOf g s))"
proof -
  have "bfs_inv g s [] (reverseOf g s)" by (auto simp: bfs_inv_def reverseOf_iff [OF assms])
  from bfsLoop_correct [OF assms this] have inv: "bfs_inv g s (bfsLoop g [] (reverseOf g s)) []" .
  then show "distinct (bfsLoop g [] (reverseOf g s))" by (simp add: bfs_inv_def)
  have "x \<in> set (bfsLoop g [] (reverseOf g s))" if "(x, s) \<in> (depends g)\<^sup>+" for x
    using that by (induction rule: converse_trancl_induct) (use inv in \<open>auto simp: bfs_inv_def\<close>)
  with inv show "set (bfsLoop g [] (reverseOf g s)) = {x. (x, s) \<in> (depends g)\<^sup>+}"
    by (auto simp: bfs_inv_def)
qed

lemma depCount_card:
  assumes "graph_wf g"
  shows "depCount g s = card {x. (x, s) \<in> (depends g)\<^sup>+}"
  using bfs_set [OF assms, of s] distinct_card by (fastforce simp: depCount_def)

section \<open>Validation\<close>

lemma gNodes_buildEdges: "gNodes (buildEdges g) = gNodes g"
  by (simp add: buildEdges_def)

lemma firstError_None: "firstError f xs = None \<longleftrightarrow> (\<forall>x \<in> set xs. f x = None)"
  by (induction xs) (auto simp: firstError_def)

text \<open>What the code's checks on a single node ask for.\<close>

definition node_ok :: "Graph \<Rightarrow> Node \<Rightarrow> bool" where
  "node_ok g n \<longleftrightarrow>
     (\<forall>dep \<in> set (nDependsOn n). map_of (gNodes g) dep \<noteq> None) \<and>
     (\<forall>t. nFailBranch n = Some t \<longrightarrow> t \<noteq> nID n \<and>
        (\<exists>tn. map_of (gNodes g) t = Some tn \<and> nID n \<in> set (nDependsOn tn))) \<and>
     (nSubTask n = None \<or> nPrompt n = []) \<and>
     nMaxIterations n \<ge> 0 \<and> (nMaxIterations n = 0 \<or> nIterationCheck n \<noteq> None) \<and>
     (nErrorStrategy n = ErrorRetryThenFail \<longrightarrow> nMaxRetries n > 0)"

lemma node_checks:
  "checkReferences g n = None \<and> checkFailBranch g n = None \<and> checkSubTask n = None \<and>
   checkIteration n = None \<and> checkRetry n = None \<longleftrightarrow> node_ok g n"
proof -
  have "checkReferences g n = None \<longleftrightarrow> (\<forall>dep \<in> set (nDependsOn n). map_of (gNodes g) dep \<noteq> None)"
    by (simp add: checkReferences_def firstError_None)
  moreover have "checkFailBranch g n = None \<longleftrightarrow>
      (\<forall>t. nFailBranch n = Some t \<longrightarrow> t \<noteq> nID n \<and>
        (\<exists>tn. map_of (gNodes g) t = Some tn \<and> nID n \<in> set (nDependsOn tn)))"
    by (auto simp: checkFailBranch_def split: option.splits)
  moreover have "checkSubTask n = None \<longleftrightarrow> (nSubTask n = None \<or> nPrompt n = [])"
    by (simp add: checkSubTask_def)
  moreover have "checkIteration n = None \<longleftrightarrow>
      nMaxIterations n \<ge> 0 \<and> (nMaxIterations n = 0 \<or> nIterationCheck n \<noteq> None)"
    by (auto simp: checkIteration_def)
  moreover have "checkRetry n = None \<longleftrightarrow> (nErrorStrategy n = ErrorRetryThenFail \<longrightarrow> nMaxRetries n > 0)"
    by (auto simp: checkRetry_def)
  ultimately show ?thesis unfolding node_ok_def by (simp only: conj_assoc)
qed

lemma node_ok_refs: "graph_wf g \<Longrightarrow> \<forall>n \<in> set (nodeList g). node_ok g n \<Longrightarrow> refs_ok g"
  unfolding refs_ok_def by (auto simp: depends_nodeList node_ok_def)

lemma Validate_iff:
  assumes "graph_wf g"
  shows "(\<exists>g'. Validate g = Inr g') \<longleftrightarrow>
           gNodes g \<noteq> [] \<and> (\<forall>n \<in> set (nodeList g). node_ok g n) \<and> acyclic (depends g)"
proof -
  have "(\<exists>g'. Validate g = Inr g') \<longleftrightarrow> gNodes g \<noteq> [] \<and>
      firstError (checkReferences g) (nodeList g) = None \<and> firstError (checkFailBranch g) (nodeList g) = None \<and>
      firstError checkSubTask (nodeList g) = None \<and> firstError checkIteration (nodeList g) = None \<and>
      firstError checkRetry (nodeList g) = None \<and> detectCycles g = None"
    by (simp add: Validate_def split: option.splits)
  also have "\<dots> \<longleftrightarrow> gNodes g \<noteq> [] \<and>
      (\<forall>n \<in> set (nodeList g). checkReferences g n = None \<and> checkFailBranch g n = None \<and> checkSubTask n = None \<and>
         checkIteration n = None \<and> checkRetry n = None) \<and> detectCycles g = None"
    unfolding firstError_None by blast
  also have "\<dots> \<longleftrightarrow> gNodes g \<noteq> [] \<and> (\<forall>n \<in> set (nodeList g). node_ok g n) \<and> acyclic (depends g)"
    unfolding node_checks using detectCycles_correct(1) [of g] node_ok_refs [OF assms] by blast
  finally show ?thesis .
qed

lemma Validate_keeps:
  assumes "Validate g = Inr g'"
  shows "gNodes g' = gNodes g"
  using assms by (auto simp: Validate_def computeDepCounts_def buildEdges_def split: if_splits option.splits)

section \<open>Concrete graphs\<close>

definition demo_node :: "NodeID \<Rightarrow> NodeID list \<Rightarrow> NodeID \<times> Node" where
  "demo_node i deps = (i, zeroNode\<lparr>nID := i, nPrompt := ''do'', nDependsOn := deps\<rparr>)"

definition demo_graph :: Graph where
  "demo_graph = NewGraph\<lparr>gNodes := [demo_node ''d'' [''b'', ''c''], demo_node ''a'' [],
     demo_node ''c'' [''a''], demo_node ''b'' [''a'']]\<rparr>"

definition demo_cycle :: Graph where
  "demo_cycle = NewGraph\<lparr>gNodes := [demo_node ''x'' [''y''], demo_node ''y'' [''z''], demo_node ''z'' [''y'']]\<rparr>"

lemma demo_graph_wf: "graph_wf demo_graph" "graph_wf demo_cycle"
  unfolding graph_wf_def by code_simp+

lemma demo_graph_valid: "case Validate demo_graph of Inl _ \<Rightarrow> False | Inr _ \<Rightarrow> True"
  by code_simp

lemma demo_cycle_refs: "refs_ok demo_cycle"
  by (auto simp: refs_ok_def depends_def demo_cycle_def demo_node_def NewGraph_def split: if_splits)

lemma demo_cycle_error: "detectCycles demo_cycle = Some (CycleInvolving ''y'')"
  by code_simp

section \<open>Properties\<close>

text \<open>
  C8: Validation accepts exactly the executable graphs. For every graph built by adding nodes, and
  every order in which the node map is iterated, \<^verbatim>\<open>Validate\<close> succeeds if and only if the graph
  is not empty, every node passes the checks on its references, fail branch, sub-task, iteration and
  retry settings, and the dependency relation has no cycle.
\<close>

theorem validate_accepts_exactly:
  assumes "graph_wf g"
  shows "(\<exists>g'. Validate g = Inr g') \<longleftrightarrow>
           gNodes g \<noteq> [] \<and> (\<forall>n \<in> set (nodeList g). node_ok g n) \<and> acyclic (depends g)"
  by (rule Validate_iff [OF assms])

theorem validate_accepts_exactly_witness:
  "graph_wf demo_graph \<and> gNodes demo_graph \<noteq> [] \<and> acyclic (depends demo_graph)"
proof -
  have "\<exists>g'. Validate demo_graph = Inr g'" using demo_graph_valid by (auto split: sum.splits)
  then show ?thesis using demo_graph_wf(1) validate_accepts_exactly [OF demo_graph_wf(1)] by simp
qed

text \<open>
  The cycle error is truthful. On a graph whose references are all known the search ends without
  a nil dereference; it reports an error exactly when there is a cycle, and the node it names lies
  on one.
\<close>

theorem cycle_error_truthful:
  assumes "refs_ok g"
  shows "(detectCycles g = None \<longleftrightarrow> acyclic (depends g)) \<and>
         (\<forall>err. detectCycles g = Some err \<longrightarrow> (\<exists>x. err = CycleInvolving x \<and> (x, x) \<in> (depends g)\<^sup>+))"
  using detectCycles_correct [OF assms] by blast

theorem cycle_error_truthful_witness:
  "refs_ok demo_cycle \<and> (''y'', ''y'') \<in> (depends demo_cycle)\<^sup>+"
  using demo_cycle_refs cycle_error_truthful [OF demo_cycle_refs] demo_cycle_error by auto

text \<open>
  C33: Priorities count transitive dependents. After a successful validation the cached count of every
  node is the number of distinct nodes that depend on it directly or indirectly.
\<close>

theorem dep_count_is_transitive:
  assumes "graph_wf g" and "Validate g = Inr g'" and "map_of (gNodes g) nid \<noteq> None"
  shows "TransitiveDepCount g' nid = card {x. (x, nid) \<in> (depends g)\<^sup>+}"
proof -
  have g': "g' = computeDepCounts (buildEdges g)"
    using assms(2) by (auto simp: Validate_def split: if_splits option.splits)
  have same: "depCount (buildEdges g) nid = depCount g nid"
  proof -
    have "graph_wf (buildEdges g)" "depends (buildEdges g) = depends g"
      using assms(1) by (simp_all add: graph_wf_def depends_def buildEdges_def)
    with assms(1) show ?thesis by (simp add: depCount_card)
  qed
  have "map_of (map (\<lambda>(k, _). (k, f k)) xs) nid = (if map_of xs nid = None then None else Some (f nid))"
    for xs :: "(NodeID, Node) gomap" and f :: "NodeID \<Rightarrow> nat"
    by (induction xs) auto
  then have "TransitiveDepCount g' nid = depCount (buildEdges g) nid"
    using assms(3) by (auto simp: g' TransitiveDepCount_def computeDepCounts_def gNodes_buildEdges)
  with same depCount_card [OF assms(1)] show ?thesis by simp
qed

theorem dep_count_is_transitive_witness:
  "\<exists>g'. Validate demo_graph = Inr g' \<and> TransitiveDepCount g' ''a'' = 3 \<and>
        card {x. (x, ''a'') \<in> (depends demo_graph)\<^sup>+} = 3"
proof -
  obtain g' where g': "Validate demo_graph = Inr g'" using demo_graph_valid by (auto split: sum.splits)
  have "(case Validate demo_graph of Inl _ \<Rightarrow> 0 | Inr g \<Rightarrow> TransitiveDepCount g ''a'') = 3" by code_simp
  then have c: "TransitiveDepCount g' ''a'' = 3" by (simp add: g')
  have "map_of (gNodes demo_graph) ''a'' \<noteq> None" by (simp add: demo_graph_def demo_node_def)
  from dep_count_is_transitive [OF demo_graph_wf(1) g' this] g' c show ?thesis by simp
qed

end
