(* ===== verification/Graph_Scheduler.thy ===== *)
theory Graph_Scheduler
  imports Graph_State Graph_Validation
begin

text \<open>
  The scheduler that executes a graph (src/internal/graph/scheduler.go, scheduler_handlers.go).

  The scheduler's goroutines are explicit: \<open>sThreads\<close> lists those in flight, and an \<open>Action\<close>
  lets one of them run up to the next point where another may run. \<^verbatim>\<open>enqueueReady\<close> and
  \<^verbatim>\<open>dispatchNode\<close> hold the scheduler's mutex and are one step each. The two completion handlers run
  without it, so their calls of the state manager are separate steps (\<open>StateOp\<close>), interleaved
  with everything else. The worker pool's answer to a submission, the outcome of a job or sub-task,
  timers and cancellation are the arguments of the actions: a theorem about all actions is a theorem
  about all schedules and all outcomes.
\<close>

section \<open>State\<close>

datatype SchedulerEventType =
    EventNodeQueued | EventNodeStarted | EventNodeCompleted | EventNodeFailed | EventNodeSkipped
  | EventNodeFailRouted | EventNodeOutput | EventNodeIteration | EventNodeRetry
  | EventNodeApprovalRequired | EventPhaseProgress | EventAllDone

record SchedulerEvent =
  seType :: SchedulerEventType
  seNodeID :: NodeID
  seNodeLabel :: string
  seJobID :: string
  seContent :: string
  seError :: string
  seDone :: nat
  seTotal :: nat

definition schedEvent :: "SchedulerEventType \<Rightarrow> SchedulerEvent" where
  "schedEvent t = \<lparr>seType = t, seNodeID = [], seNodeLabel = [], seJobID = [], seContent = [],
     seError = [], seDone = 0, seTotal = 0\<rparr>"

definition nodeEvent :: "SchedulerEventType \<Rightarrow> Node \<Rightarrow> SchedulerEvent" where
  "nodeEvent t node = (schedEvent t)\<lparr>seNodeID := nID node, seNodeLabel := nLabel node\<rparr>"

datatype StateOp =
    OpTransition NodeID NodeState
  | OpFailIfRunning NodeID
  | OpSetResult NodeID string
  | OpSetError NodeID string
  | OpEdge NodeID NodeID EdgeState
  | OpReset NodeID
  | OpEmit SchedulerEvent
  | OpDelay

datatype After = ThenEnqueue | ThenEnqueueUnregister NodeID | ThenUnregister NodeID

datatype Goroutine =
    Watch NodeID string
  | SubTaskRun NodeID
  | Awaiting NodeID nat
  | Completing NodeID "string result"
  | Working "StateOp list" After
  | Enqueueing
  | Delayed
  | Unregistering NodeID

record Scheduler =
  sGraph :: Graph
  sState :: StateManager
  sMaxParallel :: int
  sRunning :: int
  sEvents :: "SchedulerEvent list"
  sNodeJobs :: "NodeID \<Rightarrow> string option"
  sApprovals :: "NodeID \<Rightarrow> nat option"
  sChans :: "nat \<Rightarrow> bool option"
  sNextChan :: nat
  sHasExecutor :: bool
  sThreads :: "Goroutine list"
  sFinished :: bool

definition DefaultMaxParallel :: int where
  "DefaultMaxParallel = 10"

definition NewScheduler :: "Graph \<Rightarrow> Scheduler" where
  "NewScheduler g = \<lparr>sGraph = g, sState = NewStateManager g, sMaxParallel = DefaultMaxParallel,
     sRunning = 0, sEvents = [], sNodeJobs = (\<lambda>_. None), sApprovals = (\<lambda>_. None),
     sChans = (\<lambda>_. None), sNextChan = 0, sHasExecutor = False, sThreads = [], sFinished = False\<rparr>"

definition WithMaxParallel :: "int \<Rightarrow> Scheduler \<Rightarrow> Scheduler" where
  "WithMaxParallel n s = (if n > 0 \<and> n \<le> DefaultMaxParallel then s\<lparr>sMaxParallel := n\<rparr> else s)"

definition WithSubTaskExecutor :: "Scheduler \<Rightarrow> Scheduler" where
  "WithSubTaskExecutor s = s\<lparr>sHasExecutor := True\<rparr>"

definition joinPlus :: "string list \<Rightarrow> string" where
  "joinPlus ids = (case ids of [] \<Rightarrow> [] | i # is \<Rightarrow> foldl (\<lambda>acc x. acc @ ''+'' @ x) i is)"

definition SchedulerID :: "Scheduler \<Rightarrow> string" where
  "SchedulerID s = (let roots = Roots (sGraph s) in if length roots = 1 then hd roots else joinPlus roots)"

definition spawn :: "Goroutine \<Rightarrow> Scheduler \<Rightarrow> Scheduler" where
  "spawn t s = s\<lparr>sThreads := sThreads s @ [t]\<rparr>"

text \<open>An event is offered to the events channel; what its reader does with it is not modelled.\<close>

definition emitS :: "SchedulerEvent \<Rightarrow> Scheduler \<Rightarrow> Scheduler" where
  "emitS e s = s\<lparr>sEvents := sEvents s @ [e]\<rparr>"

definition emitProgress :: "Scheduler \<Rightarrow> Scheduler" where
  "emitProgress s =
     emitS ((schedEvent EventPhaseProgress)\<lparr>
       seDone := CountByState (sState s) NodeDone + CountByState (sState s) NodeFailed + CountByState (sState s) NodeSkipped,
       seTotal := NodeCount (sGraph s)\<rparr>) s"

definition updState :: "(StateManager \<Rightarrow> StateManager) \<Rightarrow> Scheduler \<Rightarrow> Scheduler" where
  "updState f s = s\<lparr>sState := f (sState s)\<rparr>"

section \<open>Completion handlers\<close>

fun applyOp :: "StateOp \<Rightarrow> Scheduler \<Rightarrow> Scheduler" where
  "applyOp (OpTransition nid to) s = updState (tryTransition nid to) s"
| "applyOp (OpFailIfRunning nid) s =
     (if Get (sState s) nid = NodeRunning then updState (tryTransition nid NodeFailed) s else s)"
| "applyOp (OpSetResult nid r) s = updState (SetResult nid r) s"
| "applyOp (OpSetError nid e) s = updState (SetError nid e) s"
| "applyOp (OpEdge frm to st) s = updState (SetEdgeState frm to st) s"
| "applyOp (OpReset nid) s =
     updState (\<lambda>sm. case ResetForIteration nid sm of Inl _ \<Rightarrow> sm | Inr sm' \<Rightarrow> sm') s"
| "applyOp (OpEmit e) s = emitS e s"
| "applyOp OpDelay s = spawn Delayed s"

definition takenEdges :: "Graph \<Rightarrow> NodeID \<Rightarrow> StateOp list" where
  "takenEdges g nid = map (\<lambda>dep. OpEdge nid dep EdgeTaken) (Dependents g nid)"

text \<open>
  A handler's bookkeeping of its counter, done first, and the calls that follow it.
\<close>

definition handleNodeSuccess :: "NodeID \<Rightarrow> Node \<Rightarrow> string \<Rightarrow> Scheduler \<Rightarrow> Scheduler \<times> StateOp list" where
  "handleNodeSuccess nid node result s =
     (let normal = [OpTransition nid NodeDone, OpSetResult nid result] @ takenEdges (sGraph s) nid @
                   [OpEmit (nodeEvent EventNodeCompleted node)]
      in (case nIterationCheck node of
            None \<Rightarrow> (s, normal)
          | Some check \<Rightarrow>
              if nMaxIterations node > 0 \<and> check result
              then (let (iteration, sm) = IncrementIteration nid (sState s); s1 = s\<lparr>sState := sm\<rparr>
                    in if iteration < nMaxIterations node
                       then (s1, [OpEmit ((nodeEvent EventNodeIteration node)\<lparr>seContent :=
                                    ''iteration '' @ format_int (iteration + 1) @ ''/'' @ format_int (nMaxIterations node)\<rparr>),
                                  OpTransition nid NodeDone, OpSetResult nid result, OpReset nid])
                       else (s1, normal))
              else (s, normal)))"

definition markFailureEdges :: "Graph \<Rightarrow> NodeID \<Rightarrow> string \<Rightarrow> StateOp list" where
  "markFailureEdges g nid errMsg =
     map (\<lambda>dep. OpEdge nid dep (if FailBranchTarget g nid = Some dep then EdgeTaken else EdgeSkipped)) (Dependents g nid) @
     (case FailBranchTarget g nid of
        None \<Rightarrow> []
      | Some failTarget \<Rightarrow>
          [OpSetResult (FailErrorKey nid) errMsg,
           OpEmit ((schedEvent EventNodeFailRouted)\<lparr>seNodeID := nid, seContent := failTarget\<rparr>)])"

definition failOps :: "Graph \<Rightarrow> NodeID \<Rightarrow> Node \<Rightarrow> string \<Rightarrow> StateOp list" where
  "failOps g nid node err =
     [OpTransition nid NodeFailed, OpSetError nid err] @ markFailureEdges g nid err @
     [OpEmit ((nodeEvent EventNodeFailed node)\<lparr>seError := err\<rparr>)]"

definition handleNodeFailure :: "NodeID \<Rightarrow> Node \<Rightarrow> string \<Rightarrow> Scheduler \<Rightarrow> Scheduler \<times> StateOp list" where
  "handleNodeFailure nid node err s =
     (case nErrorStrategy node of
        ErrorFail \<Rightarrow> (s, failOps (sGraph s) nid node err)
      | ErrorDefaultValue \<Rightarrow>
          (s, [OpTransition nid NodeDone, OpSetResult nid (nDefaultOutput node)] @ takenEdges (sGraph s) nid @
              [OpEmit ((nodeEvent EventNodeCompleted node)\<lparr>seContent := ''default-value''\<rparr>)])
      | ErrorRetryThenFail \<Rightarrow>
          (let (retryCount, sm) = IncrementRetry nid (sState s); s1 = s\<lparr>sState := sm\<rparr>
           in if retryCount \<le> nMaxRetries node
              then (s1,
                    [OpEmit ((nodeEvent EventNodeRetry node)\<lparr>
                        seContent := ''retry '' @ format_int retryCount @ ''/'' @ format_int (nMaxRetries node),
                        seError := err\<rparr>),
                     OpFailIfRunning nid, OpReset nid] @ (if nRetryDelay node > 0 then [OpDelay] else []))
              else (s1, failOps (sGraph s) nid node err)))"

section \<open>Dispatching\<close>

text \<open>The answer of the pool to a submission: a job id, or an error.\<close>

type_synonym PoolAnswer = "NodeID \<Rightarrow> string result"

text \<open>A failure while the mutex is held: the handler runs at once, the next enqueue in a goroutine.\<close>

definition failAtDispatch :: "NodeID \<Rightarrow> Node \<Rightarrow> string \<Rightarrow> Scheduler \<Rightarrow> Scheduler" where
  "failAtDispatch nid node err s =
     (let s1 = updState (tryTransition nid NodeRunning) s;
          (s2, ops) = handleNodeFailure nid node err s1
      in spawn Enqueueing (fold applyOp ops s2))"

definition dispatchSubTask :: "NodeID \<Rightarrow> Node \<Rightarrow> SubTaskConfig \<Rightarrow> Scheduler \<Rightarrow> Scheduler" where
  "dispatchSubTask nid node cfg s =
     (if \<not> sHasExecutor s then failAtDispatch nid node ''no sub-task executor configured'' s
      else spawn (SubTaskRun nid)
             (emitProgress
               (emitS ((nodeEvent EventNodeStarted node)\<lparr>seContent := ''sub-task: '' @ stTitle cfg\<rparr>)
                 (updState (tryTransition nid NodeRunning) (s\<lparr>sRunning := sRunning s + 1\<rparr>)))))"

definition dispatchNode :: "PoolAnswer \<Rightarrow> NodeID \<Rightarrow> Node \<Rightarrow> Scheduler \<Rightarrow> Scheduler" where
  "dispatchNode submit nid node s =
     (case nSubTask node of
        Some cfg \<Rightarrow> dispatchSubTask nid node cfg s
      | None \<Rightarrow>
          (case submit nid of
             Inl err \<Rightarrow> failAtDispatch nid node err s
           | Inr jobID \<Rightarrow>
               spawn (Watch nid jobID)
                 (emitProgress
                   (emitS ((nodeEvent EventNodeStarted node)\<lparr>seJobID := jobID\<rparr>)
                     (updState (tryTransition nid NodeRunning)
                       (s\<lparr>sNodeJobs := (sNodeJobs s)(nid \<mapsto> jobID), sRunning := sRunning s + 1\<rparr>))))))"

text \<open>
  A gate makes a channel of capacity one (\<open>sChans\<close> holds what is in its buffer) and registers it
  under the node's id; the goroutine keeps its own reference to the channel.
\<close>

definition waitForApproval :: "NodeID \<Rightarrow> Node \<Rightarrow> Scheduler \<Rightarrow> Scheduler" where
  "waitForApproval nid node s =
     (let prompt = (if nApprovalPrompt node = [] then ''Approve execution of node \"'' @ nid @ ''\"?'' else nApprovalPrompt node)
      in spawn (Awaiting nid (sNextChan s))
           (emitS ((nodeEvent EventNodeApprovalRequired node)\<lparr>seContent := prompt\<rparr>)
             (s\<lparr>sApprovals := (sApprovals s)(nid \<mapsto> sNextChan s), sNextChan := sNextChan s + 1\<rparr>)))"

definition skipNodeAndPropagate :: "NodeID \<Rightarrow> Node \<Rightarrow> Scheduler \<Rightarrow> Scheduler" where
  "skipNodeAndPropagate nid node s =
     (case Transition nid NodeSkipped (sState s) of
        Inl _ \<Rightarrow> s
      | Inr sm \<Rightarrow>
          emitS (nodeEvent EventNodeSkipped node)
            (s\<lparr>sState := fold (\<lambda>dep. SetEdgeState nid dep EdgeSkipped) (Dependents (sGraph s) nid) sm\<rparr>))"

text \<open>The first pass over one node: resolve it, or make it a candidate.\<close>

definition collectCandidate :: "Scheduler \<times> NodeID list \<Rightarrow> NodeID \<Rightarrow> Scheduler \<times> NodeID list" where
  "collectCandidate acc nid =
     (case acc of (s, candidates) \<Rightarrow>
        if Get (sState s) nid \<noteq> NodePending then acc
        else (case map_of (gNodes (sGraph s)) nid of
                None \<Rightarrow> acc
              | Some node \<Rightarrow>
                  if \<not> DependenciesSatisfied (sState s) node then acc
                  else if nFrozen node \<and> Result (sState s) nid \<noteq> []
                  then (case Transition nid NodeDone (sState s) of
                          Inl _ \<Rightarrow> acc
                        | Inr sm \<Rightarrow> (emitS ((nodeEvent EventNodeCompleted node)\<lparr>seContent := Result (sState s) nid\<rparr>)
                                      (s\<lparr>sState := sm\<rparr>), candidates))
                  else if AllIncomingEdgesSkipped (sState s) node then (skipNodeAndPropagate nid node s, candidates)
                  else if (case nCondition node of None \<Rightarrow> False | Some cond \<Rightarrow> \<not> cond (smResults (sState s)))
                  then (skipNodeAndPropagate nid node s, candidates)
                  else (s, candidates @ [nid])))"

text \<open>
  Candidates are collected in the order of their ids, so a stable sort by descending count is the
  code's sort with ties broken by id.
\<close>

definition prioritize :: "Graph \<Rightarrow> NodeID list \<Rightarrow> NodeID list" where
  "prioritize g = sort_key (\<lambda>nid. - int (TransitiveDepCount g nid))"

fun dispatchCandidates :: "PoolAnswer \<Rightarrow> NodeID list \<Rightarrow> Scheduler \<Rightarrow> Scheduler" where
  "dispatchCandidates submit [] s = s"
| "dispatchCandidates submit (nid # ids) s =
     (if sRunning s \<ge> sMaxParallel s then s
      else (case Transition nid NodeQueued (sState s) of
              Inl _ \<Rightarrow> dispatchCandidates submit ids s
            | Inr sm \<Rightarrow>
                (case map_of (gNodes (sGraph s)) nid of
                   None \<Rightarrow> dispatchCandidates submit ids s
                 | Some node \<Rightarrow>
                     (let s1 = emitS (nodeEvent EventNodeQueued node) (s\<lparr>sState := sm\<rparr>)
                      in dispatchCandidates submit ids
                           (if nRequiresApproval node then waitForApproval nid node s1
                            else dispatchNode submit nid node s1)))))"

definition enqueueReady :: "PoolAnswer \<Rightarrow> Scheduler \<Rightarrow> Scheduler" where
  "enqueueReady submit s =
     (case foldl collectCandidate (s, []) (NodeIDs (sGraph s)) of (s1, candidates) \<Rightarrow>
        dispatchCandidates submit (prioritize (sGraph s1) candidates) s1)"

section \<open>Approval decisions\<close>

definition decide :: "NodeID \<Rightarrow> bool \<Rightarrow> Scheduler \<Rightarrow> bool \<times> Scheduler" where
  "decide nid d s =
     (case sApprovals s nid of
        None \<Rightarrow> (False, s)
      | Some ch \<Rightarrow>
          (case sChans s ch of
             None \<Rightarrow> (True, s\<lparr>sChans := (sChans s)(ch \<mapsto> d)\<rparr>)
           | Some _ \<Rightarrow> (False, s)))"

definition ApproveNode :: "NodeID \<Rightarrow> Scheduler \<Rightarrow> bool \<times> Scheduler" where
  "ApproveNode nid = decide nid True"

definition RejectNode :: "NodeID \<Rightarrow> Scheduler \<Rightarrow> bool \<times> Scheduler" where
  "RejectNode nid = decide nid False"

section \<open>Watching a job\<close>

record PoolEvent =
  peType :: string
  peContent :: string

record JobView =
  jvFailed :: bool
  jvError :: string
  jvResult :: string

text \<open>
  The loop over the events of a job's stream, up to its close; \<open>job\<close> is what \<^verbatim>\<open>GetJob\<close> returns
  at the point where the loop asks for it. The result is what is forwarded and how the node completes.
\<close>

fun watchEvents ::
  "Node \<Rightarrow> string \<Rightarrow> JobView option \<Rightarrow> string \<Rightarrow> PoolEvent list \<Rightarrow> SchedulerEvent list \<times> string result" where
  "watchEvents node jobID job result [] =
     ([], (case job of Some j \<Rightarrow> if jvFailed j then Inl (jvError j) else Inr result | None \<Rightarrow> Inr result))"
| "watchEvents node jobID job result (evt # evts) =
     (if peType evt = ''job_completed''
      then ([], Inr (case job of Some j \<Rightarrow> jvResult j | None \<Rightarrow> result))
      else if peType evt = ''job_failed'' then ([], Inl (peContent evt))
      else (case watchEvents node jobID job result evts of (es, r) \<Rightarrow>
              ((nodeEvent EventNodeOutput node)\<lparr>seJobID := jobID, seContent := peContent evt\<rparr> # es, r)))"

definition watchNode ::
  "Node \<Rightarrow> string \<Rightarrow> PoolEvent list option \<Rightarrow> JobView option \<Rightarrow> SchedulerEvent list \<times> string result" where
  "watchNode node jobID stream job =
     (case stream of
        Some evts \<Rightarrow> watchEvents node jobID job [] evts
      | None \<Rightarrow>
          (case job of
             None \<Rightarrow> ([], Inl (''no stream or job record for '' @ jobID))
           | Some j \<Rightarrow>
               if jvFailed j then ([], Inl (jvError j))
               else (if jvResult j = [] then []
                     else [(nodeEvent EventNodeOutput node)\<lparr>seJobID := jobID, seContent := jvResult j\<rparr>],
                     Inr (jvResult j))))"

section \<open>Running\<close>

definition isFailHandled :: "Scheduler \<Rightarrow> NodeID \<Rightarrow> bool" where
  "isFailHandled s nid =
     (case FailBranchTarget (sGraph s) nid of None \<Rightarrow> False | Some target \<Rightarrow> Get (sState s) target = NodeDone)"

definition joinErrors :: "string list \<Rightarrow> string" where
  "joinErrors msgs = (case msgs of [] \<Rightarrow> [] | m # ms \<Rightarrow> foldl (\<lambda>acc x. acc @ ''; '' @ x) m ms)"

definition summaryError :: "Scheduler \<Rightarrow> string" where
  "summaryError s =
     (if \<not> HasFailures (sState s) then []
      else let msgs = map (\<lambda>nid. nid @ '': '' @ ErrorOf (sState s) nid)
                        (filter (\<lambda>nid. Get (sState s) nid = NodeFailed \<and> \<not> isFailHandled s nid) (NodeIDs (sGraph s)))
           in if msgs = [] then []
              else ''graph: '' @ decimal (length msgs) @ '' node(s) failed: '' @ joinErrors msgs)"

fun emitCached :: "(NodeID, string) gomap \<Rightarrow> NodeID list \<Rightarrow> Scheduler \<Rightarrow> Scheduler" where
  "emitCached resume [] s = s"
| "emitCached resume (nid # ids) s =
     (if Get (sState s) nid \<noteq> NodeDone \<or> map_of resume nid = None then emitCached resume ids s
      else (case map_of (gNodes (sGraph s)) nid of
              None \<Rightarrow> emitCached resume ids s
            | Some node \<Rightarrow>
                emitCached resume ids
                  (emitS ((nodeEvent EventNodeSkipped node)\<lparr>seContent := ''cached''\<rparr>)
                    (s\<lparr>sState := fold (\<lambda>dep. SetEdgeState nid dep EdgeTaken) (Dependents (sGraph s) nid) (sState s)\<rparr>))))"

text \<open>The start of a run: validate, preload cached results, enqueue the roots.\<close>

definition startRun :: "PoolAnswer \<Rightarrow> (NodeID, string) gomap \<Rightarrow> Scheduler \<Rightarrow> GraphError + Scheduler" where
  "startRun submit resume s =
     (case Validate (sGraph s) of
        Inl err \<Rightarrow> Inl err
      | Inr g \<Rightarrow>
          (let s1 = s\<lparr>sGraph := g\<rparr>;
               s2 = (if resume = [] then s1
                     else emitCached resume (NodeIDs g) (updState (PreloadResults resume) s1))
           in Inr (enqueueReady submit s2)))"

text \<open>One turn of the polling loop, and its end by cancellation.\<close>

definition pollRun :: "Scheduler \<Rightarrow> Scheduler" where
  "pollRun s =
     (if AllDone (sState s)
      then (emitS ((schedEvent EventAllDone)\<lparr>seError := summaryError s\<rparr>) (emitProgress s))\<lparr>sFinished := True\<rparr>
      else s)"

definition cancelRun :: "string \<Rightarrow> Scheduler \<Rightarrow> Scheduler" where
  "cancelRun ctxErr s = (emitS ((schedEvent EventAllDone)\<lparr>seError := ctxErr\<rparr>) s)\<lparr>sFinished := True\<rparr>"

section \<open>Actions\<close>

text \<open>
  What can happen next. The number of an action on a goroutine is its position in \<open>sThreads\<close>:
  \<^item> \<open>Finish\<close>: its job or sub-task ended; \<^verbatim>\<open>completeNode\<close> has released its slot;
  \<^item> \<open>Advance\<close>: it makes its next deterministic step (with the pool's answers, should it dispatch);
  \<^item> \<open>TimeUp\<close>, \<open>CtxDone\<close>: its timer fired (with the printed duration), or the context was
    cancelled;
  \<^item> \<open>Decision\<close>: a user approves or rejects a node;
  \<^item> \<open>Poll\<close>, \<open>Cancel\<close>: the polling loop of \<^verbatim>\<open>run\<close>.
\<close>

datatype Action =
    Finish nat "string result"
  | Advance nat PoolAnswer
  | TimeUp nat string PoolAnswer
  | CtxDone nat string
  | Decision NodeID bool
  | Poll
  | Cancel string

definition setThread :: "nat \<Rightarrow> Goroutine list \<Rightarrow> Scheduler \<Rightarrow> Scheduler" where
  "setThread i ts s = s\<lparr>sThreads := take i (sThreads s) @ ts @ drop (i + 1) (sThreads s)\<rparr>"

text \<open>
  The end of \<^verbatim>\<open>completeNode\<close> and of the approval goroutine: progress, and the next enqueue.
\<close>

definition progressEnqueue :: "PoolAnswer \<Rightarrow> Scheduler \<Rightarrow> Scheduler" where
  "progressEnqueue submit s = enqueueReady submit (emitProgress s)"

definition completing :: "nat \<Rightarrow> NodeID \<Rightarrow> string result \<Rightarrow> Scheduler \<Rightarrow> Scheduler" where
  "completing i nid outcome s =
     (case map_of (gNodes (sGraph s)) nid of
        None \<Rightarrow> s
      | Some node \<Rightarrow>
          (let (s1, ops) = (case outcome of Inl err \<Rightarrow> handleNodeFailure nid node err s
                            | Inr result \<Rightarrow> handleNodeSuccess nid node result s)
           in setThread i [Working ops ThenEnqueue] s1))"

text \<open>A rejected, timed out or cancelled approval: the node runs briefly and fails.\<close>

definition refuse :: "nat \<Rightarrow> NodeID \<Rightarrow> string \<Rightarrow> After \<Rightarrow> Scheduler \<Rightarrow> Scheduler" where
  "refuse i nid err k s =
     (case map_of (gNodes (sGraph s)) nid of
        None \<Rightarrow> s
      | Some node \<Rightarrow>
          (let (s1, ops) = handleNodeFailure nid node err (updState (tryTransition nid NodeRunning) s)
           in setThread i [Working ops k] s1))"

definition advance :: "nat \<Rightarrow> PoolAnswer \<Rightarrow> Scheduler \<Rightarrow> Scheduler option" where
  "advance i submit s =
     (if i \<ge> length (sThreads s) then None
      else (case sThreads s ! i of
              Completing nid outcome \<Rightarrow> Some (completing i nid outcome s)
            | Working (op # ops) k \<Rightarrow> Some (applyOp op (setThread i [Working ops k] s))
            | Working [] ThenEnqueue \<Rightarrow> Some (progressEnqueue submit (setThread i [] s))
            | Working [] (ThenEnqueueUnregister nid) \<Rightarrow>
                Some (progressEnqueue submit (setThread i [Unregistering nid] s))
            | Working [] (ThenUnregister nid) \<Rightarrow> Some (emitProgress (setThread i [Unregistering nid] s))
            | Enqueueing \<Rightarrow> Some (enqueueReady submit (setThread i [] s))
            | Unregistering nid \<Rightarrow> Some ((setThread i [] s)\<lparr>sApprovals := (sApprovals s)(nid := None)\<rparr>)
            | Awaiting nid ch \<Rightarrow>
                (case (sChans s ch, map_of (gNodes (sGraph s)) nid) of
                   (Some True, Some node) \<Rightarrow>
                     Some (dispatchNode submit nid node
                            ((setThread i [Unregistering nid] s)\<lparr>sChans := (sChans s)(ch := None)\<rparr>))
                 | (Some False, Some node) \<Rightarrow>
                     Some (refuse i nid ''approval rejected'' (ThenEnqueueUnregister nid)
                            (s\<lparr>sChans := (sChans s)(ch := None)\<rparr>))
                 | _ \<Rightarrow> None)
            | Watch _ _ \<Rightarrow> None | SubTaskRun _ \<Rightarrow> None | Delayed \<Rightarrow> None))"

definition exec :: "Action \<Rightarrow> Scheduler \<Rightarrow> Scheduler option" where
  "exec a s =
     (case a of
        Finish i outcome \<Rightarrow>
          if i \<ge> length (sThreads s) then None
          else (case sThreads s ! i of
                  Watch nid _ \<Rightarrow> Some (setThread i [Completing nid outcome] (s\<lparr>sRunning := sRunning s - 1\<rparr>))
                | SubTaskRun nid \<Rightarrow> Some (setThread i [Completing nid outcome] (s\<lparr>sRunning := sRunning s - 1\<rparr>))
                | _ \<Rightarrow> None)
      | Advance i submit \<Rightarrow> advance i submit s
      | TimeUp i shown submit \<Rightarrow>
          if i \<ge> length (sThreads s) then None
          else (case sThreads s ! i of
                  Delayed \<Rightarrow> Some (enqueueReady submit (setThread i [] s))
                | Awaiting nid _ \<Rightarrow>
                    (case map_of (gNodes (sGraph s)) nid of
                       None \<Rightarrow> None
                     | Some node \<Rightarrow>
                         if nApprovalTimeout node > 0
                         then Some (refuse i nid (''approval timed out after '' @ shown)
                                     (ThenEnqueueUnregister nid) s)
                         else None)
                | _ \<Rightarrow> None)
      | CtxDone i ctxErr \<Rightarrow>
          if i \<ge> length (sThreads s) then None
          else (case sThreads s ! i of
                  Watch nid _ \<Rightarrow> Some (setThread i [Completing nid (Inl ctxErr)] (s\<lparr>sRunning := sRunning s - 1\<rparr>))
                | Delayed \<Rightarrow> Some (setThread i [] s)
                | Awaiting nid _ \<Rightarrow> Some (refuse i nid ctxErr (ThenUnregister nid) s)
                | _ \<Rightarrow> None)
      | Decision nid d \<Rightarrow> Some (snd (decide nid d s))
      | Poll \<Rightarrow> Some (pollRun s)
      | Cancel ctxErr \<Rightarrow> Some (cancelRun ctxErr s))"

definition sched_init :: "Scheduler \<Rightarrow> bool" where
  "sched_init s \<longleftrightarrow>
     (\<exists>g0 g mp ex submit resume. graph_wf g0 \<and> (g = g0 \<or> Validate g0 = Inr g) \<and>
        startRun submit resume (WithMaxParallel mp (if ex then WithSubTaskExecutor (NewScheduler g) else NewScheduler g)) = Inr s)"

definition sched_step :: "Scheduler \<Rightarrow> Scheduler \<Rightarrow> bool" where
  "sched_step s s' \<longleftrightarrow> (\<exists>a. exec a s = Some s')"

fun runActions :: "Action list \<Rightarrow> Scheduler \<Rightarrow> Scheduler option" where
  "runActions [] s = Some s"
| "runActions (a # as) s = (case exec a s of None \<Rightarrow> None | Some s' \<Rightarrow> runActions as s')"

lemma runActions_reachable:
  "reachable sched_init sched_step s \<Longrightarrow> runActions as s = Some s' \<Longrightarrow> reachable sched_init sched_step s'"
proof (induction as arbitrary: s)
  case (Cons a as)
  then obtain s1 where "exec a s = Some s1" "runActions as s1 = Some s'" by (auto split: option.splits)
  moreover from this(1) have "sched_step s s1" by (auto simp: sched_step_def)
  ultimately show ?case using Cons by (blast intro: reach_step)
qed simp

text \<open>A run from the start of a graph under a given schedule, for concrete scenarios.\<close>

definition okPool :: PoolAnswer where
  "okPool nid = Inr (''job-'' @ nid)"

definition scenario :: "Graph \<Rightarrow> int \<Rightarrow> Action list \<Rightarrow> Scheduler option" where
  "scenario g mp as =
     (case startRun okPool [] (WithMaxParallel mp (NewScheduler g)) of Inl _ \<Rightarrow> None | Inr s \<Rightarrow> runActions as s)"

lemma scenario_reachable:
  assumes "graph_wf g" and "scenario g mp as = Some s"
  shows "reachable sched_init sched_step s"
proof -
  from assms(2) obtain s0 where s0: "startRun okPool [] (WithMaxParallel mp (NewScheduler g)) = Inr s0"
      "runActions as s0 = Some s" by (auto simp: scenario_def split: sum.splits)
  have "sched_init s0"
    unfolding sched_init_def using assms(1) s0(1)
    by (intro exI [of _ g] exI [of _ mp] exI [of _ False] exI [of _ okPool] exI [of _ "[]"]) simp
  then show ?thesis using runActions_reachable [OF reach_init s0(2)] by blast
qed

text \<open>What a scenario shows: a predicate on the state it ends in.\<close>

definition ends_with :: "(Scheduler \<Rightarrow> bool) \<Rightarrow> Scheduler option \<Rightarrow> bool" where
  "ends_with P r = (case r of None \<Rightarrow> False | Some s \<Rightarrow> P s)"

lemma scenario_ends_with:
  assumes "graph_wf g" and "ends_with P (scenario g mp as)"
  shows "\<exists>s. reachable sched_init sched_step s \<and> P s"
  using assms by (auto simp: ends_with_def split: option.splits intro: scenario_reachable [OF assms(1)])

end
