(* ===== verification/Graph_Invariants.thy ===== *)
theory Graph_Invariants
  imports Graph_Scheduler
begin

text \<open>
  Invariants of the graph scheduler over all interleavings and outcomes: the running counter, the
  parallelism bound, and that work only starts on satisfied dependencies; and the runs in which the
  scheduler does not do what it means to.
\<close>

section \<open>The shapes of a step\<close>

fun isExec :: "Goroutine \<Rightarrow> bool" where
  "isExec (Watch _ _) = True"
| "isExec (SubTaskRun _) = True"
| "isExec _ = False"

fun op_nodes :: "StateOp \<Rightarrow> NodeID set" where
  "op_nodes (OpTransition nid _) = {nid}"
| "op_nodes (OpFailIfRunning nid) = {nid}"
| "op_nodes (OpReset nid) = {nid}"
| "op_nodes _ = {}"

fun thread_nodes :: "Goroutine \<Rightarrow> NodeID set" where
  "thread_nodes (Watch nid _) = {nid}"
| "thread_nodes (SubTaskRun nid) = {nid}"
| "thread_nodes (Awaiting nid _) = {nid}"
| "thread_nodes (Completing nid _) = {nid}"
| "thread_nodes (Working ops _) = (\<Union>op \<in> set ops. op_nodes op)"
| "thread_nodes _ = {}"

fun isAwaiting :: "Goroutine \<Rightarrow> bool" where
  "isAwaiting (Awaiting _ _) = True"
| "isAwaiting _ = False"

text \<open>A goroutine that neither executes a node nor mentions one.\<close>

fun harmless :: "Goroutine \<Rightarrow> bool" where
  "harmless (Working [] _) = True"
| "harmless Enqueueing = True"
| "harmless Delayed = True"
| "harmless (Unregistering _) = True"
| "harmless _ = False"

lemma harmlessD: "harmless t \<Longrightarrow> \<not> isExec t \<and> thread_nodes t = {} \<and> \<not> isAwaiting t"
  by (cases t rule: harmless.cases) auto

text \<open>Two schedulers that differ only in events, jobs, approvals and the finished flag.\<close>

definition same_core :: "Scheduler \<Rightarrow> Scheduler \<Rightarrow> bool" where
  "same_core s s' \<longleftrightarrow> sGraph s' = sGraph s \<and> sState s' = sState s \<and> sRunning s' = sRunning s \<and>
     sMaxParallel s' = sMaxParallel s \<and> sThreads s' = sThreads s \<and> sHasExecutor s' = sHasExecutor s"

lemma same_coreI [intro]:
  "same_core s (emitS e s)" "same_core s (emitProgress s)" "same_core s (s\<lparr>sApprovals := ap\<rparr>)"
  "same_core s (s\<lparr>sChans := cs\<rparr>)"
  "same_core s (s\<lparr>sFinished := b\<rparr>)" "same_core s (s\<lparr>sNodeJobs := j\<rparr>)"
  by (simp_all add: same_core_def emitS_def emitProgress_def)

lemma same_core_trans: "same_core s s' \<Longrightarrow> same_core s' s'' \<Longrightarrow> same_core s s''"
  by (simp add: same_core_def)

lemma same_core_refl [simp, intro]: "same_core s s"
  by (simp add: same_core_def)

datatype Shape =
    ShFinish nat NodeID "string result"
  | ShComplete nat NodeID "string result"
  | ShOp nat StateOp "StateOp list" After
  | ShEnqueue nat "Goroutine list" PoolAnswer
  | ShIdle nat "Goroutine list"
  | ShApproved nat NodeID Node PoolAnswer
  | ShRefused nat NodeID string After
  | ShSame

text \<open>What a step of each shape requires of the goroutine it moves and what it does.\<close>

fun shape_ok :: "Shape \<Rightarrow> Scheduler \<Rightarrow> Scheduler \<Rightarrow> bool" where
  "shape_ok (ShFinish i nid outcome) s s' \<longleftrightarrow>
     i < length (sThreads s) \<and> isExec (sThreads s ! i) \<and> thread_nodes (sThreads s ! i) = {nid} \<and>
     s' = setThread i [Completing nid outcome] (s\<lparr>sRunning := sRunning s - 1\<rparr>)"
| "shape_ok (ShComplete i nid outcome) s s' \<longleftrightarrow>
     i < length (sThreads s) \<and> sThreads s ! i = Completing nid outcome \<and> s' = completing i nid outcome s"
| "shape_ok (ShOp i op ops k) s s' \<longleftrightarrow>
     i < length (sThreads s) \<and> sThreads s ! i = Working (op # ops) k \<and> s' = applyOp op (setThread i [Working ops k] s)"
| "shape_ok (ShEnqueue i ts submit) s s' \<longleftrightarrow>
     i < length (sThreads s) \<and> harmless (sThreads s ! i) \<and> list_all harmless ts \<and>
     (\<exists>s1. same_core (setThread i ts s) s1 \<and> s' = enqueueReady submit s1)"
| "shape_ok (ShIdle i ts) s s' \<longleftrightarrow>
     i < length (sThreads s) \<and> harmless (sThreads s ! i) \<and> list_all harmless ts \<and> same_core (setThread i ts s) s'"
| "shape_ok (ShApproved i nid node submit) s s' \<longleftrightarrow>
     i < length (sThreads s) \<and> (\<exists>ch. sThreads s ! i = Awaiting nid ch) \<and> map_of (gNodes (sGraph s)) nid = Some node \<and>
     (\<exists>s1. same_core (setThread i [Unregistering nid] s) s1 \<and> s' = dispatchNode submit nid node s1)"
| "shape_ok (ShRefused i nid err k) s s' \<longleftrightarrow>
     i < length (sThreads s) \<and> (\<exists>ch. sThreads s ! i = Awaiting nid ch) \<and>
     (\<exists>s1. same_core s s1 \<and> s' = refuse i nid err k s1)"
| "shape_ok ShSame s s' \<longleftrightarrow> same_core s s'"

lemma setThread_same_core:
  "same_core (setThread i ts s) ((setThread i ts s)\<lparr>sApprovals := ap\<rparr>)"
  "same_core (setThread i ts s) ((setThread i ts s)\<lparr>sChans := cs\<rparr>)"
  "same_core (setThread i ts s) (emitProgress (setThread i ts s))"
  by auto

lemma advance_shape:
  assumes "advance i submit s = Some s'"
  shows "\<exists>sh. shape_ok sh s s'"
proof -
  have i: "i < length (sThreads s)" using assms by (simp add: advance_def split: if_splits)
  show ?thesis
  proof (cases "sThreads s ! i")
    case (Completing nid outcome)
    then show ?thesis using assms i by (intro exI [of _ "ShComplete i nid outcome"]) (simp add: advance_def)
  next
    case (Awaiting nid ch)
    then obtain d node where d: "sChans s ch = Some d" "map_of (gNodes (sGraph s)) nid = Some node"
      using assms i by (auto simp: advance_def split: option.splits bool.splits)
    show ?thesis
    proof (cases d)
      case True
      then show ?thesis using assms i Awaiting d
        by (intro exI [of _ "ShApproved i nid node submit"]) (auto simp: advance_def intro: setThread_same_core)
    next
      case False
      then show ?thesis using assms i Awaiting d
        by (intro exI [of _ "ShRefused i nid ''approval rejected'' (ThenEnqueueUnregister nid)"]) (auto simp: advance_def)
    qed
  next
    case (Working ops k)
    show ?thesis
    proof (cases ops)
      case Nil
      show ?thesis
      proof (cases k)
        case ThenEnqueue
        then show ?thesis using assms i Working Nil
          by (intro exI [of _ "ShEnqueue i [] submit"]) (auto simp: advance_def progressEnqueue_def)
      next
        case (ThenEnqueueUnregister nid)
        then show ?thesis using assms i Working Nil
          by (intro exI [of _ "ShEnqueue i [Unregistering nid] submit"]) (auto simp: advance_def progressEnqueue_def)
      next
        case (ThenUnregister nid)
        then show ?thesis using assms i Working Nil
          by (intro exI [of _ "ShIdle i [Unregistering nid]"]) (auto simp: advance_def)
      qed
    next
      case (Cons op ops')
      then show ?thesis using assms i Working by (intro exI [of _ "ShOp i op ops' k"]) (simp add: advance_def)
    qed
  next
    case Enqueueing
    then show ?thesis using assms i
      by (intro exI [of _ "ShEnqueue i [] submit"]) (auto simp: advance_def)
  next
    case (Unregistering nid)
    then show ?thesis using assms i by (intro exI [of _ "ShIdle i []"]) (auto simp: advance_def)
  qed (use assms i in \<open>simp_all add: advance_def\<close>)
qed

lemma pollRun_same_core: "same_core s (pollRun s)" "same_core s (cancelRun e s)" "same_core s (snd (decide nid d s))"
  by (auto simp: pollRun_def cancelRun_def decide_def same_core_def emitS_def emitProgress_def
      split: option.splits)

lemma exec_shape:
  assumes "exec a s = Some s'"
  shows "\<exists>sh. shape_ok sh s s'"
proof (cases a)
  case (Finish i outcome)
  then have i: "i < length (sThreads s)" using assms by (simp add: exec_def split: if_splits)
  then obtain nid where "isExec (sThreads s ! i)" "thread_nodes (sThreads s ! i) = {nid}"
      "s' = setThread i [Completing nid outcome] (s\<lparr>sRunning := sRunning s - 1\<rparr>)"
    using assms Finish by (cases "sThreads s ! i") (auto simp: exec_def)
  with i show ?thesis by (intro exI [of _ "ShFinish i nid outcome"]) simp
next
  case (Advance i submit)
  with assms show ?thesis by (intro advance_shape [of i submit]) (simp add: exec_def)
next
  case (TimeUp i shown submit)
  then have i: "i < length (sThreads s)" using assms by (simp add: exec_def split: if_splits)
  show ?thesis
  proof (cases "sThreads s ! i")
    case Delayed
    then show ?thesis using assms TimeUp i
      by (intro exI [of _ "ShEnqueue i [] submit"]) (auto simp: exec_def intro!: exI [of _ "setThread i [] s"])
  next
    case (Awaiting nid ch)
    then show ?thesis using assms TimeUp i
      by (intro exI [of _ "ShRefused i nid (''approval timed out after '' @ shown) (ThenEnqueueUnregister nid)"])
        (auto simp: exec_def split: option.splits if_splits)
  qed (use assms TimeUp i in \<open>simp_all add: exec_def\<close>)
next
  case (CtxDone i err)
  then have i: "i < length (sThreads s)" using assms by (simp add: exec_def split: if_splits)
  show ?thesis
  proof (cases "sThreads s ! i")
    case (Watch nid j)
    then show ?thesis using assms CtxDone i by (intro exI [of _ "ShFinish i nid (Inl err)"]) (auto simp: exec_def)
  next
    case Delayed
    then show ?thesis using assms CtxDone i by (intro exI [of _ "ShIdle i []"]) (auto simp: exec_def)
  next
    case (Awaiting nid ch)
    then show ?thesis using assms CtxDone i
      by (intro exI [of _ "ShRefused i nid err (ThenUnregister nid)"]) (auto simp: exec_def)
  qed (use assms CtxDone i in \<open>simp_all add: exec_def\<close>)
qed (use assms pollRun_same_core in \<open>auto simp: exec_def intro!: exI [of _ ShSame]\<close>)

lemma sched_step_shape: "sched_step s t \<Longrightarrow> \<exists>sh. shape_ok sh s t"
  using exec_shape by (fastforce simp: sched_step_def)

section \<open>The running counter\<close>

text \<open>
  The counter is the number of goroutines that execute a node: incremented when one is started,
  decremented when it ends.
\<close>

definition execCount :: "Goroutine list \<Rightarrow> nat" where
  "execCount ts = length (filter isExec ts)"

lemma execCount_simps [simp]:
  "execCount [] = 0" "execCount (t # ts) = (if isExec t then 1 else 0) + execCount ts"
  "execCount (ts @ us) = execCount ts + execCount us"
  by (simp_all add: execCount_def)

lemma execCount_harmless: "list_all harmless ts \<Longrightarrow> execCount ts = 0"
  by (induction ts) (auto dest: harmlessD)

lemma execCount_setThread:
  assumes "i < length (sThreads s)"
  shows "execCount (sThreads (setThread i ts s)) + (if isExec (sThreads s ! i) then 1 else 0) =
         execCount (sThreads s) + execCount ts"
proof -
  have "sThreads s = take i (sThreads s) @ sThreads s ! i # drop (Suc i) (sThreads s)"
    using assms by (rule id_take_nth_drop)
  then have "execCount (sThreads s) =
      execCount (take i (sThreads s)) + (if isExec (sThreads s ! i) then 1 else 0) + execCount (drop (Suc i) (sThreads s))"
    by (metis execCount_simps(2,3) add.assoc)
  then show ?thesis by (simp add: setThread_def)
qed

definition balanced :: "Scheduler \<Rightarrow> bool" where
  "balanced s \<longleftrightarrow> sRunning s = int (execCount (sThreads s))"

text \<open>What starting and finishing work does to the counter: it never moves without the goroutines.\<close>

definition in_step :: "Scheduler \<Rightarrow> Scheduler \<Rightarrow> bool" where
  "in_step s s' \<longleftrightarrow> sRunning s' - sRunning s = int (execCount (sThreads s')) - int (execCount (sThreads s)) \<and>
     sMaxParallel s' = sMaxParallel s \<and> sGraph s' = sGraph s"

lemma in_step_refl [simp]: "in_step s s"
  by (simp add: in_step_def)

lemma in_step_trans: "in_step s s' \<Longrightarrow> in_step s' s'' \<Longrightarrow> in_step s s''"
  by (simp add: in_step_def)

lemma in_step_balanced: "in_step s s' \<Longrightarrow> balanced s \<Longrightarrow> balanced s'"
  by (simp add: in_step_def balanced_def)

lemma same_core_in_step: "same_core s s' \<Longrightarrow> in_step s s'"
  by (simp add: same_core_def in_step_def)

lemma in_step_basic [simp]:
  "in_step s (updState f s)" "in_step s (emitS e s)" "in_step s (emitProgress s)"
  "in_step s (s\<lparr>sState := sm\<rparr>)" "\<not> isExec t \<Longrightarrow> in_step s (spawn t s)"
  by (simp_all add: in_step_def updState_def emitS_def emitProgress_def spawn_def)

lemma in_step_applyOp: "in_step s (applyOp op s)"
  by (cases op) simp_all

lemma in_step_fold: "in_step s (fold applyOp ops s)"
proof (induction ops arbitrary: s)
  case (Cons op ops)
  show ?case unfolding fold_simps by (rule in_step_trans [OF in_step_applyOp Cons.IH])
qed simp

lemma in_step_handlers:
  "in_step s (fst (handleNodeFailure nid node err s))" "in_step s (fst (handleNodeSuccess nid node r s))"
  by (auto simp: handleNodeFailure_def handleNodeSuccess_def in_step_def spawn_def Let_def
      split: ErrorStrategy.splits prod.splits option.splits)

lemma in_step_failAtDispatch: "in_step s (failAtDispatch nid node err s)"
proof -
  let ?s1 = "updState (tryTransition nid NodeRunning) s"
  let ?h = "handleNodeFailure nid node err ?s1"
  have "in_step s (fst ?h)" using in_step_trans [OF in_step_basic(1) in_step_handlers(1)] .
  then have "in_step s (fold applyOp (snd ?h) (fst ?h))" using in_step_trans [OF _ in_step_fold] by blast
  then show ?thesis
    unfolding failAtDispatch_def by (auto simp: Let_def split: prod.splits intro: in_step_trans)
qed

lemma in_step_dispatchNode: "in_step s (dispatchNode submit nid node s)"
proof -
  have "in_step s (dispatchSubTask nid node cfg s)" for cfg
    using in_step_failAtDispatch
    by (auto simp: dispatchSubTask_def in_step_def spawn_def emitS_def emitProgress_def updState_def)
  then show ?thesis
    using in_step_failAtDispatch
    by (auto simp: dispatchNode_def in_step_def spawn_def emitS_def emitProgress_def updState_def
        split: option.splits sum.splits)
qed

lemma in_step_waitForApproval: "in_step s (waitForApproval nid node s)"
  by (simp add: waitForApproval_def in_step_def spawn_def emitS_def)

lemma in_step_collect: "in_step (fst acc) (fst (collectCandidate acc nid))"
  by (cases acc)
    (auto simp: collectCandidate_def skipNodeAndPropagate_def in_step_def emitS_def
      split: option.splits sum.splits)

lemma in_step_foldl_collect: "in_step (fst acc) (fst (foldl collectCandidate acc ids))"
proof (induction ids arbitrary: acc)
  case (Cons nid ids)
  show ?case unfolding foldl.simps by (rule in_step_trans [OF in_step_collect Cons.IH])
qed simp

lemma in_step_dispatchCandidates: "in_step s (dispatchCandidates submit ids s)"
proof (induction submit ids s rule: dispatchCandidates.induct)
  case (2 submit nid ids s)
  show ?case
  proof (cases "sRunning s \<ge> sMaxParallel s")
    case False
    show ?thesis
    proof (cases "Transition nid NodeQueued (sState s)")
      case (Inr sm)
      show ?thesis
      proof (cases "map_of (gNodes (sGraph s)) nid")
        case (Some node)
        let ?s1 = "emitS (nodeEvent EventNodeQueued node) (s\<lparr>sState := sm\<rparr>)"
        let ?s2 = "if nRequiresApproval node then waitForApproval nid node ?s1 else dispatchNode submit nid node ?s1"
        have "in_step ?s1 ?s2" using in_step_waitForApproval in_step_dispatchNode by simp
        moreover have "in_step s ?s1" by (simp add: in_step_def emitS_def)
        ultimately have "in_step s ?s2" by (blast intro: in_step_trans)
        moreover have "dispatchCandidates submit (nid # ids) s = dispatchCandidates submit ids ?s2"
          using False Inr Some by (simp add: Let_def)
        ultimately show ?thesis using 2(3) [OF False Inr Some refl] in_step_trans by metis
      qed (use 2(2) False Inr in auto)
    qed (use 2(1) False in auto)
  qed simp
qed simp

lemma in_step_enqueueReady: "in_step s (enqueueReady submit s)"
proof -
  obtain s1 cs where c: "foldl collectCandidate (s, []) (NodeIDs (sGraph s)) = (s1, cs)" by fastforce
  then have "in_step s s1" using in_step_foldl_collect [of "(s, [])" "NodeIDs (sGraph s)"] by simp
  with in_step_trans [OF _ in_step_dispatchCandidates] show ?thesis by (simp add: enqueueReady_def c)
qed

lemma in_step_setThread:
  assumes "i < length (sThreads s)" and "\<not> isExec (sThreads s ! i)" and "execCount ts = 0"
  shows "in_step s (setThread i ts s)"
  using execCount_setThread [OF assms(1), of ts] assms(2,3) by (simp add: in_step_def) (simp add: setThread_def)

text \<open>A completion handler at most starts a timer; the goroutine that runs it stays where it is.\<close>

definition handled :: "NodeID \<Rightarrow> Node \<Rightarrow> string result \<Rightarrow> Scheduler \<Rightarrow> Scheduler \<times> StateOp list" where
  "handled nid node outcome s =
     (case outcome of Inl err \<Rightarrow> handleNodeFailure nid node err s | Inr result \<Rightarrow> handleNodeSuccess nid node result s)"

lemma in_step_handled: "in_step s (fst (handled nid node outcome s))"
  using in_step_handlers by (cases outcome) (simp_all add: handled_def)

lemma handled_threads [simp]: "sThreads (fst (handled nid node outcome s)) = sThreads s"
proof (cases outcome)
  case (Inl err)
  then show ?thesis
    by (cases "nErrorStrategy node") (auto simp: handled_def handleNodeFailure_def IncrementRetry_def Let_def)
next
  case (Inr r)
  then show ?thesis
    by (auto simp: handled_def handleNodeSuccess_def IncrementIteration_def Let_def split: option.splits)
qed

lemma completing_handled:
  "map_of (gNodes (sGraph s)) nid = Some node \<Longrightarrow>
   completing i nid outcome s =
     setThread i [Working (snd (handled nid node outcome s)) ThenEnqueue] (fst (handled nid node outcome s))"
  by (simp add: completing_def handled_def split: prod.splits sum.splits)

lemma refuse_handled:
  "map_of (gNodes (sGraph s)) nid = Some node \<Longrightarrow>
   refuse i nid err k s =
     setThread i [Working (snd (handled nid node (Inl err) (updState (tryTransition nid NodeRunning) s))) k]
       (fst (handled nid node (Inl err) (updState (tryTransition nid NodeRunning) s)))"
  by (simp add: refuse_def handled_def split: prod.splits)

lemma in_step_handled_setThread:
  assumes "i < length (sThreads s)" and "\<not> isExec (sThreads s ! i)"
  shows "in_step s (setThread i [Working ops k] (fst (handled nid node outcome s)))"
proof -
  have "in_step (fst (handled nid node outcome s)) (setThread i [Working ops k] (fst (handled nid node outcome s)))"
    using assms by (intro in_step_setThread) simp_all
  with in_step_handled show ?thesis by (rule in_step_trans)
qed

lemma in_step_completing:
  assumes "i < length (sThreads s)" and "\<not> isExec (sThreads s ! i)"
  shows "in_step s (completing i nid outcome s)"
proof (cases "map_of (gNodes (sGraph s)) nid")
  case (Some node)
  then show ?thesis using in_step_handled_setThread [OF assms] by (simp add: completing_handled)
qed (simp add: completing_def)

lemma in_step_refuse:
  assumes "i < length (sThreads s)" and "\<not> isExec (sThreads s ! i)"
  shows "in_step s (refuse i nid err k s)"
proof (cases "map_of (gNodes (sGraph s)) nid")
  case (Some node)
  let ?s1 = "updState (tryTransition nid NodeRunning) s"
  have "sThreads ?s1 = sThreads s" by (simp add: updState_def)
  with in_step_handled_setThread [of i ?s1] assms
  have "in_step ?s1 (refuse i nid err k s)" by (simp add: refuse_handled [OF Some])
  with in_step_basic(1) show ?thesis by (rule in_step_trans)
qed (simp add: refuse_def)

lemma same_core_threads: "same_core s s' \<Longrightarrow> sThreads s' = sThreads s"
  by (simp add: same_core_def)

lemma in_step_setThread_core:
  assumes "i < length (sThreads s)" and "\<not> isExec (sThreads s ! i)" and "execCount ts = 0"
    and "same_core (setThread i ts s) s1"
  shows "in_step s s1"
  using in_step_setThread [OF assms(1-3)] same_core_in_step [OF assms(4)] by (rule in_step_trans)

lemma in_step_shape:
  assumes "shape_ok sh s s'"
  shows "in_step s s'"
proof (cases sh)
  case (ShFinish i nid outcome)
  with assms have i: "i < length (sThreads s)" "isExec (sThreads s ! i)"
      and s': "s' = setThread i [Completing nid outcome] (s\<lparr>sRunning := sRunning s - 1\<rparr>)" by simp_all
  from execCount_setThread [of i "s\<lparr>sRunning := sRunning s - 1\<rparr>" "[Completing nid outcome]"] i
  show ?thesis unfolding s' by (simp add: in_step_def) (simp add: setThread_def)
next
  case (ShComplete i nid outcome)
  with assms show ?thesis using in_step_completing [of i s] by simp
next
  case (ShOp i op ops k)
  with assms have "in_step s (setThread i [Working ops k] s)" by (intro in_step_setThread) auto
  with ShOp assms in_step_trans [OF _ in_step_applyOp] show ?thesis by auto
next
  case (ShEnqueue i ts submit)
  with assms obtain s1 where h: "i < length (sThreads s)" "harmless (sThreads s ! i)" "list_all harmless ts"
      "same_core (setThread i ts s) s1" and s': "s' = enqueueReady submit s1" by auto
  then have "in_step s s1"
    using harmlessD [OF h(2)] execCount_harmless [OF h(3)] by (intro in_step_setThread_core) auto
  then show ?thesis unfolding s' using in_step_enqueueReady by (rule in_step_trans)
next
  case (ShIdle i ts)
  with assms have h: "i < length (sThreads s)" "harmless (sThreads s ! i)" "list_all harmless ts"
      "same_core (setThread i ts s) s'" by auto
  then show ?thesis
    using harmlessD [OF h(2)] execCount_harmless [OF h(3)] by (intro in_step_setThread_core) auto
next
  case (ShApproved i nid node submit)
  with assms obtain s1 ch where h: "i < length (sThreads s)" "sThreads s ! i = Awaiting nid ch"
      "same_core (setThread i [Unregistering nid] s) s1" and s': "s' = dispatchNode submit nid node s1" by auto
  then have "in_step s s1" by (intro in_step_setThread_core [OF h(1) _ _ h(3)]) auto
  then show ?thesis unfolding s' using in_step_dispatchNode by (rule in_step_trans)
next
  case (ShRefused i nid err k)
  with assms obtain s1 ch where i: "i < length (sThreads s)" "sThreads s ! i = Awaiting nid ch" "same_core s s1"
      and s': "s' = refuse i nid err k s1" by auto
  from i have "in_step s1 s'"
    unfolding s' by (intro in_step_refuse) (simp_all add: same_core_threads)
  with same_core_in_step [OF i(3)] show ?thesis by (rule in_step_trans)
next
  case ShSame
  with assms show ?thesis by (simp add: same_core_in_step)
qed

lemma Get_PreloadResults: "Get (PreloadResults r sm) k = Get sm k \<or> Get (PreloadResults r sm) k = NodeDone"
proof (induction r sm rule: PreloadResults.induct)
  case (2 nid result rs sm)
  show ?case
  proof (cases "map_of (smStates sm) nid")
    case (Some st)
    let ?sm = "sm\<lparr>smStates := AList.update nid NodeDone (smStates sm), smResults := (smResults sm)(nid \<mapsto> result)\<rparr>"
    have "Get ?sm k = Get sm k \<or> Get ?sm k = NodeDone" by (simp add: Get_def)
    with 2(2) [OF Some] Some show ?thesis by auto
  qed (use 2(1) in simp)
qed simp

lemma Get_SetEdgeState [simp]: "Get (fold (\<lambda>d. SetEdgeState a d st) ds sm) = Get sm"
  by (induction ds arbitrary: sm) (auto simp: SetEdgeState_def Get_def)

lemma emitCached_core:
  "sGraph (emitCached r ids u) = sGraph u \<and> sRunning (emitCached r ids u) = sRunning u \<and>
   sMaxParallel (emitCached r ids u) = sMaxParallel u \<and> sThreads (emitCached r ids u) = sThreads u \<and>
   Get (sState (emitCached r ids u)) = Get (sState u)"
  by (induction r ids u rule: emitCached.induct) (auto simp: emitS_def split: option.splits)

lemma Get_NewStateManager: "Get (NewStateManager g) k \<in> {NodePending, NodeStateZero}"
proof -
  have "map_of (map (\<lambda>(i, _). (i, NodePending)) ns) k \<in> {None, Some NodePending}" for ns :: "(NodeID, Node) gomap"
    by (induction ns) auto
  from this [of "gNodes g"] show ?thesis by (auto simp: NewStateManager_def Get_def)
qed

lemma startRun_core:
  assumes "startRun submit resume s = Inr s'"
  shows "\<exists>g s2. Validate (sGraph s) = Inr g \<and> s' = enqueueReady submit s2 \<and> sGraph s2 = g \<and>
    sRunning s2 = sRunning s \<and> sMaxParallel s2 = sMaxParallel s \<and> sThreads s2 = sThreads s \<and>
    (\<forall>k. Get (sState s2) k = Get (sState s) k \<or> Get (sState s2) k = NodeDone)"
proof -
  from assms obtain g where g: "Validate (sGraph s) = Inr g" by (auto simp: startRun_def split: sum.splits)
  let ?s1 = "s\<lparr>sGraph := g\<rparr>"
  let ?s2 = "if resume = [] then ?s1 else emitCached resume (NodeIDs g) (updState (PreloadResults resume) ?s1)"
  have "s' = enqueueReady submit ?s2" using assms g by (simp add: startRun_def Let_def)
  moreover have "sGraph ?s2 = g \<and> sRunning ?s2 = sRunning s \<and> sMaxParallel ?s2 = sMaxParallel s \<and>
      sThreads ?s2 = sThreads s \<and> (\<forall>k. Get (sState ?s2) k = Get (sState s) k \<or> Get (sState ?s2) k = NodeDone)"
    using Get_PreloadResults by (simp add: updState_def emitCached_core)
  ultimately show ?thesis using g by blast
qed

lemma init_core:
  assumes "sched_init s"
  shows "\<exists>submit s2. s = enqueueReady submit s2 \<and> sRunning s2 = 0 \<and> sThreads s2 = [] \<and> sMaxParallel s2 > 0 \<and>
    (\<forall>k. Get (sState s2) k \<notin> {NodeQueued, NodeRunning})"
proof -
  from assms obtain g mp ex submit resume where
    st: "startRun submit resume (WithMaxParallel mp (if ex then WithSubTaskExecutor (NewScheduler g) else NewScheduler g)) = Inr s"
    by (auto simp: sched_init_def)
  let ?s0 = "WithMaxParallel mp (if ex then WithSubTaskExecutor (NewScheduler g) else NewScheduler g)"
  have s0: "sRunning ?s0 = 0" "sThreads ?s0 = []" "sMaxParallel ?s0 > 0"
    by (simp_all add: WithMaxParallel_def WithSubTaskExecutor_def NewScheduler_def DefaultMaxParallel_def)
  have "sState ?s0 = NewStateManager g"
    by (simp add: WithMaxParallel_def WithSubTaskExecutor_def NewScheduler_def)
  then have st0: "Get (sState ?s0) k \<in> {NodePending, NodeStateZero}" for k
    using Get_NewStateManager by simp
  from startRun_core [OF st] obtain s2 where "s = enqueueReady submit s2" "sRunning s2 = sRunning ?s0"
      "sMaxParallel s2 = sMaxParallel ?s0" "sThreads s2 = sThreads ?s0"
      and st: "\<forall>k. Get (sState s2) k = Get (sState ?s0) k \<or> Get (sState s2) k = NodeDone" by blast
  moreover have "\<forall>k. Get (sState s2) k \<notin> {NodeQueued, NodeRunning}"
  proof
    fix k
    from st0 [of k] spec [OF st, of k] show "Get (sState s2) k \<notin> {NodeQueued, NodeRunning}" by auto
  qed
  ultimately show ?thesis using s0 by (intro exI [of _ submit] exI [of _ s2]) simp
qed

interpretation counter: step_invariant sched_init sched_step balanced
proof
  fix s
  assume "sched_init s"
  from init_core [OF this] obtain submit s2 where "s = enqueueReady submit s2" "sRunning s2 = 0" "sThreads s2 = []"
    by blast
  then show "balanced s" using in_step_balanced [OF in_step_enqueueReady, of s2] by (simp add: balanced_def)
next
  fix s t
  assume "balanced s" "sched_step s t"
  then show "balanced t" using exec_shape in_step_shape in_step_balanced by (fastforce simp: sched_step_def)
qed

section \<open>The parallelism bound\<close>

definition gate_free :: "Graph \<Rightarrow> bool" where
  "gate_free g \<longleftrightarrow> (\<forall>nid node. map_of (gNodes g) nid = Some node \<longrightarrow> \<not> nRequiresApproval node)"

definition bound_inv :: "Scheduler \<Rightarrow> bool" where
  "bound_inv s \<longleftrightarrow> gate_free (sGraph s) \<and> sRunning s \<le> sMaxParallel s \<and> (\<forall>t \<in> set (sThreads s). \<not> isAwaiting t)"

text \<open>What a piece of the scheduler that does not start a node leaves alone.\<close>

definition calm_step :: "Scheduler \<Rightarrow> Scheduler \<Rightarrow> bool" where
  "calm_step s s' \<longleftrightarrow> sGraph s' = sGraph s \<and> sRunning s' = sRunning s \<and> sMaxParallel s' = sMaxParallel s \<and>
     (\<exists>extra. list_all harmless extra \<and> sThreads s' = sThreads s @ extra)"

lemma calm_step_trans: "calm_step s s' \<Longrightarrow> calm_step s' s'' \<Longrightarrow> calm_step s s''"
  by (auto simp: calm_step_def)

lemma calm_step_basic [simp]:
  "calm_step s s" "calm_step s (updState f s)" "calm_step s (emitS e s)" "calm_step s (emitProgress s)"
  "calm_step s (s\<lparr>sState := sm\<rparr>)" "harmless t \<Longrightarrow> calm_step s (spawn t s)"
  by (simp_all add: calm_step_def updState_def emitS_def emitProgress_def spawn_def)

lemma calm_step_applyOp: "calm_step s (applyOp op s)"
  by (cases op) simp_all

lemma calm_step_fold: "calm_step s (fold applyOp ops s)"
proof (induction ops arbitrary: s)
  case (Cons op ops)
  show ?case unfolding fold_simps by (rule calm_step_trans [OF calm_step_applyOp Cons.IH])
qed simp

lemma calm_step_handled: "calm_step s (fst (handled nid node outcome s))"
proof -
  have "sGraph (fst (handled nid node outcome s)) = sGraph s \<and>
      sRunning (fst (handled nid node outcome s)) = sRunning s \<and>
      sMaxParallel (fst (handled nid node outcome s)) = sMaxParallel s"
    by (auto simp: handled_def handleNodeFailure_def handleNodeSuccess_def IncrementIteration_def IncrementRetry_def
        spawn_def Let_def split: sum.splits ErrorStrategy.splits option.splits)
  with handled_threads [of nid node outcome s] show ?thesis by (simp add: calm_step_def)
qed

lemma failAtDispatch_handled:
  "failAtDispatch nid node err s =
     spawn Enqueueing (fold applyOp (snd (handled nid node (Inl err) (updState (tryTransition nid NodeRunning) s)))
       (fst (handled nid node (Inl err) (updState (tryTransition nid NodeRunning) s))))"
  by (simp add: failAtDispatch_def handled_def Let_def split: prod.splits)

lemma calm_step_failAtDispatch: "calm_step s (failAtDispatch nid node err s)"
proof -
  let ?s1 = "updState (tryTransition nid NodeRunning) s"
  let ?h = "handled nid node (Inl err) ?s1"
  have "calm_step s (fst ?h)" by (rule calm_step_trans [OF calm_step_basic(2) calm_step_handled])
  then have "calm_step s (fold applyOp (snd ?h) (fst ?h))" by (rule calm_step_trans [OF _ calm_step_fold])
  then show ?thesis unfolding failAtDispatch_handled by (rule calm_step_trans) simp
qed

text \<open>Dispatching a node: it fails at once, or it adds the one goroutine that executes it.\<close>

lemma dispatchNode_cases:
  "calm_step s (dispatchNode submit nid node s) \<or>
   (sGraph (dispatchNode submit nid node s) = sGraph s \<and>
    sMaxParallel (dispatchNode submit nid node s) = sMaxParallel s \<and>
    sRunning (dispatchNode submit nid node s) = sRunning s + 1 \<and>
    (\<exists>t. isExec t \<and> thread_nodes t = {nid} \<and> sThreads (dispatchNode submit nid node s) = sThreads s @ [t]) \<and>
    sState (dispatchNode submit nid node s) = tryTransition nid NodeRunning (sState s))"
proof (cases "nSubTask node")
  case None
  show ?thesis
  proof (cases "submit nid")
    case (Inl err)
    with None calm_step_failAtDispatch show ?thesis by (simp add: dispatchNode_def)
  next
    case (Inr j)
    have "isExec (Watch nid j) \<and> thread_nodes (Watch nid j) = {nid}" by simp
    with None Inr show ?thesis
      by (intro disjI2) (auto simp: dispatchNode_def spawn_def emitS_def emitProgress_def updState_def)
  qed
next
  case (Some cfg)
  have "isExec (SubTaskRun nid) \<and> thread_nodes (SubTaskRun nid) = {nid}" by simp
  with Some calm_step_failAtDispatch show ?thesis
    by (auto simp: dispatchNode_def dispatchSubTask_def spawn_def emitS_def emitProgress_def updState_def)
qed

lemma bound_calm: "bound_inv s \<Longrightarrow> calm_step s s' \<Longrightarrow> bound_inv s'"
  by (auto simp: bound_inv_def calm_step_def list_all_iff dest: harmlessD)

lemma bound_dispatchNode:
  assumes "bound_inv s" and "sRunning s < sMaxParallel s"
  shows "bound_inv (dispatchNode submit nid node s)"
  using dispatchNode_cases [of s submit nid node]
proof
  assume "calm_step s (dispatchNode submit nid node s)"
  with assms(1) show ?thesis by (rule bound_calm)
next
  assume "sGraph (dispatchNode submit nid node s) = sGraph s \<and>
    sMaxParallel (dispatchNode submit nid node s) = sMaxParallel s \<and>
    sRunning (dispatchNode submit nid node s) = sRunning s + 1 \<and>
    (\<exists>t. isExec t \<and> thread_nodes t = {nid} \<and> sThreads (dispatchNode submit nid node s) = sThreads s @ [t]) \<and>
    sState (dispatchNode submit nid node s) = tryTransition nid NodeRunning (sState s)"
  then obtain t where "isExec t" "sThreads (dispatchNode submit nid node s) = sThreads s @ [t]"
      "sGraph (dispatchNode submit nid node s) = sGraph s" "sRunning (dispatchNode submit nid node s) = sRunning s + 1"
      "sMaxParallel (dispatchNode submit nid node s) = sMaxParallel s" by blast
  moreover from this(1) have "\<not> isAwaiting t" by (cases t) auto
  ultimately show ?thesis using assms by (simp add: bound_inv_def)
qed

lemma calm_step_collect: "calm_step (fst acc) (fst (collectCandidate acc nid))"
  by (cases acc)
    (auto simp: collectCandidate_def skipNodeAndPropagate_def calm_step_def emitS_def split: option.splits sum.splits)

lemma calm_step_foldl_collect: "calm_step (fst acc) (fst (foldl collectCandidate acc ids))"
proof (induction ids arbitrary: acc)
  case (Cons nid ids)
  show ?case unfolding foldl.simps by (rule calm_step_trans [OF calm_step_collect Cons.IH])
qed simp

lemma bound_dispatchCandidates: "bound_inv s \<Longrightarrow> bound_inv (dispatchCandidates submit ids s)"
proof (induction submit ids s rule: dispatchCandidates.induct)
  case (2 submit nid ids s)
  show ?case
  proof (cases "sRunning s \<ge> sMaxParallel s")
    case False
    show ?thesis
    proof (cases "Transition nid NodeQueued (sState s)")
      case (Inr sm)
      show ?thesis
      proof (cases "map_of (gNodes (sGraph s)) nid")
        case (Some node)
        let ?s1 = "emitS (nodeEvent EventNodeQueued node) (s\<lparr>sState := sm\<rparr>)"
        have "bound_inv ?s1" "sRunning ?s1 < sMaxParallel ?s1"
          using 2(4) False by (simp_all add: bound_inv_def emitS_def)
        then have "bound_inv (dispatchNode submit nid node ?s1)" by (rule bound_dispatchNode)
        moreover have "\<not> nRequiresApproval node" using 2(4) Some by (auto simp: bound_inv_def gate_free_def)
        ultimately show ?thesis using 2(3) [OF False Inr Some refl] False Inr Some by (simp add: Let_def)
      qed (use 2(2,4) False Inr in auto)
    qed (use 2(1,4) False in auto)
  qed (use 2(4) in simp)
qed simp

lemma bound_enqueueReady:
  assumes "bound_inv s"
  shows "bound_inv (enqueueReady submit s)"
proof -
  obtain s1 cs where c: "foldl collectCandidate (s, []) (NodeIDs (sGraph s)) = (s1, cs)" by fastforce
  then have "calm_step s s1" using calm_step_foldl_collect [of "(s, [])" "NodeIDs (sGraph s)"] by simp
  with assms have "bound_inv s1" by (rule bound_calm)
  then show ?thesis by (simp add: enqueueReady_def c bound_dispatchCandidates)
qed

lemma set_setThread: "set (sThreads (setThread i ts s)) \<subseteq> set (sThreads s) \<union> set ts"
  by (auto simp: setThread_def dest: in_set_takeD in_set_dropD)

lemma bound_setThread:
  assumes "bound_inv s" and "\<forall>t \<in> set ts. \<not> isAwaiting t"
  shows "bound_inv (setThread i ts s)"
proof -
  have "sGraph (setThread i ts s) = sGraph s" "sRunning (setThread i ts s) = sRunning s"
      "sMaxParallel (setThread i ts s) = sMaxParallel s" by (simp_all add: setThread_def)
  then show ?thesis using assms set_setThread [of i ts s] unfolding bound_inv_def by auto
qed

lemma bound_setThread_harmless: "bound_inv s \<Longrightarrow> list_all harmless ts \<Longrightarrow> bound_inv (setThread i ts s)"
  by (rule bound_setThread) (auto simp: list_all_iff dest: harmlessD)

lemma bound_same_core: "bound_inv s \<Longrightarrow> same_core s s' \<Longrightarrow> bound_inv s'"
  by (simp add: bound_inv_def same_core_def)

lemma bound_shape:
  assumes "bound_inv s" and "shape_ok sh s s'"
  shows "bound_inv s'"
proof (cases sh)
  case (ShFinish i nid outcome)
  have "bound_inv (s\<lparr>sRunning := sRunning s - 1\<rparr>)" using assms(1) by (simp add: bound_inv_def)
  from bound_setThread [OF this, of "[Completing nid outcome]" i] ShFinish assms(2) show ?thesis by simp
next
  case (ShComplete i nid outcome)
  with assms have s': "s' = completing i nid outcome s" by simp
  show ?thesis
  proof (cases "map_of (gNodes (sGraph s)) nid")
    case (Some node)
    have "bound_inv (fst (handled nid node outcome s))" by (rule bound_calm [OF assms(1) calm_step_handled])
    then show ?thesis unfolding s' completing_handled [OF Some] by (intro bound_setThread) simp_all
  qed (use assms(1) s' in \<open>simp add: completing_def\<close>)
next
  case (ShOp i op ops k)
  with assms(2) have s': "s' = applyOp op (setThread i [Working ops k] s)" by simp
  have "bound_inv (setThread i [Working ops k] s)" using assms(1) by (rule bound_setThread) simp
  then show ?thesis unfolding s' by (rule bound_calm [OF _ calm_step_applyOp])
next
  case (ShEnqueue i ts submit)
  with assms(2) obtain s1 where h: "list_all harmless ts" "same_core (setThread i ts s) s1"
      and s': "s' = enqueueReady submit s1" by auto
  show ?thesis
    unfolding s' by (rule bound_enqueueReady [OF bound_same_core [OF bound_setThread_harmless [OF assms(1) h(1)] h(2)]])
next
  case (ShIdle i ts)
  with assms(2) have h: "list_all harmless ts" "same_core (setThread i ts s) s'" by simp_all
  show ?thesis by (rule bound_same_core [OF bound_setThread_harmless [OF assms(1) h(1)] h(2)])
next
  case (ShApproved i nid node submit)
  with assms(2) obtain ch where "Awaiting nid ch \<in> set (sThreads s)" by (auto dest: nth_mem)
  with assms(1) show ?thesis by (auto simp: bound_inv_def)
next
  case (ShRefused i nid err k)
  with assms(2) obtain ch where "Awaiting nid ch \<in> set (sThreads s)" by (auto dest: nth_mem)
  with assms(1) show ?thesis by (auto simp: bound_inv_def)
next
  case ShSame
  with assms show ?thesis by (auto intro: bound_same_core)
qed

lemma sched_step_graph: "sched_step s t \<Longrightarrow> sGraph t = sGraph s"
  using exec_shape in_step_shape by (fastforce simp: sched_step_def in_step_def)

interpretation bound: step_invariant sched_init sched_step "\<lambda>s. gate_free (sGraph s) \<longrightarrow> bound_inv s"
proof
  fix s
  assume "sched_init s"
  from init_core [OF this] obtain submit s2 where s: "s = enqueueReady submit s2" and
    s2: "sRunning s2 = 0" "sThreads s2 = []" "sMaxParallel s2 > 0" by blast
  have "sGraph s = sGraph s2" using in_step_enqueueReady [of s2 submit] by (simp add: s in_step_def)
  then show "gate_free (sGraph s) \<longrightarrow> bound_inv s"
    unfolding s using bound_enqueueReady [of s2 submit] s2 by (auto simp: bound_inv_def)
next
  fix s t
  assume i: "gate_free (sGraph s) \<longrightarrow> bound_inv s" and st: "sched_step s t"
  from sched_step_shape [OF st] obtain sh where "shape_ok sh s t" by blast
  then have "bound_inv t" if "bound_inv s" using that by (blast intro: bound_shape)
  with i sched_step_graph [OF st] show "gate_free (sGraph t) \<longrightarrow> bound_inv t" by simp
qed

section \<open>Properties\<close>

text \<open>A schedule of the diamond graph: its root completes, then its two dependents run.\<close>

definition demo_schedule :: "Action list" where
  "demo_schedule = Finish 0 (Inr ''r'') # replicate 7 (Advance 0 okPool)"

lemma demo_two_running:
  "ends_with (\<lambda>s. length (filter isExec (sThreads s)) = 2) (scenario demo_graph 2 demo_schedule)"
  by code_simp

lemma demo_no_gate:
  "ends_with (\<lambda>s. length (filter isExec (sThreads s)) = 2 \<and> sMaxParallel s = 2 \<and>
     list_all (\<lambda>(_, n). \<not> nRequiresApproval n) (gNodes (sGraph s))) (scenario demo_graph 2 demo_schedule)"
  by code_simp

text \<open>
  C19: The running counter is exact. In every reachable state of the scheduler, whatever the
  interleaving of its goroutines and the outcomes of its jobs, \<^verbatim>\<open>running\<close> is the number of
  goroutines that are executing a node; in particular it is never negative.
\<close>

theorem running_counts_executions:
  assumes "reachable sched_init sched_step s"
  shows "sRunning s = int (length (filter isExec (sThreads s)))"
  using counter.reachable_inv [OF assms] by (simp add: balanced_def execCount_def)

theorem running_counts_executions_witness:
  "\<exists>s. reachable sched_init sched_step s \<and> length (filter isExec (sThreads s)) = 2 \<and> sRunning s = 2"
proof -
  obtain s where s: "reachable sched_init sched_step s" "length (filter isExec (sThreads s)) = 2"
    using scenario_ends_with [OF demo_graph_wf(1) demo_two_running] by blast
  with running_counts_executions [OF s(1)] show ?thesis by auto
qed

text \<open>
  C10: The parallelism bound. In a graph without approval gates at most \<^verbatim>\<open>maxParallel\<close> nodes
  execute at the same time, in every reachable state.
\<close>

theorem parallelism_bounded:
  assumes "reachable sched_init sched_step s"
    and "\<forall>nid node. map_of (gNodes (sGraph s)) nid = Some node \<longrightarrow> \<not> nRequiresApproval node"
  shows "int (length (filter isExec (sThreads s))) \<le> sMaxParallel s"
proof -
  have "bound_inv s" using bound.reachable_inv [OF assms(1)] assms(2) by (simp add: gate_free_def)
  then show ?thesis
    using counter.reachable_inv [OF assms(1)] by (simp add: bound_inv_def balanced_def execCount_def)
qed

theorem parallelism_bounded_witness:
  "\<exists>s. reachable sched_init sched_step s \<and> length (filter isExec (sThreads s)) = 2 \<and> sMaxParallel s = 2 \<and>
     (\<forall>nid node. map_of (gNodes (sGraph s)) nid = Some node \<longrightarrow> \<not> nRequiresApproval node) \<and>
     int (length (filter isExec (sThreads s))) \<le> sMaxParallel s"
proof -
  obtain s where s: "reachable sched_init sched_step s" "length (filter isExec (sThreads s)) = 2" "sMaxParallel s = 2"
      "list_all (\<lambda>(_, n). \<not> nRequiresApproval n) (gNodes (sGraph s))"
    using scenario_ends_with [OF demo_graph_wf(1) demo_no_gate] by blast
  then have "\<forall>nid node. map_of (gNodes (sGraph s)) nid = Some node \<longrightarrow> \<not> nRequiresApproval node"
    by (auto simp: list_all_iff dest: map_of_SomeD)
  with s parallelism_bounded [OF s(1) this] show ?thesis by blast
qed

end
