(* ===== verification/Graph_Safety.thy ===== *)
theory Graph_Safety
  imports Graph_Invariants
begin

text \<open>
  Dependency safety of the scheduler: in graphs whose nodes run once (no iteration, no retry) a node
  is only queued, executed or completed when its dependencies are satisfied, in every interleaving;
  and the consequences for the dependents of a failed node.
\<close>

section \<open>Progress\<close>

definition settled :: "Graph \<Rightarrow> bool" where
  "settled g \<longleftrightarrow> (\<forall>nid node. map_of (gNodes g) nid = Some node \<longrightarrow>
     nMaxIterations node = 0 \<and> nErrorStrategy node \<noteq> ErrorRetryThenFail)"

definition sat :: "Scheduler \<Rightarrow> NodeID \<Rightarrow> bool" where
  "sat s nid \<longleftrightarrow> (\<exists>node. map_of (gNodes (sGraph s)) nid = Some node \<and> DependenciesSatisfied (sState s) node)"

definition mentions :: "Scheduler \<Rightarrow> NodeID set" where
  "mentions s = (\<Union>t \<in> set (sThreads s). thread_nodes t)"

text \<open>States only move forward: what is finished stays finished, and what is unknown stays unknown.\<close>

definition forward :: "StateManager \<Rightarrow> StateManager \<Rightarrow> bool" where
  "forward sm sm' \<longleftrightarrow> smFailEdges sm' = smFailEdges sm \<and>
     (\<forall>k. Get sm k \<in> {NodeDone, NodeFailed, NodeSkipped} \<longrightarrow> Get sm' k = Get sm k) \<and>
     (\<forall>k. Get sm k = NodeStateZero \<longleftrightarrow> Get sm' k = NodeStateZero)"

lemma forward_refl [simp]: "forward sm sm"
  by (simp add: forward_def)

lemma forward_trans: "forward a b \<Longrightarrow> forward b c \<Longrightarrow> forward a c"
  by (auto simp: forward_def)

lemma depSatisfied_forward: "forward sm sm' \<Longrightarrow> depSatisfied sm d n \<Longrightarrow> depSatisfied sm' d n"
  by (cases "Get sm d") (auto simp: forward_def depSatisfied_def)

lemma sat_forward:
  assumes "sat s k" and "sGraph s' = sGraph s" and "forward (sState s) (sState s')"
  shows "sat s' k"
  using assms depSatisfied_forward [OF assms(3)]
  by (auto simp: sat_def DependenciesSatisfied_def list_all_iff)

lemma smFailEdges_tryTransition [simp]: "smFailEdges (tryTransition k v sm) = smFailEdges sm"
  by (auto simp: tryTransition_def Transition_def split: option.splits sum.splits if_splits)

lemma forward_tryTransition: "v \<noteq> NodeStateZero \<Longrightarrow> forward sm (tryTransition k v sm)"
proof -
  assume v: "v \<noteq> NodeStateZero"
  have "validTransition (Get sm k) v \<Longrightarrow> Get sm k \<notin> {NodeDone, NodeFailed, NodeSkipped, NodeStateZero}"
    by (cases "Get sm k") auto
  with v show ?thesis by (auto simp: forward_def Get_tryTransition)
qed

text \<open>
  One piece of work: states go forward, a node changes state only if its dependencies are satisfied,
  and so is every node that a new goroutine mentions.
\<close>

definition prog :: "Scheduler \<Rightarrow> Scheduler \<Rightarrow> bool" where
  "prog s s' \<longleftrightarrow> sGraph s' = sGraph s \<and> forward (sState s) (sState s') \<and>
     (\<forall>k. Get (sState s') k \<noteq> Get (sState s) k \<longrightarrow> sat s' k) \<and>
     (\<forall>k \<in> mentions s'. k \<in> mentions s \<or> sat s' k)"

lemma prog_refl [simp]: "prog s s"
  by (simp add: prog_def)

lemma prog_sat: "prog s s' \<Longrightarrow> sat s k \<Longrightarrow> sat s' k"
  unfolding prog_def by (blast intro: sat_forward)

lemma prog_trans:
  assumes "prog a b" and "prog b c"
  shows "prog a c"
proof -
  have "sat c k" if "Get (sState c) k \<noteq> Get (sState a) k" for k
  proof (cases "Get (sState c) k = Get (sState b) k")
    case True
    with that assms(1) have "sat b k" by (simp add: prog_def)
    with assms(2) show ?thesis by (rule prog_sat)
  qed (use assms(2) in \<open>simp add: prog_def\<close>)
  moreover have "k \<in> mentions a \<or> sat c k" if "k \<in> mentions c" for k
    using that assms prog_sat [OF assms(2)] unfolding prog_def by blast
  ultimately show ?thesis using assms forward_trans unfolding prog_def by auto
qed

lemma prog_same:
  assumes "sGraph s' = sGraph s" and "sState s' = sState s" and "mentions s' \<subseteq> mentions s"
  shows "prog s s'"
  using assms by (auto simp: prog_def)

lemma prog_spawn: "(\<And>k. k \<in> thread_nodes t \<Longrightarrow> sat s k) \<Longrightarrow> prog s (spawn t s)"
  by (auto simp: prog_def spawn_def mentions_def sat_def)

lemma prog_state:
  assumes "forward (sState s) sm" and "\<And>k. Get sm k \<noteq> Get (sState s) k \<Longrightarrow> sat s k"
  shows "prog s (s\<lparr>sState := sm\<rparr>)"
proof -
  have "sat (s\<lparr>sState := sm\<rparr>) k" if "sat s k" for k
    using that by (rule sat_forward) (simp_all add: assms(1))
  with assms show ?thesis by (auto simp: prog_def mentions_def)
qed

lemma prog_tryTransition:
  assumes "sat s k" and "v \<noteq> NodeStateZero"
  shows "prog s (updState (tryTransition k v) s)"
  unfolding updState_def
  by (rule prog_state [OF forward_tryTransition [OF assms(2)]])
    (use assms(1) in \<open>auto simp: Get_tryTransition split: if_splits\<close>)

lemma Get_others [simp]:
  "Get (SetResult k r sm) = Get sm" "Get (SetError k e sm) = Get sm" "Get (SetEdgeState a b st sm) = Get sm"
  "smFailEdges (SetResult k r sm) = smFailEdges sm" "smFailEdges (SetError k e sm) = smFailEdges sm"
  "smFailEdges (SetEdgeState a b st sm) = smFailEdges sm"
  by (auto simp: SetResult_def SetError_def SetEdgeState_def Get_def)

lemma fold_SetEdgeState [simp]:
  "smFailEdges (fold (\<lambda>d. SetEdgeState a d st) ds sm) = smFailEdges sm"
  by (induction ds arbitrary: sm) simp_all

section \<open>Handlers and dispatch\<close>

fun op_ok :: "StateOp \<Rightarrow> bool" where
  "op_ok (OpReset _) = False"
| "op_ok OpDelay = False"
| "op_ok (OpTransition _ v) = (v \<noteq> NodeStateZero)"
| "op_ok _ = True"

fun thread_ok :: "Goroutine \<Rightarrow> bool" where
  "thread_ok (Working ops _) = list_all op_ok ops"
| "thread_ok _ = True"

lemma prog_applyOp:
  assumes "op_ok op" and "\<And>k. k \<in> op_nodes op \<Longrightarrow> sat s k"
  shows "prog s (applyOp op s)"
proof (cases op)
  case (OpTransition k v)
  with assms show ?thesis by (auto intro: prog_tryTransition)
next
  case (OpFailIfRunning k)
  with assms show ?thesis by (auto intro: prog_tryTransition)
qed (use assms in \<open>auto simp: updState_def emitS_def mentions_def forward_def intro!: prog_state prog_same\<close>)

lemma prog_fold:
  assumes "list_all op_ok ops" and "\<And>op k. op \<in> set ops \<Longrightarrow> k \<in> op_nodes op \<Longrightarrow> sat s k"
  shows "prog s (fold applyOp ops s)"
  using assms
proof (induction ops arbitrary: s)
  case (Cons op ops)
  have p: "prog s (applyOp op s)" using Cons.prems by (intro prog_applyOp) auto
  have "prog (applyOp op s) (fold applyOp ops (applyOp op s))"
    using Cons.prems prog_sat [OF p] by (intro Cons.IH) auto
  with p show ?case unfolding fold_simps by (rule prog_trans)
qed simp

text \<open>In a settled graph a handler changes nothing itself and its calls are about the one node.\<close>

lemma handled_settled:
  assumes "settled (sGraph s)" and "map_of (gNodes (sGraph s)) nid = Some node"
  shows "fst (handled nid node outcome s) = s"
    and "list_all op_ok (snd (handled nid node outcome s))"
    and "\<And>op k. op \<in> set (snd (handled nid node outcome s)) \<Longrightarrow> k \<in> op_nodes op \<Longrightarrow> k = nid"
proof -
  from assms have "nMaxIterations node = 0" "nErrorStrategy node = ErrorFail \<or> nErrorStrategy node = ErrorDefaultValue"
    by (cases "nErrorStrategy node"; auto simp: settled_def)+
  note h = this
  show "fst (handled nid node outcome s) = s"
    using h by (auto simp: handled_def handleNodeFailure_def handleNodeSuccess_def Let_def split: sum.splits option.splits)
  show "list_all op_ok (snd (handled nid node outcome s))"
    using h by (auto simp: handled_def handleNodeFailure_def handleNodeSuccess_def Let_def takenEdges_def
        failOps_def markFailureEdges_def list_all_iff split: sum.splits option.splits)
  show "\<And>op k. op \<in> set (snd (handled nid node outcome s)) \<Longrightarrow> k \<in> op_nodes op \<Longrightarrow> k = nid"
    using h by (auto simp: handled_def handleNodeFailure_def handleNodeSuccess_def Let_def takenEdges_def
        failOps_def markFailureEdges_def split: sum.splits option.splits)
qed

definition calm :: "Scheduler \<Rightarrow> bool" where
  "calm s \<longleftrightarrow> (\<forall>t \<in> set (sThreads s). thread_ok t)"

text \<open>The invariant, and the relation that keeps it.\<close>

definition ready_inv :: "Scheduler \<Rightarrow> bool" where
  "ready_inv s \<longleftrightarrow> settled (sGraph s) \<and> calm s \<and>
     (\<forall>k. Get (sState s) k \<in> {NodeQueued, NodeRunning} \<or> k \<in> mentions s \<longrightarrow> sat s k)"

lemma ready_prog:
  assumes "ready_inv s" and "prog s s'" and "calm s'"
  shows "ready_inv s'"
proof -
  have "sat s' k" if "Get (sState s') k \<in> {NodeQueued, NodeRunning} \<or> k \<in> mentions s'" for k
  proof (cases "Get (sState s') k = Get (sState s) k")
    case True
    then have "sat s k \<or> sat s' k" using that assms(1,2) unfolding ready_inv_def prog_def by auto
    then show ?thesis using prog_sat [OF assms(2)] by blast
  qed (use assms(2) in \<open>simp add: prog_def\<close>)
  moreover have "settled (sGraph s')" using assms(1,2) by (simp add: ready_inv_def prog_def)
  ultimately show ?thesis using assms(3) by (simp add: ready_inv_def)
qed

definition good :: "Scheduler \<Rightarrow> Scheduler \<Rightarrow> bool" where
  "good s s' \<longleftrightarrow> prog s s' \<and> (calm s \<longrightarrow> calm s')"

lemma good_trans: "good a b \<Longrightarrow> good b c \<Longrightarrow> good a c"
  by (auto simp: good_def intro: prog_trans)

lemma good_refl [simp]: "good s s"
  by (simp add: good_def)

lemma good_ready:
  assumes "ready_inv s" and "good s s'"
  shows "ready_inv s'"
proof -
  have "calm s" using assms(1) by (simp add: ready_inv_def)
  with assms(2) have "prog s s'" "calm s'" by (simp_all add: good_def)
  with assms(1) show ?thesis by (rule ready_prog)
qed

lemma good_sat: "good s s' \<Longrightarrow> sat s k \<Longrightarrow> sat s' k"
  by (auto simp: good_def intro: prog_sat)

lemma applyOp_threads [simp]: "op_ok op \<Longrightarrow> sThreads (applyOp op s) = sThreads s"
  by (cases op) (simp_all add: updState_def emitS_def)

lemma fold_applyOp_threads [simp]: "list_all op_ok ops \<Longrightarrow> sThreads (fold applyOp ops s) = sThreads s"
  by (induction ops arbitrary: s) simp_all

lemma good_same_core: "same_core s s' \<Longrightarrow> good s s'"
  by (auto simp: good_def same_core_def calm_def mentions_def intro!: prog_same)

lemma good_spawn: "(\<And>k. k \<in> thread_nodes t \<Longrightarrow> sat s k) \<Longrightarrow> thread_ok t \<Longrightarrow> good s (spawn t s)"
  by (auto simp: good_def calm_def spawn_def intro: prog_spawn [unfolded spawn_def])

lemma good_updState: "prog s (updState f s) \<Longrightarrow> good s (updState f s)"
  by (simp add: good_def calm_def updState_def)

lemma good_failAtDispatch:
  assumes "settled (sGraph s)" and "map_of (gNodes (sGraph s)) nid = Some node" and "sat s nid"
  shows "good s (failAtDispatch nid node err s)"
proof -
  let ?s1 = "updState (tryTransition nid NodeRunning) s"
  have g1: "good s ?s1" using assms(3) by (intro good_updState prog_tryTransition) simp_all
  have s1: "settled (sGraph ?s1)" "map_of (gNodes (sGraph ?s1)) nid = Some node" "sat ?s1 nid"
    using assms good_sat [OF g1] by (simp_all add: updState_def)
  note h = handled_settled [OF s1(1,2), where outcome = "Inl err"]
  let ?s2 = "fold applyOp (snd (handled nid node (Inl err) ?s1)) ?s1"
  have "prog ?s1 ?s2" using h(2,3) s1(3) by (intro prog_fold) auto
  then have g2: "good ?s1 ?s2" using h(2) by (simp add: good_def calm_def)
  have g3: "good ?s2 (spawn Enqueueing ?s2)" by (rule good_spawn) simp_all
  show ?thesis
    unfolding failAtDispatch_handled h(1) by (rule good_trans [OF good_trans [OF g1 g2] g3])
qed

lemma good_dispatchNode:
  assumes "settled (sGraph s)" and "map_of (gNodes (sGraph s)) nid = Some node" and "sat s nid"
  shows "good s (dispatchNode submit nid node s)"
proof -
  have start: "good s (spawn t (emitProgress (emitS e (updState (tryTransition nid NodeRunning) u))))"
    if t: "thread_nodes t = {nid}" "thread_ok t" and u: "sGraph u = sGraph s" "sState u = sState s" "sThreads u = sThreads s"
    for t e u
  proof -
    let ?v = "updState (tryTransition nid NodeRunning) u"
    have g1: "good s u" using u by (auto simp: good_def calm_def mentions_def intro!: prog_same)
    have g2: "good u ?v"
      using good_sat [OF g1 assms(3)] by (intro good_updState prog_tryTransition) simp_all
    have g3: "good ?v (emitProgress (emitS e ?v))"
      by (rule good_same_core [OF same_core_trans [OF same_coreI(1) same_coreI(2)]])
    have g: "good s (emitProgress (emitS e ?v))" by (rule good_trans [OF good_trans [OF g1 g2] g3])
    have "good (emitProgress (emitS e ?v)) (spawn t (emitProgress (emitS e ?v)))"
      using t good_sat [OF g assms(3)] by (intro good_spawn) simp_all
    with g show ?thesis by (rule good_trans)
  qed
  show ?thesis
  proof (cases "nSubTask node")
    case (Some cfg)
    have "good s (dispatchSubTask nid node cfg s)"
      unfolding dispatchSubTask_def by (cases "sHasExecutor s") (auto intro!: start good_failAtDispatch [OF assms])
    with Some show ?thesis by (simp add: dispatchNode_def)
  next
    case None
    show ?thesis
    proof (cases "submit nid")
      case (Inl err)
      with None good_failAtDispatch [OF assms] show ?thesis by (simp add: dispatchNode_def)
    next
      case (Inr j)
      with None show ?thesis unfolding dispatchNode_def by (auto intro!: start)
    qed
  qed
qed

section \<open>Enqueueing\<close>

lemma good_state:
  assumes "forward (sState s) sm" and "\<And>k. Get sm k \<noteq> Get (sState s) k \<Longrightarrow> sat s k"
  shows "good s (s\<lparr>sState := sm\<rparr>)"
  using prog_state [OF assms] by (simp add: good_def calm_def)

lemma Transition_forward:
  assumes "Transition k v sm = Inr sm'" and "v \<noteq> NodeStateZero"
  shows "forward sm sm'" and "\<And>k'. Get sm' k' \<noteq> Get sm k' \<Longrightarrow> k' = k"
proof -
  have "sm' = tryTransition k v sm" using assms(1) by (simp add: tryTransition_def)
  with forward_tryTransition [OF assms(2)] show "forward sm sm'" by simp
  show "\<And>k'. Get sm' k' \<noteq> Get sm k' \<Longrightarrow> k' = k"
    using node_states.move_get [OF assms(1)] by (auto split: if_splits)
qed

lemma good_skip:
  assumes "sat s nid"
  shows "good s (skipNodeAndPropagate nid node s)"
proof (cases "Transition nid NodeSkipped (sState s)")
  case (Inr sm)
  let ?sm = "fold (\<lambda>dep. SetEdgeState nid dep EdgeSkipped) (Dependents (sGraph s) nid) sm"
  note t = Transition_forward [OF Inr]
  have "forward (sState s) ?sm" using t(1) by (simp add: forward_def)
  moreover have "sat s k" if "Get ?sm k \<noteq> Get (sState s) k" for k using that t(2) assms by auto
  ultimately have "good s (s\<lparr>sState := ?sm\<rparr>)" by (rule good_state)
  then show ?thesis
    unfolding skipNodeAndPropagate_def Inr sum.case by (rule good_trans) (rule good_same_core, rule same_coreI)
qed (simp add: skipNodeAndPropagate_def)

text \<open>The first pass: every candidate has satisfied dependencies when it is collected, and keeps them.\<close>

lemma collect_good:
  assumes "\<forall>c \<in> set cs. sat s c" and "collectCandidate (s, cs) nid = (s', cs')"
  shows "good s s' \<and> (\<forall>c \<in> set cs'. sat s' c)"
proof (cases "Get (sState s) nid \<noteq> NodePending \<or> map_of (gNodes (sGraph s)) nid = None")
  case True
  with assms show ?thesis by (auto simp: collectCandidate_def split: option.splits)
next
  case False
  then obtain node where n: "Get (sState s) nid = NodePending" "map_of (gNodes (sGraph s)) nid = Some node" by auto
  show ?thesis
  proof (cases "DependenciesSatisfied (sState s) node")
    case sat: True
    then have sn: "sat s nid" using n(2) by (auto simp: sat_def)
    let ?F = "nFrozen node \<and> Result (sState s) nid \<noteq> []"
    let ?A = "AllIncomingEdgesSkipped (sState s) node"
    let ?C = "case nCondition node of None \<Rightarrow> False | Some cond \<Rightarrow> \<not> cond (smResults (sState s))"
    have e: "(s', cs') =
        (if ?F then (case Transition nid NodeDone (sState s) of Inl _ \<Rightarrow> (s, cs)
                     | Inr sm \<Rightarrow> (emitS ((nodeEvent EventNodeCompleted node)\<lparr>seContent := Result (sState s) nid\<rparr>) (s\<lparr>sState := sm\<rparr>), cs))
         else if ?A then (skipNodeAndPropagate nid node s, cs)
         else if ?C then (skipNodeAndPropagate nid node s, cs) else (s, cs @ [nid]))"
      unfolding assms(2) [symmetric] collectCandidate_def prod.case n option.case using sat by (simp only: simp_thms if_True if_False)
    have "(\<exists>sm e. Transition nid NodeDone (sState s) = Inr sm \<and> s' = emitS e (s\<lparr>sState := sm\<rparr>) \<and> cs' = cs) \<or>
        (s' = s \<and> (cs' = cs \<or> cs' = cs @ [nid])) \<or> (s' = skipNodeAndPropagate nid node s \<and> cs' = cs)"
    proof (cases ?F)
      case True
      then show ?thesis using e by (cases "Transition nid NodeDone (sState s)") auto
    next
      case F: False
      show ?thesis
      proof (cases ?A)
        case True
        with F e show ?thesis by (simp only: if_True if_False prod.inject simp_thms)
      next
        case False
        with F e show ?thesis by (cases ?C) (simp_all only: if_True if_False prod.inject simp_thms)
      qed
    qed
    then consider (frozen) sm e where "Transition nid NodeDone (sState s) = Inr sm" "s' = emitS e (s\<lparr>sState := sm\<rparr>)" "cs' = cs"
      | (same) "s' = s" "cs' = cs \<or> cs' = cs @ [nid]" | (skip) "s' = skipNodeAndPropagate nid node s" "cs' = cs"
      by blast
    then show ?thesis
    proof cases
      case frozen
      note t = Transition_forward [OF frozen(1)]
      have "good s (s\<lparr>sState := sm\<rparr>)" using t sn by (intro good_state) auto
      then have "good s s'"
        unfolding frozen(2) by (rule good_trans) (rule good_same_core, rule same_coreI)
      with assms(1) frozen(3) show ?thesis using good_sat by auto
    next
      case same
      with assms(1) sn show ?thesis by auto
    next
      case skip
      have "good s s'" unfolding skip(1) using sn by (rule good_skip)
      with assms(1) skip(2) show ?thesis using good_sat by auto
    qed
  qed (use assms n in \<open>auto simp: collectCandidate_def\<close>)
qed

lemma foldl_collect_good:
  assumes "\<forall>c \<in> set cs. sat s c" and "foldl collectCandidate (s, cs) ids = (s', cs')"
  shows "good s s' \<and> (\<forall>c \<in> set cs'. sat s' c)"
  using assms
proof (induction ids arbitrary: s cs)
  case (Cons nid ids)
  obtain s1 cs1 where c: "collectCandidate (s, cs) nid = (s1, cs1)" by fastforce
  from collect_good [OF Cons.prems(1) c] have g: "good s s1" "\<forall>c \<in> set cs1. sat s1 c" by auto
  from Cons.IH [OF g(2)] Cons.prems(2) c have "good s1 s'" "\<forall>c \<in> set cs'. sat s' c" by auto
  with g(1) show ?case by (auto intro: good_trans)
qed auto

lemma dispatchCandidates_good:
  assumes "settled (sGraph s)" and "\<forall>c \<in> set ids. sat s c"
  shows "good s (dispatchCandidates submit ids s)"
  using assms
proof (induction submit ids s rule: dispatchCandidates.induct)
  case (2 submit nid ids s)
  show ?case
  proof (cases "sRunning s \<ge> sMaxParallel s")
    case False
    show ?thesis
    proof (cases "Transition nid NodeQueued (sState s)")
      case (Inr sm)
      show ?thesis
      proof (cases "map_of (gNodes (sGraph s)) nid")
        case (Some node)
        let ?u = "s\<lparr>sState := sm\<rparr>"
        let ?s1 = "emitS (nodeEvent EventNodeQueued node) ?u"
        let ?s2 = "if nRequiresApproval node then waitForApproval nid node ?s1 else dispatchNode submit nid node ?s1"
        note t = Transition_forward [OF Inr]
        have "good s ?u" using t 2(5) by (intro good_state) auto
        then have g1: "good s ?s1" by (rule good_trans) (rule good_same_core, rule same_coreI)
        have s1: "settled (sGraph ?s1)" "map_of (gNodes (sGraph ?s1)) nid = Some node" "sat ?s1 nid"
          using 2(4,5) Some good_sat [OF g1] by (simp_all add: emitS_def)
        have "good ?s1 (waitForApproval nid node ?s1)"
          using s1(3) unfolding waitForApproval_def Let_def
          by (intro good_trans [OF good_same_core good_spawn]) (auto simp: same_core_def emitS_def sat_def)
        then have "good ?s1 ?s2" using good_dispatchNode [OF s1] by simp
        with g1 have g2: "good s ?s2" by (rule good_trans)
        have "settled (sGraph ?s2)" "\<forall>c \<in> set ids. sat ?s2 c"
          using 2(4,5) g2 good_sat [OF g2] by (auto simp: good_def prog_def)
        from 2(3) [OF False Inr Some refl this] g2 have "good s (dispatchCandidates submit ids ?s2)"
          by (blast intro: good_trans)
        moreover have "dispatchCandidates submit (nid # ids) s = dispatchCandidates submit ids ?s2"
          using False Inr Some by (simp add: Let_def)
        ultimately show ?thesis by simp
      qed (use 2(2,4,5) False Inr in auto)
    qed (use 2(1,4,5) False in auto)
  qed simp
qed simp

lemma enqueueReady_good:
  assumes "settled (sGraph s)"
  shows "good s (enqueueReady submit s)"
proof -
  obtain s1 cs where c: "foldl collectCandidate (s, []) (NodeIDs (sGraph s)) = (s1, cs)" by fastforce
  from foldl_collect_good [OF _ c] have g: "good s s1" "\<forall>c \<in> set cs. sat s1 c" by auto
  have "settled (sGraph s1)" using assms g(1) by (simp add: good_def prog_def)
  then have "good s1 (dispatchCandidates submit (prioritize (sGraph s1) cs) s1)"
    using g(2) by (intro dispatchCandidates_good) (simp_all add: prioritize_def)
  with g(1) show ?thesis unfolding enqueueReady_def c prod.case by (rule good_trans)
qed

section \<open>Steps\<close>

lemma good_setThread:
  assumes "\<And>t k. t \<in> set ts \<Longrightarrow> k \<in> thread_nodes t \<Longrightarrow> sat s k" and "\<forall>t \<in> set ts. thread_ok t"
  shows "good s (setThread i ts s)"
proof -
  have sub: "set (sThreads (setThread i ts s)) \<subseteq> set (sThreads s) \<union> set ts" by (rule set_setThread)
  have eq: "sGraph (setThread i ts s) = sGraph s" "sState (setThread i ts s) = sState s" by (simp_all add: setThread_def)
  have "prog s (setThread i ts s)"
    using sub assms(1) eq unfolding prog_def mentions_def sat_def by fastforce
  moreover have "calm s \<longrightarrow> calm (setThread i ts s)" using sub assms(2) unfolding calm_def by blast
  ultimately show ?thesis by (simp add: good_def)
qed

lemma harmless_thread_ok: "harmless t \<Longrightarrow> thread_ok t"
  by (cases t rule: harmless.cases) auto

lemma good_setThread_harmless: "list_all harmless ts \<Longrightarrow> good s (setThread i ts s)"
  by (rule good_setThread) (auto simp: list_all_iff dest: harmlessD harmless_thread_ok)

lemma good_handled:
  assumes "settled (sGraph s)" and "map_of (gNodes (sGraph s)) nid = Some node" and "sat s nid"
  shows "good s (setThread i [Working (snd (handled nid node outcome s)) k] (fst (handled nid node outcome s)))"
proof -
  note h = handled_settled [OF assms(1,2), where outcome = outcome]
  show ?thesis unfolding h(1) by (rule good_setThread) (use h(2,3) assms(3) in auto)
qed

lemma thread_sat: "ready_inv s \<Longrightarrow> i < length (sThreads s) \<Longrightarrow> k \<in> thread_nodes (sThreads s ! i) \<Longrightarrow> sat s k"
  by (auto simp: ready_inv_def mentions_def dest: nth_mem)

lemma sat_node: "sat s nid \<Longrightarrow> \<exists>node. map_of (gNodes (sGraph s)) nid = Some node"
  by (auto simp: sat_def)

lemma good_shape:
  assumes "ready_inv s" and "shape_ok sh s s'"
  shows "good s s'"
proof -
  have settled: "settled (sGraph s)" using assms(1) by (simp add: ready_inv_def)
  show ?thesis
  proof (cases sh)
    case (ShFinish i nid outcome)
    with assms(2) have h: "i < length (sThreads s)" "thread_nodes (sThreads s ! i) = {nid}"
        and s': "s' = setThread i [Completing nid outcome] (s\<lparr>sRunning := sRunning s - 1\<rparr>)" by simp_all
    have "sat s nid" using thread_sat [OF assms(1) h(1)] h(2) by simp
    moreover have g: "good s (s\<lparr>sRunning := sRunning s - 1\<rparr>)"
      by (auto simp: good_def calm_def mentions_def intro!: prog_same)
    ultimately have "sat (s\<lparr>sRunning := sRunning s - 1\<rparr>) nid" by (blast intro: good_sat)
    then show ?thesis unfolding s' by (intro good_trans [OF g good_setThread]) auto
  next
    case (ShComplete i nid outcome)
    with assms(2) have h: "i < length (sThreads s)" "sThreads s ! i = Completing nid outcome"
        and s': "s' = completing i nid outcome s" by simp_all
    have sn: "sat s nid" using thread_sat [OF assms(1) h(1)] h(2) by simp
    then obtain node where n: "map_of (gNodes (sGraph s)) nid = Some node" by (blast dest: sat_node)
    show ?thesis unfolding s' completing_handled [OF n] by (rule good_handled [OF settled n sn])
  next
    case (ShOp i op ops k)
    with assms(2) have h: "i < length (sThreads s)" "sThreads s ! i = Working (op # ops) k"
        and s': "s' = applyOp op (setThread i [Working ops k] s)" by simp_all
    have nodes: "sat s n" if "n \<in> op_nodes op \<or> (\<exists>p \<in> set ops. n \<in> op_nodes p)" for n
      using thread_sat [OF assms(1) h(1), of n] that h(2) by auto
    have ok: "list_all op_ok (op # ops)"
      using assms(1) h nth_mem [OF h(1)] by (force simp: ready_inv_def calm_def)
    have g: "good s (setThread i [Working ops k] s)" using nodes ok by (intro good_setThread) auto
    have "prog (setThread i [Working ops k] s) s'"
      unfolding s' using ok nodes good_sat [OF g] by (intro prog_applyOp) auto
    then have "good (setThread i [Working ops k] s) s'" using ok by (simp add: good_def s' calm_def)
    with g show ?thesis by (rule good_trans)
  next
    case (ShEnqueue i ts submit)
    with assms(2) obtain s1 where h: "list_all harmless ts" "same_core (setThread i ts s) s1"
        and s': "s' = enqueueReady submit s1" by auto
    have g: "good s s1" by (rule good_trans [OF good_setThread_harmless [OF h(1)] good_same_core [OF h(2)]])
    then have "settled (sGraph s1)" using settled by (simp add: good_def prog_def)
    then show ?thesis unfolding s' by (rule good_trans [OF g enqueueReady_good])
  next
    case (ShIdle i ts)
    with assms(2) have h: "list_all harmless ts" "same_core (setThread i ts s) s'" by simp_all
    show ?thesis by (rule good_trans [OF good_setThread_harmless [OF h(1)] good_same_core [OF h(2)]])
  next
    case (ShApproved i nid node submit)
    with assms(2) obtain s1 ch where h: "i < length (sThreads s)" "sThreads s ! i = Awaiting nid ch"
        "map_of (gNodes (sGraph s)) nid = Some node" "same_core (setThread i [Unregistering nid] s) s1"
        and s': "s' = dispatchNode submit nid node s1" by auto
    have sn: "sat s nid" using thread_sat [OF assms(1) h(1)] h(2) by simp
    have g: "good s s1" by (rule good_trans [OF good_setThread_harmless good_same_core [OF h(4)]]) simp
    have "sGraph s1 = sGraph s" using g by (simp add: good_def prog_def)
    with settled h(3) good_sat [OF g sn] show ?thesis
      unfolding s' by (intro good_trans [OF g good_dispatchNode]) simp_all
  next
    case (ShRefused i nid err k)
    with assms(2) obtain s1 ch where h: "i < length (sThreads s)" "sThreads s ! i = Awaiting nid ch" "same_core s s1"
        and s': "s' = refuse i nid err k s1" by auto
    have sn: "sat s nid" using thread_sat [OF assms(1) h(1)] h(2) by simp
    have g1: "good s s1" by (rule good_same_core [OF h(3)])
    let ?u = "updState (tryTransition nid NodeRunning) s1"
    have g2: "good s1 ?u" using good_sat [OF g1 sn] by (intro good_updState prog_tryTransition) simp_all
    have g: "good s ?u" by (rule good_trans [OF g1 g2])
    have gr: "sGraph ?u = sGraph s" using g by (simp add: good_def prog_def)
    obtain node where n: "map_of (gNodes (sGraph s)) nid = Some node" using sat_node [OF sn] by blast
    have "sGraph s1 = sGraph s" using g1 by (simp add: good_def prog_def)
    then have n1: "map_of (gNodes (sGraph s1)) nid = Some node" using n by simp
    have "good ?u s'"
      unfolding s' refuse_handled [OF n1] using settled n gr good_sat [OF g sn] by (intro good_handled) simp_all
    with g show ?thesis by (rule good_trans)
  next
    case ShSame
    with assms(2) show ?thesis by (simp add: good_same_core)
  qed
qed

interpretation ready: step_invariant sched_init sched_step "\<lambda>s. settled (sGraph s) \<longrightarrow> ready_inv s"
proof
  fix s
  assume "sched_init s"
  from init_core [OF this] obtain submit s2 where s: "s = enqueueReady submit s2" and
    s2: "sThreads s2 = []" "\<forall>k. Get (sState s2) k \<notin> {NodeQueued, NodeRunning}" by blast
  have "sGraph s = sGraph s2" using in_step_enqueueReady [of s2 submit] by (simp add: s in_step_def)
  then show "settled (sGraph s) \<longrightarrow> ready_inv s"
    using s2 enqueueReady_good [of s2 submit] good_ready [of s2 s]
    by (auto simp: s ready_inv_def calm_def mentions_def)
next
  fix s t
  assume i: "settled (sGraph s) \<longrightarrow> ready_inv s" and st: "sched_step s t"
  from sched_step_shape [OF st] obtain sh where "shape_ok sh s t" by blast
  then have "ready_inv t" if "ready_inv s" using that good_shape good_ready by blast
  with i sched_step_graph [OF st] show "settled (sGraph t) \<longrightarrow> ready_inv t" by simp
qed

lemma step_prog:
  assumes "ready_inv s" and "sched_step s t"
  shows "prog s t \<and> ready_inv t"
proof -
  from sched_step_shape [OF assms(2)] obtain sh where "shape_ok sh s t" by blast
  with assms(1) have g: "good s t" by (rule good_shape)
  with good_ready [OF assms(1) g] show ?thesis by (simp add: good_def)
qed

lemma run_prog:
  assumes "sched_step\<^sup>*\<^sup>* s t" and "ready_inv s"
  shows "prog s t \<and> ready_inv t"
  using assms by (induction rule: rtranclp_induct) (auto dest: step_prog intro: prog_trans)

lemma pending_not_done: "Get sm nid = NodePending \<Longrightarrow> \<not> AllDone sm"
  by (auto simp: Get_def AllDone_def list_all_iff split: option.splits dest: map_of_SomeD)

section \<open>Properties\<close>

lemma demo_settled: "settled g" if "list_all (\<lambda>(_, n). nMaxIterations n = 0 \<and> nErrorStrategy n = ErrorFail) (gNodes g)"
proof -
  have "nMaxIterations n = 0 \<and> nErrorStrategy n = ErrorFail" if "map_of (gNodes g) k = Some n" for k n
    using map_of_SomeD [OF that] \<open>list_all _ _\<close> by (auto simp: list_all_iff)
  then show ?thesis by (simp add: settled_def)
qed

text \<open>
  C3: Dependency safety. In a graph whose nodes neither iterate nor retry, in every reachable state
  and whatever the interleaving, a node that is queued, running or in the hands of a goroutine has
  only satisfied dependencies: each is done, skipped, or failed with this node as its fail branch.
\<close>

theorem no_node_before_its_dependencies:
  assumes "reachable sched_init sched_step s" and "settled (sGraph s)"
    and "Get (sState s) nid \<in> {NodeQueued, NodeRunning} \<or> nid \<in> mentions s"
  shows "\<exists>node. map_of (gNodes (sGraph s)) nid = Some node \<and> DependenciesSatisfied (sState s) node"
proof -
  have "ready_inv s" using ready.reachable_inv [OF assms(1)] assms(2) by simp
  with assms(3) have "sat s nid" unfolding ready_inv_def by blast
  then show ?thesis by (simp add: sat_def)
qed

lemma demo_running_b:
  "ends_with (\<lambda>s. Get (sState s) ''b'' = NodeRunning \<and> Get (sState s) ''d'' = NodePending \<and>
     list_all (\<lambda>(_, n). nMaxIterations n = 0 \<and> nErrorStrategy n = ErrorFail) (gNodes (sGraph s)))
   (scenario demo_graph 2 demo_schedule)"
  by code_simp

theorem no_node_before_its_dependencies_witness:
  "\<exists>s node. reachable sched_init sched_step s \<and> settled (sGraph s) \<and> Get (sState s) ''b'' = NodeRunning \<and>
     map_of (gNodes (sGraph s)) ''b'' = Some node \<and> DependenciesSatisfied (sState s) node"
proof -
  obtain s where s: "reachable sched_init sched_step s" "Get (sState s) ''b'' = NodeRunning"
      "list_all (\<lambda>(_, n). nMaxIterations n = 0 \<and> nErrorStrategy n = ErrorFail) (gNodes (sGraph s))"
    using scenario_ends_with [OF demo_graph_wf(1) demo_running_b] by blast
  from s(2) have "Get (sState s) ''b'' \<in> {NodeQueued, NodeRunning} \<or> ''b'' \<in> mentions s" by simp
  with s no_node_before_its_dependencies [OF s(1) demo_settled [OF s(3)] this] demo_settled [OF s(3)]
  show ?thesis by blast
qed

text \<open>
  A finished node stays finished. In such a graph, once a node is done, failed or skipped no later
  step of the scheduler changes its state.
\<close>

theorem finished_nodes_stay_finished:
  assumes "reachable sched_init sched_step s" and "settled (sGraph s)" and "sched_step\<^sup>*\<^sup>* s t"
    and "Get (sState s) nid \<in> {NodeDone, NodeFailed, NodeSkipped}"
  shows "Get (sState t) nid = Get (sState s) nid"
proof -
  have "ready_inv s" using ready.reachable_inv [OF assms(1)] assms(2) by simp
  with run_prog [OF assms(3)] have "forward (sState s) (sState t)" by (simp add: prog_def)
  with assms(4) show ?thesis unfolding forward_def by blast
qed

text \<open>Another schedule of the same graph: the root fails.\<close>

definition fail_schedule :: "Action list" where
  "fail_schedule = Finish 0 (Inl ''boom'') # replicate 7 (Advance 0 okPool)"

lemma demo_root_failed:
  "ends_with (\<lambda>s. Get (sState s) ''a'' = NodeFailed \<and> smFailEdges (sState s) ''a'' = None \<and>
     Get (sState s) ''b'' = NodePending \<and> sThreads s = [] \<and>
     (case map_of (gNodes (sGraph s)) ''b'' of None \<Rightarrow> False | Some n \<Rightarrow> nID n = ''b'' \<and> nDependsOn n = [''a'']) \<and>
     list_all (\<lambda>(_, n). nMaxIterations n = 0 \<and> nErrorStrategy n = ErrorFail) (gNodes (sGraph s)))
   (scenario demo_graph 2 fail_schedule)"
  by code_simp

theorem finished_nodes_stay_finished_witness:
  "\<exists>s. reachable sched_init sched_step s \<and> settled (sGraph s) \<and> Get (sState s) ''a'' = NodeFailed \<and>
     sched_step\<^sup>*\<^sup>* s (pollRun s) \<and> Get (sState (pollRun s)) ''a'' = NodeFailed"
proof -
  obtain s where s: "reachable sched_init sched_step s" "Get (sState s) ''a'' = NodeFailed"
      "list_all (\<lambda>(_, n). nMaxIterations n = 0 \<and> nErrorStrategy n = ErrorFail) (gNodes (sGraph s))"
    using scenario_ends_with [OF demo_graph_wf(1) demo_root_failed] by blast
  have "exec Poll s = Some (pollRun s)" by (simp add: exec_def)
  then have st: "sched_step\<^sup>*\<^sup>* s (pollRun s)" unfolding sched_step_def by blast
  have "Get (sState s) ''a'' \<in> {NodeDone, NodeFailed, NodeSkipped}" using s(2) by simp
  from finished_nodes_stay_finished [OF s(1) demo_settled [OF s(3)] st this] s st demo_settled [OF s(3)]
  show ?thesis by auto
qed

lemma stranded_dependents:
  assumes "reachable sched_init sched_step s" and "settled (sGraph s)"
    and "Get (sState s) dep = NodeFailed" and "smFailEdges (sState s) dep = None"
    and "map_of (gNodes (sGraph s)) nid = Some node" and "dep \<in> set (nDependsOn node)" and "nID node \<noteq> []"
    and "Get (sState s) nid = NodePending" and "sched_step\<^sup>*\<^sup>* s t"
  shows "Get (sState t) nid = NodePending \<and> pollRun t = t"
proof -
  have "ready_inv s" using ready.reachable_inv [OF assms(1)] assms(2) by simp
  with run_prog [OF assms(9)] have p: "prog s t" by blast
  then have f: "Get (sState t) dep = NodeFailed" "smFailEdges (sState t) dep = None"
      "map_of (gNodes (sGraph t)) nid = Some node"
    using assms(3,4,5) by (auto simp: prog_def forward_def)
  then have "\<not> depSatisfied (sState t) dep (nID node)" using assms(7) by (simp add: depSatisfied_def)
  with assms(6) f(3) have "\<not> sat t nid" by (auto simp: sat_def DependenciesSatisfied_def list_all_iff)
  with p assms(8) have g: "Get (sState t) nid = NodePending" unfolding prog_def by metis
  with pending_not_done show ?thesis by (simp add: pollRun_def)
qed

text \<open>
  C40: A plain failure strands its dependents. If a node without a fail branch has failed, a pending
  node that depends on it stays pending in every continuation of the run, so the polling loop never
  sees the graph as done and the run ends only by cancellation. The package documentation says the
  dependents are skipped.
\<close>

theorem failure_strands_dependents:
  assumes "reachable sched_init sched_step s" and "settled (sGraph s)"
    and "Get (sState s) dep = NodeFailed" and "smFailEdges (sState s) dep = None"
    and "map_of (gNodes (sGraph s)) nid = Some node" and "dep \<in> set (nDependsOn node)" and "nID node \<noteq> []"
    and "Get (sState s) nid = NodePending" and "sched_step\<^sup>*\<^sup>* s t"
  shows "Get (sState t) nid = NodePending \<and> pollRun t = t"
  by (rule stranded_dependents [OF assms])

theorem failure_strands_dependents_witness:
  "\<exists>s. reachable sched_init sched_step s \<and> settled (sGraph s) \<and> Get (sState s) ''a'' = NodeFailed \<and>
     sThreads s = [] \<and> Get (sState s) ''b'' = NodePending \<and>
     (\<forall>t. sched_step\<^sup>*\<^sup>* s t \<longrightarrow> Get (sState t) ''b'' = NodePending \<and> pollRun t = t)"
proof -
  obtain s where s: "reachable sched_init sched_step s" "Get (sState s) ''a'' = NodeFailed"
      "smFailEdges (sState s) ''a'' = None" "Get (sState s) ''b'' = NodePending" "sThreads s = []"
      "list_all (\<lambda>(_, n). nMaxIterations n = 0 \<and> nErrorStrategy n = ErrorFail) (gNodes (sGraph s))"
      "case map_of (gNodes (sGraph s)) ''b'' of None \<Rightarrow> False | Some n \<Rightarrow> nID n = ''b'' \<and> nDependsOn n = [''a'']"
    using scenario_ends_with [OF demo_graph_wf(1) demo_root_failed] by blast
  then obtain n where n: "map_of (gNodes (sGraph s)) ''b'' = Some n" "''a'' \<in> set (nDependsOn n)" "nID n \<noteq> []"
    by (cases "map_of (gNodes (sGraph s)) ''b''") auto
  note d = demo_settled [OF s(6)]
  from s d failure_strands_dependents [OF s(1) d s(2,3) n s(4)] show ?thesis by blast
qed

end
