(* ===== verification/Graph_Scenarios.thy ===== *)
theory Graph_Scenarios
  imports Graph_Safety
begin

text \<open>
  What the scheduler's guarantees do not cover: concrete reachable states, one per hypothesis of the
  general theorems and per gap between the code's comments and its behaviour. Each is computed by
  running the model under a schedule.
\<close>

section \<open>Idle schedulers\<close>

text \<open>Without goroutines only the polling loop and user decisions are left, and they start nothing.\<close>

lemma idle_step:
  assumes "sThreads s = []" and "sched_step s t"
  shows "same_core s t"
proof -
  from assms(2) obtain a where "exec a s = Some t" by (auto simp: sched_step_def)
  with assms(1) show ?thesis
    by (cases a) (auto simp: exec_def advance_def pollRun_same_core)
qed

lemma idle_forever:
  assumes "sched_step\<^sup>*\<^sup>* s t" and "sThreads s = []"
  shows "same_core s t"
  using assms
proof (induction rule: rtranclp_induct)
  case (step t u)
  then have "same_core s t" by simp
  moreover from this step.prems have "sThreads t = []" by (simp add: same_core_def)
  ultimately show ?case using idle_step step.hyps(2) by (blast intro: same_core_trans)
qed simp

section \<open>Scenarios\<close>

definition gated :: "NodeID \<times> Node \<Rightarrow> NodeID \<times> Node" where
  "gated p = (fst p, (snd p)\<lparr>nRequiresApproval := True\<rparr>)"

definition retrying :: "int \<Rightarrow> duration \<Rightarrow> NodeID \<times> Node \<Rightarrow> NodeID \<times> Node" where
  "retrying n d p = (fst p, (snd p)\<lparr>nErrorStrategy := ErrorRetryThenFail, nMaxRetries := n, nRetryDelay := d\<rparr>)"

definition iterating :: "int \<Rightarrow> NodeID \<times> Node \<Rightarrow> NodeID \<times> Node" where
  "iterating n p = (fst p, (snd p)\<lparr>nMaxIterations := n, nIterationCheck := Some (\<lambda>_. True)\<rparr>)"

definition never :: "NodeID \<times> Node \<Rightarrow> NodeID \<times> Node" where
  "never p = (fst p, (snd p)\<lparr>nCondition := Some (\<lambda>_. False)\<rparr>)"

definition graphOf :: "(NodeID \<times> Node) list \<Rightarrow> Graph" where
  "graphOf ns = NewGraph\<lparr>gNodes := ns\<rparr>"

definition gated_graph :: Graph where
  "gated_graph = graphOf [gated (demo_node ''a'' []), gated (demo_node ''b'' [])]"

definition retry_graph :: Graph where
  "retry_graph = graphOf [retrying 1 5 (demo_node ''a'' [])]"

definition gated_retry_graph :: Graph where
  "gated_retry_graph = graphOf [gated (retrying 1 0 (demo_node ''a'' []))]"

definition iterating_graph :: Graph where
  "iterating_graph = graphOf [iterating 3 (demo_node ''a'' []), demo_node ''b'' [''a''], demo_node ''c'' []]"

definition skip_graph :: Graph where
  "skip_graph = graphOf [demo_node ''a'' [''z''], never (demo_node ''z'' [])]"

lemma scenario_graphs_wf:
  "graph_wf gated_graph" "graph_wf retry_graph" "graph_wf gated_retry_graph" "graph_wf iterating_graph" "graph_wf skip_graph"
  unfolding graph_wf_def by code_simp+

lemma gated_run:
  "ends_with (\<lambda>s. sMaxParallel s = 1 \<and> length (filter isExec (sThreads s)) = 2)
     (scenario gated_graph 1 [Decision ''a'' True, Decision ''b'' True, Advance 0 okPool, Advance 1 okPool])"
  by code_simp

lemma retry_run:
  "ends_with (\<lambda>s. sThreads s = [Delayed, Watch ''a'' ''job-a''] \<and> Get (sState s) ''a'' = NodeRunning)
     (scenario retry_graph 1 (Finish 0 (Inl ''boom'') # replicate 6 (Advance 0 okPool)))"
  by code_simp

lemma gated_retry_run:
  "ends_with (\<lambda>s. sThreads s = [Awaiting ''a'' 1] \<and> sApprovals s ''a'' = None \<and> sChans s 1 = None \<and> Get (sState s) ''a'' = NodeQueued)
     (scenario gated_retry_graph 1 (Decision ''a'' False # replicate 6 (Advance 0 okPool)))"
  by code_simp

lemma iterating_run:
  "ends_with (\<lambda>s. Get (sState s) ''a'' = NodePending \<and> Get (sState s) ''b'' = NodeRunning \<and>
       (case map_of (gNodes (sGraph s)) ''b'' of None \<Rightarrow> False | Some n \<Rightarrow> nDependsOn n = [''a'']))
     (scenario iterating_graph 3
        ([Finish 0 (Inr ''r''), Advance 0 okPool, Advance 0 okPool, Advance 0 okPool, Finish 1 (Inr ''r'')] @
         replicate 5 (Advance 1 okPool) @ [Advance 0 okPool, Advance 0 okPool]))"
  by code_simp

lemma skip_run:
  "ends_with (\<lambda>s. sThreads s = [] \<and> Get (sState s) ''z'' = NodeSkipped \<and> Get (sState s) ''a'' = NodePending)
     (scenario skip_graph 1 [])"
  by code_simp

section \<open>Properties\<close>

text \<open>
  The parallelism bound does not hold for gated nodes. A node that waits for approval takes no
  slot, and an approval dispatches it without looking at the counter: with \<^verbatim>\<open>maxParallel\<close> 1, two
  approved nodes execute at once.
\<close>

theorem approvals_exceed_parallelism:
  "\<exists>s. reachable sched_init sched_step s \<and> sMaxParallel s = 1 \<and> length (filter isExec (sThreads s)) = 2"
  using scenario_ends_with [OF scenario_graphs_wf(1) gated_run] by blast

text \<open>
  The retry delay is not observed. A failed node with retries left and a positive delay is running
  again while its delay timer has not fired yet.
\<close>

theorem retry_delay_ignored:
  "\<exists>s. reachable sched_init sched_step s \<and> Get (sState s) ''a'' = NodeRunning \<and> Delayed \<in> set (sThreads s)"
proof -
  obtain s where "reachable sched_init sched_step s" "sThreads s = [Delayed, Watch ''a'' ''job-a'']"
      "Get (sState s) ''a'' = NodeRunning"
    using scenario_ends_with [OF scenario_graphs_wf(2) retry_run] by blast
  then show ?thesis by auto
qed

text \<open>
  A rejected gate that is retried cannot be answered any more. The goroutine of the first approval
  removes the channel of the second one when it ends: a state is reachable where a node waits for
  approval, approving and rejecting it both fail, and no goroutine can move.
\<close>

theorem retried_gate_unanswerable:
  "\<exists>s. reachable sched_init sched_step s \<and> (\<exists>ch. Awaiting ''a'' ch \<in> set (sThreads s)) \<and>
     \<not> fst (ApproveNode ''a'' s) \<and> \<not> fst (RejectNode ''a'' s) \<and> (\<forall>i submit. advance i submit s = None)"
proof -
  obtain s where s: "reachable sched_init sched_step s" "sThreads s = [Awaiting ''a'' 1]" "sApprovals s ''a'' = None" "sChans s 1 = None"
    using scenario_ends_with [OF scenario_graphs_wf(3) gated_retry_run] by blast
  then have "advance i submit s = None" for i submit by (cases i) (simp_all add: advance_def)
  moreover from s have "\<not> fst (ApproveNode ''a'' s) \<and> \<not> fst (RejectNode ''a'' s)"
    by (simp add: ApproveNode_def RejectNode_def decide_def)
  ultimately show ?thesis using s by (intro exI [of _ s]) simp
qed

text \<open>
  Iteration opens a window on the dependents. A node that will iterate is done for a moment before
  it is reset; a dependent dispatched in that window runs while its dependency is pending again.
\<close>

theorem iteration_races_dependents:
  "\<exists>s node. reachable sched_init sched_step s \<and> map_of (gNodes (sGraph s)) ''b'' = Some node \<and>
     nDependsOn node = [''a''] \<and> Get (sState s) ''b'' = NodeRunning \<and> Get (sState s) ''a'' = NodePending"
proof -
  obtain s where s: "reachable sched_init sched_step s" "Get (sState s) ''a'' = NodePending"
      "Get (sState s) ''b'' = NodeRunning"
      "case map_of (gNodes (sGraph s)) ''b'' of None \<Rightarrow> False | Some n \<Rightarrow> nDependsOn n = [''a'']"
    using scenario_ends_with [OF scenario_graphs_wf(4) iterating_run] by blast
  then show ?thesis by (cases "map_of (gNodes (sGraph s)) ''b''") auto
qed

text \<open>
  A skip does not reach a dependent with a smaller id. When a root's condition is false and its
  dependent comes before it in the order of ids, the one pass over the nodes leaves the dependent
  pending; no goroutine exists that would start another pass, so it stays pending in every
  continuation and the run ends only by cancellation.
\<close>

theorem skip_misses_earlier_dependents:
  "\<exists>s. reachable sched_init sched_step s \<and> Get (sState s) ''z'' = NodeSkipped \<and>
     {t. sched_step\<^sup>*\<^sup>* s t} \<subseteq> {t. Get (sState t) ''a'' = NodePending \<and> pollRun t = t}"
proof -
  obtain s where s: "reachable sched_init sched_step s" "Get (sState s) ''z'' = NodeSkipped"
      "sThreads s = []" "Get (sState s) ''a'' = NodePending"
    using scenario_ends_with [OF scenario_graphs_wf(5) skip_run] by blast
  have "Get (sState t) ''a'' = NodePending \<and> pollRun t = t" if "sched_step\<^sup>*\<^sup>* s t" for t
  proof -
    have "sState t = sState s" using idle_forever [OF that s(3)] by (simp add: same_core_def)
    with s(4) pending_not_done show ?thesis by (simp add: pollRun_def)
  qed
  with s show ?thesis by blast
qed

end
