(* ===== verification/Worker_Pool.thy ===== *)
theory Worker_Pool
  imports Kvelmo_Prelude
begin

text \<open>
  The worker pool (src/internal/worker/types.go, pool.go, pool_dispatch.go, pool_workers.go): jobs are
  submitted to a bounded queue, a dispatcher assigns them to workers, and one goroutine per running
  job turns the events of an agent into the job's result.

  Jobs, workers, metadata maps, event channels and job contexts are shared by reference between the
  pool's maps, its queue and its goroutines, so each kind has a store indexed by references. The
  goroutines in flight are explicit (\<open>PoolThread\<close>). A step of the pool is one critical section of its
  mutex together with the sends into event channels that go with it, or one operation on the job queue.
  What agents do, what the clock shows and which random identifiers are drawn are arguments of the
  steps; identifiers are taken to be fresh, although the code keeps only eight characters of each.
  Metrics, log messages, the files of recordings, the timestamps of events and the node identifier
  that the graph scheduler adds to them are left out.
\<close>

section \<open>Data\<close>

datatype WorkerStatus = StatusAvailable | StatusWorking | StatusDisconnected

datatype JobStatus = JobStatusQueued | JobStatusInProgress | JobStatusDone | JobStatusFailed

type_synonym JobType = string

definition JobTypeDryRun :: JobType where
  "JobTypeDryRun = ''dry_run''"

text \<open>The dynamic values a metadata map holds.\<close>

datatype MetaValue = MetaString string | MetaBool bool | MetaNumber int

type_synonym Meta = "string \<Rightarrow> MetaValue option"
type_synonym jref = nat
type_synonym wref = nat

record Worker =
  wID :: string
  wStatus :: WorkerStatus
  wCurrentJob :: string
  wStartedAt :: time
  wAgentName :: string
  wIsDefault :: bool
  wAgent :: "nat option"

record Job =
  jID :: string
  jType :: JobType
  jWorktreeID :: string
  jPrompt :: string
  jStatus :: JobStatus
  jWorkerID :: string
  jCreatedAt :: time
  jStartedAt :: "time option"
  jCompletedAt :: "time option"
  jResult :: string
  jError :: string
  jWorkDir :: string
  jEnvironment :: "(string, string) gomap"
  jMetadata :: "nat option"

record JobOptions =
  joWorkDir :: string
  joEnvironment :: "(string, string) gomap"
  joMetadata :: "nat option"
  joAgent :: string

record Event =
  evType :: string
  evJobID :: string
  evContent :: string
  evData :: "Meta option"

definition event :: "string \<Rightarrow> string \<Rightarrow> string \<Rightarrow> Event" where
  "event t i c = \<lparr>evType = t, evJobID = i, evContent = c, evData = None\<rparr>"

definition EventJobCompleted :: string where
  "EventJobCompleted = ''job_completed''"

definition EventJobFailed :: string where
  "EventJobFailed = ''job_failed''"

text \<open>An event channel: what is in its buffer, its capacity, and whether it is closed.\<close>

record Stream =
  stBuffer :: "Event list"
  stCapacity :: nat
  stClosed :: bool

datatype PoolOp = OpEmitEvent string Event | OpCloseStream string | OpDropCancel string

text \<open>
  Goroutines: a submitter blocked on a full queue, a re-queue after a delay, a job that is about to
  use its agent, one that reads the agent's events (with the text accumulated so far, the fallback
  text and whether a delta has arrived), a simulated job with its messages left, the closing calls
  of a finished job, and the creation of an agent worker between its two critical sections.
\<close>

datatype PoolThread =
    Submitting jref
  | Requeueing jref
  | Starting jref wref nat
  | Streaming jref wref nat string string bool
  | Simulating jref wref nat "string list"
  | Closing "PoolOp list"
  | Adding nat string bool

datatype DispatcherState = Idle | DryRunning jref | DispatcherClosing "PoolOp list"

record Pool =
  pWorkers :: "(string, wref) gomap"
  pMaxWorkers :: int
  pJobs :: "(string, jref) gomap"
  pQueue :: "jref list"
  pStreams :: "string \<Rightarrow> nat option"
  pJobCancels :: "string \<Rightarrow> nat option"
  pStopped :: bool
  pAllowedAgents :: "string list"
  pJobStore :: "jref \<Rightarrow> Job"
  pNextJob :: jref
  pWorkerStore :: "wref \<Rightarrow> Worker"
  pNextWorker :: wref
  pMetaStore :: "nat \<Rightarrow> Meta"
  pNextMeta :: nat
  pChans :: "nat \<Rightarrow> Stream"
  pNextChan :: nat
  pCancelled :: "nat \<Rightarrow> bool"
  pNextCtx :: nat
  pDispatcher :: DispatcherState
  pThreads :: "PoolThread list"

definition QueueCapacity :: nat where
  "QueueCapacity = 100"

definition zeroJob :: Job where
  "zeroJob = \<lparr>jID = [], jType = [], jWorktreeID = [], jPrompt = [], jStatus = JobStatusQueued, jWorkerID = [],
     jCreatedAt = 0, jStartedAt = None, jCompletedAt = None, jResult = [], jError = [], jWorkDir = [],
     jEnvironment = [], jMetadata = None\<rparr>"

definition zeroWorker :: Worker where
  "zeroWorker = \<lparr>wID = [], wStatus = StatusAvailable, wCurrentJob = [], wStartedAt = 0, wAgentName = [],
     wIsDefault = False, wAgent = None\<rparr>"

text \<open>A new pool; metadata maps that the callers of the pool have made are in its store already.\<close>

definition NewPool :: "int \<Rightarrow> string list \<Rightarrow> nat \<Rightarrow> (nat \<Rightarrow> Meta) \<Rightarrow> Pool" where
  "NewPool maxWorkers allowed nextMeta metas = \<lparr>pWorkers = [], pMaxWorkers = maxWorkers, pJobs = [], pQueue = [],
     pStreams = (\<lambda>_. None), pJobCancels = (\<lambda>_. None), pStopped = False, pAllowedAgents = allowed,
     pJobStore = (\<lambda>_. zeroJob), pNextJob = 0, pWorkerStore = (\<lambda>_. zeroWorker), pNextWorker = 0,
     pMetaStore = metas, pNextMeta = nextMeta,
     pChans = (\<lambda>_. \<lparr>stBuffer = [], stCapacity = 0, stClosed = False\<rparr>), pNextChan = 0,
     pCancelled = (\<lambda>_. False), pNextCtx = 0, pDispatcher = Idle, pThreads = []\<rparr>"

section \<open>Stores\<close>

definition updJob :: "jref \<Rightarrow> (Job \<Rightarrow> Job) \<Rightarrow> Pool \<Rightarrow> Pool" where
  "updJob j f p = p\<lparr>pJobStore := (pJobStore p)(j := f (pJobStore p j))\<rparr>"

definition updWorker :: "wref \<Rightarrow> (Worker \<Rightarrow> Worker) \<Rightarrow> Pool \<Rightarrow> Pool" where
  "updWorker w f p = p\<lparr>pWorkerStore := (pWorkerStore p)(w := f (pWorkerStore p w))\<rparr>"

definition putThreads :: "nat \<Rightarrow> PoolThread list \<Rightarrow> Pool \<Rightarrow> Pool" where
  "putThreads i ts p = p\<lparr>pThreads := take i (pThreads p) @ ts @ drop (i + 1) (pThreads p)\<rparr>"

definition addThread :: "PoolThread \<Rightarrow> Pool \<Rightarrow> Pool" where
  "addThread t p = p\<lparr>pThreads := pThreads p @ [t]\<rparr>"

text \<open>\<^verbatim>\<open>job.Metadata[k] = v\<close>, making the map first where it is nil.\<close>

definition setMeta :: "jref \<Rightarrow> string \<Rightarrow> MetaValue \<Rightarrow> Pool \<Rightarrow> Pool" where
  "setMeta j k v p =
     (case jMetadata (pJobStore p j) of
        Some m \<Rightarrow> p\<lparr>pMetaStore := (pMetaStore p)(m := (pMetaStore p m)(k \<mapsto> v))\<rparr>
      | None \<Rightarrow>
          (updJob j (\<lambda>job. job\<lparr>jMetadata := Some (pNextMeta p)\<rparr>) p)\<lparr>
             pMetaStore := (pMetaStore p)(pNextMeta p := [k \<mapsto> v]), pNextMeta := pNextMeta p + 1\<rparr>)"

definition metaOf :: "Pool \<Rightarrow> jref \<Rightarrow> Meta" where
  "metaOf p j = (case jMetadata (pJobStore p j) of None \<Rightarrow> (\<lambda>_. None) | Some m \<Rightarrow> pMetaStore p m)"

section \<open>Event streams\<close>

definition send :: "nat \<Rightarrow> Event \<Rightarrow> Pool \<Rightarrow> Pool" where
  "send ch e p =
     (let st = pChans p ch in
      if length (stBuffer st) < stCapacity st
      then p\<lparr>pChans := (pChans p)(ch := st\<lparr>stBuffer := stBuffer st @ [e]\<rparr>)\<rparr> else p)"

definition emitEvent :: "string \<Rightarrow> Event \<Rightarrow> Pool \<Rightarrow> Pool" where
  "emitEvent jobID e p = (case pStreams p jobID of None \<Rightarrow> p | Some ch \<Rightarrow> send ch e p)"

text \<open>The two critical sections of \<^verbatim>\<open>closeStream\<close>.\<close>

definition removeStream :: "string \<Rightarrow> Pool \<Rightarrow> Pool" where
  "removeStream jobID p =
     (case pStreams p jobID of
        None \<Rightarrow> p
      | Some ch \<Rightarrow> p\<lparr>pChans := (pChans p)(ch := (pChans p ch)\<lparr>stClosed := True\<rparr>),
                     pStreams := (pStreams p)(jobID := None)\<rparr>)"

definition dropCancel :: "string \<Rightarrow> Pool \<Rightarrow> Pool" where
  "dropCancel jobID p = p\<lparr>pJobCancels := (pJobCancels p)(jobID := None)\<rparr>"

definition closeStream :: "string \<Rightarrow> PoolOp list" where
  "closeStream jobID = [OpCloseStream jobID, OpDropCancel jobID]"

fun applyPoolOp :: "PoolOp \<Rightarrow> Pool \<Rightarrow> Pool" where
  "applyPoolOp (OpEmitEvent jobID e) p = emitEvent jobID e p"
| "applyPoolOp (OpCloseStream jobID) p = removeStream jobID p"
| "applyPoolOp (OpDropCancel jobID) p = dropCancel jobID p"

definition newStream :: "string \<Rightarrow> nat \<Rightarrow> Pool \<Rightarrow> Pool" where
  "newStream jobID cap p = p\<lparr>pStreams := (pStreams p)(jobID \<mapsto> pNextChan p),
     pChans := (pChans p)(pNextChan p := \<lparr>stBuffer = [], stCapacity = cap, stClosed = False\<rparr>),
     pNextChan := pNextChan p + 1\<rparr>"

section \<open>Submitting\<close>

definition newJob :: "Job \<Rightarrow> Pool \<Rightarrow> jref \<times> Pool" where
  "newJob job p = (pNextJob p, p\<lparr>pJobStore := (pJobStore p)(pNextJob p := job), pNextJob := pNextJob p + 1\<rparr>)"

definition applyOptions :: "jref \<Rightarrow> JobOptions option \<Rightarrow> Pool \<Rightarrow> Pool" where
  "applyOptions j opts p =
     (case opts of
        None \<Rightarrow> p
      | Some o' \<Rightarrow>
          (let p1 = updJob j (\<lambda>job. job\<lparr>jWorkDir := joWorkDir o', jEnvironment := joEnvironment o', jMetadata := joMetadata o'\<rparr>) p
           in if joAgent o' \<noteq> [] then setMeta j ''agent_override'' (MetaString (joAgent o')) p1 else p1))"

definition registerJob :: "jref \<Rightarrow> Pool \<Rightarrow> Pool" where
  "registerJob j p = p\<lparr>pJobs := AList.update (jID (pJobStore p j)) j (pJobs p)\<rparr>"

text \<open>A submission up to its blocking send; the send is a step of the goroutine \<open>Submitting\<close>.\<close>

definition SubmitWithOptions ::
  "string \<Rightarrow> time \<Rightarrow> JobType \<Rightarrow> string \<Rightarrow> string \<Rightarrow> JobOptions option \<Rightarrow> Pool \<Rightarrow> Pool" where
  "SubmitWithOptions uid now jobType worktreeID prompt opts p =
     (let (j, p1) = newJob (zeroJob\<lparr>jID := uid, jType := jobType, jWorktreeID := worktreeID, jPrompt := prompt,
                              jStatus := JobStatusQueued, jCreatedAt := now\<rparr>) p
      in addThread (Submitting j) (newStream uid 100 (registerJob j (applyOptions j opts p1))))"

definition SubmitCached ::
  "string \<Rightarrow> time \<Rightarrow> JobType \<Rightarrow> string \<Rightarrow> string \<Rightarrow> string \<Rightarrow> JobOptions option \<Rightarrow> Pool \<Rightarrow> Pool" where
  "SubmitCached uid now jobType worktreeID prompt cachedResult opts p =
     (let (j, p1) = newJob (zeroJob\<lparr>jID := uid, jType := jobType, jWorktreeID := worktreeID, jPrompt := prompt,
                              jStatus := JobStatusDone, jCreatedAt := now, jStartedAt := Some now,
                              jCompletedAt := Some now, jResult := cachedResult\<rparr>) p;
          p2 = newStream uid 10 (registerJob j (setMeta j ''cached'' (MetaBool True) (applyOptions j opts p1)));
          ch = pNextChan p2 - 1;
          p3 = send ch (event EventJobCompleted uid ''Job completed'')
                 (send ch (event ''complete'' uid []) (send ch (event ''stream'' uid cachedResult) p2))
      in p3\<lparr>pChans := (pChans p3)(ch := (pChans p3 ch)\<lparr>stClosed := True\<rparr>)\<rparr>)"

definition GetJob :: "Pool \<Rightarrow> string \<Rightarrow> jref option" where
  "GetJob p jobID = map_of (pJobs p) jobID"

definition StreamOf :: "Pool \<Rightarrow> string \<Rightarrow> nat option" where
  "StreamOf p jobID = pStreams p jobID"

section \<open>Assigning\<close>

text \<open>
  The scan over the workers in the order of iteration: the worker that is taken at once, if any, and
  the first available one that only has the wrong agent.
\<close>

fun scanWorkers :: "(nat \<Rightarrow> bool) \<Rightarrow> string \<Rightarrow> (wref \<Rightarrow> Worker) \<Rightarrow> wref list \<Rightarrow> wref option \<Rightarrow> wref option \<times> wref option" where
  "scanWorkers connected preferred store [] fallback = (None, fallback)"
| "scanWorkers connected preferred store (w # ws) fallback =
     (if wStatus (store w) = StatusAvailable
      then (case wAgent (store w) of
              Some a \<Rightarrow>
                if connected a
                then (if preferred \<noteq> [] \<and> wAgentName (store w) \<noteq> preferred
                      then scanWorkers connected preferred store ws (if fallback = None then Some w else fallback)
                      else (Some w, fallback))
                else scanWorkers connected preferred store ws fallback
            | None \<Rightarrow> (Some w, fallback))
      else scanWorkers connected preferred store ws fallback)"

definition preferredAgent :: "Pool \<Rightarrow> jref \<Rightarrow> string" where
  "preferredAgent p j = (case metaOf p j ''agent_override'' of Some (MetaString v) \<Rightarrow> v | _ \<Rightarrow> [])"

definition chooseWorker :: "(nat \<Rightarrow> bool) \<Rightarrow> (nat \<Rightarrow> bool) \<Rightarrow> wref list \<Rightarrow> jref \<Rightarrow> Pool \<Rightarrow> (wref \<times> bool) option" where
  "chooseWorker connected connected' ws j p =
     (case scanWorkers connected (preferredAgent p j) (pWorkerStore p) ws None of
        (Some w, _) \<Rightarrow> Some (w, False)
      | (None, Some w) \<Rightarrow>
          (case wAgent (pWorkerStore p w) of
             Some a \<Rightarrow> if connected' a then Some (w, True) else None
           | None \<Rightarrow> None)
      | (None, None) \<Rightarrow> None)"

definition simulatedMessages :: "Job \<Rightarrow> string list" where
  "simulatedMessages job =
     [''Starting '' @ jType job @ '' job...'', ''Analyzing task requirements...'', ''Processing...'', ''Generating output...'']"

definition assignedText :: "Worker \<Rightarrow> bool \<Rightarrow> string \<Rightarrow> string" where
  "assignedText wk fellBack preferred =
     ''Job assigned to worker '' @ wID wk @
     (case wAgent wk of
        None \<Rightarrow> []
      | Some _ \<Rightarrow> '' ('' @ wAgentName wk @ (if fellBack then '', preferred '' @ preferred @ '' unavailable'' else []) @ '')'')"

definition startOn :: "wref \<Rightarrow> bool \<Rightarrow> time \<Rightarrow> jref \<Rightarrow> Pool \<Rightarrow> Pool" where
  "startOn w fellBack now j p =
     (let job = pJobStore p j; wk = pWorkerStore p w; ctx = pNextCtx p;
          p1 = updJob j (\<lambda>job. job\<lparr>jStatus := JobStatusInProgress, jWorkerID := wID wk, jStartedAt := Some now\<rparr>)
                 (updWorker w (\<lambda>wk. wk\<lparr>wStatus := StatusWorking, wCurrentJob := jID job\<rparr>) p);
          p2 = p1\<lparr>pJobCancels := (pJobCancels p1)(jID job \<mapsto> ctx), pNextCtx := ctx + 1\<rparr>
      in addThread (case wAgent wk of Some _ \<Rightarrow> Starting j w ctx | None \<Rightarrow> Simulating j w ctx (simulatedMessages job))
           (emitEvent (jID job) (event ''job_started'' (jID job) (assignedText wk fellBack (preferredAgent p j))) p2))"

definition dryRunResult :: "Job \<Rightarrow> string" where
  "dryRunResult job = ''[dry-run] Phase would execute. Prompt: '' @ decimal (length (jPrompt job)) @ '' chars''"

text \<open>The first critical section of \<^verbatim>\<open>executeDryRunJob\<close>, and the second with what follows it.\<close>

definition startDryRun :: "time \<Rightarrow> jref \<Rightarrow> Pool \<Rightarrow> Pool" where
  "startDryRun now j p =
     (let p1 = updJob j (\<lambda>job. job\<lparr>jStatus := JobStatusInProgress, jStartedAt := Some now\<rparr>) p; job = pJobStore p j
      in (emitEvent (jID job) (event ''job_output'' (jID job) (dryRunResult job)) p1)\<lparr>pDispatcher := DryRunning j\<rparr>)"

definition finishDryRun :: "time \<Rightarrow> jref \<Rightarrow> Pool \<Rightarrow> Pool" where
  "finishDryRun now j p =
     (let job = pJobStore p j
      in (updJob j (\<lambda>job. job\<lparr>jStatus := JobStatusDone, jCompletedAt := Some now, jResult := dryRunResult job\<rparr>) p)\<lparr>
           pDispatcher := DispatcherClosing
             (OpEmitEvent (jID job) (event EventJobCompleted (jID job) (dryRunResult job)) # closeStream (jID job))\<rparr>)"

definition assignJob :: "(nat \<Rightarrow> bool) \<Rightarrow> (nat \<Rightarrow> bool) \<Rightarrow> wref list \<Rightarrow> time \<Rightarrow> jref \<Rightarrow> Pool \<Rightarrow> Pool" where
  "assignJob connected connected' ws now j p =
     (if jType (pJobStore p j) = JobTypeDryRun then startDryRun now j p
      else (case chooseWorker connected connected' ws j p of
              Some (w, fellBack) \<Rightarrow> startOn w fellBack now j p
            | None \<Rightarrow> addThread (Requeueing j) p))"

section \<open>Executing\<close>

definition releaseWorker :: "wref \<Rightarrow> Pool \<Rightarrow> Pool" where
  "releaseWorker w p = updWorker w (\<lambda>wk. wk\<lparr>wStatus := StatusAvailable, wCurrentJob := []\<rparr>) p"

definition failJob :: "time \<Rightarrow> string \<Rightarrow> jref \<Rightarrow> wref \<Rightarrow> Pool \<Rightarrow> Pool" where
  "failJob now err j w p =
     updJob j (\<lambda>job. job\<lparr>jStatus := JobStatusFailed, jCompletedAt := Some now, jError := err\<rparr>) (releaseWorker w p)"

definition completeJob :: "time \<Rightarrow> string \<Rightarrow> jref \<Rightarrow> wref \<Rightarrow> Pool \<Rightarrow> Pool" where
  "completeJob now result j w p =
     updJob j (\<lambda>job. job\<lparr>jStatus := JobStatusDone, jCompletedAt := Some now, jResult := result\<rparr>) (releaseWorker w p)"

record AgentEvent =
  aeType :: string
  aeContent :: string
  aeError :: string
  aeData :: "Meta option"

definition EventStream :: string where "EventStream = ''stream''"
definition EventAssistant :: string where "EventAssistant = ''assistant''"
definition EventComplete :: string where "EventComplete = ''complete''"
definition EventError :: string where "EventError = ''error''"

text \<open>What has been read from the agent: the deltas, the last full message, and whether a delta came.\<close>

type_synonym Reading = "string \<times> string \<times> bool"

fun accumulate :: "AgentEvent \<Rightarrow> Reading \<Rightarrow> Reading" where
  "accumulate e (result, fallback, streamed) =
     (if aeType e = EventStream \<and> aeContent e \<noteq> [] then (result @ aeContent e, fallback, True)
      else if aeType e = EventAssistant \<and> aeContent e \<noteq> [] then (result, aeContent e, streamed)
      else (result, fallback, streamed))"

fun finalText :: "Reading \<Rightarrow> string" where
  "finalText (result, fallback, streamed) = (if \<not> streamed \<and> fallback \<noteq> [] then result @ fallback else result)"

definition tokenKeys :: "string list" where
  "tokenKeys = [''input_tokens'', ''output_tokens'', ''total_tokens'']"

definition captureTokens :: "jref \<Rightarrow> Meta option \<Rightarrow> Pool \<Rightarrow> Pool" where
  "captureTokens j dat p =
     (case dat of
        None \<Rightarrow> p
      | Some d \<Rightarrow>
          fold (\<lambda>k p. case d k of None \<Rightarrow> p | Some v \<Rightarrow> setMeta j k v p) tokenKeys
            (case jMetadata (pJobStore p j) of
               Some _ \<Rightarrow> p
             | None \<Rightarrow> (updJob j (\<lambda>job. job\<lparr>jMetadata := Some (pNextMeta p)\<rparr>) p)\<lparr>
                          pMetaStore := (pMetaStore p)(pNextMeta p := (\<lambda>_. None)), pNextMeta := pNextMeta p + 1\<rparr>))"

text \<open>One event of the agent, as the loop of \<^verbatim>\<open>executeWithAgent\<close> handles it.\<close>

definition agentEvent :: "nat \<Rightarrow> time \<Rightarrow> AgentEvent \<Rightarrow> jref \<Rightarrow> wref \<Rightarrow> nat \<Rightarrow> Reading \<Rightarrow> Pool \<Rightarrow> Pool" where
  "agentEvent i now e j w ctx rd p =
     (let job = pJobStore p j;
          p1 = emitEvent (jID job) \<lparr>evType = aeType e, evJobID = jID job, evContent = aeContent e, evData = aeData e\<rparr> p;
          rd' = accumulate e rd
      in if aeType e = EventComplete
         then putThreads i [Closing (OpEmitEvent (jID job) (event EventJobCompleted (jID job) ''Job completed'') # closeStream (jID job))]
                (captureTokens j (aeData e) (completeJob now (finalText rd') j w p1))
         else if aeType e = EventError
         then (let err = (if aeError e = [] then aeContent e else aeError e)
               in putThreads i [Closing (OpEmitEvent (jID job) (event EventJobFailed (jID job) err) # closeStream (jID job))]
                    (failJob now err j w p1))
         else (case rd' of (r, f, b) \<Rightarrow> putThreads i [Streaming j w ctx r f b] p1))"

text \<open>The agent closed its channel without a completion event.\<close>

definition agentClosed :: "nat \<Rightarrow> time \<Rightarrow> jref \<Rightarrow> wref \<Rightarrow> Reading \<Rightarrow> Pool \<Rightarrow> Pool" where
  "agentClosed i now j w rd p =
     (let job = pJobStore p j
      in putThreads i [Closing (OpEmitEvent (jID job) (event EventJobCompleted (jID job) ''Job completed'') # closeStream (jID job))]
           (if jStatus job = JobStatusInProgress then completeJob now (finalText rd) j w p else releaseWorker w p))"

definition simulatedResult :: "Job \<Rightarrow> string" where
  "simulatedResult job = ''Simulated '' @ jType job @ '' result for: '' @ take 50 (jPrompt job)"

section \<open>Cancelling, removing and listing\<close>

definition CancelJob :: "time \<Rightarrow> string \<Rightarrow> Pool \<Rightarrow> string option \<times> Pool" where
  "CancelJob now jobID p =
     (case map_of (pJobs p) jobID of
        None \<Rightarrow> (Some (''cancel job: job '' @ jobID @ '' not found''), p)
      | Some j \<Rightarrow>
          if jStatus (pJobStore p j) = JobStatusDone \<or> jStatus (pJobStore p j) = JobStatusFailed then (None, p)
          else
            let p1 = (case pJobCancels p jobID of None \<Rightarrow> p | Some ctx \<Rightarrow> p\<lparr>pCancelled := (pCancelled p)(ctx := True)\<rparr>);
                p2 = updJob j (\<lambda>job. job\<lparr>jStatus := JobStatusFailed, jCompletedAt := Some now, jError := ''cancelled''\<rparr>) p1;
                wid = jWorkerID (pJobStore p j)
            in (None, if wid = [] then p2
                      else (case map_of (pWorkers p2) wid of None \<Rightarrow> p2 | Some w \<Rightarrow> releaseWorker w p2)))"

text \<open>The agent that is told to abort its turn, if any.\<close>

definition InterruptJob :: "Pool \<Rightarrow> string \<Rightarrow> nat option" where
  "InterruptJob p jobID =
     (case map_of (pJobs p) jobID of
        None \<Rightarrow> None
      | Some j \<Rightarrow>
          if jStatus (pJobStore p j) \<noteq> JobStatusInProgress \<or> jWorkerID (pJobStore p j) = [] then None
          else (case map_of (pWorkers p) (jWorkerID (pJobStore p j)) of
                  None \<Rightarrow> None | Some w \<Rightarrow> wAgent (pWorkerStore p w)))"

definition RemoveJob :: "string \<Rightarrow> Pool \<Rightarrow> Pool" where
  "RemoveJob jobID p =
     (case map_of (pJobs p) jobID of
        None \<Rightarrow> p
      | Some j \<Rightarrow>
          if jStatus (pJobStore p j) \<noteq> JobStatusDone \<and> jStatus (pJobStore p j) \<noteq> JobStatusFailed then p
          else p\<lparr>pJobs := AList.delete jobID (pJobs p), pJobCancels := (pJobCancels p)(jobID := None)\<rparr>)"

definition ListJobs :: "Pool \<Rightarrow> Job list" where
  "ListJobs p = sort_key jCreatedAt (map (\<lambda>(_, j). pJobStore p j) (pJobs p))"

definition ListQueuedJobs :: "Pool \<Rightarrow> Job list" where
  "ListQueuedJobs p = sort_key jCreatedAt
     (filter (\<lambda>job. jStatus job = JobStatusQueued \<or> jStatus job = JobStatusInProgress)
       (map (\<lambda>(_, j). pJobStore p j) (pJobs p)))"

record PoolStats =
  psTotalWorkers :: nat
  psAvailableWorkers :: nat
  psWorkingWorkers :: nat
  psQueuedJobs :: nat
  psInProgressJobs :: nat
  psCompletedJobs :: nat
  psFailedJobs :: nat

definition shownStatus :: "(nat \<Rightarrow> bool) \<Rightarrow> Worker \<Rightarrow> WorkerStatus" where
  "shownStatus connected wk =
     (case wAgent wk of Some a \<Rightarrow> if connected a then wStatus wk else StatusDisconnected | None \<Rightarrow> wStatus wk)"

definition Stats :: "(nat \<Rightarrow> bool) \<Rightarrow> Pool \<Rightarrow> PoolStats" where
  "Stats connected p =
     (let ws = map (\<lambda>(_, w). shownStatus connected (pWorkerStore p w)) (pWorkers p);
          js = map (\<lambda>(_, j). jStatus (pJobStore p j)) (pJobs p)
      in \<lparr>psTotalWorkers = length (pWorkers p), psAvailableWorkers = count_list ws StatusAvailable,
          psWorkingWorkers = count_list ws StatusWorking, psQueuedJobs = count_list js JobStatusQueued,
          psInProgressJobs = count_list js JobStatusInProgress, psCompletedJobs = count_list js JobStatusDone,
          psFailedJobs = count_list js JobStatusFailed\<rparr>)"

section \<open>Workers\<close>

definition newWorker :: "Worker \<Rightarrow> Pool \<Rightarrow> Pool" where
  "newWorker wk p = p\<lparr>pWorkerStore := (pWorkerStore p)(pNextWorker p := wk), pNextWorker := pNextWorker p + 1,
     pWorkers := AList.update (wID wk) (pNextWorker p) (pWorkers p)\<rparr>"

definition AddWorker :: "string \<Rightarrow> time \<Rightarrow> Pool \<Rightarrow> Pool option" where
  "AddWorker uid now p =
     (if int (length (pWorkers p)) \<ge> pMaxWorkers p then None
      else Some (newWorker (zeroWorker\<lparr>wID := ''w-'' @ uid, wStartedAt := now\<rparr>) p))"

definition AddWorkerWithAgent :: "string \<Rightarrow> string \<Rightarrow> time \<Rightarrow> Pool \<Rightarrow> Pool option" where
  "AddWorkerWithAgent agentName uid now p =
     (if int (length (pWorkers p)) \<ge> pMaxWorkers p then None
      else Some (newWorker (zeroWorker\<lparr>wID := ''w-'' @ uid, wAgentName := agentName, wStartedAt := now\<rparr>) p))"

definition AddDefaultWorker :: "string \<Rightarrow> time \<Rightarrow> Pool \<Rightarrow> Pool" where
  "AddDefaultWorker agentName now p =
     newWorker (zeroWorker\<lparr>wID := ''default'', wAgentName := agentName, wStartedAt := now, wIsDefault := True\<rparr>) p"

fun joinSpace :: "string list \<Rightarrow> string" where
  "joinSpace [] = []"
| "joinSpace [x] = x"
| "joinSpace (x # y # ys) = x @ '' '' @ joinSpace (y # ys)"

text \<open>
  \<^verbatim>\<open>AddAgentWorker\<close> up to its second critical section: the limit is checked in the first one, and
  the registry and the connection (whose outcome is \<open>answer\<close>: an error, or the agent and its name)
  come in between.
\<close>

definition beginAgentWorker :: "string \<Rightarrow> bool \<Rightarrow> (string + nat \<times> string) \<Rightarrow> Pool \<Rightarrow> Pool result" where
  "beginAgentWorker agentName isDefault answer p =
     (if int (length (pWorkers p)) \<ge> pMaxWorkers p
      then Inl (''max workers ('' @ format_int (pMaxWorkers p) @ '') reached'')
      else if agentName \<noteq> [] \<and> pAllowedAgents p \<noteq> [] \<and> agentName \<notin> set (pAllowedAgents p)
      then Inl (''agent \"'' @ agentName @ ''\" is not in the allowed list (allowed: ['' @ joinSpace (pAllowedAgents p) @ ''])'')
      else (case answer of
              Inl err \<Rightarrow> Inl err
            | Inr (a, name) \<Rightarrow> Inr (addThread (Adding a name isDefault) p)))"

definition endAgentWorker :: "string \<Rightarrow> time \<Rightarrow> nat \<Rightarrow> string \<Rightarrow> bool \<Rightarrow> Pool \<Rightarrow> Pool" where
  "endAgentWorker uid now a name isDefault p =
     newWorker (zeroWorker\<lparr>wID := (if isDefault then ''default'' else ''ag-'' @ uid), wStartedAt := now,
       wAgentName := name, wAgent := Some a, wIsDefault := isDefault\<rparr>) p"

definition RemoveWorker :: "string \<Rightarrow> Pool \<Rightarrow> string option \<times> Pool" where
  "RemoveWorker i p =
     (case map_of (pWorkers p) i of
        None \<Rightarrow> (Some (''worker '' @ i @ '' not found''), p)
      | Some w \<Rightarrow>
          if wIsDefault (pWorkerStore p w) then (Some ''cannot remove default worker'', p)
          else (None, p\<lparr>pWorkers := AList.delete i (pWorkers p)\<rparr>))"

definition refreshStatus :: "(nat \<Rightarrow> bool) \<Rightarrow> Worker \<Rightarrow> Worker" where
  "refreshStatus connected wk =
     (case wAgent wk of
        None \<Rightarrow> wk
      | Some a \<Rightarrow>
          if connected a \<and> wStatus wk = StatusDisconnected then wk\<lparr>wStatus := StatusAvailable\<rparr>
          else if \<not> connected a \<and> wStatus wk \<noteq> StatusDisconnected then wk\<lparr>wStatus := StatusDisconnected\<rparr>
          else wk)"

definition ListWorkers :: "(nat \<Rightarrow> bool) \<Rightarrow> Pool \<Rightarrow> Worker list \<times> Pool" where
  "ListWorkers connected p =
     (let p1 = fold (\<lambda>w. updWorker w (refreshStatus connected)) (map snd (pWorkers p)) p
      in (sort_key wID (map (\<lambda>(_, w). pWorkerStore p1 w) (pWorkers p1)), p1))"

section \<open>Steps\<close>

text \<open>
  The steps of the pool. Identifiers drawn by \<^verbatim>\<open>uuid.New\<close> are fresh. A number selects a goroutine.
  \<^item> \<open>DoSubmit\<close>, \<open>DoSubmitCached\<close>, \<open>DoCancel\<close>, \<open>DoRemoveJob\<close>, \<open>DoAdd\<close>, \<open>DoAddDefault\<close>,
    \<open>DoBeginAgent\<close>, \<open>DoRemoveWorker\<close>, \<open>DoList\<close>, \<open>DoStop\<close>: a call of the pool;
  \<^item> \<open>Dispatch\<close>, \<open>DispatcherStep\<close>: the dispatcher takes a job (it may do so even after a stop, as long
    as its select has not chosen the cancelled context), or goes on with a dry run;
  \<^item> \<open>Go\<close>: a goroutine makes its next own step: the blocking send into the queue (possible when there
    is room), the next simulated message or the simulated completion, the next closing call, the
    insertion of an agent worker;
  \<^item> \<open>Quit\<close>: a goroutine sees its context cancelled;
  \<^item> \<open>AgentReady\<close>, \<open>AgentRefused\<close>, \<open>AgentSays\<close>, \<open>AgentDone\<close>, \<open>Panics\<close>: what happens at the
    agent: the prompt was sent (with the path of the recording, if any), connecting or sending
    failed (the latter with the path of the recording, if any), an event, the end of its channel, a panic that the goroutine recovers.
\<close>

datatype PoolAction =
    DoSubmit string time JobType string string "JobOptions option"
  | DoSubmitCached string time JobType string string string "JobOptions option"
  | DoCancel time string
  | DoRemoveJob string
  | DoAdd string string time
  | DoAddDefault string time
  | DoBeginAgent string bool "string + nat \<times> string"
  | DoRemoveWorker string
  | DoList "nat \<Rightarrow> bool"
  | DoStop
  | Dispatch "nat \<Rightarrow> bool" "nat \<Rightarrow> bool" "wref list" time
  | DispatcherStep time
  | Go nat string time
  | Quit nat
  | AgentReady nat "string option"
  | AgentRefused nat bool "string option" string time
  | AgentSays nat AgentEvent time
  | AgentDone nat time
  | Panics nat string time

definition freshID :: "string \<Rightarrow> Pool \<Rightarrow> bool" where
  "freshID uid p \<longleftrightarrow> list_all (\<lambda>j. jID (pJobStore p j) \<noteq> uid) [0 ..< pNextJob p]"

definition closingThread :: "PoolOp list \<Rightarrow> PoolThread list" where
  "closingThread ops = (case ops of [] \<Rightarrow> [] | _ \<Rightarrow> [Closing ops])"

definition goThread :: "nat \<Rightarrow> string \<Rightarrow> time \<Rightarrow> Pool \<Rightarrow> Pool option" where
  "goThread i uid now p =
     (case pThreads p ! i of
        Submitting j \<Rightarrow> if length (pQueue p) < QueueCapacity then Some (putThreads i [] (p\<lparr>pQueue := pQueue p @ [j]\<rparr>)) else None
      | Requeueing j \<Rightarrow> if length (pQueue p) < QueueCapacity then Some (putThreads i [] (p\<lparr>pQueue := pQueue p @ [j]\<rparr>)) else None
      | Simulating j w ctx (m # ms) \<Rightarrow>
          Some (putThreads i [Simulating j w ctx ms]
                 (emitEvent (jID (pJobStore p j)) (event ''stream'' (jID (pJobStore p j)) m) p))
      | Simulating j w ctx [] \<Rightarrow>
          (let job = pJobStore p j
           in Some (putThreads i [Closing (OpEmitEvent (jID job) (event EventJobCompleted (jID job) ''Job completed'') # closeStream (jID job))]
                     (completeJob now (simulatedResult job) j w p)))
      | Closing (op # ops) \<Rightarrow> Some (applyPoolOp op (putThreads i (closingThread ops) p))
      | Adding a name isDefault \<Rightarrow> Some (endAgentWorker uid now a name isDefault (putThreads i [] p))
      | _ \<Rightarrow> None)"

definition quitThread :: "nat \<Rightarrow> Pool \<Rightarrow> Pool option" where
  "quitThread i p =
     (case pThreads p ! i of
        Submitting j \<Rightarrow> if pStopped p then Some (putThreads i [] p) else None
      | Requeueing j \<Rightarrow> if pStopped p then Some (putThreads i [] p) else None
      | Simulating j w ctx (m # ms) \<Rightarrow> if pStopped p \<or> pCancelled p ctx then Some (putThreads i [] p) else None
      | _ \<Rightarrow> None)"

definition panicked :: "nat \<Rightarrow> string \<Rightarrow> time \<Rightarrow> jref \<Rightarrow> wref \<Rightarrow> Pool \<Rightarrow> Pool" where
  "panicked i msg now j w p =
     putThreads i [Closing (closeStream (jID (pJobStore p j)))] (failJob now (''panic: '' @ msg) j w p)"

text \<open>The recording of a job, when it is enabled and its file could be made, is noted in the metadata.\<close>

definition recordPath :: "string option \<Rightarrow> jref \<Rightarrow> Pool \<Rightarrow> Pool" where
  "recordPath recording j p =
     (case recording of None \<Rightarrow> p | Some path \<Rightarrow> setMeta j ''recording_path'' (MetaString path) p)"

definition agentReady :: "nat \<Rightarrow> string option \<Rightarrow> jref \<Rightarrow> wref \<Rightarrow> nat \<Rightarrow> Pool \<Rightarrow> Pool" where
  "agentReady i recording j w ctx p =
     putThreads i [Streaming j w ctx [] [] False] (recordPath recording j p)"

definition agentRefused :: "nat \<Rightarrow> bool \<Rightarrow> string option \<Rightarrow> string \<Rightarrow> time \<Rightarrow> jref \<Rightarrow> wref \<Rightarrow> Pool \<Rightarrow> Pool" where
  "agentRefused i connecting recording err now j w p =
     (let jid = jID (pJobStore p j)
      in putThreads i [Closing (closeStream jid)]
           (failJob now err j w
             (emitEvent jid (event EventJobFailed jid (if connecting then ''agent connect failed: '' @ err else err))
               (recordPath recording j p))))"

definition agentThread :: "PoolAction \<Rightarrow> Pool \<Rightarrow> Pool option" where
  "agentThread a p =
     (case a of
        AgentReady i recording \<Rightarrow>
          (case pThreads p ! i of Starting j w ctx \<Rightarrow> Some (agentReady i recording j w ctx p) | _ \<Rightarrow> None)
      | AgentRefused i connecting recording err now \<Rightarrow>
          (case pThreads p ! i of
             Starting j w ctx \<Rightarrow>
               if connecting \<and> (jWorkDir (pJobStore p j) = [] \<or> recording \<noteq> None) then None
               else Some (agentRefused i connecting recording err now j w p)
           | _ \<Rightarrow> None)
      | AgentSays i e now \<Rightarrow>
          (case pThreads p ! i of Streaming j w ctx r f b \<Rightarrow> Some (agentEvent i now e j w ctx (r, f, b) p) | _ \<Rightarrow> None)
      | AgentDone i now \<Rightarrow>
          (case pThreads p ! i of Streaming j w ctx r f b \<Rightarrow> Some (agentClosed i now j w (r, f, b) p) | _ \<Rightarrow> None)
      | Panics i msg now \<Rightarrow>
          (case pThreads p ! i of
             Starting j w _ \<Rightarrow> Some (panicked i msg now j w p)
           | Streaming j w _ _ _ _ \<Rightarrow> Some (panicked i msg now j w p)
           | Simulating j w _ _ \<Rightarrow> Some (panicked i msg now j w p)
           | _ \<Rightarrow> None)
      | _ \<Rightarrow> None)"

fun threadOf :: "PoolAction \<Rightarrow> nat option" where
  "threadOf (Go i _ _) = Some i"
| "threadOf (Quit i) = Some i"
| "threadOf (AgentReady i _) = Some i"
| "threadOf (AgentRefused i _ _ _ _) = Some i"
| "threadOf (AgentSays i _ _) = Some i"
| "threadOf (AgentDone i _) = Some i"
| "threadOf (Panics i _ _) = Some i"
| "threadOf _ = None"

definition dispatcherStep :: "time \<Rightarrow> Pool \<Rightarrow> Pool option" where
  "dispatcherStep now p =
     (case pDispatcher p of
        Idle \<Rightarrow> None
      | DryRunning j \<Rightarrow> Some (finishDryRun now j p)
      | DispatcherClosing [] \<Rightarrow> Some (p\<lparr>pDispatcher := Idle\<rparr>)
      | DispatcherClosing (op # ops) \<Rightarrow> Some (applyPoolOp op (p\<lparr>pDispatcher := DispatcherClosing ops\<rparr>)))"

text \<open>The dispatcher ranges over the map of workers in an order \<open>ws\<close> that the language leaves open.\<close>

definition dispatch :: "(nat \<Rightarrow> bool) \<Rightarrow> (nat \<Rightarrow> bool) \<Rightarrow> wref list \<Rightarrow> time \<Rightarrow> Pool \<Rightarrow> Pool option" where
  "dispatch connected connected' ws now p =
     (case pDispatcher p of
        Idle \<Rightarrow>
          (case pQueue p of
             [] \<Rightarrow> None
           | j # js \<Rightarrow>
               if sort ws = sort (map snd (pWorkers p))
               then Some (assignJob connected connected' ws now j (p\<lparr>pQueue := js\<rparr>)) else None)
      | _ \<Rightarrow> None)"

definition poolExec :: "PoolAction \<Rightarrow> Pool \<Rightarrow> Pool option" where
  "poolExec a p =
     (case a of
        DoSubmit uid now t wt prompt opts \<Rightarrow>
          if freshID uid p then Some (SubmitWithOptions uid now t wt prompt opts p) else None
      | DoSubmitCached uid now t wt prompt res opts \<Rightarrow>
          if freshID uid p then Some (SubmitCached uid now t wt prompt res opts p) else None
      | DoCancel now jobID \<Rightarrow> Some (snd (CancelJob now jobID p))
      | DoRemoveJob jobID \<Rightarrow> Some (RemoveJob jobID p)
      | DoAdd name uid now \<Rightarrow> Some (case AddWorkerWithAgent name uid now p of None \<Rightarrow> p | Some p' \<Rightarrow> p')
      | DoAddDefault name now \<Rightarrow> Some (AddDefaultWorker name now p)
      | DoBeginAgent name isDefault answer \<Rightarrow>
          Some (case beginAgentWorker name isDefault answer p of Inl _ \<Rightarrow> p | Inr p' \<Rightarrow> p')
      | DoRemoveWorker i \<Rightarrow> Some (snd (RemoveWorker i p))
      | DoList connected \<Rightarrow> Some (snd (ListWorkers connected p))
      | DoStop \<Rightarrow> Some (p\<lparr>pStopped := True\<rparr>)
      | Dispatch connected connected' ws now \<Rightarrow> dispatch connected connected' ws now p
      | DispatcherStep now \<Rightarrow> dispatcherStep now p
      | _ \<Rightarrow>
          (case threadOf a of
             None \<Rightarrow> None
           | Some i \<Rightarrow>
               if i \<ge> length (pThreads p) then None
               else (case a of
                       Go _ uid now \<Rightarrow> goThread i uid now p
                     | Quit _ \<Rightarrow> quitThread i p
                     | _ \<Rightarrow> agentThread a p)))"

definition pool_init :: "Pool \<Rightarrow> bool" where
  "pool_init p \<longleftrightarrow> (\<exists>n allowed nextMeta metas. p = NewPool n allowed nextMeta metas)"

definition pool_step :: "Pool \<Rightarrow> Pool \<Rightarrow> bool" where
  "pool_step p p' \<longleftrightarrow> (\<exists>a. poolExec a p = Some p')"

fun runPool :: "PoolAction list \<Rightarrow> Pool \<Rightarrow> Pool option" where
  "runPool [] p = Some p"
| "runPool (a # as) p = (case poolExec a p of None \<Rightarrow> None | Some p' \<Rightarrow> runPool as p')"

end
