(* ===== verification/Graph_Parse.thy ===== *)
theory Graph_Parse
  imports Graph_Validation Worker_Pool Go_Text
begin

text \<open>
  Graph definition files (src/internal/graph/parse.go): the records that a YAML file is decoded into, the
  construction of a graph from them, and the expansion of variables in prompts. Decoding YAML and reading
  files are parameters.
\<close>

section \<open>Definitions\<close>

record NodeDef =
  ndID :: string
  ndLabel :: string
  ndJobType :: string
  ndPrompt :: string
  ndDependsOn :: "string list"
  ndFrozen :: bool
  ndFailBranch :: string
  ndMaxIterations :: int
  ndErrorStrategy :: string
  ndDefaultOutput :: string
  ndMaxRetries :: int
  ndRetryDelay :: duration
  ndRequiresApproval :: bool
  ndApprovalPrompt :: string
  ndApprovalTimeout :: duration
  ndSubTask :: "SubTaskConfig option"

record GraphDef =
  gdPhase :: string
  gdNodes :: "NodeDef list"

definition resolveJobType :: "string \<Rightarrow> JobType" where
  "resolveJobType s =
     (let l = toLower s
      in if l \<in> {''plan'', ''implement'', ''review'', ''simplify'', ''optimize''} then l
         else if l = JobTypeDryRun \<or> l = ''dryrun'' then JobTypeDryRun
         else s)"

definition resolveErrorStrategy :: "string \<Rightarrow> ErrorStrategy" where
  "resolveErrorStrategy s =
     (let l = toLower s
      in if l = ''default_value'' then ErrorDefaultValue
         else if l = ''retry_then_fail'' then ErrorRetryThenFail
         else ErrorFail)"

text \<open>The node that the loop of \<^verbatim>\<open>BuildFromDef\<close> makes from one entry.\<close>

definition nodeFromDef :: "NodeDef \<Rightarrow> Node" where
  "nodeFromDef nd = zeroNode\<lparr>nID := ndID nd,
     nLabel := (if ndLabel nd = [] then ndID nd else ndLabel nd),
     nJobType := resolveJobType (ndJobType nd), nPrompt := ndPrompt nd, nFrozen := ndFrozen nd,
     nMaxIterations := ndMaxIterations nd, nDefaultOutput := ndDefaultOutput nd, nMaxRetries := ndMaxRetries nd,
     nRetryDelay := ndRetryDelay nd, nSubTask := ndSubTask nd, nDependsOn := ndDependsOn nd,
     nFailBranch := (if ndFailBranch nd = [] then None else Some (ndFailBranch nd)),
     nErrorStrategy := resolveErrorStrategy (ndErrorStrategy nd),
     nIterationCheck := (if ndMaxIterations nd > 0 then Some (\<lambda>_. True) else None),
     nRequiresApproval := ndRequiresApproval nd, nApprovalPrompt := ndApprovalPrompt nd,
     nApprovalTimeout := ndApprovalTimeout nd\<rparr>"

datatype BuildError =
    ParseYaml string
  | ReadFile string
  | NoNodes
  | NodeWithoutID nat
  | AddFailed string GraphError
  | ValidateFailed GraphError

fun addNodes :: "nat \<Rightarrow> NodeDef list \<Rightarrow> Graph \<Rightarrow> BuildError + Graph" where
  "addNodes i [] g = Inr g"
| "addNodes i (nd # nds) g =
     (if ndID nd = [] then Inl (NodeWithoutID i)
      else (case AddNode (nodeFromDef nd) g of
              Inl err \<Rightarrow> Inl (AddFailed (ndID nd) err)
            | Inr g' \<Rightarrow> addNodes (i + 1) nds g'))"

definition BuildFromDef :: "GraphDef \<Rightarrow> BuildError + Graph" where
  "BuildFromDef def =
     (if gdNodes def = [] then Inl NoNodes
      else (case addNodes 0 (gdNodes def) NewGraph of
              Inl err \<Rightarrow> Inl err
            | Inr g \<Rightarrow> (case Validate g of Inl err \<Rightarrow> Inl (ValidateFailed err) | Inr g' \<Rightarrow> Inr g')))"

definition ParseGraphDef :: "(string \<Rightarrow> string + GraphDef) \<Rightarrow> string \<Rightarrow> BuildError + Graph" where
  "ParseGraphDef unmarshal data =
     (case unmarshal data of Inl err \<Rightarrow> Inl (ParseYaml err) | Inr def \<Rightarrow> BuildFromDef def)"

definition ParseGraphDefFile ::
  "(string \<Rightarrow> string + string) \<Rightarrow> (string \<Rightarrow> string + GraphDef) \<Rightarrow> string \<Rightarrow> BuildError + Graph" where
  "ParseGraphDefFile readFile unmarshal path =
     (case readFile path of Inl err \<Rightarrow> Inl (ReadFile err) | Inr data \<Rightarrow> ParseGraphDef unmarshal data)"

definition placeholder :: "string \<Rightarrow> string" where
  "placeholder k = ''{{'' @ k @ ''}}''"

text \<open>The loop over the map of variables; the list is the order in which the map is iterated.\<close>

definition expandVars :: "(string, string) gomap \<Rightarrow> string \<Rightarrow> string" where
  "expandVars vars s = fold (\<lambda>(k, v) s. replaceAll (placeholder k) v s) vars s"

definition ExpandPromptVars :: "(string, string) gomap \<Rightarrow> Graph \<Rightarrow> Graph" where
  "ExpandPromptVars vars g =
     g\<lparr>gNodes := map (\<lambda>(i, node). (i, node\<lparr>nPrompt := expandVars vars (nPrompt node)\<rparr>)) (gNodes g)\<rparr>"

section \<open>Building a graph\<close>

lemma update_absent: "map_of m k = None \<Longrightarrow> AList.update k v m = m @ [(k, v)]"
  by (induction m) (auto split: if_splits)

definition bad :: "NodeDef list \<Rightarrow> nat \<Rightarrow> bool" where
  "bad nds i \<longleftrightarrow> ndID (nds ! i) = [] \<or> ndID (nds ! i) \<in> ndID ` set (take i nds)"

definition entries :: "NodeDef list \<Rightarrow> (NodeID, Node) gomap" where
  "entries nds = map (\<lambda>nd. (ndID nd, nodeFromDef nd)) nds"

lemma nID_nodeFromDef [simp]: "nID (nodeFromDef nd) = ndID nd"
  by (simp add: nodeFromDef_def)

lemma entries_keys [simp]: "map fst (entries nds) = map ndID nds"
  by (simp add: entries_def)

lemma entries_lookup: "map_of (entries nds) k = None \<longleftrightarrow> k \<notin> ndID ` set nds"
  by (force simp: entries_def map_of_eq_None_iff)

text \<open>The loop over the entries, started in the middle of the list.\<close>

lemma addNodes_from:
  assumes "gNodes g = entries (take i nds)" and "i \<le> length nds"
  shows "addNodes i (drop i nds) g =
    (case List.find (bad nds) [i ..< length nds] of
       None \<Rightarrow> Inr (g\<lparr>gNodes := entries nds\<rparr>)
     | Some k \<Rightarrow> Inl (if ndID (nds ! k) = [] then NodeWithoutID k else AddFailed (ndID (nds ! k)) (DuplicateNode (ndID (nds ! k)))))"
  using assms
proof (induction "length nds - i" arbitrary: i g)
  case 0
  then show ?case by simp
next
  case (Suc n)
  then have i: "i < length nds" by simp
  let ?nd = "nds ! i"
  have d: "drop i nds = ?nd # drop (Suc i) nds" "[i ..< length nds] = i # [Suc i ..< length nds]"
    using i by (simp_all add: Cons_nth_drop_Suc upt_conv_Cons)
  show ?case
  proof (cases "bad nds i")
    case True
    then show ?thesis
      unfolding d using Suc.prems by (auto simp: bad_def AddNode_def entries_lookup entries_lookup [THEN iffD1])
  next
    case False
    then have no: "map_of (gNodes g) (ndID ?nd) = None" and ne: "ndID ?nd \<noteq> []"
      using Suc.prems by (auto simp: bad_def entries_lookup)
    have "gNodes g @ [(ndID ?nd, nodeFromDef ?nd)] = entries (take (Suc i) nds)"
      using Suc.prems i by (simp add: entries_def take_Suc_conv_app_nth)
    then have "AddNode (nodeFromDef ?nd) g = Inr (g\<lparr>gNodes := entries (take (Suc i) nds)\<rparr>)"
      using no by (simp add: AddNode_def update_absent)
    then show ?thesis
      unfolding d using False ne Suc.hyps(1) [of "Suc i" "g\<lparr>gNodes := entries (take (Suc i) nds)\<rparr>"] Suc.hyps(2) i
      by (simp split: option.splits)
  qed
qed

lemma find_bad_None:
  "List.find (bad nds) [0 ..< length nds] = None \<longleftrightarrow> [] \<notin> ndID ` set nds \<and> distinct (map ndID nds)"
proof -
  have "(\<forall>i < length nds. ndID (nds ! i) \<notin> ndID ` set (take i nds)) \<longleftrightarrow> distinct (map ndID nds)"
    by (induction nds rule: rev_induct) (auto simp: nth_append less_Suc_eq)
  moreover have "(\<forall>i < length nds. ndID (nds ! i) \<noteq> []) \<longleftrightarrow> [] \<notin> ndID ` set nds"
    by (metis (no_types, lifting) imageE image_eqI in_set_conv_nth)
  ultimately show ?thesis by (auto simp: find_None_iff bad_def)
qed

text \<open>
  C37: What building a graph reports. An empty definition is refused; otherwise the first entry, in the
  order of the file, that has no identifier or repeats an earlier one is reported, with its index or
  its name; otherwise the graph of all entries is validated and the validation's verdict is returned.
\<close>

theorem build_outcome:
  "BuildFromDef def =
     (if gdNodes def = [] then Inl NoNodes
      else (case List.find (bad (gdNodes def)) [0 ..< length (gdNodes def)] of
              Some i \<Rightarrow> Inl (if ndID (gdNodes def ! i) = [] then NodeWithoutID i
                 else AddFailed (ndID (gdNodes def ! i)) (DuplicateNode (ndID (gdNodes def ! i))))
            | None \<Rightarrow> (case Validate (NewGraph\<lparr>gNodes := entries (gdNodes def)\<rparr>) of
                Inl err \<Rightarrow> Inl (ValidateFailed err) | Inr g \<Rightarrow> Inr g)))"
  using addNodes_from [of NewGraph 0 "gdNodes def"]
  by (auto simp: BuildFromDef_def NewGraph_def entries_def split: option.splits)

lemma build_ok:
  assumes "BuildFromDef def = Inr g"
  shows "gdNodes def \<noteq> []" "[] \<notin> ndID ` set (gdNodes def)" "distinct (map ndID (gdNodes def))"
    and "Validate (NewGraph\<lparr>gNodes := entries (gdNodes def)\<rparr>) = Inr g"
proof -
  have ne: "gdNodes def \<noteq> []" using assms by (auto simp: BuildFromDef_def)
  have a: "addNodes 0 (gdNodes def) NewGraph =
    (case List.find (bad (gdNodes def)) [0 ..< length (gdNodes def)] of
       None \<Rightarrow> Inr (NewGraph\<lparr>gNodes := entries (gdNodes def)\<rparr>)
     | Some k \<Rightarrow> Inl (if ndID (gdNodes def ! k) = [] then NodeWithoutID k
         else AddFailed (ndID (gdNodes def ! k)) (DuplicateNode (ndID (gdNodes def ! k)))))"
    using addNodes_from [of NewGraph 0 "gdNodes def"] by (simp add: NewGraph_def entries_def)
  have f: "List.find (bad (gdNodes def)) [0 ..< length (gdNodes def)] = None"
    using assms ne by (auto simp: BuildFromDef_def a split: option.splits)
  show "gdNodes def \<noteq> []" "[] \<notin> ndID ` set (gdNodes def)" "distinct (map ndID (gdNodes def))"
    using ne f by (auto simp: find_bad_None)
  show "Validate (NewGraph\<lparr>gNodes := entries (gdNodes def)\<rparr>) = Inr g"
    using assms ne f by (auto simp: BuildFromDef_def a split: sum.splits)
qed

lemma entries_wf: "distinct (map ndID nds) \<Longrightarrow> graph_wf (NewGraph\<lparr>gNodes := entries nds\<rparr>)"
  by (simp add: graph_wf_def) (simp add: entries_def list_all_iff)

lemma graph_wf_gNodes: "gNodes g' = gNodes g \<Longrightarrow> graph_wf g' = graph_wf g"
  by (simp add: graph_wf_def)

text \<open>
  C26: Parsed graphs are well-formed. A graph that is built from a definition has one node per entry, under
  the entry's identifier and with its settings; every dependency and fail branch names a node of the
  graph, iterations have a check and retries a count, no node has both a prompt and a sub-task, and the
  dependencies have no cycle.
\<close>

theorem parsed_graph_well_formed:
  assumes "BuildFromDef def = Inr g"
  shows "gNodes g = map (\<lambda>nd. (ndID nd, nodeFromDef nd)) (gdNodes def) \<and> graph_wf g \<and>
    (\<forall>n \<in> set (nodeList g). node_ok g n) \<and> acyclic (depends g)"
proof -
  let ?g = "NewGraph\<lparr>gNodes := entries (gdNodes def)\<rparr>"
  note ok = build_ok [OF assms]
  have n: "gNodes g = gNodes ?g" using Validate_keeps [OF ok(4)] .
  have wf: "graph_wf ?g" using entries_wf [OF ok(3)] .
  have v: "\<forall>n \<in> set (nodeList ?g). node_ok ?g n" "acyclic (depends ?g)"
    using ok(4) Validate_iff [OF wf] by auto
  have same: "nodeList g = nodeList ?g" "depends g = depends ?g" "node_ok g = node_ok ?g" "graph_wf g = graph_wf ?g"
    using n by (simp_all add: nodeList_def depends_def node_ok_def graph_wf_def fun_eq_iff)
  show ?thesis unfolding same using v wf n by (simp add: entries_def)
qed

definition demo_def :: GraphDef where
  "demo_def = \<lparr>gdPhase = ''plan'', gdNodes =
     [\<lparr>ndID = ''a'', ndLabel = [], ndJobType = ''PLAN'', ndPrompt = ''x'', ndDependsOn = [], ndFrozen = False, ndFailBranch = [],
       ndMaxIterations = 2, ndErrorStrategy = ''Retry_Then_Fail'', ndDefaultOutput = [], ndMaxRetries = 1, ndRetryDelay = 0,
       ndRequiresApproval = False, ndApprovalPrompt = [], ndApprovalTimeout = 0, ndSubTask = None\<rparr>,
      \<lparr>ndID = ''b'', ndLabel = ''B'', ndJobType = ''DryRun'', ndPrompt = ''y'', ndDependsOn = [''a''], ndFrozen = False, ndFailBranch = [],
       ndMaxIterations = 0, ndErrorStrategy = [], ndDefaultOutput = [], ndMaxRetries = 0, ndRetryDelay = 0,
       ndRequiresApproval = True, ndApprovalPrompt = ''ok?'', ndApprovalTimeout = 0, ndSubTask = None\<rparr>]\<rparr>"

lemma demo_def_builds:
  "case BuildFromDef demo_def of Inl _ \<Rightarrow> False
   | Inr g \<Rightarrow> map (\<lambda>n. (nID n, nLabel n, nJobType n)) (nodeList g) = [(''a'', ''a'', ''plan''), (''b'', ''B'', ''dry_run'')]"
  by code_simp

theorem parsed_graph_well_formed_witness:
  "\<exists>g. BuildFromDef demo_def = Inr g \<and> map fst (gNodes g) = [''a'', ''b''] \<and> acyclic (depends g)"
proof -
  obtain g where g: "BuildFromDef demo_def = Inr g" using demo_def_builds by (auto split: sum.splits)
  from parsed_graph_well_formed [OF g] g show ?thesis by (auto simp: demo_def_def)
qed

section \<open>Variables in prompts\<close>

text \<open>
  A template is a sequence of texts and placeholders; neither the texts nor the names contain a brace.
\<close>

datatype segment = Text string | Hole string

fun render :: "segment list \<Rightarrow> string" where
  "render [] = []"
| "render (Text t # ss) = t @ render ss"
| "render (Hole k # ss) = placeholder k @ render ss"

definition plain :: "string \<Rightarrow> bool" where
  "plain t \<longleftrightarrow> CHR ''{'' \<notin> set t \<and> CHR ''}'' \<notin> set t"

fun plain_segment :: "segment \<Rightarrow> bool" where
  "plain_segment (Text t) = plain t"
| "plain_segment (Hole k) = plain k"

fun fill :: "(string \<Rightarrow> string option) \<Rightarrow> segment \<Rightarrow> segment" where
  "fill f (Text t) = Text t"
| "fill f (Hole k) = (case f k of None \<Rightarrow> Hole k | Some v \<Rightarrow> Text v)"

lemma plain_before_braces:
  assumes "plain k" and "plain j" and "k @ ''}}'' @ u = j @ ''}}'' @ s"
  shows "k = j"
  using assms
proof (induction k arbitrary: j)
  case Nil
  then show ?case by (cases j) (auto simp: plain_def)
next
  case (Cons c k)
  then obtain j' where "j = c # j'" by (cases j) (auto simp: plain_def)
  with Cons show ?case by (auto simp: plain_def)
qed

lemma replaceAll_hole:
  assumes "plain k" and "plain j"
  shows "replaceAll (placeholder k) v (placeholder j @ s) =
    (if j = k then v else placeholder j) @ replaceAll (placeholder k) v s"
proof (cases "j = k")
  case True
  then show ?thesis by (simp add: placeholder_def replaceAll.simps [of _ _ "CHR ''{'' # _"])
next
  case False
  let ?p = "placeholder k"
  have n: "?p \<noteq> []" "hd ?p = CHR ''{''" by (simp_all add: placeholder_def)
  have "\<not> prefix ?p (placeholder j @ s)"
  proof
    assume "prefix ?p (placeholder j @ s)"
    then obtain u where "k @ ''}}'' @ u = j @ ''}}'' @ s" by (auto simp: placeholder_def prefix_def)
    with False plain_before_braces [OF assms] show False by blast
  qed
  then have a: "replaceAll ?p v (placeholder j @ s) = CHR ''{'' # replaceAll ?p v (CHR ''{'' # j @ ''}}'' @ s)"
    using replaceAll_step [OF n(1), of "CHR ''{''" "CHR ''{'' # j @ ''}}'' @ s"] by (simp add: placeholder_def)
  have "\<not> prefix ?p (CHR ''{'' # j @ ''}}'' @ s)"
    using assms(2) by (cases j) (auto simp: placeholder_def plain_def)
  then have b: "replaceAll ?p v (CHR ''{'' # j @ ''}}'' @ s) = CHR ''{'' # replaceAll ?p v (j @ ''}}'' @ s)"
    by (rule replaceAll_step [OF n(1)])
  have "hd ?p \<notin> set (j @ ''}}'')" using assms(2) n by (auto simp: plain_def)
  from replaceAll_skip [OF n(1) this, of v s] have "replaceAll ?p v (j @ ''}}'' @ s) = j @ ''}}'' @ replaceAll ?p v s" by simp
  with a b False show ?thesis by (simp add: placeholder_def)
qed

lemma replaceAll_render:
  assumes "plain k" and "list_all plain_segment ss"
  shows "replaceAll (placeholder k) v (render ss) = render (map (fill [k \<mapsto> v]) ss)"
  using assms(2)
proof (induction ss)
  case Nil
  then show ?case by (simp add: replaceAll_Nil placeholder_def)
next
  case (Cons x ss)
  show ?case
  proof (cases x)
    case (Text t)
    with Cons.prems have "hd (placeholder k) \<notin> set t" by (simp add: placeholder_def plain_def)
    from replaceAll_skip [OF _ this] Cons Text show ?thesis by (simp add: placeholder_def)
  next
    case (Hole j)
    with Cons replaceAll_hole [OF assms(1), of j] show ?thesis by simp
  qed
qed

lemma fill_plain: "plain v \<Longrightarrow> plain_segment x \<Longrightarrow> plain_segment (fill [k \<mapsto> v] x)"
  by (cases x) auto

lemma fill_fill: "k \<notin> dom f \<Longrightarrow> fill f (fill [k \<mapsto> v] x) = fill (f(k \<mapsto> v)) x"
  by (cases x) (auto split: option.splits)

text \<open>
  Variables in prompts. In a prompt whose texts, names and values contain no braces, every placeholder
  of a known variable is replaced by its value and every other one is left as it is, whatever the order
  in which the variables are visited.
\<close>

theorem expand_fills_template:
  assumes "distinct (map fst vars)" and "list_all (\<lambda>(k, v). plain k \<and> plain v) vars" and "list_all plain_segment ss"
  shows "expandVars vars (render ss) = render (map (fill (map_of vars)) ss)"
  using assms
proof (induction vars arbitrary: ss)
  case Nil
  have "map (fill (map_of [])) ss = ss" by (rule map_idI) (metis fill.simps map_of.simps(1) option.simps(4) segment.exhaust)
  then show ?case by (simp add: expandVars_def)
next
  case (Cons kv vars)
  obtain k v where kv: "kv = (k, v)" by fastforce
  have p: "plain k" "plain v" "list_all plain_segment (map (fill [k \<mapsto> v]) ss)"
    using Cons.prems kv fill_plain by (auto simp: list_all_iff)
  have "expandVars (kv # vars) (render ss) = expandVars vars (render (map (fill [k \<mapsto> v]) ss))"
    using replaceAll_render [OF p(1) Cons.prems(3)] by (simp add: expandVars_def kv)
  also have "\<dots> = render (map (fill (map_of vars)) (map (fill [k \<mapsto> v]) ss))"
    using Cons p by simp
  also have "map (fill (map_of vars)) (map (fill [k \<mapsto> v]) ss) = map (fill (map_of (kv # vars))) ss"
    using Cons.prems(1) by (auto simp: kv fill_fill dom_map_of_conv_image_fst)
  finally show ?case .
qed

theorem expand_fills_template_witness:
  "expandVars [(''x'', ''1''), (''y'', ''2'')] (render [Text ''a '', Hole ''y'', Text '' '', Hole ''z'']) = ''a 2 {{z}}''"
  using expand_fills_template [of "[(''x'', ''1''), (''y'', ''2'')]" "[Text ''a '', Hole ''y'', Text '' '', Hole ''z'']"]
  by (simp add: plain_def placeholder_def)

text \<open>
  When a value itself looks like a placeholder, the outcome depends on the order in which the map of
  variables happens to be iterated.
\<close>

theorem expansion_depends_on_order:
  "expandVars [(''x'', ''{{y}}''), (''y'', ''2'')] ''{{x}}'' = ''2'' \<and>
   expandVars [(''y'', ''2''), (''x'', ''{{y}}'')] ''{{x}}'' = ''{{y}}''"
  by code_simp

end
