(* ===== verification/Pool_Ledger.thy ===== *)
theory Pool_Ledger
  imports Worker_Pool
begin

text \<open>
  What the pool promises about its jobs, as an abstract ledger: every job is held in at most one
  place, waiting or executing, and its status says which. Every step of the pool is a step of the
  ledger or leaves it alone.
\<close>

section \<open>The ledger\<close>

record Ledger =
  lgHeld :: "(jref \<times> bool) multiset"
  lgStatus :: "jref \<Rightarrow> JobStatus"
  lgNext :: jref
  lgStopped :: bool

definition terminal :: "JobStatus \<Rightarrow> bool" where
  "terminal st \<longleftrightarrow> st = JobStatusDone \<or> st = JobStatusFailed"

lemma terminal_simps [simp]:
  "terminal JobStatusDone" "terminal JobStatusFailed" "\<not> terminal JobStatusQueued" "\<not> terminal JobStatusInProgress"
  by (simp_all add: terminal_def)

lemma not_terminal: "\<not> terminal st \<longleftrightarrow> st = JobStatusQueued \<or> st = JobStatusInProgress"
  by (cases st) (simp_all add: terminal_def)

inductive ledger_step :: "Ledger \<Rightarrow> Ledger \<Rightarrow> bool" where
  enter: "ledger_step l (l\<lparr>lgHeld := add_mset (lgNext l, False) (lgHeld l),
            lgStatus := (lgStatus l)(lgNext l := JobStatusQueued), lgNext := Suc (lgNext l)\<rparr>)"
| cached: "ledger_step l (l\<lparr>lgStatus := (lgStatus l)(lgNext l := JobStatusDone), lgNext := Suc (lgNext l)\<rparr>)"
| start: "lgHeld l = add_mset (j, False) H \<Longrightarrow>
    ledger_step l (l\<lparr>lgHeld := add_mset (j, True) H, lgStatus := (lgStatus l)(j := JobStatusInProgress)\<rparr>)"
| finish: "lgHeld l = add_mset (j, True) H \<Longrightarrow> terminal st \<Longrightarrow>
    ledger_step l (l\<lparr>lgHeld := H, lgStatus := (lgStatus l)(j := st)\<rparr>)"
| leave: "lgHeld l = add_mset (j, True) H \<Longrightarrow> lgStopped l \<or> lgStatus l j \<noteq> JobStatusInProgress \<Longrightarrow>
    ledger_step l (l\<lparr>lgHeld := H\<rparr>)"
| give_up: "lgHeld l = add_mset (j, False) H \<Longrightarrow> lgStopped l \<Longrightarrow> ledger_step l (l\<lparr>lgHeld := H\<rparr>)"
| cancel: "\<not> terminal (lgStatus l j) \<Longrightarrow> ledger_step l (l\<lparr>lgStatus := (lgStatus l)(j := JobStatusFailed)\<rparr>)"
| stop: "ledger_step l (l\<lparr>lgStopped := True\<rparr>)"

definition ledger_init :: "Ledger \<Rightarrow> bool" where
  "ledger_init l \<longleftrightarrow> lgHeld l = {#} \<and> lgNext l = 0"

definition once :: "(jref \<times> bool) multiset \<Rightarrow> bool" where
  "once H \<longleftrightarrow> (\<forall>j. count (image_mset fst H) j \<le> 1)"

lemma once_empty [simp]: "once {#}"
  by (simp add: once_def)

lemma once_add [simp]: "once (add_mset (j, b) H) \<longleftrightarrow> once H \<and> j \<notin> fst ` set_mset H"
proof -
  have "count (image_mset fst H) j = 0 \<longleftrightarrow> j \<notin> fst ` set_mset H" by (simp add: count_eq_zero_iff)
  then show ?thesis by (auto simp: once_def le_Suc_eq split: if_splits)
qed

definition ledger_ok :: "Ledger \<Rightarrow> bool" where
  "ledger_ok l \<longleftrightarrow> once (lgHeld l) \<and> (\<forall>x \<in># lgHeld l. fst x < lgNext l) \<and>
     (\<forall>j < lgNext l. lgStopped l \<or>
        (lgStatus l j = JobStatusQueued \<longrightarrow> (j, False) \<in># lgHeld l) \<and>
        (lgStatus l j = JobStatusInProgress \<longrightarrow> (j, True) \<in># lgHeld l))"

lemma ledger_ok_step:
  assumes "ledger_step l l'" and "ledger_ok l"
  shows "ledger_ok l'"
  using assms
proof (induction rule: ledger_step.induct)
  case (enter l)
  then show ?case by (fastforce simp: ledger_ok_def less_Suc_eq)
next
  case (cached l)
  then show ?case by (fastforce simp: ledger_ok_def less_Suc_eq)
next
  case (start l j H)
  then show ?case by (force simp: ledger_ok_def)
next
  case (finish l j H st)
  then show ?case by (auto simp: ledger_ok_def terminal_def)
next
  case (leave l j H)
  then show ?case by (force simp: ledger_ok_def)
qed (auto simp: ledger_ok_def)

interpretation ledger: step_invariant ledger_init ledger_step ledger_ok
proof
  show "ledger_ok l" if "ledger_init l" for l using that by (simp add: ledger_init_def ledger_ok_def)
qed (rule ledger_ok_step)

end
