(* ===== verification/Pool_Refinement.thy ===== *)
theory Pool_Refinement
  imports Pool_Ledger
begin

text \<open>The pool refines the ledger of its jobs.\<close>

section \<open>Where the jobs are\<close>

fun heldBy :: "PoolThread \<Rightarrow> (jref \<times> bool) list" where
  "heldBy (Submitting j) = [(j, False)]"
| "heldBy (Requeueing j) = [(j, False)]"
| "heldBy (Starting j _ _) = [(j, True)]"
| "heldBy (Streaming j _ _ _ _ _) = [(j, True)]"
| "heldBy (Simulating j _ _ _) = [(j, True)]"
| "heldBy _ = []"

fun heldByDispatcher :: "DispatcherState \<Rightarrow> (jref \<times> bool) list" where
  "heldByDispatcher (DryRunning j) = [(j, True)]"
| "heldByDispatcher _ = []"

text \<open>The job, the worker and the context of an executing goroutine.\<close>

fun runsOf :: "PoolThread \<Rightarrow> (jref \<times> wref \<times> nat) list" where
  "runsOf (Starting j w c) = [(j, w, c)]"
| "runsOf (Streaming j w c _ _ _) = [(j, w, c)]"
| "runsOf (Simulating j w c _) = [(j, w, c)]"
| "runsOf _ = []"

definition held :: "Pool \<Rightarrow> (jref \<times> bool) multiset" where
  "held p = mset (map (\<lambda>j. (j, False)) (pQueue p)) + mset (concat (map heldBy (pThreads p))) +
     mset (heldByDispatcher (pDispatcher p))"

definition runs :: "Pool \<Rightarrow> (jref \<times> wref \<times> nat) list" where
  "runs p = concat (map runsOf (pThreads p))"

definition ledgerOf :: "Pool \<Rightarrow> Ledger" where
  "ledgerOf p = \<lparr>lgHeld = held p, lgStatus = (\<lambda>j. jStatus (pJobStore p j)), lgNext = pNextJob p, lgStopped = pStopped p\<rparr>"

lemma runs_heldBy: "(j, w, c) \<in> set (runs p) \<Longrightarrow> (j, True) \<in> set (concat (map heldBy (pThreads p)))"
proof -
  have "(j, w, c) \<in> set (runsOf t) \<Longrightarrow> (j, True) \<in> set (heldBy t)" for t by (cases t) auto
  then show "(j, w, c) \<in> set (runs p) \<Longrightarrow> (j, True) \<in> set (concat (map heldBy (pThreads p)))"
    by (auto simp: runs_def)
qed

text \<open>What does not move jobs: events, streams, metadata, workers.\<close>

definition same_jobs :: "Pool \<Rightarrow> Pool \<Rightarrow> bool" where
  "same_jobs p p' \<longleftrightarrow> pQueue p' = pQueue p \<and> pThreads p' = pThreads p \<and> pDispatcher p' = pDispatcher p \<and>
     pNextJob p' = pNextJob p \<and> pStopped p' = pStopped p \<and> pNextCtx p' = pNextCtx p \<and> pCancelled p' = pCancelled p \<and>
     pJobs p' = pJobs p \<and> pJobCancels p' \<subseteq>\<^sub>m pJobCancels p \<and>
     (\<forall>j. jStatus (pJobStore p' j) = jStatus (pJobStore p j) \<and> jID (pJobStore p' j) = jID (pJobStore p j))"

lemma same_jobs_refl [simp]: "same_jobs p p"
  by (simp add: same_jobs_def)

lemma same_jobs_trans: "same_jobs p p' \<Longrightarrow> same_jobs p' p'' \<Longrightarrow> same_jobs p p''"
  unfolding same_jobs_def by (auto intro: map_le_trans)

lemma same_jobs_basic [simp]:
  "same_jobs p (emitEvent i e p)" "same_jobs p (send ch e p)" "same_jobs p (removeStream i p)"
  "same_jobs p (dropCancel i p)" "same_jobs p (newStream i n p)" "same_jobs p (setMeta j k v p)"
  "same_jobs p (updWorker w f p)" "same_jobs p (releaseWorker w p)" "same_jobs p (newWorker wk p)"
  "same_jobs p (p\<lparr>pChans := chs\<rparr>)" "same_jobs p (p\<lparr>pWorkers := ws\<rparr>)"
  by (auto simp: same_jobs_def emitEvent_def send_def removeStream_def dropCancel_def newStream_def setMeta_def
      updJob_def updWorker_def releaseWorker_def newWorker_def Let_def map_le_def split: option.splits)

lemma newStream_cancels [simp]: "pJobCancels (newStream i n p) = pJobCancels p"
  by (simp add: newStream_def)

lemma same_jobs_applyOp [simp]: "same_jobs p (applyPoolOp op p)"
  by (cases op) simp_all

lemma same_jobs_fold: "(\<And>x q. same_jobs q (f x q)) \<Longrightarrow> same_jobs p (fold f xs p)"
  by (rule fold_chain) (auto intro: same_jobs_trans)

lemma same_jobs_captureTokens [simp]: "same_jobs p (captureTokens j dat p)"
proof (cases dat)
  case (Some d)
  let ?q = "case jMetadata (pJobStore p j) of Some _ \<Rightarrow> p
    | None \<Rightarrow> (updJob j (\<lambda>job. job\<lparr>jMetadata := Some (pNextMeta p)\<rparr>) p)\<lparr>
         pMetaStore := (pMetaStore p)(pNextMeta p := (\<lambda>_. None)), pNextMeta := pNextMeta p + 1\<rparr>"
  have "same_jobs p ?q" by (simp add: same_jobs_def updJob_def split: option.splits)
  moreover have "same_jobs ?q (fold (\<lambda>k p. case d k of None \<Rightarrow> p | Some v \<Rightarrow> setMeta j k v p) tokenKeys ?q)"
    by (rule same_jobs_fold) (simp split: option.splits)
  ultimately show ?thesis unfolding Some captureTokens_def option.case by (rule same_jobs_trans)
qed (simp add: captureTokens_def)

lemma same_jobs_ledger: "same_jobs p p' \<Longrightarrow> ledgerOf p' = ledgerOf p"
  by (simp add: same_jobs_def ledgerOf_def held_def)

section \<open>Contexts\<close>

text \<open>
  Identifiers belong to one job, the maps agree with them, and a goroutine whose context is cancelled
  works on a job that is no longer in progress.
\<close>

definition ids_ok :: "Pool \<Rightarrow> bool" where
  "ids_ok p \<longleftrightarrow> (\<forall>j < pNextJob p. \<forall>k < pNextJob p. jID (pJobStore p j) = jID (pJobStore p k) \<longrightarrow> j = k) \<and>
     (\<forall>i j. map_of (pJobs p) i = Some j \<longrightarrow> j < pNextJob p \<and> jID (pJobStore p j) = i)"

definition ctx_ok :: "Pool \<Rightarrow> bool" where
  "ctx_ok p \<longleftrightarrow>
     (\<forall>j w c. (j, w, c) \<in> set (runs p) \<longrightarrow>
        c < pNextCtx p \<and> (pCancelled p c \<longrightarrow> jStatus (pJobStore p j) \<noteq> JobStatusInProgress)) \<and>
     (\<forall>i c. pJobCancels p i = Some c \<longrightarrow>
        c < pNextCtx p \<and> (\<forall>j w. (j, w, c) \<in> set (runs p) \<longrightarrow> jID (pJobStore p j) = i)) \<and>
     (\<forall>c. pCancelled p c \<longrightarrow> c < pNextCtx p)"

definition pool_ok :: "Pool \<Rightarrow> bool" where
  "pool_ok p \<longleftrightarrow> ids_ok p \<and> ctx_ok p \<and> ledger_ok (ledgerOf p)"

lemma ids_ok_keep:
  assumes "ids_ok p" and "pNextJob p' = pNextJob p" and "\<And>j. jID (pJobStore p' j) = jID (pJobStore p j)"
    and "map_of (pJobs p') \<subseteq>\<^sub>m map_of (pJobs p)"
  shows "ids_ok p'"
  using assms unfolding ids_ok_def map_le_def by (metis domI)

lemma ctx_ok_keep:
  assumes "ctx_ok p" and "set (runs p') \<subseteq> set (runs p)" and "pNextCtx p' = pNextCtx p" and "pCancelled p' = pCancelled p"
    and "pJobCancels p' \<subseteq>\<^sub>m pJobCancels p" and "\<And>j. jID (pJobStore p' j) = jID (pJobStore p j)"
    and "\<And>j. jStatus (pJobStore p' j) = JobStatusInProgress \<Longrightarrow> jStatus (pJobStore p j) = JobStatusInProgress"
  shows "ctx_ok p'"
proof -
  have "pJobCancels p i = Some c" if "pJobCancels p' i = Some c" for i c
    using assms(5) that by (metis domI map_le_def)
  moreover have "\<And>x. x \<in> set (runs p') \<Longrightarrow> x \<in> set (runs p)" using assms(2) by blast
  ultimately show ?thesis using assms(1,3,4,6,7) unfolding ctx_ok_def by (intro conjI allI impI) (simp | blast)+
qed

lemma same_jobs_ok:
  assumes "same_jobs p p'"
  shows "ids_ok p \<Longrightarrow> ids_ok p'" and "ctx_ok p \<Longrightarrow> ctx_ok p'" and "pool_ok p \<Longrightarrow> pool_ok p'"
proof -
  show i: "ids_ok p \<Longrightarrow> ids_ok p'" using assms by (auto simp: same_jobs_def elim!: ids_ok_keep)
  have "runs p' = runs p" using assms by (simp add: same_jobs_def runs_def)
  then show c: "ctx_ok p \<Longrightarrow> ctx_ok p'" using assms by (auto simp: same_jobs_def elim!: ctx_ok_keep)
  show "pool_ok p \<Longrightarrow> pool_ok p'" using i c same_jobs_ledger [OF assms] by (simp add: pool_ok_def)
qed

section \<open>Moves of goroutines\<close>

lemma thread_split:
  assumes "i < length ts"
  shows "mset (concat (map f (take i ts @ us @ drop (i + 1) ts))) + mset (f (ts ! i)) =
    mset (concat (map f ts)) + mset (concat (map f us))"
proof -
  have "ts = take i ts @ ts ! i # drop (i + 1) ts" using assms by (simp add: id_take_nth_drop)
  then have "mset (concat (map f ts)) = mset (concat (map f (take i ts @ ts ! i # drop (i + 1) ts)))" by simp
  then show ?thesis by simp
qed

lemma held_putThreads:
  assumes "i < length (pThreads p)"
  shows "held (putThreads i us p) + mset (heldBy (pThreads p ! i)) = held p + mset (concat (map heldBy us))"
  using thread_split [OF assms, of heldBy us] by (simp add: held_def putThreads_def)

lemma runs_putThreads: "set (runs (putThreads i us p)) \<subseteq> set (runs p) \<union> set (concat (map runsOf us))"
  by (auto simp: runs_def putThreads_def dest: in_set_takeD in_set_dropD)

lemma putThreads_fields [simp]:
  "pJobStore (putThreads i us p) = pJobStore p" "pNextJob (putThreads i us p) = pNextJob p"
  "pStopped (putThreads i us p) = pStopped p" "pJobs (putThreads i us p) = pJobs p"
  "pJobCancels (putThreads i us p) = pJobCancels p" "pNextCtx (putThreads i us p) = pNextCtx p"
  "pCancelled (putThreads i us p) = pCancelled p" "pQueue (putThreads i us p) = pQueue p"
  "pDispatcher (putThreads i us p) = pDispatcher p"
  by (simp_all add: putThreads_def)

section \<open>Steps of jobs\<close>

text \<open>A step of the pool that is allowed: a step of the ledger or none, and the bookkeeping is kept.\<close>

definition refines :: "Pool \<Rightarrow> Pool \<Rightarrow> bool" where
  "refines p p' \<longleftrightarrow> ledger_step\<^sup>=\<^sup>= (ledgerOf p) (ledgerOf p') \<and> ids_ok p' \<and> ctx_ok p'"

lemma refines_after: "refines p p1 \<Longrightarrow> same_jobs p1 p2 \<Longrightarrow> refines p p2"
  unfolding refines_def using same_jobs_ok same_jobs_ledger by metis

lemma refines_before: "same_jobs p p1 \<Longrightarrow> refines p1 p2 \<Longrightarrow> refines p p2"
  unfolding refines_def using same_jobs_ledger by metis

lemma refines_same: "pool_ok p \<Longrightarrow> same_jobs p p' \<Longrightarrow> refines p p'"
  unfolding refines_def pool_ok_def using same_jobs_ok same_jobs_ledger by auto

definition setStatus :: "jref \<Rightarrow> JobStatus \<Rightarrow> Pool \<Rightarrow> Pool" where
  "setStatus j st = updJob j (\<lambda>job. job\<lparr>jStatus := st\<rparr>)"

lemma setStatus_fields [simp]:
  "jStatus (pJobStore (setStatus j st p) k) = (if k = j then st else jStatus (pJobStore p k))"
  "jID (pJobStore (setStatus j st p) k) = jID (pJobStore p k)" "pThreads (setStatus j st p) = pThreads p"
  "pQueue (setStatus j st p) = pQueue p" "pDispatcher (setStatus j st p) = pDispatcher p"
  "pNextJob (setStatus j st p) = pNextJob p" "pStopped (setStatus j st p) = pStopped p"
  "pNextCtx (setStatus j st p) = pNextCtx p" "pCancelled (setStatus j st p) = pCancelled p"
  "pJobs (setStatus j st p) = pJobs p" "pJobCancels (setStatus j st p) = pJobCancels p"
  "runs (setStatus j st p) = runs p" "held (setStatus j st p) = held p"
  by (simp_all add: setStatus_def updJob_def runs_def held_def)

lemma same_jobs_setStatus: "same_jobs p q \<Longrightarrow> same_jobs (setStatus j st p) (setStatus j st q)"
  by (simp add: same_jobs_def)

lemma same_jobs_ended:
  "same_jobs (setStatus j JobStatusDone p) (completeJob now r j w p)"
  "same_jobs (setStatus j JobStatusFailed p) (failJob now err j w p)"
  by (auto simp: same_jobs_def completeJob_def failJob_def releaseWorker_def updWorker_def updJob_def setStatus_def)

text \<open>A goroutine goes on with the same job, or ends a job, or lets go of one.\<close>

lemma refines_move:
  assumes "pool_ok p" and "i < length (pThreads p)" and "concat (map heldBy us) = heldBy (pThreads p ! i)"
    and "set (concat (map runsOf us)) \<subseteq> set (runsOf (pThreads p ! i))"
  shows "refines p (putThreads i us p)"
proof -
  have "held (putThreads i us p) = held p" using held_putThreads [OF assms(2), of us] assms(3) by simp
  then have "ledgerOf (putThreads i us p) = ledgerOf p" by (simp add: ledgerOf_def)
  moreover have "set (runs (putThreads i us p)) \<subseteq> set (runs p)"
    using runs_putThreads [of i us p] assms(2,4) unfolding runs_def by (fastforce dest: nth_mem)
  ultimately show ?thesis
    using assms(1) unfolding refines_def pool_ok_def by (auto intro: ids_ok_keep ctx_ok_keep)
qed

lemma refines_end:
  assumes "pool_ok p" and "i < length (pThreads p)" and "heldBy (pThreads p ! i) = [(j, True)]"
    and "concat (map heldBy us) = []" and "concat (map runsOf us) = []" and "terminal st"
    and "same_jobs (setStatus j st p) q"
  shows "refines p (putThreads i us q)"
proof -
  let ?p = "putThreads i us (setStatus j st p)"
  have q: "same_jobs ?p (putThreads i us q)" using assms(7) by (simp add: same_jobs_def putThreads_def)
  have h: "add_mset (j, True) (held ?p) = held p"
    using held_putThreads [of i "setStatus j st p" us] assms(2,3,4) by simp
  have "ledger_step (ledgerOf p) (ledgerOf p\<lparr>lgHeld := held ?p, lgStatus := (lgStatus (ledgerOf p))(j := st)\<rparr>)"
    using h assms(6) by (intro ledger_step.finish) (simp_all add: ledgerOf_def)
  also have "ledgerOf p\<lparr>lgHeld := held ?p, lgStatus := (lgStatus (ledgerOf p))(j := st)\<rparr> = ledgerOf ?p"
    by (auto simp: ledgerOf_def)
  finally have l: "ledger_step (ledgerOf p) (ledgerOf ?p)" .
  have "set (runs ?p) \<subseteq> set (runs p)" using runs_putThreads [of i us "setStatus j st p"] assms(5) by simp
  with l assms(1,6) have "refines p ?p"
    unfolding refines_def pool_ok_def by (auto intro!: ids_ok_keep [of p] ctx_ok_keep [of p] split: if_splits)
  then show ?thesis using q by (rule refines_after)
qed

lemma refines_leave:
  assumes "pool_ok p" and "i < length (pThreads p)" and "heldBy (pThreads p ! i) = [(j, b)]"
    and "concat (map heldBy us) = []" and "concat (map runsOf us) = []"
    and "pStopped p \<or> b \<and> jStatus (pJobStore p j) \<noteq> JobStatusInProgress"
  shows "refines p (putThreads i us p)"
proof -
  let ?p = "putThreads i us p"
  have h: "held p = add_mset (j, b) (held ?p)"
    using held_putThreads [of i p us] assms(2,3,4) by simp
  have "ledger_step (ledgerOf p) (ledgerOf p\<lparr>lgHeld := held ?p\<rparr>)"
  proof (cases b)
    case True
    with h assms(6) show ?thesis by (intro ledger_step.leave [where j = j]) (auto simp: ledgerOf_def)
  next
    case False
    with h assms(6) show ?thesis by (intro ledger_step.give_up [where j = j]) (auto simp: ledgerOf_def)
  qed
  also have "ledgerOf p\<lparr>lgHeld := held ?p\<rparr> = ledgerOf ?p" by (simp add: ledgerOf_def)
  finally have l: "ledger_step (ledgerOf p) (ledgerOf ?p)" .
  have "set (runs ?p) \<subseteq> set (runs p)" using runs_putThreads [of i us p] assms(5) by simp
  with l assms(1) show ?thesis
    unfolding refines_def pool_ok_def by (auto intro!: ids_ok_keep [of p] ctx_ok_keep [of p])
qed

lemma refines_enqueue:
  assumes "pool_ok p" and "i < length (pThreads p)" and "heldBy (pThreads p ! i) = [(j, False)]"
  shows "refines p (putThreads i [] (p\<lparr>pQueue := pQueue p @ [j]\<rparr>))"
proof -
  let ?q = "p\<lparr>pQueue := pQueue p @ [j]\<rparr>" and ?p = "putThreads i [] (p\<lparr>pQueue := pQueue p @ [j]\<rparr>)"
  have "held ?q = add_mset (j, False) (held p)" by (simp add: held_def)
  then have "held ?p = held p" using held_putThreads [of i ?q "[]"] assms(2,3) by simp
  then have l: "ledgerOf ?p = ledgerOf p" by (simp add: ledgerOf_def)
  have "set (runs ?p) \<subseteq> set (runs p)" using runs_putThreads [of i "[]" ?q] by (simp add: runs_def)
  with l assms(1) show ?thesis
    unfolding refines_def pool_ok_def by (auto intro!: ids_ok_keep [of p] ctx_ok_keep [of p])
qed

text \<open>A job leaves the queue for a goroutine that executes it, or for the dispatcher itself.\<close>

lemma queued_not_running:
  assumes "pool_ok p" and "pQueue p = j # js"
  shows "(j, w, c) \<notin> set (runs p)"
proof
  assume "(j, w, c) \<in> set (runs p)"
  then have "(j, True) \<in> set (concat (map heldBy (pThreads p)))" by (rule runs_heldBy)
  then have "j \<in> fst ` set (concat (map heldBy (pThreads p)))" by force
  with assms show False by (simp add: pool_ok_def ledger_ok_def ledgerOf_def held_def image_Un)
qed

lemma ctx_ok_start:
  assumes "ctx_ok p" and r: "set (runs p') = insert (j, w, pNextCtx p) (set (runs p))" and "pNextCtx p' = Suc (pNextCtx p)"
    and "pCancelled p' = pCancelled p" and "pJobCancels p' = (pJobCancels p)(jID (pJobStore p j) \<mapsto> pNextCtx p)"
    and i: "\<And>k. jID (pJobStore p' k) = jID (pJobStore p k)"
    and st: "\<And>k. k \<noteq> j \<Longrightarrow> jStatus (pJobStore p' k) = jStatus (pJobStore p k)"
    and nr: "\<And>w c. (j, w, c) \<notin> set (runs p)"
  shows "ctx_ok p'"
proof -
  note f = assms(3,4,5)
  from assms(1) have runs: "\<And>k v c. (k, v, c) \<in> set (runs p) \<Longrightarrow>
        c < pNextCtx p \<and> (pCancelled p c \<longrightarrow> jStatus (pJobStore p k) \<noteq> JobStatusInProgress)"
    and can: "\<And>i c. pJobCancels p i = Some c \<Longrightarrow>
        c < pNextCtx p \<and> (\<forall>k v. (k, v, c) \<in> set (runs p) \<longrightarrow> jID (pJobStore p k) = i)"
    and low: "\<And>c. pCancelled p c \<Longrightarrow> c < pNextCtx p" by (auto simp: ctx_ok_def)
  have "c < Suc (pNextCtx p) \<and> (pCancelled p c \<longrightarrow> jStatus (pJobStore p' k) \<noteq> JobStatusInProgress)"
    if "(k, v, c) \<in> set (runs p')" for k v c
  proof (cases "(k, v, c) \<in> set (runs p)")
    case True
    with runs [OF True] nr st [of k] show ?thesis by (metis less_Suc_eq)
  next
    case False
    with that r low [of c] show ?thesis by auto
  qed
  moreover have "c < Suc (pNextCtx p) \<and> (\<forall>k v. (k, v, c) \<in> set (runs p') \<longrightarrow> jID (pJobStore p k) = i)"
    if "pJobCancels p' i = Some c" for i c
  proof (cases "i = jID (pJobStore p j)")
    case True
    with that f(3) runs r show ?thesis by fastforce
  next
    case False
    with that f(3) have "pJobCancels p i = Some c" by simp
    with can [OF this] r show ?thesis by (auto simp: less_Suc_eq)
  qed
  moreover have "\<And>c. pCancelled p c \<Longrightarrow> c < Suc (pNextCtx p)" using low less_SucI by blast
  ultimately show ?thesis unfolding ctx_ok_def f(1,2) i by (intro conjI allI impI) blast+
qed

lemma ledger_start:
  assumes "pQueue p = j # js" and "held p' = add_mset (j, True) H" and "held p = add_mset (j, False) H"
    and "\<And>k. jStatus (pJobStore p' k) = (if k = j then JobStatusInProgress else jStatus (pJobStore p k))"
    and "pNextJob p' = pNextJob p" and "pStopped p' = pStopped p"
  shows "ledger_step (ledgerOf p) (ledgerOf p')"
proof -
  have "ledger_step (ledgerOf p)
      (ledgerOf p\<lparr>lgHeld := add_mset (j, True) H, lgStatus := (lgStatus (ledgerOf p))(j := JobStatusInProgress)\<rparr>)"
    using assms(3) by (intro ledger_step.start) (simp add: ledgerOf_def)
  also have "ledgerOf p\<lparr>lgHeld := add_mset (j, True) H, lgStatus := (lgStatus (ledgerOf p))(j := JobStatusInProgress)\<rparr> = ledgerOf p'"
    using assms(2,4,5,6) by (auto simp: ledgerOf_def)
  finally show ?thesis .
qed

lemma refines_startOn:
  assumes "pool_ok p" and q: "pQueue p = j # js"
  shows "refines p (startOn w fb now j (p\<lparr>pQueue := js\<rparr>))"
proof -
  let ?q = "p\<lparr>pQueue := js\<rparr>" and ?wk = "pWorkerStore p w" and ?id = "jID (pJobStore p j)" and ?c = "pNextCtx p"
  let ?t = "case wAgent ?wk of Some _ \<Rightarrow> Starting j w ?c | None \<Rightarrow> Simulating j w ?c (simulatedMessages (pJobStore p j))"
  let ?p1 = "updJob j (\<lambda>job. job\<lparr>jStatus := JobStatusInProgress, jWorkerID := wID ?wk, jStartedAt := Some now\<rparr>)
      (updWorker w (\<lambda>wk. wk\<lparr>wStatus := StatusWorking, wCurrentJob := ?id\<rparr>) ?q)"
  let ?p2 = "?p1\<lparr>pJobCancels := (pJobCancels p)(?id \<mapsto> ?c), pNextCtx := ?c + 1\<rparr>"
  define P where "P = addThread ?t ?p2"
  have t: "heldBy ?t = [(j, True)]" "runsOf ?t = [(j, w, ?c)]" by (auto split: option.splits)
  have f: "pThreads P = pThreads p @ [?t]" "pQueue P = js" "pDispatcher P = pDispatcher p" "pNextJob P = pNextJob p"
    "pStopped P = pStopped p" "pJobs P = pJobs p" "pCancelled P = pCancelled p" "pNextCtx P = Suc ?c"
    "pJobCancels P = (pJobCancels p)(?id \<mapsto> ?c)" "jID (pJobStore P k) = jID (pJobStore p k)"
    "jStatus (pJobStore P k) = (if k = j then JobStatusInProgress else jStatus (pJobStore p k))" for k
    by (simp_all add: P_def addThread_def updJob_def updWorker_def)
  have "held p = add_mset (j, False) (held ?q)" "held P = add_mset (j, True) (held ?q)"
    using q f t(1) by (simp_all add: held_def)
  then have "ledger_step (ledgerOf p) (ledgerOf P)" using f by (intro ledger_start [OF q]) simp_all
  moreover have "ids_ok P" using assms(1) f by (auto simp: pool_ok_def intro: ids_ok_keep)
  moreover have "ctx_ok P"
  proof (rule ctx_ok_start)
    show "ctx_ok p" using assms(1) by (simp add: pool_ok_def)
    show "set (runs P) = insert (j, w, pNextCtx p) (set (runs p))" using f(1) t(2) by (simp add: runs_def)
    show "(j, w', c') \<notin> set (runs p)" for w' c' by (rule queued_not_running [OF assms])
  qed (simp_all add: f)
  ultimately have "refines p P" by (simp add: refines_def)
  moreover have "same_jobs P (startOn w fb now j ?q)"
    by (simp add: P_def startOn_def Let_def addThread_def updJob_def updWorker_def emitEvent_def send_def same_jobs_def
        split: option.splits)
  ultimately show ?thesis by (rule refines_after)
qed

lemma refines_requeue:
  assumes "pool_ok p" and q: "pQueue p = j # js"
  shows "refines p (addThread (Requeueing j) (p\<lparr>pQueue := js\<rparr>))"
proof -
  let ?p = "addThread (Requeueing j) (p\<lparr>pQueue := js\<rparr>)"
  have "ledgerOf ?p = ledgerOf p" using q by (simp add: ledgerOf_def held_def addThread_def)
  moreover have "set (runs ?p) \<subseteq> set (runs p)" by (simp add: runs_def addThread_def)
  ultimately show ?thesis
    using assms(1) unfolding refines_def pool_ok_def
    by (auto simp: addThread_def intro!: ids_ok_keep [of p] ctx_ok_keep [of p])
qed

lemma refines_startDryRun:
  assumes "pool_ok p" and q: "pQueue p = j # js" and "pDispatcher p = Idle"
  shows "refines p (startDryRun now j (p\<lparr>pQueue := js\<rparr>))"
proof -
  let ?q = "p\<lparr>pQueue := js\<rparr>"
  define P where "P = (setStatus j JobStatusInProgress ?q)\<lparr>pDispatcher := DryRunning j\<rparr>"
  have f: "held P = add_mset (j, True) (held ?q)" "held p = add_mset (j, False) (held ?q)"
    "runs P = runs p" "pNextJob P = pNextJob p" "pStopped P = pStopped p" "pJobs P = pJobs p"
    "pCancelled P = pCancelled p" "pNextCtx P = pNextCtx p" "pJobCancels P = pJobCancels p"
    "jID (pJobStore P k) = jID (pJobStore p k)"
    "jStatus (pJobStore P k) = (if k = j then JobStatusInProgress else jStatus (pJobStore p k))" for k
    using assms(2,3) by (simp_all add: P_def held_def runs_def setStatus_def updJob_def)
  have "ledger_step (ledgerOf p) (ledgerOf P)" using f by (intro ledger_start [OF q]) simp_all
  moreover have "ids_ok P" using assms(1) f by (auto simp: pool_ok_def intro: ids_ok_keep)
  moreover have "ctx_ok P"
    using assms(1) queued_not_running [OF assms(1,2)] unfolding pool_ok_def ctx_ok_def f by metis
  ultimately have "refines p P" by (simp add: refines_def)
  moreover have "same_jobs P (startDryRun now j ?q)"
    by (simp add: P_def setStatus_def startDryRun_def Let_def updJob_def emitEvent_def send_def same_jobs_def
        split: option.splits)
  ultimately show ?thesis by (rule refines_after)
qed

lemma refines_finishDryRun:
  assumes "pool_ok p" and "pDispatcher p = DryRunning j"
  shows "refines p (finishDryRun now j p)"
proof -
  let ?p = "finishDryRun now j p"
  have f: "held p = add_mset (j, True) (held ?p)" "runs ?p = runs p" "pNextJob ?p = pNextJob p" "pStopped ?p = pStopped p"
    "pJobs ?p = pJobs p" "pCancelled ?p = pCancelled p" "pNextCtx ?p = pNextCtx p" "pJobCancels ?p = pJobCancels p"
    "jID (pJobStore ?p k) = jID (pJobStore p k)"
    "jStatus (pJobStore ?p k) = (if k = j then JobStatusDone else jStatus (pJobStore p k))" for k
    using assms(2) by (simp_all add: finishDryRun_def Let_def held_def runs_def updJob_def)
  have "ledger_step (ledgerOf p) (ledgerOf p\<lparr>lgHeld := held ?p, lgStatus := (lgStatus (ledgerOf p))(j := JobStatusDone)\<rparr>)"
    using f(1) by (intro ledger_step.finish) (simp_all add: ledgerOf_def)
  also have "ledgerOf p\<lparr>lgHeld := held ?p, lgStatus := (lgStatus (ledgerOf p))(j := JobStatusDone)\<rparr> = ledgerOf ?p"
    using f(3,4,10) by (auto simp: ledgerOf_def)
  finally show ?thesis
    using assms(1) f unfolding refines_def pool_ok_def
    by (auto intro!: ids_ok_keep [of p] ctx_ok_keep [of p] split: if_splits)
qed

text \<open>A new job: its identifier is fresh.\<close>

lemma freshID_iff: "freshID uid p \<longleftrightarrow> (\<forall>j < pNextJob p. jID (pJobStore p j) \<noteq> uid)"
  by (auto simp: freshID_def list_all_iff)

definition entered :: "string \<Rightarrow> JobStatus \<Rightarrow> Pool \<Rightarrow> Pool \<Rightarrow> bool" where
  "entered uid st p q \<longleftrightarrow> pNextJob q = Suc (pNextJob p) \<and> pJobs q = AList.update uid (pNextJob p) (pJobs p) \<and>
     pQueue q = pQueue p \<and> pDispatcher q = pDispatcher p \<and> pThreads q = pThreads p \<and> pStopped q = pStopped p \<and>
     pCancelled q = pCancelled p \<and> pNextCtx q = pNextCtx p \<and> pJobCancels q = pJobCancels p \<and>
     (\<forall>k. jID (pJobStore q k) = (if k = pNextJob p then uid else jID (pJobStore p k))) \<and>
     (\<forall>k. jStatus (pJobStore q k) = (if k = pNextJob p then st else jStatus (pJobStore p k)))"

lemma entered_ok:
  assumes "pool_ok p" and "freshID uid p" and "entered uid st p q"
  shows "ids_ok q" and "ctx_ok q"
proof -
  let ?n = "pNextJob p"
  have i: "ids_ok p" using assms(1) by (simp add: pool_ok_def)
  have q: "pNextJob q = Suc ?n" "pJobs q = AList.update uid ?n (pJobs p)"
    "\<And>k. jID (pJobStore q k) = (if k = ?n then uid else jID (pJobStore p k))"
    using assms(3) by (simp_all add: entered_def)
  have fresh: "\<And>k. k < ?n \<Longrightarrow> jID (pJobStore p k) \<noteq> uid" using assms(2) by (simp add: freshID_iff)
  have "j = k" if "j < Suc ?n" "k < Suc ?n" "jID (pJobStore q j) = jID (pJobStore q k)" for j k
    using that fresh [of j] fresh [of k] i unfolding q(3) ids_ok_def by (auto simp: less_Suc_eq)
  moreover have "j < Suc ?n \<and> jID (pJobStore q j) = x" if "map_of (pJobs q) x = Some j" for x j
    using that i unfolding q ids_ok_def by (cases "x = uid") (auto simp: less_Suc_eq)
  ultimately show "ids_ok q" unfolding ids_ok_def q(1) by blast
  have "j < ?n" if "(j, w, c) \<in> set (runs p)" for j w c
  proof -
    have "(j, True) \<in># held p" using runs_heldBy [OF that] by (simp add: held_def)
    with assms(1) show ?thesis by (fastforce simp: pool_ok_def ledger_ok_def ledgerOf_def)
  qed
  moreover have "runs q = runs p" using assms(3) by (simp add: entered_def runs_def)
  moreover have "ctx_ok p" using assms(1) by (simp add: pool_ok_def)
  ultimately show "ctx_ok q" using assms(3) unfolding ctx_ok_def entered_def by (metis less_irrefl)
qed

lemma entered_after: "entered uid st p q \<Longrightarrow> same_jobs q q' \<Longrightarrow> pJobCancels q' = pJobCancels q \<Longrightarrow> entered uid st p q'"
  by (simp add: entered_def same_jobs_def)

lemma applyOptions_same: "same_jobs p (applyOptions j opts p) \<and> pJobCancels (applyOptions j opts p) = pJobCancels p"
  by (cases opts) (auto simp: applyOptions_def same_jobs_def Let_def updJob_def setMeta_def split: option.splits)

lemma entered_register:
  assumes "jID job = uid"
  shows "entered uid (jStatus job) p
    (registerJob (pNextJob p) (applyOptions (pNextJob p) opts (snd (newJob job p))))"
proof -
  note a = applyOptions_same [of "snd (newJob job p)" "pNextJob p" opts]
  have n: "pJobStore (snd (newJob job p)) = (pJobStore p)(pNextJob p := job)" "pNextJob (snd (newJob job p)) = Suc (pNextJob p)"
    by (simp_all add: newJob_def)
  show ?thesis
    using a assms by (simp add: entered_def registerJob_def same_jobs_def n) (simp add: newJob_def)
qed

lemma refines_submit:
  assumes "pool_ok p" and "freshID uid p"
  shows "refines p (SubmitWithOptions uid now t wt prompt opts p)"
proof -
  let ?job = "zeroJob\<lparr>jID := uid, jType := t, jWorktreeID := wt, jPrompt := prompt, jStatus := JobStatusQueued, jCreatedAt := now\<rparr>"
  define q where "q = newStream uid 100 (registerJob (pNextJob p) (applyOptions (pNextJob p) opts (snd (newJob ?job p))))"
  let ?p = "addThread (Submitting (pNextJob p)) q"
  have "entered uid JobStatusQueued p (registerJob (pNextJob p) (applyOptions (pNextJob p) opts (snd (newJob ?job p))))"
    using entered_register [of ?job uid p opts] by simp
  then have e: "entered uid JobStatusQueued p q"
    unfolding q_def by (rule entered_after) simp_all
  have "?p = SubmitWithOptions uid now t wt prompt opts p"
    by (simp add: SubmitWithOptions_def Let_def q_def newJob_def)
  moreover have "ledger_step (ledgerOf p) (ledgerOf p\<lparr>lgHeld := add_mset (lgNext (ledgerOf p), False) (lgHeld (ledgerOf p)),
      lgStatus := (lgStatus (ledgerOf p))(lgNext (ledgerOf p) := JobStatusQueued), lgNext := Suc (lgNext (ledgerOf p))\<rparr>)"
    by (rule ledger_step.enter)
  moreover have "ledgerOf ?p = ledgerOf p\<lparr>lgHeld := add_mset (lgNext (ledgerOf p), False) (lgHeld (ledgerOf p)),
      lgStatus := (lgStatus (ledgerOf p))(lgNext (ledgerOf p) := JobStatusQueued), lgNext := Suc (lgNext (ledgerOf p))\<rparr>"
    using e by (auto simp: entered_def ledgerOf_def held_def addThread_def)
  moreover have "ids_ok ?p" "ctx_ok ?p"
    using entered_ok [OF assms e] by (auto simp: addThread_def runs_def intro!: ids_ok_keep [of q] ctx_ok_keep [of q])
  ultimately show ?thesis by (simp add: refines_def)
qed

lemma refines_submitCached:
  assumes "pool_ok p" and "freshID uid p"
  shows "refines p (SubmitCached uid now t wt prompt res opts p)"
proof -
  let ?job = "zeroJob\<lparr>jID := uid, jType := t, jWorktreeID := wt, jPrompt := prompt, jStatus := JobStatusDone,
      jCreatedAt := now, jStartedAt := Some now, jCompletedAt := Some now, jResult := res\<rparr>"
  let ?r = "registerJob (pNextJob p) (setMeta (pNextJob p) ''cached'' (MetaBool True)
      (applyOptions (pNextJob p) opts (snd (newJob ?job p))))"
  have "entered uid JobStatusDone p (registerJob (pNextJob p) (applyOptions (pNextJob p) opts (snd (newJob ?job p))))"
    using entered_register [of ?job uid p opts] by simp
  moreover have "same_jobs (registerJob j q) (registerJob j (setMeta j k v q)) \<and>
      pJobCancels (registerJob j (setMeta j k v q)) = pJobCancels (registerJob j q)" for j k v q
    by (simp add: same_jobs_def registerJob_def setMeta_def updJob_def split: option.splits)
  ultimately have r: "entered uid JobStatusDone p ?r" by (blast intro: entered_after)
  have "same_jobs ?r (SubmitCached uid now t wt prompt res opts p) \<and>
      pJobCancels (SubmitCached uid now t wt prompt res opts p) = pJobCancels ?r"
    by (simp add: SubmitCached_def newJob_def Let_def same_jobs_def newStream_def send_def)
  with r have e: "entered uid JobStatusDone p (SubmitCached uid now t wt prompt res opts p)"
    by (blast intro: entered_after)
  have "ledger_step (ledgerOf p) (ledgerOf p\<lparr>lgStatus := (lgStatus (ledgerOf p))(lgNext (ledgerOf p) := JobStatusDone),
      lgNext := Suc (lgNext (ledgerOf p))\<rparr>)" by (rule ledger_step.cached)
  moreover have "ledgerOf (SubmitCached uid now t wt prompt res opts p) =
      ledgerOf p\<lparr>lgStatus := (lgStatus (ledgerOf p))(lgNext (ledgerOf p) := JobStatusDone), lgNext := Suc (lgNext (ledgerOf p))\<rparr>"
    using e by (auto simp: entered_def ledgerOf_def held_def)
  ultimately show ?thesis using entered_ok [OF assms e] by (simp add: refines_def)
qed

lemma ctx_ok_cancel:
  assumes "pool_ok p" and "map_of (pJobs p) i = Some j"
    and "runs q = runs p" "pNextCtx q = pNextCtx p" "pJobCancels q = pJobCancels p"
    and ids: "\<And>k. jID (pJobStore q k) = jID (pJobStore p k)"
    and st: "\<And>k. jStatus (pJobStore q k) = (if k = j then JobStatusFailed else jStatus (pJobStore p k))"
    and can: "pCancelled q = (case pJobCancels p i of None \<Rightarrow> pCancelled p | Some c \<Rightarrow> (pCancelled p)(c := True))"
  shows "ctx_ok q"
proof -
  note f = assms(3,4,5)
  have c: "ctx_ok p" and j: "j < pNextJob p" "jID (pJobStore p j) = i"
    and inj: "\<And>k. k < pNextJob p \<Longrightarrow> jID (pJobStore p k) = i \<Longrightarrow> k = j"
    using assms(1,2) by (auto simp: pool_ok_def ids_ok_def)
  have low: "k < pNextJob p" if "(k, w, x) \<in> set (runs p)" for k w x
  proof -
    have "(k, True) \<in># held p" using runs_heldBy [OF that] by (simp add: held_def)
    with assms(1) show ?thesis by (fastforce simp: pool_ok_def ledger_ok_def ledgerOf_def)
  qed
  have "jStatus (pJobStore q k) \<noteq> JobStatusInProgress" if r: "(k, w, x) \<in> set (runs p)" and x: "pCancelled q x" for k w x
  proof (cases "pCancelled p x")
    case True
    with c r st show ?thesis by (auto simp: ctx_ok_def)
  next
    case False
    with x can have "pJobCancels p i = Some x" by (auto split: option.splits if_splits)
    with c r have "jID (pJobStore p k) = i" unfolding ctx_ok_def by blast
    with inj low [OF r] st show ?thesis by auto
  qed
  moreover have "x < pNextCtx p" if "pCancelled q x" for x
    using that c can by (auto simp: ctx_ok_def split: option.splits if_splits)
  ultimately show ?thesis using c unfolding ctx_ok_def f ids by blast
qed

lemma refines_cancel:
  assumes "pool_ok p"
  shows "refines p (snd (CancelJob now jobID p))"
proof (cases "map_of (pJobs p) jobID")
  case None
  then show ?thesis using refines_same [OF assms] by (simp add: CancelJob_def)
next
  case (Some j)
  show ?thesis
  proof (cases "terminal (jStatus (pJobStore p j))")
    case True
    then show ?thesis using Some refines_same [OF assms] by (simp add: CancelJob_def terminal_def)
  next
    case False
    let ?c = "case pJobCancels p jobID of None \<Rightarrow> p | Some ctx \<Rightarrow> p\<lparr>pCancelled := (pCancelled p)(ctx := True)\<rparr>"
    define q where "q = setStatus j JobStatusFailed ?c"
    have f: "held q = held p" "runs q = runs p" "pNextJob q = pNextJob p" "pStopped q = pStopped p" "pJobs q = pJobs p"
      "pJobCancels q = pJobCancels p" "pNextCtx q = pNextCtx p" "jID (pJobStore q k) = jID (pJobStore p k)"
      "jStatus (pJobStore q k) = (if k = j then JobStatusFailed else jStatus (pJobStore p k))"
      "pCancelled q = (case pJobCancels p jobID of None \<Rightarrow> pCancelled p | Some c \<Rightarrow> (pCancelled p)(c := True))" for k
      by (auto simp: q_def held_def runs_def split: option.splits)
    have "ledger_step (ledgerOf p) (ledgerOf p\<lparr>lgStatus := (lgStatus (ledgerOf p))(j := JobStatusFailed)\<rparr>)"
      using False by (intro ledger_step.cancel) (simp add: ledgerOf_def)
    also have "ledgerOf p\<lparr>lgStatus := (lgStatus (ledgerOf p))(j := JobStatusFailed)\<rparr> = ledgerOf q"
      by (auto simp: ledgerOf_def f)
    finally have l: "ledger_step (ledgerOf p) (ledgerOf q)" .
    have i: "ids_ok q" using assms f by (auto simp: pool_ok_def intro: ids_ok_keep)
    have "ctx_ok q" by (rule ctx_ok_cancel [OF assms Some]) (simp_all add: f)
    with l i have "refines p q" by (simp add: refines_def)
    moreover have "same_jobs q (snd (CancelJob now jobID p))"
      using False Some by (simp add: CancelJob_def terminal_def q_def setStatus_def Let_def same_jobs_def updJob_def
          releaseWorker_def updWorker_def split: option.splits)
    ultimately show ?thesis by (rule refines_after)
  qed
qed

lemma refines_removeJob:
  assumes "pool_ok p"
  shows "refines p (RemoveJob jobID p)"
proof -
  let ?p = "RemoveJob jobID p"
  have f: "ledgerOf ?p = ledgerOf p" "runs ?p = runs p" "pNextJob ?p = pNextJob p" "pNextCtx ?p = pNextCtx p"
    "pCancelled ?p = pCancelled p" "pJobStore ?p = pJobStore p" "pJobCancels ?p \<subseteq>\<^sub>m pJobCancels p"
    "map_of (pJobs ?p) \<subseteq>\<^sub>m map_of (pJobs p)"
    by (auto simp: RemoveJob_def ledgerOf_def held_def runs_def map_le_def split: option.splits)
  then show ?thesis
    using assms unfolding refines_def pool_ok_def by (auto intro!: ids_ok_keep [of p] ctx_ok_keep [of p])
qed

lemma refines_stop:
  assumes "pool_ok p"
  shows "refines p (p\<lparr>pStopped := True\<rparr>)"
proof -
  have "ledger_step (ledgerOf p) (ledgerOf p\<lparr>lgStopped := True\<rparr>)" by (rule ledger_step.stop)
  also have "ledgerOf p\<lparr>lgStopped := True\<rparr> = ledgerOf (p\<lparr>pStopped := True\<rparr>)" by (simp add: ledgerOf_def held_def)
  finally show ?thesis
    using assms unfolding refines_def pool_ok_def by (auto simp: runs_def intro!: ids_ok_keep [of p] ctx_ok_keep [of p])
qed

lemma refines_dispatch:
  assumes "pool_ok p" and "dispatch c c' ws now p = Some p'"
  shows "refines p p'"
proof -
  from assms(2) obtain j js where q: "pQueue p = j # js" "pDispatcher p = Idle"
      and p': "p' = assignJob c c' ws now j (p\<lparr>pQueue := js\<rparr>)"
    by (auto simp: dispatch_def split: DispatcherState.splits list.splits if_splits)
  show ?thesis
    unfolding p' assignJob_def
    using refines_startDryRun [OF assms(1) q] refines_startOn [OF assms(1) q(1)] refines_requeue [OF assms(1) q(1)]
    by (auto split: option.splits)
qed

lemma refines_dispatcherStep:
  assumes "pool_ok p" and "dispatcherStep now p = Some p'"
  shows "refines p p'"
proof (cases "pDispatcher p")
  case (DryRunning j)
  with assms show ?thesis using refines_finishDryRun [OF assms(1) DryRunning, of now] by (simp add: dispatcherStep_def)
next
  case (DispatcherClosing ops)
  have d: "refines p (p\<lparr>pDispatcher := DispatcherClosing ops'\<rparr>)" "refines p (p\<lparr>pDispatcher := Idle\<rparr>)" for ops'
    using assms(1) DispatcherClosing unfolding refines_def pool_ok_def
    by (auto simp: ledgerOf_def held_def runs_def intro!: ids_ok_keep [of p] ctx_ok_keep [of p])
  with assms(2) DispatcherClosing show ?thesis
    by (cases ops) (auto simp: dispatcherStep_def intro: refines_after [OF d(1) same_jobs_applyOp])
qed (use assms in \<open>simp add: dispatcherStep_def\<close>)

lemma refines_listWorkers: "pool_ok p \<Longrightarrow> refines p (snd (ListWorkers c p))"
  by (rule refines_same) (simp_all add: ListWorkers_def Let_def same_jobs_fold)

lemma refines_addAgent: "pool_ok p \<Longrightarrow> refines p (addThread (Adding a name d) p)"
  unfolding refines_def pool_ok_def
  by (auto simp: addThread_def ledgerOf_def held_def runs_def intro!: ids_ok_keep [of p] ctx_ok_keep [of p])

text \<open>Goroutines.\<close>

lemma closingThread_idle [simp]: "concat (map heldBy (closingThread ops)) = []" "concat (map runsOf (closingThread ops)) = []"
  by (simp_all add: closingThread_def split: list.splits)

lemma refines_goThread:
  assumes "pool_ok p" and i: "i < length (pThreads p)" and "goThread i uid now p = Some p'"
  shows "refines p p'"
proof (cases "pThreads p ! i")
  case (Submitting j)
  with assms show ?thesis using refines_enqueue [OF assms(1) i] by (auto simp: goThread_def split: if_splits)
next
  case (Requeueing j)
  with assms show ?thesis using refines_enqueue [OF assms(1) i] by (auto simp: goThread_def split: if_splits)
next
  case (Simulating j w c ms)
  show ?thesis
  proof (cases ms)
    case Nil
    with Simulating assms(3) obtain us where p': "p' = putThreads i us (completeJob now (simulatedResult (pJobStore p j)) j w p)"
        and us: "concat (map heldBy us) = []" "concat (map runsOf us) = []"
      by (auto simp: goThread_def Let_def)
    show ?thesis
      unfolding p' using Simulating us by (intro refines_end [OF assms(1) i _ _ _ _ same_jobs_ended(1)]) simp_all
  next
    case (Cons m ms')
    let ?q = "emitEvent (jID (pJobStore p j)) (event ''stream'' (jID (pJobStore p j)) m) p"
    have q: "pool_ok ?q" "pThreads ?q = pThreads p"
      using same_jobs_ok(3) [OF same_jobs_basic(1) assms(1)] by (simp_all add: emitEvent_def send_def Let_def split: option.splits)
    have "refines ?q (putThreads i [Simulating j w c ms'] ?q)"
      using q i Simulating by (intro refines_move) simp_all
    with Simulating Cons assms(3) show ?thesis
      by (auto simp: goThread_def intro: refines_before [OF same_jobs_basic(1)])
  qed
next
  case (Closing ops)
  then obtain op ops' where ops: "ops = op # ops'" "p' = applyPoolOp op (putThreads i (closingThread ops') p)"
    using assms(3) by (cases ops) (auto simp: goThread_def)
  have "refines p (putThreads i (closingThread ops') p)"
    using assms(1) i Closing by (intro refines_move) simp_all
  then show ?thesis unfolding ops(2) by (rule refines_after) simp
next
  case (Adding a name d)
  then have p': "p' = endAgentWorker uid now a name d (putThreads i [] p)" using assms(3) by (simp add: goThread_def)
  have "refines p (putThreads i [] p)" using assms(1) i Adding by (intro refines_move) simp_all
  then show ?thesis unfolding p' endAgentWorker_def by (rule refines_after) simp
qed (use assms(3) in \<open>simp_all add: goThread_def\<close>)

lemma refines_quitThread:
  assumes "pool_ok p" and i: "i < length (pThreads p)" and "quitThread i p = Some p'"
  shows "refines p p'"
proof -
  have "\<exists>j b. p' = putThreads i [] p \<and> heldBy (pThreads p ! i) = [(j, b)] \<and>
      (pStopped p \<or> b \<and> jStatus (pJobStore p j) \<noteq> JobStatusInProgress)"
  proof (cases "pThreads p ! i")
    case (Simulating j w c ms)
    then have p': "p' = putThreads i [] p" "pStopped p \<or> pCancelled p c"
      using assms(3) by (auto simp: quitThread_def split: list.splits if_splits)
    have "(j, w, c) \<in> set (runs p)" using Simulating nth_mem [OF i] by (force simp: runs_def)
    then have "pCancelled p c \<Longrightarrow> jStatus (pJobStore p j) \<noteq> JobStatusInProgress"
      using assms(1) unfolding pool_ok_def ctx_ok_def by blast
    with p' Simulating show ?thesis by auto
  qed (use assms(3) in \<open>auto simp: quitThread_def split: if_splits\<close>)
  then show ?thesis using refines_leave [OF assms(1) i] by auto
qed

lemma refines_ended:
  assumes "pool_ok p" and "i < length (pThreads p)" and "heldBy (pThreads p ! i) = [(j, True)]"
    and "same_jobs p q" and "same_jobs (setStatus j st q) r" and "terminal st"
  shows "refines p (putThreads i [Closing ops] r)"
proof -
  have "same_jobs (setStatus j st p) r" by (rule same_jobs_trans [OF same_jobs_setStatus [OF assms(4)] assms(5)])
  then show ?thesis using assms by (intro refines_end) simp_all
qed

lemma refines_agentEvent:
  assumes "pool_ok p" and i: "i < length (pThreads p)" and t: "pThreads p ! i = Streaming j w c r f b"
  shows "refines p (agentEvent i now e j w c (r, f, b) p)"
proof -
  let ?id = "jID (pJobStore p j)"
  let ?q = "emitEvent ?id \<lparr>evType = aeType e, evJobID = ?id, evContent = aeContent e, evData = aeData e\<rparr> p"
  have h: "heldBy (pThreads p ! i) = [(j, True)]" using t by simp
  have q: "pool_ok ?q" "pThreads ?q = pThreads p"
    using same_jobs_ok(3) [OF same_jobs_basic(1) assms(1)] by (simp_all add: emitEvent_def send_def Let_def split: option.splits)
  obtain r' f' b' where rd: "accumulate e (r, f, b) = (r', f', b')" using prod_cases3 by blast
  have "refines ?q (putThreads i [Streaming j w c r' f' b'] ?q)"
    using q i t by (intro refines_move) simp_all
  then have go: "refines p (putThreads i [Streaming j w c r' f' b'] ?q)"
    by (rule refines_before [OF same_jobs_basic(1)])
  have "same_jobs (setStatus j JobStatusDone ?q) (captureTokens j (aeData e) (completeJob now res j w ?q))" for res
    by (rule same_jobs_trans [OF same_jobs_ended(1) same_jobs_captureTokens])
  then have "refines p (putThreads i [Closing ops] (captureTokens j (aeData e) (completeJob now res j w ?q)))" for ops res
    by (rule refines_ended [OF assms(1) i h same_jobs_basic(1)]) simp
  moreover have "refines p (putThreads i [Closing ops] (failJob now err j w ?q))" for ops err
    by (rule refines_ended [OF assms(1) i h same_jobs_basic(1) same_jobs_ended(2)]) simp
  ultimately show ?thesis
    using go unfolding agentEvent_def Let_def rd prod.case
    by (cases "aeType e = EventComplete"; cases "aeType e = EventError") (simp_all only: if_True if_False simp_thms)
qed

lemma same_jobs_recordPath [simp]: "same_jobs p (recordPath recording j p)"
  by (simp add: recordPath_def split: option.splits)

lemma refines_agentThread:
  assumes "pool_ok p" and "threadOf a = Some i" and i: "i < length (pThreads p)" and "agentThread a p = Some p'"
  shows "refines p p'"
proof (cases a)
  case (AgentReady k recording)
  with assms(2,4) obtain j w c where t: "pThreads p ! i = Starting j w c" and p': "p' = agentReady i recording j w c p"
    by (auto simp: agentThread_def split: PoolThread.splits)
  let ?q = "recordPath recording j p"
  have s: "same_jobs p ?q" by simp
  then have "pThreads ?q = pThreads p" by (simp add: same_jobs_def)
  then have "refines ?q (putThreads i [Streaming j w c [] [] False] ?q)"
    using same_jobs_ok(3) [OF s assms(1)] i t by (intro refines_move) simp_all
  then show ?thesis unfolding p' agentReady_def by (rule refines_before [OF s])
next
  case (AgentRefused k connecting recording err now)
  with assms(2,4) obtain j w c where t: "pThreads p ! i = Starting j w c" and p': "p' = agentRefused i connecting recording err now j w p"
    by (auto simp: agentThread_def split: PoolThread.splits if_splits)
  show ?thesis
    unfolding p' agentRefused_def Let_def
    by (rule refines_ended [OF assms(1) i _ same_jobs_trans [OF same_jobs_recordPath same_jobs_basic(1)] same_jobs_ended(2)])
      (simp_all add: t)
next
  case (AgentSays k e now)
  with assms(2,4) obtain j w c r f b where "pThreads p ! i = Streaming j w c r f b"
      and p': "p' = agentEvent i now e j w c (r, f, b) p"
    by (auto simp: agentThread_def split: PoolThread.splits)
  with refines_agentEvent [OF assms(1) i] show ?thesis by simp
next
  case (AgentDone k now)
  with assms(2,4) obtain j w c r f b where t: "pThreads p ! i = Streaming j w c r f b"
      and p': "p' = agentClosed i now j w (r, f, b) p"
    by (auto simp: agentThread_def split: PoolThread.splits)
  have h: "heldBy (pThreads p ! i) = [(j, True)]" using t by simp
  have "refines p (putThreads i [Closing ops] (completeJob now res j w p))" for ops res
    by (rule refines_ended [OF assms(1) i h same_jobs_refl same_jobs_ended(1)]) simp
  moreover have "refines p (putThreads i [Closing ops] (releaseWorker w p))" if "jStatus (pJobStore p j) \<noteq> JobStatusInProgress" for ops
  proof -
    have "refines p (putThreads i [Closing ops] p)"
      using that by (intro refines_leave [OF assms(1) i h]) auto
    moreover have "same_jobs (putThreads i [Closing ops] p) (putThreads i [Closing ops] (releaseWorker w p))"
      by (simp add: same_jobs_def releaseWorker_def updWorker_def putThreads_def)
    ultimately show ?thesis by (rule refines_after)
  qed
  ultimately show ?thesis unfolding p' agentClosed_def Let_def by simp
next
  case (Panics k msg now)
  with assms(2,4) obtain j w where h: "heldBy (pThreads p ! i) = [(j, True)]" and p': "p' = panicked i msg now j w p"
    by (auto simp: agentThread_def split: PoolThread.splits)
  show ?thesis
    unfolding p' panicked_def by (rule refines_ended [OF assms(1) i h same_jobs_refl same_jobs_ended(2)]) simp
qed (use assms(4) in \<open>simp_all add: agentThread_def\<close>)

section \<open>The refinement\<close>

lemma refines_step:
  assumes "pool_ok p" and "poolExec a p = Some p'"
  shows "refines p p'"
proof (cases "threadOf a")
  case None
  then show ?thesis
    using assms refines_submit [OF assms(1)] refines_submitCached [OF assms(1)] refines_cancel [OF assms(1)]
      refines_removeJob [OF assms(1)] refines_stop [OF assms(1)] refines_listWorkers [OF assms(1)]
      refines_dispatch [OF assms(1)] refines_dispatcherStep [OF assms(1)]
    by (cases a) (auto simp: poolExec_def AddWorkerWithAgent_def AddDefaultWorker_def beginAgentWorker_def RemoveWorker_def
        split: if_splits option.splits sum.splits intro: refines_same refines_addAgent)
next
  case (Some i)
  then have i: "i < length (pThreads p)" using assms(2) by (cases a) (auto simp: poolExec_def split: if_splits)
  note agent = refines_agentThread [OF assms(1) Some i]
  from Some assms i agent show ?thesis
    by (cases a) (auto simp: poolExec_def intro: refines_goThread refines_quitThread)
qed

interpretation pool: step_invariant pool_init pool_step pool_ok
proof
  show "pool_ok p" if "pool_init p" for p
    using that by (auto simp: pool_init_def pool_ok_def ids_ok_def ctx_ok_def ledger_ok_def ledgerOf_def held_def runs_def NewPool_def)
next
  fix p p'
  assume p: "pool_ok p" and "pool_step p p'"
  then have r: "refines p p'" by (auto simp: pool_step_def intro: refines_step)
  then have "ledger_ok (ledgerOf p')" using p ledger_ok_step by (auto simp: refines_def pool_ok_def)
  with r show "pool_ok p'" by (simp add: refines_def pool_ok_def)
qed

end
