(* ===== verification/Pool_Workers.thy ===== *)
theory Pool_Workers
  imports Pool_Refinement
begin

text \<open>
  Workers: the choice of a worker, the exclusive use of workers as long as no job is cancelled and no
  listing refreshes their status, and the text of a job's result.
\<close>

section \<open>Exclusive workers\<close>

definition exclusive :: "Pool \<Rightarrow> bool" where
  "exclusive p \<longleftrightarrow> distinct (map (\<lambda>(j, w, c). w) (runs p)) \<and>
     (\<forall>(j, w, c) \<in> set (runs p). w < pNextWorker p \<and> wStatus (pWorkerStore p w) = StatusWorking \<and>
        wCurrentJob (pWorkerStore p w) = jID (pJobStore p j)) \<and>
     (\<forall>w \<in> snd ` set (pWorkers p). w < pNextWorker p)"

text \<open>What touches neither goroutines nor workers.\<close>

definition same_work :: "Pool \<Rightarrow> Pool \<Rightarrow> bool" where
  "same_work p p' \<longleftrightarrow> pThreads p' = pThreads p \<and> pNextWorker p' = pNextWorker p \<and> pWorkers p' = pWorkers p \<and>
     pWorkerStore p' = pWorkerStore p \<and> (\<forall>j. jID (pJobStore p' j) = jID (pJobStore p j))"

lemma same_work_refl [simp]: "same_work p p"
  by (simp add: same_work_def)

lemma same_work_trans: "same_work p p' \<Longrightarrow> same_work p' p'' \<Longrightarrow> same_work p p''"
  by (simp add: same_work_def)

lemma same_work_basic [simp]:
  "same_work p (emitEvent i e p)" "same_work p (send ch e p)" "same_work p (removeStream i p)"
  "same_work p (dropCancel i p)" "same_work p (newStream i n p)" "same_work p (setMeta j k v p)"
  "same_work p (setStatus j st p)" "same_work p (registerJob j p)"
  by (auto simp: same_work_def emitEvent_def send_def removeStream_def dropCancel_def newStream_def setMeta_def
      updJob_def setStatus_def registerJob_def Let_def split: option.splits)

lemma same_work_applyOp [simp]: "same_work p (applyPoolOp op p)"
  by (cases op) simp_all

lemma same_work_applyOptions [simp]: "same_work p (applyOptions j opts p)"
  by (cases opts) (auto simp: applyOptions_def same_work_def Let_def updJob_def setMeta_def split: option.splits)

lemma same_work_fold: "(\<And>x q. same_work q (f x q)) \<Longrightarrow> same_work p (fold f xs p)"
  by (rule fold_chain) (auto intro: same_work_trans)

lemma same_work_captureTokens [simp]: "same_work p (captureTokens j dat p)"
proof (cases dat)
  case (Some d)
  let ?q = "case jMetadata (pJobStore p j) of Some _ \<Rightarrow> p
    | None \<Rightarrow> (updJob j (\<lambda>job. job\<lparr>jMetadata := Some (pNextMeta p)\<rparr>) p)\<lparr>
         pMetaStore := (pMetaStore p)(pNextMeta p := (\<lambda>_. None)), pNextMeta := pNextMeta p + 1\<rparr>"
  have "same_work p ?q" by (simp add: same_work_def updJob_def split: option.splits)
  moreover have "same_work ?q (fold (\<lambda>k p. case d k of None \<Rightarrow> p | Some v \<Rightarrow> setMeta j k v p) tokenKeys ?q)"
    by (rule same_work_fold) (simp split: option.splits)
  ultimately show ?thesis unfolding Some captureTokens_def option.case by (rule same_work_trans)
qed (simp add: captureTokens_def)

lemma exclusive_same: "exclusive p \<Longrightarrow> same_work p p' \<Longrightarrow> exclusive p'"
  by (simp add: exclusive_def same_work_def runs_def)

text \<open>Goroutines that go on, end, or start.\<close>

lemma mset_runs_putThreads:
  assumes "i < length (pThreads p)"
  shows "mset (runs (putThreads i us p)) + mset (runsOf (pThreads p ! i)) = mset (runs p) + mset (concat (map runsOf us))"
  using thread_split [OF assms, of runsOf us] by (simp add: runs_def putThreads_def)

lemma exclusive_mset:
  assumes "exclusive p" and "mset (runs p') \<subseteq># mset (runs p)" and "pNextWorker p \<le> pNextWorker p'"
    and "\<And>w. w \<in> snd ` set (pWorkers p') \<Longrightarrow> w < pNextWorker p'"
    and "\<And>j w c. (j, w, c) \<in> set (runs p') \<Longrightarrow> wStatus (pWorkerStore p' w) = wStatus (pWorkerStore p w) \<and>
      wCurrentJob (pWorkerStore p' w) = wCurrentJob (pWorkerStore p w) \<and> jID (pJobStore p' j) = jID (pJobStore p j)"
  shows "exclusive p'"
proof -
  have sub: "set (runs p') \<subseteq> set (runs p)" using assms(2) by (metis mset_subset_eqD set_mset_mset subsetI)
  have "mset (map (\<lambda>(j, w, c). w) (runs p')) \<subseteq># mset (map (\<lambda>(j, w, c). w) (runs p))"
    using image_mset_subseteq_mono [OF assms(2)] by simp
  then have "distinct (map (\<lambda>(j, w, c). w) (runs p'))"
    using assms(1) unfolding exclusive_def by (blast intro: distinct_submset)
  with sub assms(1,3,4,5) show ?thesis unfolding exclusive_def by fastforce
qed

lemma exclusive_move:
  assumes "exclusive p" and "i < length (pThreads p)" and "mset (concat (map runsOf us)) \<subseteq># mset (runsOf (pThreads p ! i))"
  shows "exclusive (putThreads i us p)"
proof (rule exclusive_mset [OF assms(1)])
  show "mset (runs (putThreads i us p)) \<subseteq># mset (runs p)"
    using mset_runs_putThreads [OF assms(2), of us] assms(3)
    by (metis mset_subset_eq_mono_add_right_cancel subset_mset.add_left_mono)
qed (use assms(1) in \<open>auto simp: putThreads_def exclusive_def\<close>)

lemma exclusive_end:
  assumes "exclusive p" and i: "i < length (pThreads p)" and t: "runsOf (pThreads p ! i) = [(j, w, c)]"
    and us: "concat (map runsOf us) = []" and "same_work p q" and "same_work (releaseWorker w q) r"
  shows "exclusive (putThreads i us r)"
proof -
  have f: "pThreads r = pThreads p" "pNextWorker r = pNextWorker p" "pWorkers r = pWorkers p"
    "\<And>v. v \<noteq> w \<Longrightarrow> pWorkerStore r v = pWorkerStore p v" "\<And>k. jID (pJobStore r k) = jID (pJobStore p k)"
    using assms(5,6) by (simp_all add: same_work_def releaseWorker_def updWorker_def)
  have m: "add_mset (j, w, c) (mset (runs (putThreads i us r))) = mset (runs p)"
    using mset_runs_putThreads [of i r us] i t us f(1) by (simp add: runs_def)
  then have "mset (map (\<lambda>(j, w, c). w) ((j, w, c) # runs (putThreads i us r))) = mset (map (\<lambda>(j, w, c). w) (runs p))"
    by (metis mset.simps(2) mset_map)
  then have "distinct (map (\<lambda>(j, w, c). w) ((j, w, c) # runs (putThreads i us r)))"
    using assms(1) mset_eq_imp_distinct_iff unfolding exclusive_def by blast
  then have w: "\<And>j' w' c'. (j', w', c') \<in> set (runs (putThreads i us r)) \<Longrightarrow> w' \<noteq> w" by force
  show ?thesis
  proof (rule exclusive_mset [OF assms(1)])
    show "mset (runs (putThreads i us r)) \<subseteq># mset (runs p)" unfolding m [symmetric] by simp
  qed (use f w assms(1) in \<open>auto simp: putThreads_def exclusive_def\<close>)
qed

section \<open>Choosing a worker\<close>

text \<open>A worker that can take a job, and one that is as the job prefers.\<close>

definition usable :: "(nat \<Rightarrow> bool) \<Rightarrow> Worker \<Rightarrow> bool" where
  "usable connected wk \<longleftrightarrow> wStatus wk = StatusAvailable \<and> (case wAgent wk of None \<Rightarrow> True | Some a \<Rightarrow> connected a)"

definition suits :: "string \<Rightarrow> Worker \<Rightarrow> bool" where
  "suits preferred wk \<longleftrightarrow> wAgent wk = None \<or> preferred = [] \<or> wAgentName wk = preferred"

definition pickWorker :: "(nat \<Rightarrow> bool) \<Rightarrow> string \<Rightarrow> (wref \<Rightarrow> Worker) \<Rightarrow> wref list \<Rightarrow> (wref \<times> bool) option" where
  "pickWorker connected preferred store ws =
     (case List.find (\<lambda>w. usable connected (store w) \<and> suits preferred (store w)) ws of
        Some w \<Rightarrow> Some (w, False)
      | None \<Rightarrow> map_option (\<lambda>w. (w, True)) (List.find (\<lambda>w. usable connected (store w)) ws))"

lemma scan_Cons:
  "scanWorkers connected preferred store (w # ws) fb =
     (if \<not> usable connected (store w) then scanWorkers connected preferred store ws fb
      else if suits preferred (store w) then (Some w, fb)
      else scanWorkers connected preferred store ws (if fb = None then Some w else fb))"
  by (cases "wAgent (store w)") (simp_all add: usable_def suits_def)

lemma scan_exact:
  "fst (scanWorkers connected preferred store ws fb) =
     List.find (\<lambda>w. usable connected (store w) \<and> suits preferred (store w)) ws"
  by (induction ws arbitrary: fb) (simp_all add: scan_Cons del: scanWorkers.simps(2))

lemma scan_fallback:
  "List.find (\<lambda>w. usable connected (store w) \<and> suits preferred (store w)) ws = None \<Longrightarrow>
   snd (scanWorkers connected preferred store ws fb) =
     (if fb = None then List.find (\<lambda>w. usable connected (store w)) ws else fb)"
  by (induction ws arbitrary: fb) (auto simp add: scan_Cons simp del: scanWorkers.simps(2) split: if_splits)

lemma chooseWorker_pick:
  "chooseWorker connected connected ws j p = pickWorker connected (preferredAgent p j) (pWorkerStore p) ws"
proof -
  let ?ws = ws and ?s = "pWorkerStore p" and ?pr = "preferredAgent p j"
  obtain r fb where scan: "scanWorkers connected ?pr ?s ?ws None = (r, fb)" by fastforce
  have r: "r = List.find (\<lambda>w. usable connected (?s w) \<and> suits ?pr (?s w)) ?ws"
    using scan_exact [of connected ?pr ?s ?ws None] scan by simp
  show ?thesis
  proof (cases r)
    case (Some w)
    then show ?thesis by (simp add: chooseWorker_def pickWorker_def scan r [symmetric])
  next
    case None
    then have fb: "fb = List.find (\<lambda>w. usable connected (?s w)) ?ws"
      using scan_fallback [of connected ?s ?pr ?ws None] r scan by simp
    show ?thesis
    proof (cases fb)
      case (Some w)
      then have u: "usable connected (?s w)" "w \<in> set ?ws" using fb by (auto simp: find_Some_iff)
      with None r have "\<not> suits ?pr (?s w)" by (auto simp: find_None_iff)
      with u(1) obtain a where "wAgent (?s w) = Some a" "connected a" by (auto simp: usable_def suits_def split: option.splits)
      with None Some show ?thesis by (simp add: chooseWorker_def pickWorker_def scan r [symmetric] fb [symmetric])
    next
      case no: None
      with None show ?thesis by (simp add: chooseWorker_def pickWorker_def scan r [symmetric] fb [symmetric])
    qed
  qed
qed

lemma scan_available:
  assumes "scanWorkers connected preferred store ws fb = (r, fb')" and "w \<in> set_option r \<union> set_option fb'"
  shows "w \<in> set_option fb \<or> w \<in> set ws \<and> wStatus (store w) = StatusAvailable"
  using assms
  by (induction ws arbitrary: fb)
    (auto simp add: scan_Cons usable_def simp del: scanWorkers.simps(2) split: if_splits)

lemma chooseWorker_available:
  assumes "chooseWorker connected connected' ws j p = Some (w, fb)"
  shows "w \<in> set ws \<and> wStatus (pWorkerStore p w) = StatusAvailable"
proof -
  obtain r fb' where s: "scanWorkers connected (preferredAgent p j) (pWorkerStore p) ws None = (r, fb')"
    by fastforce
  with assms have "w \<in> set_option r \<union> set_option fb'"
    by (auto simp: chooseWorker_def split: option.splits if_splits)
  from scan_available [OF s this] show ?thesis by simp
qed

section \<open>Steps without cancellation\<close>

text \<open>
  The steps that keep workers exclusive: all but a cancellation, which frees the worker of a job whose
  goroutine still runs, and a listing, which can turn a disconnected working worker into an available
  one.
\<close>

fun quiet :: "PoolAction \<Rightarrow> bool" where
  "quiet (DoCancel _ _) = False"
| "quiet (DoList _) = False"
| "quiet _ = True"

definition quiet_step :: "Pool \<Rightarrow> Pool \<Rightarrow> bool" where
  "quiet_step p p' \<longleftrightarrow> (\<exists>a. quiet a \<and> poolExec a p = Some p')"

lemma exclusive_startOn:
  assumes "exclusive p" and "w \<in> snd ` set (pWorkers p)" and "wStatus (pWorkerStore p w) = StatusAvailable"
  shows "exclusive (startOn w fb now j p)"
proof -
  let ?p = "startOn w fb now j p"
  have r: "runs ?p = runs p @ [(j, w, pNextCtx p)]"
    by (simp add: startOn_def Let_def addThread_def runs_def updJob_def updWorker_def emitEvent_def send_def split: option.splits)
  have f: "pNextWorker ?p = pNextWorker p" "pWorkers ?p = pWorkers p" "jID (pJobStore ?p k) = jID (pJobStore p k)"
    "wStatus (pWorkerStore ?p v) = (if v = w then StatusWorking else wStatus (pWorkerStore p v))"
    "wCurrentJob (pWorkerStore ?p v) = (if v = w then jID (pJobStore p j) else wCurrentJob (pWorkerStore p v))" for k v
    by (simp_all add: startOn_def Let_def addThread_def updJob_def updWorker_def emitEvent_def send_def split: option.splits)
  have new: "w' \<noteq> w" if "(j', w', c') \<in> set (runs p)" for j' w' c'
    using that assms(1,3) by (auto simp: exclusive_def)
  then have "w \<notin> (\<lambda>(j, w, c). w) ` set (runs p)" by force
  then show ?thesis using assms(1,2) new unfolding exclusive_def r f by auto
qed

lemma exclusive_newWorker:
  assumes "exclusive p"
  shows "exclusive (newWorker wk p)"
proof (rule exclusive_mset [OF assms])
  have r: "runs (newWorker wk p) = runs p" by (simp add: newWorker_def runs_def)
  then show "mset (runs (newWorker wk p)) \<subseteq># mset (runs p)" by simp
  show "w < pNextWorker (newWorker wk p)" if "w \<in> snd ` set (pWorkers (newWorker wk p))" for w
    using that assms snd_set_update [of "wID wk" "pNextWorker p" "pWorkers p"]
    by (fastforce simp: newWorker_def exclusive_def less_Suc_eq)
  fix j w c
  assume "(j, w, c) \<in> set (runs (newWorker wk p))"
  then have "w \<noteq> pNextWorker p" using r assms by (auto simp: exclusive_def)
  then show "wStatus (pWorkerStore (newWorker wk p) w) = wStatus (pWorkerStore p w) \<and>
    wCurrentJob (pWorkerStore (newWorker wk p) w) = wCurrentJob (pWorkerStore p w) \<and>
    jID (pJobStore (newWorker wk p) j) = jID (pJobStore p j)" by (simp add: newWorker_def)
qed (simp add: newWorker_def)

lemma exclusive_ended:
  assumes "exclusive p" and "i < length (pThreads p)" and "runsOf (pThreads p ! i) = [(j, w, c)]" and "same_work p q"
  shows "exclusive (putThreads i [Closing ops] (completeJob now out j w q))"
    and "exclusive (putThreads i [Closing ops] (failJob now err j w q))"
    and "exclusive (putThreads i [Closing ops] (releaseWorker w q))"
    and "exclusive (putThreads i [Closing ops] (captureTokens j dat (completeJob now out j w q)))"
proof -
  have w: "same_work (releaseWorker w q) (completeJob now out j w q)" "same_work (releaseWorker w q) (failJob now err j w q)"
    by (simp_all add: completeJob_def failJob_def same_work_def updJob_def)
  note e = exclusive_end [OF assms(1-3) _ assms(4)]
  show "exclusive (putThreads i [Closing ops] (completeJob now out j w q))" by (rule e [OF _ w(1)]) simp
  show "exclusive (putThreads i [Closing ops] (failJob now err j w q))" by (rule e [OF _ w(2)]) simp
  show "exclusive (putThreads i [Closing ops] (releaseWorker w q))" by (rule e) simp_all
  show "exclusive (putThreads i [Closing ops] (captureTokens j dat (completeJob now out j w q)))"
    by (rule e [OF _ same_work_trans [OF w(1) same_work_captureTokens]]) simp
qed

lemma exclusive_on:
  assumes "exclusive p" and "i < length (pThreads p)" and "same_work p q" and "concat (map runsOf us) = runsOf (pThreads p ! i)"
  shows "exclusive (putThreads i us q)"
proof -
  have "exclusive q" "pThreads q = pThreads p" using exclusive_same [OF assms(1,3)] assms(3) by (simp_all add: same_work_def)
  with assms(2,4) show ?thesis by (intro exclusive_move) simp_all
qed

lemma same_work_recordPath [simp]: "same_work p (recordPath recording j p)"
  by (simp add: recordPath_def split: option.splits)

lemma exclusive_agentThread:
  assumes "exclusive p" and "threadOf a = Some i" and "i < length (pThreads p)" and "agentThread a p = Some p'"
  shows "exclusive p'"
proof (cases a)
  case (AgentReady k recording)
  with assms(2,4) obtain j w c where t: "pThreads p ! i = Starting j w c" and p': "p' = agentReady i recording j w c p"
    by (auto simp: agentThread_def split: PoolThread.splits)
  show ?thesis
    unfolding p' agentReady_def by (rule exclusive_on [OF assms(1,3)]) (simp_all add: t)
next
  case (AgentRefused k connecting recording err now)
  with assms(2,4) obtain j w c where t: "pThreads p ! i = Starting j w c" and p': "p' = agentRefused i connecting recording err now j w p"
    by (auto simp: agentThread_def split: PoolThread.splits if_splits)
  show ?thesis
    unfolding p' agentRefused_def Let_def
    by (rule exclusive_ended(2) [OF assms(1,3) _ same_work_trans [OF same_work_recordPath same_work_basic(1)]]) (simp_all add: t)
next
  case (AgentSays k e now)
  with assms(2,4) obtain j w c r f b where t: "pThreads p ! i = Streaming j w c r f b"
      and p': "p' = agentEvent i now e j w c (r, f, b) p"
    by (auto simp: agentThread_def split: PoolThread.splits)
  obtain r' f' b' where rd: "accumulate e (r, f, b) = (r', f', b')" using prod_cases3 by blast
  note e = exclusive_ended [OF assms(1,3), of j w c, simplified t, OF _ same_work_basic(1)]
  have go: "exclusive (putThreads i [Streaming j w c r' f' b'] (emitEvent jid ev p))" for jid ev
    by (rule exclusive_on [OF assms(1,3)]) (simp_all add: t)
  show ?thesis
    using e(2,4) go unfolding p' agentEvent_def Let_def rd prod.case
    by (cases "aeType e = EventComplete"; cases "aeType e = EventError") (simp_all only: if_True if_False simp_thms runsOf.simps)
next
  case (AgentDone k now)
  with assms(2,4) obtain j w c r f b where t: "pThreads p ! i = Streaming j w c r f b"
      and p': "p' = agentClosed i now j w (r, f, b) p"
    by (auto simp: agentThread_def split: PoolThread.splits)
  then show ?thesis
    using exclusive_ended(1,3) [OF assms(1,3), of j w c, OF _ same_work_refl] unfolding p' agentClosed_def Let_def by simp
next
  case (Panics k msg now)
  with assms(2,4) obtain j w c where t: "runsOf (pThreads p ! i) = [(j, w, c)]" and p': "p' = panicked i msg now j w p"
    by (auto simp: agentThread_def split: PoolThread.splits)
  show ?thesis unfolding p' panicked_def by (rule exclusive_ended(2) [OF assms(1,3) t same_work_refl])
qed (use assms(4) in \<open>simp_all add: agentThread_def\<close>)

lemma exclusive_goThread:
  assumes "exclusive p" and i: "i < length (pThreads p)" and "goThread i uid now p = Some p'"
  shows "exclusive p'"
proof (cases "pThreads p ! i")
  case (Submitting j)
  with assms(3) have "p' = putThreads i [] (p\<lparr>pQueue := pQueue p @ [j]\<rparr>)" by (auto simp: goThread_def split: if_splits)
  then show ?thesis using exclusive_on [OF assms(1) i, of "p\<lparr>pQueue := pQueue p @ [j]\<rparr>" "[]"] Submitting by (simp add: same_work_def)
next
  case (Requeueing j)
  with assms(3) have "p' = putThreads i [] (p\<lparr>pQueue := pQueue p @ [j]\<rparr>)" by (auto simp: goThread_def split: if_splits)
  then show ?thesis using exclusive_on [OF assms(1) i, of "p\<lparr>pQueue := pQueue p @ [j]\<rparr>" "[]"] Requeueing by (simp add: same_work_def)
next
  case (Simulating j w c ms)
  show ?thesis
  proof (cases ms)
    case Nil
    with Simulating assms(3) show ?thesis
      using exclusive_ended(1) [OF assms(1) i _ same_work_refl] by (auto simp: goThread_def Let_def)
  next
    case (Cons m ms')
    with Simulating assms(3) show ?thesis
      using exclusive_on [OF assms(1) i same_work_basic(1)] by (auto simp: goThread_def)
  qed
next
  case (Closing ops)
  then obtain op ops' where "p' = applyPoolOp op (putThreads i (closingThread ops') p)"
    using assms(3) by (cases ops) (auto simp: goThread_def)
  moreover have "exclusive (putThreads i (closingThread ops') p)"
    by (rule exclusive_on [OF assms(1) i same_work_refl]) (simp add: Closing)
  ultimately show ?thesis by (simp add: exclusive_same)
next
  case (Adding a name d)
  then have p': "p' = endAgentWorker uid now a name d (putThreads i [] p)" using assms(3) by (simp add: goThread_def)
  have "exclusive (putThreads i [] p)" by (rule exclusive_on [OF assms(1) i same_work_refl]) (simp add: Adding)
  then show ?thesis unfolding p' endAgentWorker_def by (rule exclusive_newWorker)
qed (use assms(3) in \<open>simp_all add: goThread_def\<close>)

lemma exclusive_quitThread:
  assumes "exclusive p" and "i < length (pThreads p)" and "quitThread i p = Some p'"
  shows "exclusive p'"
proof -
  have "p' = putThreads i [] p" using assms(3) by (auto simp: quitThread_def split: PoolThread.splits list.splits if_splits)
  then show ?thesis using assms by (simp add: exclusive_move)
qed

lemma exclusive_dispatch:
  assumes "exclusive p" and "dispatch c c' ws now p = Some p'"
  shows "exclusive p'"
proof -
  from assms(2) obtain j js where p': "p' = assignJob c c' ws now j (p\<lparr>pQueue := js\<rparr>)"
      and "sort ws = sort (map snd (pWorkers p))"
    by (auto simp: dispatch_def split: DispatcherState.splits list.splits if_splits)
  from this(2) have ws: "set ws = snd ` set (pWorkers p)" by (metis set_map set_sort)
  let ?q = "p\<lparr>pQueue := js\<rparr>"
  have q: "exclusive ?q" using assms(1) by (rule exclusive_same) (simp add: same_work_def)
  have "exclusive (startDryRun now j ?q)"
    using q by (rule exclusive_same) (simp add: startDryRun_def Let_def same_work_def updJob_def emitEvent_def send_def split: option.splits)
  moreover have "exclusive (startOn w fb now j ?q)" if "chooseWorker c c' ws j ?q = Some (w, fb)" for w fb
    using exclusive_startOn [OF q] chooseWorker_available [OF that] ws by simp
  moreover have "exclusive (addThread (Requeueing j) ?q)" using q by (simp add: exclusive_def addThread_def runs_def)
  ultimately show ?thesis unfolding p' assignJob_def by (auto split: option.splits)
qed

text \<open>A new job does not touch the jobs that run.\<close>

lemma exclusive_entered:
  assumes "exclusive p" and "pool_ok p" and "runs q = runs p" and "pNextWorker q = pNextWorker p" and "pWorkers q = pWorkers p"
    and "pWorkerStore q = pWorkerStore p" and "\<And>k. k \<noteq> pNextJob p \<Longrightarrow> jID (pJobStore q k) = jID (pJobStore p k)"
  shows "exclusive q"
proof (rule exclusive_mset [OF assms(1)])
  fix j w c
  assume "(j, w, c) \<in> set (runs q)"
  then have "(j, True) \<in># held p" using runs_heldBy assms(3) by (fastforce simp: held_def)
  with assms(2) have "j < pNextJob p" by (fastforce simp: pool_ok_def ledger_ok_def ledgerOf_def)
  with assms(6,7) show "wStatus (pWorkerStore q w) = wStatus (pWorkerStore p w) \<and>
    wCurrentJob (pWorkerStore q w) = wCurrentJob (pWorkerStore p w) \<and> jID (pJobStore q j) = jID (pJobStore p j)" by simp
qed (use assms in \<open>auto simp: exclusive_def\<close>)

lemma exclusive_newJob:
  assumes "exclusive p" and "pool_ok p" and "same_work (snd (newJob job p)) q"
  shows "exclusive q" and "exclusive (addThread (Submitting j) q)"
proof -
  have f: "runs q = runs p" "pNextWorker q = pNextWorker p" "pWorkers q = pWorkers p" "pWorkerStore q = pWorkerStore p"
    "\<And>k. k \<noteq> pNextJob p \<Longrightarrow> jID (pJobStore q k) = jID (pJobStore p k)"
    using assms(3) by (simp_all add: same_work_def newJob_def runs_def)
  show "exclusive q" by (rule exclusive_entered [OF assms(1,2) f])
  show "exclusive (addThread (Submitting j) q)"
    by (rule exclusive_entered [OF assms(1,2)]) (use f in \<open>simp_all add: addThread_def runs_def\<close>)
qed

lemma exclusive_submit:
  assumes "exclusive p" and "pool_ok p"
  shows "exclusive (SubmitWithOptions uid now t wt prompt opts p)"
    and "exclusive (SubmitCached uid now t wt prompt res opts p)"
proof -
  have chain: "same_work q (newStream uid n (registerJob j (applyOptions j opts q)))"
    "same_work q (newStream uid n (registerJob j (setMeta j k v (applyOptions j opts q))))" for q j n k v
    by (meson same_work_trans same_work_basic same_work_applyOptions)+
  show "exclusive (SubmitWithOptions uid now t wt prompt opts p)"
    using exclusive_newJob(2) [OF assms chain(1)] by (simp add: SubmitWithOptions_def Let_def newJob_def)
  have sent: "same_work q ((send c e (send c e' (send c e'' q)))\<lparr>pChans := chs\<rparr>)" for q c e e' e'' chs
    by (simp add: same_work_def send_def Let_def)
  show "exclusive (SubmitCached uid now t wt prompt res opts p)"
    using exclusive_newJob(1) [OF assms same_work_trans [OF chain(2) sent]]
    by (simp add: SubmitCached_def Let_def newJob_def)
qed

lemma exclusive_step:
  assumes "exclusive p" and "pool_ok p" and "quiet a" and "poolExec a p = Some p'"
  shows "exclusive p'"
proof (cases "threadOf a")
  case None
  have drop: "exclusive (p\<lparr>pWorkers := AList.delete i (pWorkers p)\<rparr>)" for i
  proof (rule exclusive_mset [OF assms(1)])
    show "w < pNextWorker (p\<lparr>pWorkers := AList.delete i (pWorkers p)\<rparr>)"
      if "w \<in> snd ` set (pWorkers (p\<lparr>pWorkers := AList.delete i (pWorkers p)\<rparr>))" for w
    proof -
      have "w \<in> snd ` set (pWorkers p)" using that subsetD [OF snd_set_delete [of i "pWorkers p"]] by simp
      with assms(1) show ?thesis unfolding exclusive_def by fastforce
    qed
  qed (simp_all add: runs_def)
  have same: "exclusive q" if "same_work p q" for q using exclusive_same [OF assms(1) that] .
  have "exclusive (RemoveJob i p)" "exclusive (p\<lparr>pStopped := True\<rparr>)" for i
    by (rule same; simp add: same_work_def RemoveJob_def split: option.splits)+
  moreover have "exclusive q" if "dispatcherStep now p = Some q" for now q
  proof (cases "pDispatcher p")
    case (DispatcherClosing ops)
    have "exclusive (applyPoolOp op (p\<lparr>pDispatcher := d\<rparr>))" "exclusive (p\<lparr>pDispatcher := d\<rparr>)" for op d
      by (rule exclusive_same [OF same same_work_applyOp], simp add: same_work_def) (rule same, simp add: same_work_def)
    with that DispatcherClosing show ?thesis by (auto simp: dispatcherStep_def split: list.splits)
  qed (use that in \<open>auto simp: dispatcherStep_def finishDryRun_def Let_def same_work_def updJob_def intro!: same\<close>)
  moreover have "exclusive (addThread (Adding x n d) p)" for x n d
    using assms(1) by (simp add: exclusive_def addThread_def runs_def)
  ultimately show ?thesis
    using None assms drop exclusive_submit [OF assms(1,2)] exclusive_newWorker [OF assms(1)] exclusive_dispatch [OF assms(1)]
    by (cases a) (auto simp: poolExec_def AddWorkerWithAgent_def AddDefaultWorker_def beginAgentWorker_def RemoveWorker_def
        split: if_splits option.splits sum.splits)
next
  case (Some i)
  then have i: "i < length (pThreads p)" using assms(4) by (cases a) (auto simp: poolExec_def split: if_splits)
  note agent = exclusive_agentThread [OF assms(1) Some i]
  from Some assms i agent show ?thesis
    by (cases a) (auto simp: poolExec_def intro: exclusive_goThread exclusive_quitThread)
qed

interpretation quiet_pool: step_invariant pool_init quiet_step "\<lambda>p. pool_ok p \<and> exclusive p"
proof
  show "pool_ok p \<and> exclusive p" if "pool_init p" for p
    using pool.inv_init [OF that] that by (auto simp: pool_init_def exclusive_def runs_def NewPool_def)
next
  fix p p'
  assume p: "pool_ok p \<and> exclusive p" and "quiet_step p p'"
  then obtain a where a: "quiet a" "poolExec a p = Some p'" by (auto simp: quiet_step_def)
  then have "pool_step p p'" by (auto simp: pool_step_def)
  with p a show "pool_ok p' \<and> exclusive p'" using pool.inv_step exclusive_step by blast
qed

section \<open>The text of a result\<close>

text \<open>What a job's result should be: all the deltas, or the last full message when there are none.\<close>

definition deltas :: "AgentEvent list \<Rightarrow> string" where
  "deltas es = concat (map aeContent (filter (\<lambda>e. aeType e = EventStream) es))"

definition lastMessage :: "AgentEvent list \<Rightarrow> string" where
  "lastMessage es = (case filter (\<lambda>e. aeType e = EventAssistant \<and> aeContent e \<noteq> []) es of [] \<Rightarrow> [] | ms \<Rightarrow> aeContent (last ms))"

lemma accumulate_fold:
  "fold accumulate es (r, f, b) =
     (r @ deltas es, if lastMessage es = [] then f else lastMessage es, b \<or> deltas es \<noteq> [])"
proof (induction es arbitrary: r f b)
  case (Cons e es)
  have "EventStream \<noteq> EventAssistant" by (simp add: EventStream_def EventAssistant_def)
  moreover have "lastMessage es \<noteq> [] \<longleftrightarrow> filter (\<lambda>e. aeType e = EventAssistant \<and> aeContent e \<noteq> []) es \<noteq> []"
    using last_in_set [of "filter (\<lambda>e. aeType e = EventAssistant \<and> aeContent e \<noteq> []) es"]
    by (auto simp: lastMessage_def split: list.splits)
  ultimately show ?case
    unfolding fold_simps o_apply by (auto simp: Cons.IH deltas_def lastMessage_def split: list.splits)
qed (simp add: deltas_def lastMessage_def)

end
