(* ===== verification/Pool_Properties.thy ===== *)
theory Pool_Properties
  imports Pool_Workers
begin

text \<open>The properties of the worker pool.\<close>

section \<open>Concrete runs\<close>

lemma runPool_reachable:
  "reachable pool_init pool_step p \<Longrightarrow> runPool as p = Some p' \<Longrightarrow> reachable pool_init pool_step p'"
proof (induction as arbitrary: p)
  case (Cons a as)
  then obtain p1 where "poolExec a p = Some p1" "runPool as p1 = Some p'" by (auto split: option.splits)
  moreover from this(1) have "pool_step p p1" by (auto simp: pool_step_def)
  ultimately show ?case using Cons by (blast intro: reach_step)
qed simp

definition poolRun :: "PoolAction list \<Rightarrow> Pool option" where
  "poolRun as = runPool as (NewPool 5 [] 1 (\<lambda>_ _. None))"

definition after_run :: "(Pool \<Rightarrow> bool) \<Rightarrow> PoolAction list \<Rightarrow> bool" where
  "after_run P as = (case poolRun as of None \<Rightarrow> False | Some p \<Rightarrow> P p)"

lemma NewPool_reachable: "reachable pool_init pool_step (NewPool n allowed k metas)"
  by (rule reach_init) (auto simp: pool_init_def)

lemma after_run_reachable:
  assumes "after_run P as"
  shows "\<exists>p. reachable pool_init pool_step p \<and> P p"
proof -
  from assms obtain p where p: "poolRun as = Some p" "P p" by (auto simp: after_run_def split: option.splits)
  then have "reachable pool_init pool_step p"
    unfolding poolRun_def by (blast intro: runPool_reachable [OF NewPool_reachable])
  with p show ?thesis by blast
qed

lemma quiet_run:
  "reachable pool_init quiet_step p \<Longrightarrow> list_all quiet as \<Longrightarrow> runPool as p = Some p' \<Longrightarrow> reachable pool_init quiet_step p'"
proof (induction as arbitrary: p)
  case (Cons a as)
  then obtain p1 where "poolExec a p = Some p1" "runPool as p1 = Some p'" by (auto split: option.splits)
  moreover from this(1) Cons.prems(2) have "quiet_step p p1" by (auto simp: quiet_step_def)
  ultimately show ?case using Cons by (auto intro: reach_step)
qed simp

text \<open>An agent worker takes the first of two submitted jobs.\<close>

definition submit2 :: "PoolAction list" where
  "submit2 = [DoBeginAgent [] False (Inr (7, ''c'')), Go 0 ''w'' 1,
     DoSubmit ''1'' 2 ''p'' [] ''x'' (Some \<lparr>joWorkDir = [], joEnvironment = [], joMetadata = Some 0, joAgent = []\<rparr>),
     DoSubmit ''2'' 3 ''p'' [] ''y'' (Some \<lparr>joWorkDir = [], joEnvironment = [], joMetadata = Some 0, joAgent = []\<rparr>),
     Go 0 [] 0, Go 0 [] 0, Dispatch (\<lambda>_. True) (\<lambda>_. True) [0] 4]"

definition agent_done :: "AgentEvent" where
  "agent_done = \<lparr>aeType = EventComplete, aeContent = [], aeError = [], aeData = Some [''total_tokens'' \<mapsto> MetaNumber 10]\<rparr>"

section \<open>Jobs\<close>

text \<open>
  C4: The pool refines its ledger. In every reachable state, every step of the pool (a call, a step of
  the dispatcher or of any goroutine, under any behaviour of the agents) is one step of the
  abstract ledger of jobs or does not change it, and the ledger stays consistent.
\<close>

theorem pool_refines_ledger:
  assumes "reachable pool_init pool_step p" and "pool_step p p'"
  shows "ledger_step\<^sup>=\<^sup>= (ledgerOf p) (ledgerOf p') \<and> ledger_ok (ledgerOf p')"
proof -
  have p: "pool_ok p" by (rule pool.reachable_inv [OF assms(1)])
  with assms(2) have "refines p p'" by (auto simp: pool_step_def intro: refines_step)
  moreover have "pool_ok p'" by (rule pool.inv_step [OF p assms(2)])
  ultimately show ?thesis by (simp add: refines_def pool_ok_def)
qed

theorem pool_refines_ledger_witness:
  "reachable pool_init pool_step (NewPool 5 [] 0 (\<lambda>_ _. None)) \<and>
   pool_step (NewPool 5 [] 0 (\<lambda>_ _. None)) ((NewPool 5 [] 0 (\<lambda>_ _. None))\<lparr>pStopped := True\<rparr>) \<and>
   ledger_ok (ledgerOf ((NewPool 5 [] 0 (\<lambda>_ _. None))\<lparr>pStopped := True\<rparr>))"
proof -
  let ?p = "NewPool 5 [] 0 (\<lambda>_ _. None)"
  have "poolExec DoStop ?p = Some (?p\<lparr>pStopped := True\<rparr>)" by (simp add: poolExec_def)
  then have s: "pool_step ?p (?p\<lparr>pStopped := True\<rparr>)" unfolding pool_step_def by blast
  from pool_refines_ledger [OF NewPool_reachable s] s show ?thesis using NewPool_reachable by blast
qed

text \<open>
  C9: No job is lost or executed twice. While the pool is not stopped, a job that is queued is held by
  exactly one place that waits for a worker (a blocked submission, the queue, a delayed re-queue), a
  job that is in progress is held by exactly one executing goroutine, and no job is ever held twice.
\<close>

theorem no_job_lost_or_doubled:
  assumes "reachable pool_init pool_step p" and "j < pNextJob p"
  shows "count (image_mset fst (held p)) j \<le> 1 \<and>
    (\<not> pStopped p \<and> jStatus (pJobStore p j) = JobStatusQueued \<longrightarrow> (j, False) \<in># held p) \<and>
    (\<not> pStopped p \<and> jStatus (pJobStore p j) = JobStatusInProgress \<longrightarrow> (j, True) \<in># held p)"
proof -
  have "ledger_ok (ledgerOf p)" using pool.reachable_inv [OF assms(1)] by (simp add: pool_ok_def)
  with assms(2) show ?thesis by (auto simp: ledger_ok_def ledgerOf_def once_def)
qed

lemma submit2_state:
  "after_run (\<lambda>p. pNextJob p = 2 \<and> \<not> pStopped p \<and> jStatus (pJobStore p 0) = JobStatusInProgress \<and>
     jStatus (pJobStore p 1) = JobStatusQueued \<and> runs p = [(0, 0, 0)]) submit2"
  by code_simp

theorem no_job_lost_or_doubled_witness:
  "\<exists>p. reachable pool_init pool_step p \<and> 0 < pNextJob p \<and> \<not> pStopped p \<and>
     jStatus (pJobStore p 0) = JobStatusInProgress \<and> (0, True) \<in># held p"
proof -
  obtain p where p: "reachable pool_init pool_step p" "pNextJob p = 2" "\<not> pStopped p"
      "jStatus (pJobStore p 0) = JobStatusInProgress"
    using after_run_reachable [OF submit2_state] by blast
  with no_job_lost_or_doubled [OF p(1), of 0] show ?thesis by auto
qed

section \<open>Workers\<close>

text \<open>
  C20: Workers are exclusive. In a run in which no job is cancelled and the workers are not listed, two
  executing goroutines never use the same worker, and the worker of an executing job is marked as
  working on that job.
\<close>

theorem workers_exclusive:
  assumes "reachable pool_init quiet_step p"
  shows "distinct (map (\<lambda>(j, w, c). w) (runs p)) \<and>
    set (runs p) \<subseteq> {(j, w, c). wStatus (pWorkerStore p w) = StatusWorking \<and>
      wCurrentJob (pWorkerStore p w) = jID (pJobStore p j)}"
  using quiet_pool.reachable_inv [OF assms] by (auto simp: exclusive_def)

theorem workers_exclusive_witness:
  "\<exists>p. reachable pool_init quiet_step p \<and> runs p = [(0, 0, 0)] \<and> wStatus (pWorkerStore p 0) = StatusWorking"
proof -
  obtain p where p: "runPool submit2 (NewPool 5 [] 1 (\<lambda>_ _. None)) = Some p" "runs p = [(0, 0, 0)]"
    using submit2_state by (auto simp: after_run_def poolRun_def split: option.splits)
  have "reachable pool_init quiet_step (NewPool 5 [] 1 (\<lambda>_ _. None))" by (rule reach_init) (auto simp: pool_init_def)
  then have "reachable pool_init quiet_step p" by (rule quiet_run [OF _ _ p(1)]) (simp add: submit2_def)
  with workers_exclusive [OF this] p(2) show ?thesis by auto
qed

text \<open>
  The choice of a worker. In whatever order the workers are visited, the scan takes the first usable
  worker that suits the job's preferred agent (a worker without an agent suits every job); if there is
  none, the first usable worker; a job waits only if no worker is usable.
\<close>

theorem choice_of_worker:
  "chooseWorker connected connected ws j p =
     (case List.find (\<lambda>w. usable connected (pWorkerStore p w) \<and> suits (preferredAgent p j) (pWorkerStore p w)) ws of
        Some w \<Rightarrow> Some (w, False)
      | None \<Rightarrow> map_option (\<lambda>w. (w, True)) (List.find (\<lambda>w. usable connected (pWorkerStore p w)) ws))"
  unfolding chooseWorker_pick pickWorker_def ..

text \<open>
  Results are not doubled. Whatever events an agent sends, the text of the result is the
  concatenation of the deltas, or the last full message if no delta carried text; the two are never
  mixed.
\<close>

theorem result_text:
  "finalText (fold accumulate es ([], [], False)) = (if deltas es \<noteq> [] then deltas es else lastMessage es)"
  by (simp add: accumulate_fold)

section \<open>Cancellation\<close>

text \<open>
  Cancelling a job does not stop it. A job cancelled while it waits is assigned and executed all the
  same; and a job cancelled while it runs ends as done, with the error of the cancellation, when its
  agent completes.
\<close>

definition cancel_waiting :: "PoolAction list" where
  "cancel_waiting = [DoBeginAgent [] False (Inr (7, ''c'')), Go 0 ''w'' 1, DoSubmit ''1'' 2 ''p'' [] ''x'' None,
     Go 0 [] 0, DoCancel 3 ''1'', Dispatch (\<lambda>_. True) (\<lambda>_. True) [0] 4]"

definition cancel_running :: "PoolAction list" where
  "cancel_running = submit2 @ [AgentReady 0 None, DoCancel 5 ''1'', Dispatch (\<lambda>_. True) (\<lambda>_. True) [0] 6]"

lemma cancel_waiting_run:
  "after_run (\<lambda>p. jStatus (pJobStore p 0) = JobStatusInProgress \<and>
     jError (pJobStore p 0) = ''cancelled'' \<and> runs p = [(0, 0, 0)]) cancel_waiting"
  by code_simp

lemma cancel_running_run:
  "after_run (\<lambda>p. map (\<lambda>(j, w, c). w) (runs p) = [0, 0] \<and> jStatus (pJobStore p 1) = JobStatusInProgress) cancel_running"
  by code_simp

lemma cancel_done_run:
  "after_run (\<lambda>p. jStatus (pJobStore p 0) = JobStatusDone \<and> jError (pJobStore p 0) = ''cancelled'' \<and>
     jStatus (pJobStore p 1) = JobStatusInProgress \<and> wStatus (pWorkerStore p 0) = StatusAvailable \<and> length (runs p) = 1)
   (cancel_running @ [AgentSays 0 agent_done 7])"
  by code_simp

theorem cancelled_jobs_execute:
  "(\<exists>p. reachable pool_init pool_step p \<and> jError (pJobStore p 0) = ''cancelled'' \<and>
      jStatus (pJobStore p 0) = JobStatusInProgress \<and> runs p = [(0, 0, 0)]) \<and>
   (\<exists>p. reachable pool_init pool_step p \<and> jError (pJobStore p 0) = ''cancelled'' \<and> jStatus (pJobStore p 0) = JobStatusDone)"
proof (intro conjI)
  obtain p where "reachable pool_init pool_step p" "jError (pJobStore p 0) = ''cancelled''"
      "jStatus (pJobStore p 0) = JobStatusInProgress" "runs p = [(0, 0, 0)]"
    using after_run_reachable [OF cancel_waiting_run] by auto
  then show "\<exists>p. reachable pool_init pool_step p \<and> jError (pJobStore p 0) = ''cancelled'' \<and>
      jStatus (pJobStore p 0) = JobStatusInProgress \<and> runs p = [(0, 0, 0)]" by (intro exI conjI)
  obtain q where "reachable pool_init pool_step q" "jError (pJobStore q 0) = ''cancelled''"
      "jStatus (pJobStore q 0) = JobStatusDone"
    using after_run_reachable [OF cancel_done_run] by auto
  then show "\<exists>p. reachable pool_init pool_step p \<and> jError (pJobStore p 0) = ''cancelled'' \<and>
      jStatus (pJobStore p 0) = JobStatusDone" by (intro exI conjI)
qed

text \<open>
  Cancelling breaks exclusiveness. After a running job is cancelled its worker is handed to the next
  job while the first goroutine still runs; when that goroutine ends, the worker is marked as available
  although the second job is executing on it.
\<close>

theorem cancellation_shares_worker:
  "(\<exists>p. reachable pool_init pool_step p \<and> map (\<lambda>(j, w, c). w) (runs p) = [0, 0]) \<and>
   (\<exists>p. reachable pool_init pool_step p \<and> length (runs p) = 1 \<and>
      jStatus (pJobStore p 1) = JobStatusInProgress \<and> wStatus (pWorkerStore p 0) = StatusAvailable)"
proof (intro conjI)
  obtain p where "reachable pool_init pool_step p" "map (\<lambda>(j, w, c). w) (runs p) = [0, 0]"
    using after_run_reachable [OF cancel_running_run] by auto
  then show "\<exists>p. reachable pool_init pool_step p \<and> map (\<lambda>(j, w, c). w) (runs p) = [0, 0]" by (intro exI conjI)
  obtain q where "reachable pool_init pool_step q" "length (runs q) = 1" "jStatus (pJobStore q 1) = JobStatusInProgress"
      "wStatus (pWorkerStore q 0) = StatusAvailable"
    using after_run_reachable [OF cancel_done_run] by auto
  then show "\<exists>p. reachable pool_init pool_step p \<and> length (runs p) = 1 \<and> jStatus (pJobStore p 1) = JobStatusInProgress \<and>
      wStatus (pWorkerStore p 0) = StatusAvailable" by (intro exI conjI)
qed

section \<open>Limits and shared metadata\<close>

lemma agents_run:
  "(case runPool [DoBeginAgent [] False (Inr (0, ''a'')), DoBeginAgent [] False (Inr (1, ''b'')), Go 0 ''x'' 0, Go 0 ''y'' 0]
       (NewPool 1 [] 0 (\<lambda>_ _. None)) of None \<Rightarrow> False | Some p \<Rightarrow> pMaxWorkers p = 1 \<and> length (pWorkers p) = 2)"
  by code_simp

text \<open>
  The worker limit can be exceeded. \<^verbatim>\<open>AddAgentWorker\<close> checks the limit before it connects and
  inserts without a second check, so two concurrent calls on a pool of at most one worker leave two.
\<close>

theorem worker_limit_exceeded:
  "\<exists>p. reachable pool_init pool_step p \<and> pMaxWorkers p = 1 \<and> length (pWorkers p) = 2"
proof -
  let ?as = "[DoBeginAgent [] False (Inr (0, ''a'')), DoBeginAgent [] False (Inr (1, ''b'')), Go 0 ''x'' 0, Go 0 ''y'' 0]"
  obtain p where p: "runPool ?as (NewPool 1 [] 0 (\<lambda>_ _. None)) = Some p" "pMaxWorkers p = 1" "length (pWorkers p) = 2"
    using agents_run by (cases "runPool ?as (NewPool 1 [] 0 (\<lambda>_ _. None))") auto
  with runPool_reachable [OF NewPool_reachable p(1)] show ?thesis by blast
qed

lemma shared_run:
  "after_run (\<lambda>p. jMetadata (pJobStore p 0) = jMetadata (pJobStore p 1) \<and> jStatus (pJobStore p 1) = JobStatusQueued \<and>
     metaOf p 1 ''total_tokens'' = Some (MetaNumber 10)) (submit2 @ [AgentReady 0 None, AgentSays 0 agent_done 6])"
  by code_simp

text \<open>
  Jobs submitted with the same options share their metadata. The pool keeps the caller's map, so the
  token counts of the first job appear in the metadata of a second one that has not started.
\<close>

theorem metadata_shared:
  "\<exists>p. reachable pool_init pool_step p \<and> jStatus (pJobStore p 1) = JobStatusQueued \<and>
     metaOf p 1 ''total_tokens'' = Some (MetaNumber 10)"
proof -
  obtain p where "reachable pool_init pool_step p" "jStatus (pJobStore p 1) = JobStatusQueued"
      "metaOf p 1 ''total_tokens'' = Some (MetaNumber 10)"
    using after_run_reachable [OF shared_run] by auto
  then show ?thesis by (intro exI conjI)
qed

end
