(* ===== verification/Machine_Integers.thy ===== *)
theory Machine_Integers
  imports Kvelmo_Prelude "HOL-Library.Word"
begin

text \<open>Go's \<^verbatim>\<open>int64\<close>: a \<open>64 word\<close> that wraps around and is read as a signed number.\<close>

type_synonym int64 = "64 word"

lemma sint_exact: "- (2 ^ 63) \<le> i \<Longrightarrow> i < 2 ^ 63 \<Longrightarrow> sint (word_of_int i :: int64) = i"
  by (simp add: signed_of_int signed_take_bit_int_eq_self_iff)

lemma sint_add_exact:
  fixes a b :: int64
  assumes "0 \<le> sint a" and "0 \<le> sint b" and "sint a + sint b < 2 ^ 63"
  shows "sint (a + b) = sint a + sint b"
proof -
  have "sint (a + b) = signed_take_bit 63 (sint a + sint b)" by (simp add: sint_word_ariths)
  also have "\<dots> = sint a + sint b" using assms by (simp add: signed_take_bit_int_eq_self_iff)
  finally show ?thesis .
qed

lemma sint_shift_exact:
  fixes a :: int64
  assumes "0 \<le> sint a" and "sint a * 2 ^ n < 2 ^ 63"
  shows "sint (push_bit n a) = sint a * 2 ^ n"
proof -
  have "sint (push_bit n a) = sint (word_of_int (sint a * 2 ^ n) :: int64)" by (simp add: push_bit_eq_mult)
  also have "\<dots> = sint a * 2 ^ n"
  proof (rule sint_exact)
    have "0 \<le> sint a * 2 ^ n" using assms(1) by simp
    moreover have "- (2 ^ 63) \<le> (0 :: int)" by simp
    ultimately show "- (2 ^ 63) \<le> sint a * 2 ^ n" by (rule order_trans [rotated])
  qed (rule assms(2))
  finally show ?thesis .
qed

end
