(* ===== verification/Token_Budget.thy ===== *)
theory Token_Budget
  imports Machine_Integers
begin

text \<open>
  The token budget and the middleware of agent calls (src/internal/worker/middleware.go,
  middleware_budget.go, middleware_ratelimit.go).

  The consumed total is an \<^verbatim>\<open>atomic.Int64\<close>: a \<open>64 word\<close> that wraps around and is read as a signed
  number. \<^verbatim>\<open>TryAdd\<close> is a loop of a load and a compare-and-swap; any number of callers run it at the
  same time, one atomic operation per step. The loop is shown to terminate under every schedule, to
  be equivalent to an atomic reservation, and to keep the total within the limit.
\<close>

section \<open>The budget\<close>

record TokenBudget =
  tbConsumed :: int64
  tbLimit :: int64

definition NewTokenBudget :: "int64 \<Rightarrow> TokenBudget" where
  "NewTokenBudget limit = \<lparr>tbConsumed = 0, tbLimit = limit\<rparr>"

definition Add :: "int64 \<Rightarrow> TokenBudget \<Rightarrow> bool \<times> TokenBudget" where
  "Add tokens b =
     (let newTotal = tbConsumed b + tokens
      in (tbLimit b = 0 \<or> sint newTotal \<le> sint (tbLimit b), b\<lparr>tbConsumed := newTotal\<rparr>))"

definition Remaining :: "TokenBudget \<Rightarrow> int64" where
  "Remaining b =
     (if tbLimit b = 0 then - 1
      else let remaining = tbLimit b - tbConsumed b in if sint remaining < 0 then 0 else remaining)"

text \<open>The reservation as one atomic operation: what \<^verbatim>\<open>TryAdd\<close> promises.\<close>

definition TryAdd :: "int64 \<Rightarrow> TokenBudget \<Rightarrow> bool \<times> TokenBudget" where
  "TryAdd tokens b =
     (if tbLimit b = 0 then (True, b\<lparr>tbConsumed := tbConsumed b + tokens\<rparr>)
      else if sint (tbConsumed b + tokens) > sint (tbLimit b) then (False, b)
      else (True, b\<lparr>tbConsumed := tbConsumed b + tokens\<rparr>))"

text \<open>
  The reservation as it is coded. A call is before its load, between the load of \<open>current\<close> and the
  compare-and-swap, or has returned.
\<close>

datatype TryAddState = TryEntered | TryLoaded int64 | TryReturned bool

fun tryAddStep :: "int64 \<Rightarrow> TryAddState \<Rightarrow> TokenBudget \<Rightarrow> (TryAddState \<times> TokenBudget) option" where
  "tryAddStep tokens TryEntered b =
     (if tbLimit b = 0 then Some (TryReturned True, b\<lparr>tbConsumed := tbConsumed b + tokens\<rparr>)
      else let current = tbConsumed b
           in if sint (current + tokens) > sint (tbLimit b) then Some (TryReturned False, b)
              else Some (TryLoaded current, b))"
| "tryAddStep tokens (TryLoaded current) b =
     (if tbConsumed b = current then Some (TryReturned True, b\<lparr>tbConsumed := current + tokens\<rparr>)
      else Some (TryEntered, b))"
| "tryAddStep tokens (TryReturned r) b = None"

text \<open>A budget with the calls made on it so far; a step is a new call or one atomic operation of a call.\<close>

record BudgetRun =
  brBudget :: TokenBudget
  brCalls :: "(int64 \<times> TryAddState) list"

definition enterCall :: "int64 \<Rightarrow> BudgetRun \<Rightarrow> BudgetRun" where
  "enterCall tokens s = s\<lparr>brCalls := brCalls s @ [(tokens, TryEntered)]\<rparr>"

definition resumeCall :: "nat \<Rightarrow> BudgetRun \<Rightarrow> BudgetRun option" where
  "resumeCall i s =
     (if i < length (brCalls s)
      then (case brCalls s ! i of
              (tokens, pc) \<Rightarrow>
                (case tryAddStep tokens pc (brBudget s) of
                   None \<Rightarrow> None
                 | Some (pc', b) \<Rightarrow> Some (s\<lparr>brBudget := b, brCalls := (brCalls s)[i := (tokens, pc')]\<rparr>)))
      else None)"

section \<open>Middleware\<close>

text \<open>
  An execution function takes a prompt and the state of the world and returns its error, if any, and
  the new state. The state of the budget middleware is its budget and the flag of its warning; what
  the wrapped functions do to the rest of the state is up to them.
\<close>

type_synonym 'w AgentExecFunc = "string \<Rightarrow> 'w \<Rightarrow> string option \<times> 'w"
type_synonym 'w AgentMiddleware = "'w AgentExecFunc \<Rightarrow> 'w AgentExecFunc"

definition Chain :: "'w AgentMiddleware list \<Rightarrow> 'w AgentMiddleware" where
  "Chain middlewares next = fold (\<lambda>v next. v next) (rev middlewares) next"

record AgentWorld =
  awBudget :: "TokenBudget option"
  awWarned :: bool

definition estimatedTokens :: "string \<Rightarrow> int64" where
  "estimatedTokens prompt = of_nat (length prompt div 4)"

definition budgetExhausted :: "TokenBudget \<Rightarrow> string" where
  "budgetExhausted b = ''budget_exhausted: token budget exceeded (consumed: '' @ format_int (sint (tbConsumed b)) @
     '', limit: '' @ format_int (sint (tbLimit b)) @ '')''"

text \<open>The warning at four fifths of the limit is raised once; the quotient is taken exactly.\<close>

definition BudgetMiddleware :: "'a AgentWorld_scheme AgentMiddleware" where
  "BudgetMiddleware next prompt w =
     (case awBudget w of
        None \<Rightarrow> next prompt w
      | Some budget \<Rightarrow>
          (case TryAdd (estimatedTokens prompt) budget of
             (False, b) \<Rightarrow> (Some (budgetExhausted b), w)
           | (True, b) \<Rightarrow>
               next prompt (w\<lparr>awBudget := Some b,
                 awWarned := awWarned w \<or> sint (tbLimit b) > 0 \<and> 5 * sint (tbConsumed b) \<ge> 4 * sint (tbLimit b)\<rparr>)))"

definition RateLimitMiddleware :: "(string \<Rightarrow> 'w \<Rightarrow> bool \<times> 'w) option \<Rightarrow> 'w AgentMiddleware" where
  "RateLimitMiddleware limiter next prompt w =
     (case limiter of
        None \<Rightarrow> next prompt w
      | Some allow \<Rightarrow>
          (case allow ''agent'' w of
             (False, w') \<Rightarrow> (Some ''rate_limit: agent execution rate exceeded'', w')
           | (True, w') \<Rightarrow> next prompt w'))"

section \<open>Termination of the reservation loop\<close>

fun returned :: "TryAddState \<Rightarrow> bool" where
  "returned (TryReturned _) = True"
| "returned _ = False"

text \<open>
  A call whose loaded value is stale has to go round once more. The total changes only when some call
  returns, so between two returns every call makes at most two failing steps.
\<close>

fun weight :: "TokenBudget \<Rightarrow> TryAddState \<Rightarrow> nat" where
  "weight b TryEntered = 1"
| "weight b (TryLoaded current) = (if tbConsumed b = current then 0 else 2)"
| "weight b (TryReturned _) = 0"

definition pending :: "BudgetRun \<Rightarrow> nat" where
  "pending s = sum_list (map (\<lambda>c. of_bool (\<not> returned (snd c))) (brCalls s))"

definition work :: "BudgetRun \<Rightarrow> nat" where
  "work s = sum_list (map (\<lambda>c. weight (brBudget s) (snd c)) (brCalls s))"

lemma sum_list_map_update:
  fixes f :: "'a \<Rightarrow> nat"
  assumes "i < length xs"
  shows "sum_list (map f (xs[i := y])) + f (xs ! i) = sum_list (map f xs) + f y"
proof -
  have "xs = take i xs @ xs ! i # drop (Suc i) xs" by (rule id_take_nth_drop [OF assms])
  then have "sum_list (map f xs) = sum_list (map f (take i xs)) + f (xs ! i) + sum_list (map f (drop (Suc i) xs))"
    by (metis (no_types, lifting) add.assoc map_append list.simps(9) sum_list.Cons sum_list.append)
  then show ?thesis using assms by (simp add: upd_conv_take_nth_drop)
qed

lemma tryAddStep_progress:
  assumes "tryAddStep t pc b = Some (pc', b')"
  shows "\<not> returned pc" and "returned pc' \<or> b' = b \<and> weight b pc' < weight b pc"
  using assms by (cases pc; auto simp: Let_def split: if_splits)+

lemma resumeCall_decreases:
  assumes "resumeCall i s = Some s'"
  shows "(s', s) \<in> measures [pending, work]"
proof -
  from assms obtain t pc pc' b' where i: "i < length (brCalls s)" and c: "brCalls s ! i = (t, pc)"
      and st: "tryAddStep t pc (brBudget s) = Some (pc', b')"
      and s': "s' = s\<lparr>brBudget := b', brCalls := (brCalls s)[i := (t, pc')]\<rparr>"
    by (auto simp: resumeCall_def split: if_splits prod.splits option.splits)
  note p = tryAddStep_progress [OF st]
  have "pending s' + 1 = pending s + of_bool (\<not> returned pc')"
    using sum_list_map_update [OF i, of "\<lambda>c. of_bool (\<not> returned (snd c))" "(t, pc')"] p(1) c
    by (simp add: pending_def s')
  moreover have "work s' + weight (brBudget s) pc = work s + weight (brBudget s) pc'" if "b' = brBudget s"
    using sum_list_map_update [OF i, of "\<lambda>c. weight (brBudget s) (snd c)" "(t, pc')"] c that by (simp add: work_def s')
  ultimately show ?thesis using p(2) by (cases "returned pc'") auto
qed

lemma resumeCall_enabled: "i < length (brCalls s) \<Longrightarrow> \<not> returned (snd (brCalls s ! i)) \<Longrightarrow> resumeCall i s \<noteq> None"
  by (cases "brCalls s ! i"; cases "snd (brCalls s ! i)") (auto simp: resumeCall_def Let_def)

text \<open>
  C13: The compare-and-swap loop terminates. However the steps of any number of concurrent calls are
  scheduled there is no infinite sequence of them, and as long as a call has not returned a step is
  possible: every call returns.
\<close>

theorem try_add_terminates:
  "wf {(s', s). \<exists>i. resumeCall i s = Some s'} \<and>
   ((\<exists>i s'. resumeCall i s = Some s') \<or> list_all (\<lambda>c. returned (snd c)) (brCalls s))"
proof
  have "{(s', s). \<exists>i. resumeCall i s = Some s'} \<subseteq> measures [pending, work]" using resumeCall_decreases by blast
  then show "wf {(s', s). \<exists>i. resumeCall i s = Some s'}" by (rule wf_subset [OF wf_measures])
  show "(\<exists>i s'. resumeCall i s = Some s') \<or> list_all (\<lambda>c. returned (snd c)) (brCalls s)"
    using resumeCall_enabled by (auto simp: list_all_length)
qed

section \<open>The loop is an atomic reservation\<close>

definition budget_init :: "BudgetRun \<Rightarrow> bool" where
  "budget_init s \<longleftrightarrow> (\<exists>limit. s = \<lparr>brBudget = NewTokenBudget limit, brCalls = []\<rparr>)"

definition budget_step :: "BudgetRun \<Rightarrow> BudgetRun \<Rightarrow> bool" where
  "budget_step s s' \<longleftrightarrow> (\<exists>tokens. s' = enterCall tokens s) \<or> (\<exists>i. resumeCall i s = Some s')"

text \<open>
  The abstract budget: calls that have not returned yet are waiting, and a step is a new call or the
  atomic reservation of a waiting one.
\<close>

type_synonym AtomicRun = "TokenBudget \<times> (int64 \<times> bool option) list"

inductive atomic_step :: "AtomicRun \<Rightarrow> AtomicRun \<Rightarrow> bool" where
  call: "atomic_step (b, rs) (b, rs @ [(t, None)])"
| reserve: "i < length rs \<Longrightarrow> rs ! i = (t, None) \<Longrightarrow> TryAdd t b = (r, b') \<Longrightarrow> atomic_step (b, rs) (b', rs[i := (t, Some r)])"

fun resultOf :: "TryAddState \<Rightarrow> bool option" where
  "resultOf (TryReturned r) = Some r"
| "resultOf _ = None"

definition atomicOf :: "BudgetRun \<Rightarrow> AtomicRun" where
  "atomicOf s = (brBudget s, map (\<lambda>(t, pc). (t, resultOf pc)) (brCalls s))"

text \<open>A value that has been loaded passed the check of the limit, which never changes.\<close>

definition loaded_ok :: "BudgetRun \<Rightarrow> bool" where
  "loaded_ok s \<longleftrightarrow> (\<forall>t current. (t, TryLoaded current) \<in> set (brCalls s) \<longrightarrow>
     tbLimit (brBudget s) \<noteq> 0 \<and> sint (current + t) \<le> sint (tbLimit (brBudget s)))"

lemma tryAddStep_atomic:
  assumes "tryAddStep t pc b = Some (pc', b')"
    and "\<And>current. pc = TryLoaded current \<Longrightarrow> tbLimit b \<noteq> 0 \<and> sint (current + t) \<le> sint (tbLimit b)"
  shows "tbLimit b' = tbLimit b"
    and "\<And>current. pc' = TryLoaded current \<Longrightarrow> tbLimit b \<noteq> 0 \<and> sint (current + t) \<le> sint (tbLimit b)"
    and "resultOf pc = None"
    and "resultOf pc' = None \<and> b' = b \<or> (\<exists>r. resultOf pc' = Some r \<and> TryAdd t b = (r, b'))"
  using assms by (cases pc; auto simp: Let_def TryAdd_def split: if_splits)+

lemma resumeCall_atomic:
  assumes "resumeCall i s = Some s'" and "loaded_ok s"
  shows "loaded_ok s'" and "atomic_step\<^sup>=\<^sup>= (atomicOf s) (atomicOf s')"
proof -
  from assms(1) obtain t pc pc' b' where i: "i < length (brCalls s)" and c: "brCalls s ! i = (t, pc)"
      and st: "tryAddStep t pc (brBudget s) = Some (pc', b')"
      and s': "s' = s\<lparr>brBudget := b', brCalls := (brCalls s)[i := (t, pc')]\<rparr>"
    by (auto simp: resumeCall_def split: if_splits prod.splits option.splits)
  have "(t, pc) \<in> set (brCalls s)" using nth_mem [OF i] c by simp
  with assms(2) have "\<And>current. pc = TryLoaded current \<Longrightarrow>
      tbLimit (brBudget s) \<noteq> 0 \<and> sint (current + t) \<le> sint (tbLimit (brBudget s))" by (auto simp: loaded_ok_def)
  note a = tryAddStep_atomic [OF st this]
  show "loaded_ok s'"
    unfolding loaded_ok_def
  proof (intro allI impI)
    fix t' current assume "(t', TryLoaded current) \<in> set (brCalls s')"
    then have "(t', TryLoaded current) \<in> set (brCalls s) \<or> (t', TryLoaded current) = (t, pc')"
      using set_update_subset_insert by (fastforce simp: s')
    with assms(2) a(1) a(2) show "tbLimit (brBudget s') \<noteq> 0 \<and> sint (current + t') \<le> sint (tbLimit (brBudget s'))"
      by (auto simp: loaded_ok_def s')
  qed
  let ?rs = "map (\<lambda>(t, pc). (t, resultOf pc)) (brCalls s)"
  have r: "i < length ?rs" "?rs ! i = (t, None)" using i c a(3) by simp_all
  from a(4) show "atomic_step\<^sup>=\<^sup>= (atomicOf s) (atomicOf s')"
  proof
    assume n: "resultOf pc' = None \<and> b' = brBudget s"
    then have "?rs[i := (t, resultOf pc')] = ?rs" using list_update_id [of ?rs i] r(2) by simp
    with n show ?thesis by (simp add: atomicOf_def s' map_update)
  next
    assume "\<exists>r. resultOf pc' = Some r \<and> TryAdd t (brBudget s) = (r, b')"
    with atomic_step.reserve [OF r] show ?thesis by (auto simp: atomicOf_def s' map_update)
  qed
qed

interpretation budget: step_invariant budget_init budget_step loaded_ok
proof
  show "loaded_ok s" if "budget_init s" for s using that by (auto simp: budget_init_def loaded_ok_def)
  show "loaded_ok s'" if "loaded_ok s" "budget_step s s'" for s s'
    using that resumeCall_atomic(1) by (auto simp: budget_step_def) (auto simp: loaded_ok_def enterCall_def)
qed

text \<open>
  C25: The loop is an atomic reservation. In every interleaving of concurrent calls each step either is
  invisible, or is a new call, or makes the whole reservation of one waiting call at once and returns
  its answer.
\<close>

theorem try_add_linearizable:
  assumes "reachable budget_init budget_step s" and "budget_step s s'"
  shows "atomic_step\<^sup>=\<^sup>= (atomicOf s) (atomicOf s')"
proof -
  have "loaded_ok s" by (rule budget.reachable_inv [OF assms(1)])
  moreover have "atomic_step (atomicOf s) (atomicOf (enterCall t s))" for t
    by (simp add: atomicOf_def enterCall_def atomic_step.call)
  ultimately show ?thesis using assms(2) resumeCall_atomic(2) by (auto simp: budget_step_def)
qed

theorem try_add_linearizable_witness:
  "reachable budget_init budget_step \<lparr>brBudget = NewTokenBudget 5, brCalls = []\<rparr> \<and>
   atomic_step\<^sup>=\<^sup>= (atomicOf \<lparr>brBudget = NewTokenBudget 5, brCalls = []\<rparr>)
     (atomicOf (enterCall 3 \<lparr>brBudget = NewTokenBudget 5, brCalls = []\<rparr>))"
proof -
  have r: "reachable budget_init budget_step \<lparr>brBudget = NewTokenBudget 5, brCalls = []\<rparr>"
    by (rule reach_init) (auto simp: budget_init_def)
  have "budget_step \<lparr>brBudget = NewTokenBudget 5, brCalls = []\<rparr> (enterCall 3 \<lparr>brBudget = NewTokenBudget 5, brCalls = []\<rparr>)"
    by (auto simp: budget_step_def)
  with try_add_linearizable [OF r] r show ?thesis by simp
qed

section \<open>The limit is kept\<close>

text \<open>
  A request that cannot overflow: it is not negative, and the limit and the request together are a
  64-bit number. The middleware asks for a quarter of the length of a prompt.
\<close>

definition modest :: "TokenBudget \<Rightarrow> int64 \<Rightarrow> bool" where
  "modest b t \<longleftrightarrow> 0 \<le> sint t \<and> sint (tbLimit b) + sint t < 2 ^ 63"

definition modest_step :: "BudgetRun \<Rightarrow> BudgetRun \<Rightarrow> bool" where
  "modest_step s s' \<longleftrightarrow>
     (\<exists>tokens. modest (brBudget s) tokens \<and> s' = enterCall tokens s) \<or> (\<exists>i. resumeCall i s = Some s')"

definition granted :: "(int64 \<times> bool option) list \<Rightarrow> int" where
  "granted rs = sum_list (map (\<lambda>(t, r). if r = Some True then sint t else 0) rs)"

fun within :: "AtomicRun \<Rightarrow> bool" where
  "within (b, rs) \<longleftrightarrow> 0 < sint (tbLimit b) \<and> 0 \<le> sint (tbConsumed b) \<and> sint (tbConsumed b) \<le> sint (tbLimit b) \<and>
     sint (tbConsumed b) = granted rs \<and> (\<forall>(t, r) \<in> set rs. modest b t)"

lemma granted_update:
  assumes "i < length rs" and "rs ! i = (t, None)"
  shows "granted (rs[i := (t, Some r)]) = granted rs + (if r then sint t else 0)"
proof -
  have "rs = take i rs @ (t, None) # drop (Suc i) rs" using id_take_nth_drop [OF assms(1)] assms(2) by simp
  then have "granted rs = granted (take i rs @ (t, None) # drop (Suc i) rs)" by (rule arg_cong)
  then have "granted rs = granted (take i rs) + granted (drop (Suc i) rs)" by (simp add: granted_def)
  then show ?thesis using assms(1) by (simp add: upd_conv_take_nth_drop granted_def)
qed

lemma within_reserve:
  assumes "within (b, rs)" and i: "i < length rs" "rs ! i = (t, None)" and "TryAdd t b = (r, b')"
  shows "within (b', rs[i := (t, Some r)])"
proof -
  have t: "modest b t" using assms(1) nth_mem [OF i(1)] i(2) by fastforce
  then have s: "sint (tbConsumed b + t) = sint (tbConsumed b) + sint t"
    using assms(1) by (intro sint_add_exact) (auto simp: modest_def)
  have "tbLimit b \<noteq> 0" using assms(1) by auto
  with assms(4) have b': "b' = (if r then b\<lparr>tbConsumed := tbConsumed b + t\<rparr> else b)"
      and r: "r \<longleftrightarrow> sint (tbConsumed b) + sint t \<le> sint (tbLimit b)"
    by (auto simp: TryAdd_def s split: if_splits)
  have "\<forall>(t, r) \<in> set (rs[i := (t, Some r)]). modest b' t"
    using assms(1) t set_update_subset_insert [of rs i "(t, Some r)"] by (fastforce simp: b' modest_def)
  with assms(1) t show ?thesis using granted_update [OF i, of r] r by (auto simp: b' s modest_def)
qed

lemma within_modest_step:
  assumes "loaded_ok s \<and> within (atomicOf s)" and "modest_step s s'"
  shows "loaded_ok s' \<and> within (atomicOf s')"
proof -
  consider t where "modest (brBudget s) t" "s' = enterCall t s" | i where "resumeCall i s = Some s'"
    using assms(2) by (auto simp: modest_step_def)
  then show ?thesis
  proof cases
    case 1
    with assms(1) show ?thesis by (auto simp: loaded_ok_def enterCall_def atomicOf_def granted_def)
  next
    case (2 i)
    have l: "loaded_ok s'" "atomic_step\<^sup>=\<^sup>= (atomicOf s) (atomicOf s')" using resumeCall_atomic [OF 2] assms(1) by blast+
    have n: "length (snd (atomicOf s')) = length (snd (atomicOf s))"
      using 2 by (auto simp: resumeCall_def atomicOf_def split: if_splits prod.splits option.splits)
    have "within (atomicOf s')"
    proof (cases "atomicOf s' = atomicOf s")
      case False
      with l(2) have "atomic_step (atomicOf s) (atomicOf s')" by simp
      then show ?thesis
      proof cases
        case (call b rs t)
        with n show ?thesis by simp
      next
        case (reserve j rs t b r b')
        have "within (b, rs)" using assms(1) reserve(1) by simp
        from within_reserve [OF this reserve(3-5)] reserve(2) show ?thesis by simp
      qed
    qed (use assms(1) in simp)
    with l(1) show ?thesis by blast
  qed
qed

definition limited_init :: "BudgetRun \<Rightarrow> bool" where
  "limited_init s \<longleftrightarrow> budget_init s \<and> 0 < sint (tbLimit (brBudget s))"

interpretation limited: step_invariant limited_init modest_step "\<lambda>s. loaded_ok s \<and> within (atomicOf s)"
proof
  show "loaded_ok s \<and> within (atomicOf s)" if "limited_init s" for s
    using that by (auto simp: limited_init_def budget_init_def loaded_ok_def atomicOf_def granted_def NewTokenBudget_def)
qed (rule within_modest_step)

text \<open>
  C14: The budget is kept. With a positive limit and requests that cannot overflow, in every
  interleaving the consumed total is exactly the sum of the granted requests, and it stays between
  zero and the limit.
\<close>

theorem budget_kept:
  assumes "reachable limited_init modest_step s"
  shows "0 \<le> sint (tbConsumed (brBudget s)) \<and>
    sint (tbConsumed (brBudget s)) \<le> sint (tbLimit (brBudget s)) \<and>
    sint (tbConsumed (brBudget s)) =
      sum_list (map (\<lambda>(tokens, pc). if pc = TryReturned True then sint tokens else 0) (brCalls s))"
proof -
  have "within (atomicOf s)" using limited.reachable_inv [OF assms] by blast
  moreover have "resultOf pc = Some True \<longleftrightarrow> pc = TryReturned True" for pc by (cases pc) auto
  then have "granted (map (\<lambda>(t, pc). (t, resultOf pc)) (brCalls s)) =
      sum_list (map (\<lambda>(tokens, pc). if pc = TryReturned True then sint tokens else 0) (brCalls s))"
    unfolding granted_def map_map by (intro arg_cong [where f = sum_list] map_cong refl) (simp add: case_prod_unfold)
  ultimately show ?thesis by (simp add: atomicOf_def)
qed

theorem budget_kept_witness:
  "reachable limited_init modest_step \<lparr>brBudget = \<lparr>tbConsumed = 3, tbLimit = 5\<rparr>, brCalls = [(3, TryReturned True), (4, TryReturned False)]\<rparr> \<and>
   sint (3 :: int64) \<le> sint (5 :: int64)"
proof -
  let ?run = "\<lambda>b cs. \<lparr>brBudget = b, brCalls = cs\<rparr>" and ?b = "\<lparr>tbConsumed = 0, tbLimit = 5\<rparr> :: TokenBudget"
  have "reachable limited_init modest_step (?run ?b [])"
    by (rule reach_init) (auto simp: limited_init_def budget_init_def NewTokenBudget_def)
  then have "reachable limited_init modest_step (?run ?b [(3, TryEntered)])"
    by (rule reach_step) (auto simp: modest_step_def modest_def enterCall_def intro!: exI [of _ 3])
  then have "reachable limited_init modest_step (?run ?b [(3, TryEntered), (4, TryEntered)])"
    by (rule reach_step) (auto simp: modest_step_def modest_def enterCall_def intro!: exI [of _ 4])
  then have "reachable limited_init modest_step (?run ?b [(3, TryLoaded 0), (4, TryEntered)])"
    by (rule reach_step) (auto simp: modest_step_def resumeCall_def Let_def intro!: exI [of _ 0])
  then have "reachable limited_init modest_step (?run (?b\<lparr>tbConsumed := 3\<rparr>) [(3, TryReturned True), (4, TryEntered)])"
    by (rule reach_step) (auto simp: modest_step_def resumeCall_def Let_def intro!: exI [of _ 0])
  then have "reachable limited_init modest_step (?run (?b\<lparr>tbConsumed := 3\<rparr>) [(3, TryReturned True), (4, TryReturned False)])"
    by (rule reach_step) (auto simp: modest_step_def resumeCall_def Let_def intro!: exI [of _ 1])
  then have r: "reachable limited_init modest_step (?run \<lparr>tbConsumed = 3, tbLimit = 5\<rparr> [(3, TryReturned True), (4, TryReturned False)])"
    by simp
  from budget_kept [OF r] r show ?thesis by simp
qed

section \<open>Prompts through the middleware\<close>

text \<open>The innermost execution function of the runs below keeps the prompts that reach the agent.\<close>

record AgentLog = AgentWorld +
  alSent :: "string list"

definition sendPrompt :: "'a AgentLog_scheme AgentExecFunc" where
  "sendPrompt prompt w = (None, w\<lparr>alSent := alSent w @ [prompt]\<rparr>)"

definition runPrompts :: "AgentLog AgentMiddleware \<Rightarrow> string list \<Rightarrow> AgentLog \<Rightarrow> AgentLog" where
  "runPrompts m prompts w = fold (\<lambda>prompt w. snd (m sendPrompt prompt w)) prompts w"

definition tokensOf :: "string list \<Rightarrow> int" where
  "tokensOf prompts = sum_list (map (\<lambda>p. int (length p div 4)) prompts)"

definition budgeted :: "int64 \<Rightarrow> 'a AgentLog_scheme \<Rightarrow> bool" where
  "budgeted limit w \<longleftrightarrow>
     (case awBudget w of
        None \<Rightarrow> False
      | Some b \<Rightarrow> tbLimit b = limit \<and> 0 \<le> sint (tbConsumed b) \<and> sint (tbConsumed b) \<le> sint limit \<and>
          sint (tbConsumed b) = tokensOf (alSent w))"

lemma sint_estimate: "int (length p div 4) < 2 ^ 63 \<Longrightarrow> sint (estimatedTokens p) = int (length p div 4)"
  by (simp add: estimatedTokens_def signed_of_nat signed_take_bit_int_eq_self_iff)

lemma budgeted_step:
  assumes "budgeted limit w" and "0 < sint limit" and "sint limit + int (length p div 4) < 2 ^ 63"
  shows "budgeted limit (snd (BudgetMiddleware sendPrompt p w))"
proof -
  obtain b where b: "awBudget w = Some b" "tbLimit b = limit" "0 \<le> sint (tbConsumed b)"
      "sint (tbConsumed b) \<le> sint limit" "sint (tbConsumed b) = tokensOf (alSent w)"
    using assms(1) by (auto simp: budgeted_def split: option.splits)
  have t: "sint (estimatedTokens p) = int (length p div 4)" using assms(2,3) by (intro sint_estimate) linarith
  have s: "sint (tbConsumed b + estimatedTokens p) = sint (tbConsumed b) + int (length p div 4)"
    unfolding t [symmetric] using b assms(3) t by (intro sint_add_exact) linarith+
  have "limit \<noteq> 0" using assms(2) by auto
  then show ?thesis
    using assms(1) b s by (auto simp: BudgetMiddleware_def TryAdd_def sendPrompt_def budgeted_def tokensOf_def split: if_splits)
qed

text \<open>
  Prompts stay within the budget. Whatever prompts are sent through the budget middleware, those
  that reach the agent have an estimated number of tokens that is exactly the consumed total and at
  most the limit.
\<close>

theorem prompts_within_budget:
  assumes "0 < sint limit" and "list_all (\<lambda>p. sint limit + int (length p div 4) < 2 ^ 63) prompts"
  shows "budgeted limit (runPrompts BudgetMiddleware prompts
    \<lparr>awBudget = Some (NewTokenBudget limit), awWarned = False, alSent = []\<rparr>)"
proof -
  have "budgeted limit (runPrompts BudgetMiddleware prompts w)" if "budgeted limit w" for w :: AgentLog
    using assms(2) that by (induction prompts arbitrary: w) (simp_all add: runPrompts_def budgeted_step [OF _ assms(1)])
  then show ?thesis using assms(1) by (simp add: budgeted_def NewTokenBudget_def tokensOf_def)
qed

theorem prompts_within_budget_witness:
  "0 < sint (2 :: int64) \<and>
   alSent (runPrompts BudgetMiddleware [''abcd'', ''abcdefghijkl'', ''efgh'']
     \<lparr>awBudget = Some (NewTokenBudget 2), awWarned = False, alSent = []\<rparr>) = [''abcd'', ''efgh''] \<and>
   budgeted 2 (runPrompts BudgetMiddleware [''abcd'', ''abcdefghijkl'', ''efgh'']
     \<lparr>awBudget = Some (NewTokenBudget 2), awWarned = False, alSent = []\<rparr>)"
proof (intro conjI)
  show "budgeted 2 (runPrompts BudgetMiddleware [''abcd'', ''abcdefghijkl'', ''efgh'']
     \<lparr>awBudget = Some (NewTokenBudget 2), awWarned = False, alSent = []\<rparr>)"
    by (rule prompts_within_budget) simp_all
qed (simp_all add: runPrompts_def BudgetMiddleware_def TryAdd_def sendPrompt_def NewTokenBudget_def estimatedTokens_def)

text \<open>Composition: the first middleware of a chain is the outermost one.\<close>

lemma Chain_Cons: "Chain (m # ms) next = m (Chain ms next)"
  by (simp add: Chain_def)

lemma Chain_append: "Chain (ms @ ns) next = Chain ms (Chain ns next)"
  by (simp add: Chain_def)

text \<open>
  A call refused by the rate limiter in front of the budget consumes no tokens; behind the budget it does.
\<close>

lemma refused_before_budget:
  assumes "allow ''agent'' w = (False, w')"
  shows "Chain [RateLimitMiddleware (Some allow), BudgetMiddleware] exec p w =
    (Some ''rate_limit: agent execution rate exceeded'', w')"
  using assms by (simp add: Chain_Cons Chain_def RateLimitMiddleware_def)

end
