(* ===== verification/Rate_Limit.thy ===== *)
theory Rate_Limit
  imports Complex_Main Kvelmo_Prelude
begin

text \<open>
  The token bucket and the limiter with one bucket per key (src/internal/ratelimit/bucket.go). The
  \<^verbatim>\<open>float64\<close> arithmetic of the bucket is taken exactly, over the rational numbers. The limiter's calls
  are atomic here; every call of the clock is an argument.
\<close>

section \<open>Buckets\<close>

record Bucket =
  bkRate :: rat
  bkBurst :: rat
  bkTokens :: rat
  bkLastTime :: time

definition NewBucket :: "rat \<Rightarrow> int \<Rightarrow> time \<Rightarrow> Bucket" where
  "NewBucket rate burst now = \<lparr>bkRate = rate, bkBurst = of_int burst, bkTokens = of_int burst, bkLastTime = now\<rparr>"

definition Seconds :: "duration \<Rightarrow> rat" where
  "Seconds d = of_int d / 10 ^ 9"

definition AllowN :: "time \<Rightarrow> int \<Rightarrow> Bucket \<Rightarrow> bool \<times> Bucket" where
  "AllowN now n b =
     (let elapsed = Seconds (now - bkLastTime b);
          b1 = b\<lparr>bkTokens := min (bkTokens b + elapsed * bkRate b) (bkBurst b), bkLastTime := now\<rparr>;
          need = of_int n
      in if bkTokens b1 < need then (False, b1) else (True, b1\<lparr>bkTokens := bkTokens b1 - need\<rparr>))"

definition AllowOne :: "time \<Rightarrow> Bucket \<Rightarrow> bool \<times> Bucket" where
  "AllowOne now b = AllowN now 1 b"

section \<open>The limiter\<close>

record bucketEntry =
  beBucket :: Bucket
  beLastUsed :: time

record Limiter =
  lmRate :: rat
  lmBurst :: int
  lmBuckets :: "(string, bucketEntry) gomap"

definition NewLimiter :: "rat \<Rightarrow> int \<Rightarrow> Limiter" where
  "NewLimiter rate burst = \<lparr>lmRate = rate, lmBurst = burst, lmBuckets = []\<rparr>"

text \<open>
  \<^verbatim>\<open>Allow\<close> reads the clock on entry, when it makes a bucket, and when the bucket is asked.
\<close>

definition Allow :: "time \<Rightarrow> time \<Rightarrow> time \<Rightarrow> string \<Rightarrow> Limiter \<Rightarrow> bool \<times> Limiter" where
  "Allow now made asked key l =
     (let bucket = (case map_of (lmBuckets l) key of
                      Some entry \<Rightarrow> beBucket entry
                    | None \<Rightarrow> NewBucket (lmRate l) (lmBurst l) made)
      in (case AllowOne asked bucket of
            (ok, b) \<Rightarrow> (ok, l\<lparr>lmBuckets := AList.update key \<lparr>beBucket = b, beLastUsed = now\<rparr> (lmBuckets l)\<rparr>)))"

definition Remove :: "string \<Rightarrow> Limiter \<Rightarrow> Limiter" where
  "Remove key l = l\<lparr>lmBuckets := AList.delete key (lmBuckets l)\<rparr>"

definition staleThreshold :: duration where
  "staleThreshold = 10 * 60 * 10 ^ 9"

definition removeStale :: "time \<Rightarrow> Limiter \<Rightarrow> Limiter" where
  "removeStale now l =
     l\<lparr>lmBuckets := filter (\<lambda>(key, entry). \<not> now - beLastUsed entry > staleThreshold) (lmBuckets l)\<rparr>"

section \<open>A bucket keeps its rate\<close>

fun allowAll :: "(time \<times> int) list \<Rightarrow> Bucket \<Rightarrow> int \<times> Bucket" where
  "allowAll [] b = (0, b)"
| "allowAll ((now, n) # calls) b =
     (case AllowN now n b of (ok, b1) \<Rightarrow> (case allowAll calls b1 of (granted, b2) \<Rightarrow> ((if ok then n else 0) + granted, b2)))"

definition bucket_ok :: "Bucket \<Rightarrow> bool" where
  "bucket_ok b \<longleftrightarrow> 0 \<le> bkRate b \<and> 0 \<le> bkTokens b \<and> bkTokens b \<le> bkBurst b"

lemma Seconds_nonneg: "0 \<le> d \<Longrightarrow> 0 \<le> Seconds d"
  by (simp add: Seconds_def)

lemma Seconds_add: "Seconds (a - b) + Seconds (c - a) = Seconds (c - b)"
  by (simp add: Seconds_def field_simps)

lemma AllowN_ok:
  assumes "bucket_ok b" and "bkLastTime b \<le> now" and "0 \<le> n" and "AllowN now n b = (ok, b')"
  shows "bucket_ok b'" "bkLastTime b' = now" "bkRate b' = bkRate b" "bkBurst b' = bkBurst b"
    and "of_int (if ok then n else 0) + bkTokens b' \<le> bkTokens b + bkRate b * Seconds (now - bkLastTime b)"
proof -
  have e: "0 \<le> Seconds (now - bkLastTime b) * bkRate b"
    using assms(1,2) by (simp add: bucket_ok_def Seconds_nonneg)
  then show "bucket_ok b'" "bkLastTime b' = now" "bkRate b' = bkRate b" "bkBurst b' = bkBurst b"
    using assms by (auto simp: AllowN_def Let_def bucket_ok_def split: if_splits)
  show "of_int (if ok then n else 0) + bkTokens b' \<le> bkTokens b + bkRate b * Seconds (now - bkLastTime b)"
    using assms(4) by (auto simp: AllowN_def Let_def mult.commute split: if_splits)
qed

definition in_order :: "time \<Rightarrow> (time \<times> int) list \<Rightarrow> time \<Rightarrow> bool" where
  "in_order from calls until \<longleftrightarrow> sorted (from # map fst calls @ [until]) \<and> list_all (\<lambda>(now, n). 0 \<le> n) calls"

lemma allowAll_potential:
  assumes "bucket_ok b" and "in_order (bkLastTime b) calls until"
  shows "of_int (fst (allowAll calls b)) \<le> bkTokens b + bkRate b * Seconds (until - bkLastTime b)"
  using assms
proof (induction calls arbitrary: b)
  case Nil
  then show ?case by (simp add: bucket_ok_def in_order_def Seconds_nonneg)
next
  case (Cons c calls)
  obtain now n where c: "c = (now, n)" by fastforce
  obtain ok b1 where b1: "AllowN now n b = (ok, b1)" by fastforce
  obtain g b2 where b2: "allowAll calls b1 = (g, b2)" by fastforce
  have n: "bkLastTime b \<le> now" "0 \<le> n" using Cons.prems(2) by (auto simp: in_order_def c)
  note a = AllowN_ok [OF Cons.prems(1) n b1]
  have "in_order (bkLastTime b1) calls until" using Cons.prems(2) a(2) by (auto simp: in_order_def c)
  from Cons.IH [OF a(1) this] have "of_int g \<le> bkTokens b1 + bkRate b * Seconds (until - now)" using a b2 by simp
  with a(5) have "of_int ((if ok then n else 0) + g) \<le> bkTokens b + bkRate b * (Seconds (now - bkLastTime b) + Seconds (until - now))"
    by (simp add: distrib_left)
  then show ?case by (simp add: c b1 b2 Seconds_add)
qed

text \<open>
  The rate is kept. Whatever is asked of a bucket that holds no more than its burst, at whatever times, the tokens granted in
  an interval are at most the burst and the rate times the length of the interval, in exact arithmetic.
\<close>

theorem rate_kept:
  assumes "bucket_ok b" and "in_order (bkLastTime b) calls until"
  shows "of_int (fst (allowAll calls b)) \<le> bkBurst b + bkRate b * Seconds (until - bkLastTime b)"
  using allowAll_potential [OF assms] assms(1) by (simp add: bucket_ok_def)

theorem rate_kept_witness:
  "bucket_ok (NewBucket 2 3 0) \<and> fst (allowAll [(0, 2), (10 ^ 9, 3), (10 ^ 9, 1)] (NewBucket 2 3 0)) = 5 \<and>
   (of_int (fst (allowAll [(0, 2), (10 ^ 9, 3), (10 ^ 9, 1)] (NewBucket 2 3 0))) :: rat) \<le> 3 + 2 * Seconds (10 ^ 9 - 0)"
proof -
  have b: "bucket_ok (NewBucket 2 3 0)" by (simp add: bucket_ok_def NewBucket_def)
  have "in_order (bkLastTime (NewBucket 2 3 0)) [(0, 2), (10 ^ 9, 3), (10 ^ 9, 1)] (10 ^ 9)" by (simp add: in_order_def NewBucket_def)
  from rate_kept [OF b this] b show ?thesis by (simp add: NewBucket_def AllowN_def Let_def Seconds_def)
qed

section \<open>Removing stale buckets\<close>

text \<open>
  Every bucket of a limiter has the limiter's rate and burst, and was last refilled when it was last used.
  The clock of a bucket runs after the one of the entry, so the time of its use is a lower bound.
\<close>

definition entry_ok :: "Limiter \<Rightarrow> time \<Rightarrow> bucketEntry \<Rightarrow> bool" where
  "entry_ok l latest e \<longleftrightarrow> bkRate (beBucket e) = lmRate l \<and> bkBurst (beBucket e) = of_int (lmBurst l) \<and>
     bucket_ok (beBucket e) \<and> bkLastTime (beBucket e) \<le> latest"

text \<open>A bucket that has had time to fill up answers as a new one does.\<close>

lemma AllowN_full:
  assumes "bkRate b = rate" and "bkBurst b = of_int burst" and "bucket_ok b" and "0 \<le> rate"
    and "of_int burst \<le> rate * Seconds (now - bkLastTime b)" and "made \<le> now"
  shows "AllowN now n b = AllowN now n (NewBucket rate burst made)"
proof -
  have "bkTokens b + Seconds (now - bkLastTime b) * bkRate b \<ge> of_int burst"
    using assms by (simp add: bucket_ok_def mult.commute add_increasing)
  moreover have "of_int burst + Seconds (now - made) * rate \<ge> of_int burst"
    using assms(4,6) by (simp add: Seconds_nonneg)
  ultimately show ?thesis
    using assms(1,2) by (simp add: AllowN_def NewBucket_def Let_def min_absorb2)
qed

text \<open>
  Cleaning up is invisible. If ten minutes suffice to fill a bucket, then removing the buckets that
  have not been used for that long changes neither the answer to a later request nor the bucket it
  leaves behind. (The server's limiter has 16.67 tokens per second and a burst of 100.)
\<close>

theorem cleanup_invisible:
  assumes "wf_map (lmBuckets l)" and "\<forall>(k, e) \<in> set (lmBuckets l). entry_ok l (beLastUsed e + slack) e"
    and "0 \<le> lmRate l" and "of_int (lmBurst l) \<le> lmRate l * Seconds (staleThreshold - slack)" and "0 \<le> slack"
    and "cleaned \<le> now" and "now \<le> made" and "made \<le> asked"
  shows "fst (Allow now made asked key (removeStale cleaned l)) = fst (Allow now made asked key l) \<and>
    map_of (lmBuckets (snd (Allow now made asked key (removeStale cleaned l)))) key =
    map_of (lmBuckets (snd (Allow now made asked key l))) key"
proof -
  have m: "map_of (lmBuckets (removeStale cleaned l)) key =
      (case map_of (lmBuckets l) key of None \<Rightarrow> None
       | Some e \<Rightarrow> if \<not> cleaned - beLastUsed e > staleThreshold then Some e else None)"
    unfolding removeStale_def by (simp add: map_of_filter_pair [OF assms(1), of "\<lambda>k e. \<not> cleaned - beLastUsed e > staleThreshold"])
  have same: "lmRate (removeStale cleaned l) = lmRate l" "lmBurst (removeStale cleaned l) = lmBurst l"
    by (simp_all add: removeStale_def)
  have "AllowN asked 1 (beBucket e) = AllowN asked 1 (NewBucket (lmRate l) (lmBurst l) made)"
    if e: "map_of (lmBuckets l) key = Some e" and old: "cleaned - beLastUsed e > staleThreshold" for e
  proof -
    have ok: "entry_ok l (beLastUsed e + slack) e" using assms(2) map_of_SomeD [OF e] by blast
    have "staleThreshold - slack \<le> asked - bkLastTime (beBucket e)" using ok old assms(6-8) by (simp add: entry_ok_def)
    then have "Seconds (staleThreshold - slack) \<le> Seconds (asked - bkLastTime (beBucket e))"
      unfolding Seconds_def by (intro divide_right_mono) simp_all
    then have "lmRate l * Seconds (staleThreshold - slack) \<le> lmRate l * Seconds (asked - bkLastTime (beBucket e))"
      using assms(3) by (rule mult_left_mono)
    with assms(4) have "of_int (lmBurst l) \<le> lmRate l * Seconds (asked - bkLastTime (beBucket e))" by linarith
    then show ?thesis using ok assms(3,8) by (intro AllowN_full) (simp_all add: entry_ok_def)
  qed
  then show ?thesis
    by (auto simp: Allow_def AllowOne_def Let_def m same split: option.splits prod.splits)
qed

theorem cleanup_invisible_witness:
  "fst (Allow (2 * 10 ^ 12) (2 * 10 ^ 12) (2 * 10 ^ 12) ''c''
     (removeStale (2 * 10 ^ 12) (snd (Allow 0 0 0 ''c'' (NewLimiter (1667 / 100) 100))))) =
   fst (Allow (2 * 10 ^ 12) (2 * 10 ^ 12) (2 * 10 ^ 12) ''c'' (snd (Allow 0 0 0 ''c'' (NewLimiter (1667 / 100) 100))))"
proof -
  let ?l = "snd (Allow 0 0 0 ''c'' (NewLimiter (1667 / 100) 100))"
  have "wf_map (lmBuckets ?l)" "\<forall>(k, e) \<in> set (lmBuckets ?l). entry_ok ?l (beLastUsed e + 0) e" "0 \<le> lmRate ?l"
    "of_int (lmBurst ?l) \<le> lmRate ?l * Seconds (staleThreshold - 0)"
    by (simp_all add: Allow_def AllowOne_def AllowN_def NewLimiter_def NewBucket_def Let_def entry_ok_def bucket_ok_def
        Seconds_def staleThreshold_def)
  from cleanup_invisible [OF this] show ?thesis by simp
qed

end
