(* ===== verification/Agent_Guards.thy ===== *)
theory Agent_Guards
  imports Token_Budget Rate_Limit
begin

text \<open>
  An agent behind the rate limiter and the budget: the limiter is asked first, at the time the clock shows,
  then the budget; what passes both reaches the agent.
\<close>

record GuardedWorld = AgentLog +
  gwLimiter :: Limiter
  gwClock :: time

definition askLimiter :: "string \<Rightarrow> GuardedWorld \<Rightarrow> bool \<times> GuardedWorld" where
  "askLimiter key w =
     (case Allow (gwClock w) (gwClock w) (gwClock w) key (gwLimiter w) of (ok, l) \<Rightarrow> (ok, w\<lparr>gwLimiter := l\<rparr>))"

definition guardedCall :: "time \<times> string \<Rightarrow> GuardedWorld \<Rightarrow> GuardedWorld" where
  "guardedCall call w =
     snd (Chain [RateLimitMiddleware (Some askLimiter), BudgetMiddleware] sendPrompt (snd call) (w\<lparr>gwClock := fst call\<rparr>))"

definition freshWorld :: "rat \<Rightarrow> int \<Rightarrow> int64 \<Rightarrow> time \<Rightarrow> GuardedWorld" where
  "freshWorld rate burst limit start = \<lparr>awBudget = Some (NewTokenBudget limit), awWarned = False, alSent = [],
     gwLimiter = NewLimiter rate burst, gwClock = start\<rparr>"

text \<open>The bucket of the agent, as it will be found by the next call.\<close>

definition agentBucket :: "GuardedWorld \<Rightarrow> Bucket" where
  "agentBucket w =
     (case map_of (lmBuckets (gwLimiter w)) ''agent'' of
        Some e \<Rightarrow> beBucket e
      | None \<Rightarrow> NewBucket (lmRate (gwLimiter w)) (lmBurst (gwLimiter w)) (gwClock w))"

definition guarded :: "rat \<Rightarrow> int \<Rightarrow> int64 \<Rightarrow> time \<Rightarrow> GuardedWorld \<Rightarrow> bool" where
  "guarded rate burst limit start w \<longleftrightarrow> budgeted limit w \<and> start \<le> gwClock w \<and>
     lmRate (gwLimiter w) = rate \<and> lmBurst (gwLimiter w) = burst \<and> bucket_ok (agentBucket w) \<and>
     bkRate (agentBucket w) = rate \<and> bkLastTime (agentBucket w) = gwClock w \<and>
     of_nat (length (alSent w)) + bkTokens (agentBucket w) \<le> of_int burst + rate * Seconds (gwClock w - start)"

lemma budgeted_other:
  "budgeted limit (w\<lparr>gwClock := t\<rparr>) = budgeted limit w" "budgeted limit (w\<lparr>gwLimiter := l\<rparr>) = budgeted limit w"
  by (auto simp: budgeted_def split: option.splits)

lemma budget_passes:
  fixes w :: GuardedWorld
  shows "gwLimiter (snd (BudgetMiddleware sendPrompt p w)) = gwLimiter w"
    and "gwClock (snd (BudgetMiddleware sendPrompt p w)) = gwClock w"
    and "length (alSent (snd (BudgetMiddleware sendPrompt p w))) \<le> length (alSent w) + 1"
  by (auto simp: BudgetMiddleware_def sendPrompt_def split: option.splits prod.splits bool.splits)

lemma ask_limiter:
  assumes "guarded rate burst limit start w" and "gwClock w \<le> t" and "askLimiter ''agent'' (w\<lparr>gwClock := t\<rparr>) = (ok, w')"
  shows "budgeted limit w'" and "gwClock w' = t" and "alSent w' = alSent w"
    and "lmRate (gwLimiter w') = rate" and "lmBurst (gwLimiter w') = burst"
    and "bucket_ok (agentBucket w')" and "bkRate (agentBucket w') = rate" and "bkLastTime (agentBucket w') = t"
    and "of_nat (length (alSent w)) + of_bool ok + bkTokens (agentBucket w') \<le> of_int burst + rate * Seconds (t - start)"
proof -
  let ?l = "gwLimiter w"
  define b where "b = (case map_of (lmBuckets ?l) ''agent'' of Some e \<Rightarrow> beBucket e | None \<Rightarrow> NewBucket rate burst t)"
  obtain ok' b' where b': "AllowN t 1 b = (ok', b')" by fastforce
  have g: "budgeted limit w" "start \<le> gwClock w" "lmRate ?l = rate" "lmBurst ?l = burst" "bucket_ok (agentBucket w)"
      "bkRate (agentBucket w) = rate" "bkLastTime (agentBucket w) = gwClock w"
      "of_nat (length (alSent w)) + bkTokens (agentBucket w) \<le> of_int burst + rate * Seconds (gwClock w - start)"
    using assms(1) by (simp_all add: guarded_def)
  have "Allow t t t ''agent'' ?l = (ok', ?l\<lparr>lmBuckets := AList.update ''agent'' \<lparr>beBucket = b', beLastUsed = t\<rparr> (lmBuckets ?l)\<rparr>)"
    using b' g(3,4) by (cases "map_of (lmBuckets ?l) ''agent''") (simp_all add: Allow_def AllowOne_def b_def Let_def)
  with assms(3) have w': "ok = ok'"
      "w' = w\<lparr>gwClock := t, gwLimiter := ?l\<lparr>lmBuckets := AList.update ''agent'' \<lparr>beBucket = b', beLastUsed = t\<rparr> (lmBuckets ?l)\<rparr>\<rparr>"
    by (simp_all add: askLimiter_def)
  have a: "agentBucket w' = b'" by (simp add: agentBucket_def w'(2))
  have r: "0 \<le> rate" using g(5,6) by (simp add: bucket_ok_def)
  have b: "bucket_ok b" "bkLastTime b \<le> t" "bkRate b = rate"
      "of_nat (length (alSent w)) + (bkTokens b + rate * Seconds (t - bkLastTime b)) \<le> of_int burst + rate * Seconds (t - start)"
  proof -
    have "bucket_ok b \<and> bkLastTime b \<le> t \<and> bkRate b = rate \<and>
      of_nat (length (alSent w)) + (bkTokens b + rate * Seconds (t - bkLastTime b)) \<le> of_int burst + rate * Seconds (t - start)"
    proof (cases "map_of (lmBuckets ?l) ''agent''")
      case None
      have "Seconds (gwClock w - start) \<le> Seconds (t - start)" using assms(2) by (simp add: Seconds_def divide_right_mono)
      then have "rate * Seconds (gwClock w - start) \<le> rate * Seconds (t - start)" using r by (rule mult_left_mono)
      moreover have "Seconds 0 = 0" by (simp add: Seconds_def)
      ultimately show ?thesis using None g by (auto simp: b_def agentBucket_def NewBucket_def bucket_ok_def)
    next
      case (Some e)
      then have e: "b = agentBucket w" by (simp add: b_def agentBucket_def)
      have "rate * Seconds (gwClock w - start) + rate * Seconds (t - gwClock w) = rate * Seconds (t - start)"
        by (simp flip: distrib_left add: Seconds_add)
      then show ?thesis unfolding e using g assms(2) by auto
    qed
    then show "bucket_ok b" "bkLastTime b \<le> t" "bkRate b = rate"
      "of_nat (length (alSent w)) + (bkTokens b + rate * Seconds (t - bkLastTime b)) \<le> of_int burst + rate * Seconds (t - start)"
      by blast+
  qed
  note n = AllowN_ok [OF b(1,2) _ b', simplified]
  show "bucket_ok (agentBucket w')" "bkRate (agentBucket w') = rate" "bkLastTime (agentBucket w') = t"
    using n b(3) by (simp_all add: a)
  show "gwClock w' = t" "alSent w' = alSent w" "lmRate (gwLimiter w') = rate" "lmBurst (gwLimiter w') = burst" "budgeted limit w'"
    using g(1,3,4) by (simp_all add: w'(2) budgeted_other)
  have "of_bool ok' + bkTokens b' \<le> bkTokens b + rate * Seconds (t - bkLastTime b)"
    using n(5) b(3) by (cases ok') simp_all
  with b(4) show "of_nat (length (alSent w)) + of_bool ok + bkTokens (agentBucket w') \<le> of_int burst + rate * Seconds (t - start)"
    unfolding a w'(1) by linarith
qed

lemma guarded_step:
  assumes "guarded rate burst limit start w" and "gwClock w \<le> fst call" and "0 < sint limit"
    and "sint limit + int (length (snd call) div 4) < 2 ^ 63"
  shows "guarded rate burst limit start (guardedCall call w)" and "gwClock (guardedCall call w) = fst call"
proof -
  obtain ok w' where w': "askLimiter ''agent'' (w\<lparr>gwClock := fst call\<rparr>) = (ok, w')" by fastforce
  note l = ask_limiter [OF assms(1,2) w']
  define v where "v = (if ok then snd (BudgetMiddleware sendPrompt (snd call) w') else w')"
  have v: "guardedCall call w = v" by (simp add: guardedCall_def Chain_def RateLimitMiddleware_def w' v_def)
  have s: "gwLimiter v = gwLimiter w'" "gwClock v = gwClock w'" by (simp_all add: v_def budget_passes)
  have "length (alSent v) \<le> length (alSent w) + of_bool ok"
    using budget_passes(3) [of "snd call" w'] l(3) by (simp add: v_def)
  then have n: "(of_nat (length (alSent v)) :: rat) \<le> of_nat (length (alSent w)) + of_bool ok"
    by (metis of_nat_add of_nat_le_iff of_nat_of_bool)
  have b: "agentBucket v = agentBucket w'" unfolding agentBucket_def s ..
  have "budgeted limit v" using budgeted_step [OF l(1) assms(3,4)] l(1) by (simp add: v_def)
  moreover have "start \<le> fst call" using assms(1,2) by (simp add: guarded_def)
  ultimately show "guarded rate burst limit start (guardedCall call w)"
    using l n by (auto simp: v guarded_def s b)
  show "gwClock (guardedCall call w) = fst call" using l(2) by (simp add: v s)
qed

text \<open>
  Rate and budget together. However an agent behind the rate limiter and the budget is called, at
  whatever times, the prompts that reach it since the start are at most the burst and the rate times the
  time that has passed, and their estimated tokens are at most the limit.
\<close>

theorem guarded_calls_bounded:
  assumes "0 \<le> rate" and "0 \<le> burst" and "0 < sint limit" and "sorted (start # map fst calls)"
    and "list_all (\<lambda>(t, p). sint limit + int (length p div 4) < 2 ^ 63) calls"
  shows "of_nat (length (alSent (fold guardedCall calls (freshWorld rate burst limit start)))) \<le>
      of_int burst + rate * Seconds (last (start # map fst calls) - start) \<and>
    tokensOf (alSent (fold guardedCall calls (freshWorld rate burst limit start))) \<le> sint limit"
proof -
  let ?w = "fold guardedCall calls (freshWorld rate burst limit start)"
  have run: "guarded rate burst limit start (fold guardedCall calls w) \<and>
      gwClock (fold guardedCall calls w) = last (gwClock w # map fst calls)"
    if "guarded rate burst limit start w" "sorted (gwClock w # map fst calls)"
      "list_all (\<lambda>(t, p). sint limit + int (length p div 4) < 2 ^ 63) calls" for w calls
    using that
  proof (induction calls arbitrary: w)
    case (Cons c calls)
    have c: "gwClock w \<le> fst c" "sint limit + int (length (snd c) div 4) < 2 ^ 63" using Cons.prems by (auto simp: case_prod_unfold)
    note st = guarded_step [OF Cons.prems(1) c(1) assms(3) c(2)]
    from Cons.IH [OF st(1)] Cons.prems st(2) show ?case by simp
  qed simp
  have "guarded rate burst limit start (freshWorld rate burst limit start)"
    using assms(1-3) by (simp add: guarded_def freshWorld_def budgeted_def NewTokenBudget_def tokensOf_def agentBucket_def
        NewLimiter_def NewBucket_def bucket_ok_def Seconds_def)
  from run [OF this _ assms(5)] assms(4)
  have g: "guarded rate burst limit start ?w" "gwClock ?w = last (start # map fst calls)" by (simp_all add: freshWorld_def)
  define w where "w = ?w"
  have w: "guarded rate burst limit start w" "gwClock w = last (start # map fst calls)" using g by (simp_all add: w_def)
  then have "0 \<le> bkTokens (agentBucket w)" by (simp add: guarded_def bucket_ok_def)
  moreover have "of_nat (length (alSent w)) + bkTokens (agentBucket w) \<le> of_int burst + rate * Seconds (last (start # map fst calls) - start)"
    using w by (simp only: guarded_def)
  ultimately have "of_nat (length (alSent w)) \<le> of_int burst + rate * Seconds (last (start # map fst calls) - start)" by linarith
  moreover have "tokensOf (alSent w) \<le> sint limit" using w(1) by (auto simp: guarded_def budgeted_def split: option.splits)
  ultimately show ?thesis unfolding w_def by blast
qed

theorem guarded_calls_bounded_witness:
  "(of_nat (length (alSent (fold guardedCall [(0, ''abcd''), (0, ''efgh''), (10 ^ 9, ''ijkl'')] (freshWorld 1 1 5 0)))) :: rat) \<le>
     1 + 1 * Seconds (10 ^ 9)"
  using guarded_calls_bounded [of 1 1 5 0 "[(0, ''abcd''), (0, ''efgh''), (10 ^ 9, ''ijkl'')]"] by simp

end
