(* ===== verification/Circuit_Breaker.thy ===== *)
theory Circuit_Breaker
  imports Kvelmo_Prelude
begin

text \<open>
  The two circuit breakers (src/internal/retry/circuit.go, src/internal/provider/circuit.go). They differ
  in their fields and in the condition that opens them; both are shown to implement one abstract breaker,
  whose answers are determined by the trailing failures of the recorded history. Every call of the clock
  is an argument.
\<close>

section \<open>The breaker of the retry package\<close>

datatype CircuitState = CircuitClosed | CircuitOpen | CircuitHalfOpen

fun circuitString :: "CircuitState \<Rightarrow> string" where
  "circuitString CircuitClosed = ''closed''"
| "circuitString CircuitOpen = ''open''"
| "circuitString CircuitHalfOpen = ''half-open''"

record RetryBreaker =
  rbName :: string
  rbThreshold :: int
  rbCooldown :: duration
  rbState :: CircuitState
  rbConsecutiveFails :: int
  rbLastFailure :: time

definition defaultCooldown :: duration where
  "defaultCooldown = 30 * 10 ^ 9"

definition NewRetryBreaker :: "string \<Rightarrow> int \<Rightarrow> duration \<Rightarrow> RetryBreaker" where
  "NewRetryBreaker name threshold cooldown = \<lparr>rbName = name,
     rbThreshold = (if threshold \<le> 0 then 5 else threshold),
     rbCooldown = (if cooldown \<le> 0 then defaultCooldown else cooldown),
     rbState = CircuitClosed, rbConsecutiveFails = 0, rbLastFailure = 0\<rparr>"

definition rbAllow :: "time \<Rightarrow> RetryBreaker \<Rightarrow> bool \<times> RetryBreaker" where
  "rbAllow now cb =
     (case rbState cb of
        CircuitClosed \<Rightarrow> (True, cb)
      | CircuitHalfOpen \<Rightarrow> (False, cb)
      | CircuitOpen \<Rightarrow>
          if now - rbLastFailure cb \<ge> rbCooldown cb then (True, cb\<lparr>rbState := CircuitHalfOpen\<rparr>) else (False, cb))"

definition rbRecordSuccess :: "RetryBreaker \<Rightarrow> RetryBreaker" where
  "rbRecordSuccess cb = cb\<lparr>rbConsecutiveFails := 0, rbState := CircuitClosed\<rparr>"

definition rbRecordFailure :: "time \<Rightarrow> RetryBreaker \<Rightarrow> RetryBreaker" where
  "rbRecordFailure now cb =
     (let cb1 = cb\<lparr>rbConsecutiveFails := rbConsecutiveFails cb + 1, rbLastFailure := now\<rparr>
      in if rbConsecutiveFails cb1 \<ge> rbThreshold cb1 \<or> rbState cb1 = CircuitHalfOpen
         then cb1\<lparr>rbState := CircuitOpen\<rparr> else cb1)"

definition circuitOpenError :: "string \<Rightarrow> string" where
  "circuitOpenError name = ''circuit breaker is open: '' @ name"

section \<open>The breaker of the provider package\<close>

record ProviderBreaker =
  pbState :: CircuitState
  pbFailures :: int
  pbMaxFailures :: int
  pbLastFailure :: time
  pbResetTimeout :: duration

definition NewProviderBreaker :: "int \<Rightarrow> duration \<Rightarrow> ProviderBreaker" where
  "NewProviderBreaker maxFailures resetTimeout = \<lparr>pbState = CircuitClosed, pbFailures = 0,
     pbMaxFailures = (if maxFailures \<le> 0 then 5 else maxFailures), pbLastFailure = 0,
     pbResetTimeout = (if resetTimeout \<le> 0 then defaultCooldown else resetTimeout)\<rparr>"

text \<open>The answer is whether \<^verbatim>\<open>Allow\<close> returns no error.\<close>

definition pbAllow :: "time \<Rightarrow> ProviderBreaker \<Rightarrow> bool \<times> ProviderBreaker" where
  "pbAllow now cb =
     (case pbState cb of
        CircuitClosed \<Rightarrow> (True, cb)
      | CircuitOpen \<Rightarrow>
          if now - pbLastFailure cb \<ge> pbResetTimeout cb then (True, cb\<lparr>pbState := CircuitHalfOpen\<rparr>) else (False, cb)
      | CircuitHalfOpen \<Rightarrow> (False, cb))"

definition pbRecordSuccess :: "ProviderBreaker \<Rightarrow> ProviderBreaker" where
  "pbRecordSuccess cb = cb\<lparr>pbFailures := 0, pbState := CircuitClosed\<rparr>"

definition pbRecordFailure :: "time \<Rightarrow> ProviderBreaker \<Rightarrow> ProviderBreaker" where
  "pbRecordFailure now cb =
     (let cb1 = cb\<lparr>pbFailures := pbFailures cb + 1, pbLastFailure := now\<rparr>
      in if pbFailures cb1 \<ge> pbMaxFailures cb1 then cb1\<lparr>pbState := CircuitOpen\<rparr> else cb1)"

section \<open>The abstract breaker\<close>

text \<open>
  The calls made on a breaker by any number of users, in the order in which its mutex admits them, and
  what a history of calls says: how many failures have been recorded since the last success, when the last
  one was, and whether a probe has been admitted since the last record.
\<close>

datatype BreakerCall = CallAllow time | CallSuccess | CallFailure time

record History =
  hFails :: int
  hLast :: time
  hProbing :: bool

definition admits :: "int \<Rightarrow> duration \<Rightarrow> time \<Rightarrow> History \<Rightarrow> bool" where
  "admits limit wait now h \<longleftrightarrow> hFails h < limit \<or> \<not> hProbing h \<and> wait \<le> now - hLast h"

fun callOn :: "int \<Rightarrow> duration \<Rightarrow> BreakerCall \<Rightarrow> History \<Rightarrow> bool list \<times> History" where
  "callOn limit wait (CallAllow now) h =
     ([admits limit wait now h],
      h\<lparr>hProbing := hProbing h \<or> admits limit wait now h \<and> limit \<le> hFails h\<rparr>)"
| "callOn limit wait CallSuccess h = ([], h\<lparr>hFails := 0, hProbing := False\<rparr>)"
| "callOn limit wait (CallFailure now) h = ([], h\<lparr>hFails := hFails h + 1, hLast := now, hProbing := False\<rparr>)"

fun answers :: "int \<Rightarrow> duration \<Rightarrow> BreakerCall list \<Rightarrow> History \<Rightarrow> bool list" where
  "answers limit wait [] h = []"
| "answers limit wait (c # cs) h = (case callOn limit wait c h of (as, h') \<Rightarrow> as @ answers limit wait cs h')"

definition noHistory :: History where
  "noHistory = \<lparr>hFails = 0, hLast = 0, hProbing = False\<rparr>"

text \<open>The answers that an implementation gives to a sequence of calls.\<close>

fun perform :: "(time \<Rightarrow> 'b \<Rightarrow> bool \<times> 'b) \<Rightarrow> ('b \<Rightarrow> 'b) \<Rightarrow> (time \<Rightarrow> 'b \<Rightarrow> 'b) \<Rightarrow> BreakerCall \<Rightarrow> 'b \<Rightarrow> bool list \<times> 'b" where
  "perform allow success failure (CallAllow now) b = (case allow now b of (a, b') \<Rightarrow> ([a], b'))"
| "perform allow success failure CallSuccess b = ([], success b)"
| "perform allow success failure (CallFailure now) b = ([], failure now b)"

fun replies :: "(BreakerCall \<Rightarrow> 'b \<Rightarrow> bool list \<times> 'b) \<Rightarrow> BreakerCall list \<Rightarrow> 'b \<Rightarrow> bool list" where
  "replies call [] b = []"
| "replies call (c # cs) b = (case call c b of (as, b') \<Rightarrow> as @ replies call cs b')"

fun afterCalls :: "(BreakerCall \<Rightarrow> 'b \<Rightarrow> bool list \<times> 'b) \<Rightarrow> BreakerCall list \<Rightarrow> 'b \<Rightarrow> 'b" where
  "afterCalls call [] b = b"
| "afterCalls call (c # cs) b = afterCalls call cs (snd (call c b))"

abbreviation rbCall :: "BreakerCall \<Rightarrow> RetryBreaker \<Rightarrow> bool list \<times> RetryBreaker" where
  "rbCall \<equiv> perform rbAllow rbRecordSuccess rbRecordFailure"

abbreviation pbCall :: "BreakerCall \<Rightarrow> ProviderBreaker \<Rightarrow> bool list \<times> ProviderBreaker" where
  "pbCall \<equiv> perform pbAllow pbRecordSuccess pbRecordFailure"

section \<open>The interface of a breaker\<close>

text \<open>
  What both packages promise. The observers give the state, the number of consecutive failures and the
  time of the last one; the laws say what each operation does to them.
\<close>

locale circuit_breaker =
  fixes allow :: "time \<Rightarrow> 'b \<Rightarrow> bool \<times> 'b" and success :: "'b \<Rightarrow> 'b" and failure :: "time \<Rightarrow> 'b \<Rightarrow> 'b"
    and state :: "'b \<Rightarrow> CircuitState" and fails :: "'b \<Rightarrow> int" and last_failure :: "'b \<Rightarrow> time"
    and threshold :: "'b \<Rightarrow> int" and cooldown :: "'b \<Rightarrow> duration"
  assumes allow_closed: "state b = CircuitClosed \<Longrightarrow> allow now b = (True, b)"
    and allow_probing: "state b = CircuitHalfOpen \<Longrightarrow> allow now b = (False, b)"
    and allow_early: "state b = CircuitOpen \<Longrightarrow> now - last_failure b < cooldown b \<Longrightarrow> allow now b = (False, b)"
    and allow_probe: "state b = CircuitOpen \<Longrightarrow> cooldown b \<le> now - last_failure b \<Longrightarrow>
      fst (allow now b) \<and> state (snd (allow now b)) = CircuitHalfOpen"
    and keeps: "fails (snd (allow now b)) = fails b" "last_failure (snd (allow now b)) = last_failure b"
      "threshold (snd (allow now b)) = threshold b" "cooldown (snd (allow now b)) = cooldown b"
      "threshold (success b) = threshold b" "cooldown (success b) = cooldown b" "last_failure (success b) = last_failure b"
      "threshold (failure now b) = threshold b" "cooldown (failure now b) = cooldown b"
    and success: "state (success b) = CircuitClosed" "fails (success b) = 0"
    and failure: "fails (failure now b) = fails b + 1" "last_failure (failure now b) = now"
    and failure_opens: "threshold b \<le> fails b + 1 \<Longrightarrow> state (failure now b) = CircuitOpen"
    and failure_keeps: "fails b + 1 < threshold b \<Longrightarrow> state b = CircuitClosed \<Longrightarrow> state (failure now b) = CircuitClosed"
begin

text \<open>The breaker agrees with the history of its calls.\<close>

definition represents :: "int \<Rightarrow> duration \<Rightarrow> History \<Rightarrow> 'b \<Rightarrow> bool" where
  "represents limit wait h b \<longleftrightarrow> threshold b = limit \<and> cooldown b = wait \<and> 0 < limit \<and>
     fails b = hFails h \<and> last_failure b = hLast h \<and>
     state b = (if hFails h < limit then CircuitClosed else if hProbing h then CircuitHalfOpen else CircuitOpen)"

lemma allow_represents:
  assumes "represents limit wait h b"
  shows "fst (allow now b) = admits limit wait now h"
    and "represents limit wait (snd (callOn limit wait (CallAllow now) h)) (snd (allow now b))"
proof -
  consider "state b = CircuitClosed" "hFails h < limit"
    | "state b = CircuitHalfOpen" "hProbing h" "limit \<le> hFails h"
    | "state b = CircuitOpen" "\<not> hProbing h" "limit \<le> hFails h"
    using assms by (cases "hFails h < limit"; cases "hProbing h") (auto simp: represents_def)
  then have "fst (allow now b) = admits limit wait now h \<and>
    represents limit wait (snd (callOn limit wait (CallAllow now) h)) (snd (allow now b))"
  proof cases
    case 1
    with assms show ?thesis by (auto simp: allow_closed admits_def represents_def)
  next
    case 2
    with assms show ?thesis by (auto simp: allow_probing admits_def represents_def)
  next
    case 3
    show ?thesis
    proof (cases "wait \<le> now - hLast h")
      case True
      with 3 assms allow_probe [of b now] show ?thesis by (auto simp: admits_def represents_def keeps)
    next
      case False
      with 3 assms allow_early [of b now] show ?thesis by (auto simp: admits_def represents_def)
    qed
  qed
  then show "fst (allow now b) = admits limit wait now h"
    "represents limit wait (snd (callOn limit wait (CallAllow now) h)) (snd (allow now b))" by simp_all
qed

lemma perform_represents:
  assumes "represents limit wait h b"
  shows "fst (perform allow success failure c b) = fst (callOn limit wait c h)"
    and "represents limit wait (snd (callOn limit wait c h)) (snd (perform allow success failure c b))"
proof -
  have "fst (perform allow success failure c b) = fst (callOn limit wait c h) \<and> represents limit wait (snd (callOn limit wait c h)) (snd (perform allow success failure c b))"
  proof (cases c)
    case (CallAllow now)
    then show ?thesis using allow_represents [OF assms, of now] by (simp add: case_prod_unfold)
  next
    case CallSuccess
    with assms show ?thesis by (auto simp: represents_def keeps success)
  next
    case (CallFailure now)
    with assms failure_opens [of b now] failure_keeps [of b now] show ?thesis
      by (auto simp: represents_def keeps failure)
  qed
  then show "fst (perform allow success failure c b) = fst (callOn limit wait c h)"
    "represents limit wait (snd (callOn limit wait c h)) (snd (perform allow success failure c b))" by simp_all
qed

lemma replies_answers: "represents limit wait h b \<Longrightarrow> replies (perform allow success failure) cs b = answers limit wait cs h"
proof (induction cs arbitrary: h b)
  case (Cons c cs)
  with perform_represents [OF Cons.prems, of c] show ?case by (simp add: case_prod_unfold)
qed simp

lemma after_represents:
  "represents limit wait h b \<Longrightarrow> \<exists>h'. represents limit wait h' (afterCalls (perform allow success failure) cs b)"
proof (induction cs arbitrary: h b)
  case (Cons c cs)
  from Cons.IH [OF perform_represents(2) [OF Cons.prems, of c]] show ?case by simp
qed auto

end

interpretation rb: circuit_breaker rbAllow rbRecordSuccess rbRecordFailure rbState rbConsecutiveFails rbLastFailure
    rbThreshold rbCooldown
  by unfold_locales
    (auto simp: rbAllow_def rbRecordSuccess_def rbRecordFailure_def Let_def split: CircuitState.splits)

interpretation pb: circuit_breaker pbAllow pbRecordSuccess pbRecordFailure pbState pbFailures pbLastFailure
    pbMaxFailures pbResetTimeout
  by unfold_locales
    (auto simp: pbAllow_def pbRecordSuccess_def pbRecordFailure_def Let_def split: CircuitState.splits)

lemma new_represents:
  "rb.represents (if t \<le> 0 then 5 else t) (if d \<le> 0 then defaultCooldown else d) noHistory (NewRetryBreaker name t d)"
  "pb.represents (if t \<le> 0 then 5 else t) (if d \<le> 0 then defaultCooldown else d) noHistory (NewProviderBreaker t d)"
  by (simp_all add: rb.represents_def pb.represents_def NewRetryBreaker_def NewProviderBreaker_def noHistory_def)

section \<open>Properties\<close>

text \<open>
  C21: Both circuit breakers implement the abstract one. Whatever calls their users make, in whatever order,
  a request is admitted exactly when fewer failures than the threshold have been recorded since the last
  success, or when the cool-down has passed since the last failure and no other request has been
  admitted since then. In particular the two breakers never disagree.
\<close>

theorem breakers_follow_history:
  "replies rbCall cs (NewRetryBreaker name t d) =
     answers (if t \<le> 0 then 5 else t) (if d \<le> 0 then defaultCooldown else d) cs noHistory \<and>
   replies pbCall cs (NewProviderBreaker t d) = replies rbCall cs (NewRetryBreaker name t d)"
  using rb.replies_answers [OF new_represents(1)] pb.replies_answers [OF new_represents(2)] by simp

lemma answers_probing:
  "list_all (\<lambda>c. \<exists>now. c = CallAllow now) cs \<Longrightarrow> limit \<le> hFails h \<Longrightarrow> hProbing h \<Longrightarrow> True \<notin> set (answers limit wait cs h)"
  by (induction cs arbitrary: h) (auto simp: admits_def)

lemma answers_open:
  "list_all (\<lambda>c. \<exists>now. c = CallAllow now) cs \<Longrightarrow> limit \<le> hFails h \<Longrightarrow> count_list (answers limit wait cs h) True \<le> 1"
proof (induction cs arbitrary: h)
  case (Cons c cs)
  then obtain now where c: "c = CallAllow now" by auto
  let ?h = "snd (callOn limit wait c h)"
  show ?case
  proof (cases "admits limit wait now h")
    case True
    with Cons.prems have "True \<notin> set (answers limit wait cs ?h)" by (intro answers_probing) (auto simp: c)
    with True show ?thesis by (simp add: c)
  next
    case False
    with Cons.prems Cons.IH [of h] show ?thesis by (simp add: c)
  qed
qed simp

lemma allow_calls [simp]: "list_all (\<lambda>c. \<exists>now. c = CallAllow now) (map CallAllow nows)"
  by (simp add: list_all_iff)

lemma count_True_none: "True \<notin> set bs \<Longrightarrow> count_list bs True = 0"
  by (simp add: count_list_0_iff)

text \<open>
  One probe at a time. After any use of a breaker that leaves it open, at most one of the
  following requests is admitted until an outcome is recorded, however many are made and however
  late; and if it is left half-open, none is.
\<close>

theorem single_probe:
  "count_list (replies pbCall (map CallAllow nows) (afterCalls pbCall cs (NewProviderBreaker t d))) True \<le>
     (case pbState (afterCalls pbCall cs (NewProviderBreaker t d)) of
        CircuitClosed \<Rightarrow> length nows | CircuitOpen \<Rightarrow> 1 | CircuitHalfOpen \<Rightarrow> 0)"
proof -
  define b where "b = afterCalls pbCall cs (NewProviderBreaker t d)"
  obtain limit wait h where h: "pb.represents limit wait h b"
    unfolding b_def using pb.after_represents [OF new_represents(2)] by blast
  have r: "replies pbCall (map CallAllow nows) b = answers limit wait (map CallAllow nows) h"
    by (rule pb.replies_answers [OF h])
  have "length (answers limit wait (map CallAllow nows) k) = length nows" for k
    by (induction nows arbitrary: k) auto
  then have "count_list (replies pbCall (map CallAllow nows) b) True \<le> length nows"
    unfolding r by (metis count_le_length)
  moreover have "count_list (replies pbCall (map CallAllow nows) b) True \<le> 1" if "pbState b = CircuitOpen"
    unfolding r using h that by (intro answers_open) (auto simp: pb.represents_def split: if_splits)
  moreover have "count_list (replies pbCall (map CallAllow nows) b) True = 0" if "pbState b = CircuitHalfOpen"
    unfolding r using h that by (intro count_True_none answers_probing) (auto simp: pb.represents_def split: if_splits)
  ultimately show ?thesis unfolding b_def [symmetric] by (auto split: CircuitState.splits)
qed

end
