(* ===== verification/Retry.thy ===== *)
theory Retry
  imports Circuit_Breaker Machine_Integers "HOL-Library.Sublist"
begin

text \<open>
  Retrying (src/internal/retry/retry.go, used for git commands, and src/internal/provider/retry.go, used for
  requests to forges). The retried operation, the clock, random numbers, the cancellation of a
  context, and the other users of a shared circuit breaker are arguments: what happens in an attempt is
  given by a function of its number.
\<close>

section \<open>Back-off\<close>

definition maxBackoff :: int where
  "maxBackoff = 5 * 60 * 10 ^ 9"

definition backoffDelay :: "int64 \<Rightarrow> nat \<Rightarrow> int64" where
  "backoffDelay base attempt =
     (let delay = push_bit (min attempt 62) base
      in if sint delay \<le> 0 \<or> sint delay > maxBackoff then word_of_int maxBackoff else delay)"

text \<open>
  The jitter: \<open>u\<close> is the random 64-bit number; the product is taken exactly and truncated, where the code
  rounds to \<^verbatim>\<open>float64\<close>.
\<close>

definition backoff :: "int64 \<Rightarrow> nat \<Rightarrow> nat \<Rightarrow> int" where
  "backoff base attempt u =
     sint (backoffDelay base attempt) * (4 * (2 ^ 64 - 1) + 2 * int u) div (5 * (2 ^ 64 - 1))"

definition retryableSubstrings :: "string list" where
  "retryableSubstrings = [''Unable to create'', ''.lock'', ''File exists'', ''lock file'', ''could not lock'',
     ''Cannot lock ref'', ''temporarily unavailable'', ''try again'', ''resource temporarily'']"

definition IsRetryable :: "string \<Rightarrow> bool" where
  "IsRetryable msg = list_ex (\<lambda>sub. sublist sub msg) retryableSubstrings"

section \<open>Retrying an operation\<close>

text \<open>
  An attempt: what other users of the breaker do before the attempt and during it, the clock at the check
  and at the record, the error of the operation, if any, and the context's error if it is cancelled while
  the loop waits for the next attempt.
\<close>

record RetryAttempt =
  raBefore :: "BreakerCall list"
  raAllowAt :: time
  raResult :: "string option"
  raDuring :: "BreakerCall list"
  raFailAt :: time
  raCancelled :: "string option"

text \<open>The result: how often the operation ran, the error returned, and the breaker.\<close>

type_synonym RetryResult = "nat \<times> string option \<times> RetryBreaker option"

definition attemptsFailed :: "int \<Rightarrow> string \<Rightarrow> string" where
  "attemptsFailed maxRetries lastErr = ''operation failed after '' @ format_int (maxRetries + 1) @ '' attempts: '' @ lastErr"

fun breakerAllows :: "RetryAttempt \<Rightarrow> RetryBreaker option \<Rightarrow> bool \<times> RetryBreaker option" where
  "breakerAllows at None = (True, None)"
| "breakerAllows at (Some b) = (case rbAllow (raAllowAt at) (afterCalls rbCall (raBefore at) b) of (ok, b') \<Rightarrow> (ok, Some b'))"

fun retryLoop :: "(string \<Rightarrow> bool) \<Rightarrow> (nat \<Rightarrow> RetryAttempt) \<Rightarrow> int \<Rightarrow> nat \<Rightarrow> nat \<Rightarrow> string \<Rightarrow> RetryBreaker option \<Rightarrow> RetryResult" where
  "retryLoop check env maxRetries 0 attempt lastErr cb = (attempt, Some (attemptsFailed maxRetries lastErr), cb)"
| "retryLoop check env maxRetries (Suc n) attempt lastErr cb =
     (let at = env attempt
      in (case breakerAllows at cb of
            (False, cb1) \<Rightarrow> (attempt, Some (circuitOpenError (case cb1 of None \<Rightarrow> [] | Some b \<Rightarrow> rbName b)), cb1)
          | (True, cb1) \<Rightarrow>
              (let cb2 = map_option (afterCalls rbCall (raDuring at)) cb1
               in (case raResult at of
                     None \<Rightarrow> (attempt + 1, None, map_option rbRecordSuccess cb2)
                   | Some err \<Rightarrow>
                       (let cb3 = map_option (rbRecordFailure (raFailAt at)) cb2
                        in if int attempt = maxRetries then (attempt + 1, Some (attemptsFailed maxRetries err), cb3)
                           else if \<not> check err then (attempt + 1, Some err, cb3)
                           else (case raCancelled at of
                                   Some c \<Rightarrow> (attempt + 1, Some (''retry cancelled: '' @ c), cb3)
                                 | None \<Rightarrow> retryLoop check env maxRetries n (attempt + 1) err cb3))))))"

definition RetryableOp :: "(string \<Rightarrow> bool) \<Rightarrow> (nat \<Rightarrow> RetryAttempt) \<Rightarrow> int \<Rightarrow> RetryBreaker option \<Rightarrow> RetryResult" where
  "RetryableOp check env maxRetries cb =
     retryLoop check env maxRetries (nat (maxRetries + 1)) 0 ''%!w(<nil>)'' cb"

section \<open>Retrying a request to a forge\<close>

record RetryConfig =
  rcMaxRetries :: int
  rcBaseDelay :: duration
  rcMaxDelay :: duration

definition DefaultRetryConfig :: RetryConfig where
  "DefaultRetryConfig = \<lparr>rcMaxRetries = 3, rcBaseDelay = 100 * 10 ^ 6, rcMaxDelay = 5 * 10 ^ 9\<rparr>"

datatype HttpResult = NetError string | HttpStatus int

text \<open>
  An attempt: the error of making a new body for the request, the result of sending it, the clock when an
  outcome is recorded, and the context's error if it is cancelled during the wait.
\<close>

record HttpAttempt =
  haBodyError :: "string option"
  haResult :: HttpResult
  haRecordAt :: time
  haCancelled :: "string option"

text \<open>
  The outcome: the number of requests sent, the response returned (its attempt and status) or the error, the
  attempts whose response bodies have been closed, the waits before jitter, and the breaker.
\<close>

record HttpOutcome =
  hoSent :: nat
  hoResponse :: "(nat \<times> int) option"
  hoError :: "string option"
  hoClosed :: "nat list"
  hoDelays :: "duration list"
  hoBreaker :: "ProviderBreaker option"

definition badStatus :: "int \<Rightarrow> bool" where
  "badStatus s \<longleftrightarrow> s \<ge> 500 \<or> s = 429"

fun closeBody :: "(nat \<times> int) option \<Rightarrow> nat list \<Rightarrow> nat list" where
  "closeBody None closed = closed"
| "closeBody (Some (k, _)) closed = closed @ [k]"

definition nextDelay :: "RetryConfig \<Rightarrow> duration \<Rightarrow> duration" where
  "nextDelay cfg delay = (if delay * 2 > rcMaxDelay cfg then rcMaxDelay cfg else delay * 2)"

fun doLoop :: "(nat \<Rightarrow> HttpAttempt) \<Rightarrow> RetryConfig \<Rightarrow> nat \<Rightarrow> nat \<Rightarrow> duration \<Rightarrow> (nat \<times> int) option \<Rightarrow> string option \<Rightarrow> nat list \<Rightarrow>
    duration list \<Rightarrow> ProviderBreaker option \<Rightarrow> HttpOutcome" where
  "doLoop env cfg 0 attempt delay lastResp lastErr closed delays cb =
     \<lparr>hoSent = attempt, hoResponse = (if lastErr = None then lastResp else None), hoError = lastErr, hoClosed = closed,
       hoDelays = delays, hoBreaker = map_option (pbRecordFailure (haRecordAt (env attempt))) cb\<rparr>"
| "doLoop env cfg (Suc n) attempt delay lastResp lastErr closed delays cb =
     (let at = env attempt
      in (case haBodyError at of
           Some err \<Rightarrow> \<lparr>hoSent = attempt, hoResponse = None, hoError = Some err, hoClosed = closeBody lastResp closed,
                        hoDelays = delays, hoBreaker = cb\<rparr>
         | None \<Rightarrow>
             (let closed1 = closeBody lastResp closed;
                 (resp, err) = (case haResult at of NetError e \<Rightarrow> (None, Some e) | HttpStatus s \<Rightarrow> (Some (attempt, s), None))
             in if (case haResult at of NetError _ \<Rightarrow> False | HttpStatus s \<Rightarrow> \<not> badStatus s)
                then \<lparr>hoSent = attempt + 1, hoResponse = resp, hoError = None, hoClosed = closed1,
                       hoDelays = delays, hoBreaker = map_option pbRecordSuccess cb\<rparr>
                else if int attempt < rcMaxRetries cfg
                then (case haCancelled at of
                        Some c \<Rightarrow> \<lparr>hoSent = attempt + 1, hoResponse = None, hoError = Some c, hoClosed = closeBody resp closed1,
                                   hoDelays = delays @ [delay], hoBreaker = cb\<rparr>
                      | None \<Rightarrow> doLoop env cfg n (attempt + 1) (nextDelay cfg delay) resp err closed1 (delays @ [delay]) cb)
                else doLoop env cfg n (attempt + 1) delay resp err closed1 delays cb)))"

definition sendOnce :: "HttpAttempt \<Rightarrow> ProviderBreaker option \<Rightarrow> HttpOutcome" where
  "sendOnce at cb =
     (case haResult at of
        NetError e \<Rightarrow> \<lparr>hoSent = 1, hoResponse = None, hoError = Some e, hoClosed = [], hoDelays = [],
          hoBreaker = map_option (pbRecordFailure (haRecordAt at)) cb\<rparr>
      | HttpStatus s \<Rightarrow> \<lparr>hoSent = 1, hoResponse = Some (0, s), hoError = None, hoClosed = [], hoDelays = [],
          hoBreaker = map_option (if badStatus s then pbRecordFailure (haRecordAt at) else pbRecordSuccess) cb\<rparr>)"

definition errProviderCircuitOpen :: string where
  "errProviderCircuitOpen = ''circuit breaker is open: provider API unavailable''"

definition DoWithRetry :: "time \<Rightarrow> (nat \<Rightarrow> HttpAttempt) \<Rightarrow> RetryConfig \<Rightarrow> ProviderBreaker option \<Rightarrow> HttpOutcome" where
  "DoWithRetry now env cfg cb =
     (case (case cb of None \<Rightarrow> (True, None) | Some b \<Rightarrow> (case pbAllow now b of (ok, b') \<Rightarrow> (ok, Some b'))) of
        (False, cb1) \<Rightarrow> \<lparr>hoSent = 0, hoResponse = None, hoError = Some errProviderCircuitOpen, hoClosed = [], hoDelays = [], hoBreaker = cb1\<rparr>
      | (True, cb1) \<Rightarrow>
          if rcMaxRetries cfg = 0 then sendOnce (env 0) cb1
          else doLoop env cfg (nat (rcMaxRetries cfg + 1)) 0 (rcBaseDelay cfg) None None [] [] cb1)"

section \<open>The back-off is bounded\<close>

lemma sint_maxBackoff: "sint (word_of_int maxBackoff :: int64) = maxBackoff"
  by (rule sint_exact) (simp_all add: maxBackoff_def)

lemma backoffDelay_bounds: "0 < sint (backoffDelay base attempt) \<and> sint (backoffDelay base attempt) \<le> maxBackoff"
  by (simp add: backoffDelay_def Let_def sint_maxBackoff maxBackoff_def)

lemma backoffDelay_exact:
  assumes "0 < sint base" and "sint base * 2 ^ attempt < 2 ^ 63"
  shows "sint (backoffDelay base attempt) = min (sint base * 2 ^ attempt) maxBackoff"
proof -
  have "1 * 2 ^ attempt \<le> sint base * 2 ^ attempt" using assms(1) by (intro mult_right_mono) simp_all
  with assms(2) have "(2 :: int) ^ attempt < 2 ^ 63" by linarith
  then have "attempt < 63" by (rule power_less_imp_less_exp [rotated]) simp
  then have s: "sint (push_bit (min attempt 62) base) = sint base * 2 ^ attempt"
    using assms sint_shift_exact [of base attempt] by (simp add: min_absorb1)
  have p: "0 < sint base * 2 ^ attempt" using assms(1) by simp
  show ?thesis unfolding backoffDelay_def Let_def s using p by (simp add: sint_maxBackoff s)
qed

lemma div_between:
  fixes d m u :: int
  assumes "0 \<le> d" and "0 < m" and "0 \<le> u" and "u \<le> m"
  shows "4 * d div 5 \<le> d * (4 * m + 2 * u) div (5 * m)" and "d * (4 * m + 2 * u) div (5 * m) \<le> 6 * d div 5"
proof -
  have a: "4 * d div 5 = (m * (4 * d)) div (5 * m)" "6 * d div 5 = (m * (6 * d)) div (5 * m)"
    using assms(2) by (simp_all add: mult.commute [of 5 m])
  have "m * (4 * d) \<le> d * (4 * m + 2 * u)" using assms by (simp add: algebra_simps)
  then show "4 * d div 5 \<le> d * (4 * m + 2 * u) div (5 * m)"
    unfolding a by (rule zdiv_mono1) (use assms(2) in simp)
  have "d * (4 * m + 2 * u) \<le> m * (6 * d)"
    using assms mult_left_mono [OF assms(4,1)] by (simp add: algebra_simps)
  then show "d * (4 * m + 2 * u) div (5 * m) \<le> 6 * d div 5"
    unfolding a by (rule zdiv_mono1) (use assms(2) in simp)
qed

text \<open>
  Back-off. As long as the doubled delay is a 64-bit number, the wait before a retry is the base delay
  doubled once per attempt and capped at five minutes, within a jitter of one fifth; and it is
  between zero and six minutes for every base delay and every attempt.
\<close>

theorem backoff_bounded:
  assumes "u < 2 ^ 64"
  shows "0 \<le> backoff base attempt u \<and> backoff base attempt u \<le> 6 * 60 * 10 ^ 9 \<and>
    (0 < sint base \<and> sint base * 2 ^ attempt < 2 ^ 63 \<longrightarrow>
       4 * min (sint base * 2 ^ attempt) maxBackoff div 5 \<le> backoff base attempt u \<and>
       backoff base attempt u \<le> 6 * min (sint base * 2 ^ attempt) maxBackoff div 5)"
proof -
  let ?d = "sint (backoffDelay base attempt)"
  have d: "0 < ?d" "?d \<le> maxBackoff" using backoffDelay_bounds by blast+
  have u: "int u \<le> 2 ^ 64 - 1" using assms by simp
  have j: "4 * ?d div 5 \<le> backoff base attempt u" "backoff base attempt u \<le> 6 * ?d div 5"
    unfolding backoff_def using div_between [of ?d "2 ^ 64 - 1" "int u"] d u by simp_all
  have "6 * ?d div 5 \<le> 6 * maxBackoff div 5" using d by (intro zdiv_mono1) simp_all
  then have "backoff base attempt u \<le> 6 * 60 * 10 ^ 9" using j(2) by (simp add: maxBackoff_def)
  moreover have "0 \<le> 4 * ?d div 5" using d by simp
  then have "0 \<le> backoff base attempt u" using j(1) by linarith
  ultimately show ?thesis using j backoffDelay_exact by auto
qed

theorem backoff_bounded_witness:
  "0 \<le> backoff 100 3 7 \<and> backoff 100 3 7 \<le> 6 * 60 * 10 ^ 9 \<and> 640 \<le> backoff 100 3 7 \<and> backoff 100 3 7 \<le> 960"
  using backoff_bounded [of 7 100 3] by (simp add: maxBackoff_def)

text \<open>
  Beyond that the shift wraps around, and the delay can fall back: with a base delay of a little more
  than 17 seconds the thirty-first wait is about one second.
\<close>

theorem backoff_wraps: "sint (backoffDelay (2 ^ 34 + 1) 29) = maxBackoff \<and> sint (backoffDelay (2 ^ 34 + 1) 30) = 2 ^ 30"
  by (simp add: backoffDelay_def maxBackoff_def)

section \<open>Retrying an operation\<close>

text \<open>The attempt after which the loop does not go on, and what it then returns.\<close>

definition decisive :: "(string \<Rightarrow> bool) \<Rightarrow> (nat \<Rightarrow> RetryAttempt) \<Rightarrow> nat \<Rightarrow> nat \<Rightarrow> bool" where
  "decisive check env maxRetries k \<longleftrightarrow> k = maxRetries \<or>
     (case raResult (env k) of None \<Rightarrow> True | Some err \<Rightarrow> \<not> check err \<or> raCancelled (env k) \<noteq> None)"

definition verdict :: "(string \<Rightarrow> bool) \<Rightarrow> (nat \<Rightarrow> RetryAttempt) \<Rightarrow> nat \<Rightarrow> nat \<Rightarrow> string option" where
  "verdict check env maxRetries k =
     (case raResult (env k) of
        None \<Rightarrow> None
      | Some err \<Rightarrow>
          if k = maxRetries then Some (attemptsFailed (int maxRetries) err)
          else if \<not> check err then Some err
          else map_option (\<lambda>c. ''retry cancelled: '' @ c) (raCancelled (env k)))"

lemma retryLoop_plain:
  assumes "attempt \<le> maxRetries"
  shows "\<exists>k. List.find (decisive check env maxRetries) [attempt ..< Suc maxRetries] = Some k \<and>
    retryLoop check env (int maxRetries) (Suc maxRetries - attempt) attempt lastErr None = (k + 1, verdict check env maxRetries k, None)"
  using assms
proof (induction "maxRetries - attempt" arbitrary: attempt lastErr)
  case 0
  then show ?case
    by (cases "raResult (env attempt)") (auto simp: upt_conv_Cons decisive_def verdict_def)
next
  case (Suc n)
  then have a: "attempt < maxRetries" "Suc maxRetries - attempt = Suc (Suc maxRetries - Suc attempt)" by auto
  have u: "[attempt ..< Suc maxRetries] = attempt # [Suc attempt ..< Suc maxRetries]" using a by (simp add: upt_conv_Cons)
  show ?case
  proof (cases "decisive check env maxRetries attempt")
    case True
    then show ?thesis
      unfolding u a(2) using a(1) by (cases "raResult (env attempt)") (auto simp: decisive_def verdict_def)
  next
    case False
    then obtain err where e: "raResult (env attempt) = Some err" "check err" "raCancelled (env attempt) = None"
      by (auto simp: decisive_def split: option.splits)
    have "n = maxRetries - Suc attempt" "Suc attempt \<le> maxRetries" using Suc a by auto
    from Suc.hyps(1) [OF this, of err] show ?thesis unfolding u a(2) using False e a(1) by simp
  qed
qed

text \<open>
  C38: Retrying. Without a circuit breaker an operation is attempted until the first attempt that succeeds,
  fails with an error that is not retryable, is followed by a cancellation, or is the last one
  allowed; that attempt alone decides what is returned.
\<close>

theorem retry_until_decisive:
  "\<exists>k. List.find (decisive check env maxRetries) [0 ..< Suc maxRetries] = Some k \<and>
     RetryableOp check env (int maxRetries) None = (k + 1, verdict check env maxRetries k, None)"
proof -
  have "nat (int maxRetries + 1) = Suc maxRetries" by simp
  then show ?thesis
    unfolding RetryableOp_def using retryLoop_plain [of 0 maxRetries check env "''%!w(<nil>)''"] by simp
qed

lemma retryLoop_breaker:
  assumes "list_all (\<lambda>k. raBefore (env k) = [] \<and> raDuring (env k) = []) [attempt ..< attempt + n]"
    and "rbState b \<noteq> CircuitHalfOpen"
  shows "\<exists>b'. snd (snd (retryLoop check env maxRetries n attempt lastErr (Some b))) = Some b' \<and> rbState b' \<noteq> CircuitHalfOpen"
  using assms
proof (induction n arbitrary: attempt lastErr b)
  case (Suc n)
  have q: "raBefore (env attempt) = []" "raDuring (env attempt) = []"
      "list_all (\<lambda>k. raBefore (env k) = [] \<and> raDuring (env k) = []) [Suc attempt ..< Suc attempt + n]"
    using Suc.prems(1) by (auto simp: list_all_iff)
  obtain ok b1 where b1: "rbAllow (raAllowAt (env attempt)) b = (ok, b1)" by fastforce
  have f: "rbState (rbRecordFailure t b1) \<noteq> CircuitHalfOpen" for t by (auto simp: rbRecordFailure_def Let_def)
  have "ok \<or> b1 = b" using b1 Suc.prems(2) by (auto simp: rbAllow_def split: CircuitState.splits if_splits)
  with Suc.prems(2) Suc.IH [OF q(3) f] q(1,2) b1 f show ?case
    by (cases ok) (auto simp: rbRecordSuccess_def Let_def split: option.splits)
qed auto

text \<open>
  No probe is lost. A retried operation that shares its breaker with nobody records the outcome of
  every attempt the breaker admitted, so it never leaves the breaker half-open.
\<close>

theorem retry_keeps_breaker_usable:
  assumes "list_all (\<lambda>k. raBefore (env k) = [] \<and> raDuring (env k) = []) [0 ..< nat (maxRetries + 1)]"
    and "rbState b \<noteq> CircuitHalfOpen"
  shows "\<exists>b'. snd (snd (RetryableOp check env maxRetries (Some b))) = Some b' \<and> rbState b' \<noteq> CircuitHalfOpen"
  unfolding RetryableOp_def by (rule retryLoop_breaker) (use assms in simp_all)

theorem retry_keeps_breaker_usable_witness:
  "\<exists>b'. snd (snd (RetryableOp IsRetryable
      (\<lambda>_. \<lparr>raBefore = [], raAllowAt = 5, raResult = Some ''x.lock'', raDuring = [], raFailAt = 6, raCancelled = None\<rparr>) 2
      (Some (NewRetryBreaker ''git'' 2 10)))) = Some b' \<and> rbState b' \<noteq> CircuitHalfOpen"
  by (rule retry_keeps_breaker_usable) (simp_all add: NewRetryBreaker_def list_all_iff)

section \<open>Retrying a request\<close>

text \<open>The attempts whose response the caller has received.\<close>

definition responded :: "(nat \<Rightarrow> HttpAttempt) \<Rightarrow> nat \<Rightarrow> nat list" where
  "responded env n = filter (\<lambda>k. case haResult (env k) of NetError _ \<Rightarrow> False | HttpStatus _ \<Rightarrow> True) [0 ..< n]"

fun bodyOf :: "(nat \<times> int) option \<Rightarrow> nat list" where
  "bodyOf None = []"
| "bodyOf (Some (k, _)) = [k]"

lemma closeBody_bodyOf: "closeBody r closed = closed @ bodyOf r"
  by (cases r) auto

lemma doLoop_bodies:
  assumes "closed @ bodyOf lastResp = responded env attempt" and "lastErr = None \<or> lastResp = None"
  shows "hoClosed (doLoop env cfg n attempt delay lastResp lastErr closed delays cb) @
      bodyOf (hoResponse (doLoop env cfg n attempt delay lastResp lastErr closed delays cb)) =
    responded env (hoSent (doLoop env cfg n attempt delay lastResp lastErr closed delays cb))"
  using assms
proof (induction n arbitrary: attempt delay lastResp lastErr closed delays)
  case 0
  then show ?case by auto
next
  case (Suc n)
  have c: "closeBody lastResp closed = responded env attempt" using Suc.prems(1) by (simp add: closeBody_bodyOf)
  show ?case
  proof (cases "haBodyError (env attempt)")
    case (Some err)
    then show ?thesis using c by simp
  next
    case None
    show ?thesis
    proof (cases "haResult (env attempt)")
      case (NetError e)
      then have r: "responded env (Suc attempt) = responded env attempt" by (simp add: responded_def)
      with None NetError c Suc.IH [of "responded env attempt" None "Suc attempt" "Some e"] show ?thesis
        by (cases "haCancelled (env attempt)") (simp_all add: Let_def)
    next
      case (HttpStatus st)
      then have r: "responded env (Suc attempt) = responded env attempt @ [attempt]" by (simp add: responded_def)
      with None HttpStatus c Suc.IH [of "responded env attempt" "Some (attempt, st)" "Suc attempt" None] show ?thesis
        by (cases "haCancelled (env attempt)") (simp_all add: Let_def)
    qed
  qed
qed

text \<open>
  C28: No response leaks. Of all the responses a retried request has received, in the order of the
  attempts, the body of each one is closed exactly once, except for the one that is returned, which is
  the last and is left open.
\<close>

theorem responses_closed:
  "hoClosed (DoWithRetry now env cfg cb) @ bodyOf (hoResponse (DoWithRetry now env cfg cb)) =
     responded env (hoSent (DoWithRetry now env cfg cb))"
proof -
  have l: "hoClosed (doLoop env cfg n 0 d None None [] [] c) @ bodyOf (hoResponse (doLoop env cfg n 0 d None None [] [] c)) =
      responded env (hoSent (doLoop env cfg n 0 d None None [] [] c))" for n d c
    by (rule doLoop_bodies) (simp_all add: responded_def)
  have s: "hoClosed (sendOnce (env 0) c) @ bodyOf (hoResponse (sendOnce (env 0) c)) = responded env (hoSent (sendOnce (env 0) c))" for c
    by (cases "haResult (env 0)") (simp_all add: sendOnce_def responded_def)
  show ?thesis
    unfolding DoWithRetry_def
    by (cases cb) (auto simp: l s responded_def split: prod.splits bool.splits simp del: doLoop.simps)
qed

text \<open>
  A probe can be lost. A request that is admitted as the probe of an open breaker and whose context is
  cancelled while it waits for its next attempt records no outcome: the breaker stays half-open,
  and no later request is admitted at any time.
\<close>

theorem cancelled_probe_blocks_forever:
  "\<exists>b env. pbState b = CircuitOpen \<and> b = afterCalls pbCall (replicate 5 (CallFailure 1)) (NewProviderBreaker 5 10) \<and>
     (\<exists>b'. hoBreaker (DoWithRetry 20 env DefaultRetryConfig (Some b)) = Some b' \<and>
        (\<forall>nows. True \<notin> set (replies pbCall (map CallAllow nows) b')))"
proof -
  define b where "b = afterCalls pbCall (replicate 5 (CallFailure 1)) (NewProviderBreaker 5 10)"
  define env where "env = (\<lambda>k :: nat. \<lparr>haBodyError = None, haResult = HttpStatus 503, haRecordAt = 21, haCancelled = Some ''context canceled''\<rparr>)"
  define b' where "b' = b\<lparr>pbState := CircuitHalfOpen\<rparr>"
  have b: "b = \<lparr>pbState = CircuitOpen, pbFailures = 5, pbMaxFailures = 5, pbLastFailure = 1, pbResetTimeout = 10\<rparr>"
    by (simp add: b_def NewProviderBreaker_def pbRecordFailure_def numeral_eq_Suc)
  have h: "hoBreaker (DoWithRetry 20 env DefaultRetryConfig (Some b)) = Some b'"
    by (simp add: DoWithRetry_def b b'_def pbAllow_def env_def DefaultRetryConfig_def badStatus_def numeral_eq_Suc)
  have "True \<notin> set (replies pbCall (map CallAllow nows) b')" for nows
    by (induction nows) (simp_all add: b'_def pbAllow_def)
  with h b have "pbState b = CircuitOpen \<and> b = b \<and> (\<exists>b'. hoBreaker (DoWithRetry 20 env DefaultRetryConfig (Some b)) = Some b' \<and>
        (\<forall>nows. True \<notin> set (replies pbCall (map CallAllow nows) b')))" by simp
  then show ?thesis unfolding b_def by blast
qed

end
