(* ===== verification/Activity_Log.thy ===== *)
theory Activity_Log
  imports Go_Text
begin

text \<open>
  The activity log (src/internal/activitylog): entries go through a bounded channel to one writer, which appends
  them as JSON lines to one file per day, chains every line to the hash of the line before it, and removes the
  oldest files; the verifier checks the chain.

  The directory is a map from names to files and subdirectories. What the file system refuses is an argument
  (\<open>FileFaults\<close>). JSON and SHA-256 are arguments: \<open>marshal\<close>, \<open>unmarshal\<close> and \<open>sha256\<close>, with the laws
  \<open>codec_laws\<close>; \<open>dateStr\<close> renders the number of a day as the layout \<^verbatim>\<open>2006-01-02\<close> does.
\<close>

section \<open>Entries and files\<close>

text \<open>A \<^verbatim>\<open>time.Time\<close> is an instant and the offset of its zone, which formatting uses.\<close>

record Entry =
  enTimestamp :: time
  enZone :: duration
  enMethod :: string
  enCorrelationID :: string
  enDurationMs :: int
  enError :: string
  enParamsSize :: int
  enUserID :: string
  enTaskID :: string
  enAgentModel :: string
  enFilesAffected :: "string list"
  enTaskTraceID :: string
  enParentEntryID :: string
  enPrevHash :: string

type_synonym encoder = "Entry \<Rightarrow> string result"
type_synonym decoder = "string \<Rightarrow> Entry result"

datatype LogNode = File string | SubDir

type_synonym LogDir = "(string, LogNode) gomap"

definition filePrefix :: string where "filePrefix = ''activity-''"
definition fileExt :: string where "fileExt = ''.jsonl''"
definition defaultMaxFiles :: nat where "defaultMaxFiles = 30"
definition channelCapacity :: nat where "channelCapacity = 1000"

definition nsPerDay :: int where "nsPerDay = 86400000000000"

text \<open>\<^verbatim>\<open>Timestamp.Format(dateFormat)\<close>: the day in the zone of the timestamp.\<close>

definition entryDay :: "(int \<Rightarrow> string) \<Rightarrow> Entry \<Rightarrow> string" where
  "entryDay dateStr e = dateStr ((enTimestamp e + enZone e) div nsPerDay)"

definition logFileName :: "string \<Rightarrow> string" where
  "logFileName day = filePrefix @ day @ fileExt"

definition isLogFile :: "string \<Rightarrow> bool" where
  "isLogFile name \<longleftrightarrow> prefix filePrefix name \<and> suffix fileExt name"

definition logFilesSorted :: "LogDir \<Rightarrow> string list" where
  "logFilesSorted dir = sort (map fst (filter (\<lambda>(name, node). node \<noteq> SubDir \<and> isLogFile name) dir))"

definition dayFromFileName :: "string \<Rightarrow> string" where
  "dayFromFileName name = trimSuffix fileExt (trimPrefix filePrefix name)"

section \<open>Lines\<close>

text \<open>
  \<^verbatim>\<open>bufio.Scanner\<close> with its default split function: the lines without their ends, and whether it stopped at a
  line that does not fit its buffer of 64 kB.
\<close>

definition MaxScanTokenSize :: nat where "MaxScanTokenSize = 65536"

definition dropCR :: "string \<Rightarrow> string" where
  "dropCR line = (if line \<noteq> [] \<and> last line = CHR 0x0D then butlast line else line)"

function scanLines :: "string \<Rightarrow> string list \<times> bool" where
  "scanLines s =
     (if s = [] then ([], False)
      else let line = takeWhile (\<lambda>c. c \<noteq> CHR 0x0A) s; rest = drop (Suc (length line)) s in
        if MaxScanTokenSize \<le> length line then ([], True)
        else case scanLines rest of (ls, tooLong) \<Rightarrow> (dropCR line # ls, tooLong))"
  by pat_completeness auto
termination by (relation "measure length") auto

declare scanLines.simps [simp del]

section \<open>Hashes\<close>

definition hexDigit :: "nat \<Rightarrow> char" where
  "hexDigit n = ''0123456789abcdef'' ! (n mod 16)"

definition hexEncode :: "string \<Rightarrow> string" where
  "hexEncode s = concat (map (\<lambda>c. [hexDigit (of_char c div 16), hexDigit (of_char c mod 16)]) s)"

definition lineHash :: "(string \<Rightarrow> string) \<Rightarrow> string \<Rightarrow> string" where
  "lineHash sha256 line = hexEncode (sha256 line)"

definition lastHashFromFile :: "(string \<Rightarrow> string) \<Rightarrow> LogNode option \<Rightarrow> string" where
  "lastHashFromFile sha256 f =
     (case f of
        Some (File content) \<Rightarrow>
          (case filter (\<lambda>l. l \<noteq> []) (fst (scanLines content)) of
             [] \<Rightarrow> []
           | ls \<Rightarrow> lineHash sha256 (last ls))
      | _ \<Rightarrow> [])"

section \<open>The writer\<close>

text \<open>An open file stays open after its name is removed.\<close>

datatype Handle = Linked string | Unlinked

record Writer =
  wrDir :: LogDir
  wrDay :: string
  wrFile :: "Handle option"
  wrPrev :: string
  wrForwarded :: "Entry list"

text \<open>
  Which calls fail: opening for append, opening for the last hash, listing the directory, removing a file; a
  write may fail after a number of bytes.
\<close>

record FileFaults =
  ffOpen :: bool
  ffSeed :: bool
  ffReadDir :: bool
  ffRemove :: "string \<Rightarrow> bool"
  ffWrite :: "nat option"

definition openFileForDay :: "(string \<Rightarrow> string) \<Rightarrow> FileFaults \<Rightarrow> string \<Rightarrow> Writer \<Rightarrow> Writer" where
  "openFileForDay sha256 ff day w =
     (let name = logFileName day in
      if ffOpen ff \<or> map_of (wrDir w) name = Some SubDir then w\<lparr>wrFile := None\<rparr>
      else let dir = (if map_of (wrDir w) name = None then AList.update name (File []) (wrDir w) else wrDir w) in
        w\<lparr>wrDir := dir, wrFile := Some (Linked name), wrDay := day,
          wrPrev := (if ffSeed ff then [] else lastHashFromFile sha256 (map_of dir name))\<rparr>)"

definition cleanup :: "FileFaults \<Rightarrow> nat \<Rightarrow> Writer \<Rightarrow> Writer" where
  "cleanup ff maxFiles w =
     (if ffReadDir ff then w
      else let logFiles = logFilesSorted (wrDir w);
               toRemove = filter (\<lambda>n. \<not> ffRemove ff n) (take (length logFiles - maxFiles) logFiles)
        in w\<lparr>wrDir := filter (\<lambda>(n, _). n \<notin> set toRemove) (wrDir w),
             wrFile := (case wrFile w of
                          Some (Linked n) \<Rightarrow> Some (if n \<in> set toRemove then Unlinked else Linked n)
                        | h \<Rightarrow> h)\<rparr>)"

fun appendFile :: "Handle \<Rightarrow> string \<Rightarrow> LogDir \<Rightarrow> LogDir" where
  "appendFile (Linked name) bytes dir =
     (case map_of dir name of
        Some (File content) \<Rightarrow> AList.update name (File (content @ bytes)) dir
      | _ \<Rightarrow> dir)"
| "appendFile Unlinked bytes dir = dir"

definition enterDay :: "(string \<Rightarrow> string) \<Rightarrow> nat \<Rightarrow> FileFaults \<Rightarrow> string \<Rightarrow> Writer \<Rightarrow> Writer" where
  "enterDay sha256 maxFiles ff day w =
     (if day \<noteq> wrDay w then cleanup ff maxFiles (openFileForDay sha256 ff day w) else w)"

definition writeEntry :: "encoder \<Rightarrow> (string \<Rightarrow> string) \<Rightarrow> (int \<Rightarrow> string) \<Rightarrow> nat \<Rightarrow> bool \<Rightarrow> FileFaults \<Rightarrow> Entry \<Rightarrow> Writer \<Rightarrow> Writer" where
  "writeEntry marshal sha256 dateStr maxFiles forwarder ff e w0 =
     (let w = enterDay sha256 maxFiles ff (entryDay dateStr e) w0 in
      case wrFile w of
        None \<Rightarrow> w
      | Some h \<Rightarrow>
          (let e' = e\<lparr>enPrevHash := wrPrev w\<rparr> in
           case marshal e' of
             Inl _ \<Rightarrow> w
           | Inr bytes \<Rightarrow>
               (let line = bytes @ [CHR 0x0A];
                    written = (case ffWrite ff of None \<Rightarrow> line | Some n \<Rightarrow> take n line)
                in w\<lparr>wrPrev := lineHash sha256 bytes, wrDir := appendFile h written (wrDir w),
                     wrForwarded := wrForwarded w @ (if forwarder then [e'] else [])\<rparr>)))"

definition newWriter :: "LogDir \<Rightarrow> Writer" where
  "newWriter dir = \<lparr>wrDir = dir, wrDay = [], wrFile = None, wrPrev = [], wrForwarded = []\<rparr>"

section \<open>The log\<close>

record ActivityLog =
  alMaxFiles :: nat
  alEntries :: "Entry list"
  alClosed :: bool
  alForwarder :: bool
  alWriter :: Writer

definition NewLog :: "int \<Rightarrow> LogDir \<Rightarrow> ActivityLog" where
  "NewLog maxFiles dir =
     \<lparr>alMaxFiles = (if maxFiles \<le> 0 then defaultMaxFiles else nat maxFiles), alEntries = [], alClosed = False,
      alForwarder = False, alWriter = newWriter dir\<rparr>"

definition SetForwarder :: "ActivityLog \<Rightarrow> ActivityLog" where
  "SetForwarder l = l\<lparr>alForwarder := True\<rparr>"

text \<open>A send on a closed channel panics; a full channel drops the entry.\<close>

definition Record :: "Entry \<Rightarrow> ActivityLog \<Rightarrow> ActivityLog result" where
  "Record e l =
     (if alClosed l then Inl ''panic: send on closed channel''
      else if length (alEntries l) < channelCapacity then Inr (l\<lparr>alEntries := alEntries l @ [e]\<rparr>)
      else Inr l)"

text \<open>One round of the loop of \<^verbatim>\<open>Start\<close>, and the drain when it ends.\<close>

definition receiveEntry :: "encoder \<Rightarrow> (string \<Rightarrow> string) \<Rightarrow> (int \<Rightarrow> string) \<Rightarrow> FileFaults \<Rightarrow> ActivityLog \<Rightarrow> ActivityLog" where
  "receiveEntry marshal sha256 dateStr ff l =
     (case alEntries l of
        [] \<Rightarrow> l
      | e # es \<Rightarrow> l\<lparr>alEntries := es,
            alWriter := writeEntry marshal sha256 dateStr (alMaxFiles l) (alForwarder l) ff e (alWriter l)\<rparr>)"

definition drainEntries :: "encoder \<Rightarrow> (string \<Rightarrow> string) \<Rightarrow> (int \<Rightarrow> string) \<Rightarrow> FileFaults \<Rightarrow> ActivityLog \<Rightarrow> ActivityLog" where
  "drainEntries marshal sha256 dateStr ff l =
     l\<lparr>alEntries := [],
       alWriter := (fold (writeEntry marshal sha256 dateStr (alMaxFiles l) (alForwarder l) ff) (alEntries l) (alWriter l))
         \<lparr>wrFile := None\<rparr>\<rparr>"

definition CloseLog :: "ActivityLog \<Rightarrow> ActivityLog" where
  "CloseLog l = l\<lparr>alClosed := True\<rparr>"

section \<open>The verifier\<close>

datatype ChainError =
    OpenFailed string | InvalidJSON nat string | ChainBroken nat string string | ScanFailed string

record ChainResult =
  crValid :: bool
  crEntriesRead :: nat
  crErrorLine :: nat
  crErrorMsg :: "ChainError option"

fun verifyLines :: "decoder \<Rightarrow> (string \<Rightarrow> string) \<Rightarrow> string list \<Rightarrow> nat \<Rightarrow> string \<Rightarrow> nat \<times> string \<times> ChainError option" where
  "verifyLines unmarshal sha256 [] n prev = (n, prev, None)"
| "verifyLines unmarshal sha256 (l # ls) n prev =
     (if l = [] then verifyLines unmarshal sha256 ls (n + 1) prev
      else case unmarshal l of
        Inl err \<Rightarrow> (n + 1, [], Some (InvalidJSON (n + 1) err))
      | Inr e \<Rightarrow>
          if enPrevHash e \<noteq> prev then (n + 1, [], Some (ChainBroken (n + 1) prev (enPrevHash e)))
          else verifyLines unmarshal sha256 ls (n + 1) (lineHash sha256 l))"

definition verifyFile :: "decoder \<Rightarrow> (string \<Rightarrow> string) \<Rightarrow> LogDir \<Rightarrow> string \<Rightarrow> string \<Rightarrow> nat \<Rightarrow> nat \<times> string \<times> ChainError option" where
  "verifyFile unmarshal sha256 dir name prev start =
     (case map_of dir name of
        Some (File content) \<Rightarrow>
          (case scanLines content of (ls, tooLong) \<Rightarrow>
             (case verifyLines unmarshal sha256 ls start prev of (n, h, err) \<Rightarrow>
                if err = None \<and> tooLong then (n, [], Some (ScanFailed name)) else (n, h, err)))
      | _ \<Rightarrow> (start, prev, Some (OpenFailed name)))"

fun verifyFiles :: "decoder \<Rightarrow> (string \<Rightarrow> string) \<Rightarrow> LogDir \<Rightarrow> string list \<Rightarrow> string \<Rightarrow> nat \<Rightarrow> ChainResult" where
  "verifyFiles unmarshal sha256 dir [] prev n =
     \<lparr>crValid = True, crEntriesRead = n, crErrorLine = 0, crErrorMsg = None\<rparr>"
| "verifyFiles unmarshal sha256 dir (f # fs) prev n =
     (case verifyFile unmarshal sha256 dir f prev n of
        (n', _, Some err) \<Rightarrow> \<lparr>crValid = False, crEntriesRead = n', crErrorLine = n', crErrorMsg = Some err\<rparr>
      | (n', h, None) \<Rightarrow> verifyFiles unmarshal sha256 dir fs h n')"

text \<open>\<^verbatim>\<open>VerifyChain\<close> and \<^verbatim>\<open>VerifyChainDir\<close> are the same code; listing the directory may fail.\<close>

definition VerifyChain :: "decoder \<Rightarrow> (string \<Rightarrow> string) \<Rightarrow> string option \<Rightarrow> LogDir \<Rightarrow> ChainResult result" where
  "VerifyChain unmarshal sha256 readErr dir =
     (case readErr of
        Some err \<Rightarrow> Inl (''list log files: read activity log dir: '' @ err)
      | None \<Rightarrow> Inr (verifyFiles unmarshal sha256 dir (logFilesSorted dir) [] 0))"

definition VerifyChainDir :: "decoder \<Rightarrow> (string \<Rightarrow> string) \<Rightarrow> string option \<Rightarrow> LogDir \<Rightarrow> ChainResult result" where
  "VerifyChainDir unmarshal sha256 readErr dir =
     (case readErr of
        Some err \<Rightarrow> Inl (''read dir: '' @ err)
      | None \<Rightarrow> Inr (verifyFiles unmarshal sha256 dir (logFilesSorted dir) [] 0))"

definition VerifyChainForFile :: "decoder \<Rightarrow> (string \<Rightarrow> string) \<Rightarrow> LogDir \<Rightarrow> string \<Rightarrow> ChainResult" where
  "VerifyChainForFile unmarshal sha256 dir name =
     (case verifyFile unmarshal sha256 dir name [] 0 of
        (n, _, err) \<Rightarrow> \<lparr>crValid = (err = None), crEntriesRead = n,
                        crErrorLine = (if err = None then 0 else n), crErrorMsg = err\<rparr>)"

end
