(* ===== verification/Activity_Chain.thy ===== *)
theory Activity_Chain
  imports Activity_Log
begin

text \<open>
  The hash chain of the activity log: what the writer leaves in every file is accepted by the verifier, and what
  the verifier accepts is determined by the last line.
\<close>

section \<open>Laws of the encoding\<close>

text \<open>
  JSON on one line: the encoding of an entry is not empty and has no control characters, and decoding it gives the
  previous hash back, which is empty or hexadecimal.
\<close>

definition codec_laws :: "encoder \<Rightarrow> decoder \<Rightarrow> (string \<Rightarrow> string) \<Rightarrow> bool" where
  "codec_laws marshal unmarshal sha256 \<longleftrightarrow>
     (\<forall>e l. marshal e = Inr l \<longrightarrow> l \<noteq> [] \<and> CHR 0x0A \<notin> set l \<and> CHR 0x0D \<notin> set l \<and>
        (enPrevHash e \<in> insert [] (range (lineHash sha256)) \<longrightarrow>
           (\<exists>e'. unmarshal l = Inr e' \<and> enPrevHash e' = enPrevHash e)))"

text \<open>A digest has 32 bytes.\<close>

definition hash_laws :: "(string \<Rightarrow> string) \<Rightarrow> bool" where
  "hash_laws sha256 \<longleftrightarrow> (\<forall>l. length (sha256 l) = 32)"

section \<open>Hexadecimal text\<close>

lemma hexDigit_inject: "a < 16 \<Longrightarrow> b < 16 \<Longrightarrow> hexDigit a = hexDigit b \<Longrightarrow> a = b"
  unfolding hexDigit_def by (subst (asm) nth_eq_iff_index_eq) auto

lemma hexEncode_Nil [simp]: "hexEncode s = [] \<longleftrightarrow> s = []"
  by (cases s) (simp_all add: hexEncode_def)

lemma hexEncode_inject: "hexEncode s = hexEncode t \<Longrightarrow> s = t"
proof (induction s arbitrary: t)
  case (Cons c s)
  then obtain d t' where t: "t = d # t'" by (cases t) (auto simp: hexEncode_def)
  have b: "(of_char c :: nat) div 16 < 16" "(of_char d :: nat) div 16 < 16"
    using nat_of_char_less_256 by (simp_all add: less_mult_imp_div_less)
  from Cons.prems t have "hexDigit (of_char c div 16) = hexDigit (of_char d div 16)"
    "hexDigit (of_char c mod 16) = hexDigit (of_char d mod 16)" and r: "hexEncode s = hexEncode t'"
    by (simp_all add: hexEncode_def)
  then have "(of_char c :: nat) div 16 = of_char d div 16" "(of_char c :: nat) mod 16 = of_char d mod 16"
    using b by (auto intro!: hexDigit_inject)
  then have "(of_char c :: nat) = of_char d" by (metis div_mult_mod_eq)
  then have "c = d" by simp
  with t Cons.IH [OF r] show ?case by simp
qed (simp add: hexEncode_def)

lemma lineHash_inject: "lineHash sha256 a = lineHash sha256 b \<longleftrightarrow> sha256 a = sha256 b"
  by (auto simp: lineHash_def dest: hexEncode_inject)

lemma lineHash_nonempty: "hash_laws sha256 \<Longrightarrow> lineHash sha256 l \<noteq> []"
  by (auto simp: hash_laws_def lineHash_def) (metis list.size(3) zero_neq_numeral)

section \<open>Files of lines\<close>

definition okLine :: "string \<Rightarrow> bool" where
  "okLine l \<longleftrightarrow> l \<noteq> [] \<and> CHR 0x0A \<notin> set l \<and> CHR 0x0D \<notin> set l \<and> length l < MaxScanTokenSize"

definition fileOf :: "string list \<Rightarrow> string" where
  "fileOf ls = concat (map (\<lambda>l. l @ [CHR 0x0A]) ls)"

lemma fileOf_simps [simp]:
  "fileOf [] = []" "fileOf (l # ls) = l @ CHR 0x0A # fileOf ls" "fileOf (ls @ ms) = fileOf ls @ fileOf ms"
  by (simp_all add: fileOf_def)

lemma scanLines_Nil [simp]: "scanLines [] = ([], False)"
  by (simp add: scanLines.simps)

lemma dropCR_ok [simp]: "okLine l \<Longrightarrow> dropCR l = l"
  by (simp add: dropCR_def okLine_def) (metis last_in_set)

lemma scanLines_Cons:
  assumes "okLine l"
  shows "scanLines (l @ CHR 0x0A # rest) = (case scanLines rest of (ls, b) \<Rightarrow> (l # ls, b))"
proof -
  from assms have t: "takeWhile (\<lambda>c. c \<noteq> CHR 0x0A) (l @ CHR 0x0A # rest) = l"
    by (subst takeWhile_append2) (auto simp: okLine_def)
  show ?thesis
    using assms by (subst scanLines.simps) (simp add: t, simp add: okLine_def)
qed

lemma scanLines_fileOf: "list_all okLine ls \<Longrightarrow> scanLines (fileOf ls) = (ls, False)"
  by (induction ls) (simp_all add: scanLines_Cons)

section \<open>Chains\<close>

text \<open>The specification of a chain, and the hash that the next line has to carry.\<close>

fun chainFrom :: "decoder \<Rightarrow> (string \<Rightarrow> string) \<Rightarrow> string \<Rightarrow> string list \<Rightarrow> bool" where
  "chainFrom unmarshal sha256 prev [] \<longleftrightarrow> True"
| "chainFrom unmarshal sha256 prev (l # ls) \<longleftrightarrow>
     (case unmarshal l of Inl _ \<Rightarrow> False | Inr e \<Rightarrow> enPrevHash e = prev) \<and>
     chainFrom unmarshal sha256 (lineHash sha256 l) ls"

definition headHash :: "(string \<Rightarrow> string) \<Rightarrow> string \<Rightarrow> string list \<Rightarrow> string" where
  "headHash sha256 prev ls = (if ls = [] then prev else lineHash sha256 (last ls))"

lemma headHash_simps [simp]:
  "headHash sha256 prev [] = prev"
  "headHash sha256 prev (l # ls) = headHash sha256 (lineHash sha256 l) ls"
  "headHash sha256 prev (ls @ [l]) = lineHash sha256 l"
  by (simp_all add: headHash_def)

lemma chainFrom_append:
  "chainFrom unmarshal sha256 prev (ls @ ms) \<longleftrightarrow>
   chainFrom unmarshal sha256 prev ls \<and> chainFrom unmarshal sha256 (headHash sha256 prev ls) ms"
  by (induction ls arbitrary: prev) auto

lemma verifyLines_iff:
  "snd (snd (verifyLines unmarshal sha256 ls n prev)) = None \<longleftrightarrow> chainFrom unmarshal sha256 prev (filter (\<lambda>l. l \<noteq> []) ls)"
  by (induction ls arbitrary: n prev) (auto split: sum.splits)

lemma verifyLines_ok:
  assumes "[] \<notin> set ls" and "chainFrom unmarshal sha256 prev ls"
  shows "verifyLines unmarshal sha256 ls n prev = (n + length ls, headHash sha256 prev ls, None)"
  using assms by (induction ls arbitrary: n prev) (auto split: sum.splits)

lemma okLine_nonempty: "list_all okLine ls \<Longrightarrow> [] \<notin> set ls"
  by (auto simp: list_all_iff okLine_def)

lemma verifyFile_fileOf:
  assumes "map_of dir name = Some (File (fileOf ls))" and "list_all okLine ls"
  shows "verifyFile unmarshal sha256 dir name prev n = verifyLines unmarshal sha256 ls n prev"
  using assms by (simp add: verifyFile_def scanLines_fileOf split: prod.splits)

text \<open>
  The lines of a file that the verifier looks at: it skips empty lines and drops a carriage return at the end of a line.
  What it accepts are the files whose lines are a chain and which have no line of 64 kB or more.
\<close>

definition entryLines :: "string \<Rightarrow> string list" where
  "entryLines content = filter (\<lambda>l. l \<noteq> []) (fst (scanLines content))"

lemma VerifyChainForFile_iff:
  assumes "map_of dir name = Some (File content)"
  shows "crValid (VerifyChainForFile unmarshal sha256 dir name) \<longleftrightarrow>
    chainFrom unmarshal sha256 [] (entryLines content) \<and> \<not> snd (scanLines content)"
  using assms verifyLines_iff [of unmarshal sha256 "fst (scanLines content)" 0 "[]"]
  by (auto simp: VerifyChainForFile_def verifyFile_def entryLines_def split: prod.splits)

lemma entryLines_fileOf: "list_all okLine ls \<Longrightarrow> entryLines (fileOf ls) = ls"
  using okLine_nonempty [of ls] by (auto simp: entryLines_def scanLines_fileOf intro!: filter_True)

text \<open>The verifier, on files of proper lines, decides the specification.\<close>

lemma VerifyChainForFile_fileOf:
  assumes "map_of dir name = Some (File (fileOf ls))" and "list_all okLine ls"
  shows "crValid (VerifyChainForFile unmarshal sha256 dir name) \<longleftrightarrow> chainFrom unmarshal sha256 [] ls"
  using assms by (simp add: VerifyChainForFile_iff [OF assms(1)] entryLines_fileOf scanLines_fileOf)

lemma VerifyChainForFile_count:
  assumes "map_of dir name = Some (File (fileOf ls))" and "list_all okLine ls" and "chainFrom unmarshal sha256 [] ls"
  shows "VerifyChainForFile unmarshal sha256 dir name =
    \<lparr>crValid = True, crEntriesRead = length ls, crErrorLine = 0, crErrorMsg = None\<rparr>"
  using assms by (simp add: VerifyChainForFile_def verifyFile_fileOf verifyLines_ok okLine_nonempty)

lemma lastHash_fileOf:
  "list_all okLine ls \<Longrightarrow> lastHashFromFile sha256 (Some (File (fileOf ls))) = headHash sha256 [] ls"
proof -
  assume ls: "list_all okLine ls"
  have "filter (\<lambda>l. l \<noteq> []) ls = ls" by (rule filter_True) (use okLine_nonempty [OF ls] in auto)
  with ls show ?thesis by (simp add: lastHashFromFile_def scanLines_fileOf headHash_def split: list.splits)
qed

section \<open>The writer keeps every file a chain\<close>

definition chained :: "decoder \<Rightarrow> (string \<Rightarrow> string) \<Rightarrow> string \<Rightarrow> bool" where
  "chained unmarshal sha256 content \<longleftrightarrow>
     (\<exists>ls. content = fileOf ls \<and> list_all okLine ls \<and> chainFrom unmarshal sha256 [] ls)"

definition log_inv :: "decoder \<Rightarrow> (string \<Rightarrow> string) \<Rightarrow> Writer \<Rightarrow> bool" where
  "log_inv unmarshal sha256 w \<longleftrightarrow>
     (\<forall>name content. map_of (wrDir w) name = Some (File content) \<longrightarrow> isLogFile name \<longrightarrow> chained unmarshal sha256 content) \<and>
     wf_map (wrDir w) \<and>
     wrPrev w \<in> insert [] (range (lineHash sha256)) \<and>
     (\<forall>name. wrFile w = Some (Linked name) \<longrightarrow> isLogFile name \<and>
        (\<exists>ls. map_of (wrDir w) name = Some (File (fileOf ls)) \<and> list_all okLine ls \<and> wrPrev w = headHash sha256 [] ls))"

text \<open>
  The steps of a log: an entry is written, where opening, listing and removing may fail but reading the last
  hash and writing do not and the line fits the scanner's buffer; or the program is restarted.
\<close>

inductive log_step :: "encoder \<Rightarrow> (string \<Rightarrow> string) \<Rightarrow> (int \<Rightarrow> string) \<Rightarrow> nat \<Rightarrow> bool \<Rightarrow> Writer \<Rightarrow> Writer \<Rightarrow> bool"
  for marshal sha256 dateStr maxFiles forwarder where
  entry: "\<not> ffSeed ff \<Longrightarrow> ffWrite ff = None \<Longrightarrow>
    (\<And>l. marshal (e\<lparr>enPrevHash := wrPrev (enterDay sha256 maxFiles ff (entryDay dateStr e) w)\<rparr>) = Inr l \<Longrightarrow>
       length l < MaxScanTokenSize) \<Longrightarrow>
    log_step marshal sha256 dateStr maxFiles forwarder w (writeEntry marshal sha256 dateStr maxFiles forwarder ff e w)"
| restart: "log_step marshal sha256 dateStr maxFiles forwarder w (newWriter (wrDir w))"

definition log_init :: "Writer \<Rightarrow> bool" where
  "log_init w \<longleftrightarrow> w = newWriter []"

lemma isLogFile_name [simp]: "isLogFile (logFileName day)"
  by (simp add: isLogFile_def logFileName_def suffix_def)

lemma headHash_range: "headHash sha256 [] ls \<in> insert [] (range (lineHash sha256))"
  by (simp add: headHash_def)

lemma chained_Nil: "chained unmarshal sha256 []"
  unfolding chained_def by (rule exI [of _ "[]"]) simp

lemma log_inv_open:
  assumes "log_inv unmarshal sha256 w" and "\<not> ffSeed ff"
  shows "log_inv unmarshal sha256 (openFileForDay sha256 ff day w)"
proof (cases "ffOpen ff \<or> map_of (wrDir w) (logFileName day) = Some SubDir")
  case True
  with assms show ?thesis by (auto simp: openFileForDay_def log_inv_def Let_def)
next
  case False
  define dir where "dir = (if map_of (wrDir w) (logFileName day) = None
    then AList.update (logFileName day) (File []) (wrDir w) else wrDir w)"
  have files: "chained unmarshal sha256 content" if "map_of dir name = Some (File content)" "isLogFile name" for name content
    using that assms(1) chained_Nil
    by (auto simp: dir_def log_inv_def split: if_splits simp del: map_of_eq_Some_iff)
  from False have "\<exists>content. map_of dir (logFileName day) = Some (File content)"
    by (cases "map_of (wrDir w) (logFileName day)") (auto simp: dir_def, metis LogNode.exhaust)
  with files obtain ls where ls: "map_of dir (logFileName day) = Some (File (fileOf ls))" "list_all okLine ls"
    by (metis chained_def isLogFile_name)
  have "openFileForDay sha256 ff day w =
    w\<lparr>wrDir := dir, wrFile := Some (Linked (logFileName day)), wrDay := day, wrPrev := headHash sha256 [] ls\<rparr>"
    using False assms(2) ls by (simp add: openFileForDay_def Let_def flip: dir_def) (simp add: lastHash_fileOf)
  moreover have "wf_map dir" using assms(1) by (simp add: dir_def log_inv_def)
  ultimately show ?thesis using ls files headHash_range by (auto simp: log_inv_def simp del: map_of_eq_Some_iff)
qed

lemma log_inv_cleanup:
  assumes "log_inv unmarshal sha256 w"
  shows "log_inv unmarshal sha256 (cleanup ff maxFiles w)"
proof (cases "ffReadDir ff")
  case False
  define R where "R = set (filter (\<lambda>n. \<not> ffRemove ff n)
    (take (length (logFilesSorted (wrDir w)) - maxFiles) (logFilesSorted (wrDir w))))"
  define dir where "dir = filter (\<lambda>(n, _). n \<notin> R) (wrDir w)"
  have wf: "wf_map (wrDir w)" using assms by (simp add: log_inv_def)
  have look: "map_of dir n = (if n \<in> R then None else map_of (wrDir w) n)" for n
    unfolding dir_def using map_of_filter_pair [OF wf, of "\<lambda>n _. n \<notin> R" n] by (auto split: option.splits)
  have "cleanup ff maxFiles w = w\<lparr>wrDir := dir, wrFile := (case wrFile w of
      Some (Linked n) \<Rightarrow> Some (if n \<in> R then Unlinked else Linked n) | h \<Rightarrow> h)\<rparr>"
    using False unfolding cleanup_def Let_def dir_def R_def by simp
  moreover have "wf_map dir" using wf by (simp add: dir_def distinct_map_filter)
  ultimately show ?thesis
    using assms look by (auto simp: log_inv_def split: option.splits Handle.splits if_splits simp del: map_of_eq_Some_iff)
qed (use assms in \<open>simp add: cleanup_def\<close>)

lemma log_inv_enterDay:
  "log_inv unmarshal sha256 w \<Longrightarrow> \<not> ffSeed ff \<Longrightarrow> log_inv unmarshal sha256 (enterDay sha256 maxFiles ff day w)"
  by (simp add: enterDay_def log_inv_open log_inv_cleanup)

lemma log_inv_append:
  assumes inv: "log_inv unmarshal sha256 w" and h: "wrFile w = Some h"
    and l: "okLine l" and e: "unmarshal l = Inr e" "enPrevHash e = wrPrev w"
  shows "log_inv unmarshal sha256 (w\<lparr>wrPrev := lineHash sha256 l,
    wrDir := appendFile h (l @ [CHR 0x0A]) (wrDir w), wrForwarded := fw\<rparr>)"
proof (cases h)
  case (Linked name)
  with inv h obtain ls where ls: "map_of (wrDir w) name = Some (File (fileOf ls))" "list_all okLine ls"
      "wrPrev w = headHash sha256 [] ls" and n: "isLogFile name"
    by (auto simp: log_inv_def)
  from inv ls(1) n have "chained unmarshal sha256 (fileOf ls)" by (simp add: log_inv_def)
  then obtain ms where ms: "fileOf ls = fileOf ms" "list_all okLine ms" "chainFrom unmarshal sha256 [] ms"
    by (auto simp: chained_def)
  then have "ms = ls" using ls(2) by (metis scanLines_fileOf prod.inject)
  with ms e ls(3) have "chainFrom unmarshal sha256 [] (ls @ [l])" by (simp add: chainFrom_append)
  with ls(2) l have "chained unmarshal sha256 (fileOf ls @ l @ [CHR 0x0A])"
    unfolding chained_def by (intro exI [of _ "ls @ [l]"]) simp
  moreover have "\<exists>ms. fileOf ls @ l @ [CHR 0x0A] = fileOf ms \<and> list_all okLine ms \<and> lineHash sha256 l = headHash sha256 [] ms"
    using ls(2) l by (intro exI [of _ "ls @ [l]"]) simp
  ultimately show ?thesis
    using inv h Linked ls(1) n by (auto simp: log_inv_def simp del: map_of_eq_Some_iff)
qed (use inv h in \<open>auto simp: log_inv_def\<close>)

lemma log_inv_write:
  assumes codec: "codec_laws marshal unmarshal sha256" and inv: "log_inv unmarshal sha256 w"
    and ff: "\<not> ffSeed ff" "ffWrite ff = None"
    and short: "\<And>l. marshal (e\<lparr>enPrevHash := wrPrev (enterDay sha256 maxFiles ff (entryDay dateStr e) w)\<rparr>) = Inr l \<Longrightarrow>
      length l < MaxScanTokenSize"
  shows "log_inv unmarshal sha256 (writeEntry marshal sha256 dateStr maxFiles forwarder ff e w)"
proof -
  define v where "v = enterDay sha256 maxFiles ff (entryDay dateStr e) w"
  have v: "log_inv unmarshal sha256 v" using log_inv_enterDay [OF inv ff(1)] by (simp add: v_def)
  show ?thesis
  proof (cases "wrFile v")
    case (Some h)
    show ?thesis
    proof (cases "marshal (e\<lparr>enPrevHash := wrPrev v\<rparr>)")
      case (Inr l)
      have "wrPrev v \<in> insert [] (range (lineHash sha256))" using v by (simp add: log_inv_def)
      with codec Inr have "\<exists>e'. unmarshal l = Inr e' \<and> enPrevHash e' = wrPrev v"
        unfolding codec_laws_def by fastforce
      moreover from codec Inr have "okLine l"
        using short Inr by (auto simp: codec_laws_def okLine_def v_def)
      ultimately show ?thesis using log_inv_append [OF v Some] Some Inr ff(2)
        by (fastforce simp: writeEntry_def Let_def simp flip: v_def)
    qed (use v Some in \<open>simp add: writeEntry_def Let_def flip: v_def\<close>)
  qed (use v in \<open>simp add: writeEntry_def Let_def flip: v_def\<close>)
qed

lemma log_inv_init: "log_inv unmarshal sha256 (newWriter [])"
  by (simp add: log_inv_def newWriter_def)

lemma log_inv_restart: "log_inv unmarshal sha256 w \<Longrightarrow> log_inv unmarshal sha256 (newWriter (wrDir w))"
  by (simp add: log_inv_def newWriter_def)

lemma log_inv_step:
  assumes "codec_laws marshal unmarshal sha256" and "log_inv unmarshal sha256 w"
    and "log_step marshal sha256 dateStr maxFiles forwarder w w'"
  shows "log_inv unmarshal sha256 w'"
  using assms(3,2)
  by (cases rule: log_step.cases) (auto intro: log_inv_write [OF assms(1)] log_inv_restart)

lemma log_inv_reachable:
  assumes "codec_laws marshal unmarshal sha256"
    and "reachable log_init (log_step marshal sha256 dateStr maxFiles forwarder) w"
  shows "log_inv unmarshal sha256 w"
  using assms(2)
  by (induction rule: reachable.induct) (auto simp: log_init_def log_inv_init intro: log_inv_step [OF assms(1)])

lemma log_files_chained:
  assumes "codec_laws marshal unmarshal sha256"
    and "reachable log_init (log_step marshal sha256 dateStr maxFiles forwarder) w"
    and "name \<in> set (logFilesSorted (wrDir w))"
  obtains ls where "map_of (wrDir w) name = Some (File (fileOf ls))" "list_all okLine ls"
    "chainFrom unmarshal sha256 [] ls"
proof -
  have inv: "log_inv unmarshal sha256 w" by (rule log_inv_reachable [OF assms(1,2)])
  then have wf: "wf_map (wrDir w)" by (simp add: log_inv_def)
  from assms(3) obtain node where "(name, node) \<in> set (wrDir w)" "node \<noteq> SubDir" and n: "isLogFile name"
    by (auto simp: logFilesSorted_def)
  then obtain content where c: "map_of (wrDir w) name = Some (File content)"
    using wf by (cases node) auto
  with inv n have "chained unmarshal sha256 content" by (simp add: log_inv_def del: map_of_eq_Some_iff)
  with c that show ?thesis by (auto simp: chained_def)
qed

section \<open>What the verifier's verdict means\<close>

lemma chain_prev:
  assumes "chainFrom unmarshal sha256 [] (ls @ [l])"
  obtains e where "unmarshal l = Inr e" "enPrevHash e = headHash sha256 [] ls"
  using assms by (auto simp: chainFrom_append split: sum.splits)

text \<open>Two chains with the same last line are the same, unless a line of the one and a line of the other collide.\<close>

definition collide :: "(string \<Rightarrow> string) \<Rightarrow> string list \<Rightarrow> string list \<Rightarrow> bool" where
  "collide sha256 ls ms \<longleftrightarrow> list_ex (\<lambda>x. list_ex (\<lambda>y. x \<noteq> y \<and> sha256 x = sha256 y) ms) ls"

lemma chain_determined:
  assumes "hash_laws sha256"
    and "chainFrom unmarshal sha256 [] (ls @ [l])" and "chainFrom unmarshal sha256 [] (ms @ [l])" and "\<not> collide sha256 ls ms"
  shows "ls = ms"
  using assms(2-4)
proof (induction ls arbitrary: ms l rule: rev_induct)
  case Nil
  then have "headHash sha256 [] ms = []" by (elim chain_prev) (metis headHash_simps(1) sum.inject(2))
  then show ?case using lineHash_nonempty [OF assms(1)] by (auto simp: headHash_def split: if_splits)
next
  case (snoc k ls)
  have h: "headHash sha256 [] ms = lineHash sha256 k"
    using snoc.prems by (elim chain_prev) (metis headHash_simps(3) sum.inject(2))
  then have "ms \<noteq> []" using lineHash_nonempty [OF assms(1)] by (metis headHash_simps(1))
  then obtain ms' k' where ms: "ms = ms' @ [k']" by (metis rev_exhaust)
  with h snoc.prems(3) have k: "k' = k" by (auto simp: collide_def lineHash_inject)
  from snoc.prems ms k have "chainFrom unmarshal sha256 [] (ls @ [k])" "chainFrom unmarshal sha256 [] (ms' @ [k])" "\<not> collide sha256 ls ms'"
    by (auto simp: chainFrom_append collide_def list_ex_iff)
  from snoc.IH [OF this] ms k show ?case by simp
qed

section \<open>Properties\<close>

text \<open>An encoding for the witnesses: a line is a letter and the previous hash, a digest is the first 32 bytes of the line, filled up.\<close>

definition plainMarshal :: encoder where
  "plainMarshal e = (if CHR 0x0A \<in> set (enPrevHash e) \<or> CHR 0x0D \<in> set (enPrevHash e) then Inl ''control character''
                     else Inr (CHR ''p'' # enPrevHash e))"

definition plainEntry :: "string \<Rightarrow> Entry" where
  "plainEntry h = \<lparr>enTimestamp = 0, enZone = 0, enMethod = ''task.start'', enCorrelationID = [], enDurationMs = 0,
     enError = [], enParamsSize = 0, enUserID = [], enTaskID = [], enAgentModel = [], enFilesAffected = [],
     enTaskTraceID = [], enParentEntryID = [], enPrevHash = h\<rparr>"

fun plainUnmarshal :: decoder where
  "plainUnmarshal [] = Inl ''unexpected end of JSON input''"
| "plainUnmarshal (c # h) = (if c = CHR ''p'' then Inr (plainEntry h) else Inl ''invalid character'')"

definition plainSha :: "string \<Rightarrow> string" where
  "plainSha l = take 32 (l @ replicate 32 CHR ''s'')"

definition unaryDate :: "int \<Rightarrow> string" where
  "unaryDate d = replicate (nat d) CHR ''a''"

definition noFaults :: FileFaults where
  "noFaults = \<lparr>ffOpen = False, ffSeed = False, ffReadDir = False, ffRemove = (\<lambda>_. False), ffWrite = None\<rparr>"

lemma plain_codec: "codec_laws plainMarshal plainUnmarshal sha256"
  by (auto simp: codec_laws_def plainMarshal_def plainEntry_def split: if_splits)

lemma plain_hash: "hash_laws plainSha"
  by (auto simp: hash_laws_def plainSha_def)

text \<open>A log with an entry on each of two days.\<close>

definition dayEntry :: "int \<Rightarrow> Entry" where
  "dayEntry d = (plainEntry [])\<lparr>enTimestamp := d * nsPerDay\<rparr>"

definition oneDayLog :: Writer where
  "oneDayLog = writeEntry plainMarshal plainSha unaryDate 30 False noFaults (dayEntry 1) (newWriter [])"

definition twoDayLog :: Writer where
  "twoDayLog = writeEntry plainMarshal plainSha unaryDate 30 False noFaults (dayEntry 2) oneDayLog"

text \<open>The hash of the first line of a day, and the line of the next entry.\<close>

definition demoHash :: string where
  "demoHash = hexEncode (CHR ''p'' # replicate 31 CHR ''s'')"

definition secondLine :: string where
  "secondLine = CHR ''p'' # demoHash"

lemma dayEntry_day: "entryDay unaryDate (dayEntry d) = unaryDate d"
  by (simp add: entryDay_def dayEntry_def plainEntry_def nsPerDay_def)

lemma log_run_names: "unaryDate 1 = ''a''" "unaryDate 2 = ''aa''"
  "logFileName ''a'' = ''activity-a.jsonl''" "logFileName ''aa'' = ''activity-aa.jsonl''" "lineHash plainSha ''p'' = demoHash"
  "CHR 0x0A \<notin> set demoHash" "CHR 0x0D \<notin> set demoHash" "length demoHash = 64"
  by code_simp+

lemma log_run_files: "logFilesSorted [(''activity-a.jsonl'', File c)] = [''activity-a.jsonl'']"
  "logFilesSorted [(''activity-a.jsonl'', File c), (''activity-aa.jsonl'', File d)] = [''activity-a.jsonl'', ''activity-aa.jsonl'']"
  by (simp_all add: logFilesSorted_def isLogFile_def filePrefix_def fileExt_def suffix_to_prefix)

lemmas log_run = writeEntry_def enterDay_def openFileForDay_def cleanup_def newWriter_def dayEntry_day log_run_names
  log_run_files noFaults_def plainMarshal_def lastHashFromFile_def Let_def

lemma dayEntry_line: "plainMarshal ((dayEntry d)\<lparr>enPrevHash := []\<rparr>) = Inr ''p''"
  by (simp add: plainMarshal_def)

lemma oneDayLog_eq:
  "oneDayLog = \<lparr>wrDir = [(''activity-a.jsonl'', File (fileOf [''p'']))], wrDay = ''a'',
     wrFile = Some (Linked ''activity-a.jsonl''), wrPrev = demoHash, wrForwarded = []\<rparr>"
  by (simp add: oneDayLog_def log_run)

lemma twoDayLog_eq:
  "twoDayLog = \<lparr>wrDir = [(''activity-a.jsonl'', File (fileOf [''p''])), (''activity-aa.jsonl'', File (fileOf [''p'']))],
     wrDay = ''aa'', wrFile = Some (Linked ''activity-aa.jsonl''), wrPrev = demoHash, wrForwarded = []\<rparr>"
  by (simp add: twoDayLog_def oneDayLog_eq log_run)

lemma plain_step:
  assumes "length (wrPrev (enterDay plainSha 30 noFaults (entryDay unaryDate e) w)) < 100"
  shows "log_step plainMarshal plainSha unaryDate 30 False w (writeEntry plainMarshal plainSha unaryDate 30 False noFaults e w)"
  by (rule log_step.entry) (use assms in \<open>auto simp: noFaults_def plainMarshal_def MaxScanTokenSize_def split: if_splits\<close>)

lemma oneDayLog_reachable: "reachable log_init (log_step plainMarshal plainSha unaryDate 30 False) oneDayLog"
  unfolding oneDayLog_def
  by (rule reach_step [where step = "log_step plainMarshal plainSha unaryDate 30 False", OF reach_init plain_step])
    (simp_all add: log_init_def log_run)

lemma twoDayLog_reachable: "reachable log_init (log_step plainMarshal plainSha unaryDate 30 False) twoDayLog"
  unfolding twoDayLog_def
  by (rule reach_step [OF oneDayLog_reachable plain_step]) (simp add: oneDayLog_eq log_run)

text \<open>
  C12: Every day file that the log has written, over any number of entries whose lines are shorter than 64 kB, changes of the
  day, restarts, clean-ups and failing calls of the file system other than writes and the reading of the last
  hash of a file that is opened again, is accepted by the verifier, which counts its lines.
\<close>

theorem day_files_verify:
  assumes "codec_laws marshal unmarshal sha256"
    and "reachable log_init (log_step marshal sha256 dateStr maxFiles forwarder) w"
    and "name \<in> set (logFilesSorted (wrDir w))"
  shows "\<exists>ls. map_of (wrDir w) name = Some (File (fileOf ls)) \<and>
    VerifyChainForFile unmarshal sha256 (wrDir w) name =
      \<lparr>crValid = True, crEntriesRead = length ls, crErrorLine = 0, crErrorMsg = None\<rparr>"
  by (rule log_files_chained [OF assms]) (auto intro!: VerifyChainForFile_count)

theorem day_files_verify_witness:
  "\<exists>ls. map_of (wrDir twoDayLog) ''activity-aa.jsonl'' = Some (File (fileOf ls)) \<and>
    VerifyChainForFile plainUnmarshal plainSha (wrDir twoDayLog) ''activity-aa.jsonl'' =
      \<lparr>crValid = True, crEntriesRead = length ls, crErrorLine = 0, crErrorMsg = None\<rparr>"
  by (rule day_files_verify [OF plain_codec twoDayLog_reachable]) (simp add: twoDayLog_eq log_run_files)

text \<open>
  C11: Tampering. Two files that the verifier accepts and whose last lines are the same have the same lines, or a line of
  the one and a different line of the other have the same SHA-256. So no line before the last can be changed, removed,
  inserted or moved unnoticed without a collision. Empty lines and a carriage return at the end of a line are
  not looked at: they can be added or removed.
\<close>

theorem last_line_determines_file:
  assumes "hash_laws sha256"
    and "map_of d f = Some (File a)" and "map_of d' f' = Some (File b)"
    and "crValid (VerifyChainForFile unmarshal sha256 d f)" and "crValid (VerifyChainForFile unmarshal sha256 d' f')"
    and "entryLines a \<noteq> []" and "entryLines b \<noteq> []" and "last (entryLines a) = last (entryLines b)"
  shows "entryLines a = entryLines b \<or> collide sha256 (entryLines a) (entryLines b)"
proof -
  obtain ls ms l where ls: "entryLines a = ls @ [l]" and ms: "entryLines b = ms @ [l]"
    using assms(6-8) by (metis append_butlast_last_id)
  have "chainFrom unmarshal sha256 [] (ls @ [l])" "chainFrom unmarshal sha256 [] (ms @ [l])"
    using assms(4,5) unfolding VerifyChainForFile_iff [OF assms(2)] VerifyChainForFile_iff [OF assms(3)] ls ms by simp_all
  from chain_determined [OF assms(1) this] show ?thesis unfolding ls ms by (auto simp: collide_def list_ex_iff)
qed

theorem last_line_determines_file_witness:
  "\<not> crValid (VerifyChainForFile plainUnmarshal plainSha [(''f'', File (fileOf [''px'', secondLine]))] ''f'')"
proof
  assume t: "crValid (VerifyChainForFile plainUnmarshal plainSha [(''f'', File (fileOf [''px'', secondLine]))] ''f'')"
  have ok: "list_all okLine [''p'', secondLine]" "list_all okLine [''px'', secondLine]"
    by (simp_all add: okLine_def MaxScanTokenSize_def secondLine_def log_run_names)
  have "crValid (VerifyChainForFile plainUnmarshal plainSha [(''f'', File (fileOf [''p'', secondLine]))] ''f'')"
    by (subst VerifyChainForFile_fileOf [OF _ ok(1)]) (simp_all add: secondLine_def plainEntry_def log_run_names)
  from last_line_determines_file [OF plain_hash _ _ this t, of "fileOf [''p'', secondLine]" "fileOf [''px'', secondLine]"]
  have "[''p'', secondLine] = [''px'', secondLine] \<or> collide plainSha [''p'', secondLine] [''px'', secondLine]"
    unfolding entryLines_fileOf [OF ok(1)] entryLines_fileOf [OF ok(2)] by simp
  moreover have "\<not> collide plainSha [''p'', secondLine] [''px'', secondLine]" by code_simp
  ultimately show False by simp
qed

text \<open>
  A log of two days never verifies: every file of it is accepted on its own, but the verification of the
  directory expects the first line of the second day to carry the hash of the last line of the first day, where
  the writer starts each day with an empty hash.
\<close>

theorem two_days_never_verify:
  assumes "codec_laws marshal unmarshal sha256" and "hash_laws sha256"
    and "reachable log_init (log_step marshal sha256 dateStr maxFiles forwarder) w"
    and "logFilesSorted (wrDir w) = f # g # fs"
    and "map_of (wrDir w) f \<noteq> Some (File [])" and "map_of (wrDir w) g \<noteq> Some (File [])"
  shows "\<exists>r. VerifyChain unmarshal sha256 None (wrDir w) = Inr r \<and> \<not> crValid r \<and>
    crErrorLine r = Suc (crEntriesRead (VerifyChainForFile unmarshal sha256 (wrDir w) f))"
proof -
  obtain ls where ls: "map_of (wrDir w) f = Some (File (fileOf ls))" "list_all okLine ls" "chainFrom unmarshal sha256 [] ls"
    by (rule log_files_chained [OF assms(1,3), of f]) (use assms(4) in auto)
  obtain ms where ms: "map_of (wrDir w) g = Some (File (fileOf ms))" "list_all okLine ms" "chainFrom unmarshal sha256 [] ms"
    by (rule log_files_chained [OF assms(1,3), of g]) (use assms(4) in auto)
  from ls(1) assms(5) have "ls \<noteq> []" by auto
  then have h: "headHash sha256 [] ls \<noteq> []" using lineHash_nonempty [OF assms(2)] by (simp add: headHash_def)
  from ms(1) assms(6) obtain m ms' where m: "ms = m # ms'" by (cases ms) auto
  with ms obtain e where e: "unmarshal m = Inr e" "enPrevHash e = []" by (auto split: sum.splits)
  have "m \<noteq> []" using m ms(2) by (simp add: okLine_def)
  with e h m have "verifyLines unmarshal sha256 ms (length ls) (headHash sha256 [] ls) =
      (Suc (length ls), [], Some (ChainBroken (Suc (length ls)) (headHash sha256 [] ls) []))" by simp
  with ls ms show ?thesis
    by (simp add: VerifyChain_def assms(4) verifyFile_fileOf verifyLines_ok okLine_nonempty VerifyChainForFile_count)
qed

theorem two_days_never_verify_witness:
  "\<exists>r. VerifyChain plainUnmarshal plainSha None (wrDir twoDayLog) = Inr r \<and> \<not> crValid r \<and>
    crErrorLine r = Suc (crEntriesRead (VerifyChainForFile plainUnmarshal plainSha (wrDir twoDayLog) ''activity-a.jsonl''))"
  by (rule two_days_never_verify [OF plain_codec plain_hash twoDayLog_reachable, of _ "''activity-aa.jsonl''" "[]"])
    (simp_all add: twoDayLog_eq log_run_files)

text \<open>
  A failed write breaks the chain: the writer has already advanced to the hash of the line that never reached
  the file, and the next entry of the day makes the file invalid, unless lines of that day collide.
\<close>

theorem failed_write_breaks_chain:
  assumes "codec_laws marshal unmarshal sha256" and "hash_laws sha256"
    and "reachable log_init (log_step marshal sha256 dateStr maxFiles forwarder) w"
    and "wrFile w = Some (Linked name)" and "map_of (wrDir w) name = Some (File content)"
    and "\<not> collide sha256 (entryLines content @ [la]) (entryLines content)"
    and "entryDay dateStr a = wrDay w" and "marshal (a\<lparr>enPrevHash := wrPrev w\<rparr>) = Inr la" and "okLine la"
    and "entryDay dateStr b = wrDay w" and "marshal (b\<lparr>enPrevHash := lineHash sha256 la\<rparr>) = Inr lb" and "okLine lb"
  shows "\<not> crValid (VerifyChainForFile unmarshal sha256
    (wrDir (writeEntry marshal sha256 dateStr maxFiles forwarder noFaults b
      (writeEntry marshal sha256 dateStr maxFiles forwarder (noFaults\<lparr>ffWrite := Some 0\<rparr>) a w))) name)"
proof -
  have inv: "log_inv unmarshal sha256 w" by (rule log_inv_reachable [OF assms(1,3)])
  with assms(4) obtain ls where ls: "map_of (wrDir w) name = Some (File (fileOf ls))" "list_all okLine ls"
      and prev: "wrPrev w = headHash sha256 [] ls" and n: "isLogFile name"
    by (auto simp: log_inv_def simp del: map_of_eq_Some_iff)
  have lines: "entryLines content = ls" using assms(5) ls by (auto simp: entryLines_fileOf)
  from inv ls(1) n have "chained unmarshal sha256 (fileOf ls)" by (simp add: log_inv_def del: map_of_eq_Some_iff)
  then have chain: "chainFrom unmarshal sha256 [] ls"
    using ls(2) unfolding chained_def by (metis scanLines_fileOf prod.inject)
  have pa: "\<exists>e. unmarshal la = Inr e \<and> enPrevHash e = wrPrev w"
    using assms(1,8) headHash_range [of sha256 ls] prev unfolding codec_laws_def by fastforce
  have pb: "\<exists>e. unmarshal lb = Inr e \<and> enPrevHash e = lineHash sha256 la"
    using assms(1,11) unfolding codec_laws_def by fastforce
  from pa chain prev have ca: "chainFrom unmarshal sha256 [] (ls @ [la])" by (auto simp: chainFrom_append)
  have ne: "headHash sha256 [] ls \<noteq> lineHash sha256 la"
  proof (cases ls rule: rev_cases)
    case Nil
    then show ?thesis using lineHash_nonempty [OF assms(2), of la] by simp
  next
    case (snoc ks k)
    with assms(6) lines have "\<not> collide sha256 ls ks" by (auto simp: collide_def list_ex_iff)
    then have "k \<noteq> la" using chain_determined [OF assms(2) ca, of ks] chain snoc by auto
    then show ?thesis using snoc assms(6) lines by (auto simp: lineHash_inject collide_def list_ex_iff)
  qed
  have "\<not> chainFrom unmarshal sha256 [] (ls @ [lb])"
    using pb ne by (auto simp: chainFrom_append split: sum.splits)
  moreover have "map_of (wrDir (writeEntry marshal sha256 dateStr maxFiles forwarder noFaults b
      (writeEntry marshal sha256 dateStr maxFiles forwarder (noFaults\<lparr>ffWrite := Some 0\<rparr>) a w))) name
      = Some (File (fileOf (ls @ [lb])))"
    using assms(4,7-11) ls(1) by (simp add: writeEntry_def enterDay_def noFaults_def)
  moreover have "list_all okLine (ls @ [lb])" using ls(2) assms(12) by simp
  ultimately show ?thesis using VerifyChainForFile_fileOf by blast
qed

theorem failed_write_breaks_chain_witness:
  "\<not> crValid (VerifyChainForFile plainUnmarshal plainSha
    (wrDir (writeEntry plainMarshal plainSha unaryDate 30 False noFaults (dayEntry 1)
      (writeEntry plainMarshal plainSha unaryDate 30 False (noFaults\<lparr>ffWrite := Some 0\<rparr>) (dayEntry 1) oneDayLog)))
    ''activity-a.jsonl'')"
proof -
  have lines: "entryLines (fileOf [''p'']) = [''p'']" by (rule entryLines_fileOf) (simp add: okLine_def MaxScanTokenSize_def)
  have third: "CHR 0x0A \<notin> set (lineHash plainSha secondLine)" "CHR 0x0D \<notin> set (lineHash plainSha secondLine)"
    "length (lineHash plainSha secondLine) = 64" "\<not> collide plainSha ([''p''] @ [secondLine]) [''p'']" by code_simp+
  show ?thesis
    by (rule failed_write_breaks_chain [OF plain_codec plain_hash oneDayLog_reachable, of _ "fileOf [''p'']" secondLine _ _
          "CHR ''p'' # lineHash plainSha secondLine"])
      (use third in \<open>simp_all add: lines lines [simplified] oneDayLog_eq dayEntry_day log_run_names plainMarshal_def okLine_def MaxScanTokenSize_def,
        simp_all add: secondLine_def log_run_names\<close>)
qed

end
