(* ===== verification/Activity_Query.thy ===== *)
theory Activity_Query
  imports Activity_Chain
begin

text \<open>
  Reading the activity log back (src/internal/activitylog/query.go) and the timeline service over it
  (src/internal/timeline/timeline.go). \<open>parseDate\<close> is the inverse of \<open>dateStr\<close>; \<^verbatim>\<open>time.Parse\<close> without a zone
  gives midnight in UTC.
\<close>

section \<open>Queries\<close>

record QueryOptions =
  qoSince :: duration
  qoMethodPattern :: string
  qoErrorsOnly :: bool
  qoLimit :: int

definition matchesMethodPattern :: "string \<Rightarrow> string \<Rightarrow> bool" where
  "matchesMethodPattern method pattern \<longleftrightarrow>
     pattern = [] \<or> list_ex (\<lambda>p. containsText method (trimSpace p)) (splitChar CHR ''|'' pattern)"

text \<open>Malformed and empty lines are skipped; a missing file has no entries.\<close>

definition decodeLines :: "decoder \<Rightarrow> string list \<Rightarrow> Entry list" where
  "decodeLines unmarshal ls =
     List.map_filter (\<lambda>l. if l = [] then None else case unmarshal l of Inl _ \<Rightarrow> None | Inr e \<Rightarrow> Some e) ls"

definition readFile :: "decoder \<Rightarrow> LogDir \<Rightarrow> string \<Rightarrow> Entry list result" where
  "readFile unmarshal dir name =
     (case map_of dir name of
        None \<Rightarrow> Inr []
      | Some SubDir \<Rightarrow> Inl (''scan activity log file '' @ name @ '': is a directory'')
      | Some (File content) \<Rightarrow>
          (case scanLines content of (ls, tooLong) \<Rightarrow>
             if tooLong then Inl (''scan activity log file '' @ name @ '': bufio.Scanner: token too long'')
             else Inr (decodeLines unmarshal ls)))"

text \<open>Listing the directory may fail, with the error \<open>readErr\<close>.\<close>

definition listFiles :: "string option \<Rightarrow> LogDir \<Rightarrow> string list result" where
  "listFiles readErr dir =
     (case readErr of Some err \<Rightarrow> Inl (''read activity log dir: '' @ err) | None \<Rightarrow> Inr (logFilesSorted dir))"

definition keepEntry :: "QueryOptions \<Rightarrow> time \<Rightarrow> Entry \<Rightarrow> bool" where
  "keepEntry opts cutoff e \<longleftrightarrow>
     \<not> (0 < qoSince opts \<and> enTimestamp e < cutoff) \<and> \<not> (qoErrorsOnly opts \<and> enError e = []) \<and>
     matchesMethodPattern (enMethod e) (qoMethodPattern opts)"

text \<open>The inner loops append to \<open>results\<close> and stop at the limit; the flag says that they returned.\<close>

fun collect :: "(Entry \<Rightarrow> bool) \<Rightarrow> int \<Rightarrow> Entry list \<Rightarrow> Entry list \<Rightarrow> Entry list \<times> bool" where
  "collect keep limit [] results = (results, False)"
| "collect keep limit (e # es) results =
     (if keep e
      then if 0 < limit \<and> limit \<le> int (length results) + 1 then (results @ [e], True)
           else collect keep limit es (results @ [e])
      else collect keep limit es results)"

definition dayOver :: "(string \<Rightarrow> int option) \<Rightarrow> time \<Rightarrow> string \<Rightarrow> bool" where
  "dayOver parseDate cutoff name \<longleftrightarrow>
     (case parseDate (dayFromFileName name) of
        None \<Rightarrow> False
      | Some d \<Rightarrow> d * nsPerDay + (nsPerDay - 1) < cutoff)"

fun scanFiles :: "decoder \<Rightarrow> LogDir \<Rightarrow> (string \<Rightarrow> bool) \<Rightarrow> (Entry \<Rightarrow> bool) \<Rightarrow> int \<Rightarrow> string list \<Rightarrow> Entry list \<Rightarrow> Entry list result" where
  "scanFiles unmarshal dir stop keep limit [] results = Inr results"
| "scanFiles unmarshal dir stop keep limit (name # names) results =
     (if stop name then Inr results
      else case readFile unmarshal dir name of
        Inl err \<Rightarrow> Inl err
      | Inr entries \<Rightarrow>
          (case collect keep limit (rev entries) results of
             (results', True) \<Rightarrow> Inr results'
           | (results', False) \<Rightarrow> scanFiles unmarshal dir stop keep limit names results'))"

definition Query :: "decoder \<Rightarrow> (string \<Rightarrow> int option) \<Rightarrow> string option \<Rightarrow> LogDir \<Rightarrow> time \<Rightarrow> QueryOptions \<Rightarrow> Entry list result" where
  "Query unmarshal parseDate readErr dir now opts =
     (let cutoff = now - qoSince opts in
      case listFiles readErr dir of
        Inl err \<Rightarrow> Inl err
      | Inr names \<Rightarrow> scanFiles unmarshal dir (\<lambda>name. 0 < qoSince opts \<and> dayOver parseDate cutoff name)
                      (keepEntry opts cutoff) (qoLimit opts) (rev names) [])"

fun traceFiles :: "decoder \<Rightarrow> LogDir \<Rightarrow> string \<Rightarrow> string list \<Rightarrow> Entry list \<Rightarrow> Entry list result" where
  "traceFiles unmarshal dir traceID [] results = Inr results"
| "traceFiles unmarshal dir traceID (name # names) results =
     (case readFile unmarshal dir name of
        Inl err \<Rightarrow> Inl err
      | Inr entries \<Rightarrow> traceFiles unmarshal dir traceID names (results @ filter (\<lambda>e. enTaskTraceID e = traceID) entries))"

definition ListByTaskTrace :: "decoder \<Rightarrow> string option \<Rightarrow> LogDir \<Rightarrow> string \<Rightarrow> Entry list result" where
  "ListByTaskTrace unmarshal readErr dir traceID =
     (case listFiles readErr dir of
        Inl err \<Rightarrow> Inl err
      | Inr names \<Rightarrow> traceFiles unmarshal dir traceID names [])"

definition ListByMethod :: "decoder \<Rightarrow> string option \<Rightarrow> LogDir \<Rightarrow> string \<Rightarrow> int \<Rightarrow> Entry list result" where
  "ListByMethod unmarshal readErr dir method limit =
     (case listFiles readErr dir of
        Inl err \<Rightarrow> Inl err
      | Inr names \<Rightarrow> scanFiles unmarshal dir (\<lambda>_. False) (\<lambda>e. enMethod e = method) limit (rev names) [])"

section \<open>The timeline service\<close>

record Activity =
  acTimestamp :: time
  acType :: string
  acDescription :: string
  acTaskID :: string
  acPhase :: string
  acTraceID :: string
  acError :: string
  acDurationMs :: int

definition phaseFromMethod :: "string \<Rightarrow> string" where
  "phaseFromMethod method = (case cutChar CHR ''.'' method of Some (_, rest) \<Rightarrow> rest | None \<Rightarrow> method)"

definition descriptions :: "(string, string) gomap" where
  "descriptions =
    [(''task.start'', ''Task loaded: %s''), (''task.plan'', ''Agent started planning''),
     (''task.implement'', ''Agent started implementing''), (''task.simplify'', ''Agent started simplifying''),
     (''task.optimize'', ''Agent started optimizing''), (''task.review'', ''Entered review mode''),
     (''task.submit'', ''PR submitted''), (''task.finish'', ''Task completed''),
     (''task.undo'', ''Undid to checkpoint %s''), (''task.redo'', ''Redid to checkpoint %s''),
     (''task.abort'', ''Task aborted''), (''task.reset'', ''Task reset''),
     (''agent.connect'', ''Agent connected''), (''agent.disconnect'', ''Agent disconnected''),
     (''agent.error'', ''Agent error: %s''), (''quality.check'', ''Quality gate: %s'')]"

definition contextArg :: "Entry \<Rightarrow> string" where
  "contextArg e = (if enError e \<noteq> [] then enError e else enTaskID e)"

text \<open>\<^verbatim>\<open>fmt.Sprintf\<close> with one placeholder \<^verbatim>\<open>%s\<close>.\<close>

fun sprintf :: "string \<Rightarrow> string \<Rightarrow> string" where
  "sprintf (c # d # r) arg = (if c = CHR ''%'' \<and> d = CHR ''s'' then arg @ r else c # sprintf (d # r) arg)"
| "sprintf s arg = s"

definition describe :: "Entry \<Rightarrow> string" where
  "describe e =
     (case map_of descriptions (enMethod e) of
        None \<Rightarrow> if enError e \<noteq> [] then enMethod e @ '' (error: '' @ enError e @ '')'' else enMethod e
      | Some tmpl \<Rightarrow>
          if containsText tmpl ''%s''
          then if contextArg e = [] then enMethod e else sprintf tmpl (contextArg e)
          else tmpl)"

definition entryToActivity :: "Entry \<Rightarrow> Activity" where
  "entryToActivity e =
     \<lparr>acTimestamp = enTimestamp e, acType = enMethod e, acDescription = describe e, acTaskID = enTaskID e,
      acPhase = phaseFromMethod (enMethod e), acTraceID = enTaskTraceID e, acError = enError e,
      acDurationMs = enDurationMs e\<rparr>"

definition TaskTimeline :: "decoder \<Rightarrow> string option \<Rightarrow> LogDir \<Rightarrow> string \<Rightarrow> int \<Rightarrow> Activity list result" where
  "TaskTimeline unmarshal readErr dir traceID limit =
     (case ListByTaskTrace unmarshal readErr dir traceID of
        Inl err \<Rightarrow> Inl (''task timeline: '' @ err)
      | Inr entries \<Rightarrow>
          (let activities = map entryToActivity entries
           in Inr (if 0 < limit \<and> limit < int (length activities) then take (nat limit) activities else activities)))"

definition RecentActivity :: "decoder \<Rightarrow> (string \<Rightarrow> int option) \<Rightarrow> string option \<Rightarrow> LogDir \<Rightarrow> time \<Rightarrow> QueryOptions \<Rightarrow> Activity list result" where
  "RecentActivity unmarshal parseDate readErr dir now opts =
     (case Query unmarshal parseDate readErr dir now opts of
        Inl err \<Rightarrow> Inl (''recent activity: '' @ err)
      | Inr entries \<Rightarrow> Inr (rev (map entryToActivity entries)))"

definition countMethod :: "Entry \<Rightarrow> (string, int) gomap \<Rightarrow> (string, int) gomap" where
  "countMethod e m = AList.update (enMethod e) ((case map_of m (enMethod e) of None \<Rightarrow> 0 | Some n \<Rightarrow> n) + 1) m"

text \<open>The clock is read three times.\<close>

definition ProjectSummary :: "decoder \<Rightarrow> (string \<Rightarrow> int option) \<Rightarrow> string option \<Rightarrow> LogDir \<Rightarrow> time \<Rightarrow> time \<Rightarrow> time \<Rightarrow> time \<Rightarrow> (string, int) gomap result" where
  "ProjectSummary unmarshal parseDate readErr dir now1 now2 now3 since =
     (if now1 < since then Inr []
      else case Query unmarshal parseDate readErr dir now3
                  \<lparr>qoSince = max (now2 - since) 0, qoMethodPattern = [], qoErrorsOnly = False, qoLimit = 0\<rparr> of
        Inl err \<Rightarrow> Inl (''project summary: '' @ err)
      | Inr entries \<Rightarrow> Inr (fold countMethod entries []))"

lemma decodeLines_append: "decodeLines unmarshal (ls @ ms) = decodeLines unmarshal ls @ decodeLines unmarshal ms"
  by (simp add: decodeLines_def List.map_filter_def)

section \<open>Reference definitions\<close>

text \<open>All entries of the log, oldest file first, and the first entries up to a limit.\<close>

definition entriesOf :: "decoder \<Rightarrow> LogDir \<Rightarrow> string \<Rightarrow> Entry list" where
  "entriesOf unmarshal dir name = (case readFile unmarshal dir name of Inl _ \<Rightarrow> [] | Inr es \<Rightarrow> es)"

definition readable :: "decoder \<Rightarrow> LogDir \<Rightarrow> bool" where
  "readable unmarshal dir \<longleftrightarrow> list_all (\<lambda>name. case readFile unmarshal dir name of Inl _ \<Rightarrow> False | Inr _ \<Rightarrow> True) (logFilesSorted dir)"

definition allEntries :: "decoder \<Rightarrow> LogDir \<Rightarrow> Entry list" where
  "allEntries unmarshal dir = concat (map (entriesOf unmarshal dir) (logFilesSorted dir))"

definition upTo :: "int \<Rightarrow> 'a list \<Rightarrow> 'a list" where
  "upTo limit xs = (if 0 < limit then take (nat limit) xs else xs)"

section \<open>The loops compute the references\<close>

lemma collect_unlimited: "\<not> 0 < limit \<Longrightarrow> collect keep limit es results = (results @ filter keep es, False)"
  by (induction es arbitrary: results) auto

lemma collect_limited:
  assumes "0 < limit" and "int (length results) < limit"
  shows "collect keep limit es results =
    (take (nat limit) (results @ filter keep es), limit \<le> int (length (results @ filter keep es)))"
  using assms(2)
proof (induction es arbitrary: results)
  case (Cons e es)
  show ?case
  proof (cases "keep e \<and> limit \<le> int (length results) + 1")
    case True
    then have "length results = nat limit - 1" using Cons.prems by linarith
    with True assms show ?thesis by (simp add: take_Cons')
  qed (use Cons assms in \<open>auto simp: take_Cons'\<close>)
qed (use assms in simp)

lemma scanFiles_ref:
  assumes "list_all (\<lambda>name. case readFile unmarshal dir name of Inl _ \<Rightarrow> False | Inr _ \<Rightarrow> True) names"
    and "0 < limit \<Longrightarrow> int (length results) < limit"
  shows "scanFiles unmarshal dir stop keep limit names results =
    Inr (upTo limit (results @ filter keep (concat (map (rev \<circ> entriesOf unmarshal dir) (takeWhile (\<lambda>n. \<not> stop n) names)))))"
  using assms
proof (induction names arbitrary: results)
  case (Cons name names)
  obtain es where es: "readFile unmarshal dir name = Inr es" using Cons.prems(1) by (auto split: sum.splits)
  then have eo: "entriesOf unmarshal dir name = es" by (simp add: entriesOf_def)
  show ?case
  proof (cases "stop name \<or> \<not> 0 < limit")
    case True
    then show ?thesis using Cons es eo by (auto simp: upTo_def collect_unlimited)
  next
    case False
    show ?thesis
    proof (cases "limit \<le> int (length (results @ filter keep (rev es)))")
      case True
      with False es eo Cons.prems show ?thesis
        by (simp add: upTo_def collect_limited nat_le_iff)
    next
      case n: False
      then have "take (nat limit) (results @ filter keep (rev es)) = results @ filter keep (rev es)"
        by (intro take_all) linarith
      with n False es eo Cons show ?thesis by (simp add: collect_limited)
    qed
  qed
qed (auto simp: upTo_def)

lemma concat_rev: "concat (map (rev \<circ> f) (rev xs)) = rev (concat (map f xs))"
  by (induction xs) simp_all

lemma traceFiles_ref:
  assumes "list_all (\<lambda>name. case readFile unmarshal dir name of Inl _ \<Rightarrow> False | Inr _ \<Rightarrow> True) names"
  shows "traceFiles unmarshal dir t names results =
    Inr (results @ filter (\<lambda>e. enTaskTraceID e = t) (concat (map (entriesOf unmarshal dir) names)))"
  using assms by (induction names arbitrary: results) (auto simp: entriesOf_def split: sum.splits)

text \<open>A prefix that the loop stops at loses nothing if what follows would be filtered out.\<close>

lemma filter_concat_takeWhile:
  assumes "\<And>x. x \<in> set (dropWhile P xs) \<Longrightarrow> filter Q (f x) = []"
  shows "filter Q (concat (map f (takeWhile P xs))) = filter Q (concat (map f xs))"
proof -
  have "filter Q (concat (map f (dropWhile P xs))) = []" using assms by (auto simp: filter_concat)
  moreover have "concat (map f xs) = concat (map f (takeWhile P xs)) @ concat (map f (dropWhile P xs))"
    by (metis concat_append map_append takeWhile_dropWhile_id)
  ultimately show ?thesis by simp
qed

text \<open>
  The days of the files: every name is a date, dates are ordered as the names are, and no entry is later than the
  end, in UTC, of the day of its file.
\<close>

definition dated :: "decoder \<Rightarrow> (string \<Rightarrow> int option) \<Rightarrow> LogDir \<Rightarrow> bool" where
  "dated unmarshal parseDate dir \<longleftrightarrow>
     (\<forall>n \<in> set (logFilesSorted dir). \<exists>d. parseDate (dayFromFileName n) = Some d \<and>
        (\<forall>m \<in> set (logFilesSorted dir). \<forall>d'. m \<le> n \<longrightarrow> parseDate (dayFromFileName m) = Some d' \<longrightarrow> d' \<le> d) \<and>
        (\<forall>e \<in> set (entriesOf unmarshal dir n). enTimestamp e < (d + 1) * nsPerDay))"

lemma dated_stop:
  assumes "dated unmarshal parseDate dir" and "n \<in> set (logFilesSorted dir)" and "m \<in> set (logFilesSorted dir)"
    and "m \<le> n" and "dayOver parseDate cutoff n" and "e \<in> set (entriesOf unmarshal dir m)"
  shows "enTimestamp e < cutoff"
proof -
  obtain d where d: "parseDate (dayFromFileName n) = Some d"
    "\<And>d'. parseDate (dayFromFileName m) = Some d' \<Longrightarrow> d' \<le> d"
    using assms(1-4) unfolding dated_def by blast
  obtain d' where d': "parseDate (dayFromFileName m) = Some d'" "enTimestamp e < (d' + 1) * nsPerDay"
    using assms(1,3,6) unfolding dated_def by blast
  from d(2) [OF d'(1)] have "(d' + 1) * nsPerDay \<le> (d + 1) * nsPerDay" by (simp add: nsPerDay_def)
  moreover have "(d + 1) * nsPerDay \<le> cutoff"
    using assms(5) d(1) by (simp add: dayOver_def nsPerDay_def)
  ultimately show ?thesis using d'(2) by linarith
qed

lemma after_stop:
  assumes "sorted (rev xs)" and "x \<in> set (dropWhile (\<lambda>n. \<not> stop n) xs)"
  obtains n where "n \<in> set xs" "stop n" "x \<le> (n :: 'a :: linorder)"
  using assms
proof (induction xs)
  case (Cons y ys)
  show ?case
  proof (cases "stop y")
    case True
    with Cons.prems have "x = y \<or> x \<in> set ys" by simp
    then have "x \<le> y" using Cons.prems(2) by (auto simp: sorted_append)
    with True Cons.prems(1) [of y] show ?thesis by simp
  next
    case False
    with Cons show ?thesis by (auto simp: sorted_append)
  qed
qed simp

lemma sorted_logFiles: "sorted (logFilesSorted dir)"
  by (simp add: logFilesSorted_def)

lemma dayFromFileName_logFileName [simp]: "dayFromFileName (logFileName d) = d"
  by (simp add: dayFromFileName_def logFileName_def trimPrefix_def trimSuffix_def suffix_def)

lemma query_is_reference_core:
  assumes "readable unmarshal dir" and "0 < qoSince opts \<longrightarrow> dated unmarshal parseDate dir"
  shows "Query unmarshal parseDate None dir now opts =
    Inr (upTo (qoLimit opts) (filter (keepEntry opts (now - qoSince opts)) (rev (allEntries unmarshal dir))))"
proof -
  define stop where "stop = (\<lambda>name. 0 < qoSince opts \<and> dayOver parseDate (now - qoSince opts) name)"
  define keep where "keep = keepEntry opts (now - qoSince opts)"
  have "filter keep (concat (map (rev \<circ> entriesOf unmarshal dir) (takeWhile (\<lambda>n. \<not> stop n) (rev (logFilesSorted dir))))) =
      filter keep (concat (map (rev \<circ> entriesOf unmarshal dir) (rev (logFilesSorted dir))))"
  proof (rule filter_concat_takeWhile)
    fix m assume m: "m \<in> set (dropWhile (\<lambda>n. \<not> stop n) (rev (logFilesSorted dir)))"
    then obtain n where n: "n \<in> set (logFilesSorted dir)" "stop n" "m \<le> n"
      by (rule after_stop [rotated]) (use sorted_logFiles [of dir] in auto)
    from m have "m \<in> set (logFilesSorted dir)" by (auto dest: set_dropWhileD)
    then have "enTimestamp e < now - qoSince opts" if "e \<in> set (entriesOf unmarshal dir m)" for e
      using dated_stop [OF _ n(1) _ n(3) _ that] assms(2) n(2) by (simp add: stop_def)
    then show "filter keep ((rev \<circ> entriesOf unmarshal dir) m) = []"
      using n(2) by (auto simp: filter_empty_conv keep_def keepEntry_def stop_def)
  qed
  moreover have "list_all (\<lambda>name. case readFile unmarshal dir name of Inl _ \<Rightarrow> False | Inr _ \<Rightarrow> True) (rev (logFilesSorted dir))"
    using assms(1) by (simp add: readable_def)
  moreover have "Query unmarshal parseDate None dir now opts =
      scanFiles unmarshal dir stop keep (qoLimit opts) (rev (logFilesSorted dir)) []"
    by (simp add: Query_def listFiles_def Let_def stop_def keep_def)
  ultimately show ?thesis
    by (simp add: scanFiles_ref allEntries_def keep_def flip: concat_rev)
qed

text \<open>A decoder and a parser of dates for the witnesses: the time of an entry is the length of its line.\<close>

definition tickDecoder :: decoder where
  "tickDecoder l = Inr ((plainEntry [])\<lparr>enTimestamp := int (length l)\<rparr>)"

definition unaryParse :: "string \<Rightarrow> int option" where
  "unaryParse s = Some (int (length s))"

definition tickDir :: LogDir where
  "tickDir = [(''activity-a.jsonl'', File (fileOf [''x'', ''xx''])), (''activity-aa.jsonl'', File (fileOf [''xxx'']))]"

definition anyQuery :: QueryOptions where
  "anyQuery = \<lparr>qoSince = 0, qoMethodPattern = [], qoErrorsOnly = False, qoLimit = 2\<rparr>"

lemma tick_read: "readFile tickDecoder tickDir ''activity-a.jsonl'' =
    Inr [(plainEntry [])\<lparr>enTimestamp := 1\<rparr>, (plainEntry [])\<lparr>enTimestamp := 2\<rparr>]"
  "readFile tickDecoder tickDir ''activity-aa.jsonl'' = Inr [(plainEntry [])\<lparr>enTimestamp := 3\<rparr>]"
  by (simp_all add: readFile_def tickDir_def scanLines_fileOf okLine_def MaxScanTokenSize_def decodeLines_def
      tickDecoder_def del: fileOf_simps)

lemma tick_files: "logFilesSorted tickDir = [''activity-a.jsonl'', ''activity-aa.jsonl'']"
  by (simp add: tickDir_def log_run_files)

lemma tick_readable: "readable tickDecoder tickDir"
  by (simp add: readable_def tick_files tick_read)

lemma tick_entries: "allEntries tickDecoder tickDir = [(plainEntry [])\<lparr>enTimestamp := 1\<rparr>,
    (plainEntry [])\<lparr>enTimestamp := 2\<rparr>, (plainEntry [])\<lparr>enTimestamp := 3\<rparr>]"
  by (simp add: allEntries_def tick_files entriesOf_def tick_read)

lemma tick_dated: "dated tickDecoder unaryParse tickDir"
proof -
  have "dayFromFileName ''activity-a.jsonl'' = ''a''" "dayFromFileName ''activity-aa.jsonl'' = ''aa''"
    by code_simp+
  then show ?thesis
    by (simp add: dated_def tick_files entriesOf_def tick_read unaryParse_def nsPerDay_def)
qed

lemma tick_keep: "keepEntry (anyQuery\<lparr>qoSince := s\<rparr>) cutoff ((plainEntry [])\<lparr>enTimestamp := t\<rparr>) \<longleftrightarrow> \<not> (0 < s \<and> t < cutoff)"
  by (simp add: keepEntry_def anyQuery_def matchesMethodPattern_def)

section \<open>Properties\<close>

text \<open>
  C23: A query returns exactly the entries that pass its filters, newest first and up to its limit, if no file has a line of
  64 kB or more and, for a query with a cut-off in time, no entry is later than the end, in UTC, of the day in the name of
  its file: then stopping at the first file whose day is over loses nothing. The writer names the files by the
  day in the zone of the entry, so the second condition holds in UTC and east of it; west of it the query can miss entries.
\<close>

theorem query_is_reference:
  assumes "readable unmarshal dir" and "0 < qoSince opts \<longrightarrow> dated unmarshal parseDate dir"
  shows "Query unmarshal parseDate None dir now opts =
    Inr (upTo (qoLimit opts) (filter (keepEntry opts (now - qoSince opts)) (rev (allEntries unmarshal dir))))"
  using assms by (rule query_is_reference_core)

theorem query_is_reference_witness:
  "Query tickDecoder unaryParse None tickDir 4 (anyQuery\<lparr>qoSince := 2\<rparr>) =
    Inr [(plainEntry [])\<lparr>enTimestamp := 3\<rparr>, (plainEntry [])\<lparr>enTimestamp := 2\<rparr>]"
  using query_is_reference [OF tick_readable, of "anyQuery\<lparr>qoSince := 2\<rparr>" unaryParse 4] tick_dated
  by (simp add: tick_entries tick_keep upTo_def) (simp add: anyQuery_def)

text \<open>
  The list of a trace is all its entries, oldest first; the list of a method is its entries, newest first and up to
  the limit.
\<close>

theorem lists_are_references:
  assumes "readable unmarshal dir"
  shows "ListByTaskTrace unmarshal None dir t = Inr (filter (\<lambda>e. enTaskTraceID e = t) (allEntries unmarshal dir)) \<and>
    ListByMethod unmarshal None dir m limit =
      Inr (upTo limit (filter (\<lambda>e. enMethod e = m) (rev (allEntries unmarshal dir))))"
  using assms unfolding readable_def ListByTaskTrace_def ListByMethod_def allEntries_def concat_rev [symmetric]
  by (simp add: listFiles_def traceFiles_ref scanFiles_ref o_def takeWhile_eq_all_conv [THEN iffD2])

theorem lists_are_references_witness:
  "ListByTaskTrace tickDecoder None tickDir ''t'' = Inr [] \<and>
   ListByMethod tickDecoder None tickDir ''task.start'' 1 = Inr [(plainEntry [])\<lparr>enTimestamp := 3\<rparr>]"
  using lists_are_references [OF tick_readable, of "''t''" "''task.start''" 1]
  by (simp add: tick_entries plainEntry_def upTo_def)

text \<open>
  The feed is ordered oldest first: on a log whose entries are in the order of time, the activities that
  \<^verbatim>\<open>RecentActivity\<close> returns are in the order of time as well, although they are the newest ones.
\<close>

theorem feed_is_oldest_first:
  assumes "readable unmarshal dir" and "qoSince opts = 0" and "sorted (map enTimestamp (allEntries unmarshal dir))"
  shows "\<exists>as. RecentActivity unmarshal parseDate None dir now opts = Inr as \<and> sorted (map acTimestamp as)"
proof -
  define es where "es = upTo (qoLimit opts) (filter (keepEntry opts now) (rev (allEntries unmarshal dir)))"
  have q: "Query unmarshal parseDate None dir now opts = Inr es"
    using query_is_reference_core [OF assms(1)] assms(2) by (simp add: es_def)
  have "sorted (rev (map enTimestamp (filter (keepEntry opts now) (rev (allEntries unmarshal dir)))))"
    using sorted_filter [OF assms(3), of "keepEntry opts now"] by (simp add: rev_map rev_filter)
  then have "sorted (rev (map enTimestamp es))"
    by (simp add: es_def upTo_def take_map [symmetric] rev_take)
  moreover have "map acTimestamp (rev (map entryToActivity es)) = rev (map enTimestamp es)"
    by (simp add: rev_map entryToActivity_def o_def)
  ultimately show ?thesis by (simp add: RecentActivity_def q)
qed

theorem feed_is_oldest_first_witness:
  "\<exists>as. RecentActivity tickDecoder unaryParse None tickDir 4 anyQuery = Inr as \<and> sorted (map acTimestamp as)"
  by (rule feed_is_oldest_first [OF tick_readable]) (simp_all add: tick_entries anyQuery_def)

text \<open>
  West of UTC a query for recent entries misses entries: the name of a file is the day in the zone of the entry,
  but it is compared as a day in UTC. An entry that is not before the cut-off is left out as soon as the cut-off
  lies in the day, in UTC, of the entry.
\<close>

theorem query_misses_entries_west_of_utc:
  assumes "parseDate (entryDay dateStr e) = Some ((enTimestamp e + enZone e) div nsPerDay)"
    and "(enTimestamp e + enZone e) div nsPerDay < enTimestamp e div nsPerDay"
    and "0 < qoSince opts" and "enTimestamp e div nsPerDay * nsPerDay \<le> now - qoSince opts"
    and "now - qoSince opts \<le> enTimestamp e"
  shows "Query unmarshal parseDate None [(logFileName (entryDay dateStr e), File (fileOf [l]))] now opts = Inr []"
proof -
  define n where "n = logFileName (entryDay dateStr e)"
  have "((enTimestamp e + enZone e) div nsPerDay + 1) * nsPerDay \<le> enTimestamp e div nsPerDay * nsPerDay"
    using assms(2) by (intro mult_right_mono) (simp_all add: nsPerDay_def)
  then have "dayOver parseDate (now - qoSince opts) n"
    using assms(1,4) by (simp add: dayOver_def n_def algebra_simps)
  moreover have "logFilesSorted [(n, File (fileOf [l]))] = [n]" by (simp add: logFilesSorted_def n_def)
  ultimately show ?thesis using assms(3) by (simp add: Query_def listFiles_def flip: n_def)
qed

theorem query_misses_entries_west_of_utc_witness:
  "Query plainUnmarshal unaryParse None
     [(logFileName (entryDay unaryDate ((dayEntry 2)\<lparr>enZone := - 28800000000000\<rparr>)), File (fileOf [''p'']))]
     (2 * nsPerDay + 3600000000000) (anyQuery\<lparr>qoSince := 3600000000000\<rparr>) = Inr []"
  by (rule query_misses_entries_west_of_utc)
    (simp_all add: dayEntry_def plainEntry_def entryDay_def unaryDate_def unaryParse_def nsPerDay_def anyQuery_def)

text \<open>
  What is written can be read: an entry that the writer appends to a file of the log is read back, after the entries
  that were read before.
\<close>

theorem written_entry_is_read:
  assumes "codec_laws marshal unmarshal sha256"
    and "reachable log_init (log_step marshal sha256 dateStr maxFiles forwarder) w"
    and "wrFile w = Some (Linked name)" and "entryDay dateStr e = wrDay w"
    and "marshal (e\<lparr>enPrevHash := wrPrev w\<rparr>) = Inr l" and "length l < MaxScanTokenSize"
    and "unmarshal l = Inr (e\<lparr>enPrevHash := wrPrev w\<rparr>)"
  shows "entriesOf unmarshal (wrDir (writeEntry marshal sha256 dateStr maxFiles forwarder noFaults e w)) name =
    entriesOf unmarshal (wrDir w) name @ [e\<lparr>enPrevHash := wrPrev w\<rparr>]"
proof -
  have inv: "log_inv unmarshal sha256 w" by (rule log_inv_reachable [OF assms(1,2)])
  with assms(3) obtain ls where ls: "map_of (wrDir w) name = Some (File (fileOf ls))" "list_all okLine ls"
    by (auto simp: log_inv_def simp del: map_of_eq_Some_iff)
  have l: "okLine l" using assms(1,5,6) by (auto simp: codec_laws_def okLine_def)
  then have "l \<noteq> []" by (simp add: okLine_def)
  have "map_of (wrDir (writeEntry marshal sha256 dateStr maxFiles forwarder noFaults e w)) name = Some (File (fileOf (ls @ [l])))"
    using assms(3-5) ls(1) by (simp add: writeEntry_def enterDay_def noFaults_def)
  then show ?thesis
    using ls l assms(7) \<open>l \<noteq> []\<close> scanLines_fileOf [of "ls @ [l]"] scanLines_fileOf [OF ls(2)]
    by (simp add: entriesOf_def readFile_def decodeLines_append del: fileOf_simps) (simp add: decodeLines_def)
qed

theorem written_entry_is_read_witness:
  "entriesOf plainUnmarshal (wrDir (writeEntry plainMarshal plainSha (\<lambda>_. ''a'') 30 False noFaults (plainEntry [])
      (writeEntry plainMarshal plainSha (\<lambda>_. ''a'') 30 False noFaults (plainEntry []) (newWriter [])))) ''activity-a.jsonl'' =
   entriesOf plainUnmarshal (wrDir (writeEntry plainMarshal plainSha (\<lambda>_. ''a'') 30 False noFaults (plainEntry []) (newWriter [])))
     ''activity-a.jsonl'' @ [(plainEntry [])\<lparr>enPrevHash := demoHash\<rparr>]"
proof -
  define w where "w = writeEntry plainMarshal plainSha (\<lambda>_. ''a'') 30 False noFaults (plainEntry []) (newWriter [])"
  have w: "wrFile w = Some (Linked ''activity-a.jsonl'')" "wrDay w = ''a''" "wrPrev w = demoHash"
    by (simp_all add: w_def log_run entryDay_def plainEntry_def)
  have "reachable log_init (log_step plainMarshal plainSha (\<lambda>_. ''a'') 30 False) w"
    unfolding w_def
    by (rule reach_step [where step = "log_step plainMarshal plainSha (\<lambda>_. ''a'') 30 False", OF reach_init log_step.entry])
      (auto simp: log_init_def log_run entryDay_def plainEntry_def MaxScanTokenSize_def split: if_splits)
  from written_entry_is_read [OF plain_codec this w(1), of "plainEntry []" secondLine] w
  have "entriesOf plainUnmarshal (wrDir (writeEntry plainMarshal plainSha (\<lambda>_. ''a'') 30 False noFaults (plainEntry []) w))
      ''activity-a.jsonl'' = entriesOf plainUnmarshal (wrDir w) ''activity-a.jsonl'' @ [(plainEntry [])\<lparr>enPrevHash := demoHash\<rparr>]"
    by (simp add: entryDay_def plainMarshal_def MaxScanTokenSize_def plainEntry_def secondLine_def log_run_names)
  then show ?thesis unfolding w_def .
qed

text \<open>
  A line that does not fit the scanner's buffer makes its whole file unreadable, and every list that needs the
  file an error: the writer has no limit for the length of a line.
\<close>

theorem oversized_line_hides_log:
  assumes "name \<in> set (logFilesSorted dir)"
    and "map_of dir name = Some (File (fileOf ls @ l @ [CHR 0x0A] @ rest))" and "list_all okLine ls"
    and "CHR 0x0A \<notin> set l" and "MaxScanTokenSize \<le> length l"
  shows "\<exists>err. ListByTaskTrace unmarshal None dir t = Inl err"
proof -
  have "takeWhile (\<lambda>c. c \<noteq> CHR 0x0A) (l @ CHR 0x0A # rest) = l"
    using assms(4) by (subst takeWhile_append2) auto
  then have "snd (scanLines (l @ CHR 0x0A # rest))"
    using assms(5) by (subst scanLines.simps) simp
  then have "snd (scanLines (fileOf ls @ l @ CHR 0x0A # rest))"
    using assms(3) by (induction ls) (auto simp: scanLines_Cons split: prod.splits)
  then obtain err where bad: "readFile unmarshal dir name = Inl err"
    using assms(2) by (cases "scanLines (fileOf ls @ l @ CHR 0x0A # rest)") (simp add: readFile_def)
  have "\<exists>err. traceFiles unmarshal dir t names results = Inl err" if "name \<in> set names" for names results
    using that bad by (induction names arbitrary: results) (auto split: sum.splits)
  then show ?thesis using assms(1) by (simp add: ListByTaskTrace_def listFiles_def)
qed

theorem oversized_line_hides_log_witness:
  "\<exists>err. ListByTaskTrace plainUnmarshal None
     [(''activity-a.jsonl'', File (fileOf [''p''] @ replicate 65536 CHR ''x'' @ [CHR 0x0A] @ []))] ''t'' = Inl err"
  by (rule oversized_line_hides_log [where ls = "[''p'']" and l = "replicate 65536 CHR ''x''" and rest = "[]"])
    (simp_all add: log_run_files okLine_def MaxScanTokenSize_def)

end
