(* ===== verification/Findings_Gates.thy ===== *)
theory Findings_Gates
  imports Findings
begin

text \<open>What the gates and profiles decide.\<close>

section \<open>Counts and scores\<close>

lemma countAt_pos: "0 < countAt level fs \<longleftrightarrow> (\<exists>f \<in> set fs. fnSeverity f = level)"
  by (auto simp: countAt_def filter_empty_conv)

lemma countAt_mono: "mset fs \<subseteq># mset gs \<Longrightarrow> countAt level fs \<le> countAt level gs"
  unfolding countAt_def by (metis multiset_filter_mono mset_filter size_mset size_mset_mono)

lemma weight_nonneg: "0 \<le> weight s"
  by (simp add: weight_def)

lemma foldl_minus: "foldl (\<lambda>score f. score - w f) (a :: int) fs = a - sum_list (map w fs)"
  by (induction fs arbitrary: a) simp_all

lemma Score_eq: "Score fs = max 0 (100 - sum_list (map (weight \<circ> fnSeverity) fs))"
  by (simp add: Score_def foldl_minus o_def Let_def)

lemma sum_weights_mono:
  assumes "mset fs \<subseteq># mset gs"
  shows "sum_list (map (weight \<circ> fnSeverity) fs) \<le> sum_list (map (weight \<circ> fnSeverity) gs)"
proof -
  obtain M where M: "mset gs = mset fs + M" using assms by (metis subset_mset.le_iff_add)
  have "sum_list (map (weight \<circ> fnSeverity) gs) =
      sum_list (map (weight \<circ> fnSeverity) fs) + (\<Sum>f\<in>#M. weight (fnSeverity f))"
    by (simp add: M o_def flip: sum_mset_sum_list)
  moreover have "0 \<le> (\<Sum>f\<in>#M. weight (fnSeverity f))"
    by (induction M) (simp_all add: weight_nonneg)
  ultimately show ?thesis by linarith
qed

lemma Score_mono: "mset fs \<subseteq># mset gs \<Longrightarrow> Score gs \<le> Score fs"
  using sum_weights_mono [of fs gs] by (simp add: Score_eq)

section \<open>When a rule blocks\<close>

lemma FilterIntroduced_mono: "mset fs \<subseteq># mset gs \<Longrightarrow> mset (FilterIntroduced fs) \<subseteq># mset (FilterIntroduced gs)"
  unfolding FilterIntroduced_def by (simp add: multiset_filter_mono)

lemma any_blocks: "evaluateRule fmt (AnySeverity level) fs \<noteq> [] \<longleftrightarrow> 0 < countAt level fs"
  by (simp add: countAt_def)

lemma max_blocks: "evaluateRule fmt (MaxCount level n) fs \<noteq> [] \<longleftrightarrow> n < int (countAt level fs)"
  by (simp add: Let_def)

lemma min_blocks: "evaluateRule fmt (MinScore t) fs \<noteq> [] \<longleftrightarrow> rat_of_int (Score fs) < t"
  by (simp add: Let_def)

lemmas rule_blocks = any_blocks max_blocks min_blocks

lemma rule_monotone:
  "evaluateRule fmt r fs \<noteq> [] \<Longrightarrow> mset fs \<subseteq># mset gs \<Longrightarrow> evaluateRule fmt r gs \<noteq> []"
proof (induction r arbitrary: fs gs)
  case (AnySeverity level)
  then show ?case using countAt_mono [of fs gs level] unfolding any_blocks by linarith
next
  case (MaxCount level n)
  then show ?case using countAt_mono [of fs gs level] unfolding max_blocks by linarith
next
  case (MinScore t)
  then have "rat_of_int (Score gs) \<le> rat_of_int (Score fs)" using Score_mono by (simp only: of_int_le_iff)
  with MinScore show ?case unfolding min_blocks by linarith
next
  case (HoldTheLine r)
  then show ?case using FilterIntroduced_mono by fastforce
qed

lemma Evaluate_blocks: "Evaluate fmt gates fs \<noteq> [] \<longleftrightarrow> (\<exists>g \<in> set gates. evaluateRule fmt g fs \<noteq> [])"
  by (simp add: Evaluate_def)

lemma HasBlockers_iff: "HasBlockers fmt p fs \<longleftrightarrow> (\<exists>g \<in> set (pfGates p). evaluateRule fmt g fs \<noteq> [])"
  using Evaluate_blocks by (auto simp: HasBlockers_def)

lemma Quick_blocks: "HasBlockers fmt Quick fs \<longleftrightarrow> 0 < countAt SeverityCritical fs"
  by (simp add: HasBlockers_iff Quick_def any_blocks del: evaluateRule.simps)

lemma Standard_blocks: "HasBlockers fmt Standard fs \<longleftrightarrow> 0 < countAt SeverityCritical fs \<or> 0 < countAt SeverityHigh fs"
  by (simp add: HasBlockers_iff Standard_def any_blocks del: evaluateRule.simps)

lemma Strict_blocks:
  "HasBlockers fmt Strict fs \<longleftrightarrow> 0 < countAt SeverityCritical fs \<or> 0 < countAt SeverityHigh fs \<or> 3 < countAt SeverityMedium fs"
  by (simp add: HasBlockers_iff Strict_def rule_blocks del: evaluateRule.simps)

section \<open>The diff\<close>

text \<open>A finding that the diff proves to be older than the change.\<close>

definition preExisting :: "(string \<rightharpoonup> LineRange list) \<Rightarrow> Finding \<Rightarrow> bool" where
  "preExisting diffHunks f \<longleftrightarrow> fnFile f \<noteq> [] \<and> fnLine f \<noteq> 0 \<and>
     (case diffHunks (fnFile f) of None \<Rightarrow> True | Some hunks \<Rightarrow> \<not> lineInHunks (fnLine f) hunks)"

lemma classifyOne_origin:
  "fnOrigin (classifyOne diffHunks f) = OriginIntroduced \<or> fnOrigin (classifyOne diffHunks f) = OriginUnknown \<longleftrightarrow>
   \<not> preExisting diffHunks f"
  by (auto simp: classifyOne_def preExisting_def origins split: option.splits)

lemma FilterIntroduced_Classify:
  "FilterIntroduced (ClassifyByDiff fs diffHunks) = map (classifyOne diffHunks) (filter (\<lambda>f. \<not> preExisting diffHunks f) fs)"
  by (simp add: FilterIntroduced_def ClassifyByDiff_def filter_map o_def classifyOne_origin)

lemma classifyOne_severity [simp]: "fnSeverity (classifyOne diffHunks f) = fnSeverity f"
  by (simp add: classifyOne_def split: option.splits)

lemma countAt_Classify:
  "countAt level (map (classifyOne diffHunks) fs) = countAt level fs"
  by (simp add: countAt_def filter_map o_def)

section \<open>Properties\<close>

text \<open>
  The three profiles. Before a submission a critical or a high finding or more than three medium ones block, in a
  review a critical or a high one, during an implementation a critical one; so whatever blocks an earlier phase
  blocks a later one.
\<close>

theorem profiles_decide:
  "(HasBlockers fmt (ForPhase ''implement'') fs \<longleftrightarrow> (\<exists>f \<in> set fs. fnSeverity f = SeverityCritical)) \<and>
   (HasBlockers fmt (ForPhase ''review'') fs \<longleftrightarrow> (\<exists>f \<in> set fs. fnSeverity f \<in> {SeverityCritical, SeverityHigh})) \<and>
   (HasBlockers fmt (ForPhase ''submit'') fs \<longleftrightarrow>
      (\<exists>f \<in> set fs. fnSeverity f \<in> {SeverityCritical, SeverityHigh}) \<or> 3 < countAt SeverityMedium fs)"
  unfolding ForPhase_def by (simp add: Quick_blocks Standard_blocks Strict_blocks countAt_pos) blast

text \<open>
  A gate only gets stricter with more findings: what blocks a set of findings blocks every larger one, for every
  rule, however the rules are nested, and whatever the order of the findings.
\<close>

theorem gates_are_monotone:
  assumes "Evaluate fmt gates fs \<noteq> []" and "mset fs \<subseteq># mset gs"
  shows "Evaluate fmt gates gs \<noteq> []"
  using assms rule_monotone unfolding Evaluate_blocks by blast

theorem gates_are_monotone_witness:
  "Evaluate (\<lambda>_. []) [HoldTheLine (AnySeverity 0)] [zeroFinding, zeroFinding\<lparr>fnOrigin := ''introduced''\<rparr>] \<noteq> []"
  by (rule gates_are_monotone [of _ _ "[zeroFinding\<lparr>fnOrigin := ''introduced''\<rparr>]"])
    (simp_all add: Evaluate_def FilterIntroduced_def zeroFinding_def origins)

text \<open>The score is a number from 0 to 100, and does not depend on the order of the findings.\<close>

theorem score_in_range:
  "0 \<le> Score fs \<and> Score fs \<le> 100 \<and> (mset fs = mset gs \<longrightarrow> Score fs = Score gs)"
proof -
  have "0 \<le> sum_list (map (weight \<circ> fnSeverity) fs)" by (rule sum_list_nonneg) (auto simp: weight_nonneg)
  then show ?thesis using Score_mono [of fs gs] Score_mono [of gs fs] by (auto simp: Score_eq)
qed

theorem score_in_range_witness:
  "Score [zeroFinding, zeroFinding\<lparr>fnSeverity := 1\<rparr>] = Score [zeroFinding\<lparr>fnSeverity := 1\<rparr>, zeroFinding]"
  using score_in_range [of "[zeroFinding, zeroFinding\<lparr>fnSeverity := 1\<rparr>]" "[zeroFinding\<lparr>fnSeverity := 1\<rparr>, zeroFinding]"]
  by (simp add: add_mset_commute)

text \<open>
  Holding the line: after the classification by the diff a gate sees exactly the findings that the diff does not
  prove to be older than the change. In particular a severity blocks if and only if some finding of that severity
  is in a changed line or has no location.
\<close>

theorem hold_the_line_ignores_old_findings:
  "evaluateRule fmt (HoldTheLine r) (ClassifyByDiff fs diffHunks) =
     evaluateRule fmt r (ClassifyByDiff (filter (\<lambda>f. \<not> preExisting diffHunks f) fs) diffHunks) \<and>
   (evaluateRule fmt (HoldTheLine (AnySeverity level)) (ClassifyByDiff fs diffHunks) \<noteq> [] \<longleftrightarrow>
     (\<exists>f \<in> set fs. fnSeverity f = level \<and> \<not> preExisting diffHunks f))"
proof -
  have "evaluateRule fmt (HoldTheLine (AnySeverity level)) (ClassifyByDiff fs diffHunks) \<noteq> [] \<longleftrightarrow>
      0 < countAt level (filter (\<lambda>f. \<not> preExisting diffHunks f) fs)"
    by (simp only: evaluateRule.simps(4) any_blocks FilterIntroduced_Classify countAt_Classify)
  moreover have "evaluateRule fmt (HoldTheLine r) (ClassifyByDiff fs diffHunks) =
      evaluateRule fmt r (ClassifyByDiff (filter (\<lambda>f. \<not> preExisting diffHunks f) fs) diffHunks)"
    by (simp add: FilterIntroduced_Classify) (simp add: ClassifyByDiff_def)
  ultimately show ?thesis by (auto simp: countAt_pos)
qed

end
