(* ===== verification/Findings_Merge.thy ===== *)
theory Findings_Merge
  imports Findings_Gates
begin

text \<open>Merging the findings of several agents: what is merged, what is kept apart, and what is lost.\<close>

section \<open>One step\<close>

lemma near_commute: "near a b \<longleftrightarrow> near b a"
  by (auto simp: near_def)

lemma markNear_None: "markNear agent line ms = None \<longleftrightarrow> (\<forall>m \<in> set ms. \<not> near (fnLine (mgFinding m)) line)"
  by (induction ms) auto

lemma markNear_findings: "markNear agent line ms = Some ms' \<Longrightarrow> map mgFinding ms' = map mgFinding ms"
  by (induction ms arbitrary: ms') (auto split: if_splits)

lemma markNear_new:
  "markNear agent line ms = Some ms' \<Longrightarrow> \<exists>m \<in> set ms'. near (fnLine (mgFinding m)) line \<and> agent \<in> set (mgDetectedBy m)"
  by (induction ms arbitrary: ms') (auto split: if_splits)

lemma markNear_old:
  assumes "markNear agent line ms = Some ms'" and "m \<in> set ms"
  shows "\<exists>m' \<in> set ms'. mgFinding m' = mgFinding m \<and> set (mgDetectedBy m) \<subseteq> set (mgDetectedBy m')"
  using assms by (induction ms arbitrary: ms') (fastforce split: if_splits)+

lemma markNear_back:
  assumes "markNear agent line ms = Some ms'" and "m' \<in> set ms'"
  shows "\<exists>m \<in> set ms. mgFinding m' = mgFinding m \<and>
    (mgDetectedBy m' = mgDetectedBy m \<or> mgDetectedBy m' = List.insert agent (mgDetectedBy m) \<and> near (fnLine (mgFinding m)) line)"
  using assms by (induction ms arbitrary: ms') (fastforce split: if_splits)+

section \<open>The invariant\<close>

abbreviation apart :: "merged list \<Rightarrow> bool" where
  "apart ms \<equiv> sorted_wrt (\<lambda>m m'. \<not> near (fnLine (mgFinding m)) (fnLine (mgFinding m'))) ms"

text \<open>An entry for a key: it is one of the findings that were added, and its agents have a finding near it.\<close>

definition entry_ok :: "(string \<times> Finding) list \<Rightarrow> string \<Rightarrow> merged \<Rightarrow> bool" where
  "entry_ok added key m \<longleftrightarrow> dedupKey (mgFinding m) = key \<and> mgDetectedBy m \<noteq> [] \<and> distinct (mgDetectedBy m) \<and>
     (\<exists>(agent, f) \<in> set added. mgFinding m = f\<lparr>fnDetectedBy := []\<rparr>) \<and>
     (\<forall>agent \<in> set (mgDetectedBy m). \<exists>f. (agent, f) \<in> set added \<and> dedupKey f = key \<and> near (fnLine (mgFinding m)) (fnLine f))"

definition dedup_inv :: "(string \<times> Finding) list \<Rightarrow> dedupState \<Rightarrow> bool" where
  "dedup_inv added s \<longleftrightarrow>
     distinct (dsOrder s) \<and>
     (\<forall>key. (key \<in> set (dsOrder s) \<longleftrightarrow> entriesFor key (dsByKey s) \<noteq> []) \<and> apart (entriesFor key (dsByKey s)) \<and>
        (\<forall>m \<in> set (entriesFor key (dsByKey s)). entry_ok added key m)) \<and>
     (\<forall>(agent, f) \<in> set added. \<exists>m \<in> set (entriesFor (dedupKey f) (dsByKey s)).
        near (fnLine (mgFinding m)) (fnLine f) \<and> agent \<in> set (mgDetectedBy m))"

lemma entriesFor_update: "entriesFor k (AList.update key ms m) = (if k = key then ms else entriesFor k m)"
  by (simp add: entriesFor_def)

lemma entry_ok_mono: "entry_ok added key m \<Longrightarrow> entry_ok (added @ later) key m"
  unfolding entry_ok_def by fastforce

lemma dedupKey_DetectedBy [simp]: "dedupKey (f\<lparr>fnDetectedBy := ds\<rparr>) = dedupKey f"
  by (simp add: dedupKey_def)

lemma fnLine_DetectedBy: "fnLine (f\<lparr>fnDetectedBy := ds\<rparr>) = fnLine f"
  by simp

lemma near_refl [simp]: "near a a"
  by (simp add: near_def lineTolerance_def)

lemma entry_ok_new: "entry_ok (added @ [(agent, f)]) (dedupKey f) \<lparr>mgFinding = f\<lparr>fnDetectedBy := []\<rparr>, mgDetectedBy = [agent]\<rparr>"
  by (auto simp: entry_ok_def)

lemma entry_ok_mark:
  assumes "entry_ok added (dedupKey f) m" and "mgFinding m' = mgFinding m"
    and "mgDetectedBy m' = mgDetectedBy m \<or> mgDetectedBy m' = List.insert agent (mgDetectedBy m) \<and> near (fnLine (mgFinding m)) (fnLine f)"
  shows "entry_ok (added @ [(agent, f)]) (dedupKey f) m'"
proof -
  have m: "entry_ok (added @ [(agent, f)]) (dedupKey f) m" using assms(1) by (rule entry_ok_mono)
  have new: "(agent, f) \<in> set (added @ [(agent, f)])" by simp
  from assms(3) show ?thesis
  proof
    assume "mgDetectedBy m' = mgDetectedBy m"
    then show ?thesis using m assms(2) by (simp add: entry_ok_def)
  next
    assume d: "mgDetectedBy m' = List.insert agent (mgDetectedBy m) \<and> near (fnLine (mgFinding m)) (fnLine f)"
    then have "mgDetectedBy m' \<noteq> []" by (metis empty_iff insert_iff list.set(1) set_insert)
    with m d new show ?thesis unfolding entry_ok_def assms(2) by (simp only: set_insert distinct_insert) blast
  qed
qed

lemma dedup_invI:
  assumes "distinct (dsOrder s)" and "\<And>k. k \<in> set (dsOrder s) \<longleftrightarrow> entriesFor k (dsByKey s) \<noteq> []"
    and "\<And>k. apart (entriesFor k (dsByKey s))"
    and "\<And>k m. m \<in> set (entriesFor k (dsByKey s)) \<Longrightarrow> entry_ok added k m"
    and "\<And>a g. (a, g) \<in> set added \<Longrightarrow> \<exists>m \<in> set (entriesFor (dedupKey g) (dsByKey s)).
        near (fnLine (mgFinding m)) (fnLine g) \<and> a \<in> set (mgDetectedBy m)"
  shows "dedup_inv added s"
  using assms unfolding dedup_inv_def by blast

lemma dedup_inv_add:
  assumes "dedup_inv added s"
  shows "dedup_inv (added @ [(agent, f)]) (addFinding agent f s)"
proof -
  define key where "key = dedupKey f"
  define ms where "ms = entriesFor key (dsByKey s)"
  have ord: "distinct (dsOrder s)" "\<And>k. k \<in> set (dsOrder s) \<longleftrightarrow> entriesFor k (dsByKey s) \<noteq> []"
    and ap: "\<And>k. apart (entriesFor k (dsByKey s))"
    and ok: "\<And>k m. m \<in> set (entriesFor k (dsByKey s)) \<Longrightarrow> entry_ok added k m"
    and cov: "\<And>a g. (a, g) \<in> set added \<Longrightarrow> \<exists>m \<in> set (entriesFor (dedupKey g) (dsByKey s)).
        near (fnLine (mgFinding m)) (fnLine g) \<and> a \<in> set (mgDetectedBy m)"
    using assms unfolding dedup_inv_def by blast+
  show ?thesis
  proof (cases "markNear agent (fnLine f) ms")
    case None
    define m where "m = \<lparr>mgFinding = f\<lparr>fnDetectedBy := []\<rparr>, mgDetectedBy = [agent]\<rparr>"
    have s': "addFinding agent f s = s\<lparr>dsOrder := (if ms = [] then dsOrder s @ [key] else dsOrder s),
        dsByKey := AList.update key (ms @ [m]) (dsByKey s)\<rparr>"
      using None by (simp add: addFinding_def Let_def m_def flip: key_def ms_def)
    have look: "entriesFor k (dsByKey (addFinding agent f s)) = (if k = key then ms @ [m] else entriesFor k (dsByKey s))" for k
      by (simp add: s' entriesFor_update)
    have "apart (ms @ [m])"
      using ap [of key] None by (auto simp: sorted_wrt_append m_def markNear_None simp flip: ms_def)
    then have "apart (entriesFor k (dsByKey (addFinding agent f s)))" for k using ap by (simp add: look)
    moreover have "entry_ok (added @ [(agent, f)]) k x" if "x \<in> set (entriesFor k (dsByKey (addFinding agent f s)))" for k x
      using that ok [of x k] entry_ok_new [of added agent f]
      by (auto simp: look entry_ok_mono key_def m_def ms_def split: if_splits)
    moreover have "\<exists>x \<in> set (entriesFor (dedupKey g) (dsByKey (addFinding agent f s))).
        near (fnLine (mgFinding x)) (fnLine g) \<and> a \<in> set (mgDetectedBy x)" if "(a, g) \<in> set (added @ [(agent, f)])" for a g
    proof (cases "(a, g) = (agent, f)")
      case True
      then show ?thesis by (auto simp: look key_def m_def)
    next
      case False
      with that have "(a, g) \<in> set added" by auto
      from cov [OF this] show ?thesis by (auto simp: look ms_def)
    qed
    moreover have "distinct (dsOrder (addFinding agent f s))"
      "\<And>k. k \<in> set (dsOrder (addFinding agent f s)) \<longleftrightarrow> entriesFor k (dsByKey (addFinding agent f s)) \<noteq> []"
      using ord ord(2) [of key] unfolding look by (auto simp: s' ms_def)
    ultimately show ?thesis by (intro dedup_invI)
  next
    case (Some ms')
    have s': "addFinding agent f s = s\<lparr>dsByKey := AList.update key ms' (dsByKey s)\<rparr>"
      using Some by (simp add: addFinding_def Let_def flip: key_def ms_def)
    have look: "entriesFor k (dsByKey (addFinding agent f s)) = (if k = key then ms' else entriesFor k (dsByKey s))" for k
      by (simp add: s' entriesFor_update)
    have fm: "map mgFinding ms' = map mgFinding ms" by (rule markNear_findings [OF Some])
    then have "map (fnLine \<circ> mgFinding) ms' = map (fnLine \<circ> mgFinding) ms" by (metis map_map)
    moreover have "apart xs \<longleftrightarrow> sorted_wrt (\<lambda>a b. \<not> near a b) (map (fnLine \<circ> mgFinding) xs)" for xs
      by (simp add: sorted_wrt_map)
    ultimately have "apart ms'" using ap [of key] by (simp flip: ms_def)
    then have "apart (entriesFor k (dsByKey (addFinding agent f s)))" for k using ap by (simp add: look)
    moreover have "ms' = [] \<longleftrightarrow> ms = []" using fm by (metis Nil_is_map_conv)
    then have "k \<in> set (dsOrder (addFinding agent f s)) \<longleftrightarrow> entriesFor k (dsByKey (addFinding agent f s)) \<noteq> []" for k
      using ord(2) [of k] unfolding look by (simp add: s' ms_def)
    moreover have "distinct (dsOrder (addFinding agent f s))" using ord(1) by (simp add: s')
    moreover have "entry_ok (added @ [(agent, f)]) k x" if "x \<in> set (entriesFor k (dsByKey (addFinding agent f s)))" for k x
    proof (cases "k = key")
      case True
      with that have "x \<in> set ms'" by (simp add: look)
      from markNear_back [OF Some this] obtain m where "m \<in> set ms" "mgFinding x = mgFinding m"
        "mgDetectedBy x = mgDetectedBy m \<or> mgDetectedBy x = List.insert agent (mgDetectedBy m) \<and> near (fnLine (mgFinding m)) (fnLine f)" by blast
      with ok [of m key] True show ?thesis by (simp add: ms_def key_def entry_ok_mark)
    qed (use that ok entry_ok_mono in \<open>auto simp: look\<close>)
    moreover have "\<exists>x \<in> set (entriesFor (dedupKey g) (dsByKey (addFinding agent f s))).
        near (fnLine (mgFinding x)) (fnLine g) \<and> a \<in> set (mgDetectedBy x)" if "(a, g) \<in> set (added @ [(agent, f)])" for a g
    proof (cases "(a, g) = (agent, f)")
      case True
      then show ?thesis using markNear_new [OF Some] by (simp add: look key_def)
    next
      case False
      with that have "(a, g) \<in> set added" by auto
      from cov [OF this] obtain m where m: "m \<in> set (entriesFor (dedupKey g) (dsByKey s))"
        "near (fnLine (mgFinding m)) (fnLine g)" "a \<in> set (mgDetectedBy m)" by blast
      show ?thesis
      proof (cases "dedupKey g = key")
        case True
        with m(1) have "m \<in> set ms" by (simp add: ms_def)
        from markNear_old [OF Some this] obtain m' where "m' \<in> set ms'" "mgFinding m' = mgFinding m"
          "set (mgDetectedBy m) \<subseteq> set (mgDetectedBy m')" by blast
        with m(2,3) True show ?thesis by (intro bexI [of _ m']) (auto simp: look)
      qed (use m in \<open>auto simp: look\<close>)
    qed
    ultimately show ?thesis by (intro dedup_invI)
  qed
qed

section \<open>The whole merge\<close>

text \<open>The findings in the order in which they are added.\<close>

definition allFindings :: "(string, Finding list) gomap \<Rightarrow> (string \<times> Finding) list" where
  "allFindings groups = concat (map (\<lambda>agent. map (Pair agent) (case map_of groups agent of None \<Rightarrow> [] | Some fs \<Rightarrow> fs))
     (sort (map fst groups)))"

lemma dedup_inv_agent:
  assumes "dedup_inv added s"
  shows "dedup_inv (added @ map (Pair agent) fs) (fold (addFinding agent) fs s)"
  using assms
proof (induction fs arbitrary: added s)
  case (Cons f fs)
  from Cons.IH [OF dedup_inv_add [OF Cons.prems]] show ?case by simp
qed simp

lemma dedup_inv_agents:
  assumes "dedup_inv added s"
  shows "dedup_inv (added @ concat (map (\<lambda>agent. map (Pair agent) (case map_of groups agent of None \<Rightarrow> [] | Some fs \<Rightarrow> fs)) agents))
    (fold (addAgent groups) agents s)"
  using assms
proof (induction agents arbitrary: added s)
  case (Cons a agents)
  from Cons.IH [OF dedup_inv_agent [OF Cons.prems]] show ?case by (simp add: addAgent_def)
qed simp

definition mergedState :: "(string, Finding list) gomap \<Rightarrow> dedupState" where
  "mergedState groups = fold (addAgent groups) (sort (map fst groups)) \<lparr>dsByKey = [], dsOrder = []\<rparr>"

lemma mergedState_inv: "dedup_inv (allFindings groups) (mergedState groups)"
proof -
  have "dedup_inv [] \<lparr>dsByKey = [], dsOrder = []\<rparr>" by (simp add: dedup_inv_def entriesFor_def)
  from dedup_inv_agents [OF this, of groups] show ?thesis by (simp add: mergedState_def allFindings_def)
qed

lemma set_Deduplicate:
  "g \<in> set (DeduplicateFindings groups) \<longleftrightarrow>
   (\<exists>key. \<exists>m \<in> set (entriesFor key (dsByKey (mergedState groups))). g = finishMerged m)"
proof -
  have "key \<in> set (dsOrder (mergedState groups)) \<longleftrightarrow> entriesFor key (dsByKey (mergedState groups)) \<noteq> []" for key
    using mergedState_inv [of groups] by (simp add: dedup_inv_def)
  then show ?thesis by (force simp: DeduplicateFindings_def mergedState_def [symmetric] Let_def)
qed

lemma allFindings_mem:
  "(agent, f) \<in> set (allFindings groups) \<longleftrightarrow> (\<exists>fs. map_of groups agent = Some fs \<and> f \<in> set fs)"
proof -
  have "(agent, f) \<in> set (allFindings groups) \<longleftrightarrow>
      agent \<in> fst ` set groups \<and> f \<in> set (case map_of groups agent of None \<Rightarrow> [] | Some fs \<Rightarrow> fs)"
    by (auto simp: allFindings_def)
  then show ?thesis by (auto simp flip: dom_map_of_conv_image_fst split: option.splits)
qed

lemma finishMerged_fields [simp]:
  "fnLine (finishMerged m) = fnLine (mgFinding m)" "dedupKey (finishMerged m) = dedupKey (mgFinding m)"
  "set (fnDetectedBy (finishMerged m)) = set (mgDetectedBy m)"
  by (simp_all add: finishMerged_def)

lemma sorted_wrt_concat_keys:
  assumes "distinct keys" and "\<And>k. k \<in> set keys \<Longrightarrow> sorted_wrt R (F k)" and "\<And>k x. k \<in> set keys \<Longrightarrow> x \<in> set (F k) \<Longrightarrow> key x = k"
  shows "sorted_wrt (\<lambda>x y. key x = key y \<longrightarrow> R x y) (concat (map F keys))"
  using assms
proof (induction keys)
  case (Cons k keys)
  have "sorted_wrt (\<lambda>x y. key x = key y \<longrightarrow> R x y) (F k)"
    using Cons.prems(2) [of k] by (auto intro: sorted_wrt_mono_rel)
  moreover have "key x \<noteq> key y" if "x \<in> set (F k)" "j \<in> set keys" "y \<in> set (F j)" for x y j
    using that Cons.prems(1) Cons.prems(3) [of k x] Cons.prems(3) [of j y] by auto
  ultimately show ?case using Cons by (auto simp: sorted_wrt_append)
qed simp

text \<open>Two findings for the same key are never within the tolerance of each other.\<close>

lemma Deduplicate_apart:
  "sorted_wrt (\<lambda>g h. dedupKey g = dedupKey h \<longrightarrow> \<not> near (fnLine g) (fnLine h)) (DeduplicateFindings groups)"
proof -
  define s where "s = mergedState groups"
  have inv: "dedup_inv (allFindings groups) s" unfolding s_def by (rule mergedState_inv)
  have "sorted_wrt (\<lambda>g h. \<not> near (fnLine g) (fnLine h)) (map finishMerged (entriesFor k (dsByKey s)))" for k
    using inv by (simp add: dedup_inv_def sorted_wrt_map)
  moreover have "dedupKey g = k" if "g \<in> set (map finishMerged (entriesFor k (dsByKey s)))" for g k
    using inv that by (auto simp: dedup_inv_def entry_ok_def)
  moreover have "distinct (dsOrder s)" using inv by (simp add: dedup_inv_def)
  ultimately have "sorted_wrt (\<lambda>g h. dedupKey g = dedupKey h \<longrightarrow> \<not> near (fnLine g) (fnLine h))
      (concat (map (\<lambda>key. map finishMerged (entriesFor key (dsByKey s))) (dsOrder s)))"
    by (intro sorted_wrt_concat_keys) auto
  then show ?thesis by (simp add: DeduplicateFindings_def Let_def s_def mergedState_def)
qed

lemma Deduplicate_origin:
  assumes "g \<in> set (DeduplicateFindings groups)"
  shows "\<exists>agent fs f. map_of groups agent = Some fs \<and> f \<in> set fs \<and> g = f\<lparr>fnDetectedBy := fnDetectedBy g\<rparr>"
proof -
  obtain key m where m: "m \<in> set (entriesFor key (dsByKey (mergedState groups)))" and g: "g = finishMerged m"
    using assms by (auto simp: set_Deduplicate)
  have "entry_ok (allFindings groups) key m" using mergedState_inv [of groups] m unfolding dedup_inv_def by blast
  then obtain agent f where "(agent, f) \<in> set (allFindings groups)" "mgFinding m = f\<lparr>fnDetectedBy := []\<rparr>"
    unfolding entry_ok_def by blast
  then show ?thesis by (auto simp: allFindings_mem g finishMerged_def)
qed

section \<open>Reviews of agents\<close>

text \<open>\<^verbatim>\<open>strings.SplitN(s, ":", n)\<close>, \<^verbatim>\<open>strings.Fields\<close> and \<^verbatim>\<open>fmt.Sscanf(s, "%d", &n)\<close>.\<close>

fun splitN :: "nat \<Rightarrow> char \<Rightarrow> string \<Rightarrow> string list" where
  "splitN (Suc (Suc n)) c s =
     (case cutChar c s of None \<Rightarrow> [s] | Some (a, b) \<Rightarrow> a # splitN (Suc n) c b)"
| "splitN n c s = [s]"

function fields :: "string \<Rightarrow> string list" where
  "fields s =
     (let t = dropWhile isSpace s in
      if t = [] then [] else takeWhile (\<lambda>c. \<not> isSpace c) t # fields (dropWhile (\<lambda>c. \<not> isSpace c) t))"
  by pat_completeness auto
termination
proof (relation "measure length", goal_cases)
  case (2 s t)
  then have "\<not> isSpace (hd t)" by (metis hd_dropWhile)
  moreover obtain a ts where t: "t = a # ts" using 2(2) by (cases t) auto
  ultimately have "length (dropWhile (\<lambda>c. \<not> isSpace c) t) < length t"
    by (simp add: t le_imp_less_Suc length_dropWhile_le)
  moreover have "length t \<le> length s" using 2 by (simp add: length_dropWhile_le)
  ultimately show ?case by simp
qed simp

declare fields.simps [simp del]

definition isDigit :: "char \<Rightarrow> bool" where
  "isDigit c \<longleftrightarrow> c \<in> set ''0123456789''"

definition sscanInt :: "string \<Rightarrow> int option" where
  "sscanInt s =
     (let t = dropWhile isSpace s;
          neg = (t \<noteq> [] \<and> hd t = CHR ''-'');
          u = (if t \<noteq> [] \<and> (hd t = CHR ''-'' \<or> hd t = CHR ''+'') then drop 1 t else t);
          ds = takeWhile isDigit u;
          n = (if neg then - int (undecimal ds) else int (undecimal ds))
      in if ds = [] \<or> n < - (2 ^ 63) \<or> 2 ^ 63 \<le> n then None else Some n)"

definition joinWords :: "string list \<Rightarrow> string" where
  "joinWords ws = (case ws of [] \<Rightarrow> [] | w # ws' \<Rightarrow> w @ concat (map (\<lambda>v. '' '' @ v) ws'))"

definition parseFileLineRule :: "string \<Rightarrow> (string \<times> int \<times> string) option" where
  "parseFileLineRule line =
     (let parts = splitN 4 CHR '':'' line in
      if length parts < 3 then None
      else let file = trimSpace (parts ! 0) in
        if file = [] \<or> CHR '' '' \<in> set file \<or> CHR 0x09 \<in> set file then None
        else (case sscanInt (parts ! 1) of
          None \<Rightarrow> None
        | Some n \<Rightarrow>
            (let remaining = trimSpace (if 4 \<le> length parts then parts ! 3 else parts ! 2)
             in Some (file, n, joinWords (take 3 (fields remaining))))))"

definition maxFindings :: nat where "maxFindings = 500"

definition reviewFinding :: "string \<Rightarrow> string \<Rightarrow> Finding" where
  "reviewFinding agent line =
     (let f = zeroFinding\<lparr>fnSource := agent, fnMessage := line, fnCategory := ''quality'', fnSeverity := SeverityMedium,
                          fnDetectedBy := [agent]\<rparr>
      in case parseFileLineRule line of
           None \<Rightarrow> f
         | Some (file, n, rule) \<Rightarrow> f\<lparr>fnFile := file, fnLine := n, fnRule := rule\<rparr>)"

definition parseConsensusFindings :: "string \<Rightarrow> string \<Rightarrow> Finding list" where
  "parseConsensusFindings agent output =
     (if output = [] then []
      else take maxFindings (map (reviewFinding agent)
             (filter (\<lambda>l. l \<noteq> []) (map trimSpace (splitChar CHR 0x0A output)))))"

definition parseAdversarialFindings :: "string \<Rightarrow> string \<Rightarrow> Finding list" where
  "parseAdversarialFindings persona output =
     map (\<lambda>f. f\<lparr>fnReviewerPersona := persona\<rparr>) (parseConsensusFindings persona output)"

text \<open>
  The end of a consensus review: the outputs of the agents that answered, in the order of the configuration; a later
  answer of an agent that is configured twice replaces the earlier one.
\<close>

definition mergeReviews :: "(string \<times> string) list \<Rightarrow> (string, Finding list) gomap" where
  "mergeReviews answers = fold (\<lambda>(agent, output) m. AList.update agent (parseConsensusFindings agent output) m) answers []"

definition consensusResult :: "int \<Rightarrow> (string \<times> string) list \<Rightarrow> Finding list result" where
  "consensusResult minAgreement answers =
     (if answers = [] then Inl ''all consensus agents failed''
      else Inr (FilterByMinAgreement (DeduplicateFindings (mergeReviews answers)) (max minAgreement 1)))"

lemma wf_mergeReviews: "wf_map (mergeReviews answers)"
proof -
  have "wf_map m \<Longrightarrow> wf_map (fold (\<lambda>(agent, output) m. AList.update agent (parseConsensusFindings agent output) m) answers m)" for m
    by (induction answers arbitrary: m) auto
  from this [of "[]"] show ?thesis by (simp add: mergeReviews_def)
qed

lemma mergeReviews_findings:
  assumes "map_of (mergeReviews answers) agent = Some fs"
  shows "\<exists>output. (agent, output) \<in> set answers \<and> fs = parseConsensusFindings agent output"
proof -
  have "map_of (fold (\<lambda>(agent, output) m. AList.update agent (parseConsensusFindings agent output) m) answers m) agent = Some fs \<Longrightarrow>
      map_of m agent = Some fs \<or> (\<exists>output. (agent, output) \<in> set answers \<and> fs = parseConsensusFindings agent output)" for m
    by (induction answers arbitrary: m) (fastforce split: if_splits)+
  from this [of "[]"] assms show ?thesis by (simp add: mergeReviews_def)
qed

section \<open>Properties\<close>

text \<open>
  C24: Merging is complete, sound and separating: every finding of an agent is represented by one for the same file and
  rule at most three lines away that names the agent; every result is one of the findings, and each agent it
  names, in order and without repetition, has a finding for the same file and rule at most three lines away; and
  two results for the same file and rule are more than three lines apart.
\<close>

theorem merging_is_correct:
  shows "(\<forall>agent fs f. map_of groups agent = Some fs \<and> f \<in> set fs \<longrightarrow>
      (\<exists>g \<in> set (DeduplicateFindings groups). dedupKey g = dedupKey f \<and> near (fnLine g) (fnLine f) \<and> agent \<in> set (fnDetectedBy g)))
    \<and> (\<forall>g \<in> set (DeduplicateFindings groups). sorted (fnDetectedBy g) \<and> distinct (fnDetectedBy g) \<and>
      (\<exists>agent fs f. map_of groups agent = Some fs \<and> f \<in> set fs \<and> g = f\<lparr>fnDetectedBy := fnDetectedBy g\<rparr>) \<and>
      (\<forall>agent \<in> set (fnDetectedBy g). \<exists>fs f. map_of groups agent = Some fs \<and> f \<in> set fs \<and> dedupKey f = dedupKey g \<and>
         near (fnLine g) (fnLine f)))
    \<and> sorted_wrt (\<lambda>g h. dedupKey g = dedupKey h \<longrightarrow> \<not> near (fnLine g) (fnLine h)) (DeduplicateFindings groups)"
proof (intro conjI allI impI ballI)
  note inv = mergedState_inv [of groups]
  fix agent fs f assume "map_of groups agent = Some fs \<and> f \<in> set fs"
  then have "(agent, f) \<in> set (allFindings groups)" by (simp add: allFindings_mem)
  then obtain m where m: "m \<in> set (entriesFor (dedupKey f) (dsByKey (mergedState groups)))"
    "near (fnLine (mgFinding m)) (fnLine f)" "agent \<in> set (mgDetectedBy m)"
    using inv unfolding dedup_inv_def by blast
  then have "dedupKey (mgFinding m) = dedupKey f" using inv unfolding dedup_inv_def entry_ok_def by blast
  with m show "\<exists>g \<in> set (DeduplicateFindings groups). dedupKey g = dedupKey f \<and> near (fnLine g) (fnLine f) \<and> agent \<in> set (fnDetectedBy g)"
    by (intro bexI [of _ "finishMerged m"]) (auto simp: set_Deduplicate)
next
  note inv = mergedState_inv [of groups]
  fix g assume "g \<in> set (DeduplicateFindings groups)"
  then obtain key m where m: "m \<in> set (entriesFor key (dsByKey (mergedState groups)))" and g: "g = finishMerged m"
    by (auto simp: set_Deduplicate)
  from inv m have ok: "entry_ok (allFindings groups) key m" unfolding dedup_inv_def by blast
  show "sorted (fnDetectedBy g)" "distinct (fnDetectedBy g)" using ok by (simp_all add: g finishMerged_def entry_ok_def)
  show "\<exists>agent fs f. map_of groups agent = Some fs \<and> f \<in> set fs \<and> g = f\<lparr>fnDetectedBy := fnDetectedBy g\<rparr>"
    by (rule Deduplicate_origin) fact
  fix agent assume "agent \<in> set (fnDetectedBy g)"
  with ok show "\<exists>fs f. map_of groups agent = Some fs \<and> f \<in> set fs \<and> dedupKey f = dedupKey g \<and> near (fnLine g) (fnLine f)"
    by (fastforce simp: g entry_ok_def allFindings_mem)
qed (rule Deduplicate_apart)

theorem merging_is_correct_witness:
  "\<exists>g \<in> set (DeduplicateFindings [(''a'', [zeroFinding\<lparr>fnFile := ''f'', fnLine := 4\<rparr>]), (''b'', [zeroFinding\<lparr>fnFile := ''f'', fnLine := 6\<rparr>])]).
     near (fnLine g) 6 \<and> ''b'' \<in> set (fnDetectedBy g)"
  using merging_is_correct [of "[(''a'', [zeroFinding\<lparr>fnFile := ''f'', fnLine := 4\<rparr>]), (''b'', [zeroFinding\<lparr>fnFile := ''f'', fnLine := 6\<rparr>])]",
      THEN conjunct1, rule_format, of "''b''" "[zeroFinding\<lparr>fnFile := ''f'', fnLine := 6\<rparr>]" "zeroFinding\<lparr>fnFile := ''f'', fnLine := 6\<rparr>"]
  by auto

text \<open>
  Findings without a location are lost: if no line of any agent's review has the form of a file with a line number,
  then the merged review has at most one finding, however many the agents have reported, because all of them have
  the same empty file and rule and the line 0.
\<close>

theorem unlocated_findings_collapse:
  assumes "list_all (\<lambda>(agent, output). list_all (\<lambda>l. parseFileLineRule (trimSpace l) = None) (splitChar CHR 0x0A output)) answers"
  shows "length (DeduplicateFindings (mergeReviews answers)) \<le> 1"
proof -
  define out where "out = DeduplicateFindings (mergeReviews answers)"
  have loc: "dedupKey g = '':'' \<and> fnLine g = 0" if g: "g \<in> set out" for g
  proof -
    obtain agent fs f where f: "map_of (mergeReviews answers) agent = Some fs" "f \<in> set fs" "g = f\<lparr>fnDetectedBy := fnDetectedBy g\<rparr>"
      using Deduplicate_origin g unfolding out_def by blast
    then obtain review where o: "(agent, review) \<in> set answers" "f \<in> set (parseConsensusFindings agent review)"
      using mergeReviews_findings by blast
    then obtain l where "l \<in> set (splitChar CHR 0x0A review)" "f = reviewFinding agent (trimSpace l)"
      by (auto simp: parseConsensusFindings_def split: if_splits dest!: in_set_takeD)
    moreover have "list_all (\<lambda>l. parseFileLineRule (trimSpace l) = None) (splitChar CHR 0x0A review)"
      using assms o(1) by (auto simp: list_all_iff)
    ultimately have "fnFile f = []" "fnRule f = []" "fnLine f = 0"
      by (simp_all add: list_all_iff reviewFinding_def zeroFinding_def)
    moreover have "dedupKey g = dedupKey f" "fnLine g = fnLine f" using f(3) by (metis dedupKey_DetectedBy, metis fnLine_DetectedBy)
    ultimately show ?thesis by (simp add: dedupKey_def toLower_def)
  qed
  show ?thesis
  proof (rule ccontr)
    assume "\<not> ?thesis"
    then obtain g h rest where out: "out = g # h # rest" by (cases out; cases "tl out") (auto simp: out_def)
    have "dedupKey g = dedupKey h" "near (fnLine g) (fnLine h)" using loc [of g] loc [of h] by (simp_all add: out)
    with Deduplicate_apart [of "mergeReviews answers"] show False by (simp flip: out_def add: out)
  qed
qed

theorem unlocated_findings_collapse_witness:
  "length (DeduplicateFindings (mergeReviews [(''x'', ''missing error handling'' @ [CHR 0x0A] @ ''no tests''), (''y'', ''race in the pool'')])) \<le> 1"
  by (rule unlocated_findings_collapse) code_simp

text \<open>
  The severity that a reviewing agent reports is not read: the prompt asks for \<^verbatim>\<open>[severity]\<close> in every line, but every
  parsed finding has medium severity. So the findings of a review, even critical ones, never block the review
  phase, and block a submission only by their number.
\<close>

theorem reported_severity_is_ignored:
  "\<not> HasBlockers fmt (ForPhase ''review'') (parseAdversarialFindings persona review) \<and>
   (HasBlockers fmt (ForPhase ''submit'') (parseAdversarialFindings persona review) \<longleftrightarrow>
      3 < length (parseAdversarialFindings persona review))"
proof -
  have "fnSeverity (reviewFinding a l) = SeverityMedium" for a l
    by (simp add: reviewFinding_def Let_def split: option.splits)
  then have m: "fnSeverity f = SeverityMedium" if "f \<in> set (parseAdversarialFindings persona review)" for f
    using that by (auto simp: parseAdversarialFindings_def parseConsensusFindings_def split: if_splits dest!: in_set_takeD)
  have "countAt SeverityMedium (parseAdversarialFindings persona review) = length (parseAdversarialFindings persona review)"
    unfolding countAt_def by (subst filter_True) (auto simp: m)
  moreover have "\<not> 0 < countAt s (parseAdversarialFindings persona review)" if "s \<noteq> SeverityMedium" for s
    using m that by (auto simp: countAt_pos)
  ultimately show ?thesis by (simp add: ForPhase_def Standard_blocks Strict_blocks severities)
qed

end
