(* ===== verification/Quality_Gate.thy ===== *)
theory Quality_Gate
  imports Findings_Gates Activity_Log Conductor_Core
begin

text \<open>
  The quality gate: checkers and gates (src/internal/quality/gate.go, the parser of tool output of checkers.go), the
  classification of failures (failclass.go, failclass_history.go, failclass_patterns.go), the findings of security
  scans (src/internal/security/findings.go), and the gate of a review with its automatic repairs
  (src/internal/conductor/conductor_quality.go, conductor_autofix.go).

  The checkers, the scanner, the external tool and the agents that repair are parameters: what each run of them
  yields. A regular expression is a case-insensitive search, with the case of ASCII. The history divides two counts
  as floating point numbers and compares with 0.6; for fewer than \<open>2\<^sup>5\<^sup>0\<close> outcomes that is the comparison of
  integers used here. Logs, deadlines and the JSON data of events are left out.
\<close>

section \<open>Gates\<close>

datatype Gate = NoErrorsGate | NoSecurityIssuesGate | MaxWarningsGate int | CompositeGate "Gate list"

definition gateName :: "Gate \<Rightarrow> string" where
  "gateName g = (case g of NoErrorsGate \<Rightarrow> ''no-errors'' | NoSecurityIssuesGate \<Rightarrow> ''no-security-issues''
     | MaxWarningsGate _ \<Rightarrow> ''max-warnings'' | CompositeGate _ \<Rightarrow> ''composite'')"

definition CategorySecurity :: string where "CategorySecurity = ''security''"

definition sameFinding :: "Finding \<Rightarrow> Finding \<Rightarrow> bool" where
  "sameFinding existing f \<longleftrightarrow> (fnID existing \<noteq> [] \<and> fnID existing = fnID f) \<or>
     (fnID existing = [] \<and> fnID f = [] \<and> fnRule existing = fnRule f \<and> fnMessage existing = fnMessage f)"

definition containsFinding :: "Finding list \<Rightarrow> Finding \<Rightarrow> bool" where
  "containsFinding blockers f = list_ex (\<lambda>existing. sameFinding existing f) blockers"

definition addBlockers :: "Finding list \<Rightarrow> Finding list \<Rightarrow> Finding list" where
  "addBlockers gateBlockers blockers =
     fold (\<lambda>b blockers. if containsFinding blockers b then blockers else blockers @ [b]) gateBlockers blockers"

fun gateEvaluate :: "Gate \<Rightarrow> Finding list \<Rightarrow> Finding list" and gateUnion :: "Gate list \<Rightarrow> Finding list \<Rightarrow> Finding list \<Rightarrow> Finding list" where
  "gateEvaluate NoErrorsGate ff = filter (\<lambda>f. fnSeverity f = SeverityCritical \<or> fnSeverity f = SeverityHigh) ff"
| "gateEvaluate NoSecurityIssuesGate ff = filter (\<lambda>f. fnCategory f = CategorySecurity) ff"
| "gateEvaluate (MaxWarningsGate limit) ff =
     (let warnings = filter (\<lambda>f. fnSeverity f = SeverityMedium) ff in if int (length warnings) \<le> limit then [] else warnings)"
| "gateEvaluate (CompositeGate gs) ff = gateUnion gs ff []"
| "gateUnion [] ff blockers = blockers"
| "gateUnion (g # gs) ff blockers = gateUnion gs ff (addBlockers (gateEvaluate g ff) blockers)"

text \<open>A run of a checker: whether the context was done before it started, and its result.\<close>

record CheckerRun =
  ckName :: string
  ckCancelled :: "string option"
  ckResult :: "Finding list result"

record GateResult =
  grPassed :: bool
  grBlockers :: "Finding list"
  grTotal :: nat
  grBlocked :: nat
  grGateName :: string

fun collectFindings :: "CheckerRun list \<Rightarrow> Finding list \<Rightarrow> Finding list result" where
  "collectFindings [] allFindings = Inr allFindings"
| "collectFindings (c # cs) allFindings =
     (case ckCancelled c of
        Some err \<Rightarrow> Inl err
      | None \<Rightarrow>
          (case ckResult c of
             Inl err \<Rightarrow> Inl (''checker '' @ ckName c @ '': '' @ err)
           | Inr found \<Rightarrow> collectFindings cs (allFindings @ found)))"

definition RunGates :: "CheckerRun list \<Rightarrow> Gate list \<Rightarrow> GateResult result" where
  "RunGates checkers gates =
     (case collectFindings checkers [] of
        Inl err \<Rightarrow> Inl err
      | Inr allFindings \<Rightarrow>
          let blockers = gateUnion gates allFindings [] in
          Inr \<lparr>grPassed = (length blockers = 0), grBlockers = blockers, grTotal = length allFindings,
               grBlocked = length blockers,
               grGateName = (case gates of [g] \<Rightarrow> gateName g | _ \<Rightarrow> ''composite'')\<rparr>)"

text \<open>The findings of a tool that prints a line per problem; the identifier is the first half of a hash.\<close>

definition lineFinding :: "(string \<Rightarrow> string) \<Rightarrow> string \<Rightarrow> string \<Rightarrow> Finding" where
  "lineFinding sha256 source line =
     zeroFinding\<lparr>fnID := source @ ''-'' @ hexEncode (take 8 (sha256 (source @ CHR 0x00 # line))),
       fnSeverity := SeverityHigh, fnCategory := ''quality'', fnRule := source, fnMessage := line, fnSource := source\<rparr>"

definition parseLineFindings :: "(string \<Rightarrow> string) \<Rightarrow> string \<Rightarrow> string \<Rightarrow> Finding list" where
  "parseLineFindings sha256 source text =
     map (lineFinding sha256 source) (filter (\<lambda>line. line \<noteq> []) (map trimSpace (fst (scanLines text))))"

section \<open>Classification of failures\<close>

definition ClassificationFlaky :: string where "ClassificationFlaky = ''flaky''"
definition ClassificationGenuine :: string where "ClassificationGenuine = ''genuine''"
definition ClassificationIntermittent :: string where "ClassificationIntermittent = ''intermittent''"

lemmas classifications = ClassificationFlaky_def ClassificationGenuine_def ClassificationIntermittent_def

record FailHistory =
  fhRecords :: "(string, bool list) gomap"
  fhWindow :: nat

definition NewFailHistory :: "int \<Rightarrow> FailHistory" where
  "NewFailHistory window = \<lparr>fhRecords = [], fhWindow = nat (if window < 1 then 10 else window)\<rparr>"

definition RecordOutcome :: "string \<Rightarrow> bool \<Rightarrow> FailHistory \<Rightarrow> FailHistory" where
  "RecordOutcome rule passed h =
     (let outcomes = (case map_of (fhRecords h) rule of None \<Rightarrow> [] | Some os \<Rightarrow> os) @ [passed] in
      h\<lparr>fhRecords := AList.update rule (drop (length outcomes - fhWindow h) outcomes) (fhRecords h)\<rparr>)"

definition IsFlaky :: "string \<Rightarrow> FailHistory \<Rightarrow> bool" where
  "IsFlaky rule h =
     (case map_of (fhRecords h) rule of
        None \<Rightarrow> False
      | Some outcomes \<Rightarrow> outcomes \<noteq> [] \<and> 3 * length outcomes < 5 * length (filter Not outcomes))"

text \<open>
  The regular expressions of the patterns: a choice of texts; a text and, later in the same line, another; or a text
  and, after white space, another.
\<close>

datatype Regex = AnyOf "string list" | LineGap "(string \<times> string) list" | SpaceGap string string

definition regexSpace :: "char \<Rightarrow> bool" where
  "regexSpace c \<longleftrightarrow> c \<in> {CHR '' '', CHR 0x09, CHR 0x0A, CHR 0x0C, CHR 0x0D}"

fun MatchString :: "Regex \<Rightarrow> string \<Rightarrow> bool" where
  "MatchString (AnyOf ts) s = list_ex (\<lambda>t. containsText (toLower s) (toLower t)) ts"
| "MatchString (LineGap ps) s =
     list_ex (\<lambda>(a, b). list_ex (\<lambda>r. prefix a r \<and> containsText (takeWhile (\<lambda>c. c \<noteq> CHR 0x0A) (drop (length a) r)) b)
       (suffixes (toLower s))) ps"
| "MatchString (SpaceGap a b) s =
     list_ex (\<lambda>r. prefix a r \<and> prefix b (dropWhile regexSpace (drop (length a) r))) (suffixes (toLower s))"

record FailPattern =
  fpName :: string
  fpRegex :: Regex
  fpClass :: string

abbreviation failPattern :: "string \<Rightarrow> Regex \<Rightarrow> string \<Rightarrow> FailPattern" where
  "failPattern name regex class \<equiv> \<lparr>fpName = name, fpRegex = regex, fpClass = class\<rparr>"

definition DefaultFailPatterns :: "FailPattern list" where
  "DefaultFailPatterns =
     [failPattern ''timeout'' (AnyOf [''timeout'']) ClassificationFlaky,
      failPattern ''deadline_exceeded'' (AnyOf [''deadline exceeded'']) ClassificationFlaky,
      failPattern ''eaddrinuse'' (AnyOf [''EADDRINUSE'', ''address already in use'']) ClassificationFlaky,
      failPattern ''econnrefused'' (AnyOf [''ECONNREFUSED'', ''connection refused'']) ClassificationFlaky,
      failPattern ''connection_reset'' (AnyOf [''connection reset'']) ClassificationFlaky,
      failPattern ''race_detected'' (AnyOf [''race detected'', ''DATA RACE'']) ClassificationFlaky,
      failPattern ''file_locked'' (LineGap [(''file'', ''locked''), (''lock'', ''file'')]) ClassificationFlaky,
      failPattern ''port_in_use'' (AnyOf [''port already in use'']) ClassificationFlaky,
      failPattern ''dns_failure'' (AnyOf [''temporary failure in name resolution'']) ClassificationFlaky,
      failPattern ''tls_handshake'' (AnyOf [''TLS handshake timeout'']) ClassificationFlaky,
      failPattern ''context_canceled'' (AnyOf [''context canceled'']) ClassificationIntermittent,
      failPattern ''signal_killed'' (SpaceGap ''signal:'' ''killed'') ClassificationIntermittent]"

record FailClassifier =
  fcPatterns :: "FailPattern list"
  fcHistory :: "FailHistory option"

definition NewFailClassifier :: "FailHistory option \<Rightarrow> FailClassifier" where
  "NewFailClassifier history = \<lparr>fcPatterns = DefaultFailPatterns, fcHistory = history\<rparr>"

definition classify :: "FailClassifier \<Rightarrow> Finding \<Rightarrow> string" where
  "classify c f =
     (if (case fcHistory c of None \<Rightarrow> False | Some h \<Rightarrow> fnRule f \<noteq> [] \<and> IsFlaky (fnRule f) h) then ClassificationFlaky
      else case find (\<lambda>p. MatchString (fpRegex p) (fnMessage f)) (fcPatterns c) of
        Some p \<Rightarrow> fpClass p
      | None \<Rightarrow> ClassificationGenuine)"

definition Classify :: "FailClassifier \<Rightarrow> Finding list \<Rightarrow> Finding list" where
  "Classify c ff = map (\<lambda>f. f\<lparr>fnClassification := classify c f\<rparr>) ff"

record FailClassifierStats =
  fsTotal :: nat
  fsFlaky :: nat
  fsGenuine :: nat
  fsIntermittent :: nat
  fsUnclassified :: nat

definition countOne :: "Finding \<Rightarrow> FailClassifierStats \<Rightarrow> FailClassifierStats" where
  "countOne f s =
     (if fnClassification f = ClassificationFlaky then s\<lparr>fsFlaky := fsFlaky s + 1\<rparr>
      else if fnClassification f = ClassificationGenuine then s\<lparr>fsGenuine := fsGenuine s + 1\<rparr>
      else if fnClassification f = ClassificationIntermittent then s\<lparr>fsIntermittent := fsIntermittent s + 1\<rparr>
      else s\<lparr>fsUnclassified := fsUnclassified s + 1\<rparr>)"

definition failStats :: "Finding list \<Rightarrow> FailClassifierStats" where
  "failStats ff = fold countOne ff \<lparr>fsTotal = length ff, fsFlaky = 0, fsGenuine = 0, fsIntermittent = 0, fsUnclassified = 0\<rparr>"

end
