(* ===== verification/Quality_Run.thy ===== *)
theory Quality_Run
  imports Quality_Gate
begin

text \<open>
  The quality gate of the conductor: \<^verbatim>\<open>runQualityGate\<close> with its four groups of checks, the repairs by an agent and the
  recording of the result (src/internal/conductor/conductor_quality.go, conductor_autofix.go, and \<^verbatim>\<open>promptUser\<close> of
  conductor_accessors.go).
\<close>

section \<open>Settings and the outside\<close>

record QualitySettings =
  qsClassification :: bool
  qsHistoryWindow :: int
  qsSecurityScan :: bool
  qsCommand :: string
  qsMode :: string
  qsAutoFix :: bool
  qsMaxAttempts :: int
  qsPhases :: "string list"

record SecurityIssue =
  siSeverity :: string
  siType :: string
  siFile :: string
  siLine :: int
  siMessage :: string
  siSuggestion :: string

record SecurityReport =
  srScanner :: string
  srFindings :: "SecurityIssue list"

text \<open>
  What the outside yields in one run of the checks: the checkers; the optional runner; what the filter of old
  findings asks; the security scan; whether the review tool is installed, the user's answer and the output of a
  failing review.
\<close>

record GateRun =
  gnCheckers :: "CheckerRun list"
  gnRunner :: "(bool \<times> string list) result option"
  gnHoldTheLine :: "bool option"
  gnGitOpen :: bool
  gnBase :: "string result"
  gnDiffHunks :: "string \<Rightarrow> (string \<rightharpoonup> (int \<times> int) list) result"
  gnReports :: "SecurityReport list result"
  gnToolFound :: bool
  gnAnswer :: "bool result"
  gnReview :: "string option"

record ('y, 'g) Quality =
  qyC :: "('y, 'g) Conductor"
  qyHistory :: "FailHistory option"
  qyAttempt :: nat
  qyLastErr :: string
  qyPrompts :: "string list"

abbreviation qyState :: "('y, 'g) Quality \<Rightarrow> State" where
  "qyState q \<equiv> cState (qyC q)"

definition holdTheLine :: "GateRun \<Rightarrow> Finding list \<Rightarrow> Finding list" where
  "holdTheLine run ff = classifyFindings (gnHoldTheLine run) (gnGitOpen run) (gnBase run) (gnDiffHunks run) ff"

definition emitQ :: "time \<Rightarrow> string \<Rightarrow> string \<Rightarrow> ('y, 'g) Quality \<Rightarrow> ('y, 'g) Quality" where
  "emitQ now typ msg q = q\<lparr>qyC := emitMsg now typ msg (qyC q)\<rparr>"

definition emitBare :: "time \<Rightarrow> string \<Rightarrow> string \<Rightarrow> string \<Rightarrow> ('y, 'g) Quality \<Rightarrow> ('y, 'g) Quality" where
  "emitBare now typ jobID msg q =
     q\<lparr>qyC := emit now \<lparr>evType = typ, evState = noState, evJobID = jobID, evMessage = msg, evTimestamp = 0\<rparr> (qyC q)\<rparr>"

section \<open>The checks\<close>

definition applyFailureClassification ::
  "QualitySettings \<Rightarrow> Finding list \<Rightarrow> ('y, 'g) Quality \<Rightarrow> Finding list \<times> ('y, 'g) Quality" where
  "applyFailureClassification st filtered q =
     (if \<not> qsClassification st then (filtered, q)
      else let window = (if qsHistoryWindow st = 0 then 10 else qsHistoryWindow st);
               history = (case qyHistory q of None \<Rightarrow> NewFailHistory window | Some h \<Rightarrow> h);
               q1 = q\<lparr>qyHistory := Some history\<rparr>;
               classified = Classify (NewFailClassifier (Some history)) filtered;
               stats = failStats classified
           in if fsGenuine stats = 0 \<and> fsIntermittent stats = 0 then ([], q1)
              else (filter (\<lambda>f. fnClassification f \<noteq> ClassificationFlaky) classified, q1))"

definition findingLine :: "Finding \<Rightarrow> string" where
  "findingLine f =
     (if fnFile f \<noteq> [] \<and> 0 < fnLine f
      then ''  '' @ fnFile f @ '':'' @ format_int (fnLine f) @ '': ['' @ fnRule f @ ''] '' @ fnMessage f
      else if fnFile f \<noteq> [] then ''  '' @ fnFile f @ '': ['' @ fnRule f @ ''] '' @ fnMessage f
      else ''  ['' @ fnRule f @ ''] '' @ fnMessage f)"

definition gateError :: "string \<Rightarrow> string \<Rightarrow> (Finding \<Rightarrow> string) \<Rightarrow> Finding list \<Rightarrow> string" where
  "gateError what issues line ff =
     what @ decimal (length ff) @ issues @ [CHR 0x0A] @ joinWith [CHR 0x0A] (map line ff)"

text \<open>The old findings are dropped, then the flaky ones; what is left is the error.\<close>

definition blockOn :: "QualitySettings \<Rightarrow> GateRun \<Rightarrow> (Finding \<Rightarrow> string) \<Rightarrow> Finding list \<Rightarrow> ('y, 'g) Quality \<Rightarrow> string option \<times> ('y, 'g) Quality" where
  "blockOn st run line ff q =
     (let filtered = holdTheLine run ff in
      if filtered = [] then (None, q)
      else case applyFailureClassification st filtered q of (left, q1) \<Rightarrow>
        (if left = [] then None else Some (gateError ''quality gate failed with '' '' finding(s):'' line left), q1))"

definition runUnifiedQualityGates :: "QualitySettings \<Rightarrow> GateRun \<Rightarrow> ('y, 'g) Quality \<Rightarrow> string option \<times> ('y, 'g) Quality" where
  "runUnifiedQualityGates st run q =
     (case RunGates (gnCheckers run) [NoErrorsGate, NoSecurityIssuesGate] of
        Inl err \<Rightarrow> (Some (''quality gates: '' @ err), q)
      | Inr result \<Rightarrow> if grPassed result then (None, q) else blockOn st run findingLine (grBlockers result) q)"

definition messagesToFindings :: "string list \<Rightarrow> Finding list" where
  "messagesToFindings messages =
     map (\<lambda>msg. zeroFinding\<lparr>fnMessage := msg, fnSeverity := SeverityHigh, fnCategory := ''quality'', fnSource := ''quality_runner''\<rparr>) messages"

definition runStructuredQualityGates :: "QualitySettings \<Rightarrow> GateRun \<Rightarrow> ('y, 'g) Quality \<Rightarrow> string option \<times> ('y, 'g) Quality" where
  "runStructuredQualityGates st run q =
     (case gnRunner run of
        None \<Rightarrow> (None, q)
      | Some (Inl err) \<Rightarrow> (Some (''quality runner: '' @ err), q)
      | Some (Inr (passed, messages)) \<Rightarrow>
          if passed \<or> messages = [] then (None, q) else blockOn st run fnMessage (messagesToFindings messages) q)"

definition mapSecuritySeverity :: "string \<Rightarrow> Severity" where
  "mapSecuritySeverity s = (if s = ''critical'' then SeverityCritical else if s = ''high'' then SeverityHigh
     else if s = ''medium'' then SeverityMedium else if s = ''low'' then SeverityLow else SeverityInfo)"

definition securityToFindings :: "SecurityReport \<Rightarrow> Finding list" where
  "securityToFindings r = map (\<lambda>(i, f). zeroFinding\<lparr>fnID := ''security-'' @ srScanner r @ ''-'' @ decimal i,
       fnSeverity := mapSecuritySeverity (siSeverity f), fnCategory := CategorySecurity, fnRule := siType f,
       fnFile := siFile f, fnLine := siLine f, fnMessage := siMessage f, fnRemediation := siSuggestion f,
       fnSource := srScanner r\<rparr>) (List.enumerate 0 (srFindings r))"

definition securityReportsToFindings :: "SecurityReport list \<Rightarrow> Finding list" where
  "securityReportsToFindings reports = concat (map securityToFindings reports)"

definition securityLine :: "Finding \<Rightarrow> string" where
  "securityLine f = ''  ['' @ severityString (fnSeverity f) @ ''] '' @ fnRule f @ '': '' @ fnMessage f"

definition qualityGateSecurity :: "QualitySettings \<Rightarrow> GateRun \<Rightarrow> time \<Rightarrow> ('y, 'g) Quality \<Rightarrow> string option \<times> ('y, 'g) Quality" where
  "qualityGateSecurity st run now q =
     (if \<not> qsSecurityScan st then (None, q)
      else let q1 = emitQ now ''quality_gate'' ''Running security scan...'' q in
        case gnReports run of
          Inl _ \<Rightarrow> (None, q1)
        | Inr reports \<Rightarrow>
            let unified = securityReportsToFindings reports in
            if unified = [] then (None, q1)
            else let blocking = filter (\<lambda>f. fnSeverity f \<le> SeverityHigh) (holdTheLine run unified) in
              (if blocking = [] then None else Some (gateError ''security scan found '' '' blocking issue(s):'' securityLine blocking), q1))"

definition ExternalReviewAsk :: string where "ExternalReviewAsk = ''ask''"
definition ExternalReviewAlways :: string where "ExternalReviewAlways = ''always''"
definition ExternalReviewNever :: string where "ExternalReviewNever = ''never''"

definition promptUser :: "time \<Rightarrow> string \<Rightarrow> bool result \<Rightarrow> ('y, 'g) Quality \<Rightarrow> bool result \<times> ('y, 'g) Quality" where
  "promptUser now question answer q = (answer, emitBare now ''user_prompt'' [] question q)"

definition runReview :: "string \<Rightarrow> GateRun \<Rightarrow> string option" where
  "runReview command run = map_option (\<lambda>text. command @ '' review failed:'' @ [CHR 0x0A] @ text) (gnReview run)"

definition qualityGateExternalReview :: "QualitySettings \<Rightarrow> GateRun \<Rightarrow> time \<Rightarrow> ('y, 'g) Quality \<Rightarrow> string option \<times> ('y, 'g) Quality" where
  "qualityGateExternalReview st run now q =
     (let command = (if qsCommand st = [] then ''coderabbit'' else qsCommand st);
          mode = (if qsMode st = [] then ExternalReviewAsk else qsMode st) in
      if CHR ''/'' \<in> set command \<or> CHR 0x5C \<in> set command
      then (Some (''external review command must be a plain name, not a path: '' @ quote command), q)
      else if \<not> gnToolFound run then (None, q)
      else if mode = ExternalReviewNever then (None, q)
      else if mode = ExternalReviewAlways then (runReview command run, q)
      else if mode = ExternalReviewAsk then
        (case promptUser now (''Run '' @ command @ '' review? (this may take several minutes)'') (gnAnswer run) q of
           (Inr True, q1) \<Rightarrow> (runReview command run, q1)
         | (_, q1) \<Rightarrow> (None, q1))
      else (None, q))"

text \<open>The four groups of checks, up to the first error.\<close>

definition runQualityGateChecks :: "QualitySettings \<Rightarrow> GateRun \<Rightarrow> time \<Rightarrow> ('y, 'g) Quality \<Rightarrow> string option \<times> ('y, 'g) Quality" where
  "runQualityGateChecks st run now q =
     (case runUnifiedQualityGates st run q of
        (Some err, q1) \<Rightarrow> (Some err, q1)
      | (None, q1) \<Rightarrow>
          (case runStructuredQualityGates st run q1 of
             (Some err, q2) \<Rightarrow> (Some err, q2)
           | (None, q2) \<Rightarrow>
               (case qualityGateSecurity st run now q2 of
                  (Some err, q3) \<Rightarrow> (Some err, q3)
                | (None, q3) \<Rightarrow> qualityGateExternalReview st run now q3)))"

section \<open>Repairs\<close>

definition stateToPhase :: "State \<Rightarrow> string" where
  "stateToPhase s = (if s = StatePlanning then ''plan'' else if s = StateImplementing then ''implement''
     else if s = StateSimplifying then ''simplify'' else if s = StateOptimizing then ''optimize'' else [])"

definition shouldAutoFix :: "QualitySettings \<Rightarrow> ('y, 'g) Quality \<Rightarrow> bool" where
  "shouldAutoFix st q \<longleftrightarrow>
     qsAutoFix st \<and> stateToPhase (qyState q) \<noteq> [] \<and>
     stateToPhase (qyState q) \<in> set (if qsPhases st = [] then [''implement'', ''simplify'', ''optimize''] else qsPhases st)"

definition buildQualityFixPrompt :: "string \<Rightarrow> string \<Rightarrow> string \<Rightarrow> nat \<Rightarrow> string" where
  "buildQualityFixPrompt title description qualityError attempt =
     concat (map (\<lambda>line. line @ [CHR 0x0A])
       [''Fix quality gate failures for the following task:'', '''', ''Title: '' @ title, ''Description: '' @ description, '''',
        ''## Quality Gate Failure (attempt '' @ decimal attempt @ '')'', '''',
        ''The quality gate failed after the phase completed. Below are the quality gate errors.'',
        ''Analyze the failures and fix the code to make the quality gate pass.'', '''', ''### Quality Gate Errors'', '''',
        qualityError, '''', ''## Instructions'', '''', ''1. Read the quality gate errors carefully'',
        ''2. Identify the root cause of each failure'', ''3. Fix the code to resolve the failures'',
        ''4. Do NOT introduce new features or change functionality beyond what is needed to fix quality'',
        ''5. Focus on: compilation errors, lint failures, type errors, slop detection findings'',
        ''6. If a finding references a file and line, fix that specific location''])"

text \<open>
  A repair: the answer of the pool to the submission of the job, whether its events can be streamed, and what the
  stream and the context yield; the channel is closed after the last item.
\<close>

datatype StreamItem = StreamEvent string string | ContextDone string

record Repair =
  rpSubmit :: "string result"
  rpStream :: "StreamItem list option"

fun waitForEvents :: "time \<Rightarrow> string \<Rightarrow> StreamItem list \<Rightarrow> ('y, 'g) Quality \<Rightarrow> string option \<times> ('y, 'g) Quality" where
  "waitForEvents now jobID [] q = (None, q)"
| "waitForEvents now jobID (ContextDone err # items) q = (Some (''auto-fix job timed out: '' @ err), q)"
| "waitForEvents now jobID (StreamEvent typ text # items) q =
     (let q1 = emitBare now ''job_output'' jobID text q in
      if typ = ''job_completed'' then (None, q1)
      else if typ = ''job_failed'' then (Some (''auto-fix job failed: '' @ text), q1)
      else waitForEvents now jobID items q1)"

definition waitForAutoFixJob :: "time \<Rightarrow> string \<Rightarrow> Repair \<Rightarrow> ('y, 'g) Quality \<Rightarrow> string option \<times> ('y, 'g) Quality" where
  "waitForAutoFixJob now jobID repair q =
     (case rpStream repair of
        None \<Rightarrow> (Some (''could not stream auto-fix job '' @ jobID), q)
      | Some items \<Rightarrow> waitForEvents now jobID items q)"

definition clearAutoFixState :: "('y, 'g) Quality \<Rightarrow> ('y, 'g) Quality" where
  "clearAutoFixState q = q\<lparr>qyAttempt := 0, qyLastErr := []\<rparr>"

definition attemptOf :: "nat \<Rightarrow> nat \<Rightarrow> string" where
  "attemptOf attempt limit = decimal attempt @ ''/'' @ decimal limit"

definition exhausted :: "time \<Rightarrow> nat \<Rightarrow> string \<Rightarrow> ('y, 'g) Quality \<Rightarrow> string option \<times> ('y, 'g) Quality" where
  "exhausted now limit lastErr q =
     (Some (''auto-fix exhausted after '' @ decimal limit @ '' attempts: '' @ lastErr),
      clearAutoFixState (emitQ now ''autofix_exhausted'' (''Auto-fix exhausted after '' @ decimal limit @ '' attempts'') q))"

text \<open>The loop; \<open>n\<close> attempts are left, and \<open>repairs\<close> and \<open>runs\<close> are indexed by the attempt.\<close>

fun autoFixLoop ::
  "QualitySettings \<Rightarrow> (nat \<Rightarrow> Repair) \<Rightarrow> (nat \<Rightarrow> GateRun) \<Rightarrow> WorkUnit \<Rightarrow> time \<Rightarrow> nat \<Rightarrow> nat \<Rightarrow> string \<Rightarrow>
   ('y, 'g) Quality \<Rightarrow> string option \<times> ('y, 'g) Quality" where
  "autoFixLoop st repairs runs wu now limit 0 lastErr q = exhausted now limit lastErr q"
| "autoFixLoop st repairs runs wu now limit (Suc n) lastErr q =
     (let attempt = limit - n;
          q1 = emitQ now ''autofix_attempt'' (''Auto-fix attempt '' @ attemptOf attempt limit @ '': '' @ lastErr)
                 (q\<lparr>qyAttempt := attempt, qyLastErr := lastErr\<rparr>);
          prompt = buildQualityFixPrompt (wuTitle wu) (wuDescription wu) lastErr attempt in
      case rpSubmit (repairs attempt) of
        Inl err \<Rightarrow> (Some (''auto-fix: submit fix job: '' @ err), clearAutoFixState q1)
      | Inr jobID \<Rightarrow>
          let q2 = emitBare now ''autofix_started'' jobID (''Auto-fix agent started (attempt '' @ attemptOf attempt limit @ '')'')
                     (q1\<lparr>qyPrompts := qyPrompts q1 @ [prompt]\<rparr>) in
          (case waitForAutoFixJob now jobID (repairs attempt) q2 of
            (Some err, q3) \<Rightarrow>
              let q4 = emitBare now ''autofix_job_failed'' [] (''Auto-fix attempt '' @ attemptOf attempt limit @ '' job failed: '' @ err) q3
              in autoFixLoop st repairs runs wu now limit n (if n = 0 then lastErr else err) q4
          | (None, q3) \<Rightarrow>
              (case runQualityGateChecks st (runs attempt) now q3 of
                 (None, q4) \<Rightarrow>
                   (None, clearAutoFixState (emitQ now ''autofix_success'' (''Auto-fix succeeded on attempt '' @ attemptOf attempt limit) q4))
               | (Some gateErr, q4) \<Rightarrow> autoFixLoop st repairs runs wu now limit n gateErr q4)))"

definition defaultMaxAutoFixAttempts :: nat where "defaultMaxAutoFixAttempts = 3"

definition autoFixLimit :: "QualitySettings \<Rightarrow> nat" where
  "autoFixLimit st = (if qsMaxAttempts st \<le> 0 then defaultMaxAutoFixAttempts else nat (qsMaxAttempts st))"

definition runQualityAutoFix ::
  "QualitySettings \<Rightarrow> (nat \<Rightarrow> Repair) \<Rightarrow> (nat \<Rightarrow> GateRun) \<Rightarrow> time \<Rightarrow> string \<Rightarrow> ('y, 'g) Quality \<Rightarrow> string option \<times> ('y, 'g) Quality" where
  "runQualityAutoFix st repairs runs now qualityErr q =
     (if cPool (qyC q) = None then (Some ''auto-fix: no worker pool available'', q)
      else case cWorkUnit (qyC q) of
        None \<Rightarrow> (Some ''auto-fix: no task loaded'', q)
      | Some wu \<Rightarrow> autoFixLoop st repairs runs wu now (autoFixLimit st) (autoFixLimit st) qualityErr q)"

definition runQualityGate ::
  "QualitySettings \<Rightarrow> (nat \<Rightarrow> Repair) \<Rightarrow> (nat \<Rightarrow> GateRun) \<Rightarrow> time \<Rightarrow> ('y, 'g) Quality \<Rightarrow> string option \<times> ('y, 'g) Quality" where
  "runQualityGate st repairs runs now q =
     (case runQualityGateChecks st (runs 0) now q of
        (None, q1) \<Rightarrow> (None, q1)
      | (Some err, q1) \<Rightarrow> if shouldAutoFix st q1 then runQualityAutoFix st repairs runs now err q1 else (Some err, q1))"

text \<open>
  The background run of a review: its result is stored in the work unit, if a task is still loaded; a panic counts as a
  failure.
\<close>

definition storeGateResult :: "('y, 'g) Env \<Rightarrow> time \<Rightarrow> string option \<Rightarrow> ('y, 'g) Conductor \<Rightarrow> ('y, 'g) Conductor" where
  "storeGateResult env now err c =
     (if cWorkUnit c = None then c
      else persistState env now (updateWorkUnit (\<lambda>wu. wu\<lparr>wuQualityGatePassed := Some (err = None),
             wuQualityGateError := (case err of None \<Rightarrow> [] | Some e \<Rightarrow> e), wuUpdatedAt := now\<rparr>) c))"

definition runQualityGateAsync ::
  "('y, 'g) Env \<Rightarrow> QualitySettings \<Rightarrow> (nat \<Rightarrow> Repair) \<Rightarrow> (nat \<Rightarrow> GateRun) \<Rightarrow> string option \<Rightarrow> time \<Rightarrow> ('y, 'g) Quality \<Rightarrow> ('y, 'g) Quality" where
  "runQualityGateAsync env st repairs runs panic now q =
     (case panic of
        Some r \<Rightarrow> q\<lparr>qyC := storeGateResult env now (Some (''panic: '' @ r)) (qyC q)\<rparr>
      | None \<Rightarrow>
          (case runQualityGate st repairs runs now q of (err, q1) \<Rightarrow> q1\<lparr>qyC := storeGateResult env now err (qyC q1)\<rparr>))"

end
