(* ===== verification/Quality_Properties.thy ===== *)
theory Quality_Properties
  imports Quality_Run
begin

text \<open>What the quality gate decides, and when it repairs.\<close>

section \<open>Blockers\<close>

lemma sameFinding_refl [simp]: "sameFinding f f"
  by (simp add: sameFinding_def)

lemma containsFinding_iff: "containsFinding bs f \<longleftrightarrow> (\<exists>b \<in> set bs. sameFinding b f)"
  by (auto simp: containsFinding_def list_ex_iff)

lemma containsFinding_append: "containsFinding (as @ bs) f \<longleftrightarrow> containsFinding as f \<or> containsFinding bs f"
  by (auto simp: containsFinding_iff)

lemma addBlockers_Nil [simp]: "addBlockers [] bs = bs"
  by (simp add: addBlockers_def)

lemma addBlockers_Cons:
  "addBlockers (g # gs) bs = addBlockers gs (if containsFinding bs g then bs else bs @ [g])"
  by (simp add: addBlockers_def)

text \<open>Findings are only appended, only new ones, and each is represented afterwards.\<close>

lemma addBlockers_extends:
  "\<exists>new. addBlockers gs bs = bs @ new \<and> set new \<subseteq> set gs \<and> (\<forall>g \<in> set gs. containsFinding (bs @ new) g) \<and>
     (sorted_wrt (\<lambda>a b. \<not> sameFinding a b) bs \<longrightarrow> sorted_wrt (\<lambda>a b. \<not> sameFinding a b) (bs @ new))"
proof (induction gs arbitrary: bs)
  case (Cons g gs)
  let ?bs = "if containsFinding bs g then bs else bs @ [g]"
  obtain new where new: "addBlockers gs ?bs = ?bs @ new" "set new \<subseteq> set gs" "\<forall>g \<in> set gs. containsFinding (?bs @ new) g"
      "sorted_wrt (\<lambda>a b. \<not> sameFinding a b) ?bs \<longrightarrow> sorted_wrt (\<lambda>a b. \<not> sameFinding a b) (?bs @ new)"
    using Cons.IH by blast
  let ?new = "if containsFinding bs g then new else g # new"
  have "sorted_wrt (\<lambda>a b. \<not> sameFinding a b) bs \<Longrightarrow> sorted_wrt (\<lambda>a b. \<not> sameFinding a b) ?bs"
    by (auto simp: sorted_wrt_append containsFinding_iff)
  moreover have "?bs @ new = bs @ ?new" by simp
  moreover have "containsFinding (bs @ ?new) g" by (auto simp: containsFinding_append containsFinding_iff)
  moreover have "set ?new \<subseteq> set (g # gs)" using new(2) by auto
  ultimately show ?case using new(1,3,4) unfolding addBlockers_Cons by (intro exI [of _ ?new]) (metis set_ConsD)
qed simp

definition blockedBy :: "Gate list \<Rightarrow> Finding list \<Rightarrow> Finding set" where
  "blockedBy gates ff = (\<Union>g \<in> set gates. set (gateEvaluate g ff))"

lemma gateUnion_extends:
  "\<exists>new. gateUnion gs ff bs = bs @ new \<and> set new \<subseteq> blockedBy gs ff \<and> (\<forall>f \<in> blockedBy gs ff. containsFinding (bs @ new) f) \<and>
     (sorted_wrt (\<lambda>a b. \<not> sameFinding a b) bs \<longrightarrow> sorted_wrt (\<lambda>a b. \<not> sameFinding a b) (bs @ new))"
proof (induction gs arbitrary: bs)
  case (Cons g gs)
  obtain as where as: "addBlockers (gateEvaluate g ff) bs = bs @ as" "set as \<subseteq> set (gateEvaluate g ff)"
      "\<forall>f \<in> set (gateEvaluate g ff). containsFinding (bs @ as) f"
      "sorted_wrt (\<lambda>a b. \<not> sameFinding a b) bs \<longrightarrow> sorted_wrt (\<lambda>a b. \<not> sameFinding a b) (bs @ as)"
    using addBlockers_extends by blast
  obtain new where new: "gateUnion gs ff (bs @ as) = (bs @ as) @ new" "set new \<subseteq> blockedBy gs ff"
      "\<forall>f \<in> blockedBy gs ff. containsFinding ((bs @ as) @ new) f"
      "sorted_wrt (\<lambda>a b. \<not> sameFinding a b) (bs @ as) \<longrightarrow> sorted_wrt (\<lambda>a b. \<not> sameFinding a b) ((bs @ as) @ new)"
    using Cons.IH by blast
  have "gateUnion (g # gs) ff bs = bs @ as @ new" using as(1) new(1) by simp
  moreover have "set (as @ new) \<subseteq> blockedBy (g # gs) ff" using as(2) new(2) by (auto simp: blockedBy_def)
  moreover have "\<forall>f \<in> blockedBy (g # gs) ff. containsFinding (bs @ as @ new) f"
    using as(3) new(3) by (auto simp: blockedBy_def containsFinding_append)
  ultimately show ?case using as(4) new(4) by (intro exI [of _ "as @ new"]) simp
qed (simp add: blockedBy_def)

lemma gateUnion_outcome:
  shows "set (gateUnion gs ff []) \<subseteq> blockedBy gs ff"
    and "\<forall>f \<in> blockedBy gs ff. containsFinding (gateUnion gs ff []) f"
    and "sorted_wrt (\<lambda>a b. \<not> sameFinding a b) (gateUnion gs ff [])"
    and "gateUnion gs ff [] = [] \<longleftrightarrow> blockedBy gs ff = {}"
proof -
  obtain new where n: "gateUnion gs ff [] = new" "set new \<subseteq> blockedBy gs ff" "\<forall>f \<in> blockedBy gs ff. containsFinding new f"
      "sorted_wrt (\<lambda>a b. \<not> sameFinding a b) new"
    using gateUnion_extends [of gs ff "[]"] by auto
  then show "set (gateUnion gs ff []) \<subseteq> blockedBy gs ff" "\<forall>f \<in> blockedBy gs ff. containsFinding (gateUnion gs ff []) f"
    "sorted_wrt (\<lambda>a b. \<not> sameFinding a b) (gateUnion gs ff [])"
    by simp_all
  show "gateUnion gs ff [] = [] \<longleftrightarrow> blockedBy gs ff = {}" using n(1-3) by (force simp: containsFinding_iff)
qed

section \<open>Checkers\<close>

definition checkerSucceeds :: "CheckerRun \<Rightarrow> bool" where
  "checkerSucceeds c \<longleftrightarrow> ckCancelled c = None \<and> (case ckResult c of Inr _ \<Rightarrow> True | Inl _ \<Rightarrow> False)"

definition foundBy :: "CheckerRun \<Rightarrow> Finding list" where
  "foundBy c = (case ckResult c of Inr ff \<Rightarrow> ff | Inl _ \<Rightarrow> [])"

definition checkerError :: "CheckerRun \<Rightarrow> string" where
  "checkerError c = (case ckCancelled c of Some err \<Rightarrow> err
     | None \<Rightarrow> (case ckResult c of Inl err \<Rightarrow> ''checker '' @ ckName c @ '': '' @ err | Inr _ \<Rightarrow> []))"

lemma collectFindings_cases:
  "collectFindings cs ff = (case find (\<lambda>c. \<not> checkerSucceeds c) cs of
     Some c \<Rightarrow> Inl (checkerError c) | None \<Rightarrow> Inr (ff @ concat (map foundBy cs)))"
  by (induction cs arbitrary: ff) (auto simp: checkerSucceeds_def foundBy_def checkerError_def split: option.splits sum.splits)

text \<open>
  Checkers and gates. \<^verbatim>\<open>RunGates\<close> fails exactly if a checker was cancelled or failed, with the error of the first one.
  Otherwise it passes exactly if no gate blocks a finding; each reported blocker is a finding that some gate blocks, none
  is reported twice, and every blocked finding is reported, itself or as one with its identifier.
\<close>

theorem run_gates_exact:
  "case find (\<lambda>c. \<not> checkerSucceeds c) checkers of
     Some c \<Rightarrow> RunGates checkers gates = Inl (checkerError c)
   | None \<Rightarrow> (\<exists>r. RunGates checkers gates = Inr r \<and>
      (let ff = concat (map foundBy checkers) in
       grTotal r = length ff \<and> grBlocked r = length (grBlockers r) \<and>
       (grPassed r \<longleftrightarrow> blockedBy gates ff = {}) \<and>
       set (grBlockers r) \<subseteq> blockedBy gates ff \<and>
       sorted_wrt (\<lambda>a b. \<not> sameFinding a b) (grBlockers r) \<and>
       (\<forall>f \<in> blockedBy gates ff. \<exists>b \<in> set (grBlockers r). sameFinding b f)))"
  using gateUnion_outcome [of gates "concat (map foundBy checkers)"]
  by (auto simp: RunGates_def collectFindings_cases Let_def containsFinding_iff split: option.splits)

theorem run_gates_exact_witness:
  "\<exists>r. RunGates [\<lparr>ckName = ''vet'', ckCancelled = None, ckResult = Inr [zeroFinding]\<rparr>] [NoErrorsGate] = Inr r \<and> \<not> grPassed r"
  using run_gates_exact [of "[\<lparr>ckName = ''vet'', ckCancelled = None, ckResult = Inr [zeroFinding]\<rparr>]" "[NoErrorsGate]"]
  by (auto simp: checkerSucceeds_def foundBy_def Let_def blockedBy_def zeroFinding_def severities)

section \<open>Old and flaky findings\<close>

text \<open>The finding is dropped by the filter: it is on, has the hunks of the diff, and they prove the finding to be old.\<close>

definition dropsOld :: "GateRun \<Rightarrow> Finding \<Rightarrow> bool" where
  "dropsOld run f \<longleftrightarrow> gnHoldTheLine run \<noteq> Some False \<and> gnGitOpen run \<and>
     (case gnBase run of Inl _ \<Rightarrow> False | Inr b \<Rightarrow>
       (case gnDiffHunks run b of Inl _ \<Rightarrow> False | Inr raw \<Rightarrow> preExisting (convertHunks raw) f))"

lemma classifyOne_fields [simp]:
  "fnMessage (classifyOne h f) = fnMessage f" "fnRule (classifyOne h f) = fnRule f"
  by (simp_all add: classifyOne_def split: option.splits)

lemma holdTheLine_map:
  "\<exists>h. holdTheLine run ff = map h (filter (\<lambda>f. \<not> dropsOld run f) ff) \<and>
     (\<forall>f. fnMessage (h f) = fnMessage f \<and> fnRule (h f) = fnRule f \<and> fnSeverity (h f) = fnSeverity f)"
proof (cases "\<exists>b raw. gnHoldTheLine run \<noteq> Some False \<and> gnGitOpen run \<and> gnBase run = Inr b \<and> gnDiffHunks run b = Inr raw")
  case True
  then obtain b raw where "gnHoldTheLine run \<noteq> Some False" "gnGitOpen run" "gnBase run = Inr b" "gnDiffHunks run b = Inr raw" by blast
  then show ?thesis
    by (intro exI [of _ "classifyOne (convertHunks raw)"])
      (auto simp: holdTheLine_def classifyFindings_def FilterIntroduced_Classify dropsOld_def)
next
  case False
  then have "holdTheLine run ff = ff" "\<forall>f. \<not> dropsOld run f"
    by (auto simp: holdTheLine_def classifyFindings_def dropsOld_def split: sum.splits)
  then show ?thesis by (intro exI [of _ id]) simp
qed

definition historyOf :: "QualitySettings \<Rightarrow> ('y, 'g) Quality \<Rightarrow> FailHistory" where
  "historyOf st q = (case qyHistory q of Some h \<Rightarrow> h
     | None \<Rightarrow> NewFailHistory (if qsHistoryWindow st = 0 then 10 else qsHistoryWindow st))"

definition flaky :: "QualitySettings \<Rightarrow> ('y, 'g) Quality \<Rightarrow> Finding \<Rightarrow> bool" where
  "flaky st q f \<longleftrightarrow> qsClassification st \<and> classify (NewFailClassifier (Some (historyOf st q))) f = ClassificationFlaky"

lemma classify_cong: "fnMessage f = fnMessage g \<Longrightarrow> fnRule f = fnRule g \<Longrightarrow> classify c f = classify c g"
  by (simp add: classify_def cong: option.case_cong)

lemma classify_known:
  "classify (NewFailClassifier h) f \<in> {ClassificationFlaky, ClassificationGenuine, ClassificationIntermittent}"
proof (cases "find (\<lambda>p. MatchString (fpRegex p) (fnMessage f)) DefaultFailPatterns")
  case (Some p)
  then have "p \<in> set DefaultFailPatterns" by (metis find_Some_iff nth_mem)
  then have "fpClass p \<in> {ClassificationFlaky, ClassificationIntermittent}" by (auto simp: DefaultFailPatterns_def)
  with Some show ?thesis by (auto simp: classify_def NewFailClassifier_def)
qed (simp add: classify_def NewFailClassifier_def)

lemma failStats_counts:
  "fsGenuine (fold countOne ff s) = fsGenuine s + length (filter (\<lambda>f. fnClassification f = ClassificationGenuine) ff)"
  "fsIntermittent (fold countOne ff s) = fsIntermittent s + length (filter (\<lambda>f. fnClassification f = ClassificationIntermittent) ff)"
  by (induction ff arbitrary: s) (auto simp: countOne_def classifications)

lemma applyFailureClassification_passes:
  "fst (applyFailureClassification st ff q) = [] \<longleftrightarrow> (\<forall>f \<in> set ff. flaky st q f)"
proof (cases "qsClassification st")
  case True
  let ?c = "NewFailClassifier (Some (historyOf st q))"
  have c: "classify ?c f = ClassificationFlaky \<longleftrightarrow> classify ?c f \<noteq> ClassificationGenuine \<and> classify ?c f \<noteq> ClassificationIntermittent" for f
    using classify_known [of "Some (historyOf st q)" f] by (auto simp: classifications)
  have h: "(case qyHistory q of None \<Rightarrow> NewFailHistory (if qsHistoryWindow st = 0 then 10 else qsHistoryWindow st) | Some h \<Rightarrow> h) = historyOf st q"
    by (simp add: historyOf_def split: option.splits)
  have "fst (applyFailureClassification st ff q) = [] \<longleftrightarrow> (\<forall>f \<in> set ff. classify ?c f = ClassificationFlaky)"
    using True unfolding applyFailureClassification_def Let_def h
    by (auto simp: failStats_def failStats_counts Classify_def filter_empty_conv c)
  then show ?thesis using True by (simp add: flaky_def)
qed (auto simp: applyFailureClassification_def flaky_def)

lemma blockOn_passes:
  "fst (blockOn st run line ff q) = None \<longleftrightarrow> (\<forall>f \<in> set ff. dropsOld run f \<or> flaky st q f)"
proof -
  obtain h where h: "holdTheLine run ff = map h (filter (\<lambda>f. \<not> dropsOld run f) ff)"
    "\<And>f. fnMessage (h f) = fnMessage f \<and> fnRule (h f) = fnRule f"
    using holdTheLine_map by blast
  have f: "flaky st q (h f) \<longleftrightarrow> flaky st q f" for f
    unfolding flaky_def using classify_cong [of "h f" f] h(2) by metis
  have "fst (blockOn st run line ff q) = None \<longleftrightarrow> (\<forall>f \<in> set (holdTheLine run ff). flaky st q f)"
    using applyFailureClassification_passes [of st "holdTheLine run ff" q]
    by (auto simp: blockOn_def Let_def split: prod.splits)
  then show ?thesis unfolding h(1) by (auto simp: f)
qed

definition severe :: "Finding \<Rightarrow> bool" where
  "severe f \<longleftrightarrow> fnSeverity f \<in> {SeverityCritical, SeverityHigh} \<or> fnCategory f = CategorySecurity"

lemma blockedBy_default: "blockedBy [NoErrorsGate, NoSecurityIssuesGate] ff = {f \<in> set ff. severe f}"
  by (auto simp: blockedBy_def severe_def)

lemma unified_gate_passes:
  assumes "list_all checkerSucceeds (gnCheckers run)"
    and "inj_on fnID (set (concat (map foundBy (gnCheckers run))))"
    and "\<forall>f \<in> set (concat (map foundBy (gnCheckers run))). fnID f \<noteq> []"
  shows "fst (runUnifiedQualityGates st run q) = None \<longleftrightarrow>
    (\<forall>f \<in> set (concat (map foundBy (gnCheckers run))). severe f \<longrightarrow> dropsOld run f \<or> flaky st q f)"
proof -
  let ?gates = "[NoErrorsGate, NoSecurityIssuesGate]" and ?ff = "concat (map foundBy (gnCheckers run))"
  let ?bs = "gateUnion ?gates ?ff []"
  have none: "find (\<lambda>c. \<not> checkerSucceeds c) (gnCheckers run) = None" using assms(1) by (auto simp: find_None_iff list_all_iff)
  note u = gateUnion_outcome [of ?gates ?ff, unfolded blockedBy_default]
  have "f \<in> set ?bs" if f: "f \<in> set ?ff" "severe f" for f
  proof -
    obtain b where b: "b \<in> set ?bs" "sameFinding b f" using u(2) f by (auto simp: containsFinding_iff)
    then have "b \<in> set ?ff" "fnID b = fnID f" using u(1) by (auto simp: sameFinding_def)
    with assms(2) f(1) b(1) show ?thesis by (metis inj_onD)
  qed
  with u(1) have "set ?bs = {f \<in> set ?ff. severe f}" by blast
  moreover have "fst (runUnifiedQualityGates st run q) = None \<longleftrightarrow> ?bs = [] \<or> fst (blockOn st run findingLine ?bs q) = None"
    by (simp add: runUnifiedQualityGates_def RunGates_def collectFindings_cases none Let_def)
  ultimately show ?thesis unfolding blockOn_passes by (cases "?bs = []") auto
qed


text \<open>
  C16: What the checkers' part of the quality gate lets through: \<^verbatim>\<open>runUnifiedQualityGates\<close>, the first of the four groups of
  checks of the gate; the structured runner, the security scan and the external review come after it. If every checker runs
  to its end, and the findings have identifiers that are not empty and tell them apart, it passes exactly if every
  finding that is high, critical or about security is either on a line that the diff shows to be old or classified as
  flaky; otherwise it returns an error.
\<close>

theorem unified_gate_decides:
  assumes "list_all checkerSucceeds (gnCheckers run)"
    and "inj_on fnID (set (concat (map foundBy (gnCheckers run))))"
    and "\<forall>f \<in> set (concat (map foundBy (gnCheckers run))). fnID f \<noteq> []"
  shows "fst (runUnifiedQualityGates st run q) = None \<longleftrightarrow>
    (\<forall>f \<in> set (concat (map foundBy (gnCheckers run))). severe f \<longrightarrow> dropsOld run f \<or> flaky st q f)"
  by (rule unified_gate_passes [OF assms])

definition demo_gate_run :: GateRun where
  "demo_gate_run = \<lparr>gnCheckers = [\<lparr>ckName = ''vet'', ckCancelled = None, ckResult = Inr
       [zeroFinding\<lparr>fnID := ''a'', fnFile := ''x.go'', fnLine := 5, fnMessage := ''unused''\<rparr>,
        zeroFinding\<lparr>fnID := ''b'', fnMessage := ''Timeout''\<rparr>]\<rparr>],
     gnRunner = None, gnHoldTheLine = None, gnGitOpen = True, gnBase = Inr ''main'', gnDiffHunks = (\<lambda>_. Inr (\<lambda>_. None)),
     gnReports = Inr [], gnToolFound = False, gnAnswer = Inr False, gnReview = None\<rparr>"

definition demo_gate_settings :: QualitySettings where
  "demo_gate_settings = \<lparr>qsClassification = True, qsHistoryWindow = 0, qsSecurityScan = True, qsCommand = [], qsMode = [],
     qsAutoFix = True, qsMaxAttempts = 2, qsPhases = []\<rparr>"

definition demo_quality :: "(TaskState, string list) Quality" where
  "demo_quality = \<lparr>qyC = demo_conductor demo_submitted, qyHistory = None, qyAttempt = 0, qyLastErr = [], qyPrompts = []\<rparr>"

theorem unified_gate_decides_witness:
  "fst (runUnifiedQualityGates demo_gate_settings demo_gate_run demo_quality) = None"
proof -
  have "list_all checkerSucceeds (gnCheckers demo_gate_run)" by code_simp
  moreover have ff: "set (concat (map foundBy (gnCheckers demo_gate_run))) =
      {zeroFinding\<lparr>fnID := ''a'', fnFile := ''x.go'', fnLine := 5, fnMessage := ''unused''\<rparr>, zeroFinding\<lparr>fnID := ''b'', fnMessage := ''Timeout''\<rparr>}"
    by (simp add: demo_gate_run_def foundBy_def)
  moreover have "flaky demo_gate_settings demo_quality (zeroFinding\<lparr>fnID := ''b'', fnMessage := ''Timeout''\<rparr>)" by code_simp
  moreover have "dropsOld demo_gate_run (zeroFinding\<lparr>fnID := ''a'', fnFile := ''x.go'', fnLine := 5, fnMessage := ''unused''\<rparr>)"
    by (simp add: dropsOld_def demo_gate_run_def preExisting_def convertHunks_def)
  ultimately show ?thesis
    using unified_gate_decides [of demo_gate_run demo_gate_settings demo_quality] by (simp add: ff inj_on_def)
qed

section \<open>Output of tools\<close>

lemma lineFinding_fields:
  "fnFile (lineFinding sha256 source line) = []" "severe (lineFinding sha256 source line)"
  "fnMessage (lineFinding sha256 source line) = line"
  by (simp_all add: lineFinding_def severe_def zeroFinding_def)

lemma dropsOld_needs_file: "dropsOld run f \<Longrightarrow> fnFile f \<noteq> []"
  by (auto simp: dropsOld_def preExisting_def split: sum.splits)

lemma blocked_stays:
  assumes "list_all checkerSucceeds (gnCheckers run)" "f \<in> set (concat (map foundBy (gnCheckers run)))" "severe f"
    and "\<And>g. sameFinding g f \<Longrightarrow> g \<in> set (concat (map foundBy (gnCheckers run))) \<Longrightarrow> \<not> dropsOld run g \<and> \<not> flaky st q g"
  shows "fst (runUnifiedQualityGates st run q) \<noteq> None"
proof -
  let ?gates = "[NoErrorsGate, NoSecurityIssuesGate]" and ?ff = "concat (map foundBy (gnCheckers run))"
  let ?bs = "gateUnion ?gates ?ff []"
  have none: "find (\<lambda>c. \<not> checkerSucceeds c) (gnCheckers run) = None" using assms(1) by (auto simp: find_None_iff list_all_iff)
  note u = gateUnion_outcome [of ?gates ?ff, unfolded blockedBy_default]
  obtain b where b: "b \<in> set ?bs" "sameFinding b f" using u(2) assms(2,3) by (auto simp: containsFinding_iff)
  with u(1) have "b \<in> set ?ff" by blast
  with assms(4) b have "\<not> dropsOld run b" "\<not> flaky st q b" by blast+
  with b(1) have "fst (blockOn st run findingLine ?bs q) \<noteq> None" unfolding blockOn_passes by blast
  moreover have "?bs \<noteq> []" using b(1) by auto
  ultimately show ?thesis by (simp add: runUnifiedQualityGates_def RunGates_def collectFindings_cases none Let_def)
qed

text \<open>
  The lines that a tool prints have no file, so no diff shows them to be old: if a tool fails and prints a line, the
  gate of a project with only such tools fails for every diff (unless failures are classified), also if the problem
  is in a file that the task did not touch.
\<close>

theorem tool_output_blocks_for_every_diff:
  assumes "gnCheckers run = [\<lparr>ckName = name, ckCancelled = None, ckResult = Inr (parseLineFindings sha256 source text)\<rparr>]"
    and "parseLineFindings sha256 source text \<noteq> []" "\<not> qsClassification st"
  shows "fst (runUnifiedQualityGates st run q) \<noteq> None"
proof -
  have ff: "concat (map foundBy (gnCheckers run)) = parseLineFindings sha256 source text" using assms(1) by (simp add: foundBy_def)
  have all: "fnFile g = [] \<and> severe g" if "g \<in> set (parseLineFindings sha256 source text)" for g
    using that lineFinding_fields by (auto simp: parseLineFindings_def)
  obtain f where f: "f \<in> set (parseLineFindings sha256 source text)" using assms(2) by (meson last_in_set)
  show ?thesis
  proof (rule blocked_stays [of run f])
    show "list_all checkerSucceeds (gnCheckers run)" using assms(1) by (simp add: checkerSucceeds_def)
    show "f \<in> set (concat (map foundBy (gnCheckers run)))" "severe f" using f all by (simp_all only: ff)
    show "\<not> dropsOld run g \<and> \<not> flaky st q g" if "g \<in> set (concat (map foundBy (gnCheckers run)))" for g
      using that all dropsOld_needs_file assms(3) unfolding ff flaky_def by blast
  qed
qed

definition lint_run :: GateRun where
  "lint_run = demo_gate_run\<lparr>gnCheckers := [\<lparr>ckName = ''python'', ckCancelled = None,
     ckResult = Inr (parseLineFindings id ''ruff'' ''a.py:1: F401'')\<rparr>]\<rparr>"

theorem tool_output_blocks_for_every_diff_witness:
  "fst (runUnifiedQualityGates (demo_gate_settings\<lparr>qsClassification := False\<rparr>) lint_run demo_quality) \<noteq> None"
proof -
  have "parseLineFindings id ''ruff'' ''a.py:1: F401'' \<noteq> []"
    by (simp add: parseLineFindings_def scanLines.simps MaxScanTokenSize_def dropCR_def trimSpace_def isSpace_def)
  then show ?thesis
    by (intro tool_output_blocks_for_every_diff [of _ "''python''" id "''ruff''" "''a.py:1: F401''"])
      (simp_all add: lint_run_def demo_gate_settings_def)
qed

section \<open>The history of failures\<close>

definition unrecorded :: "('y, 'g) Quality \<Rightarrow> bool" where
  "unrecorded q \<longleftrightarrow> (\<forall>h. qyHistory q = Some h \<longrightarrow> fhRecords h = [])"

text \<open>What no step of the gate changes: the machine, the pool and the emptiness of the history.\<close>

definition sameTask :: "('y, 'g) Quality \<Rightarrow> ('y, 'g) Quality \<Rightarrow> bool" where
  "sameTask q q' \<longleftrightarrow> cMachine (qyC q') = cMachine (qyC q) \<and> cPool (qyC q') = cPool (qyC q) \<and> (unrecorded q \<longrightarrow> unrecorded q')"

lemma sameTask_refl [simp]: "sameTask q q"
  by (simp add: sameTask_def)

lemma sameTask_trans: "sameTask a b \<Longrightarrow> sameTask b c \<Longrightarrow> sameTask a c"
  by (simp add: sameTask_def)

lemma emits_sameTask [simp]:
  "sameTask q (emitQ now typ msg q)" "sameTask q (emitBare now typ jobID msg q)" "sameTask q (clearAutoFixState q)"
  "sameTask q (q\<lparr>qyAttempt := n, qyLastErr := e\<rparr>)" "sameTask q (q\<lparr>qyPrompts := ps\<rparr>)"
  by (simp_all add: sameTask_def emitQ_def emitBare_def clearAutoFixState_def unrecorded_def emitMsg_fields emit_fields)

lemma emits_prompts [simp]:
  "qyPrompts (emitQ now typ msg q) = qyPrompts q" "qyPrompts (emitBare now typ jobID msg q) = qyPrompts q"
  "qyPrompts (clearAutoFixState q) = qyPrompts q"
  by (simp_all add: emitQ_def emitBare_def clearAutoFixState_def)

lemma classification_steps [simp]:
  "sameTask q (snd (applyFailureClassification st ff q))" "qyPrompts (snd (applyFailureClassification st ff q)) = qyPrompts q"
  by (auto simp: applyFailureClassification_def Let_def sameTask_def unrecorded_def NewFailHistory_def split: option.splits)

lemma blockOn_steps [simp]:
  "sameTask q (snd (blockOn st run line ff q))" "qyPrompts (snd (blockOn st run line ff q)) = qyPrompts q"
  by (simp_all add: blockOn_def Let_def case_prod_beta)

lemma group_steps [simp]:
  "sameTask q (snd (runUnifiedQualityGates st run q))" "qyPrompts (snd (runUnifiedQualityGates st run q)) = qyPrompts q"
  "sameTask q (snd (runStructuredQualityGates st run q))" "qyPrompts (snd (runStructuredQualityGates st run q)) = qyPrompts q"
  "sameTask q (snd (qualityGateSecurity st run now q))" "qyPrompts (snd (qualityGateSecurity st run now q)) = qyPrompts q"
  "sameTask q (snd (qualityGateExternalReview st run now q))" "qyPrompts (snd (qualityGateExternalReview st run now q)) = qyPrompts q"
  by (auto simp: runUnifiedQualityGates_def runStructuredQualityGates_def qualityGateSecurity_def qualityGateExternalReview_def
      promptUser_def Let_def split: sum.splits option.splits prod.splits bool.splits)

lemma checks_steps:
  assumes "runQualityGateChecks st run now q = (err, q')"
  shows "sameTask q q' \<and> qyPrompts q' = qyPrompts q"
proof -
  obtain e1 q1 where 1: "runUnifiedQualityGates st run q = (e1, q1)" by fastforce
  obtain e2 q2 where 2: "runStructuredQualityGates st run q1 = (e2, q2)" by fastforce
  obtain e3 q3 where 3: "qualityGateSecurity st run now q2 = (e3, q3)" by fastforce
  obtain e4 q4 where 4: "qualityGateExternalReview st run now q3 = (e4, q4)" by fastforce
  have "sameTask q q1 \<and> qyPrompts q1 = qyPrompts q" using group_steps(1,2) [where q = q and st = st and run = run] 1 by simp
  moreover have "sameTask q1 q2 \<and> qyPrompts q2 = qyPrompts q1" using group_steps(3,4) [where q = q1 and st = st and run = run] 2 by simp
  moreover have "sameTask q2 q3 \<and> qyPrompts q3 = qyPrompts q2" using group_steps(5,6) [where q = q2 and st = st and run = run and now = now] 3 by simp
  moreover have "sameTask q3 q4 \<and> qyPrompts q4 = qyPrompts q3" using group_steps(7,8) [where q = q3 and st = st and run = run and now = now] 4 by simp
  ultimately show ?thesis using assms 1 2 3 4
    by (auto simp: runQualityGateChecks_def split: option.splits intro: sameTask_trans)
qed

lemma waitForEvents_steps: "waitForEvents now jobID items q = (err, q') \<Longrightarrow> sameTask q q' \<and> qyPrompts q' = qyPrompts q"
  by (induction now jobID items q rule: waitForEvents.induct)
    (auto simp: Let_def split: if_splits dest: sameTask_trans [OF emits_sameTask(2)])

lemma waitForAutoFixJob_steps: "waitForAutoFixJob now jobID r q = (err, q') \<Longrightarrow> sameTask q q' \<and> qyPrompts q' = qyPrompts q"
  using waitForEvents_steps by (fastforce simp: waitForAutoFixJob_def split: option.splits)


text \<open>
  A repair loop: at most one prompt per attempt; the result is success only if the checks passed after one of the
  attempts; and the tracking fields are reset.
\<close>

definition repaired ::
  "QualitySettings \<Rightarrow> (nat \<Rightarrow> GateRun) \<Rightarrow> time \<Rightarrow> nat \<Rightarrow> nat \<Rightarrow> ('y, 'g) Quality \<Rightarrow> string option \<Rightarrow> ('y, 'g) Quality \<Rightarrow> bool" where
  "repaired st runs now limit n q err q' \<longleftrightarrow>
     sameTask q q' \<and> length (qyPrompts q') \<le> length (qyPrompts q) + n \<and> qyAttempt q' = 0 \<and> qyLastErr q' = [] \<and>
     (err = None \<longrightarrow> (\<exists>k q1 q2 msg. limit - n < k \<and> k \<le> limit \<and> runQualityGateChecks st (runs k) now q1 = (None, q2) \<and>
        q' = clearAutoFixState (emitQ now ''autofix_success'' msg q2)))"

lemma repaired_cleared:
  "sameTask q q1 \<Longrightarrow> length (qyPrompts q1) \<le> length (qyPrompts q) + n \<Longrightarrow> repaired st runs now limit n q (Some e) (clearAutoFixState q1)"
  using sameTask_trans [OF _ emits_sameTask(3)] by (auto simp: repaired_def clearAutoFixState_def)

lemma repaired_passed:
  assumes "sameTask q q2" "length (qyPrompts q2) \<le> length (qyPrompts q) + n" "limit - n < k" "k \<le> limit"
    and "runQualityGateChecks st (runs k) now q1 = (None, q2)"
  shows "repaired st runs now limit n q None (clearAutoFixState (emitQ now ''autofix_success'' msg q2))"
proof -
  have "sameTask q (clearAutoFixState (emitQ now ''autofix_success'' msg q2))"
    using assms(1) sameTask_trans [OF emits_sameTask(1) emits_sameTask(3)] by (rule sameTask_trans)
  moreover have "qyAttempt (clearAutoFixState q0) = 0 \<and> qyLastErr (clearAutoFixState q0) = []" for q0 :: "('a, 'b) Quality"
    by (simp add: clearAutoFixState_def)
  ultimately show ?thesis using assms(2-5) unfolding repaired_def by auto
qed

lemma repaired_more:
  assumes "repaired st runs now limit n q1 err q'" "sameTask q q1" "length (qyPrompts q1) \<le> length (qyPrompts q) + 1" "Suc n \<le> limit"
  shows "repaired st runs now limit (Suc n) q err q'"
proof -
  have "sameTask q q'" using sameTask_trans [OF assms(2)] assms(1) by (simp add: repaired_def)
  moreover have "limit - Suc n < k" if "limit - n < k" for k using that by arith
  ultimately show ?thesis using assms(1,3) unfolding repaired_def by fastforce
qed

lemma autoFixLoop_outcome:
  assumes "autoFixLoop st repairs runs wu now limit n lastErr q = (err, q')" "n \<le> limit"
  shows "repaired st runs now limit n q err q'"
  using assms
proof (induction n arbitrary: lastErr q)
  case 0
  then show ?case by (auto simp: exhausted_def intro!: repaired_cleared)
next
  case (Suc n)
  let ?a = "limit - n"
  define q1 where "q1 = emitQ now ''autofix_attempt'' (''Auto-fix attempt '' @ attemptOf ?a limit @ '': '' @ lastErr) (q\<lparr>qyAttempt := ?a, qyLastErr := lastErr\<rparr>)"
  have s1: "sameTask q q1" "qyPrompts q1 = qyPrompts q" unfolding q1_def by (auto intro: sameTask_trans [OF emits_sameTask(4) emits_sameTask(1)])
  show ?case
  proof (cases "rpSubmit (repairs ?a)")
    case (Inl e)
    with Suc.prems have "err = Some (''auto-fix: submit fix job: '' @ e)" "q' = clearAutoFixState q1" by (simp_all add: Let_def q1_def)
    with s1 show ?thesis by (auto intro!: repaired_cleared)
  next
    case (Inr jobID)
    define p where "p = buildQualityFixPrompt (wuTitle wu) (wuDescription wu) lastErr ?a"
    define q2 where "q2 = emitBare now ''autofix_started'' jobID (''Auto-fix agent started (attempt '' @ attemptOf ?a limit @ '')'')
        (q1\<lparr>qyPrompts := qyPrompts q1 @ [p]\<rparr>)"
    have "sameTask q1 q2" unfolding q2_def by (rule sameTask_trans [OF emits_sameTask(5) emits_sameTask(2)])
    with s1(1) have s2: "sameTask q q2" by (rule sameTask_trans)
    have p2: "qyPrompts q2 = qyPrompts q @ [p]" using s1(2) by (simp add: q2_def)
    obtain e q3 where w: "waitForAutoFixJob now jobID (repairs ?a) q2 = (e, q3)" by fastforce
    have s3: "sameTask q q3" "length (qyPrompts q3) \<le> length (qyPrompts q) + 1"
      using waitForAutoFixJob_steps [OF w] s2 sameTask_trans p2 by auto
    note unfolded = Let_def q1_def [symmetric] p_def [symmetric] q2_def [symmetric]
    show ?thesis
    proof (cases e)
      case (Some we)
      let ?q4 = "emitBare now ''autofix_job_failed'' [] (''Auto-fix attempt '' @ attemptOf ?a limit @ '' job failed: '' @ we) q3"
      have "autoFixLoop st repairs runs wu now limit n (if n = 0 then lastErr else we) ?q4 = (err, q')"
        using Suc.prems(1) unfolding autoFixLoop.simps unfolded Inr sum.case w Some option.case prod.case .
      from Suc.IH [OF this] Suc.prems(2) have "repaired st runs now limit n ?q4 err q'" by simp
      then show ?thesis
        by (rule repaired_more) (use s3 Suc.prems(2) sameTask_trans [OF s3(1) emits_sameTask(2)] in simp_all)
    next
      case None
      obtain g q4 where g: "runQualityGateChecks st (runs ?a) now q3 = (g, q4)" by fastforce
      have s4: "sameTask q q4" "length (qyPrompts q4) \<le> length (qyPrompts q) + 1"
        using checks_steps [OF g] s3 sameTask_trans by auto
      note step = Suc.prems(1) [unfolded autoFixLoop.simps unfolded Inr sum.case w None option.case prod.case g]
      show ?thesis
      proof (cases g)
        case None
        let ?q5 = "emitQ now ''autofix_success'' (''Auto-fix succeeded on attempt '' @ attemptOf ?a limit) q4"
        have "err = None" "q' = clearAutoFixState ?q5" using step None by simp_all
        then show ?thesis
          using repaired_passed [of q q4 "Suc n" limit ?a st runs now q3] g None s4 Suc.prems(2) by auto
      next
        case (Some ge)
        have "autoFixLoop st repairs runs wu now limit n ge q4 = (err, q')" using step Some by simp
        from Suc.IH [OF this] Suc.prems(2) have "repaired st runs now limit n q4 err q'" by simp
        then show ?thesis by (rule repaired_more) (use s4 Suc.prems(2) in simp_all)
      qed
    qed
  qed
qed


section \<open>Properties\<close>

text \<open>
  C32: The repairs of a failing gate are bounded and sound: at most as many repair jobs are submitted as attempts are
  configured (three by default), the tracking fields are reset at the end, the task and its state are untouched, and the
  gate passes after repairs only if the checks passed when they were run again after the last of the attempts.
\<close>

theorem repairs_are_bounded_and_sound:
  assumes "runQualityAutoFix st repairs runs now qualityErr q = (err, q')" "qyAttempt q = 0" "qyLastErr q = []"
  shows "cMachine (qyC q') = cMachine (qyC q) \<and> qyAttempt q' = 0 \<and> qyLastErr q' = [] \<and>
    length (qyPrompts q') \<le> length (qyPrompts q) + autoFixLimit st \<and>
    (err = None \<longrightarrow> (\<exists>k q1 q2 msg. 1 \<le> k \<and> k \<le> autoFixLimit st \<and> runQualityGateChecks st (runs k) now q1 = (None, q2) \<and>
        q' = clearAutoFixState (emitQ now ''autofix_success'' msg q2)))"
proof (cases "cPool (qyC q) = None \<or> cWorkUnit (qyC q) = None")
  case True
  with assms show ?thesis by (auto simp: runQualityAutoFix_def split: if_splits)
next
  case False
  then obtain wu where "autoFixLoop st repairs runs wu now (autoFixLimit st) (autoFixLimit st) qualityErr q = (err, q')"
    using assms(1) by (auto simp: runQualityAutoFix_def)
  from autoFixLoop_outcome [OF this] have "repaired st runs now (autoFixLimit st) (autoFixLimit st) q err q'" by simp
  then show ?thesis by (auto simp: repaired_def sameTask_def Suc_le_eq)
qed

definition demo_repairs :: "nat \<Rightarrow> Repair" where
  "demo_repairs k = \<lparr>rpSubmit = Inr ''j'', rpStream = Some [StreamEvent ''job_completed'' []]\<rparr>"

definition demo_broken :: GateRun where
  "demo_broken = demo_gate_run\<lparr>gnHoldTheLine := Some False\<rparr>"

theorem repairs_are_bounded_and_sound_witness:
  "length (qyPrompts (snd (runQualityAutoFix demo_gate_settings demo_repairs (\<lambda>k. if k = 2 then demo_gate_run else demo_broken) 5 ''lint'' demo_quality))) \<le> 2"
proof -
  let ?r = "runQualityAutoFix demo_gate_settings demo_repairs (\<lambda>k. if k = 2 then demo_gate_run else demo_broken) 5 ''lint'' demo_quality"
  have "?r = (fst ?r, snd ?r)" by simp
  moreover have "qyAttempt demo_quality = 0" "qyLastErr demo_quality = []" "qyPrompts demo_quality = []" by (simp_all add: demo_quality_def)
  ultimately have "length (qyPrompts (snd ?r)) \<le> 0 + autoFixLimit demo_gate_settings"
    using repairs_are_bounded_and_sound [of demo_gate_settings demo_repairs _ 5 "''lint''" demo_quality] by (metis list.size(3))
  moreover have "autoFixLimit demo_gate_settings = 2" by code_simp
  ultimately show ?thesis by simp
qed

lemma reviewing_gate:
  assumes "qyState q = StateReviewing"
  shows "runQualityGate st repairs runs now q = runQualityGateChecks st (runs 0) now q \<and>
    qyPrompts (snd (runQualityGate st repairs runs now q)) = qyPrompts q"
proof -
  obtain err q' where c: "runQualityGateChecks st (runs 0) now q = (err, q')" by fastforce
  have "sameTask q q'" "qyPrompts q' = qyPrompts q" using checks_steps [OF c] by simp_all
  then have "\<not> shouldAutoFix st q'" using assms by (simp add: shouldAutoFix_def stateToPhase_def sameTask_def)
  then show ?thesis using c \<open>qyPrompts q' = qyPrompts q\<close> by (simp add: runQualityGate_def split: option.splits)
qed

text \<open>
  The repairs never run. The gate is called by a review and by a submission, both in the reviewing state, which is
  not a phase in which repairs are allowed; so for every setting the gate is just the checks, and no repair job is
  submitted.
\<close>

theorem repairs_never_run_in_review:
  assumes "qyState q = StateReviewing"
  shows "runQualityGate st repairs runs now q = runQualityGateChecks st (runs 0) now q \<and>
    qyPrompts (snd (runQualityGate st repairs runs now q)) = qyPrompts q"
  by (rule reviewing_gate [OF assms])

definition demo_reviewing :: "(TaskState, string list) Quality" where
  "demo_reviewing = demo_quality\<lparr>qyC := demo_conductor (run_or_stay [EventStart, EventImplement, EventImplementDone, EventReview] demo_started)\<rparr>"

theorem repairs_never_run_in_review_witness:
  "fst (runQualityGate demo_gate_settings demo_repairs (\<lambda>k. if k = 0 then demo_broken else demo_gate_run) 5 demo_reviewing) \<noteq> None"
proof -
  have "qyState demo_reviewing = StateReviewing" by code_simp
  from repairs_never_run_in_review [OF this, of demo_gate_settings demo_repairs "\<lambda>k. if k = 0 then demo_broken else demo_gate_run" 5]
  have "runQualityGate demo_gate_settings demo_repairs (\<lambda>k. if k = 0 then demo_broken else demo_gate_run) 5 demo_reviewing =
      runQualityGateChecks demo_gate_settings demo_broken 5 demo_reviewing"
    by simp
  moreover have "fst (runQualityGateChecks demo_gate_settings demo_broken 5 demo_reviewing) \<noteq> None" by code_simp
  ultimately show ?thesis by simp
qed

lemma unrecorded_flaky:
  "unrecorded q \<Longrightarrow> flaky st q f \<longleftrightarrow> qsClassification st \<and> classify (NewFailClassifier None) f = ClassificationFlaky"
  by (auto simp: flaky_def historyOf_def unrecorded_def classify_def NewFailClassifier_def IsFlaky_def NewFailHistory_def split: option.splits)

lemma gate_unrecorded:
  assumes "unrecorded q"
  shows "unrecorded (snd (runQualityGate st repairs runs now q))"
proof -
  obtain e q1 where c: "runQualityGateChecks st (runs 0) now q = (e, q1)" by fastforce
  with assms have u: "unrecorded q1" using checks_steps [OF c] by (simp add: sameTask_def)
  obtain r q2 where a: "runQualityAutoFix st repairs runs now (the e) q1 = (r, q2)" by fastforce
  have "unrecorded q2"
    using a u autoFixLoop_outcome by (fastforce simp: runQualityAutoFix_def repaired_def sameTask_def split: if_splits option.splits)
  with u a c show ?thesis by (auto simp: runQualityGate_def split: option.splits)
qed

text \<open>
  The history of failures stays empty: the conductor creates it and asks it, but records no outcome, so after any
  number of gates whether a finding is flaky depends on its message alone.
\<close>

theorem failure_history_stays_empty:
  assumes "qyHistory q = None"
    and "q' = foldl (\<lambda>q (st, repairs, runs, now). snd (runQualityGate st repairs runs now q)) q gates"
  shows "flaky st q' f \<longleftrightarrow> qsClassification st \<and> classify (NewFailClassifier None) f = ClassificationFlaky"
proof -
  have "unrecorded (foldl (\<lambda>q (st, repairs, runs, now). snd (runQualityGate st repairs runs now q)) q gates)" if "unrecorded q" for q :: "('a, 'b) Quality"
    using that by (induction gates arbitrary: q) (auto intro: gate_unrecorded)
  moreover have "unrecorded q" using assms(1) by (simp add: unrecorded_def)
  ultimately show ?thesis using unrecorded_flaky assms(2) by blast
qed

theorem failure_history_stays_empty_witness:
  "\<not> flaky demo_gate_settings (snd (runQualityGate demo_gate_settings demo_repairs (\<lambda>_. demo_broken) 5 demo_reviewing))
      (zeroFinding\<lparr>fnMessage := ''unused''\<rparr>)"
proof -
  have "classify (NewFailClassifier None) (zeroFinding\<lparr>fnMessage := ''unused''\<rparr>) \<noteq> ClassificationFlaky" by code_simp
  moreover have "qyHistory demo_reviewing = None" by (simp add: demo_reviewing_def demo_quality_def)
  ultimately show ?thesis
    using failure_history_stays_empty [of demo_reviewing _ "[(demo_gate_settings, demo_repairs, \<lambda>_. demo_broken, 5)]" demo_gate_settings] by simp
qed

lemma recorded_outcomes:
  assumes "0 < fhWindow h" "map_of (fhRecords h) rule = None"
  shows "map_of (fhRecords (fold (RecordOutcome rule) outcomes h)) rule =
     (if outcomes = [] then None else Some (drop (length outcomes - fhWindow h) outcomes)) \<and>
     fhWindow (fold (RecordOutcome rule) outcomes h) = fhWindow h"
proof (induction outcomes rule: rev_induct)
  case (snoc x xs)
  have "drop (Suc (length xs - (length xs - fhWindow h)) - fhWindow h) (drop (length xs - fhWindow h) xs @ [x]) =
      drop (Suc (length xs) - fhWindow h) (xs @ [x])"
    using assms(1) by (cases "fhWindow h \<le> length xs") (simp_all add: Suc_diff_le)
  with snoc show ?case using assms(1) by (cases "xs = []") (simp_all add: RecordOutcome_def Let_def update_conv')
qed (use assms in simp)

text \<open>
  What the history would do: it keeps the last outcomes of a rule, at most as many as its window, and a rule that
  has failed every time counts as flaky, so that its findings would pass the gate.
\<close>

theorem always_failing_rule_is_flaky:
  assumes "0 < n"
  shows "IsFlaky rule (fold (RecordOutcome rule) (replicate n False) (NewFailHistory window))"
proof -
  have w: "0 < fhWindow (NewFailHistory window)" "map_of (fhRecords (NewFailHistory window)) rule = None"
    by (simp_all add: NewFailHistory_def)
  let ?m = "n - (n - fhWindow (NewFailHistory window))"
  have "0 < ?m" using assms w(1) by arith
  moreover have "drop (n - fhWindow (NewFailHistory window)) (replicate n False) = replicate ?m False" by (rule drop_replicate)
  ultimately show ?thesis using recorded_outcomes [OF w, of "replicate n False"] assms by (simp add: IsFlaky_def)
qed

theorem always_failing_rule_is_flaky_witness:
  "IsFlaky ''errcheck'' (fold (RecordOutcome ''errcheck'') (replicate 4 False) (NewFailHistory 10))"
  by (rule always_failing_rule_is_flaky) simp

end
