(* ===== verification/Response_Cache.thy ===== *)
theory Response_Cache
  imports Complex_Main Activity_Chain Worker_Pool
begin

text \<open>
  The cache of agent responses (src/internal/respcache/cache.go) and its use by the conductor
  (src/internal/conductor/conductor_cache.go, and the submission of a phase's job).

  The hash function is a parameter of which only the length of its results is used; what depends on the absence of
  collisions says so. A Go map is iterated in any order, so the order of an eviction
  is an argument. The identifiers of entries and the logs are left out; the hit rate is the pair of its counts.
\<close>

section \<open>The cache\<close>

record CacheEntry =
  cePromptHash :: string
  cePrompt :: string
  ceResponse :: string
  cePhase :: string
  ceCreatedAt :: time
  ceHitCount :: nat

record Cache =
  ccEntries :: "(string, CacheEntry) gomap"
  ccMaxEntries :: int
  ccTTL :: int
  ccHits :: nat
  ccMisses :: nat
  ccTokensSaved :: nat

definition hour :: int where "hour = 3600000000000"

definition NewCache :: "int \<Rightarrow> int \<Rightarrow> Cache" where
  "NewCache maxEntries ttl =
     \<lparr>ccEntries = [], ccMaxEntries = (if maxEntries \<le> 0 then 1000 else maxEntries),
      ccTTL = (if ttl \<le> 0 then 168 * hour else ttl), ccHits = 0, ccMisses = 0, ccTokensSaved = 0\<rparr>"

definition hashPrompt :: "(string \<Rightarrow> string) \<Rightarrow> string \<Rightarrow> string" where
  "hashPrompt sha256 prompt = hexEncode (sha256 prompt)"

text \<open>
  \<^verbatim>\<open>Get\<close> has two critical sections. The first one looks the entry up and answers, unless the entry has expired; then a second
  one deletes what is stored under the hash at that time.
\<close>

datatype GetOutcome = Miss | Hit string | Expired

definition getRead :: "(string \<Rightarrow> string) \<Rightarrow> time \<Rightarrow> string \<Rightarrow> Cache \<Rightarrow> GetOutcome \<times> Cache" where
  "getRead sha256 now prompt c =
     (case map_of (ccEntries c) (hashPrompt sha256 prompt) of
        None \<Rightarrow> (Miss, c\<lparr>ccMisses := ccMisses c + 1\<rparr>)
      | Some e \<Rightarrow>
          if ccTTL c < now - ceCreatedAt e then (Expired, c)
          else (Hit (ceResponse e),
                c\<lparr>ccEntries := AList.update (hashPrompt sha256 prompt) (e\<lparr>ceHitCount := ceHitCount e + 1\<rparr>) (ccEntries c),
                  ccHits := ccHits c + 1, ccTokensSaved := ccTokensSaved c + length (ceResponse e) div 4\<rparr>))"

definition getDelete :: "(string \<Rightarrow> string) \<Rightarrow> string \<Rightarrow> Cache \<Rightarrow> Cache" where
  "getDelete sha256 prompt c =
     c\<lparr>ccEntries := AList.delete (hashPrompt sha256 prompt) (ccEntries c), ccMisses := ccMisses c + 1\<rparr>"

definition GetCached :: "(string \<Rightarrow> string) \<Rightarrow> time \<Rightarrow> string \<Rightarrow> Cache \<Rightarrow> string option \<times> Cache" where
  "GetCached sha256 now prompt c =
     (case getRead sha256 now prompt c of
        (Miss, c1) \<Rightarrow> (None, c1)
      | (Hit r, c1) \<Rightarrow> (Some r, c1)
      | (Expired, c1) \<Rightarrow> (None, getDelete sha256 prompt c1))"

definition older :: "(string, CacheEntry) gomap \<Rightarrow> string \<Rightarrow> string \<times> time \<Rightarrow> string \<times> time" where
  "older m hash oldest =
     (case map_of m hash of
        None \<Rightarrow> oldest
      | Some e \<Rightarrow> if fst oldest = [] \<or> ceCreatedAt e < snd oldest then (hash, ceCreatedAt e) else oldest)"

definition evictOldest :: "string list \<Rightarrow> Cache \<Rightarrow> Cache" where
  "evictOldest order c =
     (let oldestHash = fst (fold (older (ccEntries c)) order ([], 0)) in
      if oldestHash \<noteq> [] then c\<lparr>ccEntries := AList.delete oldestHash (ccEntries c)\<rparr> else c)"

definition PutCached :: "(string \<Rightarrow> string) \<Rightarrow> string list \<Rightarrow> time \<Rightarrow> string \<Rightarrow> string \<Rightarrow> string \<Rightarrow> Cache \<Rightarrow> Cache" where
  "PutCached sha256 order now prompt response phase c =
     (let hash = hashPrompt sha256 prompt in
      case map_of (ccEntries c) hash of
        Some existing \<Rightarrow>
          c\<lparr>ccEntries := AList.update hash (existing\<lparr>ceResponse := response, cePhase := phase, ceCreatedAt := now\<rparr>) (ccEntries c)\<rparr>
      | None \<Rightarrow>
          let c1 = (if ccMaxEntries c \<le> int (length (ccEntries c)) then evictOldest order c else c) in
          c1\<lparr>ccEntries := AList.update hash
               \<lparr>cePromptHash = hash, cePrompt = prompt, ceResponse = response, cePhase = phase, ceCreatedAt = now, ceHitCount = 0\<rparr>
               (ccEntries c1)\<rparr>)"

record CacheStats =
  csEntries :: nat
  csHits :: nat
  csMisses :: nat
  csHitRate :: rat
  csTokensSaved :: nat

definition LenCached :: "Cache \<Rightarrow> nat" where
  "LenCached c = length (ccEntries c)"

definition cacheStats :: "Cache \<Rightarrow> CacheStats" where
  "cacheStats c =
     (let answered = ccHits c + ccMisses c in
      \<lparr>csEntries = LenCached c, csHits = ccHits c, csMisses = ccMisses c,
       csHitRate = (if 0 < answered then of_nat (ccHits c) / of_nat answered else 0), csTokensSaved = ccTokensSaved c\<rparr>)"

definition ClearCached :: "Cache \<Rightarrow> Cache" where
  "ClearCached c = c\<lparr>ccEntries := [], ccHits := 0, ccMisses := 0, ccTokensSaved := 0\<rparr>"

section \<open>The conductor's cache\<close>

record ResponseCacheSettings =
  rcEnabled :: bool
  rcMaxEntries :: int
  rcTTLHours :: int

definition initResponseCache :: "ResponseCacheSettings option \<Rightarrow> Cache option" where
  "initResponseCache s =
     (case s of
        None \<Rightarrow> None
      | Some rc \<Rightarrow>
          if \<not> rcEnabled rc then None
          else Some (NewCache (if rcMaxEntries rc \<le> 0 then 1000 else rcMaxEntries rc)
                              ((if rcTTLHours rc \<le> 0 then 168 else rcTTLHours rc) * hour)))"

definition lookupResponseCache :: "(string \<Rightarrow> string) \<Rightarrow> time \<Rightarrow> string \<Rightarrow> Cache option \<Rightarrow> string option \<times> Cache option" where
  "lookupResponseCache sha256 now prompt cache =
     (case cache of
        None \<Rightarrow> (None, None)
      | Some c \<Rightarrow> (case GetCached sha256 now prompt c of (r, c1) \<Rightarrow> (r, Some c1)))"

definition storeResponseCache ::
  "(string \<Rightarrow> string) \<Rightarrow> string list \<Rightarrow> time \<Rightarrow> string \<Rightarrow> string \<Rightarrow> string \<Rightarrow> Cache option \<Rightarrow> Cache option" where
  "storeResponseCache sha256 order now prompt response phase cache =
     map_option (PutCached sha256 order now prompt response phase) cache"

definition ClearResponseCache :: "Cache option \<Rightarrow> Cache option" where
  "ClearResponseCache cache = map_option ClearCached cache"

text \<open>The job of a phase: a cached answer to its prompt, or a job for an agent.\<close>

definition submitPhaseJob ::
  "(string \<Rightarrow> string) \<Rightarrow> string \<Rightarrow> time \<Rightarrow> JobType \<Rightarrow> string \<Rightarrow> string \<Rightarrow> JobOptions option \<Rightarrow> Cache option \<Rightarrow> Pool \<Rightarrow> Cache option \<times> Pool" where
  "submitPhaseJob sha256 uid now jobType workDir prompt opts cache p =
     (case lookupResponseCache sha256 now prompt cache of
        (Some cached, cache1) \<Rightarrow> (cache1, SubmitCached uid now jobType workDir prompt cached opts p)
      | (None, cache1) \<Rightarrow> (cache1, SubmitWithOptions uid now jobType workDir prompt opts p))"

section \<open>Runs\<close>

text \<open>
  The critical sections that goroutines run on a cache, in any order: a whole lookup that no other one interrupts, the
  first section of a lookup that is interrupted, a second section, a store, or clearing. A second section may come
  at any time here, not only after a first one that found an expired entry.
\<close>

datatype CacheOp =
    OpGet time string | OpRead time string | OpDelete string | OpPut "string list" time string string string | OpClear

definition applyOp :: "(string \<Rightarrow> string) \<Rightarrow> CacheOp \<Rightarrow> Cache \<Rightarrow> Cache" where
  "applyOp sha256 op c = (case op of
     OpGet now prompt \<Rightarrow> snd (GetCached sha256 now prompt c)
   | OpRead now prompt \<Rightarrow> snd (getRead sha256 now prompt c)
   | OpDelete prompt \<Rightarrow> getDelete sha256 prompt c
   | OpPut order now prompt response phase \<Rightarrow> PutCached sha256 order now prompt response phase c
   | OpClear \<Rightarrow> ClearCached c)"

text \<open>An order of iteration visits exactly the keys.\<close>

definition visits :: "CacheOp \<Rightarrow> Cache \<Rightarrow> bool" where
  "visits op c \<longleftrightarrow> (case op of OpPut order _ _ _ _ \<Rightarrow> set order = fst ` set (ccEntries c) | _ \<Rightarrow> True)"

inductive cache_run :: "(string \<Rightarrow> string) \<Rightarrow> int \<Rightarrow> int \<Rightarrow> CacheOp list \<Rightarrow> Cache \<Rightarrow> bool" for sha256 maxEntries ttl where
  new: "cache_run sha256 maxEntries ttl [] (NewCache maxEntries ttl)"
| op: "cache_run sha256 maxEntries ttl ops c \<Longrightarrow> visits op c \<Longrightarrow> cache_run sha256 maxEntries ttl (ops @ [op]) (applyOp sha256 op c)"

inductive_cases cache_run_snoc: "cache_run sha256 maxEntries ttl (ops @ [op]) c"

text \<open>What a cache without limits would hold: the last response to each prompt, with its time; and the same for each hash.\<close>

definition specOp :: "(string \<Rightarrow> 'k) \<Rightarrow> CacheOp \<Rightarrow> ('k \<rightharpoonup> string \<times> time) \<Rightarrow> ('k \<rightharpoonup> string \<times> time)" where
  "specOp key op m = (case op of OpPut _ now prompt response _ \<Rightarrow> m(key prompt \<mapsto> (response, now)) | OpClear \<Rightarrow> Map.empty | _ \<Rightarrow> m)"

definition putsBy :: "(string \<Rightarrow> 'k) \<Rightarrow> CacheOp list \<Rightarrow> ('k \<rightharpoonup> string \<times> time)" where
  "putsBy key ops = fold (specOp key) ops Map.empty"

definition lastPuts :: "CacheOp list \<Rightarrow> (string \<rightharpoonup> string \<times> time)" where
  "lastPuts ops = putsBy (\<lambda>prompt. prompt) ops"

abbreviation hashPuts :: "(string \<Rightarrow> string) \<Rightarrow> CacheOp list \<Rightarrow> (string \<rightharpoonup> string \<times> time)" where
  "hashPuts sha256 \<equiv> putsBy (hashPrompt sha256)"

lemma putsBy_snoc [simp]: "putsBy key [] = Map.empty" "putsBy key (ops @ [op]) = specOp key op (putsBy key ops)"
  by (simp_all add: putsBy_def)

section \<open>Eviction\<close>

lemma oldest_scan:
  assumes "\<forall>h \<in> fst ` set m. h \<noteq> []" "fst o1 = [] \<or> (\<exists>e. map_of m (fst o1) = Some e \<and> ceCreatedAt e = snd o1)"
    and "fold (older m) order o1 = o2"
  shows "(fst o2 = [] \<or> (\<exists>e. map_of m (fst o2) = Some e \<and> ceCreatedAt e = snd o2)) \<and>
    (fst o1 \<noteq> [] \<longrightarrow> fst o2 \<noteq> [] \<and> snd o2 \<le> snd o1) \<and>
    (\<forall>h \<in> set order. \<forall>e. map_of m h = Some e \<longrightarrow> fst o2 \<noteq> [] \<and> snd o2 \<le> ceCreatedAt e)"
  using assms
proof (induction order arbitrary: o1)
  case (Cons h order)
  let ?o = "older m h o1"
  have h: "map_of m h = Some e \<Longrightarrow> h \<noteq> []" for e using Cons.prems(1) by (metis map_of_SomeD fst_conv image_eqI)
  have a: "fst ?o = [] \<or> (\<exists>e. map_of m (fst ?o) = Some e \<and> ceCreatedAt e = snd ?o)"
    using Cons.prems(2) by (auto simp: older_def split: option.splits)
  have b: "fst o1 \<noteq> [] \<longrightarrow> fst ?o \<noteq> [] \<and> snd ?o \<le> snd o1" "map_of m h = Some e \<Longrightarrow> fst ?o \<noteq> [] \<and> snd ?o \<le> ceCreatedAt e" for e
    using h by (auto simp: older_def split: option.splits)
  from Cons.prems(3) have "fold (older m) order ?o = o2" by simp
  from Cons.IH [OF Cons.prems(1) a this] b show ?case by (auto intro: order_trans)
qed simp

lemma length_update: "length (AList.update k v m) = length m + (if k \<in> fst ` set m then 0 else 1)"
  by (induction m) auto

lemma length_delete: "wf_map m \<Longrightarrow> k \<in> fst ` set m \<Longrightarrow> Suc (length (AList.delete k m)) = length m"
proof (induction m)
  case (Cons x m)
  then show ?case by (cases x) auto
qed simp

definition oldestEntry :: "string \<Rightarrow> Cache \<Rightarrow> bool" where
  "oldestEntry h c \<longleftrightarrow> (\<exists>e. map_of (ccEntries c) h = Some e \<and>
     (\<forall>h' e'. map_of (ccEntries c) h' = Some e' \<longrightarrow> ceCreatedAt e \<le> ceCreatedAt e'))"

lemma evictOldest_oldest:
  assumes "\<forall>h \<in> fst ` set (ccEntries c). h \<noteq> []" "ccEntries c \<noteq> []" "set order = fst ` set (ccEntries c)"
  shows "\<exists>h. oldestEntry h c \<and> evictOldest order c = c\<lparr>ccEntries := AList.delete h (ccEntries c)\<rparr>"
proof -
  define oldest where "oldest = fold (older (ccEntries c)) order ([], 0)"
  note scan = oldest_scan [OF assms(1), of "([], 0)" order, folded oldest_def, simplified]
  have all: "fst oldest \<noteq> [] \<and> snd oldest \<le> ceCreatedAt e" if "map_of (ccEntries c) h = Some e" for h e
    using scan that assms(3) by (metis map_of_SomeD fst_conv image_eqI)
  from assms(2) obtain h where "h \<in> fst ` set (ccEntries c)" by (cases "ccEntries c") auto
  then obtain e where "map_of (ccEntries c) h = Some e" by (metis map_of_eq_None_iff not_None_eq)
  with all have ne: "fst oldest \<noteq> []" by blast
  with scan obtain e where "map_of (ccEntries c) (fst oldest) = Some e" "ceCreatedAt e = snd oldest" by blast
  with all have "oldestEntry (fst oldest) c" unfolding oldestEntry_def by metis
  with ne show ?thesis by (auto simp: evictOldest_def Let_def oldest_def)
qed

section \<open>The invariant\<close>

lemma hashPrompt_inject: "hashPrompt sha256 a = hashPrompt sha256 b \<longleftrightarrow> sha256 a = sha256 b"
  by (auto simp: hashPrompt_def dest: hexEncode_inject)

lemma hashPrompt_nonempty: "hash_laws sha256 \<Longrightarrow> hashPrompt sha256 p \<noteq> []"
  using lineHash_nonempty [of sha256 p] by (simp add: hashPrompt_def lineHash_def)

definition limitOf :: "int \<Rightarrow> int" where "limitOf maxEntries = (if maxEntries \<le> 0 then 1000 else maxEntries)"
definition lifeOf :: "int \<Rightarrow> int" where "lifeOf ttl = (if ttl \<le> 0 then 168 * hour else ttl)"

definition holdsPuts :: "(string \<Rightarrow> string) \<Rightarrow> (string \<rightharpoonup> string \<times> time) \<Rightarrow> (string, CacheEntry) gomap \<Rightarrow> bool" where
  "holdsPuts sha256 puts m \<longleftrightarrow> wf_map m \<and> (\<forall>h e. map_of m h = Some e \<longrightarrow>
     h \<in> range (hashPrompt sha256) \<and> puts h = Some (ceResponse e, ceCreatedAt e))"

lemma holdsPuts_delete: "holdsPuts sha256 puts m \<Longrightarrow> holdsPuts sha256 puts (AList.delete h m)"
  by (auto simp: holdsPuts_def split: if_splits)

lemma holdsPuts_update:
  assumes "holdsPuts sha256 puts m"
  shows "holdsPuts sha256 (puts(hashPrompt sha256 p \<mapsto> (ceResponse e, ceCreatedAt e))) (AList.update (hashPrompt sha256 p) e m)"
  using assms by (auto simp: holdsPuts_def split: if_splits)

lemma holdsPuts_same:
  assumes "holdsPuts sha256 puts m" "puts (hashPrompt sha256 p) = Some (ceResponse e, ceCreatedAt e)"
  shows "holdsPuts sha256 puts (AList.update (hashPrompt sha256 p) e m)"
  using holdsPuts_update [OF assms(1), of p e] assms(2) by (simp add: fun_upd_idem)

lemma holdsPuts_at:
  assumes "holdsPuts sha256 puts m" "map_of m h = Some e"
  shows "puts h = Some (ceResponse e, ceCreatedAt e)"
  using assms by (simp add: holdsPuts_def)

lemma holdsPuts_keys: "hash_laws sha256 \<Longrightarrow> holdsPuts sha256 puts m \<Longrightarrow> \<forall>h \<in> fst ` set m. h \<noteq> []"
  unfolding holdsPuts_def by (metis domIff dom_map_of_conv_image_fst hashPrompt_nonempty not_None_eq rangeE)

lemma evict_holds:
  assumes "hash_laws sha256" "holdsPuts sha256 puts (ccEntries c)" "set order = fst ` set (ccEntries c)" "ccEntries c \<noteq> []"
  obtains h where "oldestEntry h c" "evictOldest order c = c\<lparr>ccEntries := AList.delete h (ccEntries c)\<rparr>"
    "holdsPuts sha256 puts (AList.delete h (ccEntries c))" "Suc (length (AList.delete h (ccEntries c))) = length (ccEntries c)"
proof -
  obtain h where h: "oldestEntry h c" "evictOldest order c = c\<lparr>ccEntries := AList.delete h (ccEntries c)\<rparr>"
    using evictOldest_oldest [OF holdsPuts_keys [OF assms(1,2)] assms(4,3)] by blast
  then have "h \<in> fst ` set (ccEntries c)" by (auto simp: oldestEntry_def dest!: map_of_SomeD intro: rev_image_eqI)
  with assms(2) have "Suc (length (AList.delete h (ccEntries c))) = length (ccEntries c)"
    by (auto simp: holdsPuts_def intro!: length_delete)
  with h holdsPuts_delete [OF assms(2)] that show thesis by blast
qed

definition cache_inv :: "(string \<Rightarrow> string) \<Rightarrow> int \<Rightarrow> int \<Rightarrow> CacheOp list \<Rightarrow> Cache \<Rightarrow> bool" where
  "cache_inv sha256 maxEntries ttl ops c \<longleftrightarrow>
     ccMaxEntries c = limitOf maxEntries \<and> ccTTL c = lifeOf ttl \<and> holdsPuts sha256 (hashPuts sha256 ops) (ccEntries c) \<and>
     int (length (ccEntries c)) \<le> limitOf maxEntries"

lemma limitOf_pos: "0 < limitOf maxEntries"
  by (simp add: limitOf_def)

lemma read_inv:
  assumes "cache_inv sha256 maxEntries ttl ops c"
  shows "cache_inv sha256 maxEntries ttl ops (snd (getRead sha256 now p c))"
proof (cases "map_of (ccEntries c) (hashPrompt sha256 p)")
  case None
  with assms show ?thesis by (simp add: getRead_def cache_inv_def)
next
  case (Some e)
  then have "hashPrompt sha256 p \<in> fst ` set (ccEntries c)" by (auto dest!: map_of_SomeD intro: rev_image_eqI)
  moreover have "hashPuts sha256 ops (hashPrompt sha256 p) = Some (ceResponse e, ceCreatedAt e)"
    using assms Some by (auto simp: cache_inv_def intro: holdsPuts_at)
  ultimately show ?thesis
    using assms Some holdsPuts_same [of sha256 "hashPuts sha256 ops" "ccEntries c" p "e\<lparr>ceHitCount := ceHitCount e + 1\<rparr>"]
    by (auto simp: getRead_def cache_inv_def length_update)
qed

lemma delete_inv: "cache_inv sha256 maxEntries ttl ops c \<Longrightarrow> cache_inv sha256 maxEntries ttl ops (getDelete sha256 p c)"
  using holdsPuts_delete [of sha256 "hashPuts sha256 ops" "ccEntries c" "hashPrompt sha256 p"] length_delete_le [of "hashPrompt sha256 p" "ccEntries c"]
  by (auto simp: getDelete_def cache_inv_def)

lemma get_inv: "cache_inv sha256 maxEntries ttl ops c \<Longrightarrow> cache_inv sha256 maxEntries ttl ops (snd (GetCached sha256 now p c))"
  using read_inv [of sha256 maxEntries ttl ops c now p]
  by (auto simp: GetCached_def delete_inv split: prod.splits GetOutcome.splits)

lemma cache_inv_snoc: "hashPuts sha256 (ops @ [op]) = hashPuts sha256 ops \<Longrightarrow>
   cache_inv sha256 maxEntries ttl (ops @ [op]) c \<longleftrightarrow> cache_inv sha256 maxEntries ttl ops c"
  by (simp add: cache_inv_def)

lemma put_inv:
  assumes "hash_laws sha256" "cache_inv sha256 maxEntries ttl ops c" "set order = fst ` set (ccEntries c)"
  shows "cache_inv sha256 maxEntries ttl (ops @ [OpPut order now p r ph]) (PutCached sha256 order now p r ph c)"
proof -
  let ?h = "hashPrompt sha256 p"
  have holds: "holdsPuts sha256 (hashPuts sha256 ops) (ccEntries c)" using assms(2) by (simp add: cache_inv_def)
  note upd = holdsPuts_update [of sha256 "hashPuts sha256 ops" _ p]
  show ?thesis
  proof (cases "map_of (ccEntries c) ?h")
    case (Some e)
    then have "?h \<in> fst ` set (ccEntries c)" by (auto dest!: map_of_SomeD intro: rev_image_eqI)
    with Some assms(2) upd [OF holds, of "e\<lparr>ceResponse := r, cePhase := ph, ceCreatedAt := now\<rparr>"] show ?thesis
      by (auto simp: PutCached_def cache_inv_def specOp_def length_update)
  next
    case None
    define e where "e = \<lparr>cePromptHash = ?h, cePrompt = p, ceResponse = r, cePhase = ph, ceCreatedAt = now, ceHitCount = 0\<rparr>"
    obtain m where m: "PutCached sha256 order now p r ph c = c\<lparr>ccEntries := AList.update ?h e m\<rparr>"
      "holdsPuts sha256 (hashPuts sha256 ops) m" "int (length m) < limitOf maxEntries"
    proof (cases "limitOf maxEntries \<le> int (length (ccEntries c))")
      case True
      then have "ccEntries c \<noteq> []" using limitOf_pos [of maxEntries] by auto
      from evict_holds [OF assms(1) holds assms(3) this] obtain h where
        "evictOldest order c = c\<lparr>ccEntries := AList.delete h (ccEntries c)\<rparr>" "holdsPuts sha256 (hashPuts sha256 ops) (AList.delete h (ccEntries c))"
        "Suc (length (AList.delete h (ccEntries c))) = length (ccEntries c)" by metis
      with True None assms(2) that [of "AList.delete h (ccEntries c)"] show thesis
        by (auto simp: PutCached_def cache_inv_def Let_def e_def)
    next
      case False
      with None assms(2) holds that [of "ccEntries c"] show thesis by (auto simp: PutCached_def cache_inv_def Let_def e_def)
    qed
    with assms(2) upd [OF m(2), of e] show ?thesis
      by (auto simp: cache_inv_def specOp_def length_update e_def)
  qed
qed

lemma run_cache_inv:
  assumes "cache_run sha256 maxEntries ttl ops c" "hash_laws sha256"
  shows "cache_inv sha256 maxEntries ttl ops c"
  using assms
proof (induction rule: cache_run.induct)
  case new
  then show ?case using limitOf_pos [of maxEntries] by (simp add: cache_inv_def NewCache_def holdsPuts_def limitOf_def lifeOf_def)
next
  case (op ops c op)
  then have inv: "cache_inv sha256 maxEntries ttl ops c" by simp
  show ?case
  proof (cases op)
    case OpGet
    with get_inv [OF inv] show ?thesis by (simp add: applyOp_def cache_inv_snoc specOp_def)
  next
    case OpRead
    with read_inv [OF inv] show ?thesis by (simp add: applyOp_def cache_inv_snoc specOp_def)
  next
    case OpDelete
    with delete_inv [OF inv] show ?thesis by (simp add: applyOp_def cache_inv_snoc specOp_def)
  next
    case OpPut
    with put_inv [OF op.prems inv] op.hyps(2) show ?thesis by (simp add: applyOp_def visits_def)
  next
    case OpClear
    with inv limitOf_pos [of maxEntries] show ?thesis by (simp add: applyOp_def ClearCached_def cache_inv_def specOp_def holdsPuts_def)
  qed
qed

section \<open>Completeness\<close>

fun opTime :: "CacheOp \<Rightarrow> time option" where
  "opTime (OpGet now p) = Some now"
| "opTime (OpRead now p) = Some now"
| "opTime (OpPut order now p r ph) = Some now"
| "opTime op = None"

fun putPrompt :: "CacheOp \<Rightarrow> string option" where
  "putPrompt (OpPut order now p r ph) = Some p"
| "putPrompt op = None"

definition opTimes :: "CacheOp list \<Rightarrow> time list" where "opTimes ops = List.map_filter opTime ops"
definition putList :: "CacheOp list \<Rightarrow> string list" where "putList ops = List.map_filter putPrompt ops"

abbreviation putPrompts :: "CacheOp list \<Rightarrow> string set" where "putPrompts ops \<equiv> set (putList ops)"

lemma opTimes_snoc [simp]: "opTimes (ops @ [op]) = opTimes ops @ (case opTime op of None \<Rightarrow> [] | Some t \<Rightarrow> [t])"
  by (simp add: opTimes_def List.map_filter_def split: option.splits)

lemma putPrompts_snoc [simp]: "putPrompts (ops @ [op]) = putPrompts ops \<union> (case putPrompt op of None \<Rightarrow> {} | Some p \<Rightarrow> {p})"
  by (auto simp: putList_def List.map_filter_def)

lemma putsBy_dom: "putsBy key ops k = Some v \<Longrightarrow> k \<in> key ` putPrompts ops"
proof (induction ops rule: rev_induct)
  case (snoc op ops)
  then show ?case by (cases op) (auto simp: specOp_def split: if_splits)
qed simp

text \<open>Without collisions among the prompts, the two specifications agree.\<close>

lemma hashPuts_lastPuts:
  "inj_on sha256 (insert p (putPrompts ops)) \<Longrightarrow> hashPuts sha256 ops (hashPrompt sha256 p) = lastPuts ops p"
proof (induction ops rule: rev_induct)
  case (snoc op ops)
  then have "inj_on sha256 (insert p (putPrompts ops))" by (auto elim: inj_on_subset)
  with snoc have "hashPuts sha256 ops (hashPrompt sha256 p) = lastPuts ops p" by simp
  moreover have "hashPrompt sha256 p' = hashPrompt sha256 p \<longleftrightarrow> p' = p" if "op = OpPut order now p' r ph" for order now p' r ph
    using inj_onD [OF snoc.prems, of p' p] that by (auto simp: hashPrompt_inject)
  ultimately show ?case by (cases op) (auto simp: specOp_def lastPuts_def)
qed (simp add: lastPuts_def)

lemma no_collision: "\<not> collide sha256 (p # putList ops) (p # putList ops) \<Longrightarrow> inj_on sha256 (insert p (putPrompts ops))"
  by (auto simp: collide_def list_ex_iff inj_on_def)

text \<open>An entry that is missing has expired at the time of some operation, unless entries are evicted or a lookup was interrupted.\<close>

definition uninterrupted :: "CacheOp list \<Rightarrow> bool" where
  "uninterrupted ops \<longleftrightarrow> list_all (\<lambda>op. case op of OpDelete _ \<Rightarrow> False | _ \<Rightarrow> True) ops"

definition keepsPuts :: "(string \<Rightarrow> string) \<Rightarrow> int \<Rightarrow> CacheOp list \<Rightarrow> Cache \<Rightarrow> bool" where
  "keepsPuts sha256 ttl ops c \<longleftrightarrow> (\<forall>h r t. hashPuts sha256 ops h = Some (r, t) \<longrightarrow>
     map_of (ccEntries c) h \<noteq> None \<or> (\<exists>t' \<in> set (opTimes ops). lifeOf ttl < t' - t))"

lemma keys_bounded:
  assumes "holdsPuts sha256 (hashPuts sha256 ops) m" "map_of m (hashPrompt sha256 p) = None"
  shows "length m < card (insert p (putPrompts ops))"
proof -
  have fin: "finite (putPrompts ops)" by simp
  have sub: "fst ` set m \<subseteq> hashPrompt sha256 ` (insert p (putPrompts ops) - {p})"
  proof
    fix h assume "h \<in> fst ` set m"
    then obtain e where e: "map_of m h = Some e" by (metis map_of_eq_None_iff not_None_eq)
    then have "hashPuts sha256 ops h = Some (ceResponse e, ceCreatedAt e)" using holdsPuts_at [OF assms(1)] by simp
    from putsBy_dom [OF this] obtain p' where p': "h = hashPrompt sha256 p'" and "p' \<in> putPrompts ops" by blast
    moreover have "p' \<noteq> p" using e p'(1) assms(2) by auto
    ultimately show "h \<in> hashPrompt sha256 ` (insert p (putPrompts ops) - {p})" using p'(1) by blast
  qed
  have "length m = card (fst ` set m)" using assms(1) unfolding holdsPuts_def by (metis distinct_card length_map list.set_map)
  also have "\<dots> \<le> card (hashPrompt sha256 ` (insert p (putPrompts ops) - {p}))" using sub fin by (auto intro: card_mono)
  also have "\<dots> \<le> card (insert p (putPrompts ops) - {p})" using fin by (auto intro: card_image_le)
  also have "\<dots> < card (insert p (putPrompts ops))" using fin by (intro psubset_card_mono) auto
  finally show ?thesis .
qed

lemma put_keeps:
  assumes "cache_inv sha256 maxEntries ttl ops c" "keepsPuts sha256 ttl ops c"
    and "int (card (insert p (putPrompts ops))) \<le> limitOf maxEntries"
  shows "keepsPuts sha256 ttl (ops @ [OpPut order now p r ph]) (PutCached sha256 order now p r ph c)"
proof -
  let ?h = "hashPrompt sha256 p"
  have "\<not> limitOf maxEntries \<le> int (length (ccEntries c))" if "map_of (ccEntries c) ?h = None"
    using keys_bounded [OF _ that, of ops] assms(1,3) by (auto simp: cache_inv_def)
  then have "\<exists>e. PutCached sha256 order now p r ph c = c\<lparr>ccEntries := AList.update ?h e (ccEntries c)\<rparr>"
    using assms(1) by (auto simp: PutCached_def cache_inv_def Let_def split: option.splits)
  then obtain e where "ccEntries (PutCached sha256 order now p r ph c) = AList.update ?h e (ccEntries c)" by auto
  then have m: "map_of (ccEntries (PutCached sha256 order now p r ph c)) h \<noteq> None \<longleftrightarrow> h = ?h \<or> map_of (ccEntries c) h \<noteq> None" for h
    by auto
  show ?thesis unfolding keepsPuts_def m
    using assms(2) unfolding keepsPuts_def by (simp add: specOp_def) blast
qed

lemma read_keeps:
  assumes "keepsPuts sha256 ttl ops c"
  shows "keepsPuts sha256 ttl (ops @ [OpRead now p]) (snd (getRead sha256 now p c))"
  using assms by (auto simp: getRead_def keepsPuts_def specOp_def split: option.splits)

lemma get_keeps:
  assumes "cache_inv sha256 maxEntries ttl ops c" "keepsPuts sha256 ttl ops c"
  shows "keepsPuts sha256 ttl (ops @ [OpGet now p]) (snd (GetCached sha256 now p c))"
proof (cases "fst (getRead sha256 now p c) = Expired")
  case False
  then have "snd (GetCached sha256 now p c) = snd (getRead sha256 now p c)"
    by (auto simp: GetCached_def split: prod.splits GetOutcome.splits)
  with read_keeps [OF assms(2), of now p] show ?thesis by (simp add: keepsPuts_def specOp_def)
next
  case True
  then obtain e where e: "map_of (ccEntries c) (hashPrompt sha256 p) = Some e" "lifeOf ttl < now - ceCreatedAt e"
    using assms(1) by (auto simp: getRead_def cache_inv_def split: option.splits if_splits)
  then have c: "snd (GetCached sha256 now p c) = getDelete sha256 p c"
    using assms(1) by (simp add: GetCached_def getRead_def cache_inv_def)
  have last: "hashPuts sha256 ops (hashPrompt sha256 p) = Some (ceResponse e, ceCreatedAt e)"
    using assms(1) e(1) by (auto simp: cache_inv_def intro: holdsPuts_at)
  show ?thesis unfolding keepsPuts_def c
  proof (intro allI impI)
    fix h r t
    assume l: "hashPuts sha256 (ops @ [OpGet now p]) h = Some (r, t)"
    show "map_of (ccEntries (getDelete sha256 p c)) h \<noteq> None \<or> (\<exists>t' \<in> set (opTimes (ops @ [OpGet now p])). lifeOf ttl < t' - t)"
      using l last e(2) assms(2) by (cases "h = hashPrompt sha256 p") (auto simp: keepsPuts_def specOp_def getDelete_def)
  qed
qed

lemma run_keeps:
  assumes "cache_run sha256 maxEntries ttl ops c" "hash_laws sha256" "int (card (putPrompts ops)) \<le> limitOf maxEntries" "uninterrupted ops"
  shows "keepsPuts sha256 ttl ops c"
  using assms
proof (induction rule: cache_run.induct)
  case (op ops c op)
  have "card (putPrompts ops) \<le> card (putPrompts (ops @ [op]))" by (rule card_mono) (auto split: option.split)
  with op have keeps: "keepsPuts sha256 ttl ops c" by (simp add: uninterrupted_def)
  note inv = run_cache_inv [OF op.hyps(1) op.prems(1)]
  show ?case
  proof (cases op)
    case OpGet
    with get_keeps [OF inv keeps] show ?thesis by (simp add: applyOp_def)
  next
    case OpRead
    with read_keeps [OF keeps] show ?thesis by (simp add: applyOp_def)
  next
    case OpDelete
    with op.prems(3) show ?thesis by (simp add: uninterrupted_def)
  next
    case (OpPut order now p r ph)
    with put_keeps [OF inv keeps, of p] op.prems(2) show ?thesis by (simp add: applyOp_def)
  qed (simp add: keepsPuts_def specOp_def)
qed (simp add: keepsPuts_def)

section \<open>Properties\<close>

text \<open>
  C35: The cache never holds more entries than its limit, however the critical sections of its operations interleave and
  whatever the order in which evictions iterate over the map; and a new prompt that meets a full cache replaces an entry that no other entry is
  older than, and only that one.
\<close>

theorem cache_stays_within_limit:
  assumes "hash_laws sha256" "cache_run sha256 maxEntries ttl ops c"
  shows "int (LenCached c) \<le> limitOf maxEntries \<and>
    (map_of (ccEntries c) (hashPrompt sha256 prompt) = None \<and> int (LenCached c) = limitOf maxEntries \<and> set order = fst ` set (ccEntries c) \<longrightarrow>
       (\<exists>h. oldestEntry h c \<and> (\<forall>h'. h' \<noteq> hashPrompt sha256 prompt \<longrightarrow>
          map_of (ccEntries (PutCached sha256 order now prompt response phase c)) h' = (if h' = h then None else map_of (ccEntries c) h'))))"
proof -
  from run_cache_inv [OF assms(2,1)] have inv: "ccMaxEntries c = limitOf maxEntries"
    "holdsPuts sha256 (hashPuts sha256 ops) (ccEntries c)" "int (LenCached c) \<le> limitOf maxEntries"
    by (simp_all add: cache_inv_def LenCached_def)
  have "\<exists>h. oldestEntry h c \<and> (\<forall>h'. h' \<noteq> hashPrompt sha256 prompt \<longrightarrow>
      map_of (ccEntries (PutCached sha256 order now prompt response phase c)) h' = (if h' = h then None else map_of (ccEntries c) h'))"
    if full: "map_of (ccEntries c) (hashPrompt sha256 prompt) = None" "int (LenCached c) = limitOf maxEntries" "set order = fst ` set (ccEntries c)"
  proof -
    have "ccEntries c \<noteq> []" using full(2) limitOf_pos [of maxEntries] by (auto simp: LenCached_def)
    from evict_holds [OF assms(1) inv(2) full(3) this] obtain h where
      h: "oldestEntry h c" "evictOldest order c = c\<lparr>ccEntries := AList.delete h (ccEntries c)\<rparr>" by metis
    with full(1,2) inv(1) show ?thesis by (intro exI [of _ h]) (simp add: PutCached_def LenCached_def Let_def)
  qed
  with inv(3) show ?thesis by blast
qed

definition fillOne :: "CacheOp list" where "fillOne = [OpPut [] 1 ''p'' ''r'' ''plan'']"

lemma fillOne_run: "cache_run plainSha 1 10 fillOne (PutCached plainSha [] 1 ''p'' ''r'' ''plan'' (NewCache 1 10))"
  using cache_run.op [OF cache_run.new, of "OpPut [] 1 ''p'' ''r'' ''plan''" 1 10 plainSha]
  by (simp add: fillOne_def visits_def NewCache_def applyOp_def)

theorem cache_stays_within_limit_witness:
  "int (LenCached (PutCached plainSha [] 1 ''p'' ''r'' ''plan'' (NewCache 1 10))) \<le> 1 \<and>
   (\<exists>h. oldestEntry h (PutCached plainSha [] 1 ''p'' ''r'' ''plan'' (NewCache 1 10)))"
proof -
  let ?c = "PutCached plainSha [] 1 ''p'' ''r'' ''plan'' (NewCache 1 10)"
  have "map_of (ccEntries ?c) (hashPrompt plainSha ''q'') = None" "int (LenCached ?c) = limitOf 1" by code_simp+
  then have full: "map_of (ccEntries ?c) (hashPrompt plainSha ''q'') = None \<and> int (LenCached ?c) = limitOf 1 \<and>
      set (map fst (ccEntries ?c)) = fst ` set (ccEntries ?c)" by simp
  note bound = cache_stays_within_limit [OF plain_hash fillOne_run, where prompt = "''q''" and order = "map fst (ccEntries ?c)" and now = 2 and response = "''s''" and phase = "''plan''"]
  from bound [THEN conjunct2, THEN mp, OF full] obtain h where "oldestEntry h ?c" by (elim exE conjE)
  moreover have "limitOf 1 = 1" by (simp add: limitOf_def)
  ultimately show ?thesis using bound [THEN conjunct1] by auto
qed

lemma cache_answers:
  assumes "hash_laws sha256" "cache_run sha256 maxEntries ttl ops c" "inj_on sha256 (insert prompt (putPrompts ops))"
  shows "fst (GetCached sha256 now prompt c) = Some r \<Longrightarrow> \<exists>t. lastPuts ops prompt = Some (r, t) \<and> now - t \<le> lifeOf ttl"
    and "int (card (putPrompts ops)) \<le> limitOf maxEntries \<Longrightarrow> uninterrupted ops \<Longrightarrow> sorted (opTimes ops @ [now]) \<Longrightarrow>
      fst (GetCached sha256 now prompt c) =
        (case lastPuts ops prompt of Some (r, t) \<Rightarrow> if now - t \<le> lifeOf ttl then Some r else None | None \<Rightarrow> None)"
proof -
  from run_cache_inv [OF assms(2,1)] have inv: "ccTTL c = lifeOf ttl" "holdsPuts sha256 (hashPuts sha256 ops) (ccEntries c)"
    by (simp_all add: cache_inv_def)
  have get: "fst (GetCached sha256 now prompt c) = (case map_of (ccEntries c) (hashPrompt sha256 prompt) of None \<Rightarrow> None
      | Some e \<Rightarrow> if now - ceCreatedAt e \<le> lifeOf ttl then Some (ceResponse e) else None)"
    by (auto simp: GetCached_def getRead_def inv(1) split: option.splits)
  note at = holdsPuts_at [OF inv(2), of "hashPrompt sha256 prompt", unfolded hashPuts_lastPuts [OF assms(3)]]
  show "\<exists>t. lastPuts ops prompt = Some (r, t) \<and> now - t \<le> lifeOf ttl" if "fst (GetCached sha256 now prompt c) = Some r"
    using that at unfolding get by (auto split: option.splits if_splits)
  show "fst (GetCached sha256 now prompt c) =
      (case lastPuts ops prompt of Some (r, t) \<Rightarrow> if now - t \<le> lifeOf ttl then Some r else None | None \<Rightarrow> None)"
    if few: "int (card (putPrompts ops)) \<le> limitOf maxEntries" and quiet: "uninterrupted ops" and mono: "sorted (opTimes ops @ [now])"
  proof (cases "map_of (ccEntries c) (hashPrompt sha256 prompt)")
    case (Some e)
    with at [OF Some] show ?thesis unfolding get by simp
  next
    case None
    have "lifeOf ttl < now - t" if "lastPuts ops prompt = Some (r, t)" for r t
    proof -
      from that have "hashPuts sha256 ops (hashPrompt sha256 prompt) = Some (r, t)" by (simp add: hashPuts_lastPuts [OF assms(3)])
      with None run_keeps [OF assms(2,1) few quiet] obtain t' where "t' \<in> set (opTimes ops)" "lifeOf ttl < t' - t"
        unfolding keepsPuts_def by blast
      with mono show ?thesis by (fastforce simp: sorted_append)
    qed
    with None show ?thesis unfolding get by (auto split: option.splits)
  qed
qed

text \<open>
  C17: The cache implements a store of the last responses with expiry, as long as no two of the prompts that were stored
  or are looked up have the same SHA-256. However the critical sections of lookups, stores and clearings interleave,
  a hit is the response that was stored last for this prompt since the cache was cleared, and not older than the
  time to live. The converse, that the answer is exactly that of a store without a limit, holds if not more different
  prompts were stored than the limit allows, no lookup that found an expired entry was interrupted before it deleted
  it, and the clock does not go back.
\<close>

theorem cache_refines_store:
  assumes "hash_laws sha256" "cache_run sha256 maxEntries ttl ops c" "\<not> collide sha256 (prompt # putList ops) (prompt # putList ops)"
  shows "(\<forall>r. fst (GetCached sha256 now prompt c) = Some r \<longrightarrow> (\<exists>t. lastPuts ops prompt = Some (r, t) \<and> now - t \<le> lifeOf ttl)) \<and>
    (int (card (putPrompts ops)) \<le> limitOf maxEntries \<and> uninterrupted ops \<and> sorted (opTimes ops @ [now]) \<longrightarrow>
      fst (GetCached sha256 now prompt c) =
        (case lastPuts ops prompt of Some (r, t) \<Rightarrow> if now - t \<le> lifeOf ttl then Some r else None | None \<Rightarrow> None))"
  using cache_answers [OF assms(1,2) no_collision [OF assms(3)], of now] by simp

theorem cache_refines_store_witness:
  "fst (GetCached plainSha 5 ''p'' (PutCached plainSha [] 1 ''p'' ''r'' ''plan'' (NewCache 1 10))) = Some ''r'' \<and>
   fst (GetCached plainSha 12 ''p'' (PutCached plainSha [] 1 ''p'' ''r'' ''plan'' (NewCache 1 10))) = None"
proof -
  have "int (card (putPrompts fillOne)) \<le> limitOf 1" "sorted (opTimes fillOne @ [5])" "sorted (opTimes fillOne @ [12])"
      "lastPuts fillOne ''p'' = Some (''r'', 1)" "uninterrupted fillOne" and ok: "\<not> collide plainSha (''p'' # putList fillOne) (''p'' # putList fillOne)"
    by (simp_all add: fillOne_def putList_def opTimes_def List.map_filter_def limitOf_def lastPuts_def putsBy_def specOp_def uninterrupted_def collide_def)
  with cache_refines_store [OF plain_hash fillOne_run ok, of 5] cache_refines_store [OF plain_hash fillOne_run ok, of 12]
  show ?thesis by (simp add: lifeOf_def)
qed

text \<open>
  A lookup can delete a response that is not its own business: between the two critical sections of a lookup that
  found an expired entry another goroutine can store a new response for the prompt, and the deletion then removes
  it, for every prompt, response and time to live; without the lookup it would have been found.
\<close>

theorem expired_lookup_deletes_new_response:
  assumes "map_of (ccEntries c) (hashPrompt sha256 prompt) = Some e" "ccTTL c < now - ceCreatedAt e" "0 \<le> ccTTL c"
  shows "fst (getRead sha256 now prompt c) = Expired \<and>
    fst (GetCached sha256 now prompt (PutCached sha256 order now prompt response phase (snd (getRead sha256 now prompt c)))) = Some response \<and>
    fst (GetCached sha256 now prompt (getDelete sha256 prompt (PutCached sha256 order now prompt response phase (snd (getRead sha256 now prompt c))))) = None"
  using assms by (simp add: getRead_def GetCached_def getDelete_def PutCached_def Let_def)

theorem expired_lookup_deletes_new_response_witness:
  "fst (GetCached plainSha 20 ''p'' (getDelete plainSha ''p'' (PutCached plainSha [] 20 ''p'' ''new'' ''plan''
     (snd (getRead plainSha 20 ''p'' (PutCached plainSha [] 1 ''p'' ''r'' ''plan'' (NewCache 1 10))))))) = None"
proof -
  let ?c = "PutCached plainSha [] 1 ''p'' ''r'' ''plan'' (NewCache 1 10)"
  have "map_of (ccEntries ?c) (hashPrompt plainSha ''p'') = Some \<lparr>cePromptHash = hashPrompt plainSha ''p'', cePrompt = ''p'',
      ceResponse = ''r'', cePhase = ''plan'', ceCreatedAt = 1, ceHitCount = 0\<rparr>" "ccTTL ?c = 10"
    by (simp_all add: PutCached_def NewCache_def Let_def)
  then show ?thesis using expired_lookup_deletes_new_response [of ?c plainSha "''p''" _ 20] by simp
qed

lemma setMeta_pool:
  "pQueue (setMeta j k v p) = pQueue p" "pWorkers (setMeta j k v p) = pWorkers p" "pThreads (setMeta j k v p) = pThreads p"
  "jStatus (pJobStore (setMeta j k v p) i) = jStatus (pJobStore p i)" "jResult (pJobStore (setMeta j k v p) i) = jResult (pJobStore p i)"
  "jID (pJobStore (setMeta j k v p) i) = jID (pJobStore p i)"
  by (auto simp: setMeta_def updJob_def split: option.splits)

lemma applyOptions_pool:
  "pQueue (applyOptions j opts p) = pQueue p" "pWorkers (applyOptions j opts p) = pWorkers p" "pThreads (applyOptions j opts p) = pThreads p"
  "jStatus (pJobStore (applyOptions j opts p) i) = jStatus (pJobStore p i)" "jResult (pJobStore (applyOptions j opts p) i) = jResult (pJobStore p i)"
  "jID (pJobStore (applyOptions j opts p) i) = jID (pJobStore p i)"
  by (auto simp: applyOptions_def setMeta_pool Let_def updJob_def split: option.splits)

lemma send_pool:
  "pQueue (send ch e p) = pQueue p" "pWorkers (send ch e p) = pWorkers p" "pThreads (send ch e p) = pThreads p"
  "pJobStore (send ch e p) = pJobStore p" "pJobs (send ch e p) = pJobs p"
  by (simp_all add: send_def Let_def)

text \<open>
  A phase whose prompt is in the cache runs no agent: the job is registered as done, with the old response as its
  result, and the queue, the workers and the goroutines of the pool stay as they are. So a phase that was undone and is
  started again with the same prompt ends without any change to the code.
\<close>

theorem cached_phase_runs_no_agent:
  assumes "submitPhaseJob sha256 uid now jobType workDir prompt opts (Some c) p = (cache', p')"
    and "fst (GetCached sha256 now prompt c) = Some response"
  shows "pQueue p' = pQueue p \<and> pWorkers p' = pWorkers p \<and> pThreads p' = pThreads p \<and>
    (\<exists>j. map_of (pJobs p') uid = Some j \<and> jStatus (pJobStore p' j) = JobStatusDone \<and> jResult (pJobStore p' j) = response)"
proof -
  have "p' = SubmitCached uid now jobType workDir prompt response opts p"
    using assms by (auto simp: submitPhaseJob_def lookupResponseCache_def split: prod.splits)
  then show ?thesis
    by (simp add: SubmitCached_def newJob_def newStream_def registerJob_def Let_def send_pool setMeta_pool applyOptions_pool)
qed

theorem cached_phase_runs_no_agent_witness:
  "pQueue (snd (submitPhaseJob plainSha ''j2'' 5 ''implement'' ''/w'' ''p'' None
     (Some (PutCached plainSha [] 1 ''p'' ''r'' ''implement'' (NewCache 1 10))) (NewPool 2 [] 0 (\<lambda>_ _. None)))) = []"
proof -
  let ?c = "PutCached plainSha [] 1 ''p'' ''r'' ''implement'' (NewCache 1 10)"
  let ?s = "submitPhaseJob plainSha ''j2'' 5 ''implement'' ''/w'' ''p'' None (Some ?c) (NewPool 2 [] 0 (\<lambda>_ _. None))"
  have "?s = (fst ?s, snd ?s)" by simp
  moreover have "fst (GetCached plainSha 5 ''p'' ?c) = Some ''r''"
    by (simp add: PutCached_def NewCache_def Let_def GetCached_def getRead_def)
  ultimately have "pQueue (snd ?s) = pQueue (NewPool 2 [] 0 (\<lambda>_ _. None))" using cached_phase_runs_no_agent by blast
  then show ?thesis by (simp add: NewPool_def)
qed

end
