(* ===== verification/Forks.thy ===== *)
theory Forks
  imports Task_End Go_Text
begin

text \<open>
  Forks (src/internal/conductor/conductor_fork.go): a task can be continued in parallel on branches of their own, each in a
  worktree, and one of them is merged back. A fork is made in two critical sections, a check and a record; they are
  definitions of their own, so that the interleaving of two calls can be stated. The calls of git are parameters;
  the JSON data of the events and logs are left out.
\<close>

section \<open>Operations\<close>

record ForkSettings =
  fsEnabled :: bool
  fsMaxForks :: int

text \<open>The effective settings, which may be missing, and their section on forking, which may be missing as well.\<close>

type_synonym ForkConfig = "ForkSettings option option"

record 'g ForkGit =
  fgParent :: string
  fgCurrentCommit :: "'g \<Rightarrow> string result"
  fgAddWorktree :: "string \<Rightarrow> string \<Rightarrow> bool \<Rightarrow> string \<Rightarrow> 'g \<Rightarrow> 'g result"
  fgMerge :: "string \<Rightarrow> string \<Rightarrow> 'g \<Rightarrow> string option \<times> 'g"
  fgPrune :: "'g \<Rightarrow> 'g"

definition validateForkingEnabled :: "ForkConfig \<Rightarrow> string option" where
  "validateForkingEnabled s =
     (case s of
        None \<Rightarrow> Some ''fork: settings not available''
      | Some None \<Rightarrow> Some ''fork: forking is disabled (enable in workflow.forking.enabled)''
      | Some (Some f) \<Rightarrow>
          if \<not> fsEnabled f then Some ''fork: forking is disabled (enable in workflow.forking.enabled)'' else None)"

definition maxForks :: "ForkConfig \<Rightarrow> int" where
  "maxForks s = (case s of Some (Some f) \<Rightarrow> if fsMaxForks f > 0 then fsMaxForks f else 3 | _ \<Rightarrow> 3)"

text \<open>\<^verbatim>\<open>strings.NewReplacer\<close> with the patterns of the code: it replaces from left to right.\<close>

definition labelSpecial :: "char list" where
  "labelSpecial = [CHR '' '', CHR ''/'', CHR ''~'', CHR 0x5E, CHR '':'', CHR ''?'', CHR ''*'', CHR ''['', CHR 0x5C]"

fun replaceLabel :: "string \<Rightarrow> string" where
  "replaceLabel [] = []"
| "replaceLabel [c] = [if c \<in> set labelSpecial then CHR ''-'' else c]"
| "replaceLabel (c # d # cs) =
     (if c = CHR ''.'' \<and> d = CHR ''.'' then CHR ''-'' # replaceLabel cs
      else (if c \<in> set labelSpecial then CHR ''-'' else c) # replaceLabel (d # cs))"

definition sanitizeBranchLabel :: "string \<Rightarrow> string" where
  "sanitizeBranchLabel label = toLower (replaceLabel label)"

text \<open>\<^verbatim>\<open>filepath.Join(parent, ".kvelmo-worktrees", name)\<close> for a clean parent and a name without separators.\<close>

definition worktreePath :: "string \<Rightarrow> string \<Rightarrow> string" where
  "worktreePath parent name =
     (if parent = ''/'' then parent else if parent = ''.'' then [] else parent @ ''/'') @ ''.kvelmo-worktrees/'' @ name"

definition prepareFork ::
  "ForkConfig \<Rightarrow> 'g ForkGit \<Rightarrow> time \<Rightarrow> string \<Rightarrow> string \<Rightarrow> ('y, 'g) Conductor \<Rightarrow> (ForkInfo \<times> ('y, 'g) Conductor) result" where
  "prepareFork s fg now forkID label c =
     (case validateForkingEnabled s of
        Some err \<Rightarrow> Inl err
      | None \<Rightarrow>
          (case cWorkUnit c of
             None \<Rightarrow> Inl ''fork: no active task''
           | Some wu \<Rightarrow>
               (case cGit c of
                  None \<Rightarrow> Inl ''fork: git not available''
                | Some g \<Rightarrow>
                    if int (length (wuForks wu)) \<ge> maxForks s
                    then Inl (''fork: maximum forks reached ('' @ decimal (length (wuForks wu)) @ ''/'' @ format_int (maxForks s) @ '')'')
                    else
                      (case fgCurrentCommit fg g of
                         Inl err \<Rightarrow> Inl (''fork: get current commit: '' @ err)
                       | Inr sha \<Rightarrow>
                           let safeLabel = sanitizeBranchLabel label;
                               branchName = ''kvelmo-fork/'' @ wuID wu @ ''/'' @ safeLabel;
                               worktreeDir = worktreePath (fgParent fg) (wuID wu @ ''-fork-'' @ safeLabel) in
                           (case fgAddWorktree fg worktreeDir branchName True sha g of
                              Inl err \<Rightarrow> Inl (''fork: create worktree: '' @ err)
                            | Inr g' \<Rightarrow>
                                Inr (\<lparr>fkID = forkID, fkLabel = label, fkBranch = branchName, fkWorktreeDir = worktreeDir,
                                      fkCheckpointSHA = sha, fkState = ''active'', fkTokensUsed = 0, fkCreatedAt = now\<rparr>,
                                     c\<lparr>cGit := Some g'\<rparr>))))))"

text \<open>The second critical section writes through the conductor's task, and panics if there is none any more.\<close>

definition recordFork :: "('y, 'g) Env \<Rightarrow> time \<Rightarrow> ForkInfo \<Rightarrow> ('y, 'g) Conductor \<Rightarrow> ('y, 'g) Conductor option" where
  "recordFork env now info c =
     (case cWorkUnit c of
        None \<Rightarrow> None
      | Some _ \<Rightarrow>
          Some (emit now \<lparr>evType = ''fork_created'', evState = noState, evJobID = [],
                          evMessage = ''Fork created: '' @ fkLabel info, evTimestamp = 0\<rparr>
                 (persistState env now
                   (updateWorkUnit (\<lambda>wu. wu\<lparr>wuForks := wuForks wu @ [info], wuUpdatedAt := now\<rparr>) c))))"

definition Fork ::
  "('y, 'g) Env \<Rightarrow> ForkConfig \<Rightarrow> 'g ForkGit \<Rightarrow> time \<Rightarrow> string \<Rightarrow> string \<Rightarrow> ('y, 'g) Conductor \<Rightarrow>
   (ForkInfo result \<times> ('y, 'g) Conductor) option" where
  "Fork env s fg now forkID label c =
     (case prepareFork s fg now forkID label c of
        Inl err \<Rightarrow> Some (Inl err, c)
      | Inr (info, c1) \<Rightarrow> map_option (\<lambda>c2. (Inr info, c2)) (recordFork env now info c1))"

definition ListForks :: "('y, 'g) Conductor \<Rightarrow> ForkInfo list" where
  "ListForks c = (case cWorkUnit c of None \<Rightarrow> [] | Some wu \<Rightarrow> wuForks wu)"

definition removeFork :: "('y, 'g) Env \<Rightarrow> ForkInfo \<Rightarrow> 'g \<Rightarrow> 'g" where
  "removeFork env fork g =
     (let g1 = (case gitRemoveWorktree env (fkWorktreeDir fork) g of Inl _ \<Rightarrow> g | Inr g1 \<Rightarrow> g1)
      in (case gitDeleteBranch env (fkBranch fork) g1 of Inl _ \<Rightarrow> g1 | Inr g2 \<Rightarrow> g2))"

definition SelectFork ::
  "('y, 'g) Env \<Rightarrow> 'g ForkGit \<Rightarrow> time \<Rightarrow> string \<Rightarrow> ('y, 'g) Conductor \<Rightarrow> string option \<times> ('y, 'g) Conductor" where
  "SelectFork env fg now forkID c =
     (case cWorkUnit c of
        None \<Rightarrow> (Some ''select fork: no active task'', c)
      | Some wu \<Rightarrow>
          (case cGit c of
             None \<Rightarrow> (Some ''select fork: git not available'', c)
           | Some g \<Rightarrow>
               (case find (\<lambda>f. fkID f = forkID) (wuForks wu) of
                  None \<Rightarrow> (Some (''select fork: fork '' @ quote forkID @ '' not found''), c)
                | Some winner \<Rightarrow>
                    (case fgMerge fg (fkBranch winner) (''Merge fork '' @ quote (fkLabel winner) @ '' into task branch'') g of
                       (Some err, g1) \<Rightarrow> (Some (''select fork: merge: '' @ err), c\<lparr>cGit := Some g1\<rparr>)
                     | (None, g1) \<Rightarrow>
                         let g2 = fold (\<lambda>fork g. if fkID fork = forkID then g else removeFork env fork g) (wuForks wu) g1;
                             g3 = fgPrune fg g2
                         in (None,
                             emit now \<lparr>evType = ''fork_selected'', evState = noState, evJobID = [],
                                       evMessage = ''Fork selected: '' @ fkLabel winner, evTimestamp = 0\<rparr>
                               (persistState env now
                                 (updateWorkUnit (\<lambda>wu. wu\<lparr>wuForks := [], wuUpdatedAt := now\<rparr>) (c\<lparr>cGit := Some g3\<rparr>))))))))"

datatype ForkOp = DoFork time string string | DoSelect time string

text \<open>The conductor after a call, whatever it returned.\<close>

fun forkOp :: "('y, 'g) Env \<Rightarrow> ForkConfig \<Rightarrow> 'g ForkGit \<Rightarrow> ForkOp \<Rightarrow> ('y, 'g) Conductor \<Rightarrow> ('y, 'g) Conductor" where
  "forkOp env s fg (DoFork now forkID label) c = (case Fork env s fg now forkID label c of None \<Rightarrow> c | Some (_, c') \<Rightarrow> c')"
| "forkOp env s fg (DoSelect now forkID) c = snd (SelectFork env fg now forkID c)"

section \<open>Lemmas\<close>

lemma pathedUnit_forks [simp]: "wuForks (pathedUnit env c wu) = wuForks wu"
  by (simp add: pathedUnit_def split: option.splits bool.splits)

lemma persistState_forks: "map_option wuForks (cWorkUnit (persistState env now c)) = map_option wuForks (cWorkUnit c)"
  by (auto simp: persistState_def persistVarPool_unit Let_def split: option.splits sum.splits)

lemma ListForks_alt: "ListForks c = (case map_option wuForks (cWorkUnit c) of None \<Rightarrow> [] | Some fs \<Rightarrow> fs)"
  by (simp add: ListForks_def split: option.splits)

lemma ListForks_keeps [simp]:
  "ListForks (emit now e c) = ListForks c" "ListForks (persistState env now c) = ListForks c" "ListForks (c\<lparr>cGit := g\<rparr>) = ListForks c"
  by (simp_all add: ListForks_alt persistState_forks emit_fields)

lemma ListForks_update:
  "ListForks (updateWorkUnit f c) = (case cWorkUnit c of None \<Rightarrow> [] | Some wu \<Rightarrow> wuForks (f wu))"
  by (simp add: ListForks_def updateWorkUnit_fields split: option.splits)

lemma labelSpecial_plain: "CHR ''-'' \<notin> set labelSpecial" "CHR ''.'' \<notin> set labelSpecial"
  by code_simp+

lemma replaceLabel_chars: "c \<in> set (replaceLabel s) \<Longrightarrow> c \<notin> set labelSpecial"
  by (induction s rule: replaceLabel.induct) (simp_all only: replaceLabel.simps split: if_splits, auto simp: labelSpecial_plain)

lemma prepareFork_Inr:
  assumes "prepareFork s fg now fid label c = Inr (info, c1)"
  shows "\<exists>wu g g'. cWorkUnit c = Some wu \<and> cGit c = Some g \<and> c1 = c\<lparr>cGit := Some g'\<rparr> \<and> fkID info = fid \<and>
    int (length (wuForks wu)) < maxForks s \<and>
    fgAddWorktree fg (fkWorktreeDir info) (fkBranch info) True (fkCheckpointSHA info) g = Inr g'"
  using assms by (auto simp: prepareFork_def Let_def split: option.splits sum.splits if_splits)

lemma recordFork_Some:
  assumes "cWorkUnit c \<noteq> None"
  shows "\<exists>c'. recordFork env now info c = Some c' \<and> cGit c' = cGit c \<and> ListForks c' = ListForks c @ [info]"
  using assms by (auto simp: recordFork_def emit_fields persistState_fields updateWorkUnit_fields ListForks_update) (simp add: ListForks_def)

text \<open>A fork never panics if no other call comes between its two parts.\<close>

lemma Fork_cases:
  obtains (refused) err where "Fork env s fg now fid label c = Some (Inl err, c)"
  | (created) info c' g g' where "Fork env s fg now fid label c = Some (Inr info, c')" "cGit c = Some g" "cGit c' = Some g'"
      "fkID info = fid" "int (length (ListForks c)) < maxForks s" "ListForks c' = ListForks c @ [info]"
      "fgAddWorktree fg (fkWorktreeDir info) (fkBranch info) True (fkCheckpointSHA info) g = Inr g'"
proof (cases "prepareFork s fg now fid label c")
  case (Inl err)
  then show ?thesis using refused by (simp add: Fork_def)
next
  case (Inr r)
  then obtain info c1 where r: "prepareFork s fg now fid label c = Inr (info, c1)" by (cases r) simp
  from prepareFork_Inr [OF r] obtain wu g g' where p: "cWorkUnit c = Some wu" "cGit c = Some g" "c1 = c\<lparr>cGit := Some g'\<rparr>"
    "fkID info = fid" "int (length (wuForks wu)) < maxForks s"
    "fgAddWorktree fg (fkWorktreeDir info) (fkBranch info) True (fkCheckpointSHA info) g = Inr g'" by blast
  from p(1,3) obtain c' where c': "recordFork env now info c1 = Some c'" "cGit c' = cGit c1" "ListForks c' = ListForks c1 @ [info]"
    using recordFork_Some [of c1 env now info] by auto
  have "Fork env s fg now fid label c = Some (Inr info, c')" using r c'(1) by (simp add: Fork_def)
  then show ?thesis using created [of info c' g g'] p c'(2,3) by (simp add: ListForks_def)
qed

lemma SelectFork_cases:
  obtains (refused) err where "SelectFork env fg now fid c = (Some err, c)"
  | (conflict) err g br msg where "SelectFork env fg now fid c = (Some err, c\<lparr>cGit := Some (snd (fgMerge fg br msg g))\<rparr>)" "cGit c = Some g"
  | (selected) winner g g1 c' where "SelectFork env fg now fid c = (None, c')" "cGit c = Some g" "winner \<in> set (ListForks c)"
      "fkID winner = fid" "fgMerge fg (fkBranch winner) (''Merge fork '' @ quote (fkLabel winner) @ '' into task branch'') g = (None, g1)"
      "cGit c' = Some (fgPrune fg (fold (\<lambda>fork g. if fkID fork = fid then g else removeFork env fork g) (ListForks c) g1))"
      "ListForks c' = []"
proof (cases "cWorkUnit c")
  case None
  then show ?thesis using refused by (simp add: SelectFork_def)
next
  case wu: (Some wu)
  show ?thesis
  proof (cases "cGit c")
    case None
    then show ?thesis using refused wu by (simp add: SelectFork_def)
  next
    case g: (Some g)
    show ?thesis
    proof (cases "find (\<lambda>f. fkID f = fid) (wuForks wu)")
      case None
      then show ?thesis using refused wu g by (simp add: SelectFork_def)
    next
      case w: (Some winner)
      then have m: "winner \<in> set (wuForks wu)" "fkID winner = fid" by (auto simp: find_Some_iff)
      let ?msg = "''Merge fork '' @ quote (fkLabel winner) @ '' into task branch''"
      obtain r g1 where mg: "fgMerge fg (fkBranch winner) ?msg g = (r, g1)" by (cases "fgMerge fg (fkBranch winner) ?msg g")
      show ?thesis
      proof (cases r)
        case None
        have l: "ListForks c = wuForks wu" using wu by (simp add: ListForks_def)
        show ?thesis
          by (rule selected [OF _ g _ m(2) mg [unfolded None]])
            (use None mg wu g w m in \<open>simp add: SelectFork_def Let_def; fail\<close>,
             use m in \<open>simp_all add: ListForks_update emit_fields persistState_fields updateWorkUnit_fields wu l\<close>)
      next
        case (Some err)
        then show ?thesis using conflict [of _ "fkBranch winner" ?msg g] wu g w mg by (simp add: SelectFork_def)
      qed
    qed
  qed
qed

section \<open>Properties\<close>

text \<open>What git documents of worktrees; \<open>trees\<close> are the directories of the repository's worktrees.\<close>

definition worktree_laws :: "('y, 'g) Env \<Rightarrow> 'g ForkGit \<Rightarrow> ('g \<Rightarrow> string set) \<Rightarrow> bool" where
  "worktree_laws env fg trees \<longleftrightarrow>
     (\<forall>dir br create sha g g'. fgAddWorktree fg dir br create sha g = Inr g' \<longrightarrow> dir \<notin> trees g \<and> trees g' = insert dir (trees g)) \<and>
     (\<forall>dir g g'. gitRemoveWorktree env dir g = Inr g' \<longrightarrow> trees g' = trees g - {dir}) \<and>
     (\<forall>br g g'. gitDeleteBranch env br g = Inr g' \<longrightarrow> trees g' = trees g) \<and>
     (\<forall>br msg g. trees (snd (fgMerge fg br msg g)) = trees g) \<and>
     (\<forall>g. trees (fgPrune fg g) = trees g)"

definition forks_ok :: "ForkConfig \<Rightarrow> ('g \<Rightarrow> string set) \<Rightarrow> ('y, 'g) Conductor \<Rightarrow> bool" where
  "forks_ok s trees c \<longleftrightarrow>
     int (length (ListForks c)) \<le> maxForks s \<and> distinct (map fkWorktreeDir (ListForks c)) \<and>
     (\<forall>f g. f \<in> set (ListForks c) \<longrightarrow> cGit c = Some g \<longrightarrow> fkWorktreeDir f \<in> trees g)"

lemma maxForks_pos: "maxForks s > 0"
  by (simp add: maxForks_def split: option.splits)

lemma forkOp_ok:
  assumes laws: "worktree_laws env fg trees" and ok: "forks_ok s trees c"
  shows "forks_ok s trees (forkOp env s fg op c)"
proof (cases op)
  case (DoFork now fid label)
  show ?thesis
  proof (cases rule: Fork_cases [of env s fg now fid label c])
    case (created info c' g g')
    have "fkWorktreeDir info \<notin> trees g" "trees g' = insert (fkWorktreeDir info) (trees g)"
      using laws created(7) by (auto simp: worktree_laws_def)
    with created ok show ?thesis by (auto simp: forks_ok_def DoFork)
  qed (use ok DoFork in simp)
next
  case (DoSelect now fid)
  show ?thesis
  proof (cases rule: SelectFork_cases [of env fg now fid c])
    case (conflict err g br msg)
    then show ?thesis using ok laws by (auto simp: DoSelect forks_ok_def worktree_laws_def)
  next
    case (selected winner g g1 c')
    then show ?thesis using maxForks_pos [of s] by (simp add: DoSelect forks_ok_def)
  qed (use ok DoSelect in simp)
qed

lemma forkOps_ok:
  "worktree_laws env fg trees \<Longrightarrow> forks_ok s trees c \<Longrightarrow> forks_ok s trees (fold (forkOp env s fg) ops c)"
  by (induction ops arbitrary: c) (simp_all add: forkOp_ok)

lemma no_forks_ok: "ListForks c = [] \<Longrightarrow> forks_ok s trees c"
  using maxForks_pos [of s] by (simp add: forks_ok_def)

text \<open>
  Forks stay within the limit and in their worktrees: over any sequence of forks and selections, one after the other,
  the number of forks is at most the configured maximum, no two of them share a worktree, also if their labels give the
  same name, and the worktree of every fork exists.
\<close>

theorem forks_within_limit:
  assumes "worktree_laws env fg trees" and "ListForks c = []" and "cGit c = Some g"
    and "c' = fold (forkOp env s fg) ops c" and "cGit c' = Some g'"
  shows "int (length (ListForks c')) \<le> maxForks s \<and> distinct (map fkWorktreeDir (ListForks c')) \<and>
    fkWorktreeDir ` set (ListForks c') \<subseteq> trees g'"
proof -
  have "forks_ok s trees c'" unfolding assms(4) by (rule forkOps_ok [OF assms(1) no_forks_ok [OF assms(2)]])
  then show ?thesis using assms(5) by (auto simp: forks_ok_def)
qed

definition demo_fork_env :: "(TaskState, string list) Env" where
  "demo_fork_env = demo_env\<lparr>gitRemoveWorktree := (\<lambda>dir g. if dir \<in> set g then Inr (filter (\<lambda>d. d \<noteq> dir) g) else Inl ''not a working tree'')\<rparr>"

definition demo_fork_git :: "string list ForkGit" where
  "demo_fork_git = \<lparr>fgParent = ''/p'', fgCurrentCommit = (\<lambda>_. Inr ''abc''),
     fgAddWorktree = (\<lambda>dir br create sha g. if dir \<in> set g then Inl ''already exists'' else Inr (g @ [dir])),
     fgMerge = (\<lambda>_ _ g. (None, g)), fgPrune = (\<lambda>g. g)\<rparr>"

abbreviation demo_fork_config :: "int \<Rightarrow> ForkConfig" where
  "demo_fork_config n \<equiv> Some (Some \<lparr>fsEnabled = True, fsMaxForks = n\<rparr>)"

abbreviation demo_fork_start :: "(TaskState, string list) Conductor" where
  "demo_fork_start \<equiv> demo_conductor demo_submitted"

lemma demo_worktree_laws: "worktree_laws demo_fork_env demo_fork_git set"
  by (auto simp: worktree_laws_def demo_fork_env_def demo_fork_git_def demo_env_def split: if_splits)

definition demo_fork_ops :: "ForkOp list" where
  "demo_fork_ops = [DoFork 1 ''f1'' ''Try A'', DoFork 2 ''f2'' ''try/a'', DoFork 3 ''f3'' ''B'', DoFork 4 ''f4'' ''C'']"

definition demo_forked :: "(TaskState, string list) Conductor" where
  "demo_forked = fold (forkOp demo_fork_env (demo_fork_config 2) demo_fork_git) demo_fork_ops demo_fork_start"

lemma demo_forks: "map fkID (ListForks demo_forked) = [''f1'', ''f3'']" "cGit demo_forked \<noteq> None" "ListForks demo_fork_start = []" "cGit demo_fork_start \<noteq> None"
  by code_simp+

theorem forks_within_limit_witness: "length (ListForks demo_forked) \<le> 2"
proof -
  obtain g g' where "cGit demo_fork_start = Some g" "cGit demo_forked = Some g'" using demo_forks(2,4) by auto
  from forks_within_limit [OF demo_worktree_laws demo_forks(3) this(1) demo_forked_def this(2)]
  show ?thesis by (simp add: maxForks_def)
qed

lemma removeFork_trees:
  assumes "worktree_laws env fg trees"
  shows "trees g - {fkWorktreeDir f} \<subseteq> trees (removeFork env f g) \<and> trees (removeFork env f g) \<subseteq> trees g"
  using assms unfolding worktree_laws_def removeFork_def Let_def by (cases "gitRemoveWorktree env (fkWorktreeDir f) g"; cases "gitDeleteBranch env (fkBranch f) g") (auto split: sum.splits)

lemma removeForks_trees:
  assumes "worktree_laws env fg trees"
  shows "trees g - fkWorktreeDir ` {f \<in> set fs. fkID f \<noteq> fid} \<subseteq> trees (fold (\<lambda>f g. if fkID f = fid then g else removeFork env f g) fs g) \<and>
    trees (fold (\<lambda>f g. if fkID f = fid then g else removeFork env f g) fs g) \<subseteq> trees g"
proof (induction fs arbitrary: g)
  case (Cons f fs)
  show ?case
  proof (cases "fkID f = fid")
    case False
    with Cons [of "removeFork env f g"] removeFork_trees [OF assms, of g f] show ?thesis by auto
  qed (use Cons [of g] in auto)
qed simp

text \<open>
  A selection keeps what was chosen and gives up only the others: it merges the branch of the named fork, and of the
  worktrees at most those of the other forks are gone, which are the ones it asks git to remove; the worktree of the
  chosen fork is still there, although no fork is listed any more.
\<close>

theorem selection_keeps_the_winner:
  assumes "worktree_laws env fg trees" and "forks_ok s trees c" and "SelectFork env fg now fid c = (None, c')"
  shows "\<exists>winner g g1 g'. winner \<in> set (ListForks c) \<and> fkID winner = fid \<and> cGit c = Some g \<and> cGit c' = Some g' \<and>
    fgMerge fg (fkBranch winner) (''Merge fork '' @ quote (fkLabel winner) @ '' into task branch'') g = (None, g1) \<and>
    trees g - fkWorktreeDir ` {f \<in> set (ListForks c). fkID f \<noteq> fid} \<subseteq> trees g' \<and> trees g' \<subseteq> trees g \<and>
    fkWorktreeDir winner \<in> trees g' \<and> ListForks c' = []"
proof (cases rule: SelectFork_cases [of env fg now fid c])
  case (selected winner g g1 c'')
  define g' where "g' = fgPrune fg (fold (\<lambda>f g. if fkID f = fid then g else removeFork env f g) (ListForks c) g1)"
  have "trees (snd (fgMerge fg br msg g)) = trees g" for br msg using assms(1) by (simp add: worktree_laws_def)
  from this [of "fkBranch winner" "''Merge fork '' @ quote (fkLabel winner) @ '' into task branch''"]
  have t1: "trees g1 = trees g" unfolding selected(5) by simp
  have "trees g' = trees (fold (\<lambda>f g. if fkID f = fid then g else removeFork env f g) (ListForks c) g1)"
    using assms(1) by (simp add: worktree_laws_def g'_def)
  with removeForks_trees [OF assms(1), where g = g1 and fid = fid and fs = "ListForks c"] have t: "trees g - fkWorktreeDir ` {f \<in> set (ListForks c). fkID f \<noteq> fid} \<subseteq> trees g'"
    "trees g' \<subseteq> trees g" by (simp_all add: t1)
  have "fkWorktreeDir winner \<in> trees g" using assms(2) selected(2,3) by (simp add: forks_ok_def)
  moreover have "fkWorktreeDir f \<noteq> fkWorktreeDir winner" if "f \<in> set (ListForks c)" "fkID f \<noteq> fid" for f
    using assms(2) selected(3,4) that by (auto simp: forks_ok_def distinct_map inj_on_def)
  ultimately have "fkWorktreeDir winner \<in> trees g'" using t(1) by fastforce
  with selected t assms(3) show ?thesis by (auto simp: g'_def [symmetric])
qed (use assms(3) in simp_all)

theorem selection_keeps_the_winner_witness:
  "\<exists>winner :: ForkInfo. \<exists>g'. fkID winner = ''f1'' \<and> cGit (snd (SelectFork demo_fork_env demo_fork_git 9 ''f1'' demo_forked)) = Some g' \<and>
     fkWorktreeDir winner \<in> set g'"
proof -
  have ok: "forks_ok (demo_fork_config 2) set demo_forked"
    unfolding demo_forked_def by (rule forkOps_ok [OF demo_worktree_laws no_forks_ok [OF demo_forks(3)]])
  have "fst (SelectFork demo_fork_env demo_fork_git 9 ''f1'' demo_forked) = None" by code_simp
  then have "SelectFork demo_fork_env demo_fork_git 9 ''f1'' demo_forked = (None, snd (SelectFork demo_fork_env demo_fork_git 9 ''f1'' demo_forked))"
    by (metis prod.collapse)
  from selection_keeps_the_winner [OF demo_worktree_laws ok this] show ?thesis by blast
qed

text \<open>
  The check and the record are separate critical sections. Two forks at the same time pass the check together and exceed
  the limit; and a task that is abandoned in between makes the record panic.
\<close>

lemma fork_limit_race:
  "(case prepareFork (demo_fork_config 1) demo_fork_git 1 ''f1'' ''A'' demo_fork_start of Inl _ \<Rightarrow> False
    | Inr (i1, c1) \<Rightarrow>
        (case prepareFork (demo_fork_config 1) demo_fork_git 1 ''f2'' ''B'' c1 of Inl _ \<Rightarrow> False
         | Inr (i2, c2) \<Rightarrow>
             (case recordFork demo_fork_env 2 i1 c2 of None \<Rightarrow> False
              | Some c3 \<Rightarrow> (case recordFork demo_fork_env 3 i2 c3 of None \<Rightarrow> False | Some c4 \<Rightarrow> length (ListForks c4) = 2))))"
  by code_simp

lemma fork_abandon_panics:
  "(case prepareFork (demo_fork_config 1) demo_fork_git 1 ''f1'' ''A'' demo_fork_start of Inl _ \<Rightarrow> False
    | Inr (i1, c1) \<Rightarrow> recordFork demo_fork_env 3 i1 (Abandon demo_fork_env 2 True c1) = None)"
  by code_simp

fun double_dot :: "string \<Rightarrow> bool" where
  "double_dot (c # d # cs) \<longleftrightarrow> c = CHR ''.'' \<and> d = CHR ''.'' \<or> double_dot (d # cs)"
| "double_dot _ \<longleftrightarrow> False"

lemma double_dot_sublist: "double_dot s \<longleftrightarrow> containsText s ''..''"
  unfolding containsText_def
  by (induction s rule: double_dot.induct) (auto simp: sublist_Cons_right)

lemma replaceLabel_dots: "\<not> double_dot (replaceLabel s) \<and> (s = [] \<or> hd s \<noteq> CHR ''.'' \<longrightarrow> replaceLabel s = [] \<or> hd (replaceLabel s) \<noteq> CHR ''.'')"
proof (induction s rule: replaceLabel.induct)
  case (3 c d cs)
  then show ?case by (cases "replaceLabel (d # cs)"; cases "replaceLabel cs") (auto simp: labelSpecial_plain)
qed auto

lemma toLowerChar_plain: "toLowerChar c \<in> set labelSpecial \<Longrightarrow> c \<in> set labelSpecial" "toLowerChar c = CHR ''.'' \<longleftrightarrow> c = CHR ''.''"
proof -
  have low: "97 \<le> (of_char (toLowerChar c) :: nat) \<and> of_char (toLowerChar c) \<le> (122 :: nat)" if "toLowerChar c \<noteq> c"
    using that by (auto simp: toLowerChar_def split: if_splits)
  have sp: "list_all (\<lambda>c. \<not> (97 \<le> (of_char c :: nat) \<and> of_char c \<le> (122 :: nat))) (CHR ''.'' # labelSpecial)" by code_simp
  show "toLowerChar c \<in> set labelSpecial \<Longrightarrow> c \<in> set labelSpecial" using low sp by (cases "toLowerChar c = c") (auto simp: list_all_iff)
  show "toLowerChar c = CHR ''.'' \<longleftrightarrow> c = CHR ''.''" using low sp by (cases "toLowerChar c = c") (auto simp: toLowerChar_def)
qed

lemma double_dot_toLower: "double_dot (toLower s) \<longleftrightarrow> double_dot s"
  by (induction s rule: double_dot.induct) (auto simp: toLower_def toLowerChar_plain)

text \<open>
  A label becomes part of a name that git and the file system accept: the sanitised label has none of the characters
  that the code means to remove, among them the separator of paths, and no two dots in sequence.
\<close>

theorem label_is_one_component:
  "set (sanitizeBranchLabel label) \<inter> set labelSpecial = {} \<and> \<not> containsText (sanitizeBranchLabel label) ''..''"
proof -
  have "set (sanitizeBranchLabel label) \<inter> set labelSpecial = {}"
    using replaceLabel_chars [of _ label] toLowerChar_plain(1) by (auto simp: sanitizeBranchLabel_def toLower_def)
  then show ?thesis using replaceLabel_dots [of label] by (simp add: sanitizeBranchLabel_def double_dot_toLower flip: double_dot_sublist)
qed

end
