(* ===== verification/Fork_Compare.thy ===== *)
theory Fork_Compare
  imports Forks Findings_Merge
begin

text \<open>
  The comparison of forks (src/internal/conductor/fork_compare.go): for each fork the statistics of its changes, which are
  read off the text that git prints.
\<close>

section \<open>Operations\<close>

record DiffStats =
  dsFiles :: int
  dsAdded :: int
  dsRemoved :: int

record ForkCompareEntry =
  ceFork :: ForkInfo
  ceDiffStats :: DiffStats
  ceFilesAdded :: int
  ceFilesModified :: int
  ceLinesAdded :: int
  ceLinesRemoved :: int

text \<open>\<^verbatim>\<open>strconv.Atoi\<close>.\<close>

definition atoi :: "string \<Rightarrow> int option" where
  "atoi s =
     (let signed = (s \<noteq> [] \<and> (hd s = CHR ''-'' \<or> hd s = CHR ''+''));
          ds = (if signed then drop 1 s else s);
          n = (if signed \<and> hd s = CHR ''-'' then - int (undecimal ds) else int (undecimal ds))
      in if ds = [] \<or> \<not> list_all isDigit ds \<or> n < - (2 ^ 63) \<or> 2 ^ 63 \<le> n then None else Some n)"

text \<open>The number before a word of the summary; 0 if there is none.\<close>

definition numberBefore :: "string \<Rightarrow> string \<Rightarrow> int" where
  "numberBefore word summary =
     (case indexOf word summary of
        None \<Rightarrow> 0
      | Some idx \<Rightarrow>
          if idx = 0 then 0
          else let parts = Findings_Merge.fields (take idx summary) in
               if parts = [] then 0 else (case atoi (last parts) of None \<Rightarrow> 0 | Some n \<Rightarrow> n))"

definition parseDiffStat :: "string \<Rightarrow> DiffStats \<times> int \<times> int \<times> int" where
  "parseDiffStat stat =
     (let ls = splitChar (CHR 0x0A) (trimSpace stat);
          summary = last ls;
          files = numberBefore '' file'' summary;
          added = numberBefore '' insertion'' summary;
          removed = numberBefore '' deletion'' summary;
          modified = length (filter (\<lambda>line. trimSpace line \<noteq> [] \<and> containsText (trimSpace line) ''|'') (butlast ls))
      in (\<lparr>dsFiles = files, dsAdded = added, dsRemoved = removed\<rparr>, int modified, added, removed))"

definition compareEntry :: "(string \<Rightarrow> string result) \<Rightarrow> ForkInfo \<Rightarrow> ForkCompareEntry" where
  "compareEntry diffAgainst fork =
     (let entry = \<lparr>ceFork = fork, ceDiffStats = \<lparr>dsFiles = 0, dsAdded = 0, dsRemoved = 0\<rparr>, ceFilesAdded = 0, ceFilesModified = 0,
                   ceLinesAdded = 0, ceLinesRemoved = 0\<rparr> in
      case diffAgainst (fkCheckpointSHA fork @ ''...'' @ fkBranch fork) of
        Inl _ \<Rightarrow> entry
      | Inr stat \<Rightarrow>
          (case parseDiffStat stat of (ds, modified, added, removed) \<Rightarrow>
             entry\<lparr>ceDiffStats := ds, ceFilesModified := modified, ceLinesAdded := added, ceLinesRemoved := removed\<rparr>))"

definition CompareForks :: "('g \<Rightarrow> string \<Rightarrow> string result) \<Rightarrow> ('y, 'g) Conductor \<Rightarrow> ForkCompareEntry list result" where
  "CompareForks diffAgainst c =
     (case cWorkUnit c of
        None \<Rightarrow> Inl ''compare forks: no active task''
      | Some wu \<Rightarrow>
          (case cGit c of
             None \<Rightarrow> Inl ''compare forks: git not available''
           | Some g \<Rightarrow> Inr (map (compareEntry (diffAgainst g)) (wuForks wu))))"

section \<open>The text that git prints\<close>

text \<open>
  The output of \<^verbatim>\<open>git diff --stat\<close>: a line per file, and a summary whose parts on insertions and deletions are left out if
  they are zero, with singular words for one.
\<close>

definition plural :: "nat \<Rightarrow> string" where
  "plural n = (if n = 1 then [] else ''s'')"

definition statSummary :: "nat \<Rightarrow> nat \<Rightarrow> nat \<Rightarrow> string" where
  "statSummary files added removed =
     '' '' @ decimal files @ '' file'' @ plural files @ '' changed'' @
     (if added = 0 \<and> removed \<noteq> 0 then [] else '', '' @ decimal added @ '' insertion'' @ plural added @ ''(+)'') @
     (if removed = 0 \<and> added \<noteq> 0 then [] else '', '' @ decimal removed @ '' deletion'' @ plural removed @ ''(-)'')"

definition statText :: "string list \<Rightarrow> nat \<Rightarrow> nat \<Rightarrow> nat \<Rightarrow> string" where
  "statText fileLines files added removed =
     concat (map (\<lambda>line. line @ [CHR 0x0A]) fileLines) @ statSummary files added removed @ [CHR 0x0A]"

lemma decimal_digits: "list_all isDigit (decimal n)"
proof (induction n rule: decimal.induct)
  case (1 n)
  have d: "isDigit (char_of (48 + k))" if "k < 10" for k :: nat
  proof -
    have "list_all (\<lambda>k. isDigit (char_of (48 + k))) [0..<10 :: nat]" by code_simp
    then show ?thesis using that by (simp add: list_all_iff)
  qed
  show ?case
  proof (cases "n < 10")
    case True
    then show ?thesis using d by (subst decimal.simps) simp
  next
    case False
    then show ?thesis using 1 d [of "n mod 10"] by (subst decimal.simps) simp
  qed
qed

lemma decimal_Cons: "\<exists>d ds. decimal n = d # ds"
  by (subst decimal.simps) (auto simp: neq_Nil_conv [symmetric])

lemma digit_plain: "isDigit c \<Longrightarrow> \<not> isSpace c \<and> c \<noteq> CHR ''-'' \<and> c \<noteq> CHR ''+'' \<and> c \<noteq> CHR '' '' \<and> c \<noteq> CHR ''f'' \<and> c \<noteq> CHR ''i'' \<and> c \<noteq> CHR ''d''"
  by (auto simp: isDigit_def isSpace_def)

lemma atoi_decimal: "n < 2 ^ 63 \<Longrightarrow> atoi (decimal n) = Some (int n)"
proof -
  assume n: "n < 2 ^ 63"
  obtain d ds where d: "decimal n = d # ds" using decimal_Cons by blast
  with decimal_digits [of n] digit_plain have p: "d \<noteq> CHR ''-''" "d \<noteq> CHR ''+''" by auto
  have "int n < 2 ^ 63" using n by (metis of_nat_less_iff of_nat_numeral of_nat_power)
  with p decimal_digits [of n] show ?thesis using undecimal_decimal [of n] unfolding d by (simp add: atoi_def)
qed

lemma indexOf_skip: "\<not> prefix sub (c # s) \<Longrightarrow> indexOf sub (c # s) = map_option Suc (indexOf sub s)"
  by simp

lemma indexOf_skip_all:
  assumes "c \<notin> set xs"
  shows "indexOf (c # t) (xs @ s) = map_option (\<lambda>k. k + length xs) (indexOf (c # t) s)"
  using assms by (induction xs) (auto simp: option.map_comp o_def option.map_ident)

lemma fields_word:
  assumes "w \<noteq> []" and "list_all (\<lambda>c. \<not> isSpace c) w"
  shows "Findings_Merge.fields w = [w]"
proof -
  have "dropWhile isSpace w = w" using assms by (cases w) auto
  moreover have "takeWhile (\<lambda>c. \<not> isSpace c) w = w" and d: "dropWhile (\<lambda>c. \<not> isSpace c) w = []"
    using assms(2) by (auto simp: list_all_iff)
  moreover have "Findings_Merge.fields (dropWhile (\<lambda>c. \<not> isSpace c) w) = []" unfolding d by (subst Findings_Merge.fields.simps) simp
  ultimately show ?thesis using assms(1) by (subst Findings_Merge.fields.simps) (simp only: Let_def if_False)
qed

lemma fields_last:
  assumes "w \<noteq> []" and "list_all (\<lambda>c. \<not> isSpace c) w" and "isSpace c"
  shows "Findings_Merge.fields (s @ c # w) \<noteq> [] \<and> last (Findings_Merge.fields (s @ c # w)) = w"
proof (induction s rule: length_induct)
  case (1 s)
  have w: "dropWhile isSpace w = w" using assms(1,2) by (cases w) auto
  define t where "t = dropWhile isSpace s"
  show ?case
  proof (cases "t = []")
    case True
    then have "dropWhile isSpace (s @ c # w) = dropWhile isSpace w" using assms(3) w by (simp add: t_def dropWhile_append)
    then have "Findings_Merge.fields (s @ c # w) = Findings_Merge.fields w"
      by (subst (1 2) Findings_Merge.fields.simps) (simp only:)
    then show ?thesis using fields_word [OF assms(1,2)] by simp
  next
    case False
    then have d: "dropWhile isSpace (s @ c # w) = t @ c # w" by (auto simp: t_def dropWhile_append)
    have "\<not> isSpace (hd t)" using False by (simp add: t_def hd_dropWhile)
    then have lt: "length (dropWhile (\<lambda>c. \<not> isSpace c) t) < length s"
      using False length_dropWhile_le [of isSpace s] length_dropWhile_le [of "\<lambda>c. \<not> isSpace c" "tl t"]
      by (cases t) (auto simp: t_def)
    have "dropWhile (\<lambda>c. \<not> isSpace c) (t @ c # w) = dropWhile (\<lambda>c. \<not> isSpace c) t @ c # w"
      using assms(3) by (auto simp: dropWhile_append)
    with d have "Findings_Merge.fields (s @ c # w) = takeWhile (\<lambda>c. \<not> isSpace c) (t @ c # w) # Findings_Merge.fields (dropWhile (\<lambda>c. \<not> isSpace c) t @ c # w)"
      by (subst Findings_Merge.fields.simps) (simp add: Let_def)
    with 1 lt show ?thesis by simp
  qed
qed

lemma numberBefore_at:
  assumes "indexOf word (u @ decimal n @ v) = Some (length u + length (decimal n))" and "n < 2 ^ 63" and "u = [] \<or> last u = CHR '' ''"
  shows "numberBefore word (u @ decimal n @ v) = int n"
proof -
  have ne: "decimal n \<noteq> []" using decimal_Cons [of n] by auto
  have ns: "list_all (\<lambda>c. \<not> isSpace c) (decimal n)" using decimal_digits [of n] digit_plain by (auto simp: list_all_iff)
  have "Findings_Merge.fields (u @ decimal n) \<noteq> [] \<and> last (Findings_Merge.fields (u @ decimal n)) = decimal n"
  proof (cases "u = []")
    case True
    then show ?thesis using fields_word [OF ne ns] by simp
  next
    case False
    then have "u @ decimal n = butlast u @ CHR '' '' # decimal n" using assms(3) by (metis append_Cons append_Nil append_assoc append_butlast_last_id)
    then show ?thesis using fields_last [OF ne ns, of "CHR '' ''" "butlast u"] by (simp only: isSpace_def) blast
  qed
  with assms(1,2) ne atoi_decimal show ?thesis by (simp add: numberBefore_def Let_def)
qed

lemma not_prefix_decimal: "\<not> isDigit x \<Longrightarrow> \<not> prefix (x # t) (decimal n @ s)"
  using decimal_Cons [of n] decimal_digits [of n] by auto

lemma space_not_digit: "CHR '' '' \<notin> set (decimal n)"
  using decimal_digits [of n] digit_plain by (auto simp: list_all_iff)

lemma letters_not_digits: "\<not> isDigit (CHR ''f'')" "\<not> isDigit (CHR ''i'')" "\<not> isDigit (CHR ''d'')"
  by code_simp+

lemmas index_simps = indexOf_skip_all [OF space_not_digit] not_prefix_decimal letters_not_digits plural_def

lemma summary_files:
  assumes "files < 2 ^ 63" "p \<in> {[], '' ''}"
  shows "numberBefore '' file'' (p @ decimal files @ '' file'' @ rest) = int files"
  using assms(2) by (intro numberBefore_at [OF _ assms(1)]) (auto simp: index_simps)

lemma numberBefore_none: "indexOf word s = None \<Longrightarrow> numberBefore word s = 0"
  by (simp add: numberBefore_def)

lemma summary_insertions:
  assumes "added < 2 ^ 63" "p \<in> {[], '' ''}"
  shows "numberBefore '' insertion'' (p @ decimal files @ '' file'' @ plural files @ '' changed, '' @ decimal added @ '' insertion'' @ rest) = int added"
proof -
  let ?u = "p @ decimal files @ '' file'' @ plural files @ '' changed, ''"
  have "numberBefore '' insertion'' (?u @ decimal added @ '' insertion'' @ rest) = int added"
    using assms(2) by (intro numberBefore_at [OF _ assms(1)]) (auto simp: index_simps)
  then show ?thesis by simp
qed

lemma summary_no_insertions:
  assumes "p \<in> {[], '' ''}"
  shows "numberBefore '' insertion'' (p @ decimal files @ '' file'' @ plural files @ '' changed, '' @ decimal removed @ '' deletion'' @ plural removed @ ''(-)'') = 0"
  using assms by (intro numberBefore_none) (auto simp: index_simps)

lemma summary_deletions:
  assumes "removed < 2 ^ 63" "p \<in> {[], '' ''}"
  shows "numberBefore '' deletion'' (p @ decimal files @ '' file'' @ plural files @ '' changed, '' @ decimal removed @ '' deletion'' @ rest) = int removed"
    and "numberBefore '' deletion'' (p @ decimal files @ '' file'' @ plural files @ '' changed, '' @ decimal added @ '' insertion'' @ plural added @ ''(+), '' @
      decimal removed @ '' deletion'' @ rest) = int removed"
proof -
  let ?u = "p @ decimal files @ '' file'' @ plural files @ '' changed, ''"
  have "numberBefore '' deletion'' (?u @ decimal removed @ '' deletion'' @ rest) = int removed"
    using assms(2) by (intro numberBefore_at [OF _ assms(1)]) (auto simp: index_simps)
  then show "numberBefore '' deletion'' (p @ decimal files @ '' file'' @ plural files @ '' changed, '' @ decimal removed @ '' deletion'' @ rest) = int removed" by simp
  let ?v = "?u @ decimal added @ '' insertion'' @ plural added @ ''(+), ''"
  have "numberBefore '' deletion'' (?v @ decimal removed @ '' deletion'' @ rest) = int removed"
    using assms(2) by (intro numberBefore_at [OF _ assms(1)]) (auto simp: index_simps)
  then show "numberBefore '' deletion'' (p @ decimal files @ '' file'' @ plural files @ '' changed, '' @ decimal added @ '' insertion'' @ plural added @ ''(+), '' @
      decimal removed @ '' deletion'' @ rest) = int removed" by simp
qed

lemma summary_no_deletions:
  assumes "p \<in> {[], '' ''}"
  shows "numberBefore '' deletion'' (p @ decimal files @ '' file'' @ plural files @ '' changed, '' @ decimal added @ '' insertion'' @ plural added @ ''(+)'') = 0"
  using assms by (intro numberBefore_none) (auto simp: index_simps)

definition bareSummary :: "nat \<Rightarrow> nat \<Rightarrow> nat \<Rightarrow> string" where
  "bareSummary files added removed = drop 1 (statSummary files added removed)"

lemma summary_numbers:
  assumes "files < 2 ^ 63" "added < 2 ^ 63" "removed < 2 ^ 63" "p \<in> {[], '' ''}"
  shows "numberBefore '' file'' (p @ bareSummary files added removed) = int files"
    and "numberBefore '' insertion'' (p @ bareSummary files added removed) = int added"
    and "numberBefore '' deletion'' (p @ bareSummary files added removed) = int removed"
proof -
  show "numberBefore '' file'' (p @ bareSummary files added removed) = int files"
    using summary_files [OF assms(1,4)] by (simp add: bareSummary_def statSummary_def)
  show "numberBefore '' insertion'' (p @ bareSummary files added removed) = int added"
    using summary_insertions [OF assms(2,4), of files] summary_no_insertions [OF assms(4), of files removed]
    by (cases "added = 0 \<and> removed \<noteq> 0") (auto simp: bareSummary_def statSummary_def)
  show "numberBefore '' deletion'' (p @ bareSummary files added removed) = int removed"
    using summary_deletions [OF assms(3,4), of files] summary_no_deletions [OF assms(4), of files added]
    by (cases "added = 0 \<and> removed \<noteq> 0"; cases "removed = 0 \<and> added \<noteq> 0") (auto simp: bareSummary_def statSummary_def)
qed

lemma trimSpace_bar: "trimSpace line \<noteq> [] \<and> containsText (trimSpace line) ''|'' \<longleftrightarrow> CHR ''|'' \<in> set line"
proof -
  have bar: "x \<in> set (dropWhile isSpace l) \<longleftrightarrow> x \<in> set l" if "\<not> isSpace x" for x l
    using that by (induction l) auto
  have "\<not> isSpace (CHR ''|'')" by code_simp
  then have "CHR ''|'' \<in> set (trimSpace line) \<longleftrightarrow> CHR ''|'' \<in> set line" by (simp add: trimSpace_def bar)
  moreover have "containsText l ''|'' \<longleftrightarrow> CHR ''|'' \<in> set l" for l
    by (auto simp: containsText_def sublist_def in_set_conv_decomp)
  ultimately show ?thesis by auto
qed

lemma splitChar_line: "CHR 0x0A \<notin> set l \<Longrightarrow> splitChar (CHR 0x0A) (l @ CHR 0x0A # s) = l # splitChar (CHR 0x0A) s"
  by (simp add: splitChar_append splitChar_single)

lemma splitChar_lines:
  "\<forall>l \<in> set ls. CHR 0x0A \<notin> set l \<Longrightarrow> CHR 0x0A \<notin> set z \<Longrightarrow>
     splitChar (CHR 0x0A) (concat (map (\<lambda>l. l @ [CHR 0x0A]) ls) @ z) = ls @ [z]"
  by (induction ls) (simp_all add: splitChar_line splitChar_single)

text \<open>Trimming the text removes blank lines at its start and blanks at the start of a line, but no file.\<close>

lemma trimmed_lines:
  assumes "\<forall>l \<in> set ls. CHR 0x0A \<notin> set l" and "CHR 0x0A \<notin> set z"
  shows "\<exists>ls' z'. splitChar (CHR 0x0A) (dropWhile isSpace (concat (map (\<lambda>l. l @ [CHR 0x0A]) ls) @ z)) = ls' @ [z'] \<and>
    z' \<in> {z, dropWhile isSpace z} \<and>
    length (filter (\<lambda>l. CHR ''|'' \<in> set l) ls') = length (filter (\<lambda>l. CHR ''|'' \<in> set l) ls)"
  using assms
proof (induction ls)
  case Nil
  then have "CHR 0x0A \<notin> set (dropWhile isSpace z)" by (meson set_dropWhileD)
  then show ?case by (intro exI [of _ "[]"] exI [of _ "dropWhile isSpace z"]) (simp add: splitChar_single)
next
  case (Cons l ls)
  let ?rest = "concat (map (\<lambda>l. l @ [CHR 0x0A]) ls) @ z"
  have nl: "isSpace (CHR 0x0A)" and bar: "\<not> isSpace (CHR ''|'')" by code_simp+
  show ?case
  proof (cases "\<forall>c \<in> set l. isSpace c")
    case True
    then have "dropWhile isSpace (l @ CHR 0x0A # ?rest) = dropWhile isSpace ?rest" using nl by (simp add: dropWhile_append)
    moreover have "CHR ''|'' \<notin> set l" using True bar by blast
    ultimately show ?thesis using Cons by simp
  next
    case False
    let ?l = "dropWhile isSpace l"
    have d: "dropWhile isSpace (l @ CHR 0x0A # ?rest) = ?l @ CHR 0x0A # ?rest" using False by (auto simp: dropWhile_append)
    have n: "CHR 0x0A \<notin> set ?l" using Cons.prems(1) by (meson list.set_intros(1) set_dropWhileD)
    have b: "CHR ''|'' \<in> set ?l \<longleftrightarrow> CHR ''|'' \<in> set l" using bar by (induction l) auto
    have "splitChar (CHR 0x0A) (?l @ CHR 0x0A # ?rest) = (?l # ls) @ [z]"
      using splitChar_line [OF n] splitChar_lines [of ls z] Cons.prems by simp
    with d b show ?thesis by (intro exI [of _ "?l # ls"] exI [of _ z]) simp
  qed
qed

lemma trimSpace_line:
  assumes "x \<noteq> []" and "\<not> isSpace (last x)"
  shows "trimSpace (x @ [CHR 0x0A]) = dropWhile isSpace x"
proof -
  have nl: "isSpace (CHR 0x0A)" by code_simp
  have "dropWhile isSpace (x @ [CHR 0x0A]) = dropWhile isSpace x @ [CHR 0x0A]" and ne: "dropWhile isSpace x \<noteq> []"
    using assms last_in_set [OF assms(1)] by (auto simp: dropWhile_append)
  moreover have "last (dropWhile isSpace x) = last x" using ne by (metis last_appendR takeWhile_dropWhile_id)
  then have "dropWhile isSpace (rev (dropWhile isSpace x)) = rev (dropWhile isSpace x)"
    using assms(2) ne hd_rev [of "dropWhile isSpace x"] by (cases "rev (dropWhile isSpace x)") auto
  ultimately show ?thesis using nl by (simp add: trimSpace_def)
qed

lemma summary_plain: "CHR 0x0A \<notin> set (statSummary f a r)" "statSummary f a r \<noteq> []" "\<not> isSpace (last (statSummary f a r))"
proof -
  have "CHR 0x0A \<notin> set (decimal n)" for n
    using decimal_digits [of n] digit_plain by (auto simp: list_all_iff isSpace_def)
  then show "CHR 0x0A \<notin> set (statSummary f a r)" by (simp add: statSummary_def plural_def)
  show "statSummary f a r \<noteq> []" by (simp add: statSummary_def)
  show "\<not> isSpace (last (statSummary f a r))" by (simp add: statSummary_def isSpace_def)
qed

lemma summary_bare: "statSummary f a r = '' '' @ bareSummary f a r" "dropWhile isSpace (statSummary f a r) = bareSummary f a r"
proof -
  show s: "statSummary f a r = '' '' @ bareSummary f a r" by (simp add: bareSummary_def statSummary_def)
  obtain d ds where d: "decimal f = d # ds" using decimal_Cons by blast
  then have "\<not> isSpace d" using decimal_digits [of f] digit_plain by simp
  then show "dropWhile isSpace (statSummary f a r) = bareSummary f a r" unfolding s
    by (simp add: bareSummary_def statSummary_def d isSpace_def)
qed

section \<open>Properties\<close>

text \<open>
  The statistics of a fork are those that git reports: on the text of \<^verbatim>\<open>git diff --stat\<close> for any numbers of files, insertions
  and deletions, with singular words and with the parts that git leaves out, the parser returns exactly these numbers,
  and counts as modified exactly the lines of files.
\<close>

theorem diff_stat_read_back:
  assumes "\<forall>line \<in> set fileLines. CHR 0x0A \<notin> set line" and "files < 2 ^ 63" and "added < 2 ^ 63" and "removed < 2 ^ 63"
  shows "parseDiffStat (statText fileLines files added removed) =
    (\<lparr>dsFiles = int files, dsAdded = int added, dsRemoved = int removed\<rparr>,
     int (length (filter (\<lambda>line. CHR ''|'' \<in> set line) fileLines)), int added, int removed)"
proof -
  let ?z = "statSummary files added removed" and ?body = "concat (map (\<lambda>l. l @ [CHR 0x0A]) fileLines)"
  note z = summary_plain [of files added removed]
  have t: "trimSpace (statText fileLines files added removed) = dropWhile isSpace (?body @ ?z)"
    using trimSpace_line [of "?body @ ?z"] z by (simp add: statText_def)
  obtain ls z' where l: "splitChar (CHR 0x0A) (dropWhile isSpace (?body @ ?z)) = ls @ [z']" "z' \<in> {?z, dropWhile isSpace ?z}"
    "length (filter (\<lambda>l. CHR ''|'' \<in> set l) ls) = length (filter (\<lambda>l. CHR ''|'' \<in> set l) fileLines)"
    using trimmed_lines [OF assms(1) z(1)] by blast
  obtain p where p: "p \<in> {[], '' ''}" "z' = p @ bareSummary files added removed"
    using l(2) unfolding summary_bare(2) by (auto simp: summary_bare(1))
  show ?thesis
    unfolding parseDiffStat_def Let_def t l(1) p(2) trimSpace_bar
    using l(3) summary_numbers [OF assms(2-4) p(1)] by (simp only: last_snoc butlast_snoc)
qed

theorem diff_stat_read_back_witness:
  "parseDiffStat (statText ['' a.go | 10 ++++------'', '' b.go |  5 +++++''] 2 9 1) =
     (\<lparr>dsFiles = 2, dsAdded = 9, dsRemoved = 1\<rparr>, 2, 9, 1)"
  using diff_stat_read_back [of "['' a.go | 10 ++++------'', '' b.go |  5 +++++'']" 2 9 1] by simp

end
