(* ===== verification/Sub_Tasks.thy ===== *)
theory Sub_Tasks
  imports Graph_Safety Forks
begin

text \<open>
  Sub-tasks (src/internal/conductor/conductor_subtask.go): a node of a graph that runs phases of its own in an isolated
  worktree, as a graph that is a chain. The git program, the worker pool and the run of the nested scheduler are
  parameters; what the scheduler does with the chain follows from its model. The effects of a run are the calls of git
  that change the repository and the events, in order; provisioning of the worktree and logs are left out.
\<close>

section \<open>The configuration\<close>

definition validSubTaskPhases :: "string list" where
  "validSubTaskPhases = [''plan'', ''implement'', ''simplify'', ''optimize'', ''review'']"

definition validateSubTaskConfig :: "SubTaskConfig \<Rightarrow> string option" where
  "validateSubTaskConfig config =
     (if stPhases config = [] then Some ''sub-task: no phases specified''
      else map_option (\<lambda>p. ''sub-task: unknown phase '' @ quote p) (find (\<lambda>p. p \<notin> set validSubTaskPhases) (stPhases config)))"

definition subTaskNodeID :: "string \<Rightarrow> nat \<Rightarrow> NodeID" where
  "subTaskNodeID phase index = phase @ ''-'' @ decimal index"

definition subTaskPhaseInstruction :: "string \<Rightarrow> string" where
  "subTaskPhaseInstruction phase =
     (if phase = ''plan'' then ''Write a focused specification for this sub-task.''
      else if phase = ''implement'' then ''Implement the sub-task according to its specification.''
      else if phase = ''simplify'' then ''Simplify the implementation without changing its behavior.''
      else if phase = ''optimize'' then ''Improve the quality and performance of the implementation.''
      else if phase = ''review'' then ''Review the implementation and report any issues.''
      else ''Run the requested phase.'')"

definition buildSubTaskPhasePrompt :: "SubTaskConfig \<Rightarrow> string \<Rightarrow> string" where
  "buildSubTaskPhasePrompt config phase =
     ''Sub-task: '' @ stTitle config @ [CHR 0x0A] @
     (if stDescription config \<noteq> [] then [CHR 0x0A] @ stDescription config @ [CHR 0x0A] else []) @
     [CHR 0x0A] @ ''Phase: '' @ phase @ [CHR 0x0A] @ subTaskPhaseInstruction phase @ [CHR 0x0A]"

text \<open>The loop that builds the chain; an error of \<^verbatim>\<open>AddNode\<close> is ignored.\<close>

definition addPhase :: "SubTaskConfig \<Rightarrow> nat \<times> string \<Rightarrow> NodeID \<times> Graph \<Rightarrow> NodeID \<times> Graph" where
  "addPhase config iphase acc =
     (case (iphase, acc) of ((i, phase), (prev, g)) \<Rightarrow>
        let nid = subTaskNodeID phase i;
            node = zeroNode\<lparr>nID := nid, nLabel := phase, nJobType := phase, nPrompt := buildSubTaskPhasePrompt config phase,
                     nDependsOn := (if prev \<noteq> [] then [prev] else [])\<rparr>
        in (nid, case AddNode node g of Inl _ \<Rightarrow> g | Inr g' \<Rightarrow> g'))"

definition buildSubTaskGraph :: "SubTaskConfig \<Rightarrow> Graph" where
  "buildSubTaskGraph config = snd (fold (addPhase config) (List.enumerate 0 (stPhases config)) ([], NewGraph))"

definition aggregateSubTaskOutput :: "SubTaskConfig \<Rightarrow> (NodeID \<rightharpoonup> string) \<Rightarrow> string" where
  "aggregateSubTaskOutput config results =
     trimSpace (concat (map (\<lambda>(i, phase). case results (subTaskNodeID phase i) of
        None \<Rightarrow> [] | Some out \<Rightarrow> if out = [] then [] else ''## '' @ phase @ [CHR 0x0A] @ out @ [CHR 0x0A, CHR 0x0A])
        (List.enumerate 0 (stPhases config))))"

section \<open>The run\<close>

datatype SubTaskEffect =
    AddedWorktree string string bool string
  | CommittedWork string string
  | RemovedWorktree string
  | PrunedWorktrees
  | EmittedEvent string string

text \<open>
  The outside of a run: whether there is a pool, the repository's parent directory if there is one, the current commit,
  the existing branches, the error of adding the worktree, what the nested scheduler ends with (the outputs of its nodes, its
  results and whether it has failures, or nothing if it does not end), and the repository of the worktree.
\<close>

record SubTaskEnv =
  sxPool :: bool
  sxParent :: "string option"
  sxCommit :: "string result"
  sxBranchExists :: "string \<Rightarrow> bool"
  sxAddWorktree :: "string option"
  sxRun :: "(string list \<times> (NodeID \<rightharpoonup> string) \<times> bool) option"
  sxOpen :: "string option"
  sxDirty :: "bool result"
  sxStage :: "string option"
  sxCommitWork :: "string option"

definition commitSubTaskWork :: "SubTaskEnv \<Rightarrow> string \<Rightarrow> string \<Rightarrow> string option \<times> SubTaskEffect list" where
  "commitSubTaskWork env worktreeDir message =
     (case sxOpen env of
        Some err \<Rightarrow> (Some (''open worktree repo: '' @ err), [])
      | None \<Rightarrow>
          (case sxDirty env of
             Inl err \<Rightarrow> (Some (''check changes: '' @ err), [])
           | Inr dirty \<Rightarrow>
               if \<not> dirty then (None, [])
               else (case sxStage env of
                 Some err \<Rightarrow> (Some (''stage: '' @ err), [])
               | None \<Rightarrow>
                   (case sxCommitWork env of
                      Some err \<Rightarrow> (Some (''commit: '' @ err), [])
                    | None \<Rightarrow> (None, [CommittedWork worktreeDir message])))))"

definition subTaskLabel :: "SubTaskConfig \<Rightarrow> string" where
  "subTaskLabel config = (let label = sanitizeBranchLabel (stTitle config) in take 40 (if label = [] then ''subtask'' else label))"

definition subTaskBranch :: "string \<Rightarrow> string \<Rightarrow> SubTaskConfig \<Rightarrow> string" where
  "subTaskBranch taskID shortID config =
     (if stBranch config = [] then ''kvelmo-subtask/'' @ taskID @ ''/'' @ subTaskLabel config @ ''-'' @ shortID else stBranch config)"

text \<open>The part of \<^verbatim>\<open>RunSubTask\<close> that runs in the worktree; the deferred removal comes after it.\<close>

definition runInWorktree :: "SubTaskEnv \<Rightarrow> SubTaskConfig \<Rightarrow> string \<Rightarrow> (string \<times> string option \<times> SubTaskEffect list) option" where
  "runInWorktree env config worktreeDir =
     (case sxRun env of
        None \<Rightarrow> None
      | Some (outputs, results, failed) \<Rightarrow>
          let commitMsg = (if failed then ''Sub-task (failed): '' else ''Sub-task: '') @ stTitle config;
              commits = snd (commitSubTaskWork env worktreeDir commitMsg);
              effs = [EmittedEvent ''sub_task_started'' (''Sub-task started: '' @ stTitle config)] @
                     map (EmittedEvent ''sub_task_output'') outputs @ commits
          in Some (aggregateSubTaskOutput config results,
                   if failed
                   then (Some (''sub-task '' @ quote (stTitle config) @ '' failed during execution''),
                         effs @ [EmittedEvent ''sub_task_failed'' (''Sub-task failed: '' @ stTitle config)])
                   else (None, effs @ [EmittedEvent ''sub_task_completed'' (''Sub-task completed: '' @ stTitle config)])))"

definition RunSubTask ::
  "SubTaskEnv \<Rightarrow> string \<Rightarrow> string \<Rightarrow> SubTaskConfig \<Rightarrow> (string \<times> string option \<times> SubTaskEffect list) option" where
  "RunSubTask env taskID shortID config =
     (case validateSubTaskConfig config of
        Some err \<Rightarrow> Some ([], Some err, [])
      | None \<Rightarrow>
          if \<not> sxPool env then Some ([], Some ''sub-task: worker pool not available'', [])
          else (case sxParent env of
            None \<Rightarrow> Some ([], Some ''sub-task: git repository not available'', [])
          | Some parent \<Rightarrow>
              (case sxCommit env of
                 Inl err \<Rightarrow> Some ([], Some (''sub-task: resolve base commit: '' @ err), [])
               | Inr baseSHA \<Rightarrow>
                   let branchName = subTaskBranch taskID shortID config;
                       worktreeDir = worktreePath parent (''subtask-'' @ subTaskLabel config @ ''-'' @ shortID);
                       createBranch = (\<not> sxBranchExists env branchName) in
                   if prefix ''-'' branchName then Some ([], Some (''sub-task: invalid branch name '' @ quote branchName), [])
                   else (case sxAddWorktree env of
                     Some err \<Rightarrow> Some ([], Some (''sub-task: create worktree: '' @ err), [])
                   | None \<Rightarrow>
                       (case runInWorktree env config worktreeDir of
                          None \<Rightarrow> None
                        | Some (out, err, effs) \<Rightarrow>
                            Some (out, err, AddedWorktree worktreeDir branchName createBranch baseSHA # effs @
                                            [RemovedWorktree worktreeDir, PrunedWorktrees]))))))"

section \<open>The chain\<close>

lemma subTaskNodeID_inject: "subTaskNodeID p i = subTaskNodeID q j \<Longrightarrow> i = j \<and> p = q"
proof -
  assume "subTaskNodeID p i = subTaskNodeID q j"
  then have eq: "rev (decimal i) @ CHR ''-'' # rev p = rev (decimal j) @ CHR ''-'' # rev q"
    unfolding subTaskNodeID_def by (metis append_Cons append_Nil append_assoc rev.simps(2) rev_append)
  have tw: "takeWhile (\<lambda>c. c \<noteq> CHR ''-'') (rev (decimal n) @ CHR ''-'' # xs) = rev (decimal n)" for n xs
    using decimal_no_dash [of n] by (subst takeWhile_append2) auto
  have "rev (decimal i) = rev (decimal j)" using arg_cong [OF eq, of "takeWhile (\<lambda>c. c \<noteq> CHR ''-'')"] by (simp add: tw)
  with eq show ?thesis by simp
qed

lemma subTaskNodeID_nonempty: "subTaskNodeID p i \<noteq> []"
  by (simp add: subTaskNodeID_def)

definition chainNode :: "SubTaskConfig \<Rightarrow> nat \<Rightarrow> Node" where
  "chainNode config i = zeroNode\<lparr>nID := subTaskNodeID (stPhases config ! i) i, nLabel := stPhases config ! i,
     nJobType := stPhases config ! i, nPrompt := buildSubTaskPhasePrompt config (stPhases config ! i),
     nDependsOn := (if i = 0 then [] else [subTaskNodeID (stPhases config ! (i - 1)) (i - 1)])\<rparr>"

abbreviation phaseID :: "SubTaskConfig \<Rightarrow> nat \<Rightarrow> NodeID" where
  "phaseID config i \<equiv> subTaskNodeID (stPhases config ! i) i"

lemma update_new: "k \<notin> fst ` set m \<Longrightarrow> AList.update k v m = m @ [(k, v)]"
  by (induction m) auto

lemma chain_built:
  assumes "n \<le> length (stPhases config)"
  shows "fold (addPhase config) (take n (List.enumerate 0 (stPhases config))) ([], NewGraph) =
    (if n = 0 then [] else phaseID config (n - 1), NewGraph\<lparr>gNodes := map (\<lambda>i. (phaseID config i, chainNode config i)) [0..<n]\<rparr>)"
  using assms
proof (induction n)
  case 0
  show ?case by (simp add: NewGraph_def)
next
  case (Suc n)
  let ?nodes = "map (\<lambda>i. (phaseID config i, chainNode config i)) [0..<n]"
  have t: "take (Suc n) (List.enumerate 0 (stPhases config)) = take n (List.enumerate 0 (stPhases config)) @ [(n, stPhases config ! n)]"
    using Suc.prems by (simp add: take_Suc_conv_app_nth nth_enumerate_eq)
  have new: "phaseID config n \<notin> fst ` set ?nodes" using subTaskNodeID_inject by fastforce
  have "AList.update (phaseID config n) v ?nodes = ?nodes @ [(phaseID config n, v)]" for v
    using new by (rule update_new)
  moreover have "map_of ?nodes (phaseID config n) = None" using new by (simp add: map_of_eq_None_iff)
  ultimately show ?case using Suc unfolding t
    by (simp add: addPhase_def AddNode_def Let_def chainNode_def NewGraph_def subTaskNodeID_nonempty)
qed

lemma buildSubTaskGraph_nodes:
  "buildSubTaskGraph config = NewGraph\<lparr>gNodes := map (\<lambda>i. (phaseID config i, chainNode config i)) [0..<length (stPhases config)]\<rparr>"
  using chain_built [of "length (stPhases config)" config] by (simp add: buildSubTaskGraph_def)

lemma chain_lookup:
  "map_of (gNodes (buildSubTaskGraph config)) k = Some node \<longleftrightarrow>
     (\<exists>i < length (stPhases config). k = phaseID config i \<and> node = chainNode config i)"
proof -
  have "distinct (map fst (map (\<lambda>i. (phaseID config i, chainNode config i)) [0..<length (stPhases config)]))"
    using subTaskNodeID_inject by (fastforce simp: distinct_map inj_on_def o_def)
  from wf_map_ran [OF this, of k node] show ?thesis by (auto simp: buildSubTaskGraph_nodes)
qed

lemma chain_wf: "graph_wf (buildSubTaskGraph config)"
  using subTaskNodeID_inject
  by (fastforce simp: graph_wf_def buildSubTaskGraph_nodes list_all_iff distinct_map inj_on_def o_def chainNode_def)

lemma chain_depends:
  "(x, y) \<in> depends (buildSubTaskGraph config) \<longleftrightarrow>
     (\<exists>i. Suc i < length (stPhases config) \<and> x = phaseID config (Suc i) \<and> y = phaseID config i)"
proof
  assume "(x, y) \<in> depends (buildSubTaskGraph config)"
  then obtain i where i: "i < length (stPhases config)" "x = phaseID config i" "y \<in> set (nDependsOn (chainNode config i))"
    by (auto simp: depends_def chain_lookup)
  then show "\<exists>i. Suc i < length (stPhases config) \<and> x = phaseID config (Suc i) \<and> y = phaseID config i"
    by (cases i) (auto simp: chainNode_def)
next
  assume "\<exists>i. Suc i < length (stPhases config) \<and> x = phaseID config (Suc i) \<and> y = phaseID config i"
  then obtain i where "Suc i < length (stPhases config)" "x = phaseID config (Suc i)" "y = phaseID config i" by blast
  moreover have "y \<in> set (nDependsOn (chainNode config (Suc i)))" using calculation by (simp add: chainNode_def)
  ultimately show "(x, y) \<in> depends (buildSubTaskGraph config)" by (auto simp: depends_def chain_lookup)
qed

lemma chain_acyclic: "acyclic (depends (buildSubTaskGraph config))"
proof -
  have "\<exists>i j. j < i \<and> x = phaseID config i \<and> y = phaseID config j" if "(x, y) \<in> (depends (buildSubTaskGraph config))\<^sup>+" for x y
    using that
  proof (induction rule: trancl_induct)
    case (base y)
    then show ?case by (auto simp: chain_depends)
  next
    case (step y z)
    then obtain i j k where "j < i" "x = phaseID config i" "y = phaseID config j" "y = phaseID config (Suc k)" "z = phaseID config k"
      by (auto simp: chain_depends)
    moreover have "j = Suc k" using calculation subTaskNodeID_inject by metis
    ultimately have "k < i \<and> x = phaseID config i \<and> z = phaseID config k" by simp
    then show ?case by blast
  qed
  then show ?thesis unfolding acyclic_def using subTaskNodeID_inject by (metis less_irrefl)
qed

lemma chain_valid:
  assumes "validateSubTaskConfig config = None"
  shows "\<exists>g. Validate (buildSubTaskGraph config) = Inr g"
proof -
  let ?g = "buildSubTaskGraph config"
  have "stPhases config \<noteq> []" using assms by (auto simp: validateSubTaskConfig_def split: if_splits)
  then have "gNodes ?g \<noteq> []" by (simp add: buildSubTaskGraph_nodes)
  moreover have "node_ok ?g n" if "n \<in> set (nodeList ?g)" for n
  proof -
    from that obtain i where i: "i < length (stPhases config)" "n = chainNode config i"
      by (auto simp: nodeList_def buildSubTaskGraph_nodes)
    have "map_of (gNodes ?g) dep \<noteq> None" if "dep \<in> set (nDependsOn n)" for dep
    proof -
      from that i obtain j where "i = Suc j" "dep = phaseID config j" by (cases i) (auto simp: chainNode_def)
      then have "map_of (gNodes ?g) dep = Some (chainNode config j)" using i(1) chain_lookup Suc_lessD by blast
      then show ?thesis by simp
    qed
    then show ?thesis using i(2) by (simp add: node_ok_def chainNode_def zeroNode_def)
  qed
  ultimately show ?thesis using Validate_iff [OF chain_wf] chain_acyclic by blast
qed

section \<open>Properties\<close>

text \<open>
  C29: The phases of a sub-task become a valid chain: for every accepted configuration the graph passes validation, it has
  exactly one node per phase, also if a phase is repeated, with that phase as its job, and each node depends exactly on
  its predecessor, so that the scheduler can run the phases only in their order.
\<close>

theorem sub_task_graph_is_chain:
  assumes "validateSubTaskConfig config = None"
  shows "(\<exists>g. Validate (buildSubTaskGraph config) = Inr g) \<and>
    map (\<lambda>n. nJobType n) (nodeList (buildSubTaskGraph config)) = stPhases config \<and>
    distinct (map nID (nodeList (buildSubTaskGraph config))) \<and>
    depends (buildSubTaskGraph config) =
      {(phaseID config (Suc i), phaseID config i) | i. Suc i < length (stPhases config)}"
proof -
  have "map (\<lambda>n. nJobType n) (nodeList (buildSubTaskGraph config)) = stPhases config"
    by (rule nth_equalityI) (simp_all add: nodeList_def buildSubTaskGraph_nodes chainNode_def)
  moreover have "distinct (map nID (nodeList (buildSubTaskGraph config)))"
    using subTaskNodeID_inject by (fastforce simp: nodeList_def buildSubTaskGraph_nodes chainNode_def distinct_map inj_on_def o_def)
  moreover have "depends (buildSubTaskGraph config) = {(phaseID config (Suc i), phaseID config i) | i. Suc i < length (stPhases config)}"
    using chain_depends by auto
  ultimately show ?thesis using chain_valid [OF assms] by blast
qed

definition demo_sub_task :: SubTaskConfig where
  "demo_sub_task = \<lparr>stTitle = ''Fix it'', stDescription = [], stPhases = [''implement'', ''review'', ''implement''], stBranch = [], stMetadata = []\<rparr>"

theorem sub_task_graph_is_chain_witness:
  "(''review-1'', ''implement-0'') \<in> depends (buildSubTaskGraph demo_sub_task)"
proof -
  have "validateSubTaskConfig demo_sub_task = None" by code_simp
  from sub_task_graph_is_chain [OF this] have "depends (buildSubTaskGraph demo_sub_task) =
      {(phaseID demo_sub_task (Suc i), phaseID demo_sub_task i) | i. Suc i < length (stPhases demo_sub_task)}" by blast
  moreover have "Suc 0 < length (stPhases demo_sub_task)" by code_simp
  ultimately have "(phaseID demo_sub_task (Suc 0), phaseID demo_sub_task 0) \<in> depends (buildSubTaskGraph demo_sub_task)" by auto
  moreover have "phaseID demo_sub_task (Suc 0) = ''review-1''" "phaseID demo_sub_task 0 = ''implement-0''" by code_simp+
  ultimately show ?thesis by (simp only:)
qed

lemma commit_effects:
  "snd (commitSubTaskWork env dir msg) = [] \<or> snd (commitSubTaskWork env dir msg) = [CommittedWork dir msg]"
  by (simp add: commitSubTaskWork_def split: option.splits sum.splits)

lemma runInWorktree_Some:
  assumes "runInWorktree env config dir = Some (out, err, effs)"
  shows "\<exists>outputs results failed msg. sxRun env = Some (outputs, results, failed) \<and> out = aggregateSubTaskOutput config results \<and>
    (err = None \<longleftrightarrow> \<not> failed) \<and> filter (\<lambda>e. \<nexists>t m. e = EmittedEvent t m) effs \<in> {[], [CommittedWork dir msg]}"
proof -
  obtain outputs results failed where r: "sxRun env = Some (outputs, results, failed)"
    using assms by (auto simp: runInWorktree_def split: option.splits)
  let ?msg = "(if failed then ''Sub-task (failed): '' else ''Sub-task: '') @ stTitle config"
  from assms r commit_effects [of env dir ?msg] show ?thesis
    by (intro exI [of _ outputs] exI [of _ results] exI [of _ failed] exI [of _ ?msg]) (auto simp: runInWorktree_def Let_def)
qed

text \<open>
  A sub-task leaves no worktree behind: if it returns, either it failed before it added a worktree and had no effect, or
  it added one worktree, on a branch that git does not take for an option, committed in it at most once, and then, after
  everything else, asked git to remove it; and it reports an error exactly if the nested run had failures.
\<close>

theorem sub_task_removes_worktree:
  assumes "RunSubTask env taskID shortID config = Some (out, err, effs)"
  shows "effs = [] \<and> out = [] \<and> err \<noteq> None \<or>
    (\<exists>dir branch create sha middle outputs results failed msg.
       effs = AddedWorktree dir branch create sha # middle @ [RemovedWorktree dir, PrunedWorktrees] \<and> \<not> prefix ''-'' branch \<and>
       filter (\<lambda>e. \<nexists>t m. e = EmittedEvent t m) middle \<in> {[], [CommittedWork dir msg]} \<and>
       sxRun env = Some (outputs, results, failed) \<and> (err = None \<longleftrightarrow> \<not> failed) \<and> out = aggregateSubTaskOutput config results)"
proof (cases "effs = []")
  case True
  then show ?thesis using assms by (auto simp: RunSubTask_def Let_def split: option.splits if_splits sum.splits) metis
next
  case False
  let ?branch = "subTaskBranch taskID shortID config"
  from assms False obtain dir sha create middle where r: "runInWorktree env config dir = Some (out, err, middle)" "\<not> prefix ''-'' ?branch"
    "effs = AddedWorktree dir ?branch create sha # middle @ [RemovedWorktree dir, PrunedWorktrees]"
    by (auto simp: RunSubTask_def Let_def split: option.splits if_splits sum.splits)
  from runInWorktree_Some [OF r(1)] r(2,3) show ?thesis by blast
qed

definition demo_sub_env :: SubTaskEnv where
  "demo_sub_env = \<lparr>sxPool = True, sxParent = Some ''/home'', sxCommit = Inr ''abc'', sxBranchExists = (\<lambda>_. False), sxAddWorktree = None,
     sxRun = Some ([''ok''], (\<lambda>n. if n = ''review-1'' then Some ''ok'' else None), False), sxOpen = None, sxDirty = Inr True, sxStage = None, sxCommitWork = None\<rparr>"

theorem sub_task_removes_worktree_witness:
  "\<exists>dir. last (snd (snd (the (RunSubTask demo_sub_env ''t1'' ''ab12'' demo_sub_task)))) = PrunedWorktrees \<and>
     RemovedWorktree dir \<in> set (snd (snd (the (RunSubTask demo_sub_env ''t1'' ''ab12'' demo_sub_task))))"
proof -
  have some: "RunSubTask demo_sub_env ''t1'' ''ab12'' demo_sub_task \<noteq> None" "snd (snd (the (RunSubTask demo_sub_env ''t1'' ''ab12'' demo_sub_task))) \<noteq> []"
    by code_simp+
  then obtain out err effs where r: "RunSubTask demo_sub_env ''t1'' ''ab12'' demo_sub_task = Some (out, err, effs)" by auto
  from sub_task_removes_worktree [OF r] some(2) r show ?thesis by auto
qed

lemma chain_node_plain:
  assumes "map_of (gNodes (buildSubTaskGraph config)) k = Some node"
  shows "nMaxIterations node = 0" "nErrorStrategy node = ErrorFail"
  using assms by (auto simp: chain_lookup chainNode_def zeroNode_def)

lemma chain_started:
  assumes "startRun submit [] (NewScheduler (buildSubTaskGraph config)) = Inr s0"
  shows "reachable sched_init sched_step s0" "gNodes (sGraph s0) = gNodes (buildSubTaskGraph config)" "settled (sGraph s0)"
    "smFailEdges (sState s0) = (\<lambda>_. None)"
proof -
  let ?g = "buildSubTaskGraph config"
  obtain g' where v: "Validate ?g = Inr g'" and s0: "s0 = enqueueReady submit ((NewScheduler ?g)\<lparr>sGraph := g'\<rparr>)"
    using assms by (auto simp: startRun_def NewScheduler_def split: sum.splits)
  let ?s = "(NewScheduler ?g)\<lparr>sGraph := g'\<rparr>"
  have nodes: "gNodes g' = gNodes ?g" by (rule Validate_keeps [OF v])
  then have st: "settled (sGraph ?s)" using chain_node_plain by (simp add: settled_def)
  then have p: "prog ?s s0" using enqueueReady_good [of ?s submit] by (simp add: good_def s0)
  then have g: "sGraph s0 = g'" by (simp add: prog_def)
  show "gNodes (sGraph s0) = gNodes ?g" "settled (sGraph s0)" using g nodes st by simp_all
  show "smFailEdges (sState s0) = (\<lambda>_. None)"
    using p by (simp add: prog_def forward_def NewScheduler_def NewStateManager_def buildSubTaskGraph_nodes NewGraph_def fun_eq_iff)
  have "WithMaxParallel 0 (NewScheduler ?g) = NewScheduler ?g" by (simp add: WithMaxParallel_def)
  then have "sched_init s0" unfolding sched_init_def using assms chain_wf
    by (intro exI [of _ ?g] exI [of _ "0::int"] exI [of _ False] exI [of _ submit] exI [of _ "[]"]) auto
  then show "reachable sched_init sched_step s0" by (rule reachable.reach_init)
qed

lemma reachable_run: "step\<^sup>*\<^sup>* s t \<Longrightarrow> reachable init step s \<Longrightarrow> reachable init step t"
  by (induction rule: rtranclp_induct) (auto intro: reachable.reach_step)

text \<open>
  C30: A sub-task with a failing phase never returns: once a phase that is not the last one has failed, the next phase stays
  pending in every continuation of the nested run, and the polling loop that the sub-task waits for never ends by itself.
\<close>

theorem failing_sub_task_never_returns:
  assumes "startRun submit [] (NewScheduler (buildSubTaskGraph config)) = Inr s0"
    and "sched_step\<^sup>*\<^sup>* s0 s" and "Suc i < length (stPhases config)"
    and "Get (sState s) (phaseID config i) = NodeFailed" and "Get (sState s) (phaseID config (Suc i)) = NodePending"
    and "sched_step\<^sup>*\<^sup>* s t"
  shows "Get (sState t) (phaseID config (Suc i)) = NodePending \<and> pollRun t = t"
proof -
  note c = chain_started [OF assms(1)]
  have "ready_inv s0" using ready.reachable_inv [OF c(1)] c(3) by simp
  from run_prog [OF assms(2) this] have p: "prog s0 s" by blast
  have r: "reachable sched_init sched_step s" using reachable_run [OF assms(2) c(1)] .
  have g: "sGraph s = sGraph s0" "smFailEdges (sState s) (phaseID config i) = None" using p c(4) by (simp_all add: prog_def forward_def)
  have n: "map_of (gNodes (sGraph s)) (phaseID config (Suc i)) = Some (chainNode config (Suc i))"
    unfolding g(1) c(2) chain_lookup using assms(3) by blast
  have d: "phaseID config i \<in> set (nDependsOn (chainNode config (Suc i)))" "nID (chainNode config (Suc i)) \<noteq> []"
    by (simp_all add: chainNode_def subTaskNodeID_nonempty)
  show ?thesis using stranded_dependents [OF r _ assms(4) g(2) n d assms(5,6)] c(3) g(1) by simp
qed

definition phase_fails :: "Action list" where
  "phase_fails = Graph_Scheduler.Finish 0 (Inl ''boom'') # replicate 6 (Advance 0 okPool)"

lemma demo_phase_failed:
  "ends_with (\<lambda>s. Get (sState s) (phaseID demo_sub_task 0) = NodeFailed \<and> Get (sState s) (phaseID demo_sub_task (Suc 0)) = NodePending)
   (scenario (buildSubTaskGraph demo_sub_task) 0 phase_fails)"
  by code_simp

lemma runActions_steps: "runActions as s = Some t \<Longrightarrow> sched_step\<^sup>*\<^sup>* s t"
proof (induction as arbitrary: s)
  case (Cons a as)
  then obtain s1 where s1: "exec a s = Some s1" "runActions as s1 = Some t" by (auto split: option.splits)
  then have "sched_step s s1" by (auto simp: sched_step_def)
  then show ?case using Cons.IH [OF s1(2)] by (rule converse_rtranclp_into_rtranclp)
qed simp

theorem failing_sub_task_never_returns_witness:
  "\<exists>s. Get (sState s) (phaseID demo_sub_task 0) = NodeFailed \<and> Get (sState s) (phaseID demo_sub_task (Suc 0)) = NodePending \<and> pollRun s = s"
proof -
  have w: "WithMaxParallel 0 (NewScheduler g) = NewScheduler g" for g by (simp add: WithMaxParallel_def)
  from demo_phase_failed obtain s0 s where s: "startRun okPool [] (NewScheduler (buildSubTaskGraph demo_sub_task)) = Inr s0"
      "runActions phase_fails s0 = Some s" "Get (sState s) (phaseID demo_sub_task 0) = NodeFailed"
      "Get (sState s) (phaseID demo_sub_task (Suc 0)) = NodePending"
    by (auto simp: ends_with_def scenario_def w split: option.splits sum.splits)
  have "Suc 0 < length (stPhases demo_sub_task)" by code_simp
  from failing_sub_task_never_returns [OF s(1) runActions_steps [OF s(2)] this s(3,4) rtranclp.rtrancl_refl] s(3,4)
  show ?thesis by blast
qed

end
