(* ===== verification/Spec2Isabelle.thy ===== *)
theory Spec2Isabelle
  imports Submission_Windows Machine_Lifetime Checkpoints Task_Queue Graph_Scenarios Graph_Parse Pool_Properties Agent_Guards Retry
    Activity_Query Findings_Merge Quality_Properties Response_Cache Fork_Compare Sub_Tasks
begin

text \<open>
  A verification development for kvelmo, a program that drives coding agents through the life of a task:
  load, plan, implement, review, submit, finish.

  \<^bold>\<open>The program.\<close> The \<^emph>\<open>conductor\<close> (src/internal/conductor) owns the task. Its state machine
  decides which event is accepted in which state, its work unit carries the data the guards look at, and
  snapshots of both are persisted so that a restart resumes the task. A phase runs as a \<^emph>\<open>graph\<close> of nodes
  (src/internal/graph) whose scheduler submits jobs to the \<^emph>\<open>worker pool\<close> (src/internal/worker); the pool
  hands each job to an agent and turns the agent's events into a result. Around this core are the budget and
  the rate limit of agent calls, retries and circuit breakers for git and forges, groups of tasks across
  repositories, and the pool of variables that nodes share.

  \<^bold>\<open>Theories and sources.\<close>
  \<^item> \<open>Kvelmo_Prelude\<close>: base types, Go maps as association lists (the locale \<open>go_map\<close>), reachability and
    invariants (the locale \<open>step_invariant\<close>, which every stateful component interprets), numerals.
    \<open>Machine_Integers\<close>: 64-bit integers.
  \<^item> \<open>Work_Unit\<close>, \<open>State_Table\<close>, \<open>State_Machine\<close>: conductor/state.go, state_table.go, state_errors.go,
    state_machine.go and the entry into the phases of conductor_plan.go, conductor_implement.go and
    conductor_review.go. \<open>Machine_Lifetime\<close> adds resets, restarts and the loading of persisted tasks to the steps of the
    machine, with every transition that was ever recorded.
  \<^item> \<open>Task_Storage\<close>, \<open>Conductor_Core\<close>: the on-disk form of a task, its conversions and store, and the
    conductor's persistence, recovery and archiving. The YAML library is a parameter.
  \<^item> \<open>Checkpoints\<close>, \<open>Task_Queue\<close>, \<open>Task_End\<close>: undo, redo and jumps (git is a parameter with its
    documented laws), the queue of tasks, and stop, abort, reset, abandon, delete and finish.
  \<^item> \<open>Graph_Model\<close>, \<open>Graph_State\<close>, \<open>Graph_Scheduler\<close>: graph.go, state.go, scheduler.go,
    scheduler_handlers.go. The scheduler is a step relation: each goroutine (a watched job, a completion, an
    approval gate, a retry timer) is explicit, and a step is one critical section. \<open>Graph_Validation\<close>,
    \<open>Graph_Invariants\<close>, \<open>Graph_Safety\<close> and \<open>Graph_Scenarios\<close> hold the proofs. \<open>Graph_Parse\<close>: parse.go.
  \<^item> \<open>Worker_Pool\<close>: types.go, pool.go, pool_dispatch.go, pool_workers.go. Jobs, workers, metadata maps,
    event channels and contexts live in stores indexed by references, because the code shares them.
    \<open>Pool_Ledger\<close> is the abstract account of jobs, \<open>Pool_Refinement\<close> and \<open>Pool_Workers\<close> the proofs,
    \<open>Pool_Properties\<close> the properties.
  \<^item> \<open>Token_Budget\<close>: middleware.go, middleware_budget.go, middleware_ratelimit.go. \<open>Agent_Guards\<close> puts the
    limiter and the budget in front of one agent.
  \<^item> \<open>Circuit_Breaker\<close>, \<open>Retry\<close>: internal/retry and the breaker and retry loop of internal/provider. The
    two breakers interpret the locale \<open>circuit_breaker\<close>.
  \<^item> \<open>Rate_Limit\<close>: internal/ratelimit. \<open>Task_Group\<close>: internal/taskgroup. \<open>Var_Pool\<close>: internal/varpool.
  \<^item> \<open>Go_Text\<close>: the functions of Go's package strings that the text components use.
  \<^item> \<open>Phase_Errors\<close>, \<open>Phase_Policy\<close>: conductor/errors.go, conductor_phase_policy.go, router.go, and the phases' operations and ends
    (conductor_plan.go, conductor_implement.go, conductor_review.go, conductor_job.go, conductor_graph.go): what a failed
    phase does next (fail, retry, skip, iterate), with its timers as pending steps and its watchers.
  \<^item> \<open>Findings\<close>, \<open>Findings_Gates\<close>, \<open>Findings_Merge\<close>: internal/findings and the reviews of several agents
    (conductor_consensus.go, conductor_adversarial.go, conductor_hold_the_line.go).
  \<^item> \<open>Quality_Gate\<close>, \<open>Quality_Run\<close>, \<open>Quality_Properties\<close>: internal/quality (gates and the classification of failures),
    conductor_quality.go and conductor_autofix.go. Checkers, scanners and repairing agents are parameters.
  \<^item> \<open>Change_Policy\<close>, \<open>Risk_Approval\<close>: internal/policy, internal/riskeval, conductor_guardrail.go and
    conductor_approve.go, with the lock that an approval check runs under.
  \<^item> \<open>Git_Names\<close>, \<open>Pull_Request\<close>: names of branches and commits, texts of pull requests, the changelog
    (conductor_job_helpers.go, conductor_submit_pr.go, internal/changelog).
  \<^item> \<open>Submit_Policy\<close>, \<open>Submission\<close>: conductor_submit.go, conductor_submit_helpers.go, hooks.go: the checks before a
    submission, one definition per check and composed in the order of the code, and the submission itself; git, the
    hooks and the provider are parameters. \<open>Submission_Windows\<close> is the same submission among other goroutines, which act
    wherever it has released its lock (the locale \<open>interference\<close>).
  \<^item> \<open>Forks\<close>, \<open>Fork_Compare\<close>, \<open>Sub_Tasks\<close>: conductor_fork.go, fork_compare.go, conductor_subtask.go: branches of a task
    in worktrees of their own, the comparison of their changes, and nodes that run phases of their own.
  \<^item> \<open>Response_Cache\<close>: internal/respcache and conductor_cache.go, with the two critical sections of a lookup, which may
    interleave with everything else.
  \<^item> \<open>Activity_Log\<close>, \<open>Activity_Chain\<close>, \<open>Activity_Query\<close>: internal/activitylog and internal/timeline, with file system
    faults; JSON and SHA-256 are parameters with their laws (\<open>codec_laws\<close>, \<open>hash_laws\<close>).

  \<^bold>\<open>What is shown.\<close>
  \<^item> Life cycle: over the whole lifetime of the program a submitted task has been reviewed; submission is accepted exactly
    with a passed quality gate; a failed phase whose policy does not handle the failure returns to the state it was begun
    from, one that is retried is stuck; pause and resume, undo and redo, persist and
    load are inverse to each other; checkpoint navigation refines an abstract timeline.
  \<^item> Graphs: validation accepts exactly the executable graphs, its cycle search is sound and complete, parsed
    graphs are well-formed; under every interleaving no node runs before its dependencies, the limit of
    parallel nodes holds, the counter of running nodes is exact, finished nodes stay finished.
  \<^item> Pool: every step of the concurrent pool is a step of the abstract ledger; no job is lost or executed
    twice; workers are exclusive as long as no job is cancelled; the choice of a worker and the text of a
    result agree with reference definitions.
  \<^item> Guards around agent calls and requests: the compare-and-swap loop of the budget terminates and is
    linearizable, budgets and rates are kept, both circuit breakers follow the recorded history, retry
    loops end as specified and leak no response.
  \<^item> Groups and variables, for calls one after the other: a restart restores the groups, a task is submitted only with its
    group, variables are typed and scopes separate.
  \<^item> Forks and sub-tasks: the number of forks is limited and their names are distinct, the selected one survives; the graph
    of a sub-task is a chain, its worktree is removed, and one whose phase fails before the last never returns.
  \<^item> Submission: it is all or nothing under any interference, meets every configured condition, opens at most one pull request, and, the
    property below, lets no new and severe finding of the checkers through; the quality gate, the approval check
    and the merging of reviews decide exactly as specified; repairs are bounded.
  \<^item> Log and cache: what the log writes verifies, and the lines of a verified file are determined by its last line unless
    SHA-256 collides on them; queries agree with a reference; the response cache refines an unlimited store with expiry and
    stays within its limit. Of SHA-256 only the length of a digest is assumed; absence of collisions is a condition on the
    lines or prompts at hand, where it matters.
  \<^item> Several theorems state deviations: what the code does against its comments or its evident purpose.

  \<^bold>\<open>Bounds.\<close> Loops are structural recursions or have termination proofs; no fuel is used. The only loops that
  may run forever, the scheduler's polling and the concurrent components, are step relations, and their theorems
  quantify over all reachable states. Times are integers, \<^verbatim>\<open>float64\<close> quantities are rational numbers, and
  64-bit integers keep their width where the code can overflow (budget, back-off). Where texts are put in lower case (slugs,
  keys of findings) only ASCII letters change; the code's \<^verbatim>\<open>strings.ToLower\<close> knows all of Unicode. A response that the HTTP
  client returns together with an error is not distinguished from an error. The scheduler's step that enqueues ready nodes
  is one step, although handlers that hold only the lock of the graph state can run inside it.

  \<^bold>\<open>Not modelled.\<close> The programs that the quality gate runs, prompts and personas
  (text assembly), the sockets, the command line, terminal and web front ends, forge clients and the polling of pull
  requests, the git wrapper, memory and search, settings, browser and notification integrations, scanners, event
  logs and reports: input and output, calls to external services, or presentation. The directory src/prototype holds
  an earlier program and is left aside.
\<close>

section \<open>Submission and the quality gate\<close>

text \<open>
  C5: A submission that runs the quality gate itself, because the review has left no result, lets no new problem through: if
  \<^verbatim>\<open>Submit\<close> succeeds, the checkers of the gate have run and identifiers tell findings apart, then every finding that is
  high, critical or about security is on a line that the diff shows to be old, or classified as flaky.
\<close>

theorem submitted_findings_are_old_or_flaky:
  assumes "Submission.Submit env se net st ps b now r = Some (None, r')"
    and "wuQualityGatePassed (unitOf (srS r)) = None" "suCh (srS r) = NilChannel"
    and "seGate se = fst (runQualityGate qs repairs gateRuns now q)" "qyState q = mState (machineOf r)"
    and "list_all checkerSucceeds (gnCheckers (gateRuns 0))"
    and "inj_on fnID (set (concat (map foundBy (gnCheckers (gateRuns 0)))))"
    and "\<forall>f \<in> set (concat (map foundBy (gnCheckers (gateRuns 0)))). fnID f \<noteq> []"
  shows "\<forall>f \<in> set (concat (map foundBy (gnCheckers (gateRuns 0)))). severe f \<longrightarrow> dropsOld (gateRuns 0) f \<or> flaky qs q f"
  using assms(1)
proof (cases rule: submit_cases)
  case (submitted s prID r1)
  from preflight_conditions [OF submitted(2)] preflight_place [OF submitted(2)] have "qyState q = StateReviewing"
    using assms(5) by (auto simp: samePlace_def)
  moreover have "seGate se = None" using preflight_runs_gate [OF submitted(2) assms(2,3)] .
  ultimately have "fst (runQualityGateChecks qs (gateRuns 0) now q) = None" using assms(4) reviewing_gate by metis
  then have "fst (runUnifiedQualityGates qs (gateRuns 0) q) = None"
    by (auto simp: runQualityGateChecks_def split: prod.splits option.splits)
  then show ?thesis using unified_gate_passes [OF assms(6-8)] by blast
qed simp_all

theorem submitted_findings_are_old_or_flaky_witness:
  "severe (zeroFinding\<lparr>fnID := ''b'', fnMessage := ''Timeout''\<rparr>) \<and>
   (dropsOld demo_gate_run (zeroFinding\<lparr>fnID := ''b'', fnMessage := ''Timeout''\<rparr>) \<or>
    flaky demo_gate_settings demo_reviewing (zeroFinding\<lparr>fnID := ''b'', fnMessage := ''Timeout''\<rparr>))"
proof -
  let ?f = "zeroFinding\<lparr>fnID := ''b'', fnMessage := ''Timeout''\<rparr>"
  have "Submission.succeeds (Submission.Submit demo_env demo_submit_env demo_net Submit_Policy.demo_settings demo_pr False 9 Submission.demo_run)" by code_simp
  then obtain r' where s: "Submission.Submit demo_env demo_submit_env demo_net Submit_Policy.demo_settings demo_pr False 9 Submission.demo_run = Some (None, r')"
    by (auto simp: succeeds_iff)
  have p: "wuQualityGatePassed (unitOf (srS Submission.demo_run)) = None" "suCh (srS Submission.demo_run) = NilChannel"
      "qyState demo_reviewing = mState (machineOf Submission.demo_run)" by code_simp+
  have "fst (runQualityGate demo_gate_settings demo_repairs (\<lambda>_. demo_gate_run) 9 demo_reviewing) = None" by code_simp
  then have g: "seGate demo_submit_env = fst (runQualityGate demo_gate_settings demo_repairs (\<lambda>_. demo_gate_run) 9 demo_reviewing)"
    by (simp add: demo_submit_env_def)
  have c: "list_all checkerSucceeds (gnCheckers demo_gate_run)" by code_simp
  have ff: "set (concat (map foundBy (gnCheckers demo_gate_run))) =
      {zeroFinding\<lparr>fnID := ''a'', fnFile := ''x.go'', fnLine := 5, fnMessage := ''unused''\<rparr>, ?f}"
    by (simp add: demo_gate_run_def foundBy_def)
  have i: "inj_on fnID (set (concat (map foundBy (gnCheckers demo_gate_run))))" "\<forall>f \<in> set (concat (map foundBy (gnCheckers demo_gate_run))). fnID f \<noteq> []"
    unfolding ff by (simp_all add: inj_on_def)
  have "severe ?f" by code_simp
  moreover have "dropsOld demo_gate_run ?f \<or> flaky demo_gate_settings demo_reviewing ?f"
    using submitted_findings_are_old_or_flaky [OF s p(1,2) g p(3) c i] calculation unfolding ff by blast
  ultimately show ?thesis by blast
qed

end
